(* ===== verification/Prelude.thy ===== *)
theory Prelude
  imports Main "HOL-Library.Word"
begin

text \<open>
  The prelude of the development: the machine types of the sources, C pointers, byte
  lists, bounds-checked array accesses, and the lemmas on words and lists that the
  component theories share.
\<close>

unbundle bit_operations_syntax

section \<open>Types\<close>

type_synonym u8 = "8 word"
type_synonym u16 = "16 word"
type_synonym u32 = "32 word"
type_synonym u64 = "64 word"
type_synonym bytes = "u8 list"

text \<open>A C pointer argument: \<open>None\<close> is \<open>NULL\<close>, \<open>Some\<close> holds what it points to.\<close>

type_synonym 'a ptr = "'a option"

named_theorems byte_simps \<open>equations on byte lists and integer packing\<close>

section \<open>Byte lists\<close>

definition xor_bytes :: "bytes \<Rightarrow> bytes \<Rightarrow> bytes" where
  "xor_bytes xs ys = map2 (XOR) xs ys"

lemma length_xor_bytes [simp]:
  "length (xor_bytes xs ys) = min (length xs) (length ys)"
  by (simp add: xor_bytes_def)

lemma nth_xor_bytes [simp]:
  "i < length xs \<Longrightarrow> i < length ys \<Longrightarrow> xor_bytes xs ys ! i = xs ! i XOR ys ! i"
  by (simp add: xor_bytes_def)

lemma xor_cancel_right [simp]: "(a XOR b) XOR b = (a :: 'a::len word)"
  by (simp add: xor.assoc)

lemma xor_right_eq: "a XOR c = b XOR c \<longleftrightarrow> a = (b :: 'a::len word)"
  by (metis xor_cancel_right)

lemma xor_bytes_cancel:
  "length xs \<le> length ks \<Longrightarrow> xor_bytes (xor_bytes xs ks) ks = xs"
  by (rule nth_equalityI) simp_all

lemma xor_bytes_commute: "xor_bytes xs ys = xor_bytes ys xs"
  by (rule nth_equalityI) (simp_all add: xor.commute)

text \<open>
  An index loop that fills an array: \<open>for (i = 0; i < n; i++) a[f i] = g i\<close>.
\<close>

definition fill :: "nat \<Rightarrow> (nat \<Rightarrow> nat) \<Rightarrow> (nat \<Rightarrow> 'a) \<Rightarrow> 'a list \<Rightarrow> 'a list" where
  "fill n f g a = fold (\<lambda>i b. b[f i := g i]) [0..<n] a"

lemma fill_0 [simp]: "fill 0 f g a = a"
  by (simp add: fill_def)

lemma fill_Suc: "fill (Suc n) f g a = (fill n f g a)[f n := g n]"
  by (simp add: fill_def)

lemma length_fill [simp]: "length (fill n f g a) = length a"
  by (induction n) (simp_all add: fill_Suc)

lemma nth_fill_other:
  "(\<And>i. i < n \<Longrightarrow> f i \<noteq> j) \<Longrightarrow> fill n f g a ! j = a ! j"
  by (induction n) (simp_all add: fill_Suc)

lemma nth_fill:
  assumes "inj_on f {..<n}" and "i < n" and "f i < length a"
  shows "fill n f g a ! (f i) = g i"
  using assms
proof (induction n)
  case 0
  then show ?case by simp
next
  case (Suc n)
  show ?case
  proof (cases "i = n")
    case True
    then show ?thesis using Suc.prems by (simp add: fill_Suc)
  next
    case False
    then have "i < n" using Suc.prems(2) by simp
    moreover have "f n \<noteq> f i"
      using Suc.prems(1,2) False by (auto dest: inj_onD)
    moreover have "inj_on f {..<n}"
      using Suc.prems(1) by (rule inj_on_subset) auto
    ultimately show ?thesis
      using Suc.IH Suc.prems(3) by (simp add: fill_Suc)
  qed
qed

lemma fill_id:
  "length a = n \<Longrightarrow> fill n (\<lambda>i. i) g a = map g [0..<n]"
  by (rule nth_equalityI) (auto simp: nth_fill [where f = "\<lambda>i. i"])

section \<open>Bounds-checked accesses\<close>

text \<open>
  Where the index of an access is computed from a length argument the model checks the
  bounds: \<open>None\<close> is an access outside the object, which is undefined behaviour in C.
\<close>

definition rd :: "'a list \<Rightarrow> int \<Rightarrow> 'a option" where
  "rd xs i = (if 0 \<le> i \<and> i < int (length xs) then Some (xs ! nat i) else None)"

definition wr :: "'a list \<Rightarrow> int \<Rightarrow> 'a \<Rightarrow> 'a list option" where
  "wr xs i x = (if 0 \<le> i \<and> i < int (length xs) then Some (xs[nat i := x]) else None)"

fun ofold :: "('i \<Rightarrow> 's \<Rightarrow> 's option) \<Rightarrow> 'i list \<Rightarrow> 's \<Rightarrow> 's option" where
  "ofold f [] s = Some s"
| "ofold f (i # is) s = Option.bind (f i s) (ofold f is)"

lemma rd_Some [simp]: "i < length xs \<Longrightarrow> rd xs (int i) = Some (xs ! i)"
  by (simp add: rd_def)

lemma rd_negative [simp]: "i < 0 \<Longrightarrow> rd xs i = None"
  by (simp add: rd_def)

lemma wr_Some [simp]: "i < length xs \<Longrightarrow> wr xs (int i) x = Some (xs[i := x])"
  by (simp add: wr_def)

lemma wr_negative [simp]: "i < 0 \<Longrightarrow> wr xs i x = None"
  by (simp add: wr_def)

lemma ofold_append: "ofold f (is @ js) s = Option.bind (ofold f is s) (ofold f js)"
proof (induction "is" arbitrary: s)
  case Nil
  then show ?case by simp
next
  case (Cons a "is")
  then show ?case by (cases "f a s") simp_all
qed

lemma rd_append: "rd xs i = Some x \<Longrightarrow> rd (xs @ ys) i = Some x"
  by (auto simp: rd_def nth_append split: if_splits)

lemma ofold_mono:
  assumes "\<And>i s s'. f i s = Some s' \<Longrightarrow> g i s = Some s'" and "ofold f is s = Some s'"
  shows "ofold g is s = Some s'"
  using assms(2)
proof (induction "is" arbitrary: s)
  case (Cons i "is")
  then obtain t where "f i s = Some t" "ofold f is t = Some s'" by (cases "f i s") auto
  then show ?case using assms(1) [of i s t] Cons.IH by simp
qed simp

lemma bind_mono:
  "Option.bind x f = Some r \<Longrightarrow> (\<And>a. x = Some a \<Longrightarrow> y = Some a) \<Longrightarrow> (\<And>a. f a = Some r \<Longrightarrow> g a = Some r) \<Longrightarrow>
   Option.bind y g = Some r"
  by (cases x) auto

section \<open>Words\<close>

lemma mask_31 [byte_simps]: "(0x7FFFFFFF :: u32) = mask 31"
  by (simp add: mask_eq_exp_minus_1)

lemma and_mask_31: "x AND 0x7FFFFFFF = take_bit 31 (x :: u32)"
  by (simp only: mask_31 take_bit_eq_mask)

lemma or_eq_plus_disjoint:
  fixes a b :: "'a::len word"
  assumes "a AND b = 0"
  shows "a OR b = a + b"
  using assms by (simp add: disjunctive_add_eq_or)

lemma in_set_tl: "x \<in> set (tl xs) \<Longrightarrow> x \<in> set xs"
  by (cases xs) auto

lemma unat_and_mask_31: "unat (x AND 0x7FFFFFFF :: u32) = unat x mod 2^31"
  by (simp only: and_mask_31 unsigned_take_bit_eq) (simp add: take_bit_eq_mod)

lemma unat_drop_bit_div: "unat (drop_bit n (x :: u32)) = unat x div 2^n"
  by (simp only: unat_drop_bit_eq) (simp add: drop_bit_eq_div)

lemma push_or_plus: "take_bit n x = x \<Longrightarrow> push_bit n y OR x = push_bit n y + (x :: 'a::len word)"
  by (rule or_eq_plus_disjoint, rule bit_eqI)
    (metis bit_0_eq bit_and_iff bit_push_bit_iff bit_take_bit_iff bot_apply bot_bool_def leD)

lemma ball_set_shift: "\<forall>c \<in> set s. P c \<Longrightarrow> P x \<Longrightarrow> \<forall>c \<in> set (tl s @ [x]). P c"
  using in_set_tl by fastforce

lemma unat_u8_less: "unat (a :: u8) < 2^8"
  by (rule order_less_le_trans [OF unsigned_less]) simp

lemma unat_u32_less: "unat (a :: u32) < 2^32"
  by (rule order_less_le_trans [OF unsigned_less]) simp

lemma ofold_cong:
  "(\<And>i s. i \<in> set is \<Longrightarrow> f i s = g i s) \<Longrightarrow> ofold f is s = ofold g is s"
proof (induction "is" arbitrary: s)
  case (Cons i "is")
  then show ?case by (cases "g i s") simp_all
qed simp

lemma ofold_map_rd:
  "(\<And>j. j \<in> set js \<Longrightarrow> idx j < length data) \<Longrightarrow>
   ofold (\<lambda>j w. map_option (\<lambda>b. f j w b) (rd data (int (idx j)))) js w = Some (fold (\<lambda>j w. f j w (data ! idx j)) js w)"
  by (induction js arbitrary: w) simp_all

lemma ofold_map_rd_None:
  "j \<in> set js \<Longrightarrow> length data \<le> idx j \<Longrightarrow>
   ofold (\<lambda>j w. map_option (\<lambda>b. f j w b) (rd data (int (idx j)))) js w = None"
proof (induction js arbitrary: w)
  case (Cons i js)
  then show ?case by (cases "idx i < length data") (auto simp: rd_def)
qed simp

section \<open>Packing four bytes into a word\<close>

definition pack32 :: "u8 \<Rightarrow> u8 \<Rightarrow> u8 \<Rightarrow> u8 \<Rightarrow> u32" where
  "pack32 a b c d = push_bit 24 (ucast a) OR push_bit 16 (ucast b) OR push_bit 8 (ucast c) OR ucast d"

lemma bit_pack32:
  "bit (pack32 a b c d) n \<longleftrightarrow>
    (if n < 8 then bit d n else if n < 16 then bit c (n - 8)
     else if n < 24 then bit b (n - 16) else n < 32 \<and> bit a (n - 24))"
proof -
  have h: "\<not> bit (w :: u8) k" if "8 \<le> k" for w k
    using bit_imp_le_length [of w k] that by auto
  show ?thesis
    unfolding pack32_def by (auto simp: bit_simps h)
qed

section \<open>Output buffers\<close>

text \<open>\<open>put buf xs\<close>: the caller's buffer after its first \<open>length xs\<close> elements are written.\<close>

definition put :: "'a list \<Rightarrow> 'a list \<Rightarrow> 'a list" where
  "put buf xs = xs @ drop (length xs) buf"

lemma length_put [simp]: "length xs \<le> length buf \<Longrightarrow> length (put buf xs) = length buf"
  by (simp add: put_def)

lemma put_full [simp]: "length buf = length xs \<Longrightarrow> put buf xs = xs"
  by (simp add: put_def)

lemma take_put [simp]: "n = length xs \<Longrightarrow> take n (put buf xs) = xs"
  by (simp add: put_def)

section \<open>Big-endian octets\<close>

definition be32 :: "u32 \<Rightarrow> bytes" where
  "be32 w = map (\<lambda>i. ucast (drop_bit (24 - 8 * i) w)) [0..<4]"

lemma length_be32 [simp]: "length (be32 w) = 4"
  by (simp add: be32_def)

lemma be32_inj: "be32 a = be32 b \<Longrightarrow> a = b"
proof -
  assume eq: "be32 a = be32 b"
  have "\<forall>i<4. (ucast (drop_bit (24 - 8 * i) a) :: u8) = ucast (drop_bit (24 - 8 * i) b)"
    using arg_cong [OF eq, of "\<lambda>xs. \<forall>i<4. xs ! i = be32 b ! i"] by (simp add: be32_def)
  then have bits: "bit a (24 - 8 * i + n) = bit b (24 - 8 * i + n)" if "i < 4" "n < 8" for i n
    using that by (auto simp: bit_simps dest!: spec [of _ i] arg_cong [where f = "\<lambda>w. bit w n"])
  show "a = b"
  proof (rule bit_word_eqI)
    fix n assume "n < LENGTH(32)"
    then have "3 - n div 8 < 4" "24 - 8 * (3 - n div 8) + n mod 8 = n" by (auto simp: algebra_simps)
    then show "bit a n = bit b n" using bits [of "3 - n div 8" "n mod 8"] by simp
  qed
qed

lemma byte_mask: "ucast (w AND 0xFF :: u32) = (ucast w :: u8)"
proof -
  have "(0xFF :: u32) = mask 8" by (simp add: mask_eq_exp_minus_1)
  then have "w AND 0xFF = take_bit 8 w" by (simp only: take_bit_eq_mask)
  then show ?thesis by (simp only:) (rule bit_word_eqI, auto simp: bit_simps)
qed

lemma ofold_Cons: "ofold f (i # is) = (\<lambda>s. Option.bind (f i s) (ofold f is))"
  by (rule ext) simp

lemma ofold_Nil: "ofold f [] = Some"
  by (rule ext) simp

lemma bind_Some_right [simp]: "Option.bind x Some = x"
  by (cases x) simp_all

lemma ofold_single [simp]: "ofold f [i] = f i"
  by (simp add: ofold_Cons ofold_Nil)

lemma sint_small: "unat (w :: u32) < 2^31 \<Longrightarrow> sint w = int (unat w)"
proof -
  assume a: "unat w < 2^31"
  have u: "uint w = int (unat w)" by simp
  have "sint w = signed_take_bit 31 (int (unat w))"
    unfolding sint_uint u by simp
  also have "... = int (unat w)"
    using a by (intro signed_take_bit_int_eq_self) (simp_all del: of_nat_unat)
  finally show ?thesis .
qed

definition bit_at :: "bytes \<Rightarrow> nat \<Rightarrow> bool" where
  "bit_at bs i = bit (bs ! (i div 8)) (7 - i mod 8)"

definition word_bit_at :: "u32 list \<Rightarrow> nat \<Rightarrow> bool" where
  "word_bit_at ks i = bit (ks ! (i div 32)) (31 - i mod 32)"

lemma bit_at_split: "j < 8 \<Longrightarrow> bit_at bs (8 * i + j) = bit (bs ! i) (7 - j)"
  by (simp add: bit_at_def)

lemma bit_index: obtains q j where "(i :: nat) = 8 * q + j" "j < 8"
  using div_mult_mod_eq [of i 8] by (metis mod_less_divisor mult.commute zero_less_numeral)

end
