(* ===== verification/Zuc.thy ===== *)
theory Zuc
  imports Prelude
begin

text \<open>
  The ZUC key stream generator of \<^verbatim>\<open>lib/src/common/zuc.cc\<close>: the sixteen LFSR cells, the
  registers of \<open>F\<close>, the bit reorganisation, the initialisation and the working mode.
  The lemmas relate the LFSR step, written in the code with 32-bit shifts and masks, to
  the arithmetic of the ZUC specification modulo \<open>2^31 - 1\<close>.
\<close>

section \<open>State and tables\<close>

record zuc_state =
  LFSR_S0 :: u32
  LFSR_S1 :: u32
  LFSR_S2 :: u32
  LFSR_S3 :: u32
  LFSR_S4 :: u32
  LFSR_S5 :: u32
  LFSR_S6 :: u32
  LFSR_S7 :: u32
  LFSR_S8 :: u32
  LFSR_S9 :: u32
  LFSR_S10 :: u32
  LFSR_S11 :: u32
  LFSR_S12 :: u32
  LFSR_S13 :: u32
  LFSR_S14 :: u32
  LFSR_S15 :: u32
  F_R1 :: u32
  F_R2 :: u32
  BRC_X0 :: u32
  BRC_X1 :: u32
  BRC_X2 :: u32
  BRC_X3 :: u32

definition S0 :: bytes where
  "S0 = [0x3e, 0x72, 0x5b, 0x47, 0xca, 0xe0, 0x00, 0x33, 0x04, 0xd1, 0x54, 0x98, 0x09, 0xb9,
     0x6d, 0xcb, 0x7b, 0x1b, 0xf9, 0x32, 0xaf, 0x9d, 0x6a, 0xa5, 0xb8, 0x2d, 0xfc, 0x1d,
     0x08, 0x53, 0x03, 0x90, 0x4d, 0x4e, 0x84, 0x99, 0xe4, 0xce, 0xd9, 0x91, 0xdd, 0xb6,
     0x85, 0x48, 0x8b, 0x29, 0x6e, 0xac, 0xcd, 0xc1, 0xf8, 0x1e, 0x73, 0x43, 0x69, 0xc6,
     0xb5, 0xbd, 0xfd, 0x39, 0x63, 0x20, 0xd4, 0x38, 0x76, 0x7d, 0xb2, 0xa7, 0xcf, 0xed,
     0x57, 0xc5, 0xf3, 0x2c, 0xbb, 0x14, 0x21, 0x06, 0x55, 0x9b, 0xe3, 0xef, 0x5e, 0x31,
     0x4f, 0x7f, 0x5a, 0xa4, 0x0d, 0x82, 0x51, 0x49, 0x5f, 0xba, 0x58, 0x1c, 0x4a, 0x16,
     0xd5, 0x17, 0xa8, 0x92, 0x24, 0x1f, 0x8c, 0xff, 0xd8, 0xae, 0x2e, 0x01, 0xd3, 0xad,
     0x3b, 0x4b, 0xda, 0x46, 0xeb, 0xc9, 0xde, 0x9a, 0x8f, 0x87, 0xd7, 0x3a, 0x80, 0x6f,
     0x2f, 0xc8, 0xb1, 0xb4, 0x37, 0xf7, 0x0a, 0x22, 0x13, 0x28, 0x7c, 0xcc, 0x3c, 0x89,
     0xc7, 0xc3, 0x96, 0x56, 0x07, 0xbf, 0x7e, 0xf0, 0x0b, 0x2b, 0x97, 0x52, 0x35, 0x41,
     0x79, 0x61, 0xa6, 0x4c, 0x10, 0xfe, 0xbc, 0x26, 0x95, 0x88, 0x8a, 0xb0, 0xa3, 0xfb,
     0xc0, 0x18, 0x94, 0xf2, 0xe1, 0xe5, 0xe9, 0x5d, 0xd0, 0xdc, 0x11, 0x66, 0x64, 0x5c,
     0xec, 0x59, 0x42, 0x75, 0x12, 0xf5, 0x74, 0x9c, 0xaa, 0x23, 0x0e, 0x86, 0xab, 0xbe,
     0x2a, 0x02, 0xe7, 0x67, 0xe6, 0x44, 0xa2, 0x6c, 0xc2, 0x93, 0x9f, 0xf1, 0xf6, 0xfa,
     0x36, 0xd2, 0x50, 0x68, 0x9e, 0x62, 0x71, 0x15, 0x3d, 0xd6, 0x40, 0xc4, 0xe2, 0x0f,
     0x8e, 0x83, 0x77, 0x6b, 0x25, 0x05, 0x3f, 0x0c, 0x30, 0xea, 0x70, 0xb7, 0xa1, 0xe8,
     0xa9, 0x65, 0x8d, 0x27, 0x1a, 0xdb, 0x81, 0xb3, 0xa0, 0xf4, 0x45, 0x7a, 0x19, 0xdf,
     0xee, 0x78, 0x34, 0x60]"

definition S1 :: bytes where
  "S1 = [0x55, 0xc2, 0x63, 0x71, 0x3b, 0xc8, 0x47, 0x86, 0x9f, 0x3c, 0xda, 0x5b, 0x29, 0xaa,
     0xfd, 0x77, 0x8c, 0xc5, 0x94, 0x0c, 0xa6, 0x1a, 0x13, 0x00, 0xe3, 0xa8, 0x16, 0x72,
     0x40, 0xf9, 0xf8, 0x42, 0x44, 0x26, 0x68, 0x96, 0x81, 0xd9, 0x45, 0x3e, 0x10, 0x76,
     0xc6, 0xa7, 0x8b, 0x39, 0x43, 0xe1, 0x3a, 0xb5, 0x56, 0x2a, 0xc0, 0x6d, 0xb3, 0x05,
     0x22, 0x66, 0xbf, 0xdc, 0x0b, 0xfa, 0x62, 0x48, 0xdd, 0x20, 0x11, 0x06, 0x36, 0xc9,
     0xc1, 0xcf, 0xf6, 0x27, 0x52, 0xbb, 0x69, 0xf5, 0xd4, 0x87, 0x7f, 0x84, 0x4c, 0xd2,
     0x9c, 0x57, 0xa4, 0xbc, 0x4f, 0x9a, 0xdf, 0xfe, 0xd6, 0x8d, 0x7a, 0xeb, 0x2b, 0x53,
     0xd8, 0x5c, 0xa1, 0x14, 0x17, 0xfb, 0x23, 0xd5, 0x7d, 0x30, 0x67, 0x73, 0x08, 0x09,
     0xee, 0xb7, 0x70, 0x3f, 0x61, 0xb2, 0x19, 0x8e, 0x4e, 0xe5, 0x4b, 0x93, 0x8f, 0x5d,
     0xdb, 0xa9, 0xad, 0xf1, 0xae, 0x2e, 0xcb, 0x0d, 0xfc, 0xf4, 0x2d, 0x46, 0x6e, 0x1d,
     0x97, 0xe8, 0xd1, 0xe9, 0x4d, 0x37, 0xa5, 0x75, 0x5e, 0x83, 0x9e, 0xab, 0x82, 0x9d,
     0xb9, 0x1c, 0xe0, 0xcd, 0x49, 0x89, 0x01, 0xb6, 0xbd, 0x58, 0x24, 0xa2, 0x5f, 0x38,
     0x78, 0x99, 0x15, 0x90, 0x50, 0xb8, 0x95, 0xe4, 0xd0, 0x91, 0xc7, 0xce, 0xed, 0x0f,
     0xb4, 0x6f, 0xa0, 0xcc, 0xf0, 0x02, 0x4a, 0x79, 0xc3, 0xde, 0xa3, 0xef, 0xea, 0x51,
     0xe6, 0x6b, 0x18, 0xec, 0x1b, 0x2c, 0x80, 0xf7, 0x74, 0xe7, 0xff, 0x21, 0x5a, 0x6a,
     0x54, 0x1e, 0x41, 0x31, 0x92, 0x35, 0xc4, 0x33, 0x07, 0x0a, 0xba, 0x7e, 0x0e, 0x34,
     0x88, 0xb1, 0x98, 0x7c, 0xf3, 0x3d, 0x60, 0x6c, 0x7b, 0xca, 0xd3, 0x1f, 0x32, 0x65,
     0x04, 0x28, 0x64, 0xbe, 0x85, 0x9b, 0x2f, 0x59, 0x8a, 0xd7, 0xb0, 0x25, 0xac, 0xaf,
     0x12, 0x03, 0xe2, 0xf2]"

definition EK_d :: "u32 list" where
  "EK_d = [0x44D7, 0x26BC, 0x626B, 0x135E, 0x5789, 0x35E2, 0x7135, 0x09AF, 0x4D78, 0x2F13, 0x6BC4, 0x1AF1, 0x5E26, 0x3C4D,
     0x789A, 0x47AC]"

section \<open>Operations\<close>

definition MAKEU32 :: "u8 \<Rightarrow> u8 \<Rightarrow> u8 \<Rightarrow> u8 \<Rightarrow> u32" where
  "MAKEU32 a b c d = push_bit 24 (ucast a) OR push_bit 16 (ucast b) OR push_bit 8 (ucast c) OR ucast d"

definition MulByPow2 :: "u32 \<Rightarrow> nat \<Rightarrow> u32" where
  "MulByPow2 x k = (push_bit k x OR drop_bit (31 - k) x) AND 0x7FFFFFFF"

definition MAKEU31 :: "u8 \<Rightarrow> u32 \<Rightarrow> u8 \<Rightarrow> u32" where
  "MAKEU31 a b c = push_bit 23 (ucast a) OR push_bit 8 b OR ucast c"

definition ROT :: "u32 \<Rightarrow> nat \<Rightarrow> u32" where
  "ROT a k = push_bit k a OR drop_bit (32 - k) a"

definition AddM :: "u32 \<Rightarrow> u32 \<Rightarrow> u32" where
  "AddM a b = (let c = a + b in (c AND 0x7FFFFFFF) + drop_bit 31 c)"

definition LFSRWithInitialisationMode :: "zuc_state \<Rightarrow> u32 \<Rightarrow> zuc_state" where
  "LFSRWithInitialisationMode st u =
    (let f = LFSR_S0 st;
         f = AddM f (MulByPow2 (LFSR_S0 st) 8);
         f = AddM f (MulByPow2 (LFSR_S4 st) 20);
         f = AddM f (MulByPow2 (LFSR_S10 st) 21);
         f = AddM f (MulByPow2 (LFSR_S13 st) 17);
         f = AddM f (MulByPow2 (LFSR_S15 st) 15);
         f = AddM f u
     in st\<lparr>LFSR_S0 := LFSR_S1 st,
           LFSR_S1 := LFSR_S2 st,
           LFSR_S2 := LFSR_S3 st,
           LFSR_S3 := LFSR_S4 st,
           LFSR_S4 := LFSR_S5 st,
           LFSR_S5 := LFSR_S6 st,
           LFSR_S6 := LFSR_S7 st,
           LFSR_S7 := LFSR_S8 st,
           LFSR_S8 := LFSR_S9 st,
           LFSR_S9 := LFSR_S10 st,
           LFSR_S10 := LFSR_S11 st,
           LFSR_S11 := LFSR_S12 st,
           LFSR_S12 := LFSR_S13 st,
           LFSR_S13 := LFSR_S14 st,
           LFSR_S14 := LFSR_S15 st,
           LFSR_S15 := f\<rparr>)"

definition LFSRWithWorkMode :: "zuc_state \<Rightarrow> zuc_state" where
  "LFSRWithWorkMode st =
    (let f = LFSR_S0 st;
         f = AddM f (MulByPow2 (LFSR_S0 st) 8);
         f = AddM f (MulByPow2 (LFSR_S4 st) 20);
         f = AddM f (MulByPow2 (LFSR_S10 st) 21);
         f = AddM f (MulByPow2 (LFSR_S13 st) 17);
         f = AddM f (MulByPow2 (LFSR_S15 st) 15)
     in st\<lparr>LFSR_S0 := LFSR_S1 st,
           LFSR_S1 := LFSR_S2 st,
           LFSR_S2 := LFSR_S3 st,
           LFSR_S3 := LFSR_S4 st,
           LFSR_S4 := LFSR_S5 st,
           LFSR_S5 := LFSR_S6 st,
           LFSR_S6 := LFSR_S7 st,
           LFSR_S7 := LFSR_S8 st,
           LFSR_S8 := LFSR_S9 st,
           LFSR_S9 := LFSR_S10 st,
           LFSR_S10 := LFSR_S11 st,
           LFSR_S11 := LFSR_S12 st,
           LFSR_S12 := LFSR_S13 st,
           LFSR_S13 := LFSR_S14 st,
           LFSR_S14 := LFSR_S15 st,
           LFSR_S15 := f\<rparr>)"

definition BitReorganization :: "zuc_state \<Rightarrow> zuc_state" where
  "BitReorganization st =
    st\<lparr>BRC_X0 := push_bit 1 (LFSR_S15 st AND 0x7FFF8000) OR (LFSR_S14 st AND 0xFFFF),
       BRC_X1 := push_bit 16 (LFSR_S11 st AND 0xFFFF) OR drop_bit 15 (LFSR_S9 st),
       BRC_X2 := push_bit 16 (LFSR_S7 st AND 0xFFFF) OR drop_bit 15 (LFSR_S5 st),
       BRC_X3 := push_bit 16 (LFSR_S2 st AND 0xFFFF) OR drop_bit 15 (LFSR_S0 st)\<rparr>"

definition L1 :: "u32 \<Rightarrow> u32" where
  "L1 X = X XOR ROT X 2 XOR ROT X 10 XOR ROT X 18 XOR ROT X 24"

definition L2 :: "u32 \<Rightarrow> u32" where
  "L2 X = X XOR ROT X 8 XOR ROT X 14 XOR ROT X 22 XOR ROT X 30"

text \<open>\<open>zuc_F\<close> is the source's \<open>F\<close>: it returns the word \<open>W\<close> and the state with new registers.\<close>

definition zuc_F :: "zuc_state \<Rightarrow> u32 \<times> zuc_state" where
  "zuc_F st =
    (let W = (BRC_X0 st XOR F_R1 st) + F_R2 st;
         W1 = F_R1 st + BRC_X1 st;
         W2 = F_R2 st XOR BRC_X2 st;
         u = L1 (push_bit 16 W1 OR drop_bit 16 W2);
         v = L2 (push_bit 16 W2 OR drop_bit 16 W1)
     in (W, st\<lparr>
          F_R1 := MAKEU32 (S0 ! unat (drop_bit 24 u)) (S1 ! unat (drop_bit 16 u AND 0xFF))
                    (S0 ! unat (drop_bit 8 u AND 0xFF)) (S1 ! unat (u AND 0xFF)),
          F_R2 := MAKEU32 (S0 ! unat (drop_bit 24 v)) (S1 ! unat (drop_bit 16 v AND 0xFF))
                    (S0 ! unat (drop_bit 8 v AND 0xFF)) (S1 ! unat (v AND 0xFF))\<rparr>))"

text \<open>One round of the \<open>while (nCount > 0)\<close> loop of \<open>zuc_initialize\<close>, and the loop.\<close>

definition zuc_init_round :: "zuc_state \<Rightarrow> zuc_state" where
  "zuc_init_round st =
    (let st = BitReorganization st;
         (w, st) = zuc_F st
     in LFSRWithInitialisationMode st (drop_bit 1 w))"

fun zuc_init_loop :: "nat \<Rightarrow> zuc_state \<Rightarrow> zuc_state" where
  "zuc_init_loop 0 st = st"
| "zuc_init_loop (Suc nCount) st = zuc_init_loop nCount (zuc_init_round st)"

text \<open>The key and IV expansion of \<open>zuc_initialize\<close>; the uninitialised fields of the
  stack variable are the argument \<open>st\<close> and are overwritten before they are read.\<close>

definition zuc_expand_key :: "zuc_state \<Rightarrow> bytes \<Rightarrow> bytes \<Rightarrow> zuc_state" where
  "zuc_expand_key st k iv =
    st\<lparr>LFSR_S0 := MAKEU31 (k ! 0) (EK_d ! 0) (iv ! 0),
       LFSR_S1 := MAKEU31 (k ! 1) (EK_d ! 1) (iv ! 1),
       LFSR_S2 := MAKEU31 (k ! 2) (EK_d ! 2) (iv ! 2),
       LFSR_S3 := MAKEU31 (k ! 3) (EK_d ! 3) (iv ! 3),
       LFSR_S4 := MAKEU31 (k ! 4) (EK_d ! 4) (iv ! 4),
       LFSR_S5 := MAKEU31 (k ! 5) (EK_d ! 5) (iv ! 5),
       LFSR_S6 := MAKEU31 (k ! 6) (EK_d ! 6) (iv ! 6),
       LFSR_S7 := MAKEU31 (k ! 7) (EK_d ! 7) (iv ! 7),
       LFSR_S8 := MAKEU31 (k ! 8) (EK_d ! 8) (iv ! 8),
       LFSR_S9 := MAKEU31 (k ! 9) (EK_d ! 9) (iv ! 9),
       LFSR_S10 := MAKEU31 (k ! 10) (EK_d ! 10) (iv ! 10),
       LFSR_S11 := MAKEU31 (k ! 11) (EK_d ! 11) (iv ! 11),
       LFSR_S12 := MAKEU31 (k ! 12) (EK_d ! 12) (iv ! 12),
       LFSR_S13 := MAKEU31 (k ! 13) (EK_d ! 13) (iv ! 13),
       LFSR_S14 := MAKEU31 (k ! 14) (EK_d ! 14) (iv ! 14),
       LFSR_S15 := MAKEU31 (k ! 15) (EK_d ! 15) (iv ! 15),
       F_R1 := 0, F_R2 := 0\<rparr>"

definition zuc_initialize :: "zuc_state \<Rightarrow> bytes \<Rightarrow> bytes \<Rightarrow> zuc_state" where
  "zuc_initialize st k iv = zuc_init_loop 32 (zuc_expand_key st k iv)"

fun zuc_keystream_loop :: "nat \<Rightarrow> zuc_state \<Rightarrow> u32 list \<times> zuc_state" where
  "zuc_keystream_loop 0 st = ([], st)"
| "zuc_keystream_loop (Suc n) st =
    (let st = BitReorganization st;
         (W, st) = zuc_F st;
         z = W XOR BRC_X3 st;
         (zs, st) = zuc_keystream_loop n (LFSRWithWorkMode st)
     in (z # zs, st))"

definition zuc_generate_keystream :: "zuc_state \<Rightarrow> nat \<Rightarrow> u32 list \<times> zuc_state" where
  "zuc_generate_keystream st key_stream_len =
    (let st = BitReorganization st;
         (W, st) = zuc_F st
     in zuc_keystream_loop key_stream_len (LFSRWithWorkMode st))"

section \<open>Arithmetic modulo \<open>2^31 - 1\<close>\<close>

lemma take_bit_31_id: "unat x < 2^31 \<Longrightarrow> take_bit 31 x = (x :: u32)"
  by (metis take_bit_nat_eq_self unsigned_take_bit_eq word_unat_eq_iff)

lemma unat_MulByPow2:
  fixes x :: u32 assumes "0 < k" "k < 31" "unat x < 2^31"
  shows "unat (MulByPow2 x k) = unat x * 2^k mod 2^31 + unat x div 2^(31-k)"
proof -
  have high: "\<not> bit x n" if "31 \<le> n" for n
    using take_bit_31_id [OF assms(3)] that by (metis bit_take_bit_iff leD)
  have low: "n < k" if "bit x (31 + n - k)" for n
  proof (rule ccontr)
    assume "\<not> n < k"
    then have "31 \<le> 31 + n - k" by linarith
    with high that show False by blast
  qed
  have disj: "take_bit 31 (push_bit k x) AND drop_bit (31 - k) x = 0"
    using low assms(2) by (intro bit_eqI) (fastforce simp: bit_and_iff bit_take_bit_iff bit_push_bit_iff bit_drop_bit_eq)
  have td: "take_bit 31 (drop_bit (31 - k) x) = drop_bit (31 - k) x"
    using assms(2) by (intro bit_eqI) (use low in \<open>fastforce simp: bit_take_bit_iff bit_drop_bit_eq\<close>)
  have eq: "MulByPow2 x k = take_bit 31 (push_bit k x) OR drop_bit (31 - k) x"
    by (simp add: MulByPow2_def and_mask_31 take_bit_or td)
  have 1: "unat (take_bit 31 (push_bit k x)) = unat x * 2^k mod 2^31"
    by (simp only: unsigned_take_bit_eq unsigned_push_bit_eq)
      (simp add: take_bit_eq_mod push_bit_eq_mult mod_mod_cancel)
  have 2: "unat (drop_bit (31 - k) x) = unat x div 2^(31-k)"
    by (rule unat_drop_bit_div)
  have "unat (take_bit 31 (push_bit k x)) AND unat (drop_bit (31 - k) x) = 0"
    by (metis disj unsigned_0 unsigned_and_eq)
  then have "unat (MulByPow2 x k) = unat (take_bit 31 (push_bit k x)) + unat (drop_bit (31 - k) x)"
    by (simp add: eq unsigned_or_eq disjunctive_add_eq_or)
  with 1 2 show ?thesis by simp
qed

lemma MulByPow2_cong:
  fixes x :: u32 assumes "0 < k" "k < 31" "unat x < 2^31"
  shows "unat (MulByPow2 x k) mod (2^31 - 1) = unat x * 2^k mod (2^31 - 1)"
proof -
  let ?q = "unat x div 2^(31-k)" and ?r = "unat x * 2^k mod 2^31"
  have pw: "(2::nat)^31 = 2^(31-k) * 2^k" using assms by (simp flip: power_add)
  have "unat x * 2^k = ?q * 2^31 + ?r"
  proof -
    have "unat x * 2^k div 2^31 = ?q" unfolding pw by simp
    then show ?thesis using div_mult_mod_eq [of "unat x * 2^k" "2^31"] by simp
  qed
  also have "\<dots> = ?q * (2^31 - 1) + (?r + ?q)" by (simp add: algebra_simps)
  finally have "unat x * 2^k mod (2^31 - 1) = (?q * (2^31 - 1) + (?r + ?q)) mod (2^31 - 1)" by (rule arg_cong)
  then have "unat x * 2^k mod (2^31 - 1) = (?r + ?q) mod (2^31 - 1)" by (simp only: mod_mult_self3)
  then show ?thesis using unat_MulByPow2 [OF assms] by simp
qed

lemma MulByPow2_range:
  fixes x :: u32 assumes "unat x < 2^31"
  shows "unat (MulByPow2 x k) < 2^31"
  unfolding MulByPow2_def unat_and_mask_31 by simp

lemma MulByPow2_nonzero:
  fixes x :: u32 assumes "0 < k" "k < 31" "unat x < 2^31" "x \<noteq> 0"
  shows "MulByPow2 x k \<noteq> 0"
proof
  assume "MulByPow2 x k = 0"
  with unat_MulByPow2 [OF assms(1-3)] have
    a: "unat x * 2^k mod 2^31 = 0" and b: "unat x div 2^(31-k) = 0" by simp_all
  from b have "unat x < 2^(31-k)" by (simp add: div_eq_0_iff)
  then have "unat x * 2^k < 2^(31-k) * 2^k" by simp
  also have "\<dots> = 2^31" using assms(2) by (simp flip: power_add)
  finally have "unat x * 2^k mod 2^31 = unat x * 2^k" by simp
  with a assms(4) show False by (simp add: unat_eq_zero)
qed

lemma unat_AddM:
  assumes "unat a < 2^31" "unat b < 2^31"
  shows "unat (AddM a b) = (if unat a + unat b < 2^31 then unat a + unat b else unat a + unat b - (2^31 - 1))"
proof -
  have c: "unat (a + b) = unat a + unat b"
    using assms by (simp add: unat_add_lem [THEN iffD1])
  have 1: "unat ((a + b) AND 0x7FFFFFFF) = (unat a + unat b) mod 2^31"
    by (simp only: unat_and_mask_31 c)
  have 2: "unat (drop_bit 31 (a + b)) = (unat a + unat b) div 2^31"
    by (simp only: unat_drop_bit_div c)
  have "(unat a + unat b) div 2^31 \<le> 1" using assms by simp
  then have "unat (AddM a b) = (unat a + unat b) mod 2^31 + (unat a + unat b) div 2^31"
    unfolding AddM_def Let_def using 1 2 
    by (subst unat_add_lem [THEN iffD1]) simp_all
  then show ?thesis using assms
    by (cases "unat a + unat b < 2^31") (simp_all add: le_mod_geq le_div_geq)
qed

lemma AddM_range: "unat a < 2^31 \<Longrightarrow> unat b < 2^31 \<Longrightarrow> unat (AddM a b) < 2^31"
  by (simp add: unat_AddM) linarith

lemma AddM_cong:
  assumes "unat a < 2^31" "unat b < 2^31"
  shows "unat (AddM a b) mod (2^31 - 1) = (unat a + unat b) mod (2^31 - 1)"
  using assms by (simp add: unat_AddM mod_if)

lemma AddM_eq_0:
  assumes "unat a < 2^31" "unat b < 2^31"
  shows "AddM a b = 0 \<longleftrightarrow> a = 0 \<and> b = 0"
  using unat_AddM [OF assms] assms by (auto simp: unat_eq_zero split: if_splits)

definition canon31 :: "nat \<Rightarrow> nat" where
  "canon31 n = (let v = n mod (2^31 - 1) in if v = 0 then 2^31 - 1 else v)"

definition rep31 :: "u32 \<Rightarrow> nat \<Rightarrow> bool" where
  "rep31 w n \<longleftrightarrow> unat w < 2^31 \<and> w \<noteq> 0 \<and> unat w mod (2^31 - 1) = n mod (2^31 - 1)"

lemma rep31_canon: "rep31 w n \<Longrightarrow> unat w = canon31 n"
proof -
  assume r: "rep31 w n"
  then have "0 < unat w" "unat w \<le> 2^31 - 1" by (auto simp: rep31_def unat_gt_0)
  then consider "unat w < 2^31 - 1" "0 < unat w" | "unat w = 2^31 - 1" by linarith
  then show ?thesis
    using r by cases (auto simp: rep31_def canon31_def Let_def)
qed

lemma rep31_cell: "unat w < 2^31 \<Longrightarrow> w \<noteq> 0 \<Longrightarrow> rep31 w (unat w)"
  by (simp add: rep31_def)

lemma rep31_MulByPow2:
  "unat w < 2^31 \<Longrightarrow> w \<noteq> 0 \<Longrightarrow> 0 < k \<Longrightarrow> k < 31 \<Longrightarrow> rep31 (MulByPow2 w k) (2^k * unat w)"
  unfolding rep31_def using MulByPow2_cong [of k w] MulByPow2_range [of w k] MulByPow2_nonzero [of k w]
  by (simp add: mult.commute)

lemma rep31_AddM_word: "rep31 a m \<Longrightarrow> unat u < 2^31 \<Longrightarrow> rep31 (AddM a u) (m + unat u)"
  unfolding rep31_def
  using AddM_cong [of a u] AddM_range [of a u] AddM_eq_0 [of a u]
  by (metis mod_add_left_eq)

lemma rep31_AddM: "rep31 a m \<Longrightarrow> rep31 b n \<Longrightarrow> rep31 (AddM a b) (m + n)"
  using rep31_AddM_word [of a m b] unfolding rep31_def by (metis mod_add_right_eq)

lemmas rep31_intros = rep31_AddM rep31_MulByPow2 rep31_cell

lemma unat_MAKEU31:
  assumes "unat b < 2^15"
  shows "unat (MAKEU31 a b c) = unat a * 2^23 + unat b * 2^8 + unat c"
proof -
  have a: "unat a < 2^8" and c: "unat c < 2^8"
    by (rule unat_u8_less)+
  have uc: "unat (ucast c :: u32) = unat c" "unat (ucast a :: u32) = unat a" 
    using a c by (simp_all add: unsigned_ucast_eq take_bit_nat_eq_self)
  have pb: "unat (push_bit 8 b) = unat b * 2^8" 
    by (simp only: unsigned_push_bit_eq) (use assms in \<open>simp add: push_bit_eq_mult take_bit_nat_eq_self\<close>)
  have pa: "unat (push_bit 23 (ucast a :: u32)) = unat a * 2^23"
    by (simp only: unsigned_push_bit_eq uc) (use a in \<open>simp add: push_bit_eq_mult take_bit_nat_eq_self\<close>)
  have 1: "push_bit 8 b OR ucast c = push_bit 8 b + ucast c"
    by (rule push_or_plus) (use c uc in \<open>simp add: word_unat_eq_iff unsigned_take_bit_eq take_bit_nat_eq_self\<close>)
  have u1: "unat (push_bit 8 b + ucast c) = unat b * 2^8 + unat c"
    using assms c pb uc by (subst unat_add_lem [THEN iffD1]) simp_all
  have 2: "push_bit 23 (ucast a) OR (push_bit 8 b + ucast c) = push_bit 23 (ucast a) + (push_bit 8 b + ucast c)"
    by (rule push_or_plus) (use assms c u1 in \<open>simp add: word_unat_eq_iff unsigned_take_bit_eq take_bit_nat_eq_self\<close>)
  have "unat (push_bit 23 (ucast a) + (push_bit 8 b + ucast c)) = unat a * 2^23 + (unat b * 2^8 + unat c)"
    using assms a c pa u1 by (subst unat_add_lem [THEN iffD1]) simp_all
  then show ?thesis by (simp add: MAKEU31_def or.assoc 1 2)
qed

section \<open>The LFSR of the specification\<close>

text \<open>
  The specification describes the LFSR as sixteen numbers in \<open>1 .. 2^31 - 1\<close> and the new
  cell as a sum modulo \<open>2^31 - 1\<close>, with \<open>0\<close> written as \<open>2^31 - 1\<close>. \<open>cells\<close> is the
  abstraction of the code's state, \<open>lfsr_ok\<close> its invariant.
\<close>

definition cells :: "zuc_state \<Rightarrow> nat list" where
  "cells st = map unat [LFSR_S0 st, LFSR_S1 st, LFSR_S2 st, LFSR_S3 st, LFSR_S4 st, LFSR_S5 st,
    LFSR_S6 st, LFSR_S7 st, LFSR_S8 st, LFSR_S9 st, LFSR_S10 st, LFSR_S11 st, LFSR_S12 st,
    LFSR_S13 st, LFSR_S14 st, LFSR_S15 st]"

definition lfsr_ok :: "zuc_state \<Rightarrow> bool" where
  "lfsr_ok st \<longleftrightarrow> (\<forall>c \<in> set (cells st). 0 < c \<and> c < 2^31)"

definition lfsr_feedback :: "nat list \<Rightarrow> nat" where
  "lfsr_feedback s = 2^15 * s ! 15 + 2^17 * s ! 13 + 2^21 * s ! 10 + 2^20 * s ! 4 + (1 + 2^8) * s ! 0"

definition lfsr_work_spec :: "nat list \<Rightarrow> nat list" where
  "lfsr_work_spec s = tl s @ [canon31 (lfsr_feedback s)]"

definition lfsr_init_spec :: "nat list \<Rightarrow> nat \<Rightarrow> nat list" where
  "lfsr_init_spec s u = tl s @ [canon31 (lfsr_feedback s + u)]"

lemma lfsr_ok_simp: "lfsr_ok st \<longleftrightarrow> (\<forall>w \<in> set [LFSR_S0 st, LFSR_S1 st, LFSR_S2 st, LFSR_S3 st, LFSR_S4 st, LFSR_S5 st,
    LFSR_S6 st, LFSR_S7 st, LFSR_S8 st, LFSR_S9 st, LFSR_S10 st, LFSR_S11 st, LFSR_S12 st,
    LFSR_S13 st, LFSR_S14 st, LFSR_S15 st]. w \<noteq> 0 \<and> unat w < 2^31)"
  by (simp add: lfsr_ok_def cells_def unat_gt_0)

lemma rep31_feedback:
  assumes "lfsr_ok st"
  shows "rep31 (AddM (AddM (AddM (AddM (AddM (LFSR_S0 st) (MulByPow2 (LFSR_S0 st) 8))
    (MulByPow2 (LFSR_S4 st) 20)) (MulByPow2 (LFSR_S10 st) 21)) (MulByPow2 (LFSR_S13 st) 17))
    (MulByPow2 (LFSR_S15 st) 15)) (lfsr_feedback (cells st))" (is "rep31 ?f _")
proof -
  have "rep31 ?f (unat (LFSR_S0 st) + 2^8 * unat (LFSR_S0 st) + 2^20 * unat (LFSR_S4 st)
     + 2^21 * unat (LFSR_S10 st) + 2^17 * unat (LFSR_S13 st) + 2^15 * unat (LFSR_S15 st))"
    using assms by (intro rep31_intros) (simp_all add: lfsr_ok_simp)
  moreover have "\<dots> = lfsr_feedback (cells st)"
    by (simp add: lfsr_feedback_def cells_def)
  ultimately show ?thesis by simp
qed

lemma LFSRWithWorkMode_spec: "lfsr_ok st \<Longrightarrow> cells (LFSRWithWorkMode st) = lfsr_work_spec (cells st)"
  using rep31_canon [OF rep31_feedback]
  by (simp add: LFSRWithWorkMode_def Let_def lfsr_work_spec_def cells_def)

lemma LFSRWithInitialisationMode_spec:
  "lfsr_ok st \<Longrightarrow> unat u < 2^31 \<Longrightarrow> cells (LFSRWithInitialisationMode st u) = lfsr_init_spec (cells st) (unat u)"
  using rep31_canon [OF rep31_AddM_word [OF rep31_feedback]]
  by (simp add: LFSRWithInitialisationMode_def Let_def lfsr_init_spec_def cells_def)

lemma EK_d_bound: "i < 16 \<Longrightarrow> 0 < unat (EK_d ! i) \<and> unat (EK_d ! i) < 2^15"
proof -
  have "\<forall>d \<in> set EK_d. 0 < unat d \<and> unat d < 2^15" by (simp add: EK_d_def)
  moreover have "length EK_d = 16" by (simp add: EK_d_def)
  ultimately show "i < 16 \<Longrightarrow> ?thesis" by simp
qed

lemma MAKEU31_EK_d: "i < 16 \<Longrightarrow> MAKEU31 a (EK_d ! i) c \<noteq> 0 \<and> unat (MAKEU31 a (EK_d ! i) c) < 2^31"
proof -
  assume i: "i < 16"
  have "unat a < 2^8" "unat c < 2^8" by (rule unat_u8_less)+
  with EK_d_bound [OF i] unat_MAKEU31 [of "EK_d ! i" a c] show ?thesis
    by (auto simp flip: unat_gt_0)
qed

lemma lfsr_ok_expand_key: "lfsr_ok (zuc_expand_key st k iv)"
  unfolding lfsr_ok_simp zuc_expand_key_def by (simp add: MAKEU31_EK_d [simplified])

lemma canon31_range: "0 < canon31 n \<and> canon31 n < 2^31"
proof -
  have "n mod (2^31 - 1) < (2^31 - 1 :: nat)" by (rule mod_less_divisor) simp
  then have "n mod (2^31 - 1) < (2^31 :: nat)" by linarith
  then show ?thesis by (simp add: canon31_def Let_def)
qed


lemma lfsr_ok_work: "lfsr_ok st \<Longrightarrow> lfsr_ok (LFSRWithWorkMode st)"
  unfolding lfsr_ok_def [of "LFSRWithWorkMode st"] LFSRWithWorkMode_spec lfsr_work_spec_def
  by (rule ball_set_shift) (simp_all only: lfsr_ok_def canon31_range)

lemma lfsr_ok_init_mode:
  "lfsr_ok st \<Longrightarrow> unat u < 2^31 \<Longrightarrow> lfsr_ok (LFSRWithInitialisationMode st u)"
  unfolding lfsr_ok_def [of "LFSRWithInitialisationMode st u"]
  by (subst LFSRWithInitialisationMode_spec, assumption+, unfold lfsr_init_spec_def, rule ball_set_shift)
    (simp_all only: lfsr_ok_def canon31_range)

lemma cells_BitReorganization [simp]: "cells (BitReorganization st) = cells st"
  by (simp add: BitReorganization_def cells_def)

lemma cells_zuc_F [simp]: "cells (snd (zuc_F st)) = cells st"
  by (simp add: zuc_F_def Let_def cells_def)

lemma lfsr_ok_cells: "cells st = cells st' \<Longrightarrow> lfsr_ok st = lfsr_ok st'"
  by (simp add: lfsr_ok_def)

lemma lfsr_ok_round_state [simp]: "lfsr_ok (snd (zuc_F (BitReorganization st))) = lfsr_ok st"
  by (rule lfsr_ok_cells) simp

lemma lfsr_ok_init_round: "lfsr_ok st \<Longrightarrow> lfsr_ok (zuc_init_round st)"
proof -
  assume "lfsr_ok st"
  moreover have "unat (drop_bit 1 w) < 2^31" for w :: u32
  using unat_u32_less [of w] by (simp only: unat_drop_bit_div) simp
  ultimately show ?thesis
    by (auto simp: zuc_init_round_def Let_def split_beta intro!: lfsr_ok_init_mode)
qed

lemma lfsr_ok_init_loop: "lfsr_ok st \<Longrightarrow> lfsr_ok (zuc_init_loop n st)"
  by (induction n arbitrary: st) (simp_all add: lfsr_ok_init_round)

theorem lfsr_ok_initialize: "lfsr_ok (zuc_initialize st k iv)"
  by (simp add: zuc_initialize_def lfsr_ok_init_loop lfsr_ok_expand_key)

lemma keystream_loop_spec:
  "lfsr_ok st \<Longrightarrow> zuc_keystream_loop n st = (zs, st') \<Longrightarrow>
     cells st' = (lfsr_work_spec ^^ n) (cells st) \<and> lfsr_ok st' \<and> length zs = n"
proof (induction n arbitrary: st zs)
  case 0
  then show ?case by simp
next
  case (Suc n)
  let ?s = "LFSRWithWorkMode (snd (zuc_F (BitReorganization st)))"
  obtain zs' where z: "zuc_keystream_loop n ?s = (zs', st')" and len: "length zs = Suc (length zs')"
    using Suc.prems(2) by (auto simp: Let_def split_beta prod_eq_iff)
  have "lfsr_ok ?s" using Suc.prems(1) by (intro lfsr_ok_work) simp
  from Suc.IH [OF this z] show ?case
    using Suc.prems(1) len by (simp add: LFSRWithWorkMode_spec funpow_swap1 del: funpow.simps) (simp add: funpow_swap1)
qed

definition zuc_zero :: zuc_state where
  "zuc_zero = zuc_state.make 0 0 0 0 0 0 0 0 0 0 0 0 0 0 0 0 0 0 0 0 0 0"

lemma zuc_initialize_indep: "zuc_initialize st k iv = zuc_initialize st' k iv"
proof -
  have "zuc_init_round (zuc_expand_key st k iv) = zuc_init_round (zuc_expand_key st' k iv)"
    by (cases st, cases st') (simp add: zuc_init_round_def zuc_expand_key_def BitReorganization_def)
  then show ?thesis by (simp add: zuc_initialize_def numeral_eq_Suc)
qed


section \<open>Properties\<close>

text \<open>
  One LFSR step of the code, in either mode, is the step of the ZUC
  specification: the shifts, masks and end-around carries of 32-bit words compute
  the feedback sum modulo \<open>2^31 - 1\<close> in the range \<open>1 .. 2^31 - 1\<close>.
\<close>

theorem zuc_lfsr_step_spec:
  assumes "lfsr_ok st" and "unat u < 2^31"
  shows "cells (LFSRWithWorkMode st) = lfsr_work_spec (cells st)
    \<and> cells (LFSRWithInitialisationMode st u) = lfsr_init_spec (cells st) (unat u)"
  using assms by (simp add: LFSRWithWorkMode_spec LFSRWithInitialisationMode_spec)

theorem zuc_lfsr_step_spec_witness:
  "let st = zuc_initialize zuc_zero (replicate 16 7) (replicate 16 9)
   in lfsr_ok st \<and> cells (LFSRWithWorkMode st) = lfsr_work_spec (cells st)
     \<and> cells (LFSRWithInitialisationMode st 5) = lfsr_init_spec (cells st) 5"
  using zuc_lfsr_step_spec [OF lfsr_ok_initialize, of 5 zuc_zero "replicate 16 7" "replicate 16 9"]
  by (simp add: Let_def lfsr_ok_initialize)

text \<open>
  Claim C33. For every key and IV, the state that generates \<open>n\<close> key stream words is the
  initialised LFSR stepped \<open>n + 1\<close> times by the specification, its cells never leave
  \<open>1 .. 2^31 - 1\<close> (in particular no cell is ever zero), and \<open>n\<close> words are produced.
\<close>

theorem zuc_keystream_refines:
  "case zuc_generate_keystream (zuc_initialize st k iv) n of (zs, st') \<Rightarrow>
     cells st' = (lfsr_work_spec ^^ (n + 1)) (cells (zuc_initialize st k iv))
     \<and> lfsr_ok st' \<and> length zs = n"
proof -
  let ?i = "zuc_initialize st k iv"
  let ?s = "LFSRWithWorkMode (snd (zuc_F (BitReorganization ?i)))"
  have ok: "lfsr_ok ?s" by (intro lfsr_ok_work) (simp add: lfsr_ok_initialize)
  obtain zs st' where loop: "zuc_keystream_loop n ?s = (zs, st')" by fastforce
  then have "zuc_generate_keystream ?i n = (zs, st')"
    by (simp add: zuc_generate_keystream_def Let_def split_beta)
  with keystream_loop_spec [OF ok loop] show ?thesis
    by (simp add: LFSRWithWorkMode_spec lfsr_ok_initialize funpow_swap1)
qed

end
