(* ===== verification/Snow3g.thy ===== *)
theory Snow3g
  imports Prelude
begin

text \<open>
  SNOW 3G and the UIA2 function \<open>f9\<close> of \<^verbatim>\<open>lib/src/common/s3g.cc\<close>: the S-boxes, the LFSR
  and FSM clocks, initialisation and key stream, the multiplication in the field of
  \<open>2^64\<close> elements and the message authentication code built from them.
\<close>

section \<open>Tables and state\<close>

definition SQ :: bytes where
  "SQ = [0x25, 0x24, 0x73, 0x67, 0xD7, 0xAE, 0x5C, 0x30, 0xA4, 0xEE, 0x6E, 0xCB, 0x7D, 0xB5,
     0x82, 0xDB, 0xE4, 0x8E, 0x48, 0x49, 0x4F, 0x5D, 0x6A, 0x78, 0x70, 0x88, 0xE8, 0x5F,
     0x5E, 0x84, 0x65, 0xE2, 0xD8, 0xE9, 0xCC, 0xED, 0x40, 0x2F, 0x11, 0x28, 0x57, 0xD2,
     0xAC, 0xE3, 0x4A, 0x15, 0x1B, 0xB9, 0xB2, 0x80, 0x85, 0xA6, 0x2E, 0x02, 0x47, 0x29,
     0x07, 0x4B, 0x0E, 0xC1, 0x51, 0xAA, 0x89, 0xD4, 0xCA, 0x01, 0x46, 0xB3, 0xEF, 0xDD,
     0x44, 0x7B, 0xC2, 0x7F, 0xBE, 0xC3, 0x9F, 0x20, 0x4C, 0x64, 0x83, 0xA2, 0x68, 0x42,
     0x13, 0xB4, 0x41, 0xCD, 0xBA, 0xC6, 0xBB, 0x6D, 0x4D, 0x71, 0x21, 0xF4, 0x8D, 0xB0,
     0xE5, 0x93, 0xFE, 0x8F, 0xE6, 0xCF, 0x43, 0x45, 0x31, 0x22, 0x37, 0x36, 0x96, 0xFA,
     0xBC, 0x0F, 0x08, 0x52, 0x1D, 0x55, 0x1A, 0xC5, 0x4E, 0x23, 0x69, 0x7A, 0x92, 0xFF,
     0x5B, 0x5A, 0xEB, 0x9A, 0x1C, 0xA9, 0xD1, 0x7E, 0x0D, 0xFC, 0x50, 0x8A, 0xB6, 0x62,
     0xF5, 0x0A, 0xF8, 0xDC, 0x03, 0x3C, 0x0C, 0x39, 0xF1, 0xB8, 0xF3, 0x3D, 0xF2, 0xD5,
     0x97, 0x66, 0x81, 0x32, 0xA0, 0x00, 0x06, 0xCE, 0xF6, 0xEA, 0xB7, 0x17, 0xF7, 0x8C,
     0x79, 0xD6, 0xA7, 0xBF, 0x8B, 0x3F, 0x1F, 0x53, 0x63, 0x75, 0x35, 0x2C, 0x60, 0xFD,
     0x27, 0xD3, 0x94, 0xA5, 0x7C, 0xA1, 0x05, 0x58, 0x2D, 0xBD, 0xD9, 0xC7, 0xAF, 0x6B,
     0x54, 0x0B, 0xE0, 0x38, 0x04, 0xC8, 0x9D, 0xE7, 0x14, 0xB1, 0x87, 0x9C, 0xDF, 0x6F,
     0xF9, 0xDA, 0x2A, 0xC4, 0x59, 0x16, 0x74, 0x91, 0xAB, 0x26, 0x61, 0x76, 0x34, 0x2B,
     0xAD, 0x99, 0xFB, 0x72, 0xEC, 0x33, 0x12, 0xDE, 0x98, 0x3B, 0xC0, 0x9B, 0x3E, 0x18,
     0x10, 0x3A, 0x56, 0xE1, 0x77, 0xC9, 0x1E, 0x9E, 0x95, 0xA3, 0x90, 0x19, 0xA8, 0x6C,
     0x09, 0xD0, 0xF0, 0x86]"

definition S_box :: bytes where
  "S_box = [99, 124, 119, 123, 242, 107, 111, 197, 48, 1, 103, 43, 254, 215,
     171, 118, 202, 130, 201, 125, 250, 89, 71, 240, 173, 212, 162, 175,
     156, 164, 114, 192, 183, 253, 147, 38, 54, 63, 247, 204, 52, 165,
     229, 241, 113, 216, 49, 21, 4, 199, 35, 195, 24, 150, 5, 154,
     7, 18, 128, 226, 235, 39, 178, 117, 9, 131, 44, 26, 27, 110,
     90, 160, 82, 59, 214, 179, 41, 227, 47, 132, 83, 209, 0, 237,
     32, 252, 177, 91, 106, 203, 190, 57, 74, 76, 88, 207, 208, 239,
     170, 251, 67, 77, 51, 133, 69, 249, 2, 127, 80, 60, 159, 168,
     81, 163, 64, 143, 146, 157, 56, 245, 188, 182, 218, 33, 16, 255,
     243, 210, 205, 12, 19, 236, 95, 151, 68, 23, 196, 167, 126, 61,
     100, 93, 25, 115, 96, 129, 79, 220, 34, 42, 144, 136, 70, 238,
     184, 20, 222, 94, 11, 219, 224, 50, 58, 10, 73, 6, 36, 92,
     194, 211, 172, 98, 145, 149, 228, 121, 231, 200, 55, 109, 141, 213,
     78, 169, 108, 86, 244, 234, 101, 122, 174, 8, 186, 120, 37, 46,
     28, 166, 180, 198, 232, 221, 116, 31, 75, 189, 139, 138, 112, 62,
     181, 102, 72, 3, 246, 14, 97, 53, 87, 185, 134, 193, 29, 158,
     225, 248, 152, 17, 105, 217, 142, 148, 155, 30, 135, 233, 206, 85,
     40, 223, 140, 161, 137, 13, 191, 230, 66, 104, 65, 153, 45, 15,
     176, 84, 187, 22]"

text \<open>\<open>S3G_STATE\<close>: the arrays \<open>lfsr\<close> (16 words) and \<open>fsm\<close> (3 words) the code allocates.\<close>

record s3g_state =
  lfsr :: "u32 list"
  fsm :: "u32 list"

section \<open>Multiplication and S-boxes\<close>

definition s3g_mul_x :: "u8 \<Rightarrow> u8 \<Rightarrow> u8" where
  "s3g_mul_x v c = (if v AND 0x80 \<noteq> 0 then push_bit 1 v XOR c else push_bit 1 v)"

fun s3g_mul_x_pow :: "u8 \<Rightarrow> nat \<Rightarrow> u8 \<Rightarrow> u8" where
  "s3g_mul_x_pow v 0 c = v"
| "s3g_mul_x_pow v (Suc i) c = s3g_mul_x (s3g_mul_x_pow v i c) c"

definition s3g_mul_alpha :: "u8 \<Rightarrow> u32" where
  "s3g_mul_alpha c =
    (push_bit 24 (ucast (s3g_mul_x_pow c 23 0xa9)) OR push_bit 16 (ucast (s3g_mul_x_pow c 245 0xa9)) OR
     push_bit 8 (ucast (s3g_mul_x_pow c 48 0xa9)) OR ucast (s3g_mul_x_pow c 239 0xa9))"

definition s3g_div_alpha :: "u8 \<Rightarrow> u32" where
  "s3g_div_alpha c =
    (push_bit 24 (ucast (s3g_mul_x_pow c 16 0xa9)) OR push_bit 16 (ucast (s3g_mul_x_pow c 39 0xa9)) OR
     push_bit 8 (ucast (s3g_mul_x_pow c 6 0xa9)) OR ucast (s3g_mul_x_pow c 64 0xa9))"

definition s3g_s1 :: "u32 \<Rightarrow> u32" where
  "s3g_s1 w =
    (let srw0 = S_box ! unat (drop_bit 24 w AND 0xff);
         srw1 = S_box ! unat (drop_bit 16 w AND 0xff);
         srw2 = S_box ! unat (drop_bit 8 w AND 0xff);
         srw3 = S_box ! unat (w AND 0xff);
         r0 = s3g_mul_x srw0 0x1b XOR srw1 XOR srw2 XOR (s3g_mul_x srw3 0x1b XOR srw3);
         r1 = (s3g_mul_x srw0 0x1b XOR srw0) XOR s3g_mul_x srw1 0x1b XOR srw2 XOR srw3;
         r2 = srw0 XOR (s3g_mul_x srw1 0x1b XOR srw1) XOR s3g_mul_x srw2 0x1b XOR srw3;
         r3 = srw0 XOR srw1 XOR (s3g_mul_x srw2 0x1b XOR srw2) XOR s3g_mul_x srw3 0x1b
     in push_bit 24 (ucast r0) OR push_bit 16 (ucast r1) OR push_bit 8 (ucast r2) OR ucast r3)"

definition s3g_s2 :: "u32 \<Rightarrow> u32" where
  "s3g_s2 w =
    (let sqw0 = SQ ! unat (drop_bit 24 w AND 0xff);
         sqw1 = SQ ! unat (drop_bit 16 w AND 0xff);
         sqw2 = SQ ! unat (drop_bit 8 w AND 0xff);
         sqw3 = SQ ! unat (w AND 0xff);
         r0 = s3g_mul_x sqw0 0x69 XOR sqw1 XOR sqw2 XOR (s3g_mul_x sqw3 0x69 XOR sqw3);
         r1 = (s3g_mul_x sqw0 0x69 XOR sqw0) XOR s3g_mul_x sqw1 0x69 XOR sqw2 XOR sqw3;
         r2 = sqw0 XOR (s3g_mul_x sqw1 0x69 XOR sqw1) XOR s3g_mul_x sqw2 0x69 XOR sqw3;
         r3 = sqw0 XOR sqw1 XOR (s3g_mul_x sqw2 0x69 XOR sqw2) XOR s3g_mul_x sqw3 0x69
     in push_bit 24 (ucast r0) OR push_bit 16 (ucast r1) OR push_bit 8 (ucast r2) OR ucast r3)"

section \<open>Clocking and key stream\<close>

text \<open>The new LFSR word, then the loop that shifts the array in place.\<close>

definition s3g_lfsr_word :: "u32 list \<Rightarrow> u32 \<Rightarrow> u32" where
  "s3g_lfsr_word l f =
    (push_bit 8 (l ! 0) AND 0xffffff00) XOR s3g_mul_alpha (ucast (drop_bit 24 (l ! 0) AND 0xff)) XOR
    l ! 2 XOR (drop_bit 8 (l ! 11) AND 0x00ffffff) XOR s3g_div_alpha (ucast (l ! 11 AND 0xff)) XOR f"

definition s3g_clock_lfsr :: "s3g_state \<Rightarrow> u32 \<Rightarrow> s3g_state" where
  "s3g_clock_lfsr st f =
    (let v = s3g_lfsr_word (lfsr st) f;
         l = fold (\<lambda>i l. l[i := l ! (i + 1)]) [0..<15] (lfsr st)
     in st\<lparr>lfsr := l[15 := v]\<rparr>)"

definition s3g_clock_fsm :: "s3g_state \<Rightarrow> u32 \<times> s3g_state" where
  "s3g_clock_fsm st =
    (let f = ((lfsr st ! 15 + fsm st ! 0) AND 0xffffffff) XOR fsm st ! 1;
         r = (fsm st ! 1 + (fsm st ! 2 XOR lfsr st ! 5)) AND 0xffffffff;
         m = (fsm st)[2 := s3g_s2 (fsm st ! 1)];
         m = m[1 := s3g_s1 (m ! 0)];
         m = m[0 := r]
     in (f, st\<lparr>fsm := m\<rparr>))"

definition s3g_load_key :: "u32 list \<Rightarrow> u32 list \<Rightarrow> s3g_state" where
  "s3g_load_key k iv =
    \<lparr>lfsr = [k ! 0 XOR 0xffffffff, k ! 1 XOR 0xffffffff, k ! 2 XOR 0xffffffff, k ! 3 XOR 0xffffffff,
             k ! 0, k ! 1, k ! 2, k ! 3,
             k ! 0 XOR 0xffffffff, k ! 1 XOR 0xffffffff XOR iv ! 3,
             k ! 2 XOR 0xffffffff XOR iv ! 2, k ! 3 XOR 0xffffffff,
             k ! 0 XOR iv ! 1, k ! 1, k ! 2, k ! 3 XOR iv ! 0],
     fsm = [0, 0, 0]\<rparr>"

fun s3g_init_loop :: "nat \<Rightarrow> s3g_state \<Rightarrow> s3g_state" where
  "s3g_init_loop 0 st = st"
| "s3g_init_loop (Suc n) st = (let (f, st) = s3g_clock_fsm st in s3g_init_loop n (s3g_clock_lfsr st f))"

definition s3g_initialize :: "u32 list \<Rightarrow> u32 list \<Rightarrow> s3g_state" where
  "s3g_initialize k iv = s3g_init_loop 32 (s3g_load_key k iv)"

fun s3g_keystream_loop :: "nat \<Rightarrow> s3g_state \<Rightarrow> u32 list \<times> s3g_state" where
  "s3g_keystream_loop 0 st = ([], st)"
| "s3g_keystream_loop (Suc n) st =
    (let (f, st) = s3g_clock_fsm st;
         z = f XOR lfsr st ! 0;
         (zs, st) = s3g_keystream_loop n (s3g_clock_lfsr st 0)
     in (z # zs, st))"

definition s3g_generate_keystream :: "s3g_state \<Rightarrow> nat \<Rightarrow> u32 list \<times> s3g_state" where
  "s3g_generate_keystream st n =
    (let (f, st) = s3g_clock_fsm st
     in s3g_keystream_loop n (s3g_clock_lfsr st 0))"

section \<open>Multiplication modulo a polynomial of degree 64\<close>

definition s3g_MUL64x :: "u64 \<Rightarrow> u64 \<Rightarrow> u64" where
  "s3g_MUL64x V c = (if V AND 0x8000000000000000 \<noteq> 0 then push_bit 1 V XOR c else push_bit 1 V)"

fun s3g_MUL64xPOW :: "u64 \<Rightarrow> nat \<Rightarrow> u64 \<Rightarrow> u64" where
  "s3g_MUL64xPOW V 0 c = V"
| "s3g_MUL64xPOW V (Suc i) c = s3g_MUL64x (s3g_MUL64xPOW V i c) c"

definition s3g_MUL64 :: "u64 \<Rightarrow> u64 \<Rightarrow> u64 \<Rightarrow> u64" where
  "s3g_MUL64 V P c =
    fold (\<lambda>i result. if drop_bit i P AND 0x1 \<noteq> 0 then result XOR s3g_MUL64xPOW V i c else result) [0..<64] 0"

section \<open>UIA2: \<open>f9\<close>\<close>

definition mask8bit :: "nat \<Rightarrow> u8" where
  "mask8bit n = 0xFF XOR (push_bit (8 - n) 1 - 1)"

definition f9_load_key :: "bytes \<Rightarrow> u32 list" where
  "f9_load_key key =
    fill 4 (\<lambda>i. 3 - i)
      (\<lambda>i. push_bit 24 (ucast (key ! (4 * i))) XOR push_bit 16 (ucast (key ! (4 * i + 1))) XOR
           push_bit 8 (ucast (key ! (4 * i + 2))) XOR ucast (key ! (4 * i + 3)))
      [0, 0, 0, 0]"

text \<open>The 64-bit word at \<open>data[8 * i]\<close> and the loop \<open>for (i = 0; i < D - 2; i++)\<close>.\<close>

definition f9_word :: "bytes \<Rightarrow> u32 \<Rightarrow> u64 option" where
  "f9_word data i =
    ofold (\<lambda>j w. map_option (\<lambda>b. w OR push_bit (56 - 8 * j) (ucast b))
             (rd data (int (unat (8 * i + of_nat j))))) [0..<8] 0"

fun f9_blocks :: "nat \<Rightarrow> bytes \<Rightarrow> u32 \<Rightarrow> u64 \<Rightarrow> u64 \<Rightarrow> u64 \<Rightarrow> u64 option" where
  "f9_blocks 0 data i P c EVAL = Some EVAL"
| "f9_blocks (Suc n) data i P c EVAL =
    (case f9_word data i of
       None \<Rightarrow> None
     | Some m \<Rightarrow> f9_blocks n data (i + 1) P c (s3g_MUL64 (EVAL XOR m) P c))"

text \<open>The last, possibly partial, block: \<open>base\<close> is \<open>8 * (D - 2)\<close>.\<close>

function f9_last :: "bytes \<Rightarrow> u32 \<Rightarrow> nat \<Rightarrow> nat \<Rightarrow> u64 \<Rightarrow> u64 option" where
  "f9_last data base rem_bits i M =
    (if 7 < rem_bits then
       (case rd data (int (unat (base + of_nat i))) of
          None \<Rightarrow> None
        | Some b \<Rightarrow> f9_last data base (rem_bits - 8) (Suc i) (M OR push_bit (8 * (7 - i)) (ucast b)))
     else if 0 < rem_bits then
       (case rd data (int (unat (base + of_nat i))) of
          None \<Rightarrow> None
        | Some b \<Rightarrow> Some (M OR push_bit (8 * (7 - i)) (ucast (b AND mask8bit rem_bits))))
     else Some M)"
  by pat_completeness auto
termination
  by (relation "measure (\<lambda>(data, base, rem_bits, i, M). rem_bits)") auto

declare f9_last.simps [simp del]

definition s3g_f9 :: "bytes \<Rightarrow> u32 \<Rightarrow> u32 \<Rightarrow> u32 \<Rightarrow> bytes \<Rightarrow> u64 \<Rightarrow> bytes option" where
  "s3g_f9 key count fresh dir data len =
    (let K = f9_load_key key;
         IV = [fresh XOR push_bit 15 dir, count XOR push_bit 31 dir, fresh, count];
         (z, st) = s3g_generate_keystream (s3g_initialize K IV) 5;
         P = push_bit 32 (ucast (z ! 0)) OR ucast (z ! 1);
         Q = push_bit 32 (ucast (z ! 2)) OR ucast (z ! 3);
         D = (if len mod 64 = 0 then ucast (drop_bit 6 len + 1) else ucast (drop_bit 6 len + 2)) :: u32;
         c = 0x1b
     in Option.bind (f9_blocks (unat (D - 2)) data 0 P c 0) (\<lambda>EVAL.
        let rem_bits = (if len mod 64 = 0 then 64 else unat (len mod 64))
        in Option.bind (f9_last data (8 * (D - 2)) rem_bits 0 0) (\<lambda>M_D_2.
           let EVAL = s3g_MUL64 (EVAL XOR M_D_2) P c;
               EVAL = EVAL XOR len;
               EVAL = s3g_MUL64 EVAL Q c
           in Some (map (\<lambda>i. ucast ((drop_bit (56 - i * 8) EVAL XOR ucast (drop_bit (24 - i * 8) (z ! 4))) AND 0xff)) [0..<4]))))"

section \<open>The contract of a doubling step\<close>

text \<open>
  Both \<open>s3g_mul_x\<close> (8 bits) and \<open>s3g_MUL64x\<close> (64 bits) multiply by \<open>x\<close> in a ring of
  polynomials over two elements. The locale states what the callers rely on, and proves
  once that the shift-and-add product built on such a step is a commutative, associative
  product with unit \<open>1\<close> that distributes over XOR.
\<close>

definition gf_mul :: "('a::len word \<Rightarrow> 'a word) \<Rightarrow> 'a word \<Rightarrow> 'a word \<Rightarrow> 'a word" where
  "gf_mul x V P = fold (\<lambda>i r. if bit P i then r XOR (x ^^ i) V else r) [0..<LENGTH('a)] 0"

locale xtime =
  fixes x :: "'a::len word \<Rightarrow> 'a word"
  assumes x_xor: "x (a XOR b) = x a XOR x b"
    and x_exp: "Suc i < LENGTH('a) \<Longrightarrow> x (push_bit i 1) = push_bit (Suc i) 1"
begin

lemma x_0: "x 0 = 0"
  using x_xor [of 0 0] by simp

lemma pow_xor: "(x ^^ n) (a XOR b) = (x ^^ n) a XOR (x ^^ n) b"
  by (induction n) (simp_all add: x_xor)

lemma pow_0: "(x ^^ n) 0 = 0"
  by (induction n) (simp_all add: x_0)

lemma pow_one: "i < LENGTH('a) \<Longrightarrow> (x ^^ i) 1 = push_bit i 1"
proof (induction i)
  case (Suc i)
  then have "(x ^^ i) 1 = push_bit i 1" by simp
  then show ?case using x_exp [OF Suc.prems] by simp
qed simp

lemma fold_hom:
  assumes "\<And>a b. L (a XOR b) = L a XOR L b" and "\<And>v. L (x v) = x (L v)"
  shows "L (fold (\<lambda>i r. if bit P i then r XOR (x ^^ i) V else r) is r)
    = fold (\<lambda>i r. if bit P i then r XOR (x ^^ i) (L V) else r) is (L r)"
proof -
  have p: "L ((x ^^ i) v) = (x ^^ i) (L v)" for i v
    by (induction i) (simp_all add: assms(2))
  show ?thesis by (induction "is" arbitrary: r) (simp_all add: assms(1) p)
qed

lemma gf_mul_hom:
  assumes "\<And>a b. L (a XOR b) = L a XOR L b" and "\<And>v. L (x v) = x (L v)"
  shows "L (gf_mul x V P) = gf_mul x (L V) P"
proof -
  have "L 0 = 0" using assms(1) [of 0 0] by simp
  then show ?thesis unfolding gf_mul_def using fold_hom [OF assms, of P V "[0..<LENGTH('a)]" 0] by simp
qed

lemma fold_xor_left:
  "fold (\<lambda>i r. if bit P i then r XOR (x ^^ i) (V XOR W) else r) is (r XOR s)
   = fold (\<lambda>i r. if bit P i then r XOR (x ^^ i) V else r) is r
     XOR fold (\<lambda>i r. if bit P i then r XOR (x ^^ i) W else r) is s"
proof (induction "is" arbitrary: r s)
  case (Cons i "is")
  have "(r XOR s) XOR ((x ^^ i) V XOR (x ^^ i) W) = (r XOR (x ^^ i) V) XOR (s XOR (x ^^ i) W)"
    by (simp add: ac_simps)
  then show ?case using Cons by (simp add: pow_xor)
qed simp

lemma gf_mul_xor_left: "gf_mul x (V XOR W) P = gf_mul x V P XOR gf_mul x W P"
  unfolding gf_mul_def using fold_xor_left [of P V W _ 0 0] by simp

lemma gf_mul_x_left: "gf_mul x (x V) P = x (gf_mul x V P)"
  using gf_mul_hom [of x V P] x_xor by simp

lemma fold_one:
  "n \<le> LENGTH('a) \<Longrightarrow> fold (\<lambda>i r. if bit P i then r XOR (x ^^ i) 1 else r) [0..<n] 0 = take_bit n P"
proof (induction n)
  case (Suc n)
  have "take_bit (Suc n) P = (if bit P n then take_bit n P XOR push_bit n 1 else take_bit n P)"
    by (rule bit_word_eqI) (auto simp: bit_simps less_Suc_eq)
  then show ?case using Suc by (simp add: pow_one)
qed simp

lemma gf_mul_one_left: "gf_mul x 1 P = P"
  by (simp add: gf_mul_def fold_one)

lemma gf_mul_commute: "gf_mul x V P = gf_mul x P V"
  using gf_mul_hom [of "\<lambda>V. gf_mul x V P" 1 V]
  by (simp add: gf_mul_xor_left gf_mul_x_left gf_mul_one_left)

lemma gf_mul_xor_right: "gf_mul x V (P XOR Q) = gf_mul x V P XOR gf_mul x V Q"
  by (simp add: gf_mul_commute [of V] gf_mul_xor_left)

lemma gf_mul_swap: "gf_mul x (gf_mul x V P) Q = gf_mul x (gf_mul x V Q) P"
  using gf_mul_hom [of "\<lambda>V. gf_mul x V Q" V P]
  by (simp add: gf_mul_xor_left gf_mul_x_left)

lemma gf_mul_assoc: "gf_mul x (gf_mul x V P) Q = gf_mul x V (gf_mul x P Q)"
  by (metis gf_mul_commute gf_mul_swap)

lemma pow_id:
  assumes "(x ^^ n) 1 = 1"
  shows "(x ^^ n) v = v"
proof -
  have "(x ^^ n) (x w) = x ((x ^^ n) w)" for w by (simp add: funpow_swap1)
  then have "(x ^^ n) (gf_mul x 1 v) = gf_mul x ((x ^^ n) 1) v"
    by (intro gf_mul_hom pow_xor)
  then show ?thesis using assms by (simp add: gf_mul_one_left)
qed

end

lemma and_exp_bit: "(v :: 'a::len word) AND push_bit n 1 \<noteq> 0 \<longleftrightarrow> bit v n"
  by (simp add: push_bit_of_1 and_exp_eq_0_iff_not_bit)

lemma s3g_mul_x_bit: "s3g_mul_x v c = push_bit 1 v XOR (if bit v 7 then c else 0)"
  using and_exp_bit [of v 7] by (simp add: s3g_mul_x_def)

lemma s3g_MUL64x_bit: "s3g_MUL64x v c = push_bit 1 v XOR (if bit v 63 then c else 0)"
  using and_exp_bit [of v 63] by (simp add: s3g_MUL64x_def)

interpretation mx: xtime "\<lambda>v. s3g_mul_x v c" for c
proof
  show "s3g_mul_x (a XOR b) c = s3g_mul_x a c XOR s3g_mul_x b c" for a b
    by (simp add: s3g_mul_x_bit bit_xor_iff push_bit_xor ac_simps)
  show "Suc i < LENGTH(8) \<Longrightarrow> s3g_mul_x (push_bit i 1) c = push_bit (Suc i) 1" for i
    by (simp add: s3g_mul_x_bit push_bit_of_1 bit_exp_iff)
qed

interpretation mul64: xtime "\<lambda>v. s3g_MUL64x v c" for c
proof
  show "s3g_MUL64x (a XOR b) c = s3g_MUL64x a c XOR s3g_MUL64x b c" for a b
    by (simp add: s3g_MUL64x_bit bit_xor_iff push_bit_xor ac_simps)
  show "Suc i < LENGTH(64) \<Longrightarrow> s3g_MUL64x (push_bit i 1) c = push_bit (Suc i) 1" for i
    by (simp add: s3g_MUL64x_bit push_bit_of_1 bit_exp_iff)
qed

lemma s3g_mul_x_pow_funpow: "s3g_mul_x_pow v i c = ((\<lambda>v. s3g_mul_x v c) ^^ i) v"
  by (induction i) simp_all

lemma s3g_MUL64xPOW_funpow: "s3g_MUL64xPOW v i c = ((\<lambda>v. s3g_MUL64x v c) ^^ i) v"
  by (induction i) simp_all

lemma s3g_MUL64_gf_mul: "s3g_MUL64 V P c = gf_mul (\<lambda>v. s3g_MUL64x v c) V P"
  unfolding s3g_MUL64_def gf_mul_def s3g_MUL64xPOW_funpow
  by (simp add: and_one_eq bit_iff_odd_drop_bit flip: odd_iff_mod_2_eq_one)

lemma mul_x_pow_255_one: "s3g_mul_x_pow 1 255 0xa9 = 1"
  by code_simp

section \<open>Multiplication by alpha and the LFSR\<close>

definition mul_alpha32 :: "u32 \<Rightarrow> u32" where
  "mul_alpha32 w = (push_bit 8 w AND 0xffffff00) XOR s3g_mul_alpha (ucast (drop_bit 24 w AND 0xff))"

definition div_alpha32 :: "u32 \<Rightarrow> u32" where
  "div_alpha32 w = (drop_bit 8 w AND 0x00ffffff) XOR s3g_div_alpha (ucast (w AND 0xff))"

lemma s3g_lfsr_word_alpha:
  "s3g_lfsr_word l f = mul_alpha32 (l ! 0) XOR l ! 2 XOR div_alpha32 (l ! 11) XOR f"
  by (simp only: s3g_lfsr_word_def mul_alpha32_def div_alpha32_def xor.assoc)

lemma byte_masks: "(0xff :: u32) = mask 8" "(0xffffff :: u32) = mask 24" "(0xffffff00 :: u32) = push_bit 8 (mask 24)"
  by (simp_all add: mask_eq_exp_minus_1 push_bit_eq_mult)

lemma mul_alpha_pack: "s3g_mul_alpha c = pack32 (s3g_mul_x_pow c 23 0xa9)
    (s3g_mul_x_pow c 245 0xa9) (s3g_mul_x_pow c 48 0xa9) (s3g_mul_x_pow c 239 0xa9)"
  by (simp add: s3g_mul_alpha_def pack32_def)

lemma div_alpha_pack: "s3g_div_alpha c = pack32 (s3g_mul_x_pow c 16 0xa9)
    (s3g_mul_x_pow c 39 0xa9) (s3g_mul_x_pow c 6 0xa9) (s3g_mul_x_pow c 64 0xa9)"
  by (simp add: s3g_div_alpha_def pack32_def)

lemma div_mul_pack:
  fixes w v :: u32 and A B C D :: u8
  assumes v_def: "v = (push_bit 8 w AND 0xffffff00) XOR pack32 A B C D"
  shows "ucast (v AND 0xff) = D"
    and "(drop_bit 8 v AND 0x00ffffff) XOR pack32 (ucast (drop_bit 24 w AND 0xff)) A B C = w"
proof -
  show "ucast (v AND 0xff) = D"
    unfolding v_def byte_masks by (rule bit_word_eqI) (auto simp: bit_simps bit_pack32)
  show "(drop_bit 8 v AND 0x00ffffff) XOR pack32 (ucast (drop_bit 24 w AND 0xff)) A B C = w"
    unfolding v_def byte_masks by (rule bit_word_eqI) (auto simp: bit_simps bit_pack32)
qed

lemma s3g_mul_x_pow_add: "s3g_mul_x_pow (s3g_mul_x_pow v m c) n c = s3g_mul_x_pow v (n + m) c"
  by (simp add: s3g_mul_x_pow_funpow funpow_add)

lemma s3g_mul_x_pow_255: "s3g_mul_x_pow v (255 + n) 0xa9 = s3g_mul_x_pow v n 0xa9"
  using mx.pow_id [of 255 "0xa9"] mul_x_pow_255_one
  by (simp add: s3g_mul_x_pow_funpow funpow_add)

lemma div_alpha32_mul_alpha32: "div_alpha32 (mul_alpha32 w) = w"
proof -
  let ?c = "ucast (drop_bit 24 w AND 0xff) :: u8"
  let ?x = "\<lambda>n. s3g_mul_x_pow ?c n 0xa9"
  have e: "?x (16 + 239) = ?c" "?x (39 + 239) = ?x 23" "?x (6 + 239) = ?x 245" "?x (64 + 239) = ?x 48"
    using s3g_mul_x_pow_255 [of ?c 0] s3g_mul_x_pow_255 [of ?c 23] s3g_mul_x_pow_255 [of ?c 48]
    by simp_all
  have v: "mul_alpha32 w = (push_bit 8 w AND 0xffffff00) XOR pack32 (?x 23) (?x 245) (?x 48) (?x 239)"
    by (simp only: mul_alpha32_def mul_alpha_pack)
  have "s3g_div_alpha (ucast (mul_alpha32 w AND 0xff)) = pack32 ?c (?x 23) (?x 245) (?x 48)"
    by (simp only: div_mul_pack(1) [OF v] div_alpha_pack s3g_mul_x_pow_add e)
  then show ?thesis
    using div_mul_pack(2) [OF v] by (simp only: div_alpha32_def)
qed

fun s3g_ok :: "s3g_state \<Rightarrow> bool" where
  "s3g_ok st \<longleftrightarrow> length (lfsr st) = 16 \<and> length (fsm st) = 3"

lemma fold_shift:
  "n < length l \<Longrightarrow> fold (\<lambda>i l. l[i := l ! Suc i]) [0..<n] l = take n (tl l) @ drop n l"
proof (induction n)
  case (Suc n)
  then have n: "n < length l" "n < length (tl l)" by simp_all
  have "drop n l = l ! n # drop (Suc n) l" using n by (simp add: Cons_nth_drop_Suc)
  moreover have "(take n (tl l) @ drop n l) ! Suc n = tl l ! n"
    using Suc.prems by (simp add: nth_append nth_tl)
  moreover have "take (Suc n) (tl l) = take n (tl l) @ [tl l ! n]"
    using n by (simp add: take_Suc_conv_app_nth)
  ultimately show ?case using Suc.IH n
    by (simp add: list_update_append min_def)
qed simp

lemma lfsr_clock: "length (lfsr st) = 16 \<Longrightarrow>
  lfsr (s3g_clock_lfsr st f) = tl (lfsr st) @ [s3g_lfsr_word (lfsr st) f]"
proof -
  assume l: "length (lfsr st) = 16"
  then have "drop 15 (lfsr st) = [lfsr st ! 15]"
    by (metis Cons_nth_drop_Suc drop_all lessI numeral_eq_Suc order_refl pred_numeral_simps(2) semiring_norm(26,27,28))
  then show ?thesis using l
    by (simp add: s3g_clock_lfsr_def fold_shift Let_def list_update_append)
qed

lemma s3g_ok_clock_lfsr: "s3g_ok st \<Longrightarrow> s3g_ok (s3g_clock_lfsr st f)"
  by (simp add: lfsr_clock) (simp add: s3g_clock_lfsr_def)

lemma s3g_ok_clock_fsm: "s3g_ok st \<Longrightarrow> s3g_ok (snd (s3g_clock_fsm st))"
  by (simp add: s3g_clock_fsm_def Let_def)

lemma s3g_ok_init_loop: "s3g_ok st \<Longrightarrow> s3g_ok (s3g_init_loop n st)"
  by (induction n arbitrary: st)
    (simp_all add: split_beta s3g_ok_clock_lfsr s3g_ok_clock_fsm del: s3g_ok.simps)

lemma s3g_ok_initialize: "s3g_ok (s3g_initialize k iv)"
  unfolding s3g_initialize_def by (rule s3g_ok_init_loop) (simp add: s3g_load_key_def)

lemma length_keystream_loop: "length (fst (s3g_keystream_loop n st)) = n"
  by (induction n arbitrary: st) (simp_all add: split_beta Let_def)

lemma length_s3g_keystream [simp]: "length (fst (s3g_generate_keystream st n)) = n"
  by (simp add: s3g_generate_keystream_def split_beta length_keystream_loop)

lemma s3g_lfsr_word_inj:
  assumes "length l = 16" and "length l' = 16" and "tl l = tl l'"
    and "s3g_lfsr_word l f = s3g_lfsr_word l' f"
  shows "l = l'"
proof -
  have nth: "l ! Suc i = l' ! Suc i" if "i < 15" for i
    using that assms(1,2) nth_tl [of i l] nth_tl [of i l'] assms(3) by simp
  have "mul_alpha32 (l ! 0) = mul_alpha32 (l' ! 0)"
  proof -
    have "l ! 2 = l' ! 2" "l ! 11 = l' ! 11" using nth [of 1] nth [of 10] by (simp_all add: numeral_eq_Suc)
    then show ?thesis
      using assms(4) by (simp add: s3g_lfsr_word_alpha xor_right_eq)
  qed
  then have "l ! 0 = l' ! 0" by (metis div_alpha32_mul_alpha32)
  moreover have "l = l ! 0 # tl l" "l' = l' ! 0 # tl l'"
    using assms(1,2) by (cases l, simp_all) (cases l', simp_all)
  ultimately show ?thesis using assms(3) by metis
qed

section \<open>The function \<open>f9\<close> against its specification\<close>

text \<open>
  \<open>uia2_mac\<close> is the UIA2 specification on whole bytes: the message is cut into 64-bit
  blocks, the last one padded with zeros, and evaluated as a polynomial at \<open>P\<close> (Horner's
  rule); the bit length is added and multiplied by \<open>Q\<close>; the upper half is masked with the
  fifth key stream word.
\<close>

definition be64 :: "(nat \<Rightarrow> u8) \<Rightarrow> u64" where
  "be64 g = fold (\<lambda>j w. w OR push_bit (56 - 8 * j) (ucast (g j))) [0..<8] 0"

definition msg_block :: "bytes \<Rightarrow> nat \<Rightarrow> u64" where
  "msg_block data i = be64 (\<lambda>j. if 8 * i + j < length data then data ! (8 * i + j) else 0)"

definition uia2_mac :: "bytes \<Rightarrow> u32 \<Rightarrow> u32 \<Rightarrow> u32 \<Rightarrow> bytes \<Rightarrow> bytes" where
  "uia2_mac key count fresh dir data =
    (let z = fst (s3g_generate_keystream (s3g_initialize (f9_load_key key)
           [fresh XOR push_bit 15 dir, count XOR push_bit 31 dir, fresh, count]) 5);
         P = push_bit 32 (ucast (z ! 0)) OR ucast (z ! 1);
         Q = push_bit 32 (ucast (z ! 2)) OR ucast (z ! 3);
         E = foldl (\<lambda>e m. s3g_MUL64 (e XOR m) P 0x1b) 0
               (map (msg_block data) [0..<(length data + 7) div 8]);
         T = s3g_MUL64 (E XOR of_nat (8 * length data)) Q 0x1b;
         mac = ucast (drop_bit 32 T) XOR z ! 4 :: u32
     in [ucast (drop_bit 24 mac), ucast (drop_bit 16 mac), ucast (drop_bit 8 mac), ucast mac])"

lemma unat_idx: "8 * i + j < 2^32 \<Longrightarrow> unat (8 * (of_nat i :: u32) + of_nat j) = 8 * i + j"
proof -
  assume b: "8 * i + j < 2^32"
  have "8 * (of_nat i :: u32) + of_nat j = of_nat (8 * i + j)" by simp
  then have "unat (8 * (of_nat i :: u32) + of_nat j) = (8 * i + j) mod 2^32"
    by (simp only: unat_of_nat) simp
  with b show ?thesis by simp
qed

lemma f9_word_spec:
  assumes "8 * i + 8 \<le> length data" "length data < 2^32"
  shows "f9_word data (of_nat i) = Some (msg_block data i)"
proof -
  have "f9_word data (of_nat i) = ofold (\<lambda>j w. map_option (\<lambda>b. w OR push_bit (56 - 8 * j) (ucast b))
          (rd data (int (8 * i + j)))) [0..<8] 0"
    unfolding f9_word_def using assms 
    by (intro ofold_cong) (simp_all add: unat_idx)
  also have "\<dots> = Some (be64 (\<lambda>j. data ! (8 * i + j)))"
    unfolding be64_def using assms by (subst ofold_map_rd) simp_all
  also have "be64 (\<lambda>j. data ! (8 * i + j)) = msg_block data i"
    unfolding msg_block_def be64_def using assms by (intro fold_cong) simp_all
  finally show ?thesis .
qed

lemma upt_shift: "[i..<i + Suc n] = i # [Suc i..<Suc i + n]"
  by (simp add: upt_conv_Cons del: upt_Suc)

lemma f9_blocks_spec:
  assumes "8 * (i + n) \<le> length data" "length data < 2^32"
  shows "f9_blocks n data (of_nat i) P c E =
    Some (foldl (\<lambda>e m. s3g_MUL64 (e XOR m) P c) E (map (msg_block data) [i..<i + n]))"
  using assms(1)
proof (induction n arbitrary: i E)
  case (Suc n)
  have w: "f9_word data (of_nat i) = Some (msg_block data i)"
    using Suc.prems assms(2) by (intro f9_word_spec) simp_all
  have "\<And>E'. f9_blocks n data (of_nat (Suc i)) P c E' =
      Some (foldl (\<lambda>e m. s3g_MUL64 (e XOR m) P c) E' (map (msg_block data) [Suc i..<Suc i + n]))"
    using Suc.prems by (intro Suc.IH) simp
  moreover have "f9_blocks (Suc n) data (of_nat i) P c E
      = f9_blocks n data (of_nat (Suc i)) P c (s3g_MUL64 (E XOR msg_block data i) P c)"
    by (simp add: w add.commute)
  ultimately show ?case by (simp only: upt_shift list.map foldl.simps)
qed simp

lemma f9_last_bytes:
  assumes "i + r \<le> 8" "base + r + i \<le> length data" "length data < 2^32" "8 dvd base"
  shows "f9_last data (of_nat base) (8 * r) i M =
    Some (fold (\<lambda>j w. w OR push_bit (56 - 8 * j) (ucast (data ! (base + j)))) [i..<i + r] M)"
  using assms(1,2)
proof (induction r arbitrary: i M)
  case 0
  then show ?case by (simp add: f9_last.simps)
next
  case (Suc r)
  obtain q where q: "base = 8 * q" using assms(4) by blast
  have u: "unat (of_nat base + of_nat i :: u32) = base + i"
    using Suc.prems assms(3) unat_idx [of q i] by (simp add: q)
  have s: "8 * (7 - i) = 56 - 8 * i" "8 * Suc r - 8 = 8 * r" by simp_all
  have "base + i < length data" using Suc.prems by simp
  then have rd: "rd data (int (unat (of_nat base + of_nat i :: u32))) = Some (data ! (base + i))"
    by (simp only: u rd_Some)
  have ih: "f9_last data (of_nat base) (8 * r) (Suc i) M' = Some (fold
      (\<lambda>j w. w OR push_bit (56 - 8 * j) (ucast (data ! (base + j)))) [Suc i..<Suc i + r] M')" for M'
    using Suc.prems by (intro Suc.IH) simp_all
  show ?case
    by (subst f9_last.simps) (simp only: rd s ih upt_shift fold_simps option.case, simp)
qed

lemma fold_or_zero: "(\<And>j. j \<in> set js \<Longrightarrow> g j = 0) \<Longrightarrow>
   fold (\<lambda>j w. w OR push_bit (f j) (ucast (g j :: u8))) js (w :: u64) = w"
  by (induction js arbitrary: w) simp_all

lemma f9_last_spec:
  assumes "0 < r" "r \<le> 8" "length data = 8 * i + r" "length data < 2^32"
  shows "f9_last data (8 * of_nat i) (8 * r) 0 0 = Some (msg_block data i)"
proof -
  have "f9_last data (of_nat (8 * i)) (8 * r) 0 0 =
     Some (fold (\<lambda>j w. w OR push_bit (56 - 8 * j) (ucast (data ! (8 * i + j)))) [0..<0 + r] 0)"
    using assms by (intro f9_last_bytes) simp_all
  moreover have "msg_block data i = fold (\<lambda>j w. w OR push_bit (56 - 8 * j) (ucast (data ! (8 * i + j)))) [0..<r] 0"
  proof -
    let ?g = "\<lambda>j. if 8 * i + j < length data then data ! (8 * i + j) else 0"
    have "[0..<8] = [0..<r] @ [r..<8]" using assms(2) upt_add_eq_append [of 0 r "8 - r"] by simp
    then have "msg_block data i = fold (\<lambda>j w. w OR push_bit (56 - 8 * j) (ucast (?g j))) [r..<8]
        (fold (\<lambda>j w. w OR push_bit (56 - 8 * j) (ucast (?g j))) [0..<r] 0)"
      by (simp only: msg_block_def be64_def fold_append comp_apply)
    also have "\<dots> = fold (\<lambda>j w. w OR push_bit (56 - 8 * j) (ucast (?g j))) [0..<r] 0"
      by (rule fold_or_zero) (use assms(3) in simp)
    also have "\<dots> = fold (\<lambda>j w. w OR push_bit (56 - 8 * j) (ucast (data ! (8 * i + j)))) [0..<r] 0"
      by (rule fold_cong) (use assms(3) in simp_all)
    finally show ?thesis .
  qed
  ultimately show ?thesis by simp
qed


lemma block_count:
  assumes "0 < n"
  shows "8 * ((n - 1) div 8) < n" "n - 8 * ((n - 1) div 8) \<le> 8" "(n + 7) div 8 = Suc ((n - 1) div 8)"
proof -
  obtain m where m: "n = Suc m" using assms gr0_conv_Suc by blast
  have r: "8 * (m div 8) + m mod 8 = m" "m mod 8 < 8" by simp_all
  show "8 * ((n - 1) div 8) < n" "n - 8 * ((n - 1) div 8) \<le> 8" using r by (simp_all add: m)
  show "(n + 7) div 8 = Suc ((n - 1) div 8)" by (simp add: m)
qed

lemma f9_length_words:
  fixes data :: bytes
  defines "n \<equiv> length data"
  assumes "0 < n" "n < 2^29"
  defines "len \<equiv> of_nat (8 * n) :: u64"
  defines "D \<equiv> (if len mod 64 = 0 then ucast (drop_bit 6 len + 1) else ucast (drop_bit 6 len + 2)) :: u32"
  shows "D - 2 = of_nat ((n - 1) div 8)"
    and "(if len mod 64 = 0 then 64 else unat (len mod 64)) = 8 * (n - 8 * ((n - 1) div 8))"
proof -
  have ul: "unat len = 8 * n"
    using assms(3) by (simp only: len_def unat_of_nat) simp
  have um: "unat (len mod 64) = 8 * (n mod 8)"
    by (simp add: unat_mod_distrib ul mult_mod_right)
  have mod0: "len mod 64 = 0 \<longleftrightarrow> n mod 8 = 0"
    using um by (metis mult_eq_0_iff numeral_neq_zero unat_0 unsigned_eq_0_iff)
  have "unat (drop_bit 6 len) = n div 8"
    by (simp only: unat_drop_bit_eq ul) (simp add: drop_bit_eq_div)
  then have "of_nat (unat (drop_bit 6 len)) = (of_nat (n div 8) :: u64)"
    by (rule arg_cong)
  then have db: "drop_bit 6 len = of_nat (n div 8)" by simp
  have u: "ucast (of_nat k :: u64) = (of_nat k :: u32)" if "k < 2^32" for k
    using that by (simp add: word_unat_eq_iff unsigned_ucast_eq unat_of_nat take_bit_eq_mod)
  have D: "D = (if n mod 8 = 0 then of_nat (n div 8 + 1) else of_nat (n div 8 + 2))"
    using u [of "n div 8 + 1"] u [of "n div 8 + 2"] assms(3) by (simp add: D_def mod0 db ac_simps)
  consider (full) k where "n = 8 * Suc k" "(n - 1) div 8 = k" "n mod 8 = 0"
    | (part) "n mod 8 \<noteq> 0" "(n - 1) div 8 = n div 8"
  proof (cases "n mod 8 = 0")
    case True
    then obtain k where "n = 8 * Suc k"
      using assms(2) by (metis mod_0_imp_dvd dvd_def gr0_conv_Suc mult_0_right not_gr_zero)
    then show ?thesis using that(1) [of k] by simp
  next
    case False
    then have "(n - 1) div 8 = n div 8"
      by (metis One_nat_def Suc_pred assms(2) div_Suc)
    then show ?thesis using that(2) False by blast
  qed
  note cs = this
  from cs show "D - 2 = of_nat ((n - 1) div 8)" by cases (simp_all add: D)
  from cs show "(if len mod 64 = 0 then 64 else unat (len mod 64)) = 8 * (n - 8 * ((n - 1) div 8))"
    by cases (simp_all add: mod0 um minus_mult_div_eq_mod)
qed

lemma be_bytes_high:
  fixes T :: u64 and z :: u32
  shows "map (\<lambda>i. ucast ((drop_bit (56 - i * 8) T XOR ucast (drop_bit (24 - i * 8) z)) AND 0xff)) [0..<4]
    = (let mac = ucast (drop_bit 32 T) XOR z :: u32
       in [ucast (drop_bit 24 mac), ucast (drop_bit 16 mac), ucast (drop_bit 8 mac), ucast mac :: u8])"
proof -
  have m: "(0xff :: u64) = mask 8" by (simp add: mask_eq_exp_minus_1)
  have b: "ucast ((drop_bit (32 + k) T XOR ucast (drop_bit k z)) AND 0xff) = (ucast (drop_bit k (ucast (drop_bit 32 T) XOR z)) :: u8)"
    if "k \<le> 24" for k
    unfolding m using that by (intro bit_word_eqI) (auto simp: bit_simps ac_simps)
  show ?thesis
    using b [of 24] b [of 16] b [of 8] b [of 0] by (simp add: Let_def upt_conv_Cons)
qed

lemma f9_blocks_overrun:
  assumes "length data < 2^31" and "i \<le> length data div 8" and "length data div 8 < i + n"
  shows "f9_blocks n data (of_nat i) P c E = None"
  using assms(2,3)
proof (induction n arbitrary: i E)
  case (Suc n)
  show ?case
  proof (cases "i = length data div 8")
    case True
    have "f9_word data (of_nat i) = ofold (\<lambda>j w. map_option (\<lambda>b. w OR push_bit (56 - 8 * j) (ucast b))
            (rd data (int (8 * i + j)))) [0..<8] 0"
      unfolding f9_word_def using assms(1) True by (intro ofold_cong) (simp_all add: unat_idx)
    also have "\<dots> = None"
    proof (rule ofold_map_rd_None [of 7])
      show "7 \<in> set [0..<8]" by simp
      show "length data \<le> 8 * i + 7" using True by linarith
    qed
    finally show ?thesis by simp
  next
    case False
    then have "f9_blocks n data (of_nat (Suc i)) P c E' = None" for E'
      using Suc.prems by (intro Suc.IH) simp_all
    then show ?thesis by (simp add: add.commute split: option.split)
  qed
qed simp

lemma s3g_f9_uia2:
  assumes "0 < length data" and "length data < 2^29"
  shows "s3g_f9 key count fresh dir data (of_nat (8 * length data)) = Some (uia2_mac key count fresh dir data)"
proof -
  let ?n = "length data" and ?N = "(length data - 1) div 8"
  let ?z = "fst (s3g_generate_keystream (s3g_initialize (f9_load_key key)
           [fresh XOR push_bit 15 dir, count XOR push_bit 31 dir, fresh, count]) 5)"
  let ?P = "push_bit 32 (ucast (?z ! 0)) OR ucast (?z ! 1) :: u64"
  note words = f9_length_words [OF assms]
  have N: "8 * ?N < ?n" "?n - 8 * ?N \<le> 8" "?n = 8 * ?N + (?n - 8 * ?N)" "(?n + 7) div 8 = Suc ?N"
    using block_count [OF assms(1)] by simp_all
  have small: "?N < 2^32" "?n < 2^32" using assms(2) by simp_all
  have blocks: "f9_blocks (unat (of_nat ?N :: u32)) data 0 ?P 0x1b 0
      = Some (foldl (\<lambda>e m. s3g_MUL64 (e XOR m) ?P 0x1b) 0 (map (msg_block data) [0..<?N]))"
    using f9_blocks_spec [of 0 ?N data ?P "0x1b" 0] N(1) small by (simp add: unat_of_nat)
  have last: "f9_last data (8 * of_nat ?N) (8 * (?n - 8 * ?N)) 0 0 = Some (msg_block data ?N)"
    using N small by (intro f9_last_spec) simp_all
  show ?thesis
    unfolding s3g_f9_def uia2_mac_def Let_def split_beta words N(4) blocks last bind.bind_lunit
    by (simp only: be_bytes_high Let_def upt_Suc map_append foldl_append list.map foldl.simps if_True le0)
qed

text \<open>Memory behind the message changes nothing.\<close>

lemma f9_word_append: "f9_word data i = Some w \<Longrightarrow> f9_word (data @ rest) i = Some w"
  unfolding f9_word_def by (erule ofold_mono [rotated]) (auto simp: rd_append)

lemma f9_blocks_append: "f9_blocks n data i P c E = Some w \<Longrightarrow> f9_blocks n (data @ rest) i P c E = Some w"
proof (induction n arbitrary: i E)
  case (Suc n)
  then show ?case by (cases "f9_word data i") (simp_all add: f9_word_append)
qed simp

lemma f9_last_append: "f9_last data b r i M = Some w \<Longrightarrow> f9_last (data @ rest) b r i M = Some w"
proof (induction data b r i M rule: f9_last.induct)
  case (1 data b r i M)
  note prem = 1(2) [unfolded f9_last.simps [of data b r i M]]
  show ?case
  proof (cases "rd data (int (unat (b + of_nat i)))")
    case None
    then show ?thesis using prem by (subst f9_last.simps) (auto split: if_splits)
  next
    case (Some x)
    then show ?thesis using prem 1(1) [OF _ Some]
      by (subst f9_last.simps) (auto simp: rd_append split: if_splits)
  qed
qed

lemma s3g_f9_append: "s3g_f9 key count fresh dir data len = Some mac \<Longrightarrow>
  s3g_f9 key count fresh dir (data @ rest) len = Some mac"
  unfolding s3g_f9_def Let_def split_beta
  by (erule bind_mono, erule f9_blocks_append, erule bind_mono, erule f9_last_append, assumption)

section \<open>Properties\<close>

text \<open>
  For every reduction constant the code's \<open>MUL64\<close> is the product of a commutative
  ring with unit: it is commutative, associative, distributes over XOR, and \<open>1\<close> is neutral.
\<close>

theorem s3g_MUL64_ring:
  "s3g_MUL64 V P c = s3g_MUL64 P V c
   \<and> s3g_MUL64 (s3g_MUL64 V P c) Q c = s3g_MUL64 V (s3g_MUL64 P Q c) c
   \<and> s3g_MUL64 (V XOR W) P c = s3g_MUL64 V P c XOR s3g_MUL64 W P c
   \<and> s3g_MUL64 1 P c = P"
  unfolding s3g_MUL64_gf_mul
  by (intro conjI mul64.gf_mul_commute mul64.gf_mul_assoc mul64.gf_mul_xor_left mul64.gf_mul_one_left)

text \<open>
  The LFSR clock never merges two states: the constants of \<open>s3g_div_alpha\<close> invert
  those of \<open>s3g_mul_alpha\<close>, so the word shifted out can be recovered.
\<close>

theorem s3g_clock_lfsr_reversible:
  assumes "s3g_ok st" and "s3g_ok st'" and "s3g_clock_lfsr st f = s3g_clock_lfsr st' f"
  shows "st = st'"
proof -
  have len: "length (lfsr st) = 16" "length (lfsr st') = 16" using assms(1,2) by simp_all
  have "lfsr (s3g_clock_lfsr st f) = lfsr (s3g_clock_lfsr st' f)" by (simp only: assms(3))
  then have "tl (lfsr st) = tl (lfsr st')" "s3g_lfsr_word (lfsr st) f = s3g_lfsr_word (lfsr st') f"
    by (simp_all only: lfsr_clock len append1_eq_conv)
  then have "lfsr st = lfsr st'" by (rule s3g_lfsr_word_inj [OF len])
  moreover have "fsm st = fsm st'"
    using arg_cong [OF assms(3), of fsm] by (simp add: s3g_clock_lfsr_def Let_def)
  ultimately show ?thesis by simp
qed

theorem s3g_clock_lfsr_reversible_witness:
  "let st = s3g_initialize [1, 2, 3, 4] [5, 6, 7, 8] in s3g_ok st
     \<and> (\<forall>st'. s3g_ok st' \<and> s3g_clock_lfsr st 9 = s3g_clock_lfsr st' 9 \<longrightarrow> st = st')"
  using s3g_clock_lfsr_reversible [OF s3g_ok_initialize] s3g_ok_initialize by (metis (full_types))

text \<open>
  Claim C34. On every non-empty message of less than \<open>2^29\<close> bytes, \<open>s3g_f9\<close> reads only bytes
  of the message and returns the UIA2 code of the specification.
\<close>

theorem s3g_f9_spec:
  assumes "0 < length data" and "length data < 2^29"
  shows "s3g_f9 key count fresh dir data (of_nat (8 * length data)) = Some (uia2_mac key count fresh dir data)"
  using assms by (rule s3g_f9_uia2)

theorem s3g_f9_spec_witness:
  "s3g_f9 (replicate 16 3) 1 2 0 [10, 20, 30, 40, 50, 60, 70, 80, 90] 72
     = Some (uia2_mac (replicate 16 3) 1 2 0 [10, 20, 30, 40, 50, 60, 70, 80, 90])"
  using s3g_f9_spec [of "[10, 20, 30, 40, 50, 60, 70, 80, 90]" "replicate 16 3" 1 2 0] by simp

text \<open>
  With a zero bit length the unsigned loop bound \<open>D - 2\<close> wraps around to
  \<open>2^32 - 1\<close> and the block loop reads past the end of the message.
\<close>

theorem s3g_f9_empty_overrun:
  assumes "length data < 2^31"
  shows "s3g_f9 key count fresh dir data 0 = None"
proof -
  have "length data div 8 < 4294967295" using assms by simp
  then have "f9_blocks 4294967295 data 0 P 0x1b 0 = None" for P
    using f9_blocks_overrun [OF assms, of 0 4294967295 P "0x1b" 0] by simp
  moreover have "unat (- 1 :: u32) = 4294967295"
    by (simp add: unsigned_minus_1_eq_mask mask_eq_exp_minus_1)
  ultimately show ?thesis by (simp add: s3g_f9_def Let_def split_beta)
qed

theorem s3g_f9_empty_overrun_witness:
  "s3g_f9 (replicate 16 3) 1 2 0 [] 0 = None"
  using s3g_f9_empty_overrun [of "[]"] by simp

end
