(* ===== verification/Ssl_Lib.thy ===== *)
theory Ssl_Lib
  imports Prelude
begin

text \<open>
  What the sources use of the TLS library (mbedTLS or PolarSSL, through
  \<^verbatim>\<open>lib/include/srslte/common/liblte_ssl.h\<close>). The library is not part of the repository: it
  is the argument \<open>lib\<close> of the definitions that call it, and the predicate
  \<open>ctr_documented\<close> states the documented behaviour of its counter mode.
\<close>

datatype LIBLTE_ERROR =
    LIBLTE_SUCCESS
  | LIBLTE_ERROR_INVALID_INPUTS
  | LIBLTE_ERROR_ENCODE_FAIL
  | LIBLTE_ERROR_DECODE_FAIL
  | LIBLTE_ERROR_INVALID_CRC
  | LIBLTE_ERROR_N_ITEMS

text \<open>
  \<open>setkey_enc key bits\<close> is a return code, \<open>crypt_ecb key block\<close> one encrypted block,
  \<open>crypt_ctr key nonce input\<close> a return code and the output, \<open>md_hmac key input\<close> the
  HMAC-SHA-256 of the input.
\<close>

record ssl_lib =
  setkey_enc :: "bytes \<Rightarrow> nat \<Rightarrow> int"
  crypt_ecb :: "bytes \<Rightarrow> bytes \<Rightarrow> bytes"
  crypt_ctr :: "bytes \<Rightarrow> bytes \<Rightarrow> bytes \<Rightarrow> int \<times> bytes"
  md_hmac :: "bytes \<Rightarrow> bytes \<Rightarrow> bytes"

definition aes_setkey_enc :: "ssl_lib \<Rightarrow> bytes \<Rightarrow> nat \<Rightarrow> int" where
  "aes_setkey_enc lib key keysize = setkey_enc lib key keysize"

definition aes_crypt_ecb :: "ssl_lib \<Rightarrow> bytes \<Rightarrow> bytes \<Rightarrow> bytes" where
  "aes_crypt_ecb lib key input = crypt_ecb lib key input"

definition aes_crypt_ctr :: "ssl_lib \<Rightarrow> bytes \<Rightarrow> nat \<Rightarrow> bytes \<Rightarrow> bytes \<Rightarrow> int \<times> bytes" where
  "aes_crypt_ctr lib key len nonce_counter input = crypt_ctr lib key nonce_counter (take len input)"

definition sha256 :: "ssl_lib \<Rightarrow> bytes \<Rightarrow> nat \<Rightarrow> bytes \<Rightarrow> nat \<Rightarrow> bytes" where
  "sha256 lib key keylen input ilen = md_hmac lib (take keylen key) (take ilen input)"

text \<open>
  Counter mode, as documented: setting a 16-byte key succeeds, and the output is the input
  XORed with a stream that depends on the key and the nonce, not on the input; the stream
  is the output for an input of zeros.
\<close>

definition ctr_stream :: "ssl_lib \<Rightarrow> bytes \<Rightarrow> bytes \<Rightarrow> nat \<Rightarrow> bytes" where
  "ctr_stream lib key nonce n = snd (crypt_ctr lib key nonce (replicate n 0))"

definition ctr_documented :: "ssl_lib \<Rightarrow> bool" where
  "ctr_documented lib \<longleftrightarrow>
    (\<forall>key. length key = 16 \<longrightarrow> setkey_enc lib key 128 = 0) \<and>
    (\<forall>key nonce input.
       length (ctr_stream lib key nonce (length input)) = length input \<and>
       crypt_ctr lib key nonce input = (0, xor_bytes input (ctr_stream lib key nonce (length input))))"

text \<open>A concrete library for the witnesses: any functions of the right shape do.\<close>

definition sample_ssl :: ssl_lib where
  "sample_ssl =
    \<lparr>setkey_enc = (\<lambda>key bits. if bits = 128 then 0 else - 32),
     crypt_ecb = (\<lambda>key block. xor_bytes key (rotate 1 block)),
     crypt_ctr = (\<lambda>key nonce input.
       (0, map (\<lambda>i. input ! i XOR (key ! (i mod 16) + nonce ! (i mod 16) + of_nat i)) [0..<length input])),
     md_hmac = (\<lambda>key input. take 32 (input @ key @ replicate 32 0))\<rparr>"

lemma sample_ssl_documented: "ctr_documented sample_ssl"
proof -
  have len: "length (ctr_stream sample_ssl key nonce n) = n" for key nonce n
    by (simp add: ctr_stream_def sample_ssl_def)
  have "crypt_ctr sample_ssl key nonce input
      = (0, xor_bytes input (ctr_stream sample_ssl key nonce (length input)))" for key nonce input
    by (auto intro!: nth_equalityI simp: ctr_stream_def sample_ssl_def)
  moreover have "setkey_enc sample_ssl key 128 = 0" for key
    by (simp add: sample_ssl_def)
  ultimately show ?thesis by (simp add: ctr_documented_def len)
qed

end
