(* ===== verification/Lte_Eea.thy ===== *)
theory Lte_Eea
  imports Zuc Snow3g Ssl_Lib
begin

text \<open>
  The ciphering algorithms EEA1, EEA2 and EEA3 of \<^verbatim>\<open>lib/src/common/liblte_security.cc\<close> and their
  wrappers of \<^verbatim>\<open>lib/src/common/security.cc\<close>. The lengths of the message and of the output
  are arguments independent of the buffers, so each access is checked: \<open>None\<close> is an access
  outside a buffer. The locale \<open>stream_cipher\<close> states what a ciphering entity relies on and
  is interpreted for the three algorithms.
\<close>

section \<open>The code\<close>

definition zero_tailing_bits :: "bytes \<Rightarrow> u32 \<Rightarrow> bytes option" where
  "zero_tailing_bits data length_bits =
    (let bits = (8 - (length_bits AND 0x07)) AND 0x07;
         idx = int (unat ((length_bits + 7) div 8 - 1))
     in Option.bind (rd data idx) (\<lambda>d. wr data idx (d AND push_bit (unat bits) 0xFF)))"

definition xor_store :: "bytes \<Rightarrow> int \<Rightarrow> u32 \<Rightarrow> bytes \<Rightarrow> bytes option" where
  "xor_store msg i k out = Option.bind (rd msg i) (\<lambda>m. wr out i (m XOR ucast (k AND 0xFF)))"

text \<open>The output loops, the same in EEA1 and EEA3, over the key stream words \<open>ks\<close>.\<close>

definition xor_word :: "u32 list \<Rightarrow> bytes \<Rightarrow> int \<Rightarrow> bytes \<Rightarrow> bytes option" where
  "xor_word ks msg i out =
    Option.bind (rd ks i) (\<lambda>k.
    Option.bind (xor_store msg (4 * i + 0) (drop_bit 24 k) out) (\<lambda>out.
    Option.bind (xor_store msg (4 * i + 1) (drop_bit 16 k) out) (\<lambda>out.
    Option.bind (xor_store msg (4 * i + 2) (drop_bit 8 k) out) (\<lambda>out.
    xor_store msg (4 * i + 3) k out))))"

definition xor_byte :: "u32 list \<Rightarrow> bytes \<Rightarrow> int \<Rightarrow> bytes \<Rightarrow> bytes option" where
  "xor_byte ks msg i out =
    Option.bind (rd ks (i div 4)) (\<lambda>k. xor_store msg i (drop_bit (nat ((3 - i mod 4) * 8)) k) out)"

definition xor_loops :: "u32 list \<Rightarrow> bytes \<Rightarrow> u32 \<Rightarrow> bytes \<Rightarrow> bytes option" where
  "xor_loops ks msg msg_len out =
    (let msg_len_block_8 = (msg_len + 7) div 8;
         msg_len_block_32 = (msg_len + 31) div 32
     in Option.bind (ofold (xor_word ks msg) [0 .. sint msg_len_block_32 - 2] out) (\<lambda>out.
        Option.bind (ofold (xor_byte ks msg)
          [sint ((msg_len_block_32 - 1) * 4) .. sint msg_len_block_8 - 1] out) (\<lambda>out.
        zero_tailing_bits out msg_len)))"

definition eea1_key :: "bytes \<Rightarrow> u32 list" where
  "eea1_key key =
    map (\<lambda>i. pack32 (key ! (4 * (3 - i) + 0)) (key ! (4 * (3 - i) + 1)) (key ! (4 * (3 - i) + 2))
      (key ! (4 * (3 - i) + 3))) [0..<4]"

definition eea1_iv :: "u32 \<Rightarrow> u8 \<Rightarrow> u8 \<Rightarrow> u32 list" where
  "eea1_iv count bearer direction =
    (let iv3 = count;
         iv2 = push_bit 27 (ucast (bearer AND 0x1F)) OR push_bit 26 (ucast (direction AND 0x01))
     in [iv2, iv3, iv2, iv3])"

definition liblte_security_encryption_eea1 ::
  "bytes ptr \<Rightarrow> u32 \<Rightarrow> u8 \<Rightarrow> u8 \<Rightarrow> bytes ptr \<Rightarrow> u32 \<Rightarrow> bytes ptr \<Rightarrow> (LIBLTE_ERROR \<times> bytes ptr) option"
where
  "liblte_security_encryption_eea1 key count bearer direction msg msg_len out =
    (case (key, msg, out) of
       (Some key, Some msg, Some out) \<Rightarrow>
         (let state = s3g_initialize (eea1_key key) (eea1_iv count bearer direction);
              ks = fst (s3g_generate_keystream state (unat ((msg_len + 31) div 32)))
          in map_option (\<lambda>out. (LIBLTE_SUCCESS, Some out)) (xor_loops ks msg msg_len out))
     | _ \<Rightarrow> Some (LIBLTE_ERROR_INVALID_INPUTS, out))"

definition liblte_security_decryption_eea1 ::
  "bytes ptr \<Rightarrow> u32 \<Rightarrow> u8 \<Rightarrow> u8 \<Rightarrow> bytes ptr \<Rightarrow> u32 \<Rightarrow> bytes ptr \<Rightarrow> (LIBLTE_ERROR \<times> bytes ptr) option"
where
  "liblte_security_decryption_eea1 key count bearer direction ct ct_len out =
    liblte_security_encryption_eea1 key count bearer direction ct ct_len out"

definition eea2_nonce :: "u32 \<Rightarrow> u8 \<Rightarrow> u8 \<Rightarrow> bytes" where
  "eea2_nonce count bearer direction =
    [ucast (drop_bit 24 count AND 0xFF), ucast (drop_bit 16 count AND 0xFF),
     ucast (drop_bit 8 count AND 0xFF), ucast (count AND 0xFF),
     push_bit 3 (bearer AND 0x1F) OR push_bit 2 (direction AND 0x01)] @ replicate 11 0"

definition liblte_security_encryption_eea2 ::
  "ssl_lib \<Rightarrow> bytes ptr \<Rightarrow> u32 \<Rightarrow> u8 \<Rightarrow> u8 \<Rightarrow> bytes ptr \<Rightarrow> u32 \<Rightarrow> bytes ptr \<Rightarrow>
   (LIBLTE_ERROR \<times> bytes ptr) option"
where
  "liblte_security_encryption_eea2 lib key count bearer direction msg msg_len out =
    (case (key, msg, out) of
       (Some key, Some msg, Some out) \<Rightarrow>
         (if aes_setkey_enc lib key 128 = 0
          then (let n = unat ((msg_len + 7) div 8)
                in if n \<le> length msg \<and> n \<le> length out
                   then (let (ret, blk) = aes_crypt_ctr lib key n (eea2_nonce count bearer direction) msg;
                             out = put out blk
                         in if ret = 0
                            then map_option (\<lambda>out. (LIBLTE_SUCCESS, Some out))
                                   (zero_tailing_bits out msg_len)
                            else Some (LIBLTE_ERROR_INVALID_INPUTS, Some out))
                   else None)
          else Some (LIBLTE_ERROR_INVALID_INPUTS, Some out))
     | _ \<Rightarrow> Some (LIBLTE_ERROR_INVALID_INPUTS, out))"

definition liblte_security_decryption_eea2 ::
  "ssl_lib \<Rightarrow> bytes ptr \<Rightarrow> u32 \<Rightarrow> u8 \<Rightarrow> u8 \<Rightarrow> bytes ptr \<Rightarrow> u32 \<Rightarrow> bytes ptr \<Rightarrow>
   (LIBLTE_ERROR \<times> bytes ptr) option"
where
  "liblte_security_decryption_eea2 lib key count bearer direction ct ct_len out =
    liblte_security_encryption_eea2 lib key count bearer direction ct ct_len out"

definition eea3_iv :: "u32 \<Rightarrow> u8 \<Rightarrow> u8 \<Rightarrow> bytes" where
  "eea3_iv count bearer direction =
    (let iv = [ucast (drop_bit 24 count AND 0xFF), ucast (drop_bit 16 count AND 0xFF),
               ucast (drop_bit 8 count AND 0xFF), ucast (count AND 0xFF),
               push_bit 3 (bearer AND 0x1F) OR push_bit 2 (direction AND 0x01), 0, 0, 0]
     in iv @ iv)"

definition liblte_security_encryption_eea3 ::
  "bytes ptr \<Rightarrow> u32 \<Rightarrow> u8 \<Rightarrow> u8 \<Rightarrow> bytes ptr \<Rightarrow> u32 \<Rightarrow> bytes ptr \<Rightarrow> (LIBLTE_ERROR \<times> bytes ptr) option"
where
  "liblte_security_encryption_eea3 key count bearer direction msg msg_len out =
    (case (key, msg, out) of
       (Some key, Some msg, Some out) \<Rightarrow>
         (let state = zuc_initialize zuc_zero key (eea3_iv count bearer direction);
              ks = fst (zuc_generate_keystream state (unat ((msg_len + 31) div 32)))
          in map_option (\<lambda>out. (LIBLTE_SUCCESS, Some out)) (xor_loops ks msg msg_len out))
     | _ \<Rightarrow> Some (LIBLTE_ERROR_INVALID_INPUTS, out))"

definition liblte_security_decryption_eea3 ::
  "bytes ptr \<Rightarrow> u32 \<Rightarrow> u8 \<Rightarrow> u8 \<Rightarrow> bytes ptr \<Rightarrow> u32 \<Rightarrow> bytes ptr \<Rightarrow> (LIBLTE_ERROR \<times> bytes ptr) option"
where
  "liblte_security_decryption_eea3 key count bearer direction ct ct_len out =
    liblte_security_encryption_eea3 key count bearer direction ct ct_len out"

text \<open>The wrappers take the length in octets.\<close>

definition security_128_eea1 ::
  "bytes ptr \<Rightarrow> u32 \<Rightarrow> u8 \<Rightarrow> u8 \<Rightarrow> bytes ptr \<Rightarrow> u32 \<Rightarrow> bytes ptr \<Rightarrow> (LIBLTE_ERROR \<times> bytes ptr) option"
where
  "security_128_eea1 key count bearer direction msg msg_len msg_out =
    liblte_security_encryption_eea1 key count bearer direction msg (msg_len * 8) msg_out"

definition security_128_eea2 ::
  "ssl_lib \<Rightarrow> bytes ptr \<Rightarrow> u32 \<Rightarrow> u8 \<Rightarrow> u8 \<Rightarrow> bytes ptr \<Rightarrow> u32 \<Rightarrow> bytes ptr \<Rightarrow>
   (LIBLTE_ERROR \<times> bytes ptr) option"
where
  "security_128_eea2 lib key count bearer direction msg msg_len msg_out =
    liblte_security_encryption_eea2 lib key count bearer direction msg (msg_len * 8) msg_out"

definition security_128_eea3 ::
  "bytes ptr \<Rightarrow> u32 \<Rightarrow> u8 \<Rightarrow> u8 \<Rightarrow> bytes ptr \<Rightarrow> u32 \<Rightarrow> bytes ptr \<Rightarrow> (LIBLTE_ERROR \<times> bytes ptr) option"
where
  "security_128_eea3 key count bearer direction msg msg_len msg_out =
    liblte_security_encryption_eea3 key count bearer direction msg (msg_len * 8) msg_out"

section \<open>The loops store message XOR key stream\<close>

definition ks_byte :: "u32 list \<Rightarrow> nat \<Rightarrow> u8" where
  "ks_byte ks i = ucast (drop_bit (24 - 8 * (i mod 4)) (ks ! (i div 4)))"

lemma xor_word_bytes:
  "xor_word ks msg i out = ofold (xor_byte ks msg) [4 * i .. 4 * i + 3] out"
proof -
  have "[4 * i .. 4 * i + 3] = [4 * i, 4 * i + 1, 4 * i + 2, 4 * i + 3]"
    by (simp add: upto_rec1)
  moreover have "(4 * i + j) div 4 = i" "(4 * i + j) mod 4 = j" if "0 \<le> j" "j < 4" for j
    using that by simp_all
  from this [of 0] this [of 1] this [of 2] this [of 3]
  have "4 * i div 4 = i" "(4 * i + 1) div 4 = i" "(4 * i + 2) div 4 = i" "(4 * i + 3) div 4 = i"
    "4 * i mod 4 = 0" "(4 * i + 1) mod 4 = 1" "(4 * i + 2) mod 4 = 2" "(4 * i + 3) mod 4 = 3"
    by simp_all
  ultimately show ?thesis
    by (cases "rd ks i") (simp_all add: xor_word_def xor_byte_def ofold_Cons ofold_Nil del: ofold.simps)
qed

lemma upto_split: "[0 .. 4 * int (Suc n) - 1] = [0 .. 4 * int n - 1] @ [4 * int n .. 4 * int n + 3]"
  using upto_split1 [of 0 "4 * int n" "4 * int n + 3"] by (simp add: algebra_simps)

lemma ofold_words:
  "ofold (xor_word ks msg) [0 .. int n - 1] out = ofold (xor_byte ks msg) [0 .. 4 * int n - 1] out"
proof (induction n)
  case (Suc n)
  have "[0 .. int (Suc n) - 1] = [0 .. int n - 1] @ [int n]"
    by (simp add: upto_rec2)
  with Suc show ?case
    by (simp only: upto_split ofold_append ofold_single xor_word_bytes)
qed simp

lemma ofold_bytes:
  assumes "n \<le> length msg" "n \<le> length out" "n \<le> 4 * length ks"
  shows "ofold (xor_byte ks msg) [0 .. int n - 1] out
    = Some (fill n (\<lambda>i. i) (\<lambda>i. msg ! i XOR ks_byte ks i) out)"
  using assms
proof (induction n)
  case (Suc n)
  have "[0 .. int (Suc n) - 1] = [0 .. int n - 1] @ [int n]"
    by (simp add: upto_rec2)
  moreover have "rd ks (int n div 4) = Some (ks ! (n div 4))"
    using Suc.prems by (simp add: rd_def nat_div_distrib zdiv_int [symmetric] del: rd_Some) linarith
  moreover have "nat ((3 - int n mod 4) * 8) = 24 - 8 * (n mod 4)"
  proof -
    have "int n mod 4 * 8 = int (8 * (n mod 4))" by (simp add: zmod_int)
    then show ?thesis by (simp add: nat_diff_distrib del: of_nat_mod)
  qed
  ultimately show ?case
    using Suc by (simp add: ofold_append xor_byte_def xor_store_def byte_mask ks_byte_def fill_Suc)
qed simp


section \<open>The result in bits\<close>

lemma bit_ks_byte: "j < 8 \<Longrightarrow> bit (ks_byte ks i) (7 - j) = word_bit_at ks (8 * i + j)"
proof -
  assume j: "j < 8"
  have "(8 * i + j) div 32 = i div 4"
  proof -
    have "(8 * i + j) div 8 = i" using j by simp
    moreover have "(8 * i + j) div 32 = (8 * i + j) div 8 div 4"
      by (simp flip: div_mult2_eq)
    ultimately show ?thesis by simp
  qed
  moreover have "(8 * i + j) mod 32 = 8 * (i mod 4) + j"
  proof -
    have "8 * i + j = 32 * (i div 4) + (8 * (i mod 4) + j)"
      using div_mult_mod_eq [of i 4] by linarith
    moreover have "8 * (i mod 4) + j < 32"
      using j mod_less_divisor [of 4 i] by linarith
    ultimately show ?thesis by (metis mod_less mod_mult_self4 add.commute mult.commute)
  qed
  moreover have "i mod 4 < 4" by simp
  then have "7 - j + (24 - 8 * (i mod 4)) = 31 - (8 * (i mod 4) + j)"
    using j by linarith
  moreover have "7 - j < LENGTH(8)" by simp
  ultimately show ?thesis
    using j by (simp add: ks_byte_def word_bit_at_def bit_simps add.commute)
qed

text \<open>
  \<open>ciphered k n msg out out'\<close>: the \<open>n\<close> bits of \<open>out'\<close> are those of \<open>msg\<close> XOR the stream \<open>k\<close>,
  the rest of the last octet is zero and the octets behind keep those of \<open>out\<close>.
\<close>

definition ciphered :: "(nat \<Rightarrow> bool) \<Rightarrow> nat \<Rightarrow> bytes \<Rightarrow> bytes \<Rightarrow> bytes \<Rightarrow> bool" where
  "ciphered k n msg out out' \<longleftrightarrow>
    length out' = length out \<and>
    (\<forall>i < 8 * length out. bit_at out' i \<longleftrightarrow>
       (if i < n then bit_at msg i \<noteq> k i else 8 * ((n + 7) div 8) \<le> i \<and> bit_at out i))"

lemma tail_count: "(8 - n mod 8) mod 8 = 8 * ((n + 7) div 8) - (n :: nat)"
proof -
  define q r where "q = n div 8" and "r = n mod 8"
  have n: "n = 8 * q + r" "r < 8" by (simp_all add: q_def r_def)
  show ?thesis
  proof (cases "r = 0")
    case False
    then have "(n + 7) div 8 = Suc q" using n by (intro div_nat_eqI) simp_all
    then show ?thesis using n False by simp
  qed (simp add: n)
qed

lemma tail_bits:
  assumes "0 < n" "unat len = n" "n + 7 < 2^32"
  shows "unat ((8 - (len AND 0x07)) AND 0x07 :: u32) = 8 * ((n + 7) div 8) - n"
    and "unat ((len + 7) div 8 - 1 :: u32) = (n + 7) div 8 - 1"
proof -
  have and7: "w AND 7 = take_bit 3 (w :: u32)" for w
  proof -
    have "(7 :: u32) = mask 3" by (simp add: mask_eq_exp_minus_1)
    then show ?thesis by (simp only: take_bit_eq_mask)
  qed
  have r: "unat (take_bit 3 len) = n mod 8"
    using assms by (simp only: unsigned_take_bit_eq) (simp add: take_bit_eq_mod)
  have "unat (8 - take_bit 3 len) = 8 - n mod 8"
    using r by (subst unat_sub) (simp_all add: word_le_nat_alt)
  then have "unat ((8 - (len AND 0x07)) AND 0x07 :: u32) = (8 - n mod 8) mod 8"
    by (simp only: and7 unsigned_take_bit_eq) (simp add: take_bit_eq_mod)
  moreover have "(8 - n mod 8) mod 8 = 8 * ((n + 7) div 8) - n"
    by (rule tail_count)
  ultimately show "unat ((8 - (len AND 0x07)) AND 0x07 :: u32) = 8 * ((n + 7) div 8) - n"
    by simp
  have "unat (len + 7) = n + 7"
    using assms by (simp add: unat_word_ariths)
  then have "unat ((len + 7) div 8) = (n + 7) div 8"
    by (simp add: unat_div)
  moreover from this have "1 \<le> (len + 7) div (8 :: u32)"
    using assms(1) by (simp add: word_le_nat_alt)
  ultimately show "unat ((len + 7) div 8 - 1 :: u32) = (n + 7) div 8 - 1"
    by (simp add: unat_sub)
qed

lemma zero_tailing_bits_spec:
  assumes "0 < n" "unat len = n" "n + 7 < 2^32" "(n + 7) div 8 \<le> length data"
  shows "\<exists>data'. zero_tailing_bits data len = Some data' \<and> length data' = length data \<and>
    (\<forall>i < 8 * length data. bit_at data' i \<longleftrightarrow> bit_at data i \<and> (i < n \<or> 8 * ((n + 7) div 8) \<le> i))"
proof -
  define m where "m = (n + 7) div 8 - 1"
  define t where "t = 8 * ((n + 7) div 8) - n"
  have m: "m < length data" "8 * m < n" "n \<le> 8 * m + 8" "t = 8 * m + 8 - n" "8 * ((n + 7) div 8) = 8 * m + 8"
    using assms(1,4) unfolding m_def t_def by linarith+
  have "zero_tailing_bits data len = Some (data[m := data ! m AND push_bit t 0xFF])"
    using tail_bits [OF assms(1-3)] m(1) by (simp add: zero_tailing_bits_def m_def t_def)
  moreover have "bit_at (data[m := data ! m AND push_bit t 0xFF]) i
      \<longleftrightarrow> bit_at data i \<and> (i < n \<or> 8 * ((n + 7) div 8) \<le> i)" if "i < 8 * length data" for i
  proof (cases "i div 8 = m")
    case True
    define j where "j = i mod 8"
    have i: "i = 8 * m + j" and j: "j < 8" using True div_mult_mod_eq [of i 8] unfolding j_def by simp_all
    have "bit (0xFF :: u8) k" if "k < 8" for k
    proof -
      have "(0xFF :: u8) = - 1" by simp
      then show ?thesis using that by (simp only:) simp
    qed
    then have "bit (push_bit t 0xFF :: u8) (7 - j) \<longleftrightarrow> t \<le> 7 - j"
      by (auto simp: bit_push_bit_iff)
    also have "... \<longleftrightarrow> i < n"
      using m(2-4) j unfolding i by linarith
    finally show ?thesis
      using m(1,5) j unfolding i by (simp add: bit_at_def bit_and_iff)
  next
    case False
    have "i < n \<or> 8 * ((n + 7) div 8) \<le> i"
    proof (rule ccontr)
      assume "\<not> ?thesis"
      then have "8 * m \<le> i" "i < 8 * Suc m" using m(2,5) by simp_all
      then have "i div 8 = m" by (rule div_nat_eqI)
      with False show False ..
    qed
    then show ?thesis using False by (simp add: bit_at_def)
  qed
  ultimately show ?thesis by simp
qed


lemma ciphered_intro:
  assumes "length out' = length out" "0 < n" "unat len = n" "n + 7 < 2^32" "(n + 7) div 8 \<le> length out"
    and "\<And>i. i < length out \<Longrightarrow> out' ! i = (if i < (n + 7) div 8 then msg ! i XOR ks i else out ! i)"
    and "\<And>i j. i < (n + 7) div 8 \<Longrightarrow> j < 8 \<Longrightarrow> bit (ks i) (7 - j) = k (8 * i + j)"
  shows "\<exists>out''. zero_tailing_bits out' len = Some out'' \<and> ciphered k n msg out out''"
proof -
  obtain out'' where z: "zero_tailing_bits out' len = Some out''" "length out'' = length out'"
    "\<forall>i < 8 * length out'. bit_at out'' i \<longleftrightarrow> bit_at out' i \<and> (i < n \<or> 8 * ((n + 7) div 8) \<le> i)"
    using zero_tailing_bits_spec [of n len out'] assms(1-5) by auto
  have up: "n \<le> 8 * ((n + 7) div 8)" by simp
  have "bit_at out' i = (if i < 8 * ((n + 7) div 8) then bit_at msg i \<noteq> k i else bit_at out i)"
    if "i < 8 * length out" for i
  proof -
    obtain q j where i: "i = 8 * q + j" and j: "j < 8" by (rule bit_index)
    have "q < length out" using that i by simp
    moreover have "8 * q + j < 8 * ((n + 7) div 8) \<longleftrightarrow> q < (n + 7) div 8" using j by linarith
    ultimately show ?thesis
      using assms(6) [of q] assms(7) [of q j] j
      by (simp add: i bit_at_split bit_simps)
  qed
  then show ?thesis
    using z assms(1) up by (auto simp: ciphered_def)
qed

lemma xor_loops_spec:
  assumes n: "0 < n" "unat len = n" "n + 31 < 2^32"
    and l: "(n + 7) div 8 \<le> length msg" "(n + 7) div 8 \<le> length out" "length ks = (n + 31) div 32"
  shows "\<exists>out'. xor_loops ks msg len out = Some out' \<and> ciphered (word_bit_at ks) n msg out out'"
proof -
  define b8 b32 where "b8 = (n + 7) div 8" and "b32 = (n + 31) div 32"
  have "unat (len + 7) = n + 7" "unat (len + 31) = n + 31"
    using n by (simp_all add: unat_word_ariths)
  then have u: "unat ((len + 7) div 8) = b8" "unat ((len + 31) div 32) = b32"
    by (simp_all add: unat_div b8_def b32_def)
  have b: "0 < b32" "4 * (b32 - 1) < b8" "b8 \<le> 4 * b32"
    using n unfolding b8_def b32_def by linarith+
  have bb: "b32 < 2^27" "b8 < 2^29"
    using n unfolding b8_def b32_def by (simp_all add: less_mult_imp_div_less)
  have s: "sint ((len + 7) div 8) = int b8" "sint ((len + 31) div 32) = int b32"
    using u bb by (simp_all add: sint_small)
  have "unat (((len + 31) div 32 - 1) * 4) = 4 * (b32 - 1)"
    using u(2) b(1) bb(1) by (simp add: unat_word_ariths unat_sub word_le_nat_alt)
  then have s2: "sint (((len + 31) div 32 - 1) * 4) = int (4 * (b32 - 1))"
    using bb(1) by (simp add: sint_small)
  have "ofold (xor_word ks msg) [0 .. int b32 - 2] out
      = ofold (xor_byte ks msg) [0 .. int (4 * (b32 - 1)) - 1] out"
    using ofold_words [of ks msg "b32 - 1" out] b(1) by (simp add: of_nat_diff algebra_simps)
  moreover have "[0 .. int b8 - 1] = [0 .. int (4 * (b32 - 1)) - 1] @ [int (4 * (b32 - 1)) .. int b8 - 1]"
    using b(2) by (intro upto_split1) linarith+
  ultimately have "xor_loops ks msg len out
      = Option.bind (ofold (xor_byte ks msg) [0 .. int b8 - 1] out) (\<lambda>out. zero_tailing_bits out len)"
    by (simp only: xor_loops_def Let_def s s2 ofold_append) (simp add: Option.bind_assoc)
  also have "... = zero_tailing_bits (fill b8 (\<lambda>i. i) (\<lambda>i. msg ! i XOR ks_byte ks i) out) len"
    using l b(3) by (subst ofold_bytes) (simp_all add: b8_def b32_def)
  finally show ?thesis
    using n l
    by (simp, intro ciphered_intro [where ks = "ks_byte ks"])
      (auto simp: bit_ks_byte b8_def nth_fill [where f = "\<lambda>i. i"] nth_fill_other)
qed


section \<open>The three algorithms\<close>

definition eea1_stream :: "bytes \<Rightarrow> u32 \<Rightarrow> u8 \<Rightarrow> u8 \<Rightarrow> nat \<Rightarrow> u32 list" where
  "eea1_stream key count bearer direction n =
    fst (s3g_generate_keystream (s3g_initialize (eea1_key key) (eea1_iv count bearer direction)) n)"

definition eea3_stream :: "bytes \<Rightarrow> u32 \<Rightarrow> u8 \<Rightarrow> u8 \<Rightarrow> nat \<Rightarrow> u32 list" where
  "eea3_stream key count bearer direction n =
    fst (zuc_generate_keystream (zuc_initialize zuc_zero key (eea3_iv count bearer direction)) n)"

lemma length_zuc_keystream_loop: "length (fst (zuc_keystream_loop n st)) = n"
  by (induction n arbitrary: st) (simp_all add: Let_def split_beta)

lemma length_streams [simp]:
  "length (eea1_stream key count bearer direction n) = n"
  "length (eea3_stream key count bearer direction n) = n"
  by (simp_all add: eea1_stream_def eea3_stream_def zuc_generate_keystream_def split_beta length_zuc_keystream_loop)

lemma unat_blocks:
  assumes "unat len = n" "n + 31 < 2^32"
  shows "unat ((len + 31) div 32 :: u32) = (n + 31) div 32" "unat ((len + 7) div 8 :: u32) = (n + 7) div 8"
proof -
  have "unat (len + 7) = n + 7" "unat (len + 31) = n + 31"
    using assms by (simp_all add: unat_word_ariths)
  then show "unat ((len + 31) div 32 :: u32) = (n + 31) div 32" "unat ((len + 7) div 8 :: u32) = (n + 7) div 8"
    by (simp_all add: unat_div)
qed

lemma eea1_spec:
  assumes "0 < n" "unat len = n" "n + 31 < 2^32" "(n + 7) div 8 \<le> length msg" "(n + 7) div 8 \<le> length out"
  shows "\<exists>out'. liblte_security_encryption_eea1 (Some key) count bearer dir (Some msg) len (Some out)
      = Some (LIBLTE_SUCCESS, Some out') \<and>
    ciphered (word_bit_at (eea1_stream key count bearer dir ((n + 31) div 32))) n msg out out'"
  using xor_loops_spec [OF assms length_streams(1) [of key count bearer dir]] assms
  by (auto simp: liblte_security_encryption_eea1_def unat_blocks eea1_stream_def)

lemma eea3_spec:
  assumes "0 < n" "unat len = n" "n + 31 < 2^32" "(n + 7) div 8 \<le> length msg" "(n + 7) div 8 \<le> length out"
  shows "\<exists>out'. liblte_security_encryption_eea3 (Some key) count bearer dir (Some msg) len (Some out)
      = Some (LIBLTE_SUCCESS, Some out') \<and>
    ciphered (word_bit_at (eea3_stream key count bearer dir ((n + 31) div 32))) n msg out out'"
  using xor_loops_spec [OF assms length_streams(2) [of key count bearer dir]] assms
  by (auto simp: liblte_security_encryption_eea3_def unat_blocks eea3_stream_def)

lemma eea2_spec:
  assumes "0 < n" "unat len = n" "n + 31 < 2^32" "(n + 7) div 8 \<le> length msg" "(n + 7) div 8 \<le> length out"
    and lib: "ctr_documented lib" "length key = 16"
  shows "\<exists>out'. liblte_security_encryption_eea2 lib (Some key) count bearer dir (Some msg) len (Some out)
      = Some (LIBLTE_SUCCESS, Some out') \<and>
    ciphered (bit_at (ctr_stream lib key (eea2_nonce count bearer dir) ((n + 7) div 8))) n msg out out'"
proof -
  define nb where "nb = (n + 7) div 8"
  define ks where "ks = ctr_stream lib key (eea2_nonce count bearer dir) nb"
  have ks: "length ks = nb"
    and c: "crypt_ctr lib key (eea2_nonce count bearer dir) (take nb msg) = (0, xor_bytes (take nb msg) ks)"
  proof -
    have "length (take nb msg) = nb" using assms(4) by (simp add: nb_def)
    then show "length ks = nb"
      "crypt_ctr lib key (eea2_nonce count bearer dir) (take nb msg) = (0, xor_bytes (take nb msg) ks)"
      using lib(1) unfolding ctr_documented_def ks_def by metis+
  qed
  let ?out = "put out (xor_bytes (take nb msg) ks)"
  have "liblte_security_encryption_eea2 lib (Some key) count bearer dir (Some msg) len (Some out)
      = map_option (\<lambda>out. (LIBLTE_SUCCESS, Some out)) (zero_tailing_bits ?out len)"
    using assms lib c by (simp add: liblte_security_encryption_eea2_def aes_setkey_enc_def aes_crypt_ctr_def
        ctr_documented_def unat_blocks nb_def)
  moreover have "\<exists>out''. zero_tailing_bits ?out len = Some out'' \<and> ciphered (bit_at ks) n msg out out''"
    using assms ks
    by (intro ciphered_intro [where ks = "\<lambda>i. ks ! i"])
      (auto simp: nb_def put_def nth_append bit_at_split)
  ultimately show ?thesis by (auto simp: ks_def nb_def)
qed

section \<open>Ciphering of whole octets\<close>

definition keystream_bytes :: "u32 list \<Rightarrow> bytes" where
  "keystream_bytes ks = concat (map be32 ks)"

lemma ciphered_bytes:
  assumes "ciphered k (8 * m) msg out out'" "m \<le> length msg" "m \<le> length out" "m \<le> length ks"
    and "\<And>i. i < 8 * m \<Longrightarrow> k i = bit_at ks i"
  shows "out' = put out (xor_bytes (take m msg) (take m ks))"
proof (rule nth_equalityI)
  show "length out' = length (put out (xor_bytes (take m msg) (take m ks)))"
    using assms(1-4) by (simp add: ciphered_def)
  fix i assume i: "i < length out'"
  have b: "bit_at out' i' = (if i' < 8 * m then bit_at msg i' \<noteq> bit_at ks i' else bit_at out i')"
    if "i' < 8 * length out" for i'
  proof -
    have "(8 * m + 7) div 8 = m" by simp
    then show ?thesis using assms(1,5) that unfolding ciphered_def by auto
  qed
  show "out' ! i = put out (xor_bytes (take m msg) (take m ks)) ! i"
  proof (rule bit_word_eqI)
    fix j assume "j < LENGTH(8)"
    then have "7 - j < 8" "j = 7 - (7 - j)" by simp_all
    then obtain e where e: "e < 8" "j = 7 - e" by blast
    have "8 * i + e < 8 * length out" using i assms(1) e by (simp add: ciphered_def)
    moreover have "8 * i + e < 8 * m \<longleftrightarrow> i < m" using e by linarith
    ultimately show "bit (out' ! i) j = bit (put out (xor_bytes (take m msg) (take m ks)) ! i) j"
      using b [of "8 * i + e"] e assms(2-4) i
      by (simp add: bit_at_split put_def nth_append bit_simps min_def)
  qed
qed


lemma word_bit_at_bytes: "i < 32 * length ks \<Longrightarrow> word_bit_at ks i = bit_at (keystream_bytes ks) i"
proof -
  assume i: "i < 32 * length ks"
  have len: "length (keystream_bytes ks) = 4 * length ks" for ks
    by (induction ks) (simp_all add: keystream_bytes_def)
  have nth: "keystream_bytes ks ! m = ks_byte ks m" if "m < 4 * length ks" for m
    using that
  proof (induction ks arbitrary: m)
    case (Cons k ks)
    show ?case
    proof (cases "m < 4")
      case True
      then show ?thesis by (simp add: keystream_bytes_def nth_append be32_def ks_byte_def)
    next
      case False
      then obtain m' where "m = m' + 4" by (metis add.commute le_Suc_ex not_less)
      moreover have "(m' + 4) div 4 = Suc (m' div 4)" by (simp add: div_add_self2)
      ultimately show ?thesis
        using Cons by (simp add: keystream_bytes_def nth_append ks_byte_def)
    qed
  qed simp
  obtain q j where q: "i = 8 * q + j" "j < 8" by (rule bit_index)
  then have "q < 4 * length ks" using i by linarith
  then show ?thesis using q nth by (simp add: bit_at_split bit_ks_byte [symmetric])
qed

text \<open>The stream of an algorithm for a message of \<open>m\<close> octets.\<close>

definition eea1_bytes :: "bytes \<Rightarrow> u32 \<Rightarrow> u8 \<Rightarrow> u8 \<Rightarrow> nat \<Rightarrow> bytes" where
  "eea1_bytes key count bearer direction m =
    take m (keystream_bytes (eea1_stream key count bearer direction ((8 * m + 31) div 32)))"

definition eea2_bytes :: "ssl_lib \<Rightarrow> bytes \<Rightarrow> u32 \<Rightarrow> u8 \<Rightarrow> u8 \<Rightarrow> nat \<Rightarrow> bytes" where
  "eea2_bytes lib key count bearer direction m = ctr_stream lib key (eea2_nonce count bearer direction) m"

definition eea3_bytes :: "bytes \<Rightarrow> u32 \<Rightarrow> u8 \<Rightarrow> u8 \<Rightarrow> nat \<Rightarrow> bytes" where
  "eea3_bytes key count bearer direction m =
    take m (keystream_bytes (eea3_stream key count bearer direction ((8 * m + 31) div 32)))"

lemma length_keystream_bytes [simp]: "length (keystream_bytes ks) = 4 * length ks"
  by (induction ks) (simp_all add: keystream_bytes_def)

lemma words_cover: "(m :: nat) \<le> 4 * ((8 * m + 31) div 32)" "8 * m \<le> 32 * ((8 * m + 31) div 32)"
  by linarith+

lemma length_eea_bytes [simp]:
  "length (eea1_bytes key count bearer dir m) = m"
  "length (eea3_bytes key count bearer dir m) = m"
  using words_cover [of m] by (simp_all add: eea1_bytes_def eea3_bytes_def)

lemma length_eea2_bytes: "ctr_documented lib \<Longrightarrow> length (eea2_bytes lib key count bearer dir m) = m"
  by (auto simp: eea2_bytes_def ctr_documented_def) (metis length_replicate)

text \<open>
  The contract of a ciphering algorithm of whole octets, where it is available: \<open>crypt\<close> writes the input XOR a
  stream of the input's length.
\<close>

definition length_ok :: "u32 \<Rightarrow> bytes \<Rightarrow> bytes \<Rightarrow> bool" where
  "length_ok len msg out \<longleftrightarrow>
    0 < unat len \<and> unat len < 2^29 - 4 \<and> unat len \<le> length msg \<and> unat len \<le> length out"

locale stream_cipher =
  fixes available :: bool
    and crypt :: "bytes ptr \<Rightarrow> u32 \<Rightarrow> u8 \<Rightarrow> u8 \<Rightarrow> bytes ptr \<Rightarrow> u32 \<Rightarrow> bytes ptr \<Rightarrow> (LIBLTE_ERROR \<times> bytes ptr) option"
    and stream :: "bytes \<Rightarrow> u32 \<Rightarrow> u8 \<Rightarrow> u8 \<Rightarrow> nat \<Rightarrow> bytes"
  assumes length_stream: "available \<Longrightarrow> length (stream key count bearer dir m) = m"
    and crypt_stream: "available \<Longrightarrow> length key = 16 \<Longrightarrow> length_ok len msg out \<Longrightarrow>
      crypt (Some key) count bearer dir (Some msg) len (Some out)
        = Some (LIBLTE_SUCCESS, Some (put out
            (xor_bytes (take (unat len) msg) (stream key count bearer dir (unat len)))))"
begin

lemma decrypt_encrypt:
  assumes available "length key = 16" "length_ok len msg out" "length_ok len msg out'"
  shows "\<exists>ct. crypt (Some key) count bearer dir (Some msg) len (Some out) = Some (LIBLTE_SUCCESS, Some ct) \<and>
    crypt (Some key) count bearer dir (Some ct) len (Some out')
      = Some (LIBLTE_SUCCESS, Some (put out' (take (unat len) msg)))"
proof -
  let ?s = "stream key count bearer dir (unat len)"
  let ?c = "xor_bytes (take (unat len) msg) ?s"
  have l: "length ?c = unat len"
    using assms(1,3) by (simp add: length_stream length_ok_def)
  then have "take (unat len) (put out ?c) = ?c" "length_ok len (put out ?c) out'"
    using assms(3,4) by (simp_all add: length_ok_def)
  moreover have "xor_bytes ?c ?s = take (unat len) msg"
    using assms(1,3) by (intro xor_bytes_cancel) (simp add: length_stream length_ok_def)
  ultimately show ?thesis
    using assms crypt_stream by simp
qed

end


lemma length_ok_bits:
  assumes "length_ok len msg out"
  shows "0 < 8 * unat len" "unat (len * 8) = 8 * unat len" "8 * unat len + 31 < 2^32"
    "(8 * unat len + 7) div 8 = unat len"
  using assms by (auto simp: length_ok_def unat_word_ariths)

interpretation eea1: stream_cipher True security_128_eea1 eea1_bytes
proof
  fix key :: bytes and count bearer dir and len :: u32 and msg out :: bytes
  assume "length_ok len msg out"
  note ok = length_ok_bits [OF this] this
  let ?ks = "eea1_stream key count bearer dir ((8 * unat len + 31) div 32)"
  obtain out' where e: "security_128_eea1 (Some key) count bearer dir (Some msg) len (Some out)
      = Some (LIBLTE_SUCCESS, Some out')" and c: "ciphered (word_bit_at ?ks) (8 * unat len) msg out out'"
    using eea1_spec [of "8 * unat len" "len * 8" msg out key count bearer dir] ok
    by (auto simp: security_128_eea1_def length_ok_def)
  have "out' = put out (xor_bytes (take (unat len) msg) (take (unat len) (keystream_bytes ?ks)))"
    using ok(5) words_cover [of "unat len"]
    by (intro ciphered_bytes [OF c]) (auto simp: length_ok_def word_bit_at_bytes)
  with e show "security_128_eea1 (Some key) count bearer dir (Some msg) len (Some out)
      = Some (LIBLTE_SUCCESS, Some (put out (xor_bytes (take (unat len) msg)
          (eea1_bytes key count bearer dir (unat len)))))"
    by (simp add: eea1_bytes_def)
qed simp

interpretation eea3: stream_cipher True security_128_eea3 eea3_bytes
proof
  fix key :: bytes and count bearer dir and len :: u32 and msg out :: bytes
  assume "length_ok len msg out"
  note ok = length_ok_bits [OF this] this
  let ?ks = "eea3_stream key count bearer dir ((8 * unat len + 31) div 32)"
  obtain out' where e: "security_128_eea3 (Some key) count bearer dir (Some msg) len (Some out)
      = Some (LIBLTE_SUCCESS, Some out')" and c: "ciphered (word_bit_at ?ks) (8 * unat len) msg out out'"
    using eea3_spec [of "8 * unat len" "len * 8" msg out key count bearer dir] ok
    by (auto simp: security_128_eea3_def length_ok_def)
  have "out' = put out (xor_bytes (take (unat len) msg) (take (unat len) (keystream_bytes ?ks)))"
    using ok(5) words_cover [of "unat len"]
    by (intro ciphered_bytes [OF c]) (auto simp: length_ok_def word_bit_at_bytes)
  with e show "security_128_eea3 (Some key) count bearer dir (Some msg) len (Some out)
      = Some (LIBLTE_SUCCESS, Some (put out (xor_bytes (take (unat len) msg)
          (eea3_bytes key count bearer dir (unat len)))))"
    by (simp add: eea3_bytes_def)
qed simp

interpretation eea2: stream_cipher "ctr_documented lib" "security_128_eea2 lib" "eea2_bytes lib" for lib
proof
  fix key :: bytes and count bearer dir and len :: u32 and msg out :: bytes
  assume doc: "ctr_documented lib" and key: "length key = 16" and "length_ok len msg out"
  note ok = length_ok_bits [OF this(3)] this(3)
  let ?ks = "eea2_bytes lib key count bearer dir (unat len)"
  obtain out' where e: "security_128_eea2 lib (Some key) count bearer dir (Some msg) len (Some out)
      = Some (LIBLTE_SUCCESS, Some out')" and c: "ciphered (bit_at ?ks) (8 * unat len) msg out out'"
    using eea2_spec [of "8 * unat len" "len * 8" msg out lib key count bearer dir] ok doc key
    by (auto simp: security_128_eea2_def length_ok_def eea2_bytes_def)
  have "out' = put out (xor_bytes (take (unat len) msg) (take (unat len) ?ks))"
    using ok(5) length_eea2_bytes [OF doc]
    by (intro ciphered_bytes [OF c]) (auto simp: length_ok_def)
  with e show "security_128_eea2 lib (Some key) count bearer dir (Some msg) len (Some out)
      = Some (LIBLTE_SUCCESS, Some (put out (xor_bytes (take (unat len) msg) ?ks)))"
    by (simp add: length_eea2_bytes [OF doc])
qed (rule length_eea2_bytes)

section \<open>Properties\<close>

text \<open>
  Claim C35. Encryption of an \<open>n\<close>-bit message with EEA1, EEA2 and EEA3, any \<open>n\<close> up to the width
  of the length argument: the call succeeds without an access outside the buffers, output bit
  \<open>i < n\<close> is message bit \<open>i\<close> XOR bit \<open>i\<close> of the key stream (SNOW 3G words, AES counter mode, ZUC
  words), the padding bits of the last octet are zero and the octets behind are untouched.
\<close>

theorem eea_bit_exact:
  assumes "0 < n" "unat len = n" "n + 31 < 2^32" "(n + 7) div 8 \<le> length msg" "(n + 7) div 8 \<le> length out"
    and "ctr_documented lib" "length key = 16"
  shows "(\<exists>out'. liblte_security_encryption_eea1 (Some key) count bearer dir (Some msg) len (Some out)
        = Some (LIBLTE_SUCCESS, Some out') \<and>
      ciphered (word_bit_at (eea1_stream key count bearer dir ((n + 31) div 32))) n msg out out') \<and>
    (\<exists>out'. liblte_security_encryption_eea2 lib (Some key) count bearer dir (Some msg) len (Some out)
        = Some (LIBLTE_SUCCESS, Some out') \<and>
      ciphered (bit_at (ctr_stream lib key (eea2_nonce count bearer dir) ((n + 7) div 8))) n msg out out') \<and>
    (\<exists>out'. liblte_security_encryption_eea3 (Some key) count bearer dir (Some msg) len (Some out)
        = Some (LIBLTE_SUCCESS, Some out') \<and>
      ciphered (word_bit_at (eea3_stream key count bearer dir ((n + 31) div 32))) n msg out out')"
  using eea1_spec [OF assms(1-5)] eea2_spec [OF assms] eea3_spec [OF assms(1-5)] by simp

theorem eea_bit_exact_witness:
  "\<exists>out'. liblte_security_encryption_eea2 sample_ssl (Some (replicate 16 1)) 5 1 0 (Some [0xAB, 0xFF]) 12
      (Some [9, 9, 9]) = Some (LIBLTE_SUCCESS, Some out') \<and>
    ciphered (bit_at (ctr_stream sample_ssl (replicate 16 1) (eea2_nonce 5 1 0) 2)) 12 [0xAB, 0xFF] [9, 9, 9] out'"
  using eea_bit_exact [of 12 12 "[0xAB, 0xFF]" "[9, 9, 9]" sample_ssl "replicate 16 1" 5 1 0]
  by (simp add: sample_ssl_documented)

text \<open>
  Claim C18. Deciphering: with the same key, COUNT, bearer and direction, applying an algorithm to
  its own output gives back the message, for every message of 1 to 2^29 - 5 octets.
\<close>

theorem eea_decrypt_encrypt:
  assumes "length key = 16" "length_ok len msg out" "length_ok len msg out'" "ctr_documented lib"
    and "crypt \<in> {security_128_eea1, security_128_eea2 lib, security_128_eea3}"
  shows "\<exists>ct. crypt (Some key) count bearer dir (Some msg) len (Some out) = Some (LIBLTE_SUCCESS, Some ct) \<and>
    crypt (Some key) count bearer dir (Some ct) len (Some out')
      = Some (LIBLTE_SUCCESS, Some (put out' (take (unat len) msg)))"
  using assms(5) eea1.decrypt_encrypt [OF TrueI assms(1-3)] eea2.decrypt_encrypt [OF assms(4,1-3)]
    eea3.decrypt_encrypt [OF TrueI assms(1-3)] by auto

theorem eea_decrypt_encrypt_witness:
  "\<exists>ct. security_128_eea3 (Some (replicate 16 3)) 7 2 1 (Some [1, 2, 3]) 3 (Some [0, 0, 0])
      = Some (LIBLTE_SUCCESS, Some ct) \<and>
    security_128_eea3 (Some (replicate 16 3)) 7 2 1 (Some ct) 3 (Some [0, 0, 0])
      = Some (LIBLTE_SUCCESS, Some [1, 2, 3])"
  using eea_decrypt_encrypt [of "replicate 16 3" 3 "[1, 2, 3]" "[0, 0, 0]" "[0, 0, 0]" sample_ssl
      security_128_eea3 7 2 1]
  by (simp add: length_ok_def sample_ssl_documented put_def)

text \<open>
  A message of zero length is not handled: EEA1 and EEA3 compute the first index of the
  last block as (0 - 1) * 4 and access the buffers at -4, and \<open>zero_tailing_bits\<close>, which EEA2
  reaches as well, accesses the octet at index 2^32 - 1.
\<close>

theorem eea_empty_overrun:
  assumes "ctr_documented lib" "length key = 16" "length out < 2^32"
  shows "security_128_eea1 (Some key) count bearer dir (Some msg) 0 (Some out) = None \<and>
    security_128_eea2 lib (Some key) count bearer dir (Some msg) 0 (Some out) = None \<and>
    security_128_eea3 (Some key) count bearer dir (Some msg) 0 (Some out) = None"
proof -
  have "xor_loops ks msg 0 out = None" for ks
    by (simp add: xor_loops_def xor_byte_def upto_rec1)
  moreover have "zero_tailing_bits (put out []) 0 = None"
    using assms(3) by (simp add: zero_tailing_bits_def rd_def put_def unsigned_minus_1_eq_mask mask_eq_exp_minus_1)
  moreover have "crypt_ctr lib key (eea2_nonce count bearer dir) [] = (0, [])"
    using assms(1) by (auto simp: ctr_documented_def xor_bytes_def)
  ultimately show ?thesis
    using assms(1,2)
    by (simp add: security_128_eea1_def security_128_eea2_def security_128_eea3_def ctr_documented_def
        liblte_security_encryption_eea1_def liblte_security_encryption_eea2_def
        liblte_security_encryption_eea3_def aes_setkey_enc_def aes_crypt_ctr_def)
qed

theorem eea_empty_overrun_witness:
  "security_128_eea1 (Some (replicate 16 0)) 0 0 0 (Some [1]) 0 (Some [2]) = None"
  using eea_empty_overrun [of sample_ssl "replicate 16 0" "[2]" 0 0 0 "[1]"]
  by (simp add: sample_ssl_documented)

end
