(* ===== verification/Lte_Eia.thy ===== *)
theory Lte_Eia
  imports Zuc Snow3g Ssl_Lib "HOL-Library.Log_Nat"
begin

text \<open>
  The integrity algorithms EIA1, EIA2 (octet and bit messages) and EIA3 of
  \<^verbatim>\<open>lib/src/common/liblte_security.cc\<close> with their wrappers of \<^verbatim>\<open>lib/src/common/security.cc\<close>.
  EIA2 is proved to be AES-CMAC as in RFC 4493, EIA3 the code of TS 35.222 in its output (and
  to return an error code in every case). \<open>None\<close> is an access outside a buffer.
\<close>

section \<open>EIA1\<close>

definition liblte_security_128_eia1 ::
  "bytes ptr \<Rightarrow> u32 \<Rightarrow> u8 \<Rightarrow> u8 \<Rightarrow> bytes ptr \<Rightarrow> u32 \<Rightarrow> bytes ptr \<Rightarrow> (LIBLTE_ERROR \<times> bytes ptr) option"
where
  "liblte_security_128_eia1 key count bearer direction msg msg_len mac =
    (case (key, msg, mac) of
       (Some key, Some msg, Some mac) \<Rightarrow>
         (let msg_len_bits = msg_len * 8
          in map_option (\<lambda>m_ptr. (LIBLTE_SUCCESS, Some (put mac (map (\<lambda>i. m_ptr ! i) [0..<4]))))
               (s3g_f9 key count (push_bit 27 (ucast bearer)) (ucast direction) msg (ucast msg_len_bits)))
     | _ \<Rightarrow> Some (LIBLTE_ERROR_INVALID_INPUTS, mac))"

section \<open>EIA2\<close>

text \<open>
  Conversion of an unsigned integer to \<open>float\<close> (24 bits of precision, ties to even) and the
  rounded-up quotient \<open>ceilf((float) x / (float) 2^k)\<close>; the division by a power of two is exact.
\<close>

definition to_float :: "nat \<Rightarrow> nat" where
  "to_float x =
    (if x < 2^24 then x
     else (let e = floorlog 2 x - 24;
               q = x div 2^e; r = x mod 2^e
           in (if 2 * r > 2^e \<or> (2 * r = 2^e \<and> odd q) then q + 1 else q) * 2^e))"

definition ceilf_div :: "u32 \<Rightarrow> nat \<Rightarrow> u32" where
  "ceilf_div x k = of_nat ((to_float (unat x) + 2^k - 1) div 2^k)"

definition eia2_subkey :: "bytes \<Rightarrow> bytes" where
  "eia2_subkey L =
    (let K = map (\<lambda>i. push_bit 1 (L ! i) OR (drop_bit 7 (L ! (i + 1)) AND 0x01)) [0..<15] @ [push_bit 1 (L ! 15)]
     in if L ! 0 AND 0x80 \<noteq> 0 then K[15 := K ! 15 XOR 0x87] else K)"

definition eia2_header :: "u32 \<Rightarrow> u8 \<Rightarrow> u8 \<Rightarrow> bytes \<Rightarrow> bytes" where
  "eia2_header count bearer direction M =
    M[0 := ucast (drop_bit 24 count AND 0xFF), 1 := ucast (drop_bit 16 count AND 0xFF),
      2 := ucast (drop_bit 8 count AND 0xFF), 3 := ucast (count AND 0xFF),
      4 := push_bit 3 bearer OR push_bit 2 direction]"

text \<open>The block loop \<open>for (i = 0; i < n - 1; i++)\<close> and the last block; \<open>pad_bits\<close> is the bit length mod 128.\<close>

definition eia2_block :: "ssl_lib \<Rightarrow> bytes \<Rightarrow> bytes \<Rightarrow> nat \<Rightarrow> bytes \<Rightarrow> bytes option" where
  "eia2_block lib key M i T =
    map_option (\<lambda>tmp. aes_crypt_ecb lib key tmp)
      (ofold (\<lambda>j tmp. map_option (\<lambda>m. tmp[j := T ! j XOR m]) (rd M (int (i * 16 + j)))) [0..<16] (replicate 16 0))"

definition eia2_last :: "ssl_lib \<Rightarrow> bytes \<Rightarrow> bytes \<Rightarrow> nat \<Rightarrow> bytes \<Rightarrow> bytes \<Rightarrow> bytes option" where
  "eia2_last lib key M i K T =
    map_option (\<lambda>tmp. aes_crypt_ecb lib key tmp)
      (ofold (\<lambda>j tmp. map_option (\<lambda>m. tmp[j := T ! j XOR K ! j XOR m]) (rd M (int (i * 16 + j))))
         [0..<16] (replicate 16 0))"

definition eia2_generate :: "ssl_lib \<Rightarrow> bytes \<Rightarrow> bytes \<Rightarrow> u32 \<Rightarrow> u32 \<Rightarrow> bytes option" where
  "eia2_generate lib key M n pad_bits =
    (let L = aes_crypt_ecb lib key (replicate 16 0);
         K1 = eia2_subkey L;
         K2 = eia2_subkey K1;
         i = unat (n - 1)
     in Option.bind (ofold (eia2_block lib key M) [0..<i] (replicate 16 0)) (\<lambda>T.
        if pad_bits = 0 then eia2_last lib key M i K1 T
        else (let pad_bits = (128 - pad_bits) - 1;
                  k = int (unat (of_nat i * 16 + (15 - (pad_bits div 8))))
              in Option.bind (rd M k) (\<lambda>m.
                 Option.bind (wr M k (m OR push_bit (unat (pad_bits mod 8)) 0x1)) (\<lambda>M.
                 eia2_last lib key M i K2 T)))))"

definition liblte_security_128_eia2 ::
  "ssl_lib \<Rightarrow> bytes ptr \<Rightarrow> u32 \<Rightarrow> u8 \<Rightarrow> u8 \<Rightarrow> bytes ptr \<Rightarrow> u32 \<Rightarrow> bytes ptr \<Rightarrow>
   (LIBLTE_ERROR \<times> bytes ptr) option"
where
  "liblte_security_128_eia2 lib key count bearer direction msg msg_len mac =
    (case (key, msg, mac) of
       (Some key, Some msg, Some mac) \<Rightarrow>
         (let M = eia2_header count bearer direction (replicate (unat (msg_len + 8 + 16)) 0)
          in Option.bind (ofold (\<lambda>i M. Option.bind (rd msg (int i)) (wr M (int (8 + i)))) [0..<unat msg_len] M) (\<lambda>M.
             let n = ceilf_div (msg_len + 8) 4;
                 pad_bits = ((msg_len * 8) + 64) mod 128
             in map_option (\<lambda>T. (LIBLTE_SUCCESS, Some (put mac (map (\<lambda>i. T ! i) [0..<4]))))
                  (eia2_generate lib key M n pad_bits)))
     | _ \<Rightarrow> Some (LIBLTE_ERROR_INVALID_INPUTS, mac))"

text \<open>A message with one bit in each element of the array.\<close>

record LIBLTE_BIT_MSG =
  N_bits :: u32
  bit_msg :: bytes

definition pack_bits :: "bytes \<Rightarrow> nat \<Rightarrow> nat \<Rightarrow> u8 option" where
  "pack_bits m i n =
    ofold (\<lambda>j b. map_option (\<lambda>v. b OR push_bit (7 - j) v) (rd m (int (i * 8 + j)))) [0..<n] 0"

text \<open>The size of \<open>M\<close> is computed before the NULL checks: a NULL \<open>msg\<close> is dereferenced.\<close>

definition liblte_security_128_eia2_bits ::
  "ssl_lib \<Rightarrow> bytes ptr \<Rightarrow> u32 \<Rightarrow> u8 \<Rightarrow> u8 \<Rightarrow> LIBLTE_BIT_MSG ptr \<Rightarrow> bytes ptr \<Rightarrow>
   (LIBLTE_ERROR \<times> bytes ptr) option"
where
  "liblte_security_128_eia2_bits lib key count bearer direction msg mac =
    (case (key, msg, mac) of
       (_, None, _) \<Rightarrow> None
     | (Some key, Some msg, Some mac) \<Rightarrow>
         (let N = N_bits msg;
              M = eia2_header count bearer direction (replicate (unat (N * 8 + 8 + 16)) 0);
              store = (\<lambda>n i M. Option.bind (pack_bits (bit_msg msg) i n) (wr M (int (8 + i))))
          in Option.bind (ofold (store 8) [0..<unat (N div 8)] M) (\<lambda>M.
             Option.bind (if N mod 8 \<noteq> 0 then store (unat (N mod 8)) (unat (N div 8)) M else Some M) (\<lambda>M.
             let n = ceilf_div (N + 64) 7;
                 pad_bits = (N + 64) mod 128
             in map_option (\<lambda>T. (LIBLTE_SUCCESS, Some (put mac (map (\<lambda>i. T ! i) [0..<4]))))
                  (eia2_generate lib key M n pad_bits))))
     | _ \<Rightarrow> Some (LIBLTE_ERROR_INVALID_INPUTS, mac))"

section \<open>EIA3\<close>

definition GET_WORD :: "u32 list \<Rightarrow> u32 \<Rightarrow> u32 option" where
  "GET_WORD DATA i =
    (let ti = i mod 32
     in if ti = 0 then rd DATA (int (unat (i div 32)))
        else Option.bind (rd DATA (int (unat (i div 32)))) (\<lambda>a.
             map_option (\<lambda>b. push_bit (unat ti) a OR drop_bit (unat (32 - ti)) b)
               (rd DATA (int (unat (i div 32 + 1))))))"

definition GET_BIT :: "bytes \<Rightarrow> u32 \<Rightarrow> bool option" where
  "GET_BIT DATA i =
    map_option (\<lambda>d. d AND push_bit (unat (7 - (i mod 8))) 1 \<noteq> 0) (rd DATA (int (unat (i div 8))))"

definition eia3_iv :: "u32 \<Rightarrow> u8 \<Rightarrow> u8 \<Rightarrow> bytes" where
  "eia3_iv count bearer direction =
    [ucast (drop_bit 24 count AND 0xFF), ucast (drop_bit 16 count AND 0xFF),
     ucast (drop_bit 8 count AND 0xFF), ucast (count AND 0xFF),
     push_bit 3 bearer AND 0xF8, 0, 0, 0,
     ucast (drop_bit 24 count AND 0xFF) XOR push_bit 7 (direction AND 1),
     ucast (drop_bit 16 count AND 0xFF), ucast (drop_bit 8 count AND 0xFF), ucast (count AND 0xFF),
     push_bit 3 bearer AND 0xF8, 0, 0 XOR push_bit 7 (direction AND 1), 0]"

text \<open>\<open>N\<close> and \<open>L\<close> are signed in the source; a value that overflows them is \<open>None\<close>.\<close>

definition liblte_security_128_eia3 ::
  "bytes ptr \<Rightarrow> u32 \<Rightarrow> u8 \<Rightarrow> u8 \<Rightarrow> bytes ptr \<Rightarrow> u32 \<Rightarrow> bytes ptr \<Rightarrow> (LIBLTE_ERROR \<times> bytes ptr) option"
where
  "liblte_security_128_eia3 key count bearer direction msg msg_len mac =
    (case (key, msg, mac) of
       (Some key, Some msg, Some mac) \<Rightarrow>
         (let N = sint (msg_len + 64)
          in if N < 0 \<or> 2^31 \<le> N + 31 then None
             else let L = nat ((N + 31) div 32);
                      ks = fst (zuc_generate_keystream
                                  (zuc_initialize zuc_zero key (eia3_iv count bearer direction)) L)
                  in Option.bind (ofold (\<lambda>i T. Option.bind (GET_BIT msg (of_nat i)) (\<lambda>b.
                         if b then map_option (\<lambda>w. T XOR w) (GET_WORD ks (of_nat i)) else Some T))
                       [0..<unat msg_len] 0) (\<lambda>T.
                     Option.bind (GET_WORD ks msg_len) (\<lambda>w.
                     map_option (\<lambda>k.
                       let mac_tmp = (T XOR w) XOR k
                       in (LIBLTE_ERROR_INVALID_INPUTS,
                           Some (put mac [ucast (drop_bit 24 mac_tmp AND 0xFF), ucast (drop_bit 16 mac_tmp AND 0xFF),
                             ucast (drop_bit 8 mac_tmp AND 0xFF), ucast (mac_tmp AND 0xFF)])))
                       (rd ks (int L - 1)))))
     | _ \<Rightarrow> Some (LIBLTE_ERROR_INVALID_INPUTS, mac))"

section \<open>The wrappers\<close>

text \<open>The \<open>bearer\<close> argument is 32 bits wide here and 8 bits in the functions called.\<close>

definition security_128_eia1 ::
  "bytes ptr \<Rightarrow> u32 \<Rightarrow> u32 \<Rightarrow> u8 \<Rightarrow> bytes ptr \<Rightarrow> u32 \<Rightarrow> bytes ptr \<Rightarrow> (LIBLTE_ERROR \<times> bytes ptr) option"
where
  "security_128_eia1 key count bearer direction msg msg_len mac =
    liblte_security_128_eia1 key count (ucast bearer) direction msg msg_len mac"

definition security_128_eia2 ::
  "ssl_lib \<Rightarrow> bytes ptr \<Rightarrow> u32 \<Rightarrow> u32 \<Rightarrow> u8 \<Rightarrow> bytes ptr \<Rightarrow> u32 \<Rightarrow> bytes ptr \<Rightarrow>
   (LIBLTE_ERROR \<times> bytes ptr) option"
where
  "security_128_eia2 lib key count bearer direction msg msg_len mac =
    liblte_security_128_eia2 lib key count (ucast bearer) direction msg msg_len mac"

definition security_128_eia3 ::
  "bytes ptr \<Rightarrow> u32 \<Rightarrow> u32 \<Rightarrow> u8 \<Rightarrow> bytes ptr \<Rightarrow> u32 \<Rightarrow> bytes ptr \<Rightarrow> (LIBLTE_ERROR \<times> bytes ptr) option"
where
  "security_128_eia3 key count bearer direction msg msg_len mac =
    liblte_security_128_eia3 key count (ucast bearer) direction msg (msg_len * 8) mac"

section \<open>AES-CMAC (RFC 4493)\<close>

definition to128 :: "bytes \<Rightarrow> 128 word" where
  "to128 bs = fold (\<lambda>b w. push_bit 8 w OR ucast b) bs 0"

definition from128 :: "128 word \<Rightarrow> bytes" where
  "from128 w = map (\<lambda>i. ucast (drop_bit (120 - 8 * i) w)) [0..<16]"

definition cmac_double :: "bytes \<Rightarrow> bytes" where
  "cmac_double bs =
    (let w = to128 bs in from128 (push_bit 1 w XOR (if bit w 127 then 0x87 else 0)))"

definition cmac_block :: "bytes \<Rightarrow> nat \<Rightarrow> bytes" where
  "cmac_block m i = take 16 (drop (16 * i) m)"

definition cmac :: "(bytes \<Rightarrow> bytes) \<Rightarrow> bytes \<Rightarrow> bytes" where
  "cmac E m =
    (let K1 = cmac_double (E (replicate 16 0));
         K2 = cmac_double K1;
         n = (length m + 15) div 16;
         T = foldl (\<lambda>T i. E (xor_bytes T (cmac_block m i))) (replicate 16 0) [0..<n - 1];
         B = cmac_block m (n - 1)
     in if length B = 16 then E (xor_bytes T (xor_bytes K1 B))
        else E (xor_bytes T (xor_bytes K2 (B @ 0x80 # replicate (15 - length B) 0))))"

lemma bit_to128:
  "8 * length bs \<le> 128 \<Longrightarrow>
   bit (to128 bs) k \<longleftrightarrow> k < 8 * length bs \<and> bit (bs ! (length bs - 1 - k div 8)) (k mod 8)"
proof (induction bs arbitrary: k rule: rev_induct)
  case Nil
  then show ?case by (simp add: to128_def)
next
  case (snoc b bs)
  have eq: "to128 (bs @ [b]) = push_bit 8 (to128 bs) OR ucast b"
    by (simp add: to128_def)
  show ?case
  proof (cases "k < 8")
    case True
    then show ?thesis by (auto simp: eq bit_simps nth_append)
  next
    case False
    then obtain k' where k: "k = k' + 8" by (metis add.commute le_Suc_ex not_less)
    have h: "\<not> bit b (k' + 8)" using bit_imp_le_length [of b "k' + 8"] by auto
    have d: "(k' + 8) div 8 = Suc (k' div 8)" "(k' + 8) mod 8 = k' mod 8"
      by (simp_all add: div_add_self2)
    have ih: "bit (to128 bs) k' \<longleftrightarrow> k' < 8 * length bs \<and> bit (bs ! (length bs - 1 - k' div 8)) (k' mod 8)"
      by (rule snoc.IH) (use snoc.prems in simp)
    have lt: "k' < 8 * length bs \<Longrightarrow> k < 128" using snoc.prems k by simp
    have "bit (to128 (bs @ [b])) k \<longleftrightarrow> k < 128 \<and> bit (to128 bs) k'"
      using h by (auto simp: eq k bit_or_iff bit_push_bit_iff bit_ucast_iff)
    also have "... \<longleftrightarrow> k' < 8 * length bs \<and> bit (bs ! (length bs - 1 - k' div 8)) (k' mod 8)"
      unfolding ih using lt by blast
    also have "... \<longleftrightarrow> k < 8 * length (bs @ [b])
        \<and> bit ((bs @ [b]) ! (length (bs @ [b]) - 1 - k div 8)) (k mod 8)"
    proof (cases "k' < 8 * length bs")
      case True
      then have "length bs - Suc (k' div 8) < length bs" by (cases bs) auto
      then show ?thesis using True by (simp add: k d nth_append)
    next
      case False
      then show ?thesis by (simp add: k)
    qed
    finally show ?thesis .
  qed
qed

lemma eia2_subkey_double:
  assumes "length L = 16"
  shows "eia2_subkey L = cmac_double L"
proof (rule nth_equalityI)
  show len: "length (eia2_subkey L) = length (cmac_double L)"
    by (simp add: eia2_subkey_def cmac_double_def from128_def Let_def)
  fix i assume "i < length (eia2_subkey L)"
  then have i: "i < 16" by (simp add: len cmac_double_def from128_def Let_def)
  define C8 :: u8 where "C8 = 0x87"
  define C128 :: "128 word" where "C128 = 0x87"
  have m: "(0x80 :: u8) = push_bit 7 1" "(0x01 :: u8) = mask 1" "C8 = push_bit 7 1 OR mask 3"
    "C128 = push_bit 7 1 OR mask 3"
    by (simp_all add: mask_eq_exp_minus_1 push_bit_eq_mult C8_def C128_def)
  have c8: "bit C8 k \<longleftrightarrow> k = 7 \<or> k < 3" and c128: "bit C128 k \<longleftrightarrow> k = 7 \<or> k < 3" for k
    unfolding m by (auto simp: bit_or_iff bit_push_bit_iff bit_mask_iff bit_1_iff simp del: push_bit_of_1)
  let ?top = "bit (L ! 0) 7"
  have top: "L ! 0 AND push_bit 7 1 \<noteq> 0 \<longleftrightarrow> ?top"
    by (rule and_exp_bit)
  have w: "bit (to128 L) k \<longleftrightarrow> k < 128 \<and> bit (L ! (15 - k div 8)) (k mod 8)" for k
    using bit_to128 [of L k] assms by simp
  have sub: "eia2_subkey L ! i = (push_bit 1 (L ! i) OR (if i < 15 then drop_bit 7 (L ! (i + 1)) AND 1 else 0))
      XOR (if ?top \<and> i = 15 then C8 else 0)"
    using i top unfolding eia2_subkey_def m(1) Let_def C8_def
    by (cases "i = 15") (auto simp: nth_append)
  have dbl: "cmac_double L ! i = ucast (drop_bit (120 - 8 * i)
      (push_bit 1 (to128 L) XOR (if ?top then C128 else 0)))"
    using i unfolding cmac_double_def Let_def from128_def C128_def by (simp add: w)
  show "eia2_subkey L ! i = cmac_double L ! i"
  proof (rule bit_word_eqI)
    fix b assume b: "b < LENGTH(8)"
    show "bit (eia2_subkey L ! i) b = bit (cmac_double L ! i) b"
    proof (cases "b = 0")
      case True
      have "bit (to128 L) (119 - 8 * i) \<longleftrightarrow> bit (L ! (i + 1)) 7" if "i < 15"
      proof -
        have "119 - 8 * i = 8 * (14 - i) + 7" using that by simp
        moreover have "8 * (14 - i) < 121" by simp
        ultimately show ?thesis using that by (simp only: w) simp
      qed
      moreover have "120 - 8 * i \<noteq> 7" "120 - 8 * i < 3 \<longleftrightarrow> i = 15" using i by presburger+
      ultimately show ?thesis
        using i True unfolding sub dbl
        by (auto simp: bit_simps c8 c128 simp del: push_bit_Suc drop_bit_Suc)
    next
      case False
      then obtain c where c: "b = Suc c" "c < 7" using b by (cases b) auto
      have "bit (to128 L) (120 - 8 * i + c) \<longleftrightarrow> bit (L ! i) c"
      proof -
        have "120 - 8 * i + c = 8 * (15 - i) + c" using i by simp
        moreover have "8 * (15 - i) + c < 128" using c by simp
        ultimately show ?thesis using i c by (simp only: w) simp
      qed
      then show ?thesis
        using i c unfolding sub dbl by (auto simp: bit_simps c8 c128 simp del: push_bit_Suc drop_bit_Suc)
    qed
  qed
qed

lemma ofold_tmp:
  assumes "b + k \<le> length M" "k \<le> length tmp"
  shows "ofold (\<lambda>j tmp. map_option (\<lambda>m. tmp[j := f j m]) (rd M (int (b + j)))) [0..<k] tmp
    = Some (fill k (\<lambda>j. j) (\<lambda>j. f j (M ! (b + j))) tmp)"
  using assms
proof (induction k)
  case (Suc k)
  then have "rd M (int b + int k) = Some (M ! (b + k))"
    using rd_Some [of "b + k" M] by simp
  with Suc show ?case by (simp add: ofold_append fill_Suc)
qed simp

lemma eia2_block_spec:
  assumes "16 * i + 16 \<le> length M" "length T = 16"
  shows "eia2_block lib key M i T = Some (crypt_ecb lib key (xor_bytes T (cmac_block M i)))"
proof -
  have "map (\<lambda>j. T ! j XOR M ! (i * 16 + j)) [0..<16] = xor_bytes T (cmac_block M i)"
    using assms by (intro nth_equalityI) (simp_all add: cmac_block_def mult.commute)
  then show ?thesis
    using assms ofold_tmp [of "i * 16" 16 M "replicate 16 0" "\<lambda>j m. T ! j XOR m"]
    by (simp add: eia2_block_def fill_id aes_crypt_ecb_def mult.commute)
qed

lemma eia2_last_spec:
  assumes "16 * i + 16 \<le> length M" "length T = 16" "length K = 16"
  shows "eia2_last lib key M i K T = Some (crypt_ecb lib key (xor_bytes T (xor_bytes K (cmac_block M i))))"
proof -
  have "map (\<lambda>j. T ! j XOR K ! j XOR M ! (i * 16 + j)) [0..<16] = xor_bytes T (xor_bytes K (cmac_block M i))"
    using assms by (intro nth_equalityI) (simp_all add: cmac_block_def mult.commute xor.assoc)
  then show ?thesis
    using assms ofold_tmp [of "i * 16" 16 M "replicate 16 0" "\<lambda>j m. T ! j XOR K ! j XOR m"]
    by (simp add: eia2_last_def fill_id aes_crypt_ecb_def mult.commute)
qed


lemma length_cmac_double: "length (cmac_double bs) = 16"
  by (simp add: cmac_double_def from128_def Let_def)

lemma to_float_exact: "x < 2^24 \<Longrightarrow> to_float x = x"
  by (simp add: to_float_def)

lemma eia2_blocks_spec:
  assumes "16 * n \<le> length M" "length T = 16" "\<And>k b. length b = 16 \<Longrightarrow> length (crypt_ecb lib k b) = 16"
  shows "ofold (eia2_block lib key M) [0..<n] T
      = Some (foldl (\<lambda>T i. crypt_ecb lib key (xor_bytes T (cmac_block M i))) T [0..<n]) \<and>
    length (foldl (\<lambda>T i. crypt_ecb lib key (xor_bytes T (cmac_block M i))) T [0..<n]) = 16"
  using assms(1)
proof (induction n)
  case (Suc n)
  then have "length (cmac_block M n) = 16" by (simp add: cmac_block_def)
  with Suc show ?case
    by (simp add: ofold_append eia2_block_spec assms(3))
qed (simp add: assms)

lemma foldl_cong_on:
  "(\<And>a i. i \<in> set is \<Longrightarrow> f a i = g a i) \<Longrightarrow> foldl f a is = foldl g a is"
  by (induction "is" arbitrary: a) simp_all

lemma eia2_generate_cmac:
  assumes ecb: "\<And>k b. length b = 16 \<Longrightarrow> length (crypt_ecb lib k b) = 16"
    and m: "0 < length m" "M = m @ replicate k 0" "16 \<le> k" "length m < 2^31"
    and n: "unat n = (length m + 15) div 16" "unat pad = 8 * (length m mod 16)"
  shows "eia2_generate lib key M n pad = Some (cmac (crypt_ecb lib key) m)"
proof -
  define i r where "i = (length m + 15) div 16 - 1" and "r = length m mod 16"
  let ?E = "crypt_ecb lib key"
  let ?T = "foldl (\<lambda>T i. ?E (xor_bytes T (cmac_block m i))) (replicate 16 0) [0..<i]"
  have "1 \<le> (length m + 15) div 16" using m(1) by (cases m) auto
  then have unat_i: "unat (n - 1) = i"
    using n(1) by (simp add: unat_sub word_le_nat_alt i_def)
  have len: "r = 0 \<Longrightarrow> length m = 16 * i + 16" "0 < r \<Longrightarrow> length m = 16 * i + r" "r < 16"
  proof -
    define q where "q = length m div 16"
    have q: "length m = 16 * q + r" "r < 16" by (simp_all add: q_def r_def)
    have "0 < r \<Longrightarrow> (length m + 15) div 16 = Suc q" by (rule div_nat_eqI) (use q in simp_all)
    moreover have "r = 0 \<Longrightarrow> (length m + 15) div 16 = q" by (rule div_nat_eqI) (use q in simp_all)
    ultimately show "r = 0 \<Longrightarrow> length m = 16 * i + 16" "0 < r \<Longrightarrow> length m = 16 * i + r" "r < 16"
      using q m(1) by (auto simp: i_def)
  qed
  have i16: "16 * i < length m" "length m \<le> 16 * i + 16" using len by (cases "r = 0", simp_all)+
  have same: "cmac_block M j = cmac_block m j" if "j < i" for j
    using that i16(1) by (simp add: m(2) cmac_block_def)
  have T: "ofold (eia2_block lib key M) [0..<i] (replicate 16 0) = Some ?T" "length ?T = 16"
  proof -
    have "foldl (\<lambda>T i. ?E (xor_bytes T (cmac_block M i))) (replicate 16 0) [0..<i] = ?T"
      by (rule foldl_cong_on) (simp add: same)
    then show "ofold (eia2_block lib key M) [0..<i] (replicate 16 0) = Some ?T" "length ?T = 16"
      using eia2_blocks_spec [of i M "replicate 16 0" lib key] ecb i16 m(3) by (simp_all add: m(2))
  qed
  have L: "eia2_subkey (?E (replicate 16 0)) = cmac_double (?E (replicate 16 0))"
    "eia2_subkey (cmac_double (?E (replicate 16 0))) = cmac_double (cmac_double (?E (replicate 16 0)))"
    using ecb by (simp_all add: eia2_subkey_double length_cmac_double)
  show ?thesis
  proof (cases "r = 0")
    case True
    note lm = len(1) [OF True]
    have "cmac_block M i = cmac_block m i" "length (cmac_block m i) = 16"
      unfolding cmac_block_def m(2) by (simp_all add: lm)
    moreover have "pad = 0"
      using n(2) True by (simp add: r_def unat_eq_0)
    ultimately show ?thesis
      using T L i16 m(3) by (simp add: eia2_generate_def cmac_def Let_def unat_i aes_crypt_ecb_def
          eia2_last_spec m(2) length_cmac_double flip: i_def [unfolded One_nat_def])
  next
    case False
    note lm = len(2) [OF False [THEN neq0_conv [THEN iffD1]]]
    have pad: "unat pad = 8 * r" using n(2) by (simp add: r_def)
    then have "pad \<noteq> 0" using False by auto
    have p: "unat (128 - pad - 1) = 127 - 8 * r"
      using pad len(3) by (simp add: unat_sub word_le_nat_alt)
    have "(127 - 8 * r) div 8 = 15 - r" "(127 - 8 * r) mod 8 = 7"
    proof -
      have "127 - 8 * r = 8 * (15 - r) + 7" using len(3) by simp
      then show "(127 - 8 * r) div 8 = 15 - r" "(127 - 8 * r) mod 8 = 7" by (simp_all only:) simp_all
    qed
    then have "unat ((128 - pad - 1) div 8) = 15 - r" "unat ((128 - pad - 1) mod 8) = 7"
      unfolding unat_div unat_mod p by simp_all
    moreover from this have "unat (15 - (128 - pad - 1) div 8) = r"
      using len(3) by (simp add: unat_sub word_le_nat_alt)
    moreover from this have "unat (of_nat i * 16 + (15 - (128 - pad - 1) div 8)) = length m"
      using lm m(4) by (simp add: unat_word_ariths unat_of_nat)
    moreover from this have "uint (of_nat i * 16 + (15 - (128 - pad - 1) div 8)) = int (length m)"
      by (metis of_nat_unat)
    moreover have "wr M (int (length m)) (M ! length m OR 0x80) = Some (m @ 0x80 # replicate (k - 1) 0)"
      using m(3) by (cases k) (simp_all add: m(2))
    moreover have "cmac_block (m @ 0x80 # replicate (k - 1) 0) i = cmac_block m i @ 0x80 # replicate (15 - r) 0"
      "length (cmac_block m i) = r"
      using len(3) m(3) by (simp_all add: cmac_block_def lm take_Cons')
    ultimately show ?thesis
      using T L i16 \<open>pad \<noteq> 0\<close> len(3) m(3) False
      by (simp add: eia2_generate_def cmac_def Let_def unat_i aes_crypt_ecb_def
          eia2_last_spec m(2) length_cmac_double flip: i_def [unfolded One_nat_def])
  qed
qed


section \<open>EIA2 is AES-CMAC\<close>

definition eia2_message :: "u32 \<Rightarrow> u8 \<Rightarrow> u8 \<Rightarrow> bytes \<Rightarrow> bytes" where
  "eia2_message count bearer direction msg =
    be32 count @ [push_bit 3 bearer OR push_bit 2 direction, 0, 0, 0] @ msg"

lemma eia2_header_zero:
  "eia2_header count bearer direction (replicate (8 + n) 0)
    = be32 count @ [push_bit 3 bearer OR push_bit 2 direction, 0, 0, 0] @ replicate n 0"
  by (simp add: eia2_header_def be32_def byte_mask numeral_eq_Suc)

lemma ofold_copy:
  assumes "k \<le> length msg" "length hd8 = 8"
  shows "ofold (\<lambda>i M. Option.bind (rd msg (int i)) (wr M (int (8 + i)))) [0..<k] (hd8 @ replicate (k + n) 0)
    = Some (hd8 @ take k msg @ replicate n 0)"
  using assms
proof (induction k arbitrary: n)
  case (Suc k)
  have "wr (hd8 @ take k msg @ 0 # replicate n 0) (int (8 + k)) (msg ! k)
      = Some (hd8 @ take k msg @ msg ! k # replicate n 0)"
    using Suc.prems by (subst wr_Some) (simp_all add: list_update_append)
  then show ?case
    using Suc.IH [of "Suc n"] Suc.prems
    by (simp add: ofold_append take_Suc_conv_app_nth)
qed simp

lemma ceilf_div_exact:
  assumes "unat x < 2^24"
  shows "unat (ceilf_div x k) = (unat x + 2^k - 1) div 2^k"
proof -
  have "unat x + 2^k - 1 < Suc (unat x) * 2^k"
    by (cases "2^k :: nat") simp_all
  then have "(unat x + 2^k - 1) div 2^k \<le> unat x"
    using less_mult_imp_div_less less_Suc_eq_le by blast
  then show ?thesis
    using assms by (simp add: ceilf_div_def to_float_exact unat_of_nat)
qed

lemma map_nth_4: "4 \<le> length T \<Longrightarrow> map (\<lambda>i. T ! i) [0..<4] = take 4 T"
  by (auto intro!: nth_equalityI)

lemma length_cmac: "(\<And>b. length b = 16 \<Longrightarrow> length (E b) = 16) \<Longrightarrow> length m > 0 \<Longrightarrow> length (cmac E m) = 16"
proof -
  assume E: "\<And>b. length b = 16 \<Longrightarrow> length (E b) = 16" and m: "length m > 0"
  define n where "n = (length m + 15) div 16"
  have T: "length (foldl (\<lambda>T i. E (xor_bytes T (cmac_block m i))) (replicate 16 0) [0..<k]) = 16"
    if "k \<le> n - 1" for k
    using that
  proof (induction k)
    case (Suc k)
    then have "16 * k + 16 \<le> length m" unfolding n_def by linarith
    then have "length (cmac_block m k) = 16" by (simp add: cmac_block_def)
    with Suc show ?case by (simp add: E)
  qed simp
  have "length (cmac_block m (n - 1)) \<le> 16" by (simp add: cmac_block_def)
  then show ?thesis
    using T [of "n - 1"] by (simp add: cmac_def Let_def E length_cmac_double flip: n_def)
qed

lemma eia2_cmac:
  assumes ecb: "\<And>k b. length b = 16 \<Longrightarrow> length (crypt_ecb lib k b) = 16"
    and len: "unat len \<le> length msg" "unat len + 8 < 2^24"
  shows "liblte_security_128_eia2 lib (Some key) count bearer dir (Some msg) len (Some mac)
    = Some (LIBLTE_SUCCESS, Some (put mac
        (take 4 (cmac (crypt_ecb lib key) (eia2_message count bearer dir (take (unat len) msg))))))"
proof -
  let ?m = "eia2_message count bearer dir (take (unat len) msg)"
  have u: "unat (len + 8) = unat len + 8" "unat (len + 8 + 16) = 8 + (unat len + 16)"
    using len(2) by (simp_all add: unat_word_ariths)
  have m: "length ?m = unat len + 8" using len(1) by (simp add: eia2_message_def)
  have copy: "ofold (\<lambda>i M. Option.bind (rd msg (int i)) (wr M (int (8 + i)))) [0..<unat len]
      (eia2_header count bearer dir (replicate (8 + (unat len + 16)) 0)) = Some (?m @ replicate 16 0)"
    unfolding eia2_header_zero
    using ofold_copy [OF len(1), of "be32 count @ [push_bit 3 bearer OR push_bit 2 dir, 0, 0, 0]" 16]
    by (simp add: eia2_message_def)
  have n: "unat (ceilf_div (len + 8) 4) = (length ?m + 15) div 16"
    using u(1) len(2) by (subst ceilf_div_exact) (simp_all add: m)
  have "unat (len * 8 + 64) = 8 * (unat len + 8)"
    using len(2) by (simp add: unat_word_ariths)
  then have "unat ((len * 8 + 64) mod 128) = 8 * (unat len + 8) mod 128"
    by (simp add: unat_mod)
  also have "... = 8 * (length ?m mod 16)"
    using mult_mod_right [of 8 "unat len + 8" 16] by (simp add: m)
  finally have pad: "unat ((len * 8 + 64) mod 128) = 8 * (length ?m mod 16)" .
  have g: "eia2_generate lib key (?m @ replicate 16 0) (ceilf_div (len + 8) 4) ((len * 8 + 64) mod 128)
      = Some (cmac (crypt_ecb lib key) ?m)"
    using m len(2) by (intro eia2_generate_cmac [OF ecb _ refl _ _ n pad]) simp_all
  have l: "length (cmac (crypt_ecb lib key) ?m) = 16"
    by (rule length_cmac) (use ecb m in auto)
  show ?thesis
    unfolding liblte_security_128_eia2_def Let_def u(2) option.case prod.case copy bind.bind_lunit g
    using l by (simp add: map_nth_4)
qed


section \<open>The bit message version\<close>

definition bits_of_bytes :: "bytes \<Rightarrow> bytes" where
  "bits_of_bytes bs = map (\<lambda>k. of_bool (bit_at bs k)) [0..<8 * length bs]"

lemma bit_push_of_bool: "bit (push_bit n (of_bool v) :: u8) c \<longleftrightarrow> c = n \<and> v \<and> c < 8"
  by (cases v) (auto simp: bit_simps)

lemma fold_bits:
  "k \<le> 8 \<Longrightarrow> bit (fold (\<lambda>j b. b OR push_bit (7 - j) (of_bool (bit (w :: u8) (7 - j)))) [0..<k] (0 :: u8)) c
    \<longleftrightarrow> (\<exists>j<k. c = 7 - j \<and> bit w c)"
proof (induction k)
  case (Suc k)
  then show ?case
    by (simp add: bit_or_iff bit_push_of_bool less_Suc_eq del: push_bit_of_0) auto
qed simp

lemma pack_bits_byte:
  assumes "i < length bs" "8 * length bs \<le> length m" "\<And>k. k < 8 * length bs \<Longrightarrow> m ! k = of_bool (bit_at bs k)"
  shows "pack_bits m i 8 = Some (bs ! i)"
proof -
  let ?v = "\<lambda>j. of_bool (bit (bs ! i) (7 - j)) :: u8"
  have "pack_bits m i 8 = Some (fold (\<lambda>j b. b OR push_bit (7 - j) (m ! (i * 8 + j))) [0..<8] 0)"
    unfolding pack_bits_def using assms(1,2) by (intro ofold_map_rd) auto
  also have "fold (\<lambda>j b. b OR push_bit (7 - j) (m ! (i * 8 + j))) [0..<8] 0
      = fold (\<lambda>j b. b OR push_bit (7 - j) (?v j)) [0..<8] (0 :: u8)"
  proof (rule fold_cong [OF refl refl])
    fix j assume "j \<in> set [0..<8]"
    then have "i * 8 + j < 8 * length bs" "bit_at bs (i * 8 + j) = bit (bs ! i) (7 - j)"
      using assms(1) bit_at_split [of j bs i] by (auto simp: mult.commute)
    then show "(\<lambda>b. b OR push_bit (7 - j) (m ! (i * 8 + j))) = (\<lambda>b. b OR push_bit (7 - j) (?v j))"
      using assms(3) by simp
  qed
  also have "... = bs ! i"
  proof (rule bit_word_eqI)
    fix c assume "c < LENGTH(8)"
    then have "7 - c < 8" "c = 7 - (7 - c)" by simp_all
    then show "bit (fold (\<lambda>j b. b OR push_bit (7 - j) (?v j)) [0..<8] 0) c = bit (bs ! i) c"
      unfolding fold_bits [OF order_refl] by blast
  qed
  finally show ?thesis .
qed

lemma ofold_pack:
  assumes "k \<le> length bs" "length hd8 = 8" "8 * length bs \<le> length m"
    "\<And>k. k < 8 * length bs \<Longrightarrow> m ! k = of_bool (bit_at bs k)"
  shows "ofold (\<lambda>i M. Option.bind (pack_bits m i 8) (wr M (int (8 + i)))) [0..<k] (hd8 @ replicate (k + n) 0)
    = Some (hd8 @ take k bs @ replicate n 0)"
proof -
  have "ofold (\<lambda>i M. Option.bind (pack_bits m i 8) (wr M (int (8 + i)))) [0..<k] (hd8 @ replicate (k + n) 0)
      = ofold (\<lambda>i M. Option.bind (rd bs (int i)) (wr M (int (8 + i)))) [0..<k] (hd8 @ replicate (k + n) 0)"
    using assms(1) by (intro ofold_cong) (simp add: pack_bits_byte [OF _ assms(3,4)])
  then show ?thesis using assms ofold_copy by simp
qed

lemma eia2_bits_cmac:
  assumes ecb: "\<And>k b. length b = 16 \<Longrightarrow> length (crypt_ecb lib k b) = 16"
    and len: "unat (N_bits msg) = 8 * length bs" "8 * length bs + 64 < 2^24"
    and bits: "8 * length bs \<le> length (bit_msg msg)"
      "\<And>k. k < 8 * length bs \<Longrightarrow> bit_msg msg ! k = of_bool (bit_at bs k)"
  shows "liblte_security_128_eia2_bits lib (Some key) count bearer dir (Some msg) (Some mac)
    = Some (LIBLTE_SUCCESS, Some (put mac
        (take 4 (cmac (crypt_ecb lib key) (eia2_message count bearer dir bs)))))"
proof -
  let ?m = "eia2_message count bearer dir bs" and ?N = "N_bits msg"
  have u: "unat (?N * 8 + 8 + 16) = 8 + (length bs + (63 * length bs + 16))" "unat (?N + 64) = 8 * length bs + 64"
    "unat (?N div 8) = length bs" "unat (?N mod 8) = 0"
    using len by (simp_all add: unat_word_ariths unat_div unat_mod)
  have N8: "?N mod 8 = 0" using u(4) by (simp add: unat_eq_0)
  have m: "length ?m = length bs + 8" by (simp add: eia2_message_def)
  have copy: "ofold (\<lambda>i M. Option.bind (pack_bits (bit_msg msg) i 8) (wr M (int (8 + i)))) [0..<length bs]
      (eia2_header count bearer dir (replicate (8 + (length bs + (63 * length bs + 16))) 0))
      = Some (?m @ replicate (63 * length bs + 16) 0)"
    unfolding eia2_header_zero
    using ofold_pack [OF order_refl _ bits, of "be32 count @ [push_bit 3 bearer OR push_bit 2 dir, 0, 0, 0]"
        "63 * length bs + 16"]
    by (simp add: eia2_message_def)
  have "(8 * length bs + 64 + 127) div 128 = (length ?m + 15) div 16"
  proof -
    have "8 * length bs + 64 + 127 = 8 * (length ?m + 15) + 7" by (simp add: m)
    then have "(8 * length bs + 64 + 127) div 8 div 16 = (length ?m + 15) div 16" by simp
    then show ?thesis by (simp flip: div_mult2_eq)
  qed
  then have n: "unat (ceilf_div (?N + 64) 7) = (length ?m + 15) div 16"
    using u(2) len(2) by (subst ceilf_div_exact) simp_all
  have pad: "unat ((?N + 64) mod 128) = 8 * (length ?m mod 16)"
    using u(2) mult_mod_right [of 8 "length bs + 8" 16] by (simp add: unat_mod m)
  have g: "eia2_generate lib key (?m @ replicate (63 * length bs + 16) 0) (ceilf_div (?N + 64) 7) ((?N + 64) mod 128)
      = Some (cmac (crypt_ecb lib key) ?m)"
    using m len(2) by (intro eia2_generate_cmac [OF ecb _ refl _ _ n pad]) simp_all
  have l: "length (cmac (crypt_ecb lib key) ?m) = 16"
    by (rule length_cmac) (use ecb m in auto)
  show ?thesis
    unfolding liblte_security_128_eia2_bits_def Let_def u option.case prod.case copy bind.bind_lunit N8
    using g l by (simp add: map_nth_4)
qed


section \<open>EIA1\<close>

lemma length_uia2_mac: "length (uia2_mac key count fresh dir data) = 4"
  by (simp add: uia2_mac_def Let_def)

lemma eia1_code:
  assumes "0 < unat len" "unat len < 2^29" "unat len \<le> length msg"
  shows "liblte_security_128_eia1 (Some key) count bearer dir (Some msg) len (Some mac)
    = Some (LIBLTE_SUCCESS, Some (put mac
        (uia2_mac key count (push_bit 27 (ucast bearer)) (ucast dir) (take (unat len) msg))))"
proof -
  let ?m = "take (unat len) msg"
  have l: "length ?m = unat len" using assms(3) by simp
  have "unat (len * 8) = 8 * length ?m" using assms l by (simp add: unat_word_ariths)
  then have u: "(ucast (len * 8) :: u64) = of_nat (8 * length ?m)"
    using assms l by (intro word_unat_eq_iff [THEN iffD2])
      (simp add: unat_word_ariths unsigned_ucast_eq take_bit_nat_eq_self)
  have "s3g_f9 key count (push_bit 27 (ucast bearer)) (ucast dir) (?m @ drop (unat len) msg) (ucast (len * 8))
      = Some (uia2_mac key count (push_bit 27 (ucast bearer)) (ucast dir) ?m)"
    unfolding u using assms l by (intro s3g_f9_append s3g_f9_uia2) simp_all
  then show ?thesis
    by (simp only: append_take_drop_id liblte_security_128_eia1_def option.case prod.case Let_def option.map)
      (simp add: map_nth_4 length_uia2_mac)
qed

section \<open>EIA3\<close>

text \<open>The code of TS 35.222 over the key stream bits \<open>z[0], z[1], ...\<close>.\<close>

definition z_word :: "u32 list \<Rightarrow> nat \<Rightarrow> u32" where
  "z_word ks i = fold (\<lambda>j w. push_bit 1 w OR of_bool (word_bit_at ks (i + j))) [0..<32] 0"

definition eia3_mac :: "bytes \<Rightarrow> u32 \<Rightarrow> u8 \<Rightarrow> u8 \<Rightarrow> bytes \<Rightarrow> nat \<Rightarrow> u32" where
  "eia3_mac key count bearer direction msg n =
    (let L = (n + 31) div 32 + 2;
         ks = fst (zuc_generate_keystream (zuc_initialize zuc_zero key (eia3_iv count bearer direction)) L);
         T = fold (\<lambda>i T. if bit_at msg i then T XOR z_word ks i else T) [0..<n] 0
     in T XOR z_word ks n XOR z_word ks (32 * (L - 1)))"

lemma bit_z_fold:
  "k \<le> 32 \<Longrightarrow> bit (fold (\<lambda>j w. push_bit 1 w OR of_bool (p j)) [0..<k] (0 :: u32)) c \<longleftrightarrow> c < k \<and> p (k - 1 - c)"
proof (induction k arbitrary: c)
  case (Suc k)
  have b: "bit (of_bool v :: u32) c \<longleftrightarrow> v \<and> c = 0" for v by (cases v) (auto simp: bit_1_iff)
  show ?case
  proof (cases c)
    case (Suc d)
    then show ?thesis using Suc.IH [of d] Suc.prems
      by (simp add: bit_or_iff bit_push_bit_iff b del: push_bit_Suc) linarith
  qed (simp add: bit_or_iff bit_push_bit_iff b del: push_bit_Suc)
qed simp

lemma bit_z_word: "c < 32 \<Longrightarrow> bit (z_word ks i) c \<longleftrightarrow> word_bit_at ks (i + 31 - c)"
  unfolding z_word_def by (subst bit_z_fold) simp_all

lemma word_bit_split: "e < 32 \<Longrightarrow> word_bit_at ks (32 * q + e) = bit (ks ! q) (31 - e)"
  by (simp add: word_bit_at_def)

lemma GET_WORD_z:
  assumes "unat i = n" "n div 32 + 1 < length ks \<or> n mod 32 = 0 \<and> n div 32 < length ks"
  shows "GET_WORD ks i = Some (z_word ks n)"
proof -
  define q t where "q = n div 32" and "t = n mod 32"
  have n: "n = 32 * q + t" "t < 32" by (simp_all add: q_def t_def)
  have u: "unat (i div 32) = q" "unat (i mod 32) = t"
    using assms(1) by (simp_all add: unat_div unat_mod q_def t_def)
  have idx: "word_bit_at ks (n + 31 - c) =
      (if t \<le> c then bit (ks ! q) (c - t) else bit (ks ! Suc q) (32 - t + c))" if "c < 32" for c
  proof (cases "t \<le> c")
    case True
    then have "n + 31 - c = 32 * q + (31 - (c - t))" using that n by simp
    moreover have "31 - (31 - (c - t)) = c - t" "31 - (c - t) < 32" using that by simp_all
    ultimately show ?thesis using True word_bit_split [of "31 - (c - t)" ks q] by simp
  next
    case False
    then have "n + 31 - c = 32 * Suc q + (31 - (32 - t + c))" using that n by simp
    moreover have "31 - (31 - (32 - t + c)) = 32 - t + c" "31 - (32 - t + c) < 32"
      using False n(2) by simp_all
    ultimately show ?thesis using False word_bit_split [of "31 - (32 - t + c)" ks "Suc q"]
      by (simp only: if_False)
  qed
  show ?thesis
  proof (cases "t = 0")
    case True
    then have "z_word ks n = ks ! q"
      by (intro bit_word_eqI) (simp add: bit_z_word idx)
    moreover have "i mod 32 = 0" using True u(2) by (simp add: unat_eq_0)
    moreover have "q < length ks" using assms(2) by (auto simp: q_def)
    ultimately show ?thesis unfolding GET_WORD_def Let_def u(1) by simp
  next
    case False
    have q: "Suc q < length ks" using assms(2) False by (auto simp: q_def t_def)
    have "i mod 32 \<noteq> 0"
    proof
      assume "i mod 32 = 0"
      then have "unat (i mod 32) = 0" by (simp only: unsigned_0)
      with False u(2) show False by simp
    qed
    moreover have v: "unat (i div 32 + 1) = Suc q" "unat (32 - (i mod 32)) = 32 - t"
      using u n assms(1) unat_u32_less [of i] by (simp_all add: unat_word_ariths unat_sub word_le_nat_alt)
    moreover have "z_word ks n = push_bit t (ks ! q) OR drop_bit (32 - t) (ks ! Suc q)"
    proof (rule bit_word_eqI)
      fix c assume "c < LENGTH(32)"
      moreover have "c < t \<Longrightarrow> 32 - t + c < 32" using n(2) by simp
      ultimately show "bit (z_word ks n) c = bit (push_bit t (ks ! q) OR drop_bit (32 - t) (ks ! Suc q)) c"
        using n(2) by (auto simp: bit_z_word idx bit_simps dest: bit_imp_le_length)
    qed
    ultimately show ?thesis
      using q rd_Some [of "Suc q" ks] unfolding GET_WORD_def Let_def u v by simp
  qed
qed

lemma GET_BIT_at:
  assumes "unat i = n" "n div 8 < length msg"
  shows "GET_BIT msg i = Some (bit_at msg n)"
proof -
  have "unat (i div 8) = n div 8" and m: "unat (i mod 8) = n mod 8"
    using assms(1) by (simp_all add: unat_div unat_mod)
  moreover have "i mod 8 \<le> 7" using m by (simp only: word_le_nat_alt) simp
  then have "unat (7 - i mod 8) = unat (7 :: u32) - unat (i mod 8)" by (rule unat_sub)
  then have "unat (7 - i mod 8) = 7 - n mod 8" unfolding m by simp
  moreover note calculation
  ultimately have "unat (i div 8) = n div 8" "unat (7 - i mod 8) = 7 - n mod 8" by blast+
  then show ?thesis
    using assms(2) and_exp_bit [of "msg ! (n div 8)" "7 - n mod 8"]
    unfolding GET_BIT_def bit_at_def by simp
qed


lemma length_zuc_keystream: "length (fst (zuc_generate_keystream st n)) = n"
proof -
  have "length (fst (zuc_keystream_loop n st)) = n" for n st
    by (induction n arbitrary: st) (simp_all add: Let_def split_beta)
  then show ?thesis by (simp add: zuc_generate_keystream_def split_beta)
qed

lemma ofold_fold:
  "(\<And>i s. i \<in> set is \<Longrightarrow> f i s = Some (g i s)) \<Longrightarrow> ofold f is s = Some (fold g is s)"
  by (induction "is" arbitrary: s) simp_all

lemma z_word_aligned: "z_word ks (32 * q) = ks ! q"
proof (rule bit_word_eqI)
  fix c assume c: "c < LENGTH(32)"
  then have "32 * q + 31 - c = 32 * q + (31 - c)" "31 - (31 - c) = c" by simp_all
  then show "bit (z_word ks (32 * q)) c = bit (ks ! q) c"
    using c word_bit_split [of "31 - c" ks q] by (simp add: bit_z_word)
qed

lemma eia3_result:
  assumes n: "unat len = n" "n + 95 < 2^31" "(n + 7) div 8 \<le> length msg"
  shows "liblte_security_128_eia3 (Some key) count bearer dir (Some msg) len (Some mac)
    = Some (LIBLTE_ERROR_INVALID_INPUTS, Some (put mac (be32 (eia3_mac key count bearer dir msg n))))"
proof -
  define L where "L = (n + 31) div 32 + 2"
  define ks where "ks = fst (zuc_generate_keystream (zuc_initialize zuc_zero key (eia3_iv count bearer dir)) L)"
  have ks: "length ks = L" by (simp add: ks_def length_zuc_keystream)
  have N: "sint (len + 64) = int (n + 64)"
    using n by (subst sint_small) (simp_all add: unat_word_ariths)
  have "(int (n + 64) + 31) div 32 = int ((n + 95) div 32)" by (simp add: zdiv_int)
  then have L: "nat ((int (n + 64) + 31) div 32) = L" unfolding L_def by (simp only: nat_int)
  have word: "GET_WORD ks i = Some (z_word ks k)" if "unat i = k" "k \<le> n" for i k
  proof -
    have "k div 32 \<le> (n + 31) div 32" using that(2) by (intro div_le_mono) simp
    then show ?thesis using ks by (intro GET_WORD_z [OF that(1)]) (simp add: L_def)
  qed
  have small: "unat (of_nat k :: u32) = k" if "k < n" for k
    using that n(2) by (simp add: unat_of_nat)
  have loop: "ofold (\<lambda>i T. Option.bind (GET_BIT msg (of_nat i)) (\<lambda>b.
      if b then map_option (\<lambda>w. T XOR w) (GET_WORD ks (of_nat i)) else Some T)) [0..<n] 0
    = Some (fold (\<lambda>i T. if bit_at msg i then T XOR z_word ks i else T) [0..<n] 0)"
  proof (rule ofold_fold)
    fix i and s :: u32
    assume "i \<in> set [0..<n]"
    then have i: "i < n" by simp
    then have "i div 8 < length msg" using n(3) by linarith
    then show "Option.bind (GET_BIT msg (of_nat i)) (\<lambda>b.
        if b then map_option (\<lambda>w. s XOR w) (GET_WORD ks (of_nat i)) else Some s)
      = Some (if bit_at msg i then s XOR z_word ks i else s)"
      using i by (simp add: GET_BIT_at [OF small] word [OF small])
  qed
  have last: "rd ks (int L - 1) = Some (z_word ks (32 * (L - 1)))"
  proof -
    have "int L - 1 = int (L - 1)" "L - 1 < length ks" by (simp_all add: ks L_def)
    then show ?thesis by (simp only: rd_Some z_word_aligned)
  qed
  have bytes: "[ucast (drop_bit 24 w AND 0xFF), ucast (drop_bit 16 w AND 0xFF), ucast (drop_bit 8 w AND 0xFF),
      ucast (w AND 0xFF)] = be32 w" for w
    by (simp add: be32_def byte_mask upt_rec)
  have bound: "\<not> (int (n + 64) < 0 \<or> 2^31 \<le> int (n + 64) + 31)" using n(2) by simp_all
  show ?thesis
    unfolding liblte_security_128_eia3_def eia3_mac_def Let_def option.case prod.case N L n(1)
      L_def [symmetric] ks_def [symmetric] if_not_P [OF bound] loop bind.bind_lunit word [OF n(1) order_refl] last
      option.map bytes
    by (simp only: xor.assoc)
qed

section \<open>The contract of an integrity algorithm\<close>

lemma eia3_mac_take:
  "(n + 7) div 8 \<le> k \<Longrightarrow> eia3_mac key count bearer dir (take k msg) n = eia3_mac key count bearer dir msg n"
proof -
  assume k: "(n + 7) div 8 \<le> k"
  have "bit_at (take k msg) i = bit_at msg i" if "i < n" for i
  proof -
    have "i div 8 < k" using that k by linarith
    then show ?thesis by (simp add: bit_at_def)
  qed
  then have "fold (\<lambda>i T. if bit_at (take k msg) i then T XOR g i else T) [0..<n] t
      = fold (\<lambda>i T. if bit_at msg i then T XOR g i else T) [0..<n] t" for g :: "nat \<Rightarrow> u32" and t
    by (intro fold_cong) auto
  then show ?thesis unfolding eia3_mac_def Let_def by (simp only:)
qed

text \<open>
  The contract of an integrity algorithm of whole octets, where it is available: the four octets of the code
  are written, and the code depends on the message only, not on the memory behind it.
\<close>

locale integrity_code =
  fixes available :: bool
    and eia :: "bytes ptr \<Rightarrow> u32 \<Rightarrow> u32 \<Rightarrow> u8 \<Rightarrow> bytes ptr \<Rightarrow> u32 \<Rightarrow> bytes ptr \<Rightarrow> (LIBLTE_ERROR \<times> bytes ptr) option"
    and code :: "bytes \<Rightarrow> u32 \<Rightarrow> u8 \<Rightarrow> u8 \<Rightarrow> bytes \<Rightarrow> bytes"
  assumes length_code: "available \<Longrightarrow> length (code key count b dir m) = 4"
    and eia_code: "available \<Longrightarrow> 0 < unat len \<Longrightarrow> unat len < 2^23 \<Longrightarrow> unat len \<le> length msg \<Longrightarrow>
      \<exists>err. eia (Some key) count bearer dir (Some msg) len (Some mac)
        = Some (err, Some (put mac (code key count (ucast bearer) dir (take (unat len) msg))))"
begin

lemma eia_mac:
  assumes available "0 < unat len" "unat len < 2^23" "unat len \<le> length msg" "length mac = 4"
  shows "map_option (\<lambda>(err, mac). the mac) (eia (Some key) count bearer dir (Some msg) len (Some mac))
    = Some (code key count (ucast bearer) dir (take (unat len) msg))"
  using eia_code [OF assms(1-4), of key count bearer dir mac] assms(5) length_code [OF assms(1)]
  by (auto simp: put_def)

end

definition eia1_of :: "bytes \<Rightarrow> u32 \<Rightarrow> u8 \<Rightarrow> u8 \<Rightarrow> bytes \<Rightarrow> bytes" where
  "eia1_of key count b dir m = uia2_mac key count (push_bit 27 (ucast b)) (ucast dir) m"

definition eia2_of :: "ssl_lib \<Rightarrow> bytes \<Rightarrow> u32 \<Rightarrow> u8 \<Rightarrow> u8 \<Rightarrow> bytes \<Rightarrow> bytes" where
  "eia2_of lib key count b dir m = take 4 (cmac (crypt_ecb lib key) (eia2_message count b dir m))"

definition eia3_of :: "bytes \<Rightarrow> u32 \<Rightarrow> u8 \<Rightarrow> u8 \<Rightarrow> bytes \<Rightarrow> bytes" where
  "eia3_of key count b dir m = be32 (eia3_mac key count b dir m (8 * length m))"

definition ecb_blocks :: "ssl_lib \<Rightarrow> bool" where
  "ecb_blocks lib \<longleftrightarrow> (\<forall>k b. length b = 16 \<longrightarrow> length (crypt_ecb lib k b) = 16)"

interpretation eia1: integrity_code True security_128_eia1 eia1_of
proof
  fix key count b dir and m :: bytes
  show "length (eia1_of key count b dir m) = 4" by (simp add: eia1_of_def length_uia2_mac)
next
  fix len bearer :: u32 and msg :: bytes and key count dir and mac :: bytes
  assume "0 < unat len" "unat len < 2^23" "unat len \<le> length msg"
  then show "\<exists>err. security_128_eia1 (Some key) count bearer dir (Some msg) len (Some mac)
      = Some (err, Some (put mac (eia1_of key count (ucast bearer) dir (take (unat len) msg))))"
    unfolding security_128_eia1_def eia1_of_def by (subst eia1_code) simp_all
qed

interpretation eia2: integrity_code "ecb_blocks lib" "security_128_eia2 lib" "eia2_of lib" for lib
proof
  fix key count b dir and m :: bytes
  assume "ecb_blocks lib"
  then show "length (eia2_of lib key count b dir m) = 4"
    by (simp add: eia2_of_def ecb_blocks_def length_cmac eia2_message_def)
next
  fix len bearer :: u32 and msg :: bytes and key count dir and mac :: bytes
  assume "ecb_blocks lib" "0 < unat len" "unat len < 2^23" "unat len \<le> length msg"
  then show "\<exists>err. security_128_eia2 lib (Some key) count bearer dir (Some msg) len (Some mac)
      = Some (err, Some (put mac (eia2_of lib key count (ucast bearer) dir (take (unat len) msg))))"
    unfolding security_128_eia2_def eia2_of_def by (subst eia2_cmac) (simp_all add: ecb_blocks_def)
qed

interpretation eia3: integrity_code True security_128_eia3 eia3_of
proof
  fix key count b dir and m :: bytes
  show "length (eia3_of key count b dir m) = 4" by (simp add: eia3_of_def be32_def)
next
  fix len bearer :: u32 and msg :: bytes and key count dir and mac :: bytes
  assume l: "0 < unat len" "unat len < 2^23" "unat len \<le> length msg"
  then have u: "unat (len * 8) = 8 * unat len" by (simp add: unat_word_ariths)
  have "eia3_of key count (ucast bearer) dir (take (unat len) msg)
      = be32 (eia3_mac key count (ucast bearer) dir msg (8 * unat len))"
    using l eia3_mac_take [of "8 * unat len" "unat len" key count "ucast bearer" dir msg] by (simp add: eia3_of_def)
  then show "\<exists>err. security_128_eia3 (Some key) count bearer dir (Some msg) len (Some mac)
      = Some (err, Some (put mac (eia3_of key count (ucast bearer) dir (take (unat len) msg))))"
    unfolding security_128_eia3_def using l by (subst eia3_result [OF u]) simp_all
qed

section \<open>Properties\<close>

text \<open>
  Claim C19. EIA2 on octets is AES-CMAC: for every message below 2^24 - 8 octets the code
  succeeds, accesses only its buffers, and writes the first four octets of the RFC 4493 code, with
  the library's block encryption, over COUNT || BEARER || DIRECTION || 0 || message. (From 2^24 on,
  the block count computed in \<open>float\<close> is no longer exact.)
\<close>

theorem eia2_is_cmac:
  assumes "\<And>k b. length b = 16 \<Longrightarrow> length (crypt_ecb lib k b) = 16"
    and "unat len \<le> length msg" "unat len + 8 < 2^24"
  shows "liblte_security_128_eia2 lib (Some key) count bearer dir (Some msg) len (Some mac)
    = Some (LIBLTE_SUCCESS, Some (put mac
        (take 4 (cmac (crypt_ecb lib key) (eia2_message count bearer dir (take (unat len) msg))))))"
  using assms by (rule eia2_cmac)

theorem eia2_is_cmac_witness:
  "liblte_security_128_eia2 (sample_ssl\<lparr>crypt_ecb := (\<lambda>k b. rotate 1 b)\<rparr>) (Some (replicate 16 1)) 5 1 0
      (Some [1, 2, 3]) 3 (Some [0, 0, 0, 0])
    = Some (LIBLTE_SUCCESS, Some (put [0, 0, 0, 0]
        (take 4 (cmac (\<lambda>b. rotate 1 b) (eia2_message 5 1 0 [1, 2, 3])))))"
  using eia2_is_cmac [of "sample_ssl\<lparr>crypt_ecb := (\<lambda>k b. rotate 1 b)\<rparr>" 3 "[1, 2, 3]" "replicate 16 1" 5 1 0
      "[0, 0, 0, 0]"] by simp

text \<open>
  Claim C36. The EIA2 for messages of one bit per array element, given the bits of an octet
  string, computes the same code as the EIA2 for octets given the string.
\<close>

theorem eia2_bits_agree:
  assumes "\<And>k b. length b = 16 \<Longrightarrow> length (crypt_ecb lib k b) = 16" "8 * length bs + 64 < 2^24"
  shows "liblte_security_128_eia2_bits lib (Some key) count bearer dir
      (Some \<lparr>N_bits = of_nat (8 * length bs), bit_msg = bits_of_bytes bs\<rparr>) (Some mac)
    = liblte_security_128_eia2 lib (Some key) count bearer dir (Some bs) (of_nat (length bs)) (Some mac)"
proof -
  have u: "unat (of_nat (8 * length bs) :: u32) = 8 * length bs" "unat (of_nat (length bs) :: u32) = length bs"
    using assms(2) by (simp_all add: unat_of_nat del: of_nat_mult)
  show ?thesis
    using assms u eia2_bits_cmac [OF assms(1), of "\<lparr>N_bits = of_nat (8 * length bs), bit_msg = bits_of_bytes bs\<rparr>" bs]
      eia2_cmac [OF assms(1), of "of_nat (length bs)" bs]
    by (simp add: bits_of_bytes_def)
qed

theorem eia2_bits_agree_witness:
  "liblte_security_128_eia2_bits (sample_ssl\<lparr>crypt_ecb := (\<lambda>k b. rotate 1 b)\<rparr>) (Some (replicate 16 1)) 5 1 0
      (Some \<lparr>N_bits = 8, bit_msg = bits_of_bytes [0xA5]\<rparr>) (Some [0, 0, 0, 0])
    = liblte_security_128_eia2 (sample_ssl\<lparr>crypt_ecb := (\<lambda>k b. rotate 1 b)\<rparr>) (Some (replicate 16 1)) 5 1 0
      (Some [0xA5]) 1 (Some [0, 0, 0, 0])"
  using eia2_bits_agree [of "sample_ssl\<lparr>crypt_ecb := (\<lambda>k b. rotate 1 b)\<rparr>" "[0xA5]" "replicate 16 1" 5 1 0
      "[0, 0, 0, 0]"] by simp

text \<open>
  EIA3 of an \<open>n\<close>-bit message writes the code of TS 35.222: the XOR of the 32-bit
  windows of the ZUC key stream at the positions of the message's one bits, the window at \<open>n\<close> and the
  last word. It reports LIBLTE_ERROR_INVALID_INPUTS all the same: the success code is
  never assigned.
\<close>

theorem eia3_mac_spec:
  assumes "unat len = n" "n + 95 < 2^31" "(n + 7) div 8 \<le> length msg"
  shows "liblte_security_128_eia3 (Some key) count bearer dir (Some msg) len (Some mac)
    = Some (LIBLTE_ERROR_INVALID_INPUTS, Some (put mac (be32 (eia3_mac key count bearer dir msg n))))"
  using assms by (rule eia3_result)

theorem eia3_mac_spec_witness:
  "liblte_security_128_eia3 (Some (replicate 16 0)) 1 2 1 (Some [0xF0, 0x80]) 9 (Some [0, 0, 0, 0])
    = Some (LIBLTE_ERROR_INVALID_INPUTS, Some (be32 (eia3_mac (replicate 16 0) 1 2 1 [0xF0, 0x80] 9)))"
  using eia3_mac_spec [of 9 9 "[0xF0, 0x80]" "replicate 16 0" 1 2 1 "[0, 0, 0, 0]"] by simp

end
