(* ===== verification/Milenage.thy ===== *)
theory Milenage
  imports Ssl_Lib
begin

text \<open>
  The authentication functions of \<^verbatim>\<open>lib/src/common/liblte_security.cc\<close>: f1, f1*, f2 to f5, f5* and
  the computation of OPc. The local arrays of the functions are lists of 16 octets; an array
  that is not initialised starts as zeros and is written before it is read. The second part
  states TS 35.206 (rotations by r1 to r5 and constants c1 to c5) and proves that the code
  computes it.
\<close>

section \<open>The code\<close>

definition zero16 :: bytes where
  "zero16 = replicate 16 0"

text \<open>\<open>for (i = 0; i < 16; i++) c[i] = a[i] ^ b[i]\<close>\<close>

definition xor16 :: "bytes \<Rightarrow> bytes \<Rightarrow> bytes" where
  "xor16 a b = fill 16 (\<lambda>i. i) (\<lambda>i. a ! i XOR b ! i) zero16"

definition f1_in1 :: "bytes \<Rightarrow> bytes \<Rightarrow> bytes" where
  "f1_in1 sqn amf =
    fill 2 (\<lambda>i. i + 14) (\<lambda>i. amf ! i) (fill 2 (\<lambda>i. i + 6) (\<lambda>i. amf ! i)
    (fill 6 (\<lambda>i. i + 8) (\<lambda>i. sqn ! i) (fill 6 (\<lambda>i. i) (\<lambda>i. sqn ! i) zero16)))"

text \<open>The common part of f1 and f1*, up to \<open>out1\<close>.\<close>

definition f1_out1 :: "ssl_lib \<Rightarrow> bytes \<Rightarrow> bytes \<Rightarrow> bytes \<Rightarrow> bytes \<Rightarrow> bytes \<Rightarrow> bytes" where
  "f1_out1 lib k op_c rand sqn amf =
    (let input = xor16 rand op_c;
         temp = aes_crypt_ecb lib k input;
         in1 = f1_in1 sqn amf;
         input = fill 16 (\<lambda>i. (i + 8) mod 16) (\<lambda>i. in1 ! i XOR op_c ! i) input;
         input = xor16 input temp;
         out1 = aes_crypt_ecb lib k input
     in xor16 out1 op_c)"

definition liblte_security_milenage_f1 ::
  "ssl_lib \<Rightarrow> bytes ptr \<Rightarrow> bytes ptr \<Rightarrow> bytes ptr \<Rightarrow> bytes ptr \<Rightarrow> bytes ptr \<Rightarrow> bytes ptr \<Rightarrow>
   LIBLTE_ERROR \<times> bytes ptr" where
  "liblte_security_milenage_f1 lib k op_c rand sqn amf mac_a =
    (case (k, op_c, rand, sqn, amf, mac_a) of
       (Some k, Some op_c, Some rand, Some sqn, Some amf, Some mac) \<Rightarrow>
         (let out1 = f1_out1 lib k op_c rand sqn amf
          in (LIBLTE_SUCCESS, Some (put mac (map (\<lambda>i. out1 ! i) [0..<8]))))
     | _ \<Rightarrow> (LIBLTE_ERROR_INVALID_INPUTS, mac_a))"

definition liblte_security_milenage_f1_star ::
  "ssl_lib \<Rightarrow> bytes ptr \<Rightarrow> bytes ptr \<Rightarrow> bytes ptr \<Rightarrow> bytes ptr \<Rightarrow> bytes ptr \<Rightarrow> bytes ptr \<Rightarrow>
   LIBLTE_ERROR \<times> bytes ptr" where
  "liblte_security_milenage_f1_star lib k op_c rand sqn amf mac_s =
    (case (k, op_c, rand, sqn, amf, mac_s) of
       (Some k, Some op_c, Some rand, Some sqn, Some amf, Some mac) \<Rightarrow>
         (let out1 = f1_out1 lib k op_c rand sqn amf
          in (LIBLTE_SUCCESS, Some (put mac (map (\<lambda>i. out1 ! (i + 8)) [0..<8]))))
     | _ \<Rightarrow> (LIBLTE_ERROR_INVALID_INPUTS, mac_s))"

text \<open>One output block of f2 to f5 and f5*: rotate, \<open>input[15] ^= c\<close>, encrypt, XOR OPc.\<close>

definition f2345_out :: "ssl_lib \<Rightarrow> bytes \<Rightarrow> bytes \<Rightarrow> bytes \<Rightarrow> nat \<Rightarrow> u8 \<Rightarrow> bytes \<Rightarrow> bytes \<times> bytes" where
  "f2345_out lib k op_c temp r c input =
    (let input = fill 16 (\<lambda>i. (i + r) mod 16) (\<lambda>i. temp ! i XOR op_c ! i) input;
         input = input[15 := input ! 15 XOR c];
         out = aes_crypt_ecb lib k input
     in (xor16 out op_c, input))"

definition liblte_security_milenage_f2345 ::
  "ssl_lib \<Rightarrow> bytes ptr \<Rightarrow> bytes ptr \<Rightarrow> bytes ptr \<Rightarrow> bytes ptr \<Rightarrow> bytes ptr \<Rightarrow> bytes ptr \<Rightarrow> bytes ptr \<Rightarrow>
   LIBLTE_ERROR \<times> bytes ptr \<times> bytes ptr \<times> bytes ptr \<times> bytes ptr" where
  "liblte_security_milenage_f2345 lib k op_c rand res ck ik ak =
    (case (k, op_c, rand, res, ck, ik, ak) of
       (Some k, Some op_c, Some rand, Some res, Some ck, Some ik, Some ak) \<Rightarrow>
         (let input = xor16 rand op_c;
              temp = aes_crypt_ecb lib k input;
              (out, input) = f2345_out lib k op_c temp 0 1 input;
              res = put res (map (\<lambda>i. out ! (i + 8)) [0..<8]);
              ak = put ak (map (\<lambda>i. out ! i) [0..<6]);
              (out, input) = f2345_out lib k op_c temp 12 2 input;
              ck = put ck (map (\<lambda>i. out ! i) [0..<16]);
              (out, input) = f2345_out lib k op_c temp 8 4 input;
              ik = put ik (map (\<lambda>i. out ! i) [0..<16])
          in (LIBLTE_SUCCESS, Some res, Some ck, Some ik, Some ak))
     | _ \<Rightarrow> (LIBLTE_ERROR_INVALID_INPUTS, res, ck, ik, ak))"

definition liblte_security_milenage_f5_star ::
  "ssl_lib \<Rightarrow> bytes ptr \<Rightarrow> bytes ptr \<Rightarrow> bytes ptr \<Rightarrow> bytes ptr \<Rightarrow> LIBLTE_ERROR \<times> bytes ptr" where
  "liblte_security_milenage_f5_star lib k op_c rand ak =
    (case (k, op_c, rand, ak) of
       (Some k, Some op_c, Some rand, Some ak) \<Rightarrow>
         (let input = xor16 rand op_c;
              temp = aes_crypt_ecb lib k input;
              (out, input) = f2345_out lib k op_c temp 4 8 input
          in (LIBLTE_SUCCESS, Some (put ak (map (\<lambda>i. out ! i) [0..<6]))))
     | _ \<Rightarrow> (LIBLTE_ERROR_INVALID_INPUTS, ak))"

definition liblte_compute_opc ::
  "ssl_lib \<Rightarrow> bytes ptr \<Rightarrow> bytes ptr \<Rightarrow> bytes ptr \<Rightarrow> LIBLTE_ERROR \<times> bytes ptr" where
  "liblte_compute_opc lib k op op_c =
    (case (k, op, op_c) of
       (Some k, Some op, Some buf) \<Rightarrow>
         (LIBLTE_SUCCESS, Some (put buf (xor16 (aes_crypt_ecb lib k op) op)))
     | _ \<Rightarrow> (LIBLTE_ERROR_INVALID_INPUTS, op_c))"

text \<open>The wrappers of \<^verbatim>\<open>lib/src/common/security.cc\<close>.\<close>

definition compute_opc ::
  "ssl_lib \<Rightarrow> bytes ptr \<Rightarrow> bytes ptr \<Rightarrow> bytes ptr \<Rightarrow> LIBLTE_ERROR \<times> bytes ptr" where
  "compute_opc lib k op opc = liblte_compute_opc lib k op opc"

definition security_milenage_f1 ::
  "ssl_lib \<Rightarrow> bytes ptr \<Rightarrow> bytes ptr \<Rightarrow> bytes ptr \<Rightarrow> bytes ptr \<Rightarrow> bytes ptr \<Rightarrow> bytes ptr \<Rightarrow>
   LIBLTE_ERROR \<times> bytes ptr" where
  "security_milenage_f1 lib k op rand sqn amf mac_a = liblte_security_milenage_f1 lib k op rand sqn amf mac_a"

definition security_milenage_f1_star ::
  "ssl_lib \<Rightarrow> bytes ptr \<Rightarrow> bytes ptr \<Rightarrow> bytes ptr \<Rightarrow> bytes ptr \<Rightarrow> bytes ptr \<Rightarrow> bytes ptr \<Rightarrow>
   LIBLTE_ERROR \<times> bytes ptr" where
  "security_milenage_f1_star lib k op rand sqn amf mac_s =
    liblte_security_milenage_f1_star lib k op rand sqn amf mac_s"

definition security_milenage_f2345 ::
  "ssl_lib \<Rightarrow> bytes ptr \<Rightarrow> bytes ptr \<Rightarrow> bytes ptr \<Rightarrow> bytes ptr \<Rightarrow> bytes ptr \<Rightarrow> bytes ptr \<Rightarrow> bytes ptr \<Rightarrow>
   LIBLTE_ERROR \<times> bytes ptr \<times> bytes ptr \<times> bytes ptr \<times> bytes ptr" where
  "security_milenage_f2345 lib k op rand res ck ik ak = liblte_security_milenage_f2345 lib k op rand res ck ik ak"

definition security_milenage_f5_star ::
  "ssl_lib \<Rightarrow> bytes ptr \<Rightarrow> bytes ptr \<Rightarrow> bytes ptr \<Rightarrow> bytes ptr \<Rightarrow> LIBLTE_ERROR \<times> bytes ptr" where
  "security_milenage_f5_star lib k op rand ak = liblte_security_milenage_f5_star lib k op rand ak"

section \<open>TS 35.206\<close>

text \<open>\<open>rot x r\<close> is a cyclic rotation by \<open>r\<close> bits to the left; all five are whole octets.\<close>

definition constant16 :: "u8 \<Rightarrow> bytes" where
  "constant16 c = replicate 15 0 @ [c]"

definition milenage_temp :: "ssl_lib \<Rightarrow> bytes \<Rightarrow> bytes \<Rightarrow> bytes \<Rightarrow> bytes" where
  "milenage_temp lib k opc rand = crypt_ecb lib k (xor_bytes rand opc)"

definition milenage_out1 :: "ssl_lib \<Rightarrow> bytes \<Rightarrow> bytes \<Rightarrow> bytes \<Rightarrow> bytes \<Rightarrow> bytes \<Rightarrow> bytes" where
  "milenage_out1 lib k opc rand sqn amf =
    xor_bytes opc (crypt_ecb lib k (xor_bytes (milenage_temp lib k opc rand)
      (rotate (64 div 8) (xor_bytes (sqn @ amf @ sqn @ amf) opc))))"

definition milenage_out :: "nat \<Rightarrow> u8 \<Rightarrow> ssl_lib \<Rightarrow> bytes \<Rightarrow> bytes \<Rightarrow> bytes \<Rightarrow> bytes" where
  "milenage_out r c lib k opc rand =
    xor_bytes opc (crypt_ecb lib k
      (xor_bytes (rotate (r div 8) (xor_bytes (milenage_temp lib k opc rand) opc)) (constant16 c)))"

definition mil_f1 :: "ssl_lib \<Rightarrow> bytes \<Rightarrow> bytes \<Rightarrow> bytes \<Rightarrow> bytes \<Rightarrow> bytes \<Rightarrow> bytes" where
  "mil_f1 lib k opc rand sqn amf = take 8 (milenage_out1 lib k opc rand sqn amf)"

definition mil_f1_star :: "ssl_lib \<Rightarrow> bytes \<Rightarrow> bytes \<Rightarrow> bytes \<Rightarrow> bytes \<Rightarrow> bytes \<Rightarrow> bytes" where
  "mil_f1_star lib k opc rand sqn amf = drop 8 (milenage_out1 lib k opc rand sqn amf)"

definition mil_f2 :: "ssl_lib \<Rightarrow> bytes \<Rightarrow> bytes \<Rightarrow> bytes \<Rightarrow> bytes" where
  "mil_f2 lib k opc rand = drop 8 (milenage_out 0 1 lib k opc rand)"

definition mil_f3 :: "ssl_lib \<Rightarrow> bytes \<Rightarrow> bytes \<Rightarrow> bytes \<Rightarrow> bytes" where
  "mil_f3 lib k opc rand = milenage_out 32 2 lib k opc rand"

definition mil_f4 :: "ssl_lib \<Rightarrow> bytes \<Rightarrow> bytes \<Rightarrow> bytes \<Rightarrow> bytes" where
  "mil_f4 lib k opc rand = milenage_out 64 4 lib k opc rand"

definition mil_f5 :: "ssl_lib \<Rightarrow> bytes \<Rightarrow> bytes \<Rightarrow> bytes \<Rightarrow> bytes" where
  "mil_f5 lib k opc rand = take 6 (milenage_out 0 1 lib k opc rand)"

definition mil_f5_star :: "ssl_lib \<Rightarrow> bytes \<Rightarrow> bytes \<Rightarrow> bytes \<Rightarrow> bytes" where
  "mil_f5_star lib k opc rand = take 6 (milenage_out 96 8 lib k opc rand)"

lemma length_constant16 [simp]: "length (constant16 c) = 16"
  by (simp add: constant16_def)

section \<open>The code computes TS 35.206\<close>

lemma length_zero16 [simp]: "length zero16 = 16"
  by (simp add: zero16_def)

lemma length_xor16 [simp]: "length (xor16 a b) = 16"
  by (simp add: xor16_def)

lemma xor16_xor_bytes: "length a = 16 \<Longrightarrow> length b = 16 \<Longrightarrow> xor16 a b = xor_bytes a b"
  by (rule nth_equalityI) (simp_all add: xor16_def fill_id)

lemma fill_rotate:
  assumes "length a = n" "length x = n" "r \<le> n"
  shows "fill n (\<lambda>i. (i + r) mod n) (\<lambda>i. x ! i) a = rotate (n - r) x"
proof (rule nth_equalityI)
  show "length (fill n (\<lambda>i. (i + r) mod n) (\<lambda>i. x ! i) a) = length (rotate (n - r) x)"
    using assms by simp
  fix j assume "j < length (fill n (\<lambda>i. (i + r) mod n) (\<lambda>i. x ! i) a)"
  then have j: "j < n" using assms by simp
  define i where "i = (j + (n - r)) mod n"
  have i: "i < n" "(i + r) mod n = j"
    using j assms(3) by (simp_all add: i_def mod_add_right_eq add.commute)
  have inj: "inj_on (\<lambda>i. (i + r) mod n) {..<n}"
  proof (rule inj_onI)
    fix a b assume ab: "a \<in> {..<n}" "b \<in> {..<n}" "(a + r) mod n = (b + r) mod n"
    have "(c + r) mod n = (if c + r < n then c + r else c + r - n)" if "c < n" for c
      using that assms(3) by (simp add: le_mod_geq)
    with ab show "a = b" using assms(3) by (auto split: if_splits)
  qed
  have "fill n (\<lambda>i. (i + r) mod n) (\<lambda>i. x ! i) a ! ((i + r) mod n) = x ! i"
    using i j assms by (intro nth_fill [OF inj]) simp_all
  then show "fill n (\<lambda>i. (i + r) mod n) (\<lambda>i. x ! i) a ! j = rotate (n - r) x ! j"
    using i j assms by (simp add: nth_rotate i_def add.commute)
qed

definition ecb_16 :: "ssl_lib \<Rightarrow> bool" where
  "ecb_16 lib \<longleftrightarrow> (\<forall>k b. length b = 16 \<longrightarrow> length (crypt_ecb lib k b) = 16)"

lemma ecb_16D [simp]: "ecb_16 lib \<Longrightarrow> length b = 16 \<Longrightarrow> length (crypt_ecb lib k b) = 16"
  by (simp add: ecb_16_def)

lemma f1_in1_concat:
  assumes "length sqn = 6" "length amf = 2"
  shows "f1_in1 sqn amf = sqn @ amf @ sqn @ amf"
proof -
  have "[sqn ! 0, sqn ! 1, sqn ! 2, sqn ! 3, sqn ! 4, sqn ! 5] = sqn" "[amf ! 0, amf ! 1] = amf"
    using assms by (auto intro!: nth_equalityI simp: less_Suc_eq numeral_eq_Suc)
  moreover have "f1_in1 sqn amf =
      [sqn ! 0, sqn ! 1, sqn ! 2, sqn ! 3, sqn ! 4, sqn ! 5] @ [amf ! 0, amf ! 1] @
      [sqn ! 0, sqn ! 1, sqn ! 2, sqn ! 3, sqn ! 4, sqn ! 5] @ [amf ! 0, amf ! 1]"
    by (simp add: f1_in1_def zero16_def fill_Suc numeral_eq_Suc)
  ultimately show ?thesis by simp
qed

lemma fill_xor_rotate:
  assumes "length a = 16" "length x = 16" "length y = 16" "r \<le> 16"
  shows "fill 16 (\<lambda>i. (i + r) mod 16) (\<lambda>i. x ! i XOR y ! i) a = rotate (16 - r) (xor_bytes x y)"
proof -
  have "fill 16 (\<lambda>i. (i + r) mod 16) (\<lambda>i. x ! i XOR y ! i) a = fill 16 (\<lambda>i. (i + r) mod 16) (\<lambda>i. xor_bytes x y ! i) a"
    unfolding fill_def using assms by (intro fold_cong) auto
  then show ?thesis using fill_rotate [of a 16 "xor_bytes x y" r] assms by simp
qed

lemma f1_out1_spec:
  assumes "ecb_16 lib" "length opc = 16" "length rand = 16" "length sqn = 6" "length amf = 2"
  shows "f1_out1 lib k opc rand sqn amf = milenage_out1 lib k opc rand sqn amf"
  using assms
  by (simp add: f1_out1_def milenage_out1_def milenage_temp_def Let_def f1_in1_concat fill_xor_rotate
      xor16_xor_bytes aes_crypt_ecb_def xor_bytes_commute)

lemma xor_constant16: "length x = 16 \<Longrightarrow> x[15 := x ! 15 XOR c] = xor_bytes x (constant16 c)"
  by (rule nth_equalityI) (auto simp: constant16_def nth_append nth_list_update)

lemma f2345_out_spec:
  assumes "ecb_16 lib" "length opc = 16" "length rand = 16" "length input = 16" "r \<le> 16"
  shows "f2345_out lib k opc (milenage_temp lib k opc rand) r c input
    = (milenage_out (8 * (16 - r)) c lib k opc rand, snd (f2345_out lib k opc (milenage_temp lib k opc rand) r c input))"
    "length (snd (f2345_out lib k opc (milenage_temp lib k opc rand) r c input)) = 16"
  using assms
  by (simp_all add: f2345_out_def milenage_out_def Let_def fill_xor_rotate xor16_xor_bytes
      aes_crypt_ecb_def xor_constant16 milenage_temp_def xor_bytes_commute)

lemma length_milenage [simp]:
  assumes "ecb_16 lib" "length opc = 16" "length rand = 16"
  shows "length (milenage_out r c lib k opc rand) = 16"
    and "length sqn = 6 \<Longrightarrow> length amf = 2 \<Longrightarrow> length (milenage_out1 lib k opc rand sqn amf) = 16"
  using assms by (simp_all add: milenage_out_def milenage_out1_def milenage_temp_def constant16_def)

lemma map_nth_take: "n \<le> length xs \<Longrightarrow> map (\<lambda>i. xs ! i) [0..<n] = take n xs"
  and map_nth_drop: "m + n = length xs \<Longrightarrow> map (\<lambda>i. xs ! (i + m)) [0..<n] = drop m xs"
  by (auto intro!: nth_equalityI simp: add.commute)

lemma milenage_f1_eq:
  assumes "ecb_16 lib" "length opc = 16" "length rand = 16" "length sqn = 6" "length amf = 2"
  shows "security_milenage_f1 lib (Some k) (Some opc) (Some rand) (Some sqn) (Some amf) (Some b)
      = (LIBLTE_SUCCESS, Some (put b (mil_f1 lib k opc rand sqn amf)))"
    and "security_milenage_f1_star lib (Some k) (Some opc) (Some rand) (Some sqn) (Some amf) (Some b)
      = (LIBLTE_SUCCESS, Some (put b (mil_f1_star lib k opc rand sqn amf)))"
  using assms
  by (simp_all add: security_milenage_f1_def liblte_security_milenage_f1_def security_milenage_f1_star_def
      liblte_security_milenage_f1_star_def f1_out1_spec map_nth_take map_nth_drop mil_f1_def mil_f1_star_def)

lemma milenage_f2345_eq:
  assumes "ecb_16 lib" "length opc = 16" "length rand = 16"
  shows "security_milenage_f2345 lib (Some k) (Some opc) (Some rand) (Some b1) (Some b2) (Some b3) (Some b4)
      = (LIBLTE_SUCCESS, Some (put b1 (mil_f2 lib k opc rand)), Some (put b2 (mil_f3 lib k opc rand)),
         Some (put b3 (mil_f4 lib k opc rand)), Some (put b4 (mil_f5 lib k opc rand)))"
proof -
  have t: "aes_crypt_ecb lib k (xor16 rand opc) = milenage_temp lib k opc rand"
    using assms by (simp add: milenage_temp_def aes_crypt_ecb_def xor16_xor_bytes)
  note out = f2345_out_spec [OF assms, where k = k]
  have rot: "milenage_out 128 c lib k opc rand = milenage_out 0 c lib k opc rand" for c
    using assms by (simp add: milenage_out_def milenage_temp_def rotate_conv_mod [of 16])
  show ?thesis
    unfolding security_milenage_f2345_def liblte_security_milenage_f2345_def option.case prod.case Let_def t
    apply (subst out(1), simp, simp)
    apply (simp only: prod.case)
    apply (subst out(1), simp add: out(2), simp)
    apply (simp only: prod.case)
    apply (subst out(1), simp add: out(2), simp)
    using assms by (simp add: map_nth_take map_nth_drop mil_f2_def mil_f3_def mil_f4_def mil_f5_def rot)
qed

lemma milenage_f5_star_eq:
  assumes "ecb_16 lib" "length opc = 16" "length rand = 16"
  shows "security_milenage_f5_star lib (Some k) (Some opc) (Some rand) (Some b)
      = (LIBLTE_SUCCESS, Some (put b (mil_f5_star lib k opc rand)))"
proof -
  have t: "aes_crypt_ecb lib k (xor16 rand opc) = milenage_temp lib k opc rand"
    using assms by (simp add: milenage_temp_def aes_crypt_ecb_def xor16_xor_bytes)
  have "fst (f2345_out lib k opc (milenage_temp lib k opc rand) 4 8 (xor16 rand opc)) = milenage_out 96 8 lib k opc rand"
    by (subst f2345_out_spec(1)) (simp_all add: assms)
  then show ?thesis
    using assms by (simp add: security_milenage_f5_star_def liblte_security_milenage_f5_star_def t split_beta
        map_nth_take mil_f5_star_def)
qed

lemma compute_opc_eq:
  assumes "ecb_16 lib" "length op = 16"
  shows "compute_opc lib (Some k) (Some op) (Some b)
    = (LIBLTE_SUCCESS, Some (put b (xor_bytes (crypt_ecb lib k op) op)))"
  using assms by (simp add: compute_opc_def liblte_compute_opc_def xor16_xor_bytes aes_crypt_ecb_def)

lemma sample_ecb_16: "ecb_16 (sample_ssl\<lparr>crypt_ecb := \<lambda>k b. rotate 1 b\<rparr>)"
  by (simp add: ecb_16_def)

section \<open>Properties\<close>

text \<open>
  Claim C20. For every block cipher, the functions compute Milenage as TS 35.206 defines it: f1 and
  f1* the two halves of OUT1, f2 and f5 of OUT2, f3, f4 and f5* from OUT3, OUT4 and OUT5, with
  the rotations 64, 0, 32, 64, 96 and the constants 0, 1, 2, 4, 8; and OPc = E(OP) XOR OP.
\<close>

theorem milenage_spec:
  assumes "ecb_16 lib" "length opc = 16" "length rand = 16" "length sqn = 6" "length amf = 2"
  shows "security_milenage_f1 lib (Some k) (Some opc) (Some rand) (Some sqn) (Some amf) (Some b)
      = (LIBLTE_SUCCESS, Some (put b (mil_f1 lib k opc rand sqn amf))) \<and>
    security_milenage_f1_star lib (Some k) (Some opc) (Some rand) (Some sqn) (Some amf) (Some b)
      = (LIBLTE_SUCCESS, Some (put b (mil_f1_star lib k opc rand sqn amf))) \<and>
    security_milenage_f2345 lib (Some k) (Some opc) (Some rand) (Some b1) (Some b2) (Some b3) (Some b4)
      = (LIBLTE_SUCCESS, Some (put b1 (mil_f2 lib k opc rand)), Some (put b2 (mil_f3 lib k opc rand)),
         Some (put b3 (mil_f4 lib k opc rand)), Some (put b4 (mil_f5 lib k opc rand))) \<and>
    security_milenage_f5_star lib (Some k) (Some opc) (Some rand) (Some b)
      = (LIBLTE_SUCCESS, Some (put b (mil_f5_star lib k opc rand))) \<and>
    compute_opc lib (Some k) (Some opc) (Some b)
      = (LIBLTE_SUCCESS, Some (put b (xor_bytes (crypt_ecb lib k opc) opc)))"
  using milenage_f1_eq [OF assms] milenage_f2345_eq [OF assms(1-3)] milenage_f5_star_eq [OF assms(1-3)]
    compute_opc_eq [OF assms(1,2)] by simp

theorem milenage_spec_witness:
  "let lib = sample_ssl\<lparr>crypt_ecb := \<lambda>k b. rotate 1 b\<rparr>;
       k = replicate 16 1; opc = replicate 16 2; rand = [0, 1, 2, 3, 4, 5, 6, 7, 8, 9, 10, 11, 12, 13, 14, 15]
   in security_milenage_f1 lib (Some k) (Some opc) (Some rand) (Some [1, 2, 3, 4, 5, 6]) (Some [9, 8])
        (Some (replicate 8 0))
      = (LIBLTE_SUCCESS, Some (put (replicate 8 0) (mil_f1 lib k opc rand [1, 2, 3, 4, 5, 6] [9, 8])))"
  unfolding Let_def
  by (rule milenage_spec [THEN conjunct1], rule sample_ecb_16) simp_all

end
