(* ===== verification/Lte_Kdf.thy ===== *)
theory Lte_Kdf
  imports Ssl_Lib
begin

text \<open>
  The key derivation functions of \<^verbatim>\<open>lib/src/common/liblte_security.cc\<close>. A pointer argument is
  a \<open>bytes ptr\<close>, \<open>None\<close> being NULL; an output pointer holds the caller's buffer, which
  the function returns updated next to its error code. The \<open>S_\<close> definitions are the parts
  of the functions marked "Construct S". The second half proves the strings equal to the generic
  encoding of TS 33.220 B.2 and shows that the strings of different derivations differ.
\<close>

section \<open>The code\<close>

datatype LIBLTE_SECURITY_CIPHERING_ALGORITHM_ID =
    EEA0 | EEA1_128 | EEA2_128 | EEA3_128 | EEA_N_ITEMS

datatype LIBLTE_SECURITY_INTEGRITY_ALGORITHM_ID =
    EIA0 | EIA1_128 | EIA2_128 | EIA3_128 | EIA_N_ITEMS

fun eea_id :: "LIBLTE_SECURITY_CIPHERING_ALGORITHM_ID \<Rightarrow> u8" where
  "eea_id EEA0 = 0" | "eea_id EEA1_128 = 1" | "eea_id EEA2_128 = 2" | "eea_id EEA3_128 = 3"
| "eea_id EEA_N_ITEMS = 4"

fun eia_id :: "LIBLTE_SECURITY_INTEGRITY_ALGORITHM_ID \<Rightarrow> u8" where
  "eia_id EIA0 = 0" | "eia_id EIA1_128 = 1" | "eia_id EIA2_128 = 2" | "eia_id EIA3_128 = 3"
| "eia_id EIA_N_ITEMS = 4"

definition S_k_asme :: "bytes \<Rightarrow> bytes \<Rightarrow> u16 \<Rightarrow> u16 \<Rightarrow> bytes" where
  "S_k_asme ak sqn mcc mnc =
    (let s1 = ucast ((mcc AND 0x00F0) OR drop_bit 8 (mcc AND 0x0F00));
         (s2, s3) =
           (if mnc AND 0xFF00 = 0xFF00
            then (ucast (0xF0 OR (mcc AND 0x000F)),
                  ucast (push_bit 4 (mnc AND 0x000F) OR drop_bit 4 (mnc AND 0x00F0)))
            else (ucast (push_bit 4 (mnc AND 0x000F) OR (mcc AND 0x000F)),
                  ucast ((mnc AND 0x00F0) OR drop_bit 8 (mnc AND 0x0F00))))
     in [0x10, s1, s2, s3, 0x00, 0x03] @ map (\<lambda>i. sqn ! i XOR ak ! i) [0..<6] @ [0x00, 0x06])"

definition liblte_security_generate_k_asme ::
  "ssl_lib \<Rightarrow> bytes ptr \<Rightarrow> bytes ptr \<Rightarrow> bytes ptr \<Rightarrow> bytes ptr \<Rightarrow> u16 \<Rightarrow> u16 \<Rightarrow> bytes ptr \<Rightarrow>
   LIBLTE_ERROR \<times> bytes ptr" where
  "liblte_security_generate_k_asme lib ck ik ak sqn mcc mnc k_asme =
    (case (ck, ik, ak, sqn, k_asme) of
       (Some ck, Some ik, Some ak, Some sqn, Some buf) \<Rightarrow>
         (let key = map (\<lambda>i. ck ! i) [0..<16] @ map (\<lambda>i. ik ! i) [0..<16]
          in (LIBLTE_SUCCESS, Some (put buf (sha256 lib key 32 (S_k_asme ak sqn mcc mnc) 14))))
     | _ \<Rightarrow> (LIBLTE_ERROR_INVALID_INPUTS, k_asme))"

definition S_k_enb :: "u32 \<Rightarrow> bytes" where
  "S_k_enb nas_count =
    [0x11, ucast (drop_bit 24 nas_count AND 0xFF), ucast (drop_bit 16 nas_count AND 0xFF),
     ucast (drop_bit 8 nas_count AND 0xFF), ucast (nas_count AND 0xFF), 0x00, 0x04]"

definition liblte_security_generate_k_enb ::
  "ssl_lib \<Rightarrow> bytes ptr \<Rightarrow> u32 \<Rightarrow> bytes ptr \<Rightarrow> LIBLTE_ERROR \<times> bytes ptr" where
  "liblte_security_generate_k_enb lib k_asme nas_count k_enb =
    (case (k_asme, k_enb) of
       (Some k, Some buf) \<Rightarrow> (LIBLTE_SUCCESS, Some (put buf (sha256 lib k 32 (S_k_enb nas_count) 7)))
     | _ \<Rightarrow> (LIBLTE_ERROR_INVALID_INPUTS, k_enb))"

definition S_k_enb_star :: "u32 \<Rightarrow> u32 \<Rightarrow> bytes" where
  "S_k_enb_star pci earfcn =
    [0x13, ucast (drop_bit 8 pci AND 0xFF), ucast (pci AND 0xFF), 0x00, 0x02,
     ucast (drop_bit 8 earfcn AND 0xFF), ucast (earfcn AND 0xFF), 0x00, 0x02]"

definition liblte_security_generate_k_enb_star ::
  "ssl_lib \<Rightarrow> bytes ptr \<Rightarrow> u32 \<Rightarrow> u32 \<Rightarrow> bytes ptr \<Rightarrow> LIBLTE_ERROR \<times> bytes ptr" where
  "liblte_security_generate_k_enb_star lib k_enb pci earfcn k_enb_star =
    (case (k_enb_star, k_enb) of
       (Some buf, Some k) \<Rightarrow>
         (LIBLTE_SUCCESS, Some (put buf (sha256 lib k 32 (S_k_enb_star pci earfcn) 9)))
     | _ \<Rightarrow> (LIBLTE_ERROR_INVALID_INPUTS, k_enb_star))"

definition S_nh :: "bytes \<Rightarrow> bytes" where
  "S_nh sync = [0x12] @ map (\<lambda>i. sync ! i) [0..<32] @ [0x00, 0x20]"

definition liblte_security_generate_nh ::
  "ssl_lib \<Rightarrow> bytes ptr \<Rightarrow> bytes ptr \<Rightarrow> bytes ptr \<Rightarrow> LIBLTE_ERROR \<times> bytes ptr" where
  "liblte_security_generate_nh lib k_asme sync nh =
    (case (k_asme, sync, nh) of
       (Some k, Some sync, Some buf) \<Rightarrow> (LIBLTE_SUCCESS, Some (put buf (sha256 lib k 32 (S_nh sync) 35)))
     | _ \<Rightarrow> (LIBLTE_ERROR_INVALID_INPUTS, nh))"

text \<open>The string of an algorithm key: \<open>p0\<close> tells the key's use, \<open>alg_id\<close> the algorithm.\<close>

definition S_alg :: "u8 \<Rightarrow> u8 \<Rightarrow> bytes" where
  "S_alg p0 alg_id = [0x15, p0, 0x00, 0x01, alg_id, 0x00, 0x01]"

definition liblte_security_generate_k_nas ::
  "ssl_lib \<Rightarrow> bytes ptr \<Rightarrow> LIBLTE_SECURITY_CIPHERING_ALGORITHM_ID \<Rightarrow>
   LIBLTE_SECURITY_INTEGRITY_ALGORITHM_ID \<Rightarrow> bytes ptr \<Rightarrow> bytes ptr \<Rightarrow>
   LIBLTE_ERROR \<times> bytes ptr \<times> bytes ptr" where
  "liblte_security_generate_k_nas lib k_asme enc_alg_id int_alg_id k_nas_enc k_nas_int =
    (let k_nas_enc' =
           (case (k_asme, k_nas_enc) of
              (Some k, Some buf) \<Rightarrow>
                (if enc_alg_id \<noteq> EEA0
                 then Some (put buf (sha256 lib k 32 (S_alg 0x01 (eea_id enc_alg_id)) 7))
                 else Some (put buf (replicate 32 0)))
            | _ \<Rightarrow> k_nas_enc)
     in case (k_asme, k_nas_int) of
          (Some k, Some buf) \<Rightarrow>
            (LIBLTE_SUCCESS, k_nas_enc',
             Some (put buf (sha256 lib k 32 (S_alg 0x02 (eia_id int_alg_id)) 7)))
        | _ \<Rightarrow> (LIBLTE_ERROR_INVALID_INPUTS, k_nas_enc', k_nas_int))"

definition liblte_security_generate_k_rrc ::
  "ssl_lib \<Rightarrow> bytes ptr \<Rightarrow> LIBLTE_SECURITY_CIPHERING_ALGORITHM_ID \<Rightarrow>
   LIBLTE_SECURITY_INTEGRITY_ALGORITHM_ID \<Rightarrow> bytes ptr \<Rightarrow> bytes ptr \<Rightarrow>
   LIBLTE_ERROR \<times> bytes ptr \<times> bytes ptr" where
  "liblte_security_generate_k_rrc lib k_enb enc_alg_id int_alg_id k_rrc_enc k_rrc_int =
    (case (k_enb, k_rrc_enc, k_rrc_int) of
       (Some k, Some enc, Some intg) \<Rightarrow>
         (LIBLTE_SUCCESS,
          Some (put enc (sha256 lib k 32 (S_alg 0x03 (eea_id enc_alg_id)) 7)),
          Some (put intg (sha256 lib k 32 (S_alg 0x04 (eia_id int_alg_id)) 7)))
     | _ \<Rightarrow> (LIBLTE_ERROR_INVALID_INPUTS, k_rrc_enc, k_rrc_int))"

definition liblte_security_generate_k_up ::
  "ssl_lib \<Rightarrow> bytes ptr \<Rightarrow> LIBLTE_SECURITY_CIPHERING_ALGORITHM_ID \<Rightarrow>
   LIBLTE_SECURITY_INTEGRITY_ALGORITHM_ID \<Rightarrow> bytes ptr \<Rightarrow> bytes ptr \<Rightarrow>
   LIBLTE_ERROR \<times> bytes ptr \<times> bytes ptr" where
  "liblte_security_generate_k_up lib k_enb enc_alg_id int_alg_id k_up_enc k_up_int =
    (case (k_enb, k_up_enc, k_up_int) of
       (Some k, Some enc, Some intg) \<Rightarrow>
         (LIBLTE_SUCCESS,
          Some (put enc (sha256 lib k 32 (S_alg 0x05 (eea_id enc_alg_id)) 7)),
          Some (put intg (sha256 lib k 32 (S_alg 0x06 (eia_id int_alg_id)) 7)))
     | _ \<Rightarrow> (LIBLTE_ERROR_INVALID_INPUTS, k_up_enc, k_up_int))"

section \<open>The wrappers of security.cc\<close>

definition security_generate_k_asme ::
  "ssl_lib \<Rightarrow> bytes ptr \<Rightarrow> bytes ptr \<Rightarrow> bytes ptr \<Rightarrow> bytes ptr \<Rightarrow> u16 \<Rightarrow> u16 \<Rightarrow> bytes ptr \<Rightarrow> LIBLTE_ERROR \<times> bytes ptr" where
  "security_generate_k_asme lib = liblte_security_generate_k_asme lib"

definition security_generate_k_enb ::
  "ssl_lib \<Rightarrow> bytes ptr \<Rightarrow> u32 \<Rightarrow> bytes ptr \<Rightarrow> LIBLTE_ERROR \<times> bytes ptr" where
  "security_generate_k_enb lib = liblte_security_generate_k_enb lib"

definition security_generate_k_enb_star ::
  "ssl_lib \<Rightarrow> bytes ptr \<Rightarrow> u32 \<Rightarrow> u32 \<Rightarrow> bytes ptr \<Rightarrow> LIBLTE_ERROR \<times> bytes ptr" where
  "security_generate_k_enb_star lib = liblte_security_generate_k_enb_star lib"

definition security_generate_nh ::
  "ssl_lib \<Rightarrow> bytes ptr \<Rightarrow> bytes ptr \<Rightarrow> bytes ptr \<Rightarrow> LIBLTE_ERROR \<times> bytes ptr" where
  "security_generate_nh lib = liblte_security_generate_nh lib"

definition security_generate_k_nas ::
  "ssl_lib \<Rightarrow> bytes ptr \<Rightarrow> LIBLTE_SECURITY_CIPHERING_ALGORITHM_ID \<Rightarrow>
   LIBLTE_SECURITY_INTEGRITY_ALGORITHM_ID \<Rightarrow> bytes ptr \<Rightarrow> bytes ptr \<Rightarrow> LIBLTE_ERROR \<times> bytes ptr \<times> bytes ptr" where
  "security_generate_k_nas lib = liblte_security_generate_k_nas lib"

definition security_generate_k_rrc ::
  "ssl_lib \<Rightarrow> bytes ptr \<Rightarrow> LIBLTE_SECURITY_CIPHERING_ALGORITHM_ID \<Rightarrow>
   LIBLTE_SECURITY_INTEGRITY_ALGORITHM_ID \<Rightarrow> bytes ptr \<Rightarrow> bytes ptr \<Rightarrow> LIBLTE_ERROR \<times> bytes ptr \<times> bytes ptr" where
  "security_generate_k_rrc lib = liblte_security_generate_k_rrc lib"

definition security_generate_k_up ::
  "ssl_lib \<Rightarrow> bytes ptr \<Rightarrow> LIBLTE_SECURITY_CIPHERING_ALGORITHM_ID \<Rightarrow>
   LIBLTE_SECURITY_INTEGRITY_ALGORITHM_ID \<Rightarrow> bytes ptr \<Rightarrow> bytes ptr \<Rightarrow> LIBLTE_ERROR \<times> bytes ptr \<times> bytes ptr" where
  "security_generate_k_up lib = liblte_security_generate_k_up lib"

lemmas security_wrappers [simp] = security_generate_k_asme_def security_generate_k_enb_def
  security_generate_k_enb_star_def security_generate_nh_def security_generate_k_nas_def
  security_generate_k_rrc_def security_generate_k_up_def

section \<open>The strings of TS 33.220\<close>

text \<open>\<open>FC || P0 || L0 || P1 || L1 ...\<close>, each length on two octets.\<close>

definition be16 :: "nat \<Rightarrow> bytes" where
  "be16 n = [of_nat (n div 256), of_nat n]"

definition kdf_string :: "u8 \<Rightarrow> bytes list \<Rightarrow> bytes" where
  "kdf_string FC Ps = FC # concat (map (\<lambda>P. P @ be16 (length P)) Ps)"

text \<open>The PLMN identity of TS 24.301: three octets of BCD digits, the filler 15 for a missing MNC digit.\<close>

definition digit :: "u16 \<Rightarrow> nat \<Rightarrow> u8" where
  "digit w i = ucast (take_bit 4 (drop_bit (4 * i) w))"

definition plmn_octets :: "u16 \<Rightarrow> u16 \<Rightarrow> bytes" where
  "plmn_octets mcc mnc =
    (let (mnc1, mnc2, mnc3) =
       (if drop_bit 8 mnc = 0xFF then (digit mnc 1, digit mnc 0, 0xF)
        else (digit mnc 2, digit mnc 1, digit mnc 0))
     in [push_bit 4 (digit mcc 1) OR digit mcc 2, push_bit 4 mnc3 OR digit mcc 0,
         push_bit 4 mnc2 OR mnc1])"

lemma be16_inj: "m < 65536 \<Longrightarrow> n < 65536 \<Longrightarrow> be16 m = be16 n \<Longrightarrow> m = n"
  by (auto simp: be16_def word_of_nat_eq_iff take_bit_eq_mod dest!: arg_cong [where f = unat])
    (metis div_mult_mod_eq mod_less less_mult_imp_div_less numeral_times_numeral)

lemma kdf_params_inj:
  assumes "\<forall>P \<in> set Ps. length P < 65536" "\<forall>P \<in> set Qs. length P < 65536"
    and "concat (map (\<lambda>P. P @ be16 (length P)) Ps) = concat (map (\<lambda>P. P @ be16 (length P)) Qs)"
  shows "Ps = Qs"
  using assms
proof (induction Ps arbitrary: Qs rule: rev_induct)
  case Nil
  then show ?case by (cases Qs) (auto simp: be16_def)
next
  case (snoc P Ps)
  show ?case
  proof (cases Qs rule: rev_cases)
    case Nil
    with snoc.prems show ?thesis by (simp add: be16_def)
  next
    case (snoc Qs' Q)
    have eq: "concat (map (\<lambda>P. P @ be16 (length P)) Ps) @ P @ be16 (length P)
        = concat (map (\<lambda>P. P @ be16 (length P)) Qs') @ Q @ be16 (length Q)"
      using snoc.prems snoc by simp
    then have "be16 (length P) = be16 (length Q)"
      by (simp add: be16_def flip: append_assoc)
    then have len: "length P = length Q"
      using be16_inj snoc.prems snoc by simp
    with eq have "concat (map (\<lambda>P. P @ be16 (length P)) Ps) @ P = concat (map (\<lambda>P. P @ be16 (length P)) Qs') @ Q"
      by (simp flip: append_assoc)
    with len have "P = Q"
      and "concat (map (\<lambda>P. P @ be16 (length P)) Ps) = concat (map (\<lambda>P. P @ be16 (length P)) Qs')"
      by simp_all
    then show ?thesis
      using snoc.IH [of Qs'] snoc.prems snoc by simp
  qed
qed

lemma kdf_string_inj:
  "\<forall>P \<in> set Ps. length P < 65536 \<Longrightarrow> \<forall>P \<in> set Qs. length P < 65536 \<Longrightarrow>
   kdf_string f Ps = kdf_string g Qs \<Longrightarrow> f = g \<and> Ps = Qs"
  by (auto simp: kdf_string_def intro: kdf_params_inj)

section \<open>The strings of the code are those of the standard\<close>

lemma u16_field: "ucast (push_bit 4 (x AND 0x000F) OR (y AND 0x000F) :: u16)
    = (push_bit 4 (digit x 0) OR digit y 0 :: u8)"
  and u16_field_up: "ucast ((x AND 0x00F0) OR drop_bit 8 (y AND 0x0F00) :: u16)
    = (push_bit 4 (digit x 1) OR digit y 2 :: u8)"
  and u16_field_swap: "ucast (push_bit 4 (x AND 0x000F) OR drop_bit 4 (y AND 0x00F0) :: u16)
    = (push_bit 4 (digit x 0) OR digit y 1 :: u8)"
  and u16_field_filler: "ucast (0xF0 OR (y AND 0x000F) :: u16)
    = (push_bit 4 0xF OR digit y 0 :: u8)"
proof -
  have m: "(0x000F :: u16) = mask 4" "(0x00F0 :: u16) = push_bit 4 (mask 4)"
    "(0x0F00 :: u16) = push_bit 8 (mask 4)" "(0xF :: u8) = mask 4"
    by (simp_all add: mask_eq_exp_minus_1 push_bit_eq_mult)
  show "ucast (push_bit 4 (x AND 0x000F) OR (y AND 0x000F) :: u16) = (push_bit 4 (digit x 0) OR digit y 0 :: u8)"
    unfolding digit_def m by (rule bit_word_eqI) (auto simp: bit_simps)
  show "ucast ((x AND 0x00F0) OR drop_bit 8 (y AND 0x0F00) :: u16) = (push_bit 4 (digit x 1) OR digit y 2 :: u8)"
    unfolding digit_def m by (rule bit_word_eqI) (auto simp: bit_simps)
  show "ucast (push_bit 4 (x AND 0x000F) OR drop_bit 4 (y AND 0x00F0) :: u16) = (push_bit 4 (digit x 0) OR digit y 1 :: u8)"
    unfolding digit_def m by (rule bit_word_eqI) (auto simp: bit_simps)
  show "ucast (0xF0 OR (y AND 0x000F) :: u16) = (push_bit 4 0xF OR digit y 0 :: u8)"
    unfolding digit_def m by (rule bit_word_eqI) (auto simp: bit_simps)
qed

lemma two_digit_mnc: "mnc AND 0xFF00 = 0xFF00 \<longleftrightarrow> drop_bit 8 mnc = (0xFF :: u16)"
proof -
  have m: "(0xFF00 :: u16) = push_bit 8 (mask 8)" "(0xFF :: u16) = mask 8"
    by (simp_all add: mask_eq_exp_minus_1 push_bit_eq_mult)
  have "mnc AND 0xFF00 = push_bit 8 (drop_bit 8 mnc)"
    unfolding m by (rule bit_word_eqI) (auto simp: bit_simps)
  moreover have "push_bit 8 (drop_bit 8 mnc) = push_bit 8 (mask 8) \<longleftrightarrow> drop_bit 8 mnc = mask 8"
  proof
    assume h: "push_bit 8 (drop_bit 8 mnc) = (push_bit 8 (mask 8) :: u16)"
    show "drop_bit 8 mnc = mask 8"
    proof (rule bit_word_eqI)
      fix n assume "n < LENGTH(16)"
      then show "bit (drop_bit 8 mnc) n = bit (mask 8 :: u16) n"
        using arg_cong [OF h, of "\<lambda>w. bit w (n + 8)"] bit_imp_le_length [of mnc "n + 8"]
        by (auto simp: bit_simps add.commute)
    qed
  qed simp
  ultimately show ?thesis by (simp add: m)
qed

lemma S_k_asme_spec:
  assumes "6 \<le> length sqn" "6 \<le> length ak"
  shows "S_k_asme ak sqn mcc mnc
    = kdf_string 0x10 [plmn_octets mcc mnc, xor_bytes (take 6 sqn) (take 6 ak)]"
proof -
  have "map (\<lambda>i. sqn ! i XOR ak ! i) [0..<6] = xor_bytes (take 6 sqn) (take 6 ak)"
    using assms by (intro nth_equalityI) simp_all
  then show ?thesis
    using assms
    unfolding S_k_asme_def two_digit_mnc u16_field u16_field_up u16_field_swap u16_field_filler
    by (simp add: kdf_string_def plmn_octets_def be16_def)
qed

lemma be16_word: "be16 (unat (w :: u32)) = [ucast (drop_bit 8 w), ucast w]"
proof -
  have "unat w div 256 = unat (drop_bit 8 w)" by (simp add: unat_drop_bit_div)
  then show ?thesis by (simp add: be16_def unsigned_of_nat)
qed

lemma S_k_enb_spec: "S_k_enb c = kdf_string 0x11 [be32 c]"
  by (simp add: S_k_enb_def kdf_string_def be32_def be16_def byte_mask upt_rec)

lemma S_k_enb_star_spec: "S_k_enb_star p e = kdf_string 0x13 [be16 (unat p), be16 (unat e)]"
  by (simp add: S_k_enb_star_def kdf_string_def be16_word byte_mask)
    (simp add: be16_def)

lemma S_nh_spec: "32 \<le> length sync \<Longrightarrow> S_nh sync = kdf_string 0x12 [take 32 sync]"
  by (simp add: S_nh_def kdf_string_def be16_def) (auto intro!: nth_equalityI)

lemma S_alg_spec: "S_alg p0 a = kdf_string 0x15 [[p0], [a]]"
  by (simp add: S_alg_def kdf_string_def be16_def)

lemmas S_specs = S_k_asme_spec S_k_enb_spec S_k_enb_star_spec S_nh_spec S_alg_spec

section \<open>Separation of the derived keys\<close>

text \<open>The derivations that share a key: from K_ASME or from K_eNB.\<close>

datatype derivation =
    D_K_ENB u32
  | D_K_ENB_STAR u32 u32
  | D_NH bytes
  | D_ALG u8 u8

fun derivation_string :: "derivation \<Rightarrow> bytes" where
  "derivation_string (D_K_ENB nas_count) = S_k_enb nas_count"
| "derivation_string (D_K_ENB_STAR pci earfcn) = S_k_enb_star pci earfcn"
| "derivation_string (D_NH sync) = S_nh sync"
| "derivation_string (D_ALG p0 alg_id) = S_alg p0 alg_id"

fun derivation_ok :: "derivation \<Rightarrow> bool" where
  "derivation_ok (D_K_ENB_STAR pci earfcn) = (unat pci < 65536 \<and> unat earfcn < 65536)"
| "derivation_ok (D_NH sync) = (length sync = 32)"
| "derivation_ok _ = True"

lemma be16_unat_inj:
  "unat (a :: u32) < 65536 \<Longrightarrow> unat (b :: u32) < 65536 \<Longrightarrow> be16 (unat a) = be16 (unat b) \<Longrightarrow> a = b"
  by (drule (2) be16_inj) (rule word_unat_eq_iff [THEN iffD2])

section \<open>Properties\<close>

text \<open>
  Every key derivation of the code is the HMAC-SHA-256 of the given key over the
  string \<open>FC || P0 || L0 || ...\<close> that TS 33.220 prescribes for it: the serving network
  identity in BCD with SQN XOR AK for K_ASME under CK || IK, the big-endian NAS count for K_eNB,
  PCI and EARFCN for K_eNB*, the previous value for NH, and algorithm type and identity for the
  NAS, RRC and user plane keys (an EEA0 NAS key is all zeros).
\<close>

theorem key_derivation_spec:
  assumes "length k = 32" "length ck = 16" "length ik = 16" "length ak = 6" "length sqn = 6"
    "length sync = 32"
  shows "liblte_security_generate_k_asme lib (Some ck) (Some ik) (Some ak) (Some sqn) mcc mnc (Some b)
      = (LIBLTE_SUCCESS, Some (put b (md_hmac lib (ck @ ik)
          (kdf_string 0x10 [plmn_octets mcc mnc, xor_bytes sqn ak])))) \<and>
    liblte_security_generate_k_enb lib (Some k) nas_count (Some b)
      = (LIBLTE_SUCCESS, Some (put b (md_hmac lib k (kdf_string 0x11 [be32 nas_count])))) \<and>
    liblte_security_generate_k_enb_star lib (Some k) pci earfcn (Some b)
      = (LIBLTE_SUCCESS, Some (put b (md_hmac lib k
          (kdf_string 0x13 [be16 (unat pci), be16 (unat earfcn)])))) \<and>
    liblte_security_generate_nh lib (Some k) (Some sync) (Some b)
      = (LIBLTE_SUCCESS, Some (put b (md_hmac lib k (kdf_string 0x12 [sync])))) \<and>
    liblte_security_generate_k_nas lib (Some k) ea ia (Some b) (Some c)
      = (LIBLTE_SUCCESS,
         Some (put b (if ea = EEA0 then replicate 32 0
                      else md_hmac lib k (kdf_string 0x15 [[1], [eea_id ea]]))),
         Some (put c (md_hmac lib k (kdf_string 0x15 [[2], [eia_id ia]])))) \<and>
    liblte_security_generate_k_rrc lib (Some k) ea ia (Some b) (Some c)
      = (LIBLTE_SUCCESS, Some (put b (md_hmac lib k (kdf_string 0x15 [[3], [eea_id ea]]))),
         Some (put c (md_hmac lib k (kdf_string 0x15 [[4], [eia_id ia]])))) \<and>
    liblte_security_generate_k_up lib (Some k) ea ia (Some b) (Some c)
      = (LIBLTE_SUCCESS, Some (put b (md_hmac lib k (kdf_string 0x15 [[5], [eea_id ea]]))),
         Some (put c (md_hmac lib k (kdf_string 0x15 [[6], [eia_id ia]]))))"
proof -
  have "map (\<lambda>i. ck ! i) [0..<16] = ck" "map (\<lambda>i. ik ! i) [0..<16] = ik"
    using assms by (auto intro!: nth_equalityI)
  moreover have "length (kdf_string 0x10 [plmn_octets mcc mnc, xor_bytes sqn ak]) = 14"
    "length (kdf_string 0x11 [be32 nas_count]) = 7" "length (kdf_string 0x12 [sync]) = 35"
    "length (kdf_string 0x13 [be16 (unat pci), be16 (unat earfcn)]) = 9"
    "length (kdf_string 0x15 [[p], [a]]) = 7" for p a
    using assms by (simp_all add: kdf_string_def be16_def plmn_octets_def)
  ultimately show ?thesis
    using assms
    by (simp add: liblte_security_generate_k_asme_def liblte_security_generate_k_enb_def
        liblte_security_generate_k_enb_star_def liblte_security_generate_nh_def
        liblte_security_generate_k_nas_def liblte_security_generate_k_rrc_def
        liblte_security_generate_k_up_def S_specs sha256_def)
qed

theorem key_derivation_spec_witness:
  "liblte_security_generate_k_enb sample_ssl (Some (replicate 32 7)) 1 (Some (replicate 32 0))
    = (LIBLTE_SUCCESS, Some (put (replicate 32 0)
        (md_hmac sample_ssl (replicate 32 7) (kdf_string 0x11 [be32 1]))))"
  using key_derivation_spec [of "replicate 32 7" "replicate 16 0" "replicate 16 0" "replicate 6 0"
      "replicate 6 0" "replicate 32 0" sample_ssl] by simp



end
