(* ===== verification/Plmn.thy ===== *)
theory Plmn
  imports Prelude "HOL-Library.Char_ord"
begin

text \<open>
  PLMN identities: the BCD conversions of \<^verbatim>\<open>lib/include/srslte/common/bcd_helpers.h\<close> and the
  structure \<^verbatim>\<open>plmn_id_t\<close> of \<^verbatim>\<open>lib/include/srslte/interfaces/rrc_interface_types.h\<close>. A function
  that returns \<open>false\<close> and leaves its output alone returns \<open>None\<close>. A \<open>char\<close> is read through its
  code; characters from 128 on are digits neither as signed nor as unsigned values.
\<close>

section \<open>The code: bcd\_helpers.h\<close>

definition isdigit :: "char \<Rightarrow> bool" where
  "isdigit c \<longleftrightarrow> (of_char CHR ''0'' :: nat) \<le> of_char c \<and> (of_char c :: nat) \<le> of_char CHR ''9''"

definition digit_value :: "char \<Rightarrow> u8" where
  "digit_value c = of_char c - of_char CHR ''0''"

definition digit_char :: "u16 \<Rightarrow> char" where
  "digit_char d = char_of (unat d + of_char CHR ''0'')"

definition string_to_mcc :: "string \<Rightarrow> u16 option" where
  "string_to_mcc str =
    (if length str \<noteq> 3 then None
     else if \<not> isdigit (str ! 0) \<or> \<not> isdigit (str ! 1) \<or> \<not> isdigit (str ! 2) then None
     else Some (0xF000 OR push_bit 8 (ucast (digit_value (str ! 0))) OR
                push_bit 4 (ucast (digit_value (str ! 1))) OR ucast (digit_value (str ! 2))))"

definition mcc_to_string :: "u16 \<Rightarrow> string option" where
  "mcc_to_string mcc =
    (if mcc AND 0xF000 \<noteq> 0xF000 then None
     else Some [digit_char (drop_bit 8 (mcc AND 0x0F00)), digit_char (drop_bit 4 (mcc AND 0x00F0)),
                digit_char (mcc AND 0x000F)])"

definition bytes_to_mcc :: "bytes \<Rightarrow> u16" where
  "bytes_to_mcc bs = 0xF000 OR push_bit 8 (ucast (bs ! 0)) OR push_bit 4 (ucast (bs ! 1)) OR ucast (bs ! 2)"

definition mcc_to_bytes :: "u16 \<Rightarrow> bytes option" where
  "mcc_to_bytes mcc =
    (if mcc AND 0xF000 \<noteq> 0xF000 then None
     else Some [ucast (drop_bit 8 (mcc AND 0xF00)), ucast (drop_bit 4 (mcc AND 0x0F0)), ucast (mcc AND 0x00F)])"

definition mcc_bytes_to_string :: "bytes \<Rightarrow> string" where
  "mcc_bytes_to_string mcc_bytes =
    (case mcc_to_string (bytes_to_mcc mcc_bytes) of None \<Rightarrow> ''000'' | Some s \<Rightarrow> s)"

definition string_to_mnc :: "string \<Rightarrow> u16 option" where
  "string_to_mnc str =
    (if length str \<noteq> 3 \<and> length str \<noteq> 2 then None
     else if length str = 3 then
       (if \<not> isdigit (str ! 0) \<or> \<not> isdigit (str ! 1) \<or> \<not> isdigit (str ! 2) then None
        else Some (0xF000 OR push_bit 8 (ucast (digit_value (str ! 0))) OR
                   push_bit 4 (ucast (digit_value (str ! 1))) OR ucast (digit_value (str ! 2))))
     else
       (if \<not> isdigit (str ! 0) \<or> \<not> isdigit (str ! 1) then None
        else Some (0xFF00 OR push_bit 4 (ucast (digit_value (str ! 0))) OR ucast (digit_value (str ! 1)))))"

definition mnc_to_string :: "u16 \<Rightarrow> string option" where
  "mnc_to_string mnc =
    (if mnc AND 0xF000 \<noteq> 0xF000 then None
     else Some ((if mnc AND 0xFF00 \<noteq> 0xFF00 then [digit_char (drop_bit 8 (mnc AND 0x0F00))] else []) @
                [digit_char (drop_bit 4 (mnc AND 0x00F0)), digit_char (mnc AND 0x000F)]))"

text \<open>The result and \<open>*mnc\<close>.\<close>

definition bytes_to_mnc :: "bytes \<Rightarrow> u8 \<Rightarrow> bool \<times> u16" where
  "bytes_to_mnc bs len =
    (if len \<noteq> 3 \<and> len \<noteq> 2 then (False, 0)
     else if len = 3 then
       (True, 0xF000 OR push_bit 8 (ucast (bs ! 0)) OR push_bit 4 (ucast (bs ! 1)) OR push_bit 0 (ucast (bs ! 2)))
     else (True, 0xFF00 OR push_bit 4 (ucast (bs ! 0)) OR push_bit 0 (ucast (bs ! 1))))"

text \<open>The octets written, whose number is \<open>*len\<close>; \<open>None\<close> is the failure, with \<open>*len = 0\<close>.\<close>

definition mnc_to_bytes :: "u16 \<Rightarrow> bytes option" where
  "mnc_to_bytes mnc =
    (if mnc AND 0xF000 \<noteq> 0xF000 then None
     else Some ((if mnc AND 0xFF00 \<noteq> 0xFF00 then [ucast (drop_bit 8 (mnc AND 0xF00))] else []) @
                [ucast (drop_bit 4 (mnc AND 0x00F0)), ucast (mnc AND 0x000F)]))"

definition mnc_bytes_to_string :: "bytes \<Rightarrow> u8 \<Rightarrow> string" where
  "mnc_bytes_to_string mnc_bytes nof_bytes =
    (case mnc_to_string (snd (bytes_to_mnc mnc_bytes nof_bytes)) of None \<Rightarrow> ''000'' | Some s \<Rightarrow> s)"

definition s1ap_plmn_to_mccmnc :: "u32 \<Rightarrow> u16 \<times> u16" where
  "s1ap_plmn_to_mccmnc plmn =
    (let n0 = drop_bit 20 (plmn AND 0xF00000); n1 = drop_bit 16 (plmn AND 0x0F0000);
         n2 = drop_bit 12 (plmn AND 0x00F000); n3 = drop_bit 8 (plmn AND 0x000F00);
         n4 = drop_bit 4 (plmn AND 0x0000F0); n5 = plmn AND 0x00000F;
         mcc = 0xF000 OR push_bit 8 (ucast n1) OR push_bit 4 (ucast n0) OR ucast n3;
         mnc = (if n2 = 0xF
                then 0xF000 OR 0x0F00 OR push_bit 4 (ucast n5) OR ucast n4
                else 0xF000 OR push_bit 8 (ucast n2) OR push_bit 4 (ucast n5) OR ucast n4)
     in (mcc, mnc))"

definition s1ap_mccmnc_to_plmn :: "u16 \<Rightarrow> u16 \<Rightarrow> u32" where
  "s1ap_mccmnc_to_plmn mcc mnc =
    (let n1 = drop_bit 8 (mcc AND 0x0F00); n0 = drop_bit 4 (mcc AND 0x00F0); n3 = mcc AND 0x000F;
         (n2, n5, n4) =
           (if mnc AND 0xFF00 = 0xFF00
            then (0x0F, drop_bit 4 (mnc AND 0x00F0), mnc AND 0x000F)
            else (drop_bit 8 (mnc AND 0x0F00), drop_bit 4 (mnc AND 0x00F0), mnc AND 0x000F))
     in push_bit 20 (ucast n0) OR push_bit 16 (ucast n1) OR push_bit 12 (ucast n2) OR
        push_bit 8 (ucast n3) OR push_bit 4 (ucast n4) OR ucast n5)"

section \<open>The code: plmn\_id\_t\<close>

record plmn_id =
  plmn_mcc :: bytes
  plmn_mnc :: bytes
  nof_mnc_digits :: u8

definition plmn_reset :: "plmn_id \<Rightarrow> plmn_id" where
  "plmn_reset p = p\<lparr>nof_mnc_digits := 0, plmn_mnc := replicate 3 0, plmn_mcc := replicate 3 0\<rparr>"

text \<open>The result is \<open>True\<close> for \<open>SRSLTE_SUCCESS\<close>.\<close>

definition plmn_from_number :: "plmn_id \<Rightarrow> u16 \<Rightarrow> u16 \<Rightarrow> bool \<times> plmn_id" where
  "plmn_from_number p mcc_num mnc_num =
    (let p = (case mcc_to_bytes mcc_num of None \<Rightarrow> p | Some bs \<Rightarrow> p\<lparr>plmn_mcc := put (plmn_mcc p) bs\<rparr>)
     in case mnc_to_bytes mnc_num of
          None \<Rightarrow> (False, plmn_reset p)
        | Some bs \<Rightarrow> (True, p\<lparr>plmn_mnc := put (plmn_mnc p) bs, nof_mnc_digits := of_nat (length bs)\<rparr>))"

definition plmn_to_number :: "plmn_id \<Rightarrow> u16 \<times> u16" where
  "plmn_to_number p = (bytes_to_mcc (plmn_mcc p), snd (bytes_to_mnc (plmn_mnc p) (nof_mnc_digits p)))"

definition plmn_to_s1ap_plmn :: "plmn_id \<Rightarrow> u32" where
  "plmn_to_s1ap_plmn p = (case plmn_to_number p of (mcc_num, mnc_num) \<Rightarrow> s1ap_mccmnc_to_plmn mcc_num mnc_num)"

text \<open>\<open>htonl\<close> and the last three of its four octets.\<close>

definition plmn_to_s1ap_plmn_bytes :: "plmn_id \<Rightarrow> bytes" where
  "plmn_to_s1ap_plmn_bytes p = drop 1 (be32 (plmn_to_s1ap_plmn p))"

definition plmn_from_string :: "plmn_id \<Rightarrow> string \<Rightarrow> bool \<times> plmn_id" where
  "plmn_from_string p plmn_str =
    (if length plmn_str < 5 \<or> 6 < length plmn_str then (False, plmn_reset p)
     else case string_to_mcc (take 3 plmn_str) of
       None \<Rightarrow> (False, plmn_reset p)
     | Some mcc_num \<Rightarrow>
         (case string_to_mnc (drop 3 plmn_str) of
            None \<Rightarrow> (False, plmn_reset p)
          | Some mnc_num \<Rightarrow> plmn_from_number p mcc_num mnc_num))"

definition plmn_to_string :: "plmn_id \<Rightarrow> string" where
  "plmn_to_string p =
    (let mnc_num = snd (bytes_to_mnc (plmn_mnc p) (nof_mnc_digits p));
         mcc_num = bytes_to_mcc (plmn_mcc p)
     in (case mcc_to_string mcc_num of None \<Rightarrow> [] | Some s \<Rightarrow> s) @
        (case mnc_to_string mnc_num of None \<Rightarrow> [] | Some s \<Rightarrow> s))"

definition plmn_eq :: "plmn_id \<Rightarrow> plmn_id \<Rightarrow> bool" where
  "plmn_eq p q \<longleftrightarrow> take 3 (plmn_mcc p) = take 3 (plmn_mcc q) \<and> nof_mnc_digits p = nof_mnc_digits q \<and>
    take (unat (nof_mnc_digits p)) (plmn_mnc p) = take (unat (nof_mnc_digits p)) (plmn_mnc q)"

definition plmn_is_valid :: "plmn_id \<Rightarrow> bool" where
  "plmn_is_valid p \<longleftrightarrow> nof_mnc_digits p = 2 \<or> nof_mnc_digits p = 3"

section \<open>Nibbles\<close>

definition nibbles16 :: "u16 \<Rightarrow> u16 \<Rightarrow> u16 \<Rightarrow> u16 \<Rightarrow> u16" where
  "nibbles16 a b c d = push_bit 12 a OR push_bit 8 b OR push_bit 4 c OR d"

definition nibble :: "'a::len word \<Rightarrow> bool" where
  "nibble w \<longleftrightarrow> take_bit 4 w = w"

lemma nibble_bit: "nibble w \<Longrightarrow> bit w n \<Longrightarrow> n < 4"
  unfolding nibble_def by (metis bit_take_bit_iff)

lemma masks16:
  "(0x000F :: u16) = mask 4" "(0x00F0 :: u16) = push_bit 4 (mask 4)" "(0x0F00 :: u16) = push_bit 8 (mask 4)"
  "(0xF000 :: u16) = push_bit 12 (mask 4)" "(0xFF00 :: u16) = push_bit 8 (mask 8)"
  by (simp_all add: mask_eq_exp_minus_1 push_bit_eq_mult)

lemma nibbles16_fields:
  assumes "nibble a" "nibble b" "nibble c" "nibble d"
  shows "nibbles16 a b c d AND 0x000F = d"
    and "drop_bit 4 (nibbles16 a b c d AND 0x00F0) = c"
    and "drop_bit 8 (nibbles16 a b c d AND 0x0F00) = b"
    and "nibbles16 a b c d AND 0xF000 = push_bit 12 a"
proof -
  note n = assms [THEN nibble_bit]
  show "nibbles16 a b c d AND 0x000F = d"
    unfolding nibbles16_def masks16 by (rule bit_word_eqI) (auto simp: bit_simps dest: n)
  show "drop_bit 4 (nibbles16 a b c d AND 0x00F0) = c"
    unfolding nibbles16_def masks16 by (rule bit_word_eqI) (auto simp: bit_simps dest: n)
  show "drop_bit 8 (nibbles16 a b c d AND 0x0F00) = b"
    unfolding nibbles16_def masks16 by (rule bit_word_eqI) (auto simp: bit_simps dest: n)
  show "nibbles16 a b c d AND 0xF000 = push_bit 12 a"
    unfolding nibbles16_def masks16 by (rule bit_word_eqI) (auto simp: bit_simps dest: n)
qed

lemma u16_nibbles:
  obtains a b c d where "w = nibbles16 a b c d" "nibble a" "nibble b" "nibble c" "nibble d"
proof
  show "w = nibbles16 (take_bit 4 (drop_bit 12 w)) (take_bit 4 (drop_bit 8 w)) (take_bit 4 (drop_bit 4 w)) (take_bit 4 w)"
    unfolding nibbles16_def
  proof (rule bit_word_eqI)
    fix n assume "n < LENGTH(16)"
    then show "bit w n = bit (push_bit 12 (take_bit 4 (drop_bit 12 w)) OR push_bit 8 (take_bit 4 (drop_bit 8 w)) OR
        push_bit 4 (take_bit 4 (drop_bit 4 w)) OR take_bit 4 w) n"
      by (cases "n < 4"; cases "n < 8"; cases "n < 12") (auto simp: bit_simps)
  qed
qed (simp_all add: nibble_def)

lemma nibble_15 [simp]: "nibble (0xF :: 'a::len word)"
proof -
  have "(0xF :: 'a word) = mask 4" by (simp add: mask_eq_exp_minus_1)
  then show ?thesis by (simp only: nibble_def) (rule bit_word_eqI, auto simp: bit_simps)
qed

lemma nibble_ucast: "nibble (w :: 'a::len word) \<Longrightarrow> nibble (ucast w :: 'b::len word)"
  unfolding nibble_def by (rule bit_word_eqI) (auto simp: bit_simps dest: nibble_bit [unfolded nibble_def])

lemma ucast_ucast_nibble: "nibble (w :: u16) \<Longrightarrow> ucast (ucast w :: u8) = w"
  by (rule bit_word_eqI) (auto simp: bit_simps dest: nibble_bit)

lemma ucast_ucast_16 [simp]: "ucast (ucast (w :: u16) :: u32) = w" "ucast (ucast (v :: u8) :: u16) = v"
  by (rule bit_word_eqI; auto simp: bit_simps)+

lemma push_bit_12_15: "push_bit 12 a = (0xF000 :: u16) \<longleftrightarrow> a = 0xF" if "nibble a"
proof
  assume eq: "push_bit 12 a = (0xF000 :: u16)"
  have F: "(0xF :: u16) = mask 4" by (simp add: mask_eq_exp_minus_1)
  show "a = 0xF"
    unfolding F
  proof (rule bit_word_eqI)
    fix n assume "n < LENGTH(16)"
    then show "bit a n = bit (mask 4 :: u16) n"
      using arg_cong [OF eq [unfolded masks16], of "\<lambda>w. bit w (12 + n)"] nibble_bit [OF that, of n]
      by (auto simp: bit_simps)
  qed
qed simp

lemma nibbles16_F000: "nibble a \<Longrightarrow> nibble b \<Longrightarrow> nibble c \<Longrightarrow> nibble d \<Longrightarrow>
    nibbles16 a b c d AND 0xF000 = 0xF000 \<longleftrightarrow> a = 0xF"
  by (simp only: nibbles16_fields push_bit_12_15)

lemma nibbles16_FF00:
  assumes "nibble b" "nibble c" "nibble d"
  shows "nibbles16 0xF b c d AND 0xFF00 = 0xFF00 \<longleftrightarrow> b = 0xF"
proof
  have F: "(0xF :: u16) = mask 4" by (simp add: mask_eq_exp_minus_1)
  note n = assms [THEN nibble_bit]
  show "b = 0xF" if eq: "nibbles16 0xF b c d AND 0xFF00 = 0xFF00"
    unfolding F
  proof (rule bit_word_eqI)
    fix k assume "k < LENGTH(16)"
    then show "bit b k = bit (mask 4 :: u16) k"
      using arg_cong [OF eq [unfolded masks16 F nibbles16_def], of "\<lambda>w. bit w (8 + k)"] n(1) [of k]
        n(2) [of "4 + k"] n(3) [of "8 + k"]
      by (auto simp: bit_simps)
  qed
  show "nibbles16 0xF b c d AND 0xFF00 = 0xFF00" if "b = 0xF"
    unfolding that nibbles16_def F masks16
    by (rule bit_word_eqI) (auto simp: bit_simps dest: n)
qed

lemma nibbles16_mcc: "0xF000 OR push_bit 8 a OR push_bit 4 b OR c = nibbles16 0xF a b c"
  by (simp add: nibbles16_def)

lemma nibbles16_mnc: "0xFF00 OR push_bit 4 b OR c = nibbles16 0xF 0xF b c"
  "0xF000 OR 0x0F00 OR push_bit 4 b OR c = nibbles16 0xF 0xF b c"
proof -
  have e: "push_bit 12 0xF OR push_bit 8 0xF = (0xFF00 :: u16)" by simp
  show "0xFF00 OR push_bit 4 b OR c = nibbles16 0xF 0xF b c"
    by (simp only: nibbles16_def e flip: or.assoc)
qed (simp add: nibbles16_def)

section \<open>The S1AP number\<close>

definition nibbles24 :: "u32 \<Rightarrow> u32 \<Rightarrow> u32 \<Rightarrow> u32 \<Rightarrow> u32 \<Rightarrow> u32 \<Rightarrow> u32" where
  "nibbles24 n0 n1 n2 n3 n4 n5 =
    push_bit 20 n0 OR push_bit 16 n1 OR push_bit 12 n2 OR push_bit 8 n3 OR push_bit 4 n4 OR n5"

lemma masks32:
  "(0x00000F :: u32) = mask 4" "(0x0000F0 :: u32) = push_bit 4 (mask 4)" "(0x000F00 :: u32) = push_bit 8 (mask 4)"
  "(0x00F000 :: u32) = push_bit 12 (mask 4)" "(0x0F0000 :: u32) = push_bit 16 (mask 4)"
  "(0xF00000 :: u32) = push_bit 20 (mask 4)"
  by (simp_all add: mask_eq_exp_minus_1 push_bit_eq_mult)

lemma nibbles24_fields:
  assumes "nibble n0" "nibble n1" "nibble n2" "nibble n3" "nibble n4" "nibble n5"
  defines "w \<equiv> nibbles24 n0 n1 n2 n3 n4 n5"
  shows "drop_bit 20 (w AND 0xF00000) = n0" "drop_bit 16 (w AND 0x0F0000) = n1"
    "drop_bit 12 (w AND 0x00F000) = n2" "drop_bit 8 (w AND 0x000F00) = n3"
    "drop_bit 4 (w AND 0x0000F0) = n4" "w AND 0x00000F = n5"
  unfolding w_def nibbles24_def masks32
  by (rule bit_word_eqI; auto simp: bit_simps dest: assms(1-6) [THEN nibble_bit])+

lemma mccmnc_to_plmn_nibbles:
  assumes "nibble a" "nibble b" "nibble c" "nibble e" "nibble f" "nibble g"
  shows "s1ap_mccmnc_to_plmn (nibbles16 0xF a b c) (nibbles16 0xF e f g)
    = nibbles24 (ucast b) (ucast a) (ucast e) (ucast c) (ucast g) (ucast f)"
proof (cases "e = 0xF")
  case True
  then show ?thesis
    using nibbles16_FF00 [of e f g] assms
    by (simp only: s1ap_mccmnc_to_plmn_def Let_def if_True prod.case nibble_15 nibbles16_fields nibbles24_def)
      simp
next
  case False
  then show ?thesis
    using nibbles16_FF00 [of e f g] assms
    by (simp only: s1ap_mccmnc_to_plmn_def Let_def if_False prod.case nibble_15 nibbles16_fields nibbles24_def)
qed

lemma plmn_to_mccmnc_nibbles:
  assumes "nibble n0" "nibble n1" "nibble n2" "nibble n3" "nibble n4" "nibble n5"
  shows "s1ap_plmn_to_mccmnc (nibbles24 n0 n1 n2 n3 n4 n5)
    = (nibbles16 0xF (ucast n1) (ucast n0) (ucast n3), nibbles16 0xF (ucast n2) (ucast n5) (ucast n4))"
  using assms
  by (cases "n2 = 0xF")
    (simp_all only: s1ap_plmn_to_mccmnc_def Let_def nibbles24_fields nibbles16_mcc nibbles16_mnc if_True if_False, simp_all)

lemma s1ap_roundtrip:
  assumes "u AND 0xF000 = 0xF000" "v AND 0xF000 = 0xF000"
  shows "s1ap_plmn_to_mccmnc (s1ap_mccmnc_to_plmn u v) = (u, v)"
proof -
  obtain x a b c where m: "u = nibbles16 x a b c" "nibble x" "nibble a" "nibble b" "nibble c"
    by (rule u16_nibbles)
  obtain y e f g where n: "v = nibbles16 y e f g" "nibble y" "nibble e" "nibble f" "nibble g"
    by (rule u16_nibbles)
  have "x = 0xF" "y = 0xF"
    using assms nibbles16_F000 [OF m(2-5)] nibbles16_F000 [OF n(2-5)] by (simp_all add: m(1) n(1))
  then show ?thesis
    using m n by (simp add: mccmnc_to_plmn_nibbles plmn_to_mccmnc_nibbles nibble_ucast)
qed

section \<open>Octets and strings\<close>

text \<open>The S1AP octets of TS 36.413 9.2.3.8: two digits per octet, the filler or the first MNC digit fourth.\<close>

definition s1ap_octets :: "bytes \<Rightarrow> bytes \<Rightarrow> bytes" where
  "s1ap_octets cs ns =
    (let ds = cs @ (if length ns = 2 then 0xF # ns else ns)
     in map (\<lambda>i. push_bit 4 (ds ! (2 * i + 1)) OR ds ! (2 * i)) [0..<3])"

lemma nibbles24_octets:
  assumes "nibble n0" "nibble n1" "nibble n2" "nibble n3" "nibble n4" "nibble n5"
  shows "drop 1 (be32 (nibbles24 (ucast n0) (ucast n1) (ucast n2) (ucast n3) (ucast n4) (ucast n5)))
    = [push_bit 4 n0 OR n1, push_bit 4 n2 OR n3, push_bit 4 n4 OR (n5 :: u8)]"
proof -
  note n = assms [THEN nibble_bit]
  have "ucast (drop_bit 16 (nibbles24 (ucast n0) (ucast n1) (ucast n2) (ucast n3) (ucast n4) (ucast n5))) = push_bit 4 n0 OR n1"
    "ucast (drop_bit 8 (nibbles24 (ucast n0) (ucast n1) (ucast n2) (ucast n3) (ucast n4) (ucast n5))) = push_bit 4 n2 OR n3"
    "ucast (nibbles24 (ucast n0) (ucast n1) (ucast n2) (ucast n3) (ucast n4) (ucast n5)) = push_bit 4 n4 OR n5"
    unfolding nibbles24_def
    by (rule bit_word_eqI; auto simp: bit_simps dest: n)+
  then show ?thesis by (simp add: be32_def upt_rec)
qed

lemma isdigitE:
  assumes "isdigit c"
  obtains d where "d \<le> 9" "of_char c = d + 48" "digit_value c = of_nat d"
proof
  have b: "48 \<le> (of_char c :: nat)" "(of_char c :: nat) \<le> 57"
    using assms by (simp_all add: isdigit_def)
  define d where "d = (of_char c :: nat) - 48"
  show "d \<le> 9" "of_char c = d + 48" using b by (simp_all add: d_def)
  have "(of_char c :: u8) = of_nat (of_char c)" by (simp only: of_nat_of_char)
  also have "... = of_nat d + 48" using b by (simp only: d_def) (simp add: of_nat_diff)
  finally show "digit_value c = of_nat d" by (simp add: digit_value_def)
qed

lemma upto9: "d \<le> (9 :: nat) \<Longrightarrow> d = 0 \<or> d = 1 \<or> d = 2 \<or> d = 3 \<or> d = 4 \<or> d = 5 \<or> d = 6 \<or> d = 7 \<or> d = 8 \<or> d = 9"
  by presburger

lemma digit_nibble: "d \<le> 9 \<Longrightarrow> nibble (of_nat d :: u8) \<and> unat (of_nat d :: u16) = d \<and> (of_nat d :: u16) \<noteq> 0xF"
  using upto9 [of d] by (auto simp: nibble_def)

lemma isdigit_facts:
  assumes "isdigit c"
  shows "nibble (digit_value c)" "digit_char (ucast (digit_value c)) = c" "(ucast (digit_value c) :: u16) \<noteq> 0xF"
proof -
  obtain d where d: "d \<le> 9" "of_char c = d + 48" "digit_value c = of_nat d"
    using assms by (rule isdigitE)
  have u: "(ucast (of_nat d :: u8) :: u16) = of_nat d"
    using upto9 [OF d(1)] by auto
  show "nibble (digit_value c)" "(ucast (digit_value c) :: u16) \<noteq> 0xF"
    using digit_nibble [OF d(1)] d(3) u by simp_all
  have "digit_char (ucast (digit_value c)) = char_of (of_char c :: nat)"
    using digit_nibble [OF d(1)] d u by (simp add: digit_char_def)
  then show "digit_char (ucast (digit_value c)) = c" by simp
qed

abbreviation dv :: "char \<Rightarrow> u16" where
  "dv c \<equiv> ucast (digit_value c)"

lemma mcc_to_bytes_nibbles:
  "nibble a \<Longrightarrow> nibble b \<Longrightarrow> nibble c \<Longrightarrow> mcc_to_bytes (nibbles16 0xF a b c) = Some [ucast a, ucast b, ucast c]"
  by (simp only: mcc_to_bytes_def nibbles16_F000 nibbles16_fields nibble_15 not_True_eq_False if_False) simp

lemma mcc_to_string_nibbles:
  "nibble a \<Longrightarrow> nibble b \<Longrightarrow> nibble c \<Longrightarrow>
   mcc_to_string (nibbles16 0xF a b c) = Some [digit_char a, digit_char b, digit_char c]"
  by (simp only: mcc_to_string_def nibbles16_F000 nibbles16_fields nibble_15 not_True_eq_False if_False) simp

lemma mnc_to_bytes_nibbles:
  "nibble a \<Longrightarrow> nibble b \<Longrightarrow> nibble c \<Longrightarrow>
   mnc_to_bytes (nibbles16 0xF a b c) = Some ((if a = 0xF then [] else [ucast a]) @ [ucast b, ucast c])"
  by (simp only: mnc_to_bytes_def nibbles16_F000 nibbles16_FF00 nibbles16_fields nibble_15 not_True_eq_False if_False) simp

lemma mnc_to_string_nibbles:
  "nibble a \<Longrightarrow> nibble b \<Longrightarrow> nibble c \<Longrightarrow>
   mnc_to_string (nibbles16 0xF a b c) = Some ((if a = 0xF then [] else [digit_char a]) @ [digit_char b, digit_char c])"
  by (simp only: mnc_to_string_def nibbles16_F000 nibbles16_FF00 nibbles16_fields nibble_15 not_True_eq_False if_False) simp

lemma from_number_nibbles:
  assumes "length (plmn_mcc p) = 3" "length (plmn_mnc p) = 3" "nibble (a :: u8)" "nibble (b :: u8)" "nibble (c :: u8)"
    "nibble (e :: u16)" "nibble (f :: u8)" "nibble (g :: u8)"
  shows "plmn_from_number p (nibbles16 0xF (ucast a) (ucast b) (ucast c)) (nibbles16 0xF e (ucast f) (ucast g))
    = (True, p\<lparr>plmn_mcc := [a, b, c],
        plmn_mnc := (if e = 0xF then [f, g] @ drop 2 (plmn_mnc p) else [ucast e, f, g]),
        nof_mnc_digits := (if e = 0xF then 2 else 3)\<rparr>)"
  using assms
  by (auto simp: plmn_from_number_def mcc_to_bytes_nibbles mnc_to_bytes_nibbles nibble_ucast put_def numeral_2_eq_2)


lemma string_to_mcc_digits:
  "string_to_mcc [x, y, z] = (if isdigit x \<and> isdigit y \<and> isdigit z then Some (nibbles16 0xF (dv x) (dv y) (dv z)) else None)"
  by (simp add: string_to_mcc_def nibbles16_mcc [simplified])

lemma string_to_mnc_digits:
  "string_to_mnc [x, y, z] = (if isdigit x \<and> isdigit y \<and> isdigit z then Some (nibbles16 0xF (dv x) (dv y) (dv z)) else None)"
  "string_to_mnc [y, z] = (if isdigit y \<and> isdigit z then Some (nibbles16 0xF 0xF (dv y) (dv z)) else None)"
  by (simp_all add: string_to_mnc_def nibbles16_mcc [simplified] nibbles16_mnc [simplified])

text \<open>The identity stored for a string of digits.\<close>

definition plmn_of_digits :: "plmn_id \<Rightarrow> string \<Rightarrow> plmn_id" where
  "plmn_of_digits p s =
    p\<lparr>plmn_mcc := map digit_value (take 3 s), plmn_mnc := put (plmn_mnc p) (map digit_value (drop 3 s)),
      nof_mnc_digits := of_nat (length s - 3)\<rparr>"

lemma from_string_digits:
  assumes "length (plmn_mcc p) = 3" "length (plmn_mnc p) = 3" "length s = 5 \<or> length s = 6"
  shows "plmn_from_string p s = (if \<forall>c \<in> set s. isdigit c then (True, plmn_of_digits p s) else (False, plmn_reset p))"
proof -
  consider (five) a b c x y where "s = [a, b, c, x, y]" | (six) a b c x y z where "s = [a, b, c, x, y, z]"
    using assms(3) by (auto simp: length_Suc_conv numeral_eq_Suc)
  then show ?thesis
  proof cases
    case five
    then show ?thesis
      using from_number_nibbles [OF assms(1,2), of "digit_value a" "digit_value b" "digit_value c" "0xF"
          "digit_value x" "digit_value y"]
      by (auto simp: plmn_from_string_def string_to_mcc_digits string_to_mnc_digits isdigit_facts
          plmn_of_digits_def put_def numeral_2_eq_2)
  next
    case six
    then show ?thesis
      using from_number_nibbles [OF assms(1,2), of "digit_value a" "digit_value b" "digit_value c" "dv x"
          "digit_value y" "digit_value z"]
      by (auto simp: plmn_from_string_def string_to_mcc_digits string_to_mnc_digits isdigit_facts
          plmn_of_digits_def put_def nibble_ucast assms)
  qed
qed

lemma to_string_digits:
  assumes "length (plmn_mnc p) = 3" "length s = 5 \<or> length s = 6" "\<forall>c \<in> set s. isdigit c"
  shows "plmn_to_string (plmn_of_digits p s) = s"
proof -
  consider (five) a b c x y where "s = [a, b, c, x, y]" | (six) a b c x y z where "s = [a, b, c, x, y, z]"
    using assms(2) by (auto simp: length_Suc_conv numeral_eq_Suc)
  then show ?thesis
    using assms(1,3)
    by cases
      (simp_all add: plmn_to_string_def plmn_of_digits_def put_def bytes_to_mcc_def bytes_to_mnc_def
        nibbles16_mcc [simplified] nibbles16_mnc [simplified] mcc_to_string_nibbles mnc_to_string_nibbles
        isdigit_facts nibble_ucast)
qed


lemma to_number_octets:
  assumes "plmn_to_number p = (nibbles16 0xF (ucast a) (ucast b) (ucast c), nibbles16 0xF e (ucast f) (ucast g))"
    "nibble (a :: u8)" "nibble (b :: u8)" "nibble (c :: u8)" "nibble (e :: u16)" "nibble (f :: u8)" "nibble (g :: u8)"
  shows "plmn_to_s1ap_plmn_bytes p = [push_bit 4 b OR a, push_bit 4 (ucast e) OR c, push_bit 4 g OR f]"
proof -
  have u: "(ucast (ucast (w :: u8) :: u16) :: u32) = ucast w" for w
    by (rule bit_word_eqI) (auto simp: bit_simps dest: bit_imp_le_length)
  have e: "(ucast e :: u32) = ucast (ucast e :: u8)"
    by (rule bit_word_eqI) (use nibble_bit [OF assms(5)] in \<open>fastforce simp: bit_simps\<close>)
  show ?thesis
    using assms nibbles24_octets [of b a "ucast e" c g f]
    by (simp add: plmn_to_s1ap_plmn_bytes_def plmn_to_s1ap_plmn_def mccmnc_to_plmn_nibbles nibble_ucast u e [symmetric])
qed

section \<open>Properties\<close>

text \<open>
  Claim C29. \<open>from_string\<close> accepts exactly the strings of five or six decimal digits. What it stores is
  valid and \<open>to_string\<close> prints the string again, leading zeros and the length of the MNC included;
  any other string resets the identity, which is then not valid.
\<close>

theorem plmn_string_roundtrip:
  assumes "length (plmn_mcc p) = 3" "length (plmn_mnc p) = 3"
  shows "case plmn_from_string p s of (ok, q) \<Rightarrow>
    if (length s = 5 \<or> length s = 6) \<and> list_all isdigit s
    then ok \<and> plmn_is_valid q \<and> plmn_to_string q = s
    else \<not> ok \<and> \<not> plmn_is_valid q"
proof (cases "length s = 5 \<or> length s = 6")
  case True
  then show ?thesis
    using from_string_digits [OF assms True] to_string_digits [OF assms(2) True]
    by (auto simp: list_all_iff plmn_is_valid_def plmn_of_digits_def plmn_reset_def)
next
  case False
  then have "length s < 5 \<or> 6 < length s" by linarith
  then show ?thesis
    using False by (auto simp: plmn_from_string_def plmn_is_valid_def plmn_reset_def)
qed

theorem plmn_string_roundtrip_witness:
  "plmn_to_string (snd (plmn_from_string \<lparr>plmn_mcc = [0, 0, 0], plmn_mnc = [0, 0, 0], nof_mnc_digits = 0\<rparr> ''00101'')) = ''00101''"
  using plmn_string_roundtrip [of "\<lparr>plmn_mcc = [0, 0, 0], plmn_mnc = [0, 0, 0], nof_mnc_digits = 0\<rparr>" "''00101''"]
  by (simp add: split_beta isdigit_def)

text \<open>
  The S1AP number of a BCD-coded MCC and MNC is decoded to the same MCC and MNC, for
  every pair with the filler nibble 15 in front, with two or three MNC digits.
\<close>

theorem plmn_s1ap_roundtrip:
  assumes "u AND 0xF000 = 0xF000" "v AND 0xF000 = 0xF000"
  shows "s1ap_plmn_to_mccmnc (s1ap_mccmnc_to_plmn u v) = (u, v)"
  using assms by (rule s1ap_roundtrip)

theorem plmn_s1ap_roundtrip_witness:
  "s1ap_plmn_to_mccmnc (s1ap_mccmnc_to_plmn 0xF310 0xF410) = (0xF310, 0xF410)"
  using plmn_s1ap_roundtrip [of "0xF310" "0xF410"] by simp

text \<open>
  From the digits to the wire: for a string of five or six digits, the three octets sent
  in S1AP hold two digits each, low half first: the MCC, the filler 15 or the first of three MNC
  digits, then the last two MNC digits.
\<close>

theorem plmn_s1ap_bytes:
  assumes "length (plmn_mcc p) = 3" "length (plmn_mnc p) = 3" "length s = 5 \<or> length s = 6" "list_all isdigit s"
  shows "plmn_to_s1ap_plmn_bytes (snd (plmn_from_string p s))
    = s1ap_octets (map digit_value (take 3 s)) (map digit_value (drop 3 s))"
proof -
  have u: "ucast (ucast (w :: u8) :: u16) = w" for w
    by (rule bit_word_eqI) (auto simp: bit_simps)
  consider (five) a b c x y where "s = [a, b, c, x, y]" | (six) a b c x y z where "s = [a, b, c, x, y, z]"
    using assms(3) by (auto simp: length_Suc_conv numeral_eq_Suc)
  then show ?thesis
  proof cases
    case five
    then have "plmn_to_s1ap_plmn_bytes (plmn_of_digits p s) = [push_bit 4 (digit_value b) OR digit_value a,
        push_bit 4 (ucast (0xF :: u16)) OR digit_value c, push_bit 4 (digit_value y) OR digit_value x]"
      using assms by (intro to_number_octets) (simp_all add: plmn_to_number_def plmn_of_digits_def put_def
          bytes_to_mcc_def bytes_to_mnc_def nibbles16_mcc [simplified] nibbles16_mnc [simplified] isdigit_facts)
    then show ?thesis
      using five assms from_string_digits [OF assms(1-3)] by (simp add: list_all_iff s1ap_octets_def upt_rec)
  next
    case six
    then have "plmn_to_s1ap_plmn_bytes (plmn_of_digits p s) = [push_bit 4 (digit_value b) OR digit_value a,
        push_bit 4 (ucast (dv x)) OR digit_value c, push_bit 4 (digit_value z) OR digit_value y]"
      using assms by (intro to_number_octets) (simp_all add: plmn_to_number_def plmn_of_digits_def put_def
          bytes_to_mcc_def bytes_to_mnc_def nibbles16_mcc [simplified] isdigit_facts nibble_ucast)
    then show ?thesis
      using six assms from_string_digits [OF assms(1-3)] by (simp add: list_all_iff s1ap_octets_def upt_rec u)
  qed
qed

theorem plmn_s1ap_bytes_witness:
  "plmn_to_s1ap_plmn_bytes (snd (plmn_from_string \<lparr>plmn_mcc = [0, 0, 0], plmn_mnc = [0, 0, 0], nof_mnc_digits = 0\<rparr> ''31041''))
    = [0x13, 0xF0, 0x14]"
  using plmn_s1ap_bytes [of "\<lparr>plmn_mcc = [0, 0, 0], plmn_mnc = [0, 0, 0], nof_mnc_digits = 0\<rparr>" "''31041''"]
  by (simp add: isdigit_def s1ap_octets_def digit_value_def upt_rec)

end
