(* ===== verification/Text.thy ===== *)
theory Text
  imports Plmn
begin

text \<open>
  What the sources use of C++ strings and streams: decimal and hexadecimal output, \<open>strtoull\<close>, \<open>strtol\<close>,
  \<open>sscanf\<close> with \<open>%2hhx\<close>, and \<open>std::getline\<close> with a delimiter, each as the language standards describe it.
\<close>

section \<open>Decimal numbers\<close>

text \<open>The decimal digits a stream prints for a non-negative integer.\<close>

fun dec_str :: "nat \<Rightarrow> string" where
  "dec_str n = (if n < 10 then [char_of (n + 48)] else dec_str (n div 10) @ [char_of (n mod 10 + 48)])"

declare dec_str.simps [simp del]

text \<open>\<open>std::setfill('0') << std::setw(w)\<close>.\<close>

definition pad0 :: "nat \<Rightarrow> string \<Rightarrow> string" where
  "pad0 w s = replicate (w - length s) CHR ''0'' @ s"

definition isspace :: "char \<Rightarrow> bool" where
  "isspace c \<longleftrightarrow> c = CHR '' '' \<or> (9 \<le> (of_char c :: nat) \<and> (of_char c :: nat) \<le> 13)"

definition dnat :: "char \<Rightarrow> nat" where
  "dnat c = of_char c - 48"

definition decval :: "string \<Rightarrow> nat" where
  "decval s = fold (\<lambda>c v. v * 10 + dnat c) s 0"

lemma decval_snoc [simp]: "decval [] = 0" "decval (s @ [c]) = decval s * 10 + dnat c"
  by (simp_all add: decval_def)

lemma isdigit_dnat: "isdigit c \<Longrightarrow> dnat c \<le> 9 \<and> digit_value c = of_nat (dnat c) \<and> of_char c = dnat c + 48"
  by (erule isdigitE) (simp add: dnat_def)

lemma decval_bound: "list_all isdigit s \<Longrightarrow> decval s < 10 ^ length s"
proof (induction s rule: rev_induct)
  case (snoc c s)
  then show ?case using isdigit_dnat [of c] by simp
qed simp

text \<open>Sign and magnitude of the number a string starts with; no digit gives zero.\<close>

definition scan_decimal :: "string \<Rightarrow> bool \<times> nat" where
  "scan_decimal s =
    (let s = dropWhile isspace s;
         neg = (s \<noteq> [] \<and> hd s = CHR ''-'');
         s = (if s \<noteq> [] \<and> (hd s = CHR ''-'' \<or> hd s = CHR ''+'') then tl s else s)
     in (neg, decval (takeWhile isdigit s)))"

definition strtoull10 :: "string \<Rightarrow> u64" where
  "strtoull10 s =
    (case scan_decimal s of (neg, n) \<Rightarrow>
       if 2 ^ 64 \<le> n then - 1 else if neg then - of_nat n else of_nat n)"

definition strtol10 :: "string \<Rightarrow> int" where
  "strtol10 s =
    (case scan_decimal s of (neg, n) \<Rightarrow>
       if neg then max (- (2 ^ 63)) (- int n) else min (2 ^ 63 - 1) (int n))"

section \<open>Hexadecimal numbers\<close>

definition isxdigit :: "char \<Rightarrow> bool" where
  "isxdigit c \<longleftrightarrow> isdigit c \<or> (97 \<le> (of_char c :: nat) \<and> (of_char c :: nat) \<le> 102) \<or>
    (65 \<le> (of_char c :: nat) \<and> (of_char c :: nat) \<le> 70)"

definition hexval :: "char \<Rightarrow> nat" where
  "hexval c = (if isdigit c then of_char c - 48 else if 97 \<le> (of_char c :: nat) then of_char c - 87 else of_char c - 55)"

text \<open>
  \<open>sscanf(s, "%2hhx", &v)\<close>: at most two characters after the white space, a sign counting as one; \<open>None\<close> if
  nothing is assigned, as for \<open>0x\<close>, which only starts a number.
\<close>

definition sscanf_2hhx :: "string \<Rightarrow> u8 option" where
  "sscanf_2hhx s =
    (case dropWhile isspace s of
       [] \<Rightarrow> None
     | c # r \<Rightarrow>
         (if c = CHR ''+'' \<or> c = CHR ''-''
          then (case r of
                  [] \<Rightarrow> None
                | d # _ \<Rightarrow> if isxdigit d then Some (if c = CHR ''-'' then - of_nat (hexval d) else of_nat (hexval d)) else None)
          else if isxdigit c
          then (case r of
                  [] \<Rightarrow> Some (of_nat (hexval c))
                | d # _ \<Rightarrow>
                    if isxdigit d then Some (of_nat (16 * hexval c + hexval d))
                    else if c = CHR ''0'' \<and> (d = CHR ''x'' \<or> d = CHR ''X'') then None
                    else Some (of_nat (hexval c)))
          else None))"

definition hex_char :: "nat \<Rightarrow> char" where
  "hex_char n = char_of (if n < 10 then n + 48 else n + 87)"

text \<open>\<open>std::hex << std::setfill('0') << std::setw(2)\<close> for an octet.\<close>

definition hex2 :: "u8 \<Rightarrow> string" where
  "hex2 b = [hex_char (unat b div 16), hex_char (unat b mod 16)]"

section \<open>Splitting\<close>

text \<open>The tokens of repeated \<open>std::getline\<close>: no empty token after a final delimiter.\<close>

function (sequential) getlines :: "char \<Rightarrow> string \<Rightarrow> string list" where
  "getlines d [] = []"
| "getlines d (c # s) = takeWhile (\<lambda>x. x \<noteq> d) (c # s) # getlines d (drop 1 (dropWhile (\<lambda>x. x \<noteq> d) (c # s)))"
  by pat_completeness auto
termination
  by (relation "measure (\<lambda>(d, s). length s)")
    (auto simp: less_Suc_eq_le intro: le_trans [OF diff_le_self] length_dropWhile_le)

section \<open>Facts\<close>

lemma dec_str_digit: "isdigit c \<Longrightarrow> dec_str (unat (digit_value c)) = [c]"
proof -
  assume c: "isdigit c"
  have "unat (digit_value c) = dnat c"
    using isdigit_dnat [OF c] upto9 [of "dnat c"] by auto
  moreover have "char_of (dnat c + 48) = c"
    using isdigit_dnat [OF c] by (metis char_of_char)
  ultimately show ?thesis
    using isdigit_dnat [OF c] by (subst dec_str.simps) simp
qed

lemma getlines_token:
  "d \<notin> set t \<Longrightarrow> getlines d (t @ d # s) = t # getlines d s"
proof (cases t)
  case (Cons c t')
  assume "d \<notin> set t"
  then have "takeWhile (\<lambda>x. x \<noteq> d) (t @ d # s) = t \<and> dropWhile (\<lambda>x. x \<noteq> d) (t @ d # s) = d # s"
    by (induction t) auto
  then show ?thesis using Cons by simp
qed simp

lemma getlines_last: "d \<notin> set t \<Longrightarrow> t \<noteq> [] \<Longrightarrow> getlines d t = [t]"
proof (cases t)
  case (Cons c t')
  assume "d \<notin> set t"
  then have "takeWhile (\<lambda>x. x \<noteq> d) t = t" "dropWhile (\<lambda>x. x \<noteq> d) t = []"
    by (auto simp: takeWhile_eq_all_conv dropWhile_eq_Nil_conv)
  then show ?thesis using Cons by simp
qed simp

lemma isdigit_char: "d < 10 \<Longrightarrow> isdigit (char_of (d + 48)) \<and> dnat (char_of (d + 48)) = d"
  by (simp add: isdigit_def dnat_def)

lemma dec_str_digits: "list_all isdigit (dec_str n) \<and> decval (dec_str n) = n \<and> dec_str n \<noteq> []"
proof (induction n rule: dec_str.induct)
  case (1 n)
  then show ?case
    using isdigit_char [of n] isdigit_char [of "n mod 10"]
    by (subst (1 2 3) dec_str.simps) (auto simp: decval_def)
qed

lemma decval_zeros: "decval (replicate m CHR ''0'' @ s) = decval s"
  by (induction m) (simp_all add: decval_def dnat_def)

lemma pad0_digits: "list_all isdigit s \<Longrightarrow> list_all isdigit (pad0 w s)"
  by (auto simp: pad0_def list_all_iff isdigit_def set_replicate_conv_if)

lemma decval_pad0 [simp]: "decval (pad0 w s) = decval s"
  by (simp add: pad0_def decval_zeros)

lemma isdigit_other: "isdigit c \<Longrightarrow> \<not> isspace c \<and> c \<noteq> CHR ''-'' \<and> c \<noteq> CHR ''+'' \<and> c \<noteq> CHR '','' \<and> c \<noteq> CHR ''\<newline>''"
  by (auto simp: isdigit_def isspace_def)

lemma scan_digits: "list_all isdigit s \<Longrightarrow> scan_decimal s = (False, decval s)"
proof (cases s)
  case (Cons c t)
  assume s: "list_all isdigit s"
  then have "isdigit c" using Cons by simp
  note c = isdigit_other [OF this]
  have "takeWhile isdigit s = s" using s by (simp add: takeWhile_eq_all_conv list_all_iff)
  then show ?thesis using Cons c by (simp add: scan_decimal_def)
qed (simp add: scan_decimal_def)

lemma strtoull_dec: "n < 2 ^ 64 \<Longrightarrow> strtoull10 (pad0 w (dec_str n)) = of_nat n"
  using dec_str_digits [of n] by (simp add: strtoull10_def scan_digits pad0_digits)

lemma strtol_dec: "n < 2 ^ 63 \<Longrightarrow> strtol10 (dec_str n) = int n"
  using dec_str_digits [of n] by (simp add: strtol10_def scan_digits)

lemma hex_digit_cases:
  assumes "n \<in> set [0..<16]" "P (0 :: nat)" "P 1" "P 2" "P 3" "P 4" "P 5" "P 6" "P 7" "P 8" "P 9" "P 10" "P 11"
    "P 12" "P 13" "P 14" "P 15"
  shows "P n"
  using assms by (auto simp: upt_rec numeral_eq_Suc)

lemma hex_char_digit: "n < 16 \<Longrightarrow> isxdigit (hex_char n) \<and> hexval (hex_char n) = n \<and> \<not> isspace (hex_char n) \<and>
    hex_char n \<noteq> CHR ''+'' \<and> hex_char n \<noteq> CHR ''-'' \<and> hex_char n \<noteq> CHR '','' \<and> hex_char n \<noteq> CHR ''\<newline>''"
proof -
  assume "n < 16"
  then have "n \<in> set [0..<16]" by simp
  then show ?thesis
    by (rule hex_digit_cases [of n]) (simp_all add: hex_char_def isxdigit_def hexval_def isdigit_def isspace_def char_of_def bit_0 odd_iff_mod_2_eq_one)
qed

lemma sscanf_hex2: "sscanf_2hhx (hex2 b @ s) = Some b"
proof -
  have "unat b < 256" using unat_u8_less [of b] by simp
  then have "unat b div 16 < 16" "unat b mod 16 < 16" by (auto simp: less_mult_imp_div_less)
  moreover have "16 * (unat b div 16) + unat b mod 16 = unat b" by simp
  ultimately show ?thesis
    using hex_char_digit [of "unat b div 16"] hex_char_digit [of "unat b mod 16"]
    by (simp add: sscanf_2hhx_def hex2_def del: of_nat_add of_nat_mult)
qed

end
