(* ===== verification/Usim.thy ===== *)
theory Usim
  imports Milenage Lte_Kdf Text
begin

text \<open>
  The software USIM: \<^verbatim>\<open>srsue/src/stack/upper/usim.cc\<close> and \<^verbatim>\<open>usim_base.cc\<close>. The object is the record
  \<open>usim\<close>; each method returns its result, the buffers it writes and the new object. Logging is
  not modelled. The key chain of a handover is a loop that may not end, \<open>nh_loop\<close>; its value
  \<open>None\<close> is that it does not.
\<close>

section \<open>State\<close>

datatype auth_result = AUTH_OK | AUTH_FAILED | AUTH_SYNCH_FAILURE

datatype auth_algo = auth_algo_milenage | auth_algo_xor

record k_enb_context =
  kc_k_enb :: bytes
  kc_nh :: bytes
  kc_is_first_ncc :: bool
  kc_ncc :: u32

record as_security_config =
  sec_k_rrc_int :: bytes
  sec_k_rrc_enc :: bytes
  sec_k_up_int :: bytes
  sec_k_up_enc :: bytes
  sec_integ_algo :: LIBLTE_SECURITY_INTEGRITY_ALGORITHM_ID
  sec_cipher_algo :: LIBLTE_SECURITY_CIPHERING_ALGORITHM_ID

record usim_args =
  arg_algo :: string
  arg_using_op :: bool
  arg_op :: string
  arg_opc :: string
  arg_imsi :: string
  arg_imei :: string
  arg_k :: string

record usim =
  u_initiated :: bool
  u_imsi :: u64
  u_imei :: u64
  u_imsi_str :: string
  u_imei_str :: string
  u_ck :: bytes
  u_ik :: bytes
  u_ak :: bytes
  u_k_asme :: bytes
  u_k_enb_star :: bytes
  u_k_enb_initial :: bytes
  u_k_enb_ctx :: k_enb_context
  u_old_k_enb_ctx :: k_enb_context
  u_old_as_ctx :: as_security_config
  u_auth_algo :: auth_algo
  u_amf :: bytes
  u_op :: bytes
  u_opc :: bytes
  u_k :: bytes
  u_mac :: bytes
  u_autn :: bytes

section \<open>usim.cc\<close>

definition hex_digit :: "char \<Rightarrow> u8" where
  "hex_digit c =
    (if (of_char CHR ''0'' :: nat) \<le> of_char c \<and> of_char c \<le> (of_char CHR ''9'' :: nat)
     then of_char c - of_char CHR ''0''
     else if (of_char CHR ''A'' :: nat) \<le> of_char c \<and> of_char c \<le> (of_char CHR ''F'' :: nat)
     then (of_char c - of_char CHR ''A'') + 0xA
     else (of_char c - of_char CHR ''a'') + 0xA)"

definition str_to_hex :: "string \<Rightarrow> bytes \<Rightarrow> bytes" where
  "str_to_hex str hex =
    fill (length str div 2) (\<lambda>i. i)
      (\<lambda>i. push_bit 4 (hex_digit (str ! (i * 2 + 0))) OR hex_digit (str ! (i * 2 + 1))) hex"

text \<open>\<open>char\<close> is signed: its value in an \<open>int\<close> expression.\<close>

definition char_int :: "char \<Rightarrow> int" where
  "char_int c = (if (of_char c :: int) < 128 then of_char c else of_char c - 256)"

definition decimal15 :: "string \<Rightarrow> u64" where
  "decimal15 s =
    fold (\<lambda>i v. v * 10 + word_of_int (char_int (s ! i) - char_int CHR ''0'')) [0..<15] 0"

definition usim_init :: "ssl_lib \<Rightarrow> usim_args \<Rightarrow> usim \<Rightarrow> usim" where
  "usim_init lib args u =
    (let u = u\<lparr>u_imsi_str := arg_imsi args, u_imei_str := arg_imei args, u_auth_algo := auth_algo_milenage\<rparr>;
         u = (if ''xor'' = arg_algo args then u\<lparr>u_auth_algo := auth_algo_xor\<rparr> else u);
         u = (if 32 = length (arg_k args) then u\<lparr>u_k := str_to_hex (arg_k args) (u_k u)\<rparr> else u);
         u = (if u_auth_algo u = auth_algo_milenage
              then if arg_using_op args
                   then if 32 = length (arg_op args)
                        then let u = u\<lparr>u_op := str_to_hex (arg_op args) (u_op u)\<rparr>
                             in u\<lparr>u_opc := the (snd (compute_opc lib (Some (u_k u)) (Some (u_op u)) (Some (u_opc u))))\<rparr>
                        else u
                   else if 32 = length (arg_opc args)
                        then u\<lparr>u_opc := str_to_hex (arg_opc args) (u_opc u)\<rparr> else u
              else u);
         u = (if 15 = length (arg_imsi args) then u\<lparr>u_imsi := decimal15 (arg_imsi args)\<rparr> else u);
         u = (if 15 = length (arg_imei args) then u\<lparr>u_imei := decimal15 (arg_imei args)\<rparr> else u)
     in u\<lparr>u_initiated := True\<rparr>)"

text \<open>
  The last part of both authentication functions: build AUTN from \<open>sqn\<close>, AK, AMF and MAC,
  compare it with the one received.
\<close>

definition usim_autn :: "usim \<Rightarrow> bytes \<Rightarrow> bytes" where
  "usim_autn u sqn =
    fill 8 (\<lambda>i. 8 + i) (\<lambda>i. u_mac u ! i)
      (fill 2 (\<lambda>i. 6 + i) (\<lambda>i. u_amf u ! i)
        (fill 6 (\<lambda>i. i) (\<lambda>i. sqn ! i XOR u_ak u ! i) (u_autn u)))"

definition compare_autn :: "bytes \<Rightarrow> bytes \<Rightarrow> auth_result" where
  "compare_autn autn autn_enb =
    fold (\<lambda>i result. if autn ! i \<noteq> autn_enb ! i then AUTH_FAILED else result) [0..<16] AUTH_OK"

text \<open>Result, \<open>res\<close>, \<open>*res_len\<close>, \<open>k_asme\<close>, object.\<close>

definition gen_auth_res_milenage ::
  "ssl_lib \<Rightarrow> usim \<Rightarrow> bytes \<Rightarrow> bytes \<Rightarrow> u16 \<Rightarrow> u16 \<Rightarrow> bytes \<Rightarrow> bytes \<Rightarrow> auth_result \<times> bytes \<times> int \<times> bytes \<times> usim"
where
  "gen_auth_res_milenage lib u rand autn_enb mcc mnc res k_asme =
    (case security_milenage_f2345 lib (Some (u_k u)) (Some (u_opc u)) (Some rand) (Some res)
            (Some (u_ck u)) (Some (u_ik u)) (Some (u_ak u)) of
       (_, res', ck', ik', ak') \<Rightarrow>
         (let u = u\<lparr>u_ck := the ck', u_ik := the ik', u_ak := the ak'\<rparr>;
              sqn = map (\<lambda>i. autn_enb ! i XOR u_ak u ! i) [0..<6];
              u = u\<lparr>u_amf := fill 2 (\<lambda>i. i) (\<lambda>i. autn_enb ! (6 + i)) (u_amf u)\<rparr>;
              u = u\<lparr>u_mac := the (snd (security_milenage_f1 lib (Some (u_k u)) (Some (u_opc u)) (Some rand)
                     (Some sqn) (Some (u_amf u)) (Some (u_mac u))))\<rparr>;
              u = u\<lparr>u_autn := usim_autn u sqn\<rparr>;
              result = compare_autn (u_autn u) autn_enb;
              k_asme = the (snd (security_generate_k_asme lib (Some (u_ck u)) (Some (u_ik u)) (Some (u_ak u))
                     (Some sqn) mcc mnc (Some k_asme)))
          in (result, the res', 8, k_asme, u)))"

definition gen_auth_res_xor ::
  "ssl_lib \<Rightarrow> usim \<Rightarrow> bytes \<Rightarrow> bytes \<Rightarrow> u16 \<Rightarrow> u16 \<Rightarrow> bytes \<Rightarrow> bytes \<Rightarrow> auth_result \<times> bytes \<times> int \<times> bytes \<times> usim"
where
  "gen_auth_res_xor lib u rand autn_enb mcc mnc res k_asme =
    (let xdout = map (\<lambda>i. u_k u ! i XOR rand ! i) [0..<16];
         res = fill 16 (\<lambda>i. i) (\<lambda>i. xdout ! i) res;
         u = u\<lparr>u_ck := fill 16 (\<lambda>i. i) (\<lambda>i. xdout ! ((i + 1) mod 16)) (u_ck u),
               u_ik := fill 16 (\<lambda>i. i) (\<lambda>i. xdout ! ((i + 2) mod 16)) (u_ik u)\<rparr>;
         u = u\<lparr>u_ak := fill 6 (\<lambda>i. i) (\<lambda>i. xdout ! (i + 3)) (u_ak u)\<rparr>;
         sqn = map (\<lambda>i. autn_enb ! i XOR u_ak u ! i) [0..<6];
         u = u\<lparr>u_amf := fill 2 (\<lambda>i. i) (\<lambda>i. autn_enb ! (6 + i)) (u_amf u)\<rparr>;
         cdout = map (\<lambda>i. sqn ! i) [0..<6] @ map (\<lambda>i. u_amf u ! i) [0..<2];
         u = u\<lparr>u_mac := fill 8 (\<lambda>i. i) (\<lambda>i. xdout ! i XOR cdout ! i) (u_mac u)\<rparr>;
         u = u\<lparr>u_autn := usim_autn u sqn\<rparr>;
         result = compare_autn (u_autn u) autn_enb;
         k_asme = the (snd (security_generate_k_asme lib (Some (u_ck u)) (Some (u_ik u)) (Some (u_ak u))
                     (Some sqn) mcc mnc (Some k_asme)))
     in (result, res, 8, k_asme, u))"

definition generate_authentication_response ::
  "ssl_lib \<Rightarrow> usim \<Rightarrow> bytes \<Rightarrow> bytes \<Rightarrow> u16 \<Rightarrow> u16 \<Rightarrow> bytes \<Rightarrow> bytes \<Rightarrow> auth_result \<times> bytes \<times> int \<times> bytes \<times> usim"
where
  "generate_authentication_response lib u rand autn_enb mcc mnc res k_asme =
    (if auth_algo_xor = u_auth_algo u then gen_auth_res_xor lib u rand autn_enb mcc mnc res k_asme
     else gen_auth_res_milenage lib u rand autn_enb mcc mnc res k_asme)"

definition get_mnc_str :: "bytes \<Rightarrow> string \<Rightarrow> string" where
  "get_mnc_str imsi_vec mcc_str =
    (let mcc_len = 3;
         mnc_len = (if mcc_str \<in> {''310'', ''311'', ''312'', ''313'', ''316''} then 3 else 2)
     in concat (map (\<lambda>i. dec_str (unat (imsi_vec ! i))) [mcc_len..<mcc_len + mnc_len]))"

section \<open>usim\_base.cc\<close>

definition decimal_vec :: "u64 \<Rightarrow> bytes \<Rightarrow> bytes" where
  "decimal_vec v vec =
    fst (fold (\<lambda>j (vec, temp). (vec[14 - j := ucast (temp mod 10)], temp div 10)) [0..<15] (vec, v))"

definition get_imsi_vec :: "usim \<Rightarrow> bytes ptr \<Rightarrow> u32 \<Rightarrow> bool \<times> bytes ptr" where
  "get_imsi_vec u imsi n =
    (if \<not> u_initiated u then (False, imsi)
     else case imsi of
       None \<Rightarrow> (False, imsi)
     | Some vec \<Rightarrow> if n < 15 then (False, imsi) else (True, Some (decimal_vec (u_imsi u) vec)))"

definition get_imei_vec :: "usim \<Rightarrow> bytes ptr \<Rightarrow> u32 \<Rightarrow> bool \<times> bytes ptr" where
  "get_imei_vec u imei n =
    (if \<not> u_initiated u then (False, imei)
     else case imei of
       None \<Rightarrow> (False, imei)
     | Some vec \<Rightarrow> if n < 15 then (False, imei) else (True, Some (decimal_vec (u_imei u) vec)))"

definition get_mcc_str :: "bytes \<Rightarrow> string" where
  "get_mcc_str imsi_vec = concat (map (\<lambda>i. dec_str (unat (imsi_vec ! i))) [0..<3])"

definition get_home_plmn_id :: "usim \<Rightarrow> plmn_id \<Rightarrow> bool \<times> plmn_id" where
  "get_home_plmn_id u home_plmn_id =
    (if \<not> u_initiated u then (False, home_plmn_id)
     else let imsi_vec = the (snd (get_imsi_vec u (Some (replicate 15 0)) 15));
              mcc_str = get_mcc_str imsi_vec;
              mnc_str = get_mnc_str imsi_vec mcc_str
          in plmn_from_string home_plmn_id (mcc_str @ mnc_str))"

definition generate_nas_keys ::
  "ssl_lib \<Rightarrow> usim \<Rightarrow> bytes ptr \<Rightarrow> bytes ptr \<Rightarrow> bytes ptr \<Rightarrow> LIBLTE_SECURITY_CIPHERING_ALGORITHM_ID \<Rightarrow>
   LIBLTE_SECURITY_INTEGRITY_ALGORITHM_ID \<Rightarrow> bytes ptr \<times> bytes ptr" where
  "generate_nas_keys lib u k_asme k_nas_enc k_nas_int cipher_algo integ_algo =
    (if \<not> u_initiated u then (k_nas_enc, k_nas_int)
     else snd (security_generate_k_nas lib k_asme cipher_algo integ_algo k_nas_enc k_nas_int))"

text \<open>K_RRC and K_UP from the current K_eNB, the common end of the two AS functions.\<close>

definition as_keys :: "ssl_lib \<Rightarrow> bytes \<Rightarrow> as_security_config \<Rightarrow> as_security_config" where
  "as_keys lib k_enb cfg =
    (case security_generate_k_rrc lib (Some k_enb) (sec_cipher_algo cfg) (sec_integ_algo cfg)
            (Some (sec_k_rrc_enc cfg)) (Some (sec_k_rrc_int cfg)) of
       (_, rrc_enc, rrc_int) \<Rightarrow>
         (let cfg = cfg\<lparr>sec_k_rrc_enc := the rrc_enc, sec_k_rrc_int := the rrc_int\<rparr>
          in case security_generate_k_up lib (Some k_enb) (sec_cipher_algo cfg) (sec_integ_algo cfg)
                    (Some (sec_k_up_enc cfg)) (Some (sec_k_up_int cfg)) of
               (_, up_enc, up_int) \<Rightarrow> cfg\<lparr>sec_k_up_enc := the up_enc, sec_k_up_int := the up_int\<rparr>))"

definition generate_as_keys ::
  "ssl_lib \<Rightarrow> usim \<Rightarrow> bytes \<Rightarrow> u32 \<Rightarrow> as_security_config \<Rightarrow> as_security_config \<times> usim" where
  "generate_as_keys lib u k_asme count_ul cfg =
    (if \<not> u_initiated u then (cfg, u)
     else let k_enb = the (snd (security_generate_k_enb lib (Some k_asme) count_ul
                             (Some (kc_k_enb (u_k_enb_ctx u)))));
              u = u\<lparr>u_k_enb_ctx := (u_k_enb_ctx u)\<lparr>kc_k_enb := k_enb\<rparr>\<rparr>;
              u = u\<lparr>u_k_asme := put (u_k_asme u) (take 32 k_asme)\<rparr>;
              u = u\<lparr>u_k_enb_initial := put (u_k_enb_initial u) (take 32 k_enb)\<rparr>;
              cfg = as_keys lib k_enb cfg
          in (cfg, u\<lparr>u_k_enb_ctx := (u_k_enb_ctx u)\<lparr>kc_ncc := 0, kc_is_first_ncc := True\<rparr>\<rparr>))"

text \<open>One turn of the loop of \<open>generate_as_keys_ho\<close>: the next NH and NCC.\<close>

definition nh_step :: "ssl_lib \<Rightarrow> bytes \<Rightarrow> bytes \<Rightarrow> k_enb_context \<Rightarrow> k_enb_context" where
  "nh_step lib k_asme k_enb_initial ctx =
    (let (sync, ctx) =
           (if kc_is_first_ncc ctx then (k_enb_initial, ctx\<lparr>kc_is_first_ncc := False\<rparr>)
            else (kc_nh ctx, ctx));
         ctx = ctx\<lparr>kc_nh := the (snd (security_generate_nh lib (Some k_asme) (Some sync) (Some (kc_nh ctx))))\<rparr>;
         ctx = ctx\<lparr>kc_ncc := kc_ncc ctx + 1\<rparr>
     in if kc_ncc ctx = 8 then ctx\<lparr>kc_ncc := 0\<rparr> else ctx)"

text \<open>The flag tells whether \<open>enb_star_key\<close> points to NH; it starts at the current K_eNB.\<close>

partial_function (option) nh_loop ::
  "ssl_lib \<Rightarrow> bytes \<Rightarrow> bytes \<Rightarrow> u32 \<Rightarrow> k_enb_context \<times> bool \<Rightarrow> (k_enb_context \<times> bool) option" where
  "nh_loop lib k_asme k_enb_initial ncc s =
    (if kc_ncc (fst s) \<noteq> ncc
     then nh_loop lib k_asme k_enb_initial ncc (nh_step lib k_asme k_enb_initial (fst s), True)
     else Some s)"

definition generate_as_keys_ho ::
  "ssl_lib \<Rightarrow> usim \<Rightarrow> u32 \<Rightarrow> u32 \<Rightarrow> int \<Rightarrow> as_security_config \<Rightarrow> (as_security_config \<times> usim) option" where
  "generate_as_keys_ho lib u pci earfcn ncc cfg =
    (if \<not> u_initiated u then Some (cfg, u)
     else let ncc = (if ncc < 0 then kc_ncc (u_k_enb_ctx u) else word_of_int ncc)
          in map_option (\<lambda>(ctx, from_nh).
               let enb_star_key = (if from_nh then kc_nh ctx else kc_k_enb ctx);
                   k_enb_star = the (snd (security_generate_k_enb_star lib (Some enb_star_key) pci earfcn
                                  (Some (u_k_enb_star u))));
                   ctx = ctx\<lparr>kc_k_enb := put (kc_k_enb ctx) (take 32 k_enb_star)\<rparr>
               in (as_keys lib (kc_k_enb ctx) cfg, u\<lparr>u_k_enb_star := k_enb_star, u_k_enb_ctx := ctx\<rparr>))
             (nh_loop lib (u_k_asme u) (u_k_enb_initial u) ncc (u_k_enb_ctx u, False)))"

definition store_keys_before_ho :: "usim \<Rightarrow> as_security_config \<Rightarrow> usim" where
  "store_keys_before_ho u as_ctx = u\<lparr>u_old_k_enb_ctx := u_k_enb_ctx u, u_old_as_ctx := as_ctx\<rparr>"

definition restore_keys_from_failed_ho :: "usim \<Rightarrow> as_security_config \<times> usim" where
  "restore_keys_from_failed_ho u = (u_old_as_ctx u, u\<lparr>u_k_enb_ctx := u_old_k_enb_ctx u\<rparr>)"

section \<open>Authentication\<close>

text \<open>The arrays of the object have their declared sizes.\<close>

definition usim_sizes :: "usim \<Rightarrow> bool" where
  "usim_sizes u \<longleftrightarrow> length (u_k u) = 16 \<and> length (u_opc u) = 16 \<and> length (u_op u) = 16 \<and>
    length (u_ck u) = 16 \<and> length (u_ik u) = 16 \<and> length (u_ak u) = 6 \<and> length (u_amf u) = 2 \<and>
    length (u_mac u) = 8 \<and> length (u_autn u) = 16 \<and> length (u_k_asme u) = 32 \<and>
    length (u_k_enb_star u) = 32 \<and> length (u_k_enb_initial u) = 32 \<and>
    length (kc_k_enb (u_k_enb_ctx u)) = 32 \<and> length (kc_nh (u_k_enb_ctx u)) = 32"

definition hmac_32 :: "ssl_lib \<Rightarrow> bool" where
  "hmac_32 lib \<longleftrightarrow> (\<forall>k i. length (md_hmac lib k i) = 32)"

lemma compare_autn_fold:
  "fold (\<lambda>i result. if a ! i \<noteq> b ! i then AUTH_FAILED else result) xs r
    = (if \<forall>i \<in> set xs. a ! i = b ! i then r else AUTH_FAILED)"
  by (induction xs arbitrary: r) auto

lemma compare_autn_iff:
  "length a = 16 \<Longrightarrow> length b = 16 \<Longrightarrow> compare_autn a b = (if a = b then AUTH_OK else AUTH_FAILED)"
  by (auto simp: compare_autn_def compare_autn_fold list_eq_iff_nth_eq)

lemma fill_shift:
  assumes "length a = m + n + k" "length x = n"
  shows "fill n (\<lambda>i. m + i) (\<lambda>i. x ! i) a = take m a @ x @ drop (m + n) a"
proof (rule nth_equalityI)
  show "length (fill n (\<lambda>i. m + i) (\<lambda>i. x ! i) a) = length (take m a @ x @ drop (m + n) a)"
    using assms by simp
  fix j assume "j < length (fill n (\<lambda>i. m + i) (\<lambda>i. x ! i) a)"
  then have j: "j < m + n + k" using assms by simp
  show "fill n (\<lambda>i. m + i) (\<lambda>i. x ! i) a ! j = (take m a @ x @ drop (m + n) a) ! j"
  proof (cases "m \<le> j \<and> j < m + n")
    case True
    then obtain i where i: "j = m + i" "i < n" by (metis add_less_cancel_left le_Suc_ex)
    have "fill n (\<lambda>i. m + i) (\<lambda>i. x ! i) a ! (m + i) = x ! i"
      using i assms by (intro nth_fill) (simp_all add: inj_on_def)
    then show ?thesis using i assms by (simp add: nth_append)
  next
    case False
    then have "fill n (\<lambda>i. m + i) (\<lambda>i. x ! i) a ! j = a ! j"
      by (intro nth_fill_other) auto
    then show ?thesis using False j assms by (auto simp: nth_append)
  qed
qed

lemma fill_map: "length a = n \<Longrightarrow> fill n (\<lambda>i. i) g a = map g [0..<n]"
  by (rule fill_id)

lemma usim_autn_spec:
  assumes "length (u_autn u) = 16" "length (u_ak u) = 6" "length (u_amf u) = 2" "length (u_mac u) = 8" "length sqn = 6"
  shows "usim_autn u sqn = xor_bytes sqn (u_ak u) @ u_amf u @ u_mac u"
proof -
  have "fill 6 (\<lambda>i. i) (\<lambda>i. sqn ! i XOR u_ak u ! i) (u_autn u) = fill 6 (\<lambda>i. 0 + i) (\<lambda>i. xor_bytes sqn (u_ak u) ! i) (u_autn u)"
    unfolding fill_def using assms by (intro fold_cong) auto
  also have "... = xor_bytes sqn (u_ak u) @ drop 6 (u_autn u)"
    using assms by (subst fill_shift [where k = 10]) simp_all
  finally show ?thesis
    using assms
    by (simp add: usim_autn_def fill_shift [where k = 8] fill_shift [where k = 0 and m = 8 and n = 8])
qed

lemma autn_split:
  assumes "length autn = 16"
  shows "autn = take 6 autn @ take 2 (drop 6 autn) @ drop 8 autn"
  using append_take_drop_id [of 6 autn] append_take_drop_id [of 2 "drop 6 autn"] by simp

text \<open>What the USIM derives from AUTN: the concealed SQN, AMF and the MAC it expects.\<close>

lemma autn_fields:
  assumes "length autn = 16" "length ak = 6"
  shows "map (\<lambda>i. autn ! i XOR ak ! i) [0..<6] = xor_bytes (take 6 autn) ak"
    and "length amf = 2 \<Longrightarrow> fill 2 (\<lambda>i. i) (\<lambda>i. autn ! (6 + i)) amf = take 2 (drop 6 autn)"
  using assms by (auto intro!: nth_equalityI simp: fill_map)

lemma autn_accept:
  assumes "length autn = 16" "length ak = 6" "length mac = 8"
  shows "xor_bytes (xor_bytes (take 6 autn) ak) ak @ take 2 (drop 6 autn) @ mac = autn \<longleftrightarrow> mac = drop 8 autn"
proof -
  have "xor_bytes (xor_bytes (take 6 autn) ak) ak = take 6 autn"
    using assms by (intro xor_bytes_cancel) simp
  moreover have "take 6 autn @ take 2 (drop 6 autn) @ mac = autn \<longleftrightarrow>
      take 6 autn @ take 2 (drop 6 autn) @ mac = take 6 autn @ take 2 (drop 6 autn) @ drop 8 autn"
    by (simp only: autn_split [OF assms(1), symmetric])
  ultimately show ?thesis by simp
qed


lemma kasme_spec:
  assumes "hmac_32 lib" "length ck = 16" "length ik = 16" "length ak = 6" "length sqn = 6" "length buf = 32"
  shows "the (snd (liblte_security_generate_k_asme lib (Some ck) (Some ik) (Some ak) (Some sqn) mcc mnc (Some buf)))
    = md_hmac lib (ck @ ik) (kdf_string 0x10 [plmn_octets mcc mnc, xor_bytes sqn ak])"
proof -
  have "map (\<lambda>i. ck ! i) [0..<16] = ck" "map (\<lambda>i. ik ! i) [0..<16] = ik"
    using assms by (auto intro!: nth_equalityI)
  moreover have "length (kdf_string 0x10 [plmn_octets mcc mnc, xor_bytes sqn ak]) = 14"
    using assms by (simp add: kdf_string_def be16_def plmn_octets_def)
  ultimately show ?thesis
    using assms by (simp add: liblte_security_generate_k_asme_def S_k_asme_spec sha256_def hmac_32_def)
qed

lemma length_mil [simp]:
  assumes "ecb_16 lib" "length opc = 16" "length rand = 16"
  shows "length (mil_f2 lib k opc rand) = 8" "length (mil_f3 lib k opc rand) = 16" "length (mil_f4 lib k opc rand) = 16"
    "length (mil_f5 lib k opc rand) = 6"
    "length sqn = 6 \<Longrightarrow> length amf = 2 \<Longrightarrow> length (mil_f1 lib k opc rand sqn amf) = 8"
  using assms by (simp_all add: mil_f2_def mil_f3_def mil_f4_def mil_f5_def mil_f1_def)

lemma milenage_response:
  assumes lib: "ecb_16 lib" "hmac_32 lib"
    and u: "usim_sizes u"
    and args: "length rand = 16" "length autn = 16" "length res = 16" "length k_asme = 32"
  defines "K \<equiv> u_k u" and "opc \<equiv> u_opc u"
  defines "ak \<equiv> mil_f5 lib K opc rand"
  defines "sqn \<equiv> xor_bytes (take 6 autn) ak" and "amf \<equiv> take 2 (drop 6 autn)"
  shows "gen_auth_res_milenage lib u rand autn mcc mnc res k_asme =
    (if drop 8 autn = mil_f1 lib K opc rand sqn amf then AUTH_OK else AUTH_FAILED,
     put res (mil_f2 lib K opc rand), 8,
     md_hmac lib (mil_f3 lib K opc rand @ mil_f4 lib K opc rand)
       (kdf_string 0x10 [plmn_octets mcc mnc, take 6 autn]),
     u\<lparr>u_ck := mil_f3 lib K opc rand, u_ik := mil_f4 lib K opc rand, u_ak := ak, u_amf := amf,
       u_mac := mil_f1 lib K opc rand sqn amf, u_autn := take 8 autn @ mil_f1 lib K opc rand sqn amf\<rparr>)"
proof -
  note s = u [unfolded usim_sizes_def]
  have opc: "length opc = 16" using s by (simp add: opc_def)
  have l: "length ak = 6" "length sqn = 6" "length amf = 2" "length (mil_f1 lib K opc rand sqn amf) = 8"
    using lib(1) opc args by (simp_all add: ak_def sqn_def amf_def)
  have x: "xor_bytes sqn ak = take 6 autn"
    unfolding sqn_def using args l by (intro xor_bytes_cancel) simp
  have t8: "take 6 autn @ amf = take 8 autn"
    using take_add [of 6 2 autn] by (simp add: amf_def)
  have acc: "take 6 autn @ amf @ mil_f1 lib K opc rand sqn amf = autn \<longleftrightarrow> drop 8 autn = mil_f1 lib K opc rand sqn amf"
    using autn_accept [OF args(2) l(1,4)] x by (auto simp: sqn_def amf_def)
  have "length autn = 16" by (rule args)
  let ?u = "u\<lparr>u_ck := mil_f3 lib K opc rand, u_ik := mil_f4 lib K opc rand, u_ak := ak, u_amf := amf,
      u_mac := mil_f1 lib K opc rand sqn amf\<rparr>"
  have au: "usim_autn ?u sqn = take 6 autn @ amf @ mil_f1 lib K opc rand sqn amf"
    using s l by (subst usim_autn_spec) (simp_all add: x)
  have f2345: "security_milenage_f2345 lib (Some K) (Some opc) (Some rand) (Some res) (Some (u_ck u)) (Some (u_ik u))
      (Some (u_ak u)) = (LIBLTE_SUCCESS, Some (put res (mil_f2 lib K opc rand)), Some (mil_f3 lib K opc rand),
        Some (mil_f4 lib K opc rand), Some ak)"
    using s lib(1) opc args(1) l by (simp add: milenage_f2345_eq ak_def)
  have f1: "the (snd (security_milenage_f1 lib (Some K) (Some opc) (Some rand) (Some sqn) (Some amf) (Some (u_mac u))))
      = mil_f1 lib K opc rand sqn amf"
    using s lib(1) opc args(1) l by (simp add: milenage_f1_eq)
  have sq: "map (\<lambda>i. autn ! i XOR ak ! i) [0..<6] = sqn" "fill 2 (\<lambda>i. i) (\<lambda>i. autn ! (6 + i)) (u_amf u) = amf"
    using autn_fields [OF args(2) l(1)] s by (simp_all add: sqn_def amf_def)
  have ka: "the (snd (liblte_security_generate_k_asme lib (Some (mil_f3 lib K opc rand)) (Some (mil_f4 lib K opc rand))
        (Some ak) (Some sqn) mcc mnc (Some k_asme)))
      = md_hmac lib (mil_f3 lib K opc rand @ mil_f4 lib K opc rand) (kdf_string 0x10 [plmn_octets mcc mnc, take 6 autn])"
    using kasme_spec [of lib "mil_f3 lib K opc rand" "mil_f4 lib K opc rand" ak sqn k_asme mcc mnc]
      lib opc args l by (simp add: x)
  have cmp: "compare_autn (take 6 autn @ amf @ mil_f1 lib K opc rand sqn amf) autn
      = (if drop 8 autn = mil_f1 lib K opc rand sqn amf then AUTH_OK else AUTH_FAILED)"
    using l args acc by (subst compare_autn_iff) simp_all
  show ?thesis
    unfolding gen_auth_res_milenage_def K_def [symmetric] opc_def [symmetric] f2345 prod.case Let_def option.sel
    using sq f1 ka cmp au t8 by (simp add: K_def opc_def flip: append_assoc)
qed


text \<open>The XOR algorithm of TS 34.108 8.1.2.\<close>

definition xor_ck :: "bytes \<Rightarrow> bytes \<Rightarrow> bytes" where
  "xor_ck k rand = rotate 1 (xor_bytes k rand)"

definition xor_ik :: "bytes \<Rightarrow> bytes \<Rightarrow> bytes" where
  "xor_ik k rand = rotate 2 (xor_bytes k rand)"

definition xor_ak :: "bytes \<Rightarrow> bytes \<Rightarrow> bytes" where
  "xor_ak k rand = take 6 (drop 3 (xor_bytes k rand))"

definition xor_mac :: "bytes \<Rightarrow> bytes \<Rightarrow> bytes \<Rightarrow> bytes \<Rightarrow> bytes" where
  "xor_mac k rand sqn amf = xor_bytes (take 8 (xor_bytes k rand)) (sqn @ amf)"

lemma length_xor_algo [simp]:
  assumes "length k = 16" "length rand = 16"
  shows "length (xor_ck k rand) = 16" "length (xor_ik k rand) = 16" "length (xor_ak k rand) = 6"
    "length sqn = 6 \<Longrightarrow> length amf = 2 \<Longrightarrow> length (xor_mac k rand sqn amf) = 8"
  using assms by (simp_all add: xor_ck_def xor_ik_def xor_ak_def xor_mac_def)

lemma map_rotate: "length xs = n \<Longrightarrow> map (\<lambda>i. xs ! ((i + k) mod n)) [0..<n] = rotate k xs"
  by (rule nth_equalityI) (simp_all add: nth_rotate add.commute)

lemma xor_loops_algo:
  assumes "length k = 16" "length rand = 16" "length res = 16" "length ck = 16" "length ik = 16" "length ak = 6"
  defines "xdout \<equiv> map (\<lambda>i. k ! i XOR rand ! i) [0..<16]"
  shows "xdout = xor_bytes k rand"
    and "fill 16 (\<lambda>i. i) (\<lambda>i. xdout ! i) res = xor_bytes k rand"
    and "fill 16 (\<lambda>i. i) (\<lambda>i. xdout ! ((i + 1) mod 16)) ck = xor_ck k rand"
    and "fill 16 (\<lambda>i. i) (\<lambda>i. xdout ! ((i + 2) mod 16)) ik = xor_ik k rand"
    and "fill 6 (\<lambda>i. i) (\<lambda>i. xdout ! (i + 3)) ak = xor_ak k rand"
proof -
  show x: "xdout = xor_bytes k rand"
    using assms by (auto intro!: nth_equalityI)
  have l: "length (xor_bytes k rand) = 16" using assms by simp
  show "fill 16 (\<lambda>i. i) (\<lambda>i. xdout ! i) res = xor_bytes k rand"
    using assms l by (simp add: x fill_map)
  show "fill 16 (\<lambda>i. i) (\<lambda>i. xdout ! ((i + 1) mod 16)) ck = xor_ck k rand"
    "fill 16 (\<lambda>i. i) (\<lambda>i. xdout ! ((i + 2) mod 16)) ik = xor_ik k rand"
    unfolding x xor_ck_def xor_ik_def
    using map_rotate [OF l, of 1] map_rotate [OF l, of 2] assms(4,5) by (simp_all add: fill_map)
  show "fill 6 (\<lambda>i. i) (\<lambda>i. xdout ! (i + 3)) ak = xor_ak k rand"
    unfolding x using assms(6) l by (auto intro!: nth_equalityI simp: fill_map xor_ak_def add.commute)
qed

lemma xor_response:
  assumes lib: "hmac_32 lib"
    and u: "usim_sizes u"
    and args: "length rand = 16" "length autn = 16" "length res = 16" "length k_asme = 32"
  defines "K \<equiv> u_k u"
  defines "ak \<equiv> xor_ak K rand"
  defines "sqn \<equiv> xor_bytes (take 6 autn) ak" and "amf \<equiv> take 2 (drop 6 autn)"
  shows "gen_auth_res_xor lib u rand autn mcc mnc res k_asme =
    (if drop 8 autn = xor_mac K rand sqn amf then AUTH_OK else AUTH_FAILED,
     xor_bytes K rand, 8,
     md_hmac lib (xor_ck K rand @ xor_ik K rand) (kdf_string 0x10 [plmn_octets mcc mnc, take 6 autn]),
     u\<lparr>u_ck := xor_ck K rand, u_ik := xor_ik K rand, u_ak := ak, u_amf := amf,
       u_mac := xor_mac K rand sqn amf, u_autn := take 8 autn @ xor_mac K rand sqn amf\<rparr>)"
proof -
  note s = u [unfolded usim_sizes_def]
  have k: "length K = 16" using s by (simp add: K_def)
  have l: "length ak = 6" "length sqn = 6" "length amf = 2" "length (xor_mac K rand sqn amf) = 8"
    using k args by (simp_all add: ak_def sqn_def amf_def)
  have x: "xor_bytes sqn ak = take 6 autn"
    unfolding sqn_def using args l by (intro xor_bytes_cancel) simp
  have t8: "take 6 autn @ amf = take 8 autn"
    using take_add [of 6 2 autn] by (simp add: amf_def)
  have acc: "take 6 autn @ amf @ xor_mac K rand sqn amf = autn \<longleftrightarrow> drop 8 autn = xor_mac K rand sqn amf"
    using autn_accept [OF args(2) l(1,4)] x by (auto simp: sqn_def amf_def)
  let ?u = "u\<lparr>u_ck := xor_ck K rand, u_ik := xor_ik K rand, u_ak := ak, u_amf := amf,
      u_mac := xor_mac K rand sqn amf\<rparr>"
  have au: "usim_autn ?u sqn = take 6 autn @ amf @ xor_mac K rand sqn amf"
    using s l by (subst usim_autn_spec) (simp_all add: x)
  have loops: "map (\<lambda>i. K ! i XOR rand ! i) [0..<16] = xor_bytes K rand"
    "fill 16 (\<lambda>i. i) (\<lambda>i. xor_bytes K rand ! i) res = xor_bytes K rand"
    "fill 16 (\<lambda>i. i) (\<lambda>i. xor_bytes K rand ! ((i + 1) mod 16)) (u_ck u) = xor_ck K rand"
    "fill 16 (\<lambda>i. i) (\<lambda>i. xor_bytes K rand ! ((i + 2) mod 16)) (u_ik u) = xor_ik K rand"
    "fill 6 (\<lambda>i. i) (\<lambda>i. xor_bytes K rand ! (i + 3)) (u_ak u) = ak"
    using xor_loops_algo [OF k args(1,3), of "u_ck u" "u_ik u" "u_ak u"] s by (simp_all add: ak_def)
  have sq: "map (\<lambda>i. autn ! i XOR ak ! i) [0..<6] = sqn" "fill 2 (\<lambda>i. i) (\<lambda>i. autn ! (6 + i)) (u_amf u) = amf"
    using autn_fields [OF args(2) l(1)] s by (simp_all add: sqn_def amf_def)
  have cd: "map (\<lambda>i. sqn ! i) [0..<6] @ map (\<lambda>i. amf ! i) [0..<2] = sqn @ amf"
    using l map_nth [of sqn] map_nth [of amf] by simp
  have mac: "fill 8 (\<lambda>i. i) (\<lambda>i. xor_bytes K rand ! i XOR (sqn @ amf) ! i) (u_mac u) = xor_mac K rand sqn amf"
    using s l k args by (auto intro!: nth_equalityI simp: fill_map xor_mac_def)
  have ka: "the (snd (liblte_security_generate_k_asme lib (Some (xor_ck K rand)) (Some (xor_ik K rand))
        (Some ak) (Some sqn) mcc mnc (Some k_asme)))
      = md_hmac lib (xor_ck K rand @ xor_ik K rand) (kdf_string 0x10 [plmn_octets mcc mnc, take 6 autn])"
    using kasme_spec [of lib "xor_ck K rand" "xor_ik K rand" ak sqn k_asme mcc mnc]
      lib k args l by (simp add: x)
  have cmp: "compare_autn (take 6 autn @ amf @ xor_mac K rand sqn amf) autn
      = (if drop 8 autn = xor_mac K rand sqn amf then AUTH_OK else AUTH_FAILED)"
    using l args acc by (subst compare_autn_iff) simp_all
  show ?thesis
    unfolding gen_auth_res_xor_def K_def [symmetric] Let_def loops
    using sq cd mac ka cmp au t8 loops by (simp add: K_def flip: append_assoc)
qed


section \<open>The key chain of handovers\<close>

definition kdf_nh :: "ssl_lib \<Rightarrow> bytes \<Rightarrow> bytes \<Rightarrow> bytes" where
  "kdf_nh lib k_asme sync = md_hmac lib k_asme (kdf_string 0x12 [sync])"

definition kdf_k_enb_star :: "ssl_lib \<Rightarrow> bytes \<Rightarrow> u32 \<Rightarrow> u32 \<Rightarrow> bytes" where
  "kdf_k_enb_star lib k pci earfcn = md_hmac lib k (kdf_string 0x13 [be16 (unat pci), be16 (unat earfcn)])"

definition chain_root :: "bytes \<Rightarrow> k_enb_context \<Rightarrow> bytes" where
  "chain_root k_enb_initial ctx = (if kc_is_first_ncc ctx then k_enb_initial else kc_nh ctx)"

lemma nh_step_spec:
  assumes "hmac_32 lib" "length k_asme = 32" "length k0 = 32" "length (kc_nh ctx) = 32" "unat (kc_ncc ctx) < 8"
  shows "nh_step lib k_asme k0 ctx = ctx\<lparr>kc_nh := kdf_nh lib k_asme (chain_root k0 ctx),
      kc_is_first_ncc := False, kc_ncc := of_nat ((unat (kc_ncc ctx) + 1) mod 8)\<rparr>"
proof -
  have c: "(if kc_ncc ctx + 1 = 8 then 0 else kc_ncc ctx + 1) = of_nat ((unat (kc_ncc ctx) + 1) mod 8)"
  proof (rule word_unat_eq_iff [THEN iffD2])
    have u: "unat (kc_ncc ctx + 1) = unat (kc_ncc ctx) + 1"
      using assms(5) by (simp add: unat_word_ariths)
    then have "kc_ncc ctx + 1 = 8 \<longleftrightarrow> unat (kc_ncc ctx) + 1 = 8"
      by (simp add: word_unat_eq_iff)
    then show "unat (if kc_ncc ctx + 1 = 8 then 0 else kc_ncc ctx + 1)
        = unat (of_nat ((unat (kc_ncc ctx) + 1) mod 8) :: u32)"
      using u assms(5) by (auto simp: unat_of_nat)
  qed
  have g: "the (snd (liblte_security_generate_nh lib (Some k_asme) (Some s) (Some (kc_nh ctx)))) = kdf_nh lib k_asme s"
    if "length s = 32" for s
    using that assms
    by (simp add: liblte_security_generate_nh_def S_nh_spec sha256_def kdf_nh_def hmac_32_def kdf_string_def be16_def)
  show ?thesis
    using assms c g [of k0] g [of "kc_nh ctx"]
    by (cases "kc_is_first_ncc ctx") (auto simp: nh_step_def chain_root_def Let_def)
qed


lemma length_kdf_nh [simp]: "hmac_32 lib \<Longrightarrow> length (kdf_nh lib k_asme x) = 32"
  by (simp add: kdf_nh_def hmac_32_def)

lemma nh_steps_spec:
  assumes "hmac_32 lib" "length k_asme = 32" "length k0 = 32" "length (kc_nh ctx) = 32" "unat (kc_ncc ctx) < 8"
  shows "(nh_step lib k_asme k0 ^^ Suc m) ctx
    = ctx\<lparr>kc_nh := (kdf_nh lib k_asme ^^ Suc m) (chain_root k0 ctx),
      kc_is_first_ncc := False, kc_ncc := of_nat ((unat (kc_ncc ctx) + Suc m) mod 8)\<rparr>"
proof (induction m)
  case 0
  then show ?case using nh_step_spec [OF assms] by simp
next
  case (Suc m)
  let ?c = "(nh_step lib k_asme k0 ^^ Suc m) ctx"
  have u: "unat (of_nat (x mod 8) :: u32) = x mod 8" for x
    by (simp add: unat_of_nat)
  have "length (kc_nh ?c) = 32" "unat (kc_ncc ?c) < 8"
    unfolding Suc.IH using assms(1) by (simp_all add: u del: of_nat_Suc)
  then have "nh_step lib k_asme k0 ?c = ?c\<lparr>kc_nh := kdf_nh lib k_asme (chain_root k0 ?c),
      kc_is_first_ncc := False, kc_ncc := of_nat ((unat (kc_ncc ?c) + 1) mod 8)\<rparr>"
    by (intro nh_step_spec assms)
  moreover have "chain_root k0 ?c = (kdf_nh lib k_asme ^^ Suc m) (chain_root k0 ctx)"
    unfolding Suc.IH by (simp add: chain_root_def)
  moreover have "(unat (kc_ncc ?c) + 1) mod 8 = (unat (kc_ncc ctx) + Suc (Suc m)) mod 8"
  proof -
    have kc: "kc_ncc ?c = of_nat ((unat (kc_ncc ctx) + Suc m) mod 8)"
      unfolding Suc.IH by simp
    show ?thesis unfolding kc u by (simp add: mod_simps)
  qed
  ultimately have "nh_step lib k_asme k0 ?c = ?c\<lparr>kc_nh := kdf_nh lib k_asme ((kdf_nh lib k_asme ^^ Suc m) (chain_root k0 ctx)),
      kc_is_first_ncc := False, kc_ncc := of_nat ((unat (kc_ncc ctx) + Suc (Suc m)) mod 8)\<rparr>"
    by simp
  also have "\<dots> = ctx\<lparr>kc_nh := kdf_nh lib k_asme ((kdf_nh lib k_asme ^^ Suc m) (chain_root k0 ctx)),
      kc_is_first_ncc := False, kc_ncc := of_nat ((unat (kc_ncc ctx) + Suc (Suc m)) mod 8)\<rparr>"
    unfolding Suc.IH by simp
  finally show ?case
    by (simp only: funpow.simps(2) [of "Suc m"] comp_apply)
qed

definition ncc_steps :: "u32 \<Rightarrow> u32 \<Rightarrow> nat" where
  "ncc_steps cur ncc = (unat ncc + 8 - unat cur) mod 8"

lemma nh_loop_steps:
  assumes "hmac_32 lib" "length k_asme = 32" "length k0 = 32" "unat ncc < 8"
  shows "length (kc_nh ctx) = 32 \<Longrightarrow> unat (kc_ncc ctx) < 8 \<Longrightarrow> ncc_steps (kc_ncc ctx) ncc = m \<Longrightarrow>
    nh_loop lib k_asme k0 ncc (ctx, b) = Some ((nh_step lib k_asme k0 ^^ m) ctx, b \<or> 0 < m)"
proof (induction m arbitrary: ctx b)
  case 0
  then have "unat (kc_ncc ctx) = unat ncc"
    using assms(4) by (auto simp: ncc_steps_def mod_if split: if_splits)
  then have "kc_ncc ctx = ncc" by (simp add: word_unat_eq_iff)
  then show ?case by (subst nh_loop.simps) simp
next
  case (Suc m)
  let ?c = "nh_step lib k_asme k0 ctx"
  have step: "?c = ctx\<lparr>kc_nh := kdf_nh lib k_asme (chain_root k0 ctx), kc_is_first_ncc := False,
      kc_ncc := of_nat ((unat (kc_ncc ctx) + 1) mod 8)\<rparr>"
    using assms Suc.prems by (intro nh_step_spec) simp_all
  have ne: "kc_ncc ctx \<noteq> ncc" using Suc.prems(3) by (auto simp: ncc_steps_def)
  have u: "unat (of_nat ((unat (kc_ncc ctx) + 1) mod 8) :: u32) = (unat (kc_ncc ctx) + 1) mod 8"
    by (simp add: unat_of_nat)
  have "ncc_steps (kc_ncc ?c) ncc = m"
    using Suc.prems(2,3) assms(4) u by (auto simp: ncc_steps_def step mod_if split: if_splits)
  then have "nh_loop lib k_asme k0 ncc (?c, True) = Some ((nh_step lib k_asme k0 ^^ m) ?c, True)"
    using Suc.IH [of ?c True] assms u by (simp add: step)
  then show ?case using ne by (subst nh_loop.simps) (simp add: funpow_swap1)
qed

text \<open>A target above 7 is never reached.\<close>

lemma nh_loop_diverges:
  assumes "8 \<le> unat ncc" "unat (kc_ncc (fst s)) < 8"
  shows "nh_loop lib k_asme k0 ncc s = None"
proof -
  have step8: "unat (kc_ncc (nh_step l ka k ctx)) < 8" if "unat (kc_ncc ctx) < 8" for l ka k ctx
  proof -
    have "unat (kc_ncc ctx + 1) = unat (kc_ncc ctx) + 1"
      using that by (simp add: unat_word_ariths)
    moreover from this have "kc_ncc ctx + 1 \<noteq> 8 \<Longrightarrow> unat (kc_ncc ctx) + 1 \<noteq> 8"
      by (auto simp: word_unat_eq_iff)
    ultimately show ?thesis
      using that by (auto simp: nh_step_def Let_def)
  qed
  have "n = ncc \<longrightarrow> \<not> unat (kc_ncc (fst s)) < 8" if "nh_loop l ka k n s = Some y" for l ka k n s y
  proof (rule nh_loop.raw_induct [where P = "\<lambda>l ka k n s y. n = ncc \<longrightarrow> \<not> unat (kc_ncc (fst s)) < 8", OF _ that])
    fix loop l ka k n s y
    assume 1: "\<And>l ka k n s y. loop l ka k n s = Some y \<Longrightarrow> n = ncc \<longrightarrow> \<not> unat (kc_ncc (fst s)) < 8"
      "(if kc_ncc (fst s) \<noteq> n then loop l ka k n (nh_step l ka k (fst s), True) else Some s) = Some y"
    show "n = ncc \<longrightarrow> \<not> unat (kc_ncc (fst s)) < 8"
    proof (cases "kc_ncc (fst s) = n")
      case True
      then show ?thesis using assms(1) by auto
    next
      case False
      then have "loop l ka k n (nh_step l ka k (fst s), True) = Some y" using 1(2) by simp
      then have "n = ncc \<longrightarrow> \<not> unat (kc_ncc (nh_step l ka k (fst s))) < 8" using 1(1) by fastforce
      then show ?thesis using step8 by auto
    qed
  qed
  then show ?thesis using assms(2) by (cases "nh_loop lib k_asme k0 ncc s") blast+
qed


section \<open>The algorithms side by side\<close>

text \<open>What either algorithm prescribes: MAC, RES, CK, IK and AK.\<close>

definition aka_mac :: "ssl_lib \<Rightarrow> auth_algo \<Rightarrow> bytes \<Rightarrow> bytes \<Rightarrow> bytes \<Rightarrow> bytes \<Rightarrow> bytes \<Rightarrow> bytes" where
  "aka_mac lib algo k opc rand sqn amf =
    (case algo of auth_algo_milenage \<Rightarrow> mil_f1 lib k opc rand sqn amf | auth_algo_xor \<Rightarrow> xor_mac k rand sqn amf)"

definition aka_res :: "ssl_lib \<Rightarrow> auth_algo \<Rightarrow> bytes \<Rightarrow> bytes \<Rightarrow> bytes \<Rightarrow> bytes" where
  "aka_res lib algo k opc rand =
    (case algo of auth_algo_milenage \<Rightarrow> mil_f2 lib k opc rand | auth_algo_xor \<Rightarrow> take 8 (xor_bytes k rand))"

definition aka_ck :: "ssl_lib \<Rightarrow> auth_algo \<Rightarrow> bytes \<Rightarrow> bytes \<Rightarrow> bytes \<Rightarrow> bytes" where
  "aka_ck lib algo k opc rand =
    (case algo of auth_algo_milenage \<Rightarrow> mil_f3 lib k opc rand | auth_algo_xor \<Rightarrow> xor_ck k rand)"

definition aka_ik :: "ssl_lib \<Rightarrow> auth_algo \<Rightarrow> bytes \<Rightarrow> bytes \<Rightarrow> bytes \<Rightarrow> bytes" where
  "aka_ik lib algo k opc rand =
    (case algo of auth_algo_milenage \<Rightarrow> mil_f4 lib k opc rand | auth_algo_xor \<Rightarrow> xor_ik k rand)"

definition aka_ak :: "ssl_lib \<Rightarrow> auth_algo \<Rightarrow> bytes \<Rightarrow> bytes \<Rightarrow> bytes \<Rightarrow> bytes" where
  "aka_ak lib algo k opc rand =
    (case algo of auth_algo_milenage \<Rightarrow> mil_f5 lib k opc rand | auth_algo_xor \<Rightarrow> xor_ak k rand)"

text \<open>K_ASME, with SQN already concealed under AK as AUTN carries it.\<close>

definition aka_k_asme :: "ssl_lib \<Rightarrow> auth_algo \<Rightarrow> bytes \<Rightarrow> bytes \<Rightarrow> bytes \<Rightarrow> bytes \<Rightarrow> u16 \<Rightarrow> u16 \<Rightarrow> bytes" where
  "aka_k_asme lib algo k opc rand sqn_ak mcc mnc =
    md_hmac lib (aka_ck lib algo k opc rand @ aka_ik lib algo k opc rand)
      (kdf_string 0x10 [plmn_octets mcc mnc, sqn_ak])"

lemmas aka_defs = aka_mac_def aka_res_def aka_ck_def aka_ik_def aka_ak_def aka_k_asme_def

lemma length_aka:
  assumes "ecb_16 lib" "length k = 16" "length opc = 16" "length rand = 16"
  shows "length (aka_res lib algo k opc rand) = 8" "length (aka_ck lib algo k opc rand) = 16"
    "length (aka_ik lib algo k opc rand) = 16" "length (aka_ak lib algo k opc rand) = 6"
    "length sqn = 6 \<Longrightarrow> length amf = 2 \<Longrightarrow> length (aka_mac lib algo k opc rand sqn amf) = 8"
  using assms by (cases algo; simp add: aka_defs)+

lemma authentication_response:
  assumes lib: "ecb_16 lib" "hmac_32 lib"
    and u: "usim_sizes u"
    and args: "length rand = 16" "length autn = 16" "length res = 16" "length k_asme = 32"
  defines "algo \<equiv> u_auth_algo u" and "K \<equiv> u_k u" and "opc \<equiv> u_opc u"
  defines "ak \<equiv> aka_ak lib algo K opc rand"
  defines "sqn \<equiv> xor_bytes (take 6 autn) ak" and "amf \<equiv> take 2 (drop 6 autn)"
  defines "mac \<equiv> aka_mac lib algo K opc rand sqn amf"
  shows "\<exists>res'. take 8 res' = aka_res lib algo K opc rand \<and> length res' = 16 \<and>
    generate_authentication_response lib u rand autn mcc mnc res k_asme =
    (if drop 8 autn = mac then AUTH_OK else AUTH_FAILED, res', 8,
     aka_k_asme lib algo K opc rand (take 6 autn) mcc mnc,
     u\<lparr>u_ck := aka_ck lib algo K opc rand, u_ik := aka_ik lib algo K opc rand, u_ak := ak, u_amf := amf,
       u_mac := mac, u_autn := take 8 autn @ mac\<rparr>)"
proof (cases algo)
  case auth_algo_milenage
  have "length (mil_f2 lib K opc rand) = 8"
    using lib u args by (simp add: opc_def usim_sizes_def)
  then show ?thesis
    using auth_algo_milenage milenage_response [OF lib u args] args(3) lib
    by (intro exI [of _ "put res (mil_f2 lib K opc rand)"])
      (auto simp: generate_authentication_response_def algo_def K_def opc_def ak_def sqn_def amf_def mac_def aka_defs)
next
  case auth_algo_xor
  then show ?thesis
    using xor_response [OF lib(2) u args] args(1) u
    by (intro exI [of _ "xor_bytes K rand"])
      (auto simp: generate_authentication_response_def algo_def K_def opc_def ak_def sqn_def amf_def mac_def aka_defs
        usim_sizes_def)
qed

section \<open>Identity digits\<close>

lemma char_int_digit:
  assumes "isdigit c"
  shows "(word_of_int (char_int c - char_int CHR ''0'') :: u64) = of_nat (dnat c)"
proof -
  have "(of_char c :: int) = int (of_char c)" by (simp only: of_nat_of_char)
  also have "... = int (dnat c) + 48" using isdigit_dnat [OF assms] by simp
  finally have "char_int c - char_int CHR ''0'' = int (dnat c)"
    using isdigit_dnat [OF assms] by (simp add: char_int_def)
  then show ?thesis by simp
qed

lemma decimal15_decval:
  assumes "list_all isdigit s" "length s = 15"
  shows "decimal15 s = of_nat (decval s)"
proof -
  have "fold (\<lambda>i v. v * 10 + word_of_int (char_int (s ! i) - char_int CHR ''0'')) [0..<n] (0 :: u64)
      = of_nat (decval (take n s))" if "n \<le> 15" for n
    using that
  proof (induction n)
    case (Suc n)
    then have "take (Suc n) s = take n s @ [s ! n]" "isdigit (s ! n)"
      using assms by (simp_all add: take_Suc_conv_app_nth list_all_length)
    then show ?case using Suc by (simp add: char_int_digit del: of_int_diff)
  qed simp
  from this [of 15] show ?thesis using assms(2) by (simp add: decimal15_def)
qed

lemma decimal_vec_decval:
  assumes "list_all isdigit s" "length s = 15" "length vec = 15"
  shows "decimal_vec (of_nat (decval s)) vec = map digit_value s"
proof -
  have "fold (\<lambda>j (vec, temp). (vec[14 - j := ucast (temp mod 10)], temp div 10)) [0..<m] (vec, of_nat (decval s) :: u64)
      = (take (15 - m) vec @ map digit_value (drop (15 - m) s), of_nat (decval (take (15 - m) s)))" if "m \<le> 15" for m
    using that
  proof (induction m)
    case 0
    then show ?case using assms by simp
  next
    case (Suc m)
    define k where "k = 14 - m"
    have k: "15 - m = Suc k" "15 - Suc m = k" "k < 15" using Suc.prems by (auto simp: k_def)
    have t: "take (Suc k) s = take k s @ [s ! k]" and d: "isdigit (s ! k)"
      using k(3) assms by (simp_all add: take_Suc_conv_app_nth list_all_length)
    let ?v = "decval (take k s)"
    have "?v < 10 ^ length (take k s)"
      using assms by (intro decval_bound) (auto simp: list_all_iff dest: in_set_takeD)
    also have "... \<le> 10 ^ 14" using k(3) by (intro power_increasing) auto
    finally have b: "?v * 10 + dnat (s ! k) < 2 ^ 64" using isdigit_dnat [OF d] by simp
    define N where "N = ?v * 10 + dnat (s ! k)"
    have u: "unat (of_nat N :: u64) = N" "N mod 10 = dnat (s ! k)" "N div 10 = ?v" "?v < 2 ^ 64"
      using b isdigit_dnat [OF d] by (simp_all add: N_def unat_of_nat del: of_nat_add of_nat_mult)
    have w: "(of_nat N :: u64) mod 10 = of_nat (dnat (s ! k))" "(of_nat N :: u64) div 10 = of_nat ?v"
      using u isdigit_dnat [OF d]
      by (simp_all add: word_unat_eq_iff unat_mod unat_div unat_of_nat)
    have dg: "(ucast (of_nat (dnat (s ! k)) :: u64) :: u8) = digit_value (s ! k)"
      using isdigit_dnat [OF d] upto9 [of "dnat (s ! k)"] by auto
    have "drop k s = s ! k # drop (Suc k) s" using k(3) assms by (simp add: Cons_nth_drop_Suc)
    then have "(take (Suc k) vec @ map digit_value (drop (Suc k) s))[k := digit_value (s ! k)]
        = take k vec @ map digit_value (drop k s)"
      using assms k(3) by (simp add: take_Suc_conv_app_nth list_update_append)
    then show ?case
      using Suc k t w dg by (simp add: k_def [symmetric] N_def del: of_nat_add of_nat_mult)
  qed
  from this [of 15] show ?thesis by (simp add: decimal_vec_def)
qed

lemma concat_digits:
  assumes "list_all isdigit s" "m \<le> n" "n \<le> length s"
  shows "concat (map (\<lambda>i. dec_str (unat (map digit_value s ! i))) [m..<n]) = take (n - m) (drop m s)"
proof -
  have "map (\<lambda>i. dec_str (unat (map digit_value s ! i))) [m..<n] = map (\<lambda>i. [s ! i]) [m..<n]"
    using assms by (auto simp: list_all_length dec_str_digit)
  moreover have "concat (map (\<lambda>i. [s ! i]) [m..<n]) = map ((!) s) [m..<n]"
    by (induction n) simp_all
  moreover have "... = take (n - m) (drop m s)"
    using assms by (auto intro!: nth_equalityI)
  ultimately show ?thesis by metis
qed

lemma usim_init_imsi:
  assumes "length (arg_imsi args) = 15"
  shows "u_imsi (usim_init lib args u) = decimal15 (arg_imsi args) \<and> u_initiated (usim_init lib args u)"
  using assms by (simp add: usim_init_def Let_def)

lemma get_imsi_vec_digits:
  assumes "list_all isdigit (arg_imsi args)" "length (arg_imsi args) = 15" "length vec = 15" "15 \<le> n"
  shows "get_imsi_vec (usim_init lib args u) (Some vec) n = (True, Some (map digit_value (arg_imsi args)))"
proof -
  have "\<not> n < 15" using assms(4) by (simp add: not_less)
  then show ?thesis
    using assms usim_init_imsi [of args lib u]
    by (simp add: get_imsi_vec_def decimal15_decval decimal_vec_decval)
qed

definition home_plmn_length :: "string \<Rightarrow> nat" where
  "home_plmn_length imsi = (if take 3 imsi \<in> {''310'', ''311'', ''312'', ''313'', ''316''} then 6 else 5)"

lemma home_plmn_digits:
  assumes "list_all isdigit (arg_imsi args)" "length (arg_imsi args) = 15"
  shows "get_home_plmn_id (usim_init lib args u) p = plmn_from_string p (take (home_plmn_length (arg_imsi args)) (arg_imsi args))"
proof -
  let ?s = "arg_imsi args"
  have v: "the (snd (get_imsi_vec (usim_init lib args u) (Some (replicate 15 0)) 15)) = map digit_value ?s"
    using get_imsi_vec_digits [OF assms, of "replicate 15 0" 15] by simp
  have mcc: "get_mcc_str (map digit_value ?s) = take 3 ?s"
    using concat_digits [OF assms(1), of 0 3] assms by (simp add: get_mcc_str_def)
  have mnc: "get_mnc_str (map digit_value ?s) (take 3 ?s) = take (home_plmn_length ?s - 3) (drop 3 ?s)"
    using concat_digits [OF assms(1), of 3 5] concat_digits [OF assms(1), of 3 6] assms
    by (auto simp: get_mnc_str_def home_plmn_length_def Let_def)
  have "take 3 ?s @ take (home_plmn_length ?s - 3) (drop 3 ?s) = take (home_plmn_length ?s) ?s"
    using take_add [of 3 "home_plmn_length ?s - 3" ?s] by (simp add: home_plmn_length_def)
  then show ?thesis
    using usim_init_imsi [OF assms(2), of lib u] unfolding get_home_plmn_id_def v Let_def mcc mnc by simp
qed

lemma as_keys_spec:
  assumes "hmac_32 lib" "length k_enb = 32" "length (sec_k_rrc_enc cfg) = 32" "length (sec_k_rrc_int cfg) = 32"
    "length (sec_k_up_enc cfg) = 32" "length (sec_k_up_int cfg) = 32"
  defines "key \<equiv> \<lambda>p alg. md_hmac lib k_enb (kdf_string 0x15 [[p], [alg]])"
  shows "as_keys lib k_enb cfg = cfg\<lparr>sec_k_rrc_enc := key 3 (eea_id (sec_cipher_algo cfg)),
      sec_k_rrc_int := key 4 (eia_id (sec_integ_algo cfg)), sec_k_up_enc := key 5 (eea_id (sec_cipher_algo cfg)),
      sec_k_up_int := key 6 (eia_id (sec_integ_algo cfg))\<rparr>"
proof -
  have "length (kdf_string 0x15 [[p], [a]]) = 7" for p a by (simp add: kdf_string_def be16_def)
  then show ?thesis
    using assms
    by (simp add: as_keys_def liblte_security_generate_k_rrc_def liblte_security_generate_k_up_def S_specs
        sha256_def hmac_32_def key_def)
qed

lemma k_enb_star_spec:
  assumes "hmac_32 lib" "length k = 32" "length buf = 32"
  shows "the (snd (liblte_security_generate_k_enb_star lib (Some k) pci earfcn (Some buf))) = kdf_k_enb_star lib k pci earfcn"
  using assms by (simp add: liblte_security_generate_k_enb_star_def S_k_enb_star_spec sha256_def kdf_k_enb_star_def
      kdf_string_def be16_def hmac_32_def)

definition sec_sizes :: "as_security_config \<Rightarrow> bool" where
  "sec_sizes cfg \<longleftrightarrow> length (sec_k_rrc_enc cfg) = 32 \<and> length (sec_k_rrc_int cfg) = 32 \<and>
    length (sec_k_up_enc cfg) = 32 \<and> length (sec_k_up_int cfg) = 32"

text \<open>The key a handover to NCC \<open>ncc\<close> starts from: NH of that NCC, or the current K_eNB if NCC stays.\<close>

definition handover_base :: "ssl_lib \<Rightarrow> usim \<Rightarrow> u32 \<Rightarrow> bytes" where
  "handover_base lib u ncc =
    (let ctx = u_k_enb_ctx u; m = ncc_steps (kc_ncc ctx) ncc
     in if m = 0 then kc_k_enb ctx
        else (kdf_nh lib (u_k_asme u) ^^ m) (chain_root (u_k_enb_initial u) ctx))"

definition target_ncc :: "usim \<Rightarrow> int \<Rightarrow> u32" where
  "target_ncc u ncc = (if ncc < 0 then kc_ncc (u_k_enb_ctx u) else word_of_int ncc)"

lemma length_funpow_nh:
  "hmac_32 lib \<Longrightarrow> length x = 32 \<Longrightarrow> length ((kdf_nh lib k_asme ^^ m) x) = 32"
  by (cases m) simp_all

lemma handover_result:
  fixes pci earfcn :: u32
  assumes lib: "hmac_32 lib" and u: "usim_sizes u" "u_initiated u" "unat (kc_ncc (u_k_enb_ctx u)) < 8"
    and ncc: "unat (target_ncc u ncc) < 8"
  defines "m \<equiv> ncc_steps (kc_ncc (u_k_enb_ctx u)) (target_ncc u ncc)"
  defines "k \<equiv> kdf_k_enb_star lib (handover_base lib u (target_ncc u ncc)) pci earfcn"
  shows "generate_as_keys_ho lib u pci earfcn ncc cfg
    = Some (as_keys lib k cfg, u\<lparr>u_k_enb_star := k,
        u_k_enb_ctx := ((nh_step lib (u_k_asme u) (u_k_enb_initial u) ^^ m) (u_k_enb_ctx u))\<lparr>kc_k_enb := k\<rparr>\<rparr>)"
proof -
  let ?ctx = "u_k_enb_ctx u"
  let ?c = "(nh_step lib (u_k_asme u) (u_k_enb_initial u) ^^ m) ?ctx"
  have s: "length (u_k_asme u) = 32" "length (u_k_enb_initial u) = 32" "length (kc_nh ?ctx) = 32"
    "length (kc_k_enb ?ctx) = 32" "length (u_k_enb_star u) = 32"
    using u(1) by (simp_all add: usim_sizes_def)
  have steps: "?c = (if m = 0 then ?ctx else ?ctx\<lparr>kc_nh := (kdf_nh lib (u_k_asme u) ^^ m) (chain_root (u_k_enb_initial u) ?ctx),
      kc_is_first_ncc := False, kc_ncc := of_nat ((unat (kc_ncc ?ctx) + m) mod 8)\<rparr>)"
    using nh_steps_spec [OF lib s(1,2,3) u(3), of "m - 1"] by (cases m) simp_all
  have base: "0 < m \<Longrightarrow> kc_nh ?c = handover_base lib u (target_ncc u ncc)"
    "m = 0 \<Longrightarrow> kc_k_enb ?ctx = handover_base lib u (target_ncc u ncc)"
    unfolding steps handover_base_def Let_def m_def [symmetric] by simp_all
  have "length (chain_root (u_k_enb_initial u) ?ctx) = 32" using s by (simp add: chain_root_def)
  then have lb: "length (handover_base lib u (target_ncc u ncc)) = 32"
    using lib s by (simp add: handover_base_def Let_def length_funpow_nh)
  have lk: "length k = 32" using lib by (simp add: k_def kdf_k_enb_star_def hmac_32_def)
  have ke: "kc_k_enb ?c = kc_k_enb ?ctx" unfolding steps by simp
  have loop: "nh_loop lib (u_k_asme u) (u_k_enb_initial u) (target_ncc u ncc) (?ctx, False) = Some (?c, 0 < m)"
    using nh_loop_steps [OF lib s(1,2) ncc s(3) u(3) m_def [THEN meta_eq_to_obj_eq, symmetric], of False] by simp
  have star: "the (snd (liblte_security_generate_k_enb_star lib (Some (handover_base lib u (target_ncc u ncc))) pci earfcn
      (Some (u_k_enb_star u)))) = k"
    unfolding k_def using lib lb s by (intro k_enb_star_spec)
  have "put (kc_k_enb ?ctx) (take 32 k) = k"
    using s lk by simp
  then show ?thesis
    unfolding generate_as_keys_ho_def target_ncc_def [symmetric] Let_def loop option.map prod.case ke
    using u(2) base star by (cases "m = 0") simp_all
qed

lemma ncc_steps_reach:
  assumes "unat cur < 8" "unat ncc < 8"
  shows "of_nat ((unat cur + ncc_steps cur ncc) mod 8) = ncc" "ncc_steps cur ncc = 0 \<Longrightarrow> cur = ncc"
proof -
  have "(unat cur + ncc_steps cur ncc) mod 8 = unat ncc"
    using assms by (simp add: ncc_steps_def mod_simps)
  then show "of_nat ((unat cur + ncc_steps cur ncc) mod 8) = ncc" by simp
  then show "cur = ncc" if "ncc_steps cur ncc = 0" using that assms(1) by simp
qed

lemma unat_word_of_int_small: "0 \<le> i \<Longrightarrow> i < 2 ^ 32 \<Longrightarrow> unat (word_of_int i :: u32) = nat i"
  by (simp add: unat_eq_nat_uint uint_word_of_int_eq take_bit_int_eq_self)

lemma handover_diverges:
  assumes "u_initiated u" "unat (kc_ncc (u_k_enb_ctx u)) < 8" "8 \<le> unat (target_ncc u ncc)"
  shows "generate_as_keys_ho lib u pci earfcn ncc cfg = None"
  using assms nh_loop_diverges [OF assms(3), of "(u_k_enb_ctx u, False)"]
  by (simp add: generate_as_keys_ho_def target_ncc_def Let_def)

section \<open>Properties\<close>

text \<open>
  Claim C14. The USIM accepts AUTN exactly when its last eight octets are the MAC over the SQN and
  AMF it carries; never with a synchronisation failure. RES is on eight octets, K_ASME is the one of TS 33.401
  for the SQN XOR AK of AUTN, CK, IK and AK are kept, and key material and array sizes are as before.
\<close>

theorem usim_authentication:
  assumes "ecb_16 lib" "hmac_32 lib" "usim_sizes u"
    and "length rand = 16" "length autn = 16" "length res = 16" "length k_asme = 32"
  shows "case generate_authentication_response lib u rand autn mcc mnc res k_asme of
    (result, res', res_len, k_asme', u') \<Rightarrow>
      (let algo = u_auth_algo u; k = u_k u; opc = u_opc u; ak = aka_ak lib algo k opc rand;
           mac = aka_mac lib algo k opc rand (xor_bytes (take 6 autn) ak) (take 2 (drop 6 autn))
       in result = (if drop 8 autn = mac then AUTH_OK else AUTH_FAILED) \<and>
          res_len = 8 \<and> take 8 res' = aka_res lib algo k opc rand \<and>
          k_asme' = aka_k_asme lib algo k opc rand (take 6 autn) mcc mnc \<and>
          (u_ck u', u_ik u', u_ak u') = (aka_ck lib algo k opc rand, aka_ik lib algo k opc rand, ak) \<and>
          (u_k u', u_opc u', u_auth_algo u', u_k_enb_ctx u') = (k, opc, algo, u_k_enb_ctx u) \<and> usim_sizes u')"
proof -
  have l: "length (u_k u) = 16" "length (u_opc u) = 16" using assms(3) by (simp_all add: usim_sizes_def)
  note len = length_aka [OF assms(1) l assms(4)]
  obtain res' where r: "take 8 res' = aka_res lib (u_auth_algo u) (u_k u) (u_opc u) rand"
    "generate_authentication_response lib u rand autn mcc mnc res k_asme =
      (if drop 8 autn = aka_mac lib (u_auth_algo u) (u_k u) (u_opc u) rand
            (xor_bytes (take 6 autn) (aka_ak lib (u_auth_algo u) (u_k u) (u_opc u) rand)) (take 2 (drop 6 autn))
       then AUTH_OK else AUTH_FAILED, res', 8,
       aka_k_asme lib (u_auth_algo u) (u_k u) (u_opc u) rand (take 6 autn) mcc mnc,
       u\<lparr>u_ck := aka_ck lib (u_auth_algo u) (u_k u) (u_opc u) rand, u_ik := aka_ik lib (u_auth_algo u) (u_k u) (u_opc u) rand,
         u_ak := aka_ak lib (u_auth_algo u) (u_k u) (u_opc u) rand, u_amf := take 2 (drop 6 autn),
         u_mac := aka_mac lib (u_auth_algo u) (u_k u) (u_opc u) rand
            (xor_bytes (take 6 autn) (aka_ak lib (u_auth_algo u) (u_k u) (u_opc u) rand)) (take 2 (drop 6 autn)),
         u_autn := take 8 autn @ aka_mac lib (u_auth_algo u) (u_k u) (u_opc u) rand
            (xor_bytes (take 6 autn) (aka_ak lib (u_auth_algo u) (u_k u) (u_opc u) rand)) (take 2 (drop 6 autn))\<rparr>)"
    using authentication_response [OF assms, of mcc mnc] by auto
  show ?thesis
    unfolding r(2) prod.case Let_def
    using r(1) assms(3,5) len by (simp add: usim_sizes_def)
qed

text \<open>A USIM and a library for the witnesses.\<close>

definition sample_lib :: ssl_lib where
  "sample_lib = sample_ssl\<lparr>crypt_ecb := \<lambda>k b. rotate 1 b, md_hmac := \<lambda>key input. take 32 (input @ replicate 32 0)\<rparr>"

lemma sample_lib_ok: "ecb_16 sample_lib" "hmac_32 sample_lib"
  by (auto simp: sample_lib_def ecb_16_def hmac_32_def min_def)

definition sample_ctx :: k_enb_context where
  "sample_ctx = \<lparr>kc_k_enb = replicate 32 3, kc_nh = replicate 32 0, kc_is_first_ncc = True, kc_ncc = 0\<rparr>"

definition sample_sec :: as_security_config where
  "sample_sec = \<lparr>sec_k_rrc_int = replicate 32 0, sec_k_rrc_enc = replicate 32 0, sec_k_up_int = replicate 32 0,
    sec_k_up_enc = replicate 32 0, sec_integ_algo = EIA1_128, sec_cipher_algo = EEA2_128\<rparr>"

definition sample_usim :: usim where
  "sample_usim = \<lparr>u_initiated = True, u_imsi = 1010123456789, u_imei = 0, u_imsi_str = [], u_imei_str = [],
    u_ck = replicate 16 0, u_ik = replicate 16 0, u_ak = replicate 6 0, u_k_asme = replicate 32 9,
    u_k_enb_star = replicate 32 0, u_k_enb_initial = replicate 32 3, u_k_enb_ctx = sample_ctx,
    u_old_k_enb_ctx = sample_ctx, u_old_as_ctx = sample_sec, u_auth_algo = auth_algo_xor,
    u_amf = replicate 2 0, u_op = replicate 16 0, u_opc = replicate 16 0, u_k = replicate 16 1,
    u_mac = replicate 8 0, u_autn = replicate 16 0\<rparr>"

lemma sample_usim_ok: "usim_sizes sample_usim" "u_initiated sample_usim" "unat (kc_ncc (u_k_enb_ctx sample_usim)) = 0"
  by (simp_all add: usim_sizes_def sample_usim_def sample_ctx_def)

theorem usim_authentication_witness:
  "let rand = [0, 1, 2, 3, 4, 5, 6, 7, 8, 9, 10, 11, 12, 13, 14, 15]
   in fst (snd (snd (generate_authentication_response sample_lib sample_usim rand (replicate 16 0) 0xF001 0xFF01
        (replicate 16 0) (replicate 32 0)))) = 8"
  unfolding Let_def
  using usim_authentication [OF sample_lib_ok sample_usim_ok(1),
      where rand = "[0, 1, 2, 3, 4, 5, 6, 7, 8, 9, 10, 11, 12, 13, 14, 15]" and autn = "replicate 16 0"
        and res = "replicate 16 0" and k_asme = "replicate 32 0" and mcc = "0xF001" and mnc = "0xFF01"]
  by (simp add: split_beta Let_def)

text \<open>
  Claim C15. At a handover the new K_eNB is K_eNB* of TS 33.401 over the current K_eNB if the NCC does not
  change, and otherwise over the NH of the target NCC, which is reached by as many derivations from
  K_ASME as the NCC is ahead, modulo 8, the first of them from the initial K_eNB; the RRC and user plane keys are
  derived from the new K_eNB. The loop that walks to the target ends for every NCC below 8.
\<close>

theorem handover_keys:
  assumes "hmac_32 lib" "usim_sizes u" "u_initiated u" "unat (kc_ncc (u_k_enb_ctx u)) < 8"
    and "unat (target_ncc u ncc) < 8" "sec_sizes cfg"
  shows "\<exists>cfg' u'. generate_as_keys_ho lib u pci earfcn ncc cfg = Some (cfg', u') \<and>
    (let k = kdf_k_enb_star lib (handover_base lib u (target_ncc u ncc)) pci earfcn;
         key = (\<lambda>p alg. md_hmac lib k (kdf_string 0x15 [[p], [alg]]))
     in kc_k_enb (u_k_enb_ctx u') = k \<and> kc_ncc (u_k_enb_ctx u') = target_ncc u ncc \<and> usim_sizes u' \<and>
        cfg' = cfg\<lparr>sec_k_rrc_enc := key 3 (eea_id (sec_cipher_algo cfg)),
          sec_k_rrc_int := key 4 (eia_id (sec_integ_algo cfg)), sec_k_up_enc := key 5 (eea_id (sec_cipher_algo cfg)),
          sec_k_up_int := key 6 (eia_id (sec_integ_algo cfg))\<rparr>)"
proof -
  let ?ctx = "u_k_enb_ctx u"
  define m where "m = ncc_steps (kc_ncc ?ctx) (target_ncc u ncc)"
  define k where "k = kdf_k_enb_star lib (handover_base lib u (target_ncc u ncc)) pci earfcn"
  let ?c = "(nh_step lib (u_k_asme u) (u_k_enb_initial u) ^^ m) ?ctx"
  have res: "generate_as_keys_ho lib u pci earfcn ncc cfg
    = Some (as_keys lib k cfg, u\<lparr>u_k_enb_star := k, u_k_enb_ctx := ?c\<lparr>kc_k_enb := k\<rparr>\<rparr>)"
    unfolding k_def m_def by (rule handover_result [OF assms(1-5)])
  have s: "length (u_k_asme u) = 32" "length (u_k_enb_initial u) = 32" "length (kc_nh ?ctx) = 32"
    using assms(2) by (simp_all add: usim_sizes_def)
  have lk: "length k = 32" using assms(1) by (simp add: k_def kdf_k_enb_star_def hmac_32_def)
  have "kc_ncc ?c = target_ncc u ncc \<and> length (kc_nh ?c) = 32"
  proof (cases m)
    case 0
    then show ?thesis
      using ncc_steps_reach [OF assms(4,5)] s by (simp add: m_def)
  next
    case (Suc j)
    have "length ((kdf_nh lib (u_k_asme u) ^^ Suc j) (chain_root (u_k_enb_initial u) ?ctx)) = 32"
      using assms(1) s by (intro length_funpow_nh) (auto simp: chain_root_def)
    moreover have "of_nat ((unat (kc_ncc ?ctx) + Suc j) mod 8) = target_ncc u ncc"
      using ncc_steps_reach(1) [OF assms(4,5)] Suc by (simp only: m_def)
    ultimately show ?thesis
      unfolding Suc nh_steps_spec [OF assms(1) s assms(4)]
      by simp
  qed
  moreover have "as_keys lib k cfg = cfg\<lparr>sec_k_rrc_enc := md_hmac lib k (kdf_string 0x15 [[3], [eea_id (sec_cipher_algo cfg)]]),
      sec_k_rrc_int := md_hmac lib k (kdf_string 0x15 [[4], [eia_id (sec_integ_algo cfg)]]),
      sec_k_up_enc := md_hmac lib k (kdf_string 0x15 [[5], [eea_id (sec_cipher_algo cfg)]]),
      sec_k_up_int := md_hmac lib k (kdf_string 0x15 [[6], [eia_id (sec_integ_algo cfg)]])\<rparr>"
    using assms(6) by (intro as_keys_spec assms(1) lk) (simp_all add: sec_sizes_def)
  ultimately show ?thesis
    using res lk assms(2) by (simp add: Let_def k_def [symmetric] usim_sizes_def)
qed

theorem handover_keys_witness:
  "map_option (\<lambda>(cfg, u). kc_ncc (u_k_enb_ctx u)) (generate_as_keys_ho sample_lib sample_usim 3 100 5 sample_sec) = Some 5"
proof -
  have t: "unat (target_ncc sample_usim 5) < 8" by (simp add: target_ncc_def)
  show ?thesis
    using handover_keys [OF sample_lib_ok(2) sample_usim_ok(1,2) _ t, of sample_sec 3 100] sample_usim_ok(3)
    by (auto simp: sec_sizes_def sample_sec_def Let_def target_ncc_def)
qed

text \<open>
  For a next-hop chaining count of 8 or more, which no 3-bit field carries but the \<open>int\<close>
  argument can, the loop never reaches its target and the function does not return.
\<close>

theorem handover_ncc_bound:
  assumes "u_initiated u" "unat (kc_ncc (u_k_enb_ctx u)) < 8" "8 \<le> ncc" "ncc < 2 ^ 32"
  shows "generate_as_keys_ho lib u pci earfcn ncc cfg = None"
proof (rule handover_diverges [OF assms(1,2)])
  have "unat (target_ncc u ncc) = nat ncc"
    using assms(3,4) by (simp add: target_ncc_def unat_word_of_int_small)
  then show "8 \<le> unat (target_ncc u ncc)" using assms(3) by simp
qed

theorem handover_ncc_bound_witness:
  "generate_as_keys_ho sample_lib sample_usim 3 100 8 sample_sec = None"
  using handover_ncc_bound [OF sample_usim_ok(2), of 8] sample_usim_ok(3) by simp

text \<open>
  After initialisation with an IMSI of 15 digits, \<open>get_imsi_vec\<close> writes its digits, for any
  buffer of 15 octets, and \<open>get_home_plmn_id\<close> stores the MCC and the MNC in front of it: three MNC
  digits for the listed North American MCCs and two for all others.
\<close>

theorem usim_imsi_identity:
  assumes "list_all isdigit (arg_imsi args)" "length (arg_imsi args) = 15" "length vec = 15"
    and "length (plmn_mcc p) = 3" "length (plmn_mnc p) = 3"
  shows "get_imsi_vec (usim_init lib args u) (Some vec) 15 = (True, Some (map digit_value (arg_imsi args))) \<and>
    fst (get_home_plmn_id (usim_init lib args u) p) \<and>
    plmn_to_string (snd (get_home_plmn_id (usim_init lib args u) p))
      = take (home_plmn_length (arg_imsi args)) (arg_imsi args)"
proof -
  let ?t = "take (home_plmn_length (arg_imsi args)) (arg_imsi args)"
  have t: "length ?t = 5 \<or> length ?t = 6" "\<forall>c \<in> set ?t. isdigit c"
    using assms(1,2) by (auto simp: home_plmn_length_def list_all_iff dest: in_set_takeD)
  show ?thesis
    using get_imsi_vec_digits [OF assms(1-3), of 15 lib u] home_plmn_digits [OF assms(1,2), of lib u p]
      from_string_digits [OF assms(4,5) t(1)] to_string_digits [OF assms(5) t] t(2) by simp
qed

theorem usim_imsi_identity_witness:
  "let args = \<lparr>arg_algo = ''xor'', arg_using_op = False, arg_op = [], arg_opc = [], arg_imsi = ''001010123456789'',
       arg_imei = [], arg_k = []\<rparr>
   in fst (get_home_plmn_id (usim_init sample_lib args sample_usim) \<lparr>plmn_mcc = [0, 0, 0], plmn_mnc = [0, 0, 0], nof_mnc_digits = 0\<rparr>)"
  unfolding Let_def
  by (rule usim_imsi_identity [of _ "replicate 15 0", THEN conjunct2, THEN conjunct1]) (simp_all add: isdigit_def)

end
