(* ===== verification/Std_Map.thy ===== *)
theory Std_Map
  imports Prelude "HOL-Library.Char_ord" "HOL-Library.List_Lexorder"
begin

text \<open>
  \<^verbatim>\<open>std::map\<close> as the sources use it: an association list in ascending key order, which is also the
  order of iteration. The locale \<open>ordered_map\<close> states what the clients rely on; the interpretation
  \<open>stdmap\<close> discharges it for the list operations. Keys are words or strings, compared as
  \<^verbatim>\<open>operator<\<close> does (octet-wise lexicographic for strings).
\<close>

section \<open>The operations\<close>

type_synonym ('k, 'v) std_map = "('k \<times> 'v) list"

text \<open>\<open>insert\<close> leaves an element that is already there and reports whether it inserted.\<close>

fun map_insert :: "'k::linorder \<Rightarrow> 'v \<Rightarrow> ('k, 'v) std_map \<Rightarrow> bool \<times> ('k, 'v) std_map" where
  "map_insert k v [] = (True, [(k, v)])"
| "map_insert k v ((a, w) # m) =
    (if k < a then (True, (k, v) # (a, w) # m)
     else if k = a then (False, (a, w) # m)
     else case map_insert k v m of (ok, m') \<Rightarrow> (ok, (a, w) # m'))"

fun map_find :: "'k \<Rightarrow> ('k, 'v) std_map \<Rightarrow> 'v option" where
  "map_find k [] = None"
| "map_find k ((a, w) # m) = (if k = a then Some w else map_find k m)"

text \<open>Write through an iterator or a stored pointer: the element of a key that is there changes.\<close>

fun map_write :: "'k \<Rightarrow> 'v \<Rightarrow> ('k, 'v) std_map \<Rightarrow> ('k, 'v) std_map" where
  "map_write k v [] = []"
| "map_write k v ((a, w) # m) = (if k = a then (a, v) # m else (a, w) # map_write k v m)"

fun map_erase :: "'k \<Rightarrow> ('k, 'v) std_map \<Rightarrow> ('k, 'v) std_map" where
  "map_erase k [] = []"
| "map_erase k ((a, w) # m) = (if k = a then m else (a, w) # map_erase k m)"

text \<open>\<open>m[k] = v\<close>.\<close>

definition map_assign :: "'k::linorder \<Rightarrow> 'v \<Rightarrow> ('k, 'v) std_map \<Rightarrow> ('k, 'v) std_map" where
  "map_assign k v m = map_write k v (snd (map_insert k v m))"

definition map_ok :: "('k::linorder, 'v) std_map \<Rightarrow> bool" where
  "map_ok m \<longleftrightarrow> sorted_wrt (<) (map fst m)"

section \<open>The interface\<close>

locale ordered_map =
  fixes ins :: "'k::linorder \<Rightarrow> 'v \<Rightarrow> 'm \<Rightarrow> bool \<times> 'm"
    and find :: "'k \<Rightarrow> 'm \<Rightarrow> 'v option"
    and wrt :: "'k \<Rightarrow> 'v \<Rightarrow> 'm \<Rightarrow> 'm"
    and del :: "'k \<Rightarrow> 'm \<Rightarrow> 'm"
    and ok :: "'m \<Rightarrow> bool"
  assumes ins_ok: "ok m \<Longrightarrow> ok (snd (ins k v m))"
    and ins_new: "ok m \<Longrightarrow> fst (ins k v m) \<longleftrightarrow> find k m = None"
    and find_ins: "ok m \<Longrightarrow> find k' (snd (ins k v m)) = (if k' = k \<and> find k m = None then Some v else find k' m)"
    and wrt_ok: "ok m \<Longrightarrow> ok (wrt k v m)"
    and find_wrt: "find k' (wrt k v m) = (if k' = k \<and> find k m \<noteq> None then Some v else find k' m)"
    and del_ok: "ok m \<Longrightarrow> ok (del k m)"
    and find_del: "ok m \<Longrightarrow> find k' (del k m) = (if k' = k then None else find k' m)"
begin

text \<open>Writing every key that is there, and only those, is seen by every later lookup.\<close>

lemma find_assign: "ok m \<Longrightarrow> find k' (wrt k v (snd (ins k v m))) = (if k' = k then Some v else find k' m)"
  by (auto simp: find_wrt find_ins)

lemma find_wrt_same: "find k m = Some v \<Longrightarrow> find k' (wrt k v m) = find k' m"
  by (auto simp: find_wrt)

lemma wrt_frame: "k' \<noteq> k \<Longrightarrow> find k' (wrt k v m) = find k' m"
  by (simp add: find_wrt)

lemma insert_many_ok: "ok m \<Longrightarrow> ok (fold (\<lambda>(k, v) m. snd (ins k v m)) kvs m)"
  by (induction kvs arbitrary: m) (auto simp: ins_ok)

lemma insert_many_keeps:
  "ok m \<Longrightarrow> find k m = Some v \<Longrightarrow> find k (fold (\<lambda>(k, v) m. snd (ins k v m)) kvs m) = Some v"
proof (induction kvs arbitrary: m)
  case (Cons a kvs)
  obtain k0 v0 where a: "a = (k0, v0)" by fastforce
  have "ok (snd (ins k0 v0 m))" "find k (snd (ins k0 v0 m)) = Some v"
    using Cons.prems by (auto simp: find_ins ins_ok)
  then show ?case using Cons.IH by (simp add: a)
qed simp

lemma insert_many_find:
  "ok m \<Longrightarrow> find k m = None \<Longrightarrow> distinct (map fst kvs) \<Longrightarrow>
   find k (fold (\<lambda>(k, v) m. snd (ins k v m)) kvs m) = map_of kvs k"
proof (induction kvs arbitrary: m)
  case (Cons a kvs)
  obtain k0 v0 where a: "a = (k0, v0)" by fastforce
  show ?case
  proof (cases "k = k0")
    case True
    then show ?thesis
      using Cons.prems insert_many_keeps [of "snd (ins k0 v0 m)" k v0 kvs] by (simp add: a find_ins ins_ok)
  next
    case False
    then show ?thesis
      using Cons.prems Cons.IH [of "snd (ins k0 v0 m)"] by (simp add: a find_ins ins_ok)
  qed
qed simp

end

section \<open>The lists implement it\<close>

lemma map_ok_Cons [simp]: "map_ok ((a, w) # m) \<longleftrightarrow> (\<forall>x \<in> set m. a < fst x) \<and> map_ok m" "map_ok []"
  by (auto simp: map_ok_def)

lemma in_map_insert: "x \<in> set (snd (map_insert k v m)) \<Longrightarrow> x = (k, v) \<or> x \<in> set m"
  by (induction k v m rule: map_insert.induct) (auto simp: split_beta split: if_splits)

lemma map_insert_ok: "map_ok m \<Longrightarrow> map_ok (snd (map_insert k v m))"
  by (induction k v m rule: map_insert.induct) (auto simp: split_beta dest!: in_map_insert)

lemma map_find_eq: "map_find k m = map_of m k"
  by (induction m) auto

lemma map_find_absent: "map_ok m \<Longrightarrow> (\<And>x. x \<in> set m \<Longrightarrow> k < fst x) \<Longrightarrow> map_find k m = None"
  by (force simp: map_find_eq map_of_eq_None_iff)

lemma map_insert_new: "map_ok m \<Longrightarrow> fst (map_insert k v m) \<longleftrightarrow> map_find k m = None"
proof (induction k v m rule: map_insert.induct)
  case (2 k v a w m)
  have "k < a \<Longrightarrow> map_find k m = None"
    using 2(2) by (intro map_find_absent) auto
  then show ?case using 2 by (auto split: prod.splits)
qed simp

lemma map_find_insert:
  "map_ok m \<Longrightarrow> map_find k' (snd (map_insert k v m)) = (if k' = k \<and> map_find k m = None then Some v else map_find k' m)"
proof (induction k v m rule: map_insert.induct)
  case (2 k v a w m)
  have "k < a \<Longrightarrow> map_find k m = None"
    using 2(2) by (intro map_find_absent) auto
  then show ?case using 2 by (auto split: prod.splits)
qed simp

lemma map_write_keys [simp]: "map fst (map_write k v m) = map fst m"
  by (induction m) auto

lemma map_find_write: "map_find k' (map_write k v m) = (if k' = k \<and> map_find k m \<noteq> None then Some v else map_find k' m)"
  by (induction k v m rule: map_write.induct) (auto split: if_splits)

lemma in_map_erase: "x \<in> set (map_erase k m) \<Longrightarrow> x \<in> set m"
  by (induction k m rule: map_erase.induct) (auto split: if_splits)

lemma map_erase_ok: "map_ok m \<Longrightarrow> map_ok (map_erase k m)"
  by (induction k m rule: map_erase.induct) (auto dest!: in_map_erase)

lemma map_write_ok: "map_ok m \<Longrightarrow> map_ok (map_write k v m)"
  by (simp add: map_ok_def)

lemma map_find_erase: "map_ok m \<Longrightarrow> map_find k' (map_erase k m) = (if k' = k then None else map_find k' m)"
proof (induction k m rule: map_erase.induct)
  case (2 k a w m)
  have "map_find a m = None"
    using 2(2) by (intro map_find_absent) auto
  then show ?case using 2 by auto
qed simp

interpretation stdmap: ordered_map map_insert map_find map_write map_erase map_ok
  by unfold_locales
    (auto simp: map_insert_ok map_insert_new map_find_insert map_find_write map_erase_ok map_find_erase map_write_ok)

lemma map_insert_last:
  "map_ok m \<Longrightarrow> (\<And>a. a \<in> fst ` set m \<Longrightarrow> a < k) \<Longrightarrow> map_insert k v m = (True, m @ [(k, v)])"
proof (induction m)
  case (Cons x m)
  then show ?case by (cases x) (auto simp: less_le_not_le)
qed simp

text \<open>Reading a map back in iteration order rebuilds it.\<close>

lemma map_insert_rebuild:
  "map_ok (m @ n) \<Longrightarrow> fold (\<lambda>(k, v) m. snd (map_insert k v m)) n m = m @ n"
proof (induction n arbitrary: m)
  case (Cons x n)
  obtain k v where x: "x = (k, v)" by fastforce
  have ok: "map_ok m" "\<And>a. a \<in> fst ` set m \<Longrightarrow> a < k" "map_ok ((m @ [(k, v)]) @ n)"
    using Cons.prems by (auto simp: map_ok_def x sorted_wrt_append)
  have "fold (\<lambda>(k, v) m. snd (map_insert k v m)) n (m @ [(k, v)]) = (m @ [(k, v)]) @ n"
    by (rule Cons.IH [OF ok(3)])
  then show ?case using map_insert_last [OF ok(1,2), of v] by (simp add: x)
qed simp

lemma map_assign_ok: "map_ok m \<Longrightarrow> map_ok (map_assign k v m)"
  unfolding map_assign_def by (intro stdmap.wrt_ok stdmap.ins_ok)

lemma map_find_assign: "map_ok m \<Longrightarrow> map_find k' (map_assign k v m) = (if k' = k then Some v else map_find k' m)"
  unfolding map_assign_def by (rule stdmap.find_assign)

lemma map_ok_filter: "map_ok m \<Longrightarrow> map_ok (filter P m)"
  by (simp add: map_ok_def sorted_wrt_map sorted_wrt_filter)

lemma map_assign_last:
  assumes "map_ok m" "\<And>a. a \<in> fst ` set m \<Longrightarrow> a < k"
  shows "map_assign k v m = m @ [(k, v)]"
proof -
  have "k \<notin> fst ` set m" using assms(2) by blast
  then have "map_write k v (m @ [(k, v)]) = m @ [(k, v)]" by (induction m) auto
  then show ?thesis using map_insert_last [OF assms] by (simp add: map_assign_def)
qed

end
