(* ===== verification/Hss.thy ===== *)
theory Hss
  imports Usim Std_Map
begin

text \<open>
  The home subscriber server: \<^verbatim>\<open>srsepc/src/hss/hss.cc\<close> and \<^verbatim>\<open>srsepc/hdr/hss/hss.h\<close>. The object is the record
  \<open>hss\<close>. A file is its text, \<open>None\<close> when it cannot be opened. The library calls \<open>rand\<close> and \<open>inet_pton\<close> are the
  arguments \<open>rnd\<close> (the i-th value drawn) and \<open>valid_ip\<close>; \<open>fresh\<close> holds the indeterminate values of a new
  subscriber record. The singleton, its mutex and logging are not modelled. Local arrays that are filled before they are
  read start as zeros.
\<close>

section \<open>State\<close>

datatype hss_auth_algo = HSS_ALGO_XOR | HSS_ALGO_MILENAGE

record hss_ue_ctx =
  ue_name :: string
  ue_imsi :: u64
  ue_algo :: hss_auth_algo
  ue_key :: bytes
  ue_op_configured :: bool
  ue_op :: bytes
  ue_opc :: bytes
  ue_amf :: bytes
  ue_sqn :: bytes
  ue_qci :: u16
  ue_last_rand :: bytes
  ue_static_ip_addr :: string

record hss_args =
  hss_db_file :: string
  hss_mcc :: u16
  hss_mnc :: u16

record hss =
  h_imsi_to_ue_ctx :: "(u64, hss_ue_ctx) std_map"
  h_ip_to_imsi :: "(string, u64) std_map"
  h_db_file :: string
  h_mcc :: u16
  h_mnc :: u16

definition set_sqn :: "bytes \<Rightarrow> hss_ue_ctx \<Rightarrow> hss_ue_ctx" where
  "set_sqn sqn ue = ue\<lparr>ue_sqn := put (ue_sqn ue) (take 6 sqn)\<rparr>"

definition set_last_rand :: "bytes \<Rightarrow> hss_ue_ctx \<Rightarrow> hss_ue_ctx" where
  "set_last_rand last_rand ue = ue\<lparr>ue_last_rand := put (ue_last_rand ue) (take 16 last_rand)\<rparr>"

definition get_last_rand :: "hss_ue_ctx \<Rightarrow> bytes" where
  "get_last_rand ue = take 16 (ue_last_rand ue)"

section \<open>Helper functions\<close>

definition split_string :: "string \<Rightarrow> char \<Rightarrow> string list" where
  "split_string str delimiter = getlines delimiter str"

text \<open>\<open>None\<close>: the pointer has moved past the end of the string.\<close>

definition get_uint_vec_from_hex_str :: "string \<Rightarrow> bytes \<Rightarrow> nat \<Rightarrow> bytes option" where
  "get_uint_vec_from_hex_str key_str key len =
    ofold (\<lambda>count key.
        if length key_str < 2 * count then None
        else case sscanf_2hhx (drop (2 * count) key_str) of
               None \<Rightarrow> Some key
             | Some v \<Rightarrow> wr key (int count) v)
      [0..<len] key"

definition hex_string :: "bytes \<Rightarrow> nat \<Rightarrow> string" where
  "hex_string hex n = concat (map (\<lambda>i. hex2 (hex ! i)) [0..<n])"

definition c_str :: "string \<Rightarrow> string" where
  "c_str s = takeWhile (\<lambda>c. (of_char c :: nat) \<noteq> 0) s"

definition gen_rand :: "(nat \<Rightarrow> nat) \<Rightarrow> bytes \<Rightarrow> bytes" where
  "gen_rand rnd rand = fill 16 (\<lambda>i. i) (\<lambda>i. of_nat (rnd i mod 256)) rand"

section \<open>The subscriber file\<close>

definition read_algo :: "string \<Rightarrow> hss_auth_algo option" where
  "read_algo s = (if s = ''xor'' then Some HSS_ALGO_XOR else if s = ''mil'' then Some HSS_ALGO_MILENAGE else None)"

text \<open>Columns 3 to 8: key, OP or OPc, AMF, SQN. The inner \<open>None\<close> is the error return.\<close>

definition read_keys :: "ssl_lib \<Rightarrow> string list \<Rightarrow> hss_ue_ctx \<Rightarrow> hss_ue_ctx option option" where
  "read_keys lib split ue =
    Option.bind (get_uint_vec_from_hex_str (split ! 3) (ue_key ue) 16) (\<lambda>key.
      let ue = ue\<lparr>ue_key := key\<rparr>;
          rest = (\<lambda>ue.
            Option.bind (get_uint_vec_from_hex_str (split ! 6) (ue_amf ue) 2) (\<lambda>amf.
            Option.bind (get_uint_vec_from_hex_str (split ! 7) (ue_sqn ue) 6) (\<lambda>sqn.
              Some (Some (ue\<lparr>ue_amf := amf, ue_sqn := sqn\<rparr>)))))
      in if split ! 4 = ''op''
         then Option.bind (get_uint_vec_from_hex_str (split ! 5) (ue_op ue) 16) (\<lambda>op.
           rest (ue\<lparr>ue_op_configured := True, ue_op := op,
             ue_opc := the (snd (compute_opc lib (Some key) (Some op) (Some (ue_opc ue))))\<rparr>))
         else if split ! 4 = ''opc''
         then Option.bind (get_uint_vec_from_hex_str (split ! 5) (ue_opc ue) 16) (\<lambda>opc.
           rest (ue\<lparr>ue_op_configured := False, ue_opc := opc\<rparr>))
         else Some None)"

definition read_db_line ::
  "ssl_lib \<Rightarrow> (string \<Rightarrow> bool) \<Rightarrow> hss_ue_ctx \<Rightarrow> string \<Rightarrow> hss \<Rightarrow> (bool \<times> hss) option" where
  "read_db_line lib valid_ip fresh line h =
    (let split = split_string line CHR '','' in
     if length split \<noteq> 10 then Some (False, h)
     else case read_algo (split ! 1) of
       None \<Rightarrow> Some (False, h)
     | Some algo \<Rightarrow>
         Option.bind (read_keys lib split
             (fresh\<lparr>ue_name := split ! 0, ue_algo := algo, ue_imsi := strtoull10 (split ! 2)\<rparr>))
           (\<lambda>r. case r of
              None \<Rightarrow> Some (False, h)
            | Some ue \<Rightarrow>
                (let ue = ue\<lparr>ue_qci := word_of_int (strtol10 (split ! 8))\<rparr> in
                 if split ! 9 = ''dynamic''
                 then Some (True, h\<lparr>h_imsi_to_ue_ctx :=
                        snd (map_insert (ue_imsi ue) (ue\<lparr>ue_static_ip_addr := ''0.0.0.0''\<rparr>) (h_imsi_to_ue_ctx h))\<rparr>)
                 else if valid_ip (c_str (split ! 9))
                 then (case map_insert (split ! 9) (ue_imsi ue) (h_ip_to_imsi h) of
                         (True, ips) \<Rightarrow>
                           Some (True, h\<lparr>h_ip_to_imsi := ips, h_imsi_to_ue_ctx :=
                             snd (map_insert (ue_imsi ue) (ue\<lparr>ue_static_ip_addr := split ! 9\<rparr>) (h_imsi_to_ue_ctx h))\<rparr>)
                       | (False, ips) \<Rightarrow> Some (False, h))
                 else Some (False, h))))"

fun read_db_lines ::
  "ssl_lib \<Rightarrow> (string \<Rightarrow> bool) \<Rightarrow> hss_ue_ctx \<Rightarrow> string list \<Rightarrow> hss \<Rightarrow> (bool \<times> hss) option" where
  "read_db_lines lib valid_ip fresh [] h = Some (True, h)"
| "read_db_lines lib valid_ip fresh (line # lines) h =
    (if line \<noteq> [] \<and> hd line \<noteq> CHR ''#''
     then Option.bind (read_db_line lib valid_ip fresh line h)
            (\<lambda>(ok, h). if ok then read_db_lines lib valid_ip fresh lines h else Some (False, h))
     else read_db_lines lib valid_ip fresh lines h)"

definition read_db_file ::
  "ssl_lib \<Rightarrow> (string \<Rightarrow> bool) \<Rightarrow> hss_ue_ctx \<Rightarrow> string option \<Rightarrow> hss \<Rightarrow> (bool \<times> hss) option" where
  "read_db_file lib valid_ip fresh db_file h =
    (case db_file of
       None \<Rightarrow> Some (False, h)
     | Some text \<Rightarrow> read_db_lines lib valid_ip fresh (getlines CHR 0x0A text) h)"

definition db_header :: "string list" where
  "db_header =
    [''#                                                                                           '',
     ''# .csv to store UE's information in HSS                                                     '',
     ''# Kept in the following format: \"Name,Auth,IMSI,Key,OP_Type,OP/OPc,AMF,SQN,QCI,IP_alloc\"  '',
     ''#                                                                                           '',
     ''# Name:     Human readable name to help distinguish UE's. Ignored by the HSS                '',
     ''# Auth:     Authentication algorithm used by the UE. Valid algorithms are XOR               '',
     ''#           (xor) and MILENAGE (mil)                                                        '',
     ''# IMSI:     UE's IMSI value                                                                 '',
     ''# Key:      UE's key, where other keys are derived from. Stored in hexadecimal              '',
     ''# OP_Type:  Operator's code type, either OP or OPc                                          '',
     ''# OP/OPc:   Operator Code/Cyphered Operator Code, stored in hexadecimal                     '',
     ''# AMF:      Authentication management field, stored in hexadecimal                          '',
     ''# SQN:      UE's Sequence number for freshness of the authentication                        '',
     ''# QCI:      QoS Class Identifier for the UE's default bearer.                               '',
     ''# IP_alloc: IP allocation stratagy for the SPGW.                                            '',
     ''#           With 'dynamic' the SPGW will automatically allocate IPs                         '',
     ''#           With a valid IPv4 (e.g. '172.16.0.2') the UE will have a statically assigned IP.'',
     ''#                                                                                           '',
     ''# Note: Lines starting by '#' are ignored and will be overwritten                           '']"

definition db_columns :: "hss_ue_ctx \<Rightarrow> string list" where
  "db_columns ue =
    [ue_name ue, if ue_algo ue = HSS_ALGO_XOR then ''xor'' else ''mil'', pad0 15 (dec_str (unat (ue_imsi ue))),
     hex_string (ue_key ue) 16, if ue_op_configured ue then ''op'' else ''opc'',
     if ue_op_configured ue then hex_string (ue_op ue) 16 else hex_string (ue_opc ue) 16,
     hex_string (ue_amf ue) 2, hex_string (ue_sqn ue) 6, dec_str (unat (ue_qci ue)),
     if ue_static_ip_addr ue \<noteq> ''0.0.0.0'' then ue_static_ip_addr ue else ''dynamic'']"

text \<open>\<open>join\<close> puts the commas between the columns; \<open>std::endl\<close> ends the line.\<close>

fun join :: "char \<Rightarrow> string list \<Rightarrow> string" where
  "join d [] = []"
| "join d [s] = s"
| "join d (s # t # ts) = s @ d # join d (t # ts)"

definition write_db_file :: "hss \<Rightarrow> string" where
  "write_db_file h =
    concat (map (\<lambda>l. l @ [CHR 0x0A]) db_header) @
    concat (map (\<lambda>(imsi, ue). join CHR '','' (db_columns ue) @ [CHR 0x0A]) (h_imsi_to_ue_ctx h))"

definition hss_init ::
  "ssl_lib \<Rightarrow> (string \<Rightarrow> bool) \<Rightarrow> hss_ue_ctx \<Rightarrow> hss_args \<Rightarrow> string option \<Rightarrow> hss \<Rightarrow> (int \<times> hss) option" where
  "hss_init lib valid_ip fresh args db_file h =
    map_option (\<lambda>(ok, h).
        if \<not> ok then (-1, h)
        else (0, h\<lparr>h_mcc := hss_mcc args, h_mnc := hss_mnc args, h_db_file := hss_db_file args\<rparr>))
      (read_db_file lib valid_ip fresh db_file h)"

section \<open>Sequence numbers\<close>

definition sqn_load :: "bytes \<Rightarrow> u64" where
  "sqn_load sqn = fold (\<lambda>i v. v OR push_bit ((5 - i) * 8) (ucast (sqn ! i))) [0..<6] 0"

definition sqn_store :: "u64 \<Rightarrow> bytes \<Rightarrow> bytes" where
  "sqn_store w sqn = fill 6 (\<lambda>i. i) (\<lambda>i. ucast (drop_bit ((5 - i) * 8) w AND 0xFF)) sqn"

definition increment_sqn :: "bytes \<Rightarrow> bytes \<Rightarrow> bytes" where
  "increment_sqn sqn next_sqn =
    (let sqn64 = sqn_load sqn;
         seq = drop_bit 5 sqn64;
         ind = sqn64 AND 0x1F;
         nextseq = (seq + 1) mod 0x07FFFFFFFFFF;
         nextind = (ind + 1) mod 31;
         nextsqn = push_bit 5 nextseq OR nextind
     in sqn_store nextsqn next_sqn)"

definition increment_ue_sqn :: "hss_ue_ctx \<Rightarrow> hss_ue_ctx" where
  "increment_ue_sqn ue = ue\<lparr>ue_sqn := increment_sqn (ue_sqn ue) (ue_sqn ue)\<rparr>"

definition increment_seq_after_resync :: "hss_ue_ctx \<Rightarrow> hss_ue_ctx" where
  "increment_seq_after_resync ue =
    (let sqn64 = sqn_load (ue_sqn ue);
         seq = drop_bit 5 sqn64;
         ind = sqn64 AND 0x1F;
         nextseq = (seq + 1) mod 0x07FFFFFFFFFF;
         nextsqn = push_bit 5 nextseq OR ind
     in ue\<lparr>ue_sqn := sqn_store nextsqn (ue_sqn ue)\<rparr>)"

section \<open>Authentication vectors\<close>

text \<open>The buffers the caller passes: \<open>k_asme\<close>, \<open>autn\<close>, \<open>rand\<close>, \<open>xres\<close>.\<close>

record auth_vector =
  v_k_asme :: bytes
  v_autn :: bytes
  v_rand :: bytes
  v_xres :: bytes

text \<open>AUTN = SQN XOR AK || AMF || MAC.\<close>

definition hss_autn :: "bytes \<Rightarrow> bytes \<Rightarrow> bytes \<Rightarrow> bytes \<Rightarrow> bytes \<Rightarrow> bytes" where
  "hss_autn sqn ak amf mac autn =
    fill 8 (\<lambda>i. 8 + i) (\<lambda>i. mac ! i)
      (fill 2 (\<lambda>i. 6 + i) (\<lambda>i. amf ! i)
        (fill 6 (\<lambda>i. i) (\<lambda>i. sqn ! i XOR ak ! i) autn))"

definition gen_auth_info_answer_milenage ::
  "ssl_lib \<Rightarrow> (nat \<Rightarrow> nat) \<Rightarrow> hss \<Rightarrow> hss_ue_ctx \<Rightarrow> auth_vector \<Rightarrow> auth_vector \<times> hss_ue_ctx" where
  "gen_auth_info_answer_milenage lib rnd h ue v =
    (let k = ue_key ue; amf = ue_amf ue; opc = ue_opc ue; sqn = ue_sqn ue;
         rand = gen_rand rnd (v_rand v)
     in case security_milenage_f2345 lib (Some k) (Some opc) (Some rand) (Some (v_xres v))
               (Some (replicate 16 0)) (Some (replicate 16 0)) (Some (replicate 6 0)) of
          (_, xres, ck, ik, ak) \<Rightarrow>
            (let mac = snd (security_milenage_f1 lib (Some k) (Some opc) (Some rand) (Some sqn) (Some amf)
                         (Some (replicate 8 0)));
                 k_asme = snd (security_generate_k_asme lib ck ik ak (Some sqn) (h_mcc h) (h_mnc h) (Some (v_k_asme v)));
                 autn = hss_autn sqn (the ak) amf (the mac) (v_autn v)
             in (\<lparr>v_k_asme = the k_asme, v_autn = autn, v_rand = rand, v_xres = the xres\<rparr>, set_last_rand rand ue)))"

definition gen_auth_info_answer_xor ::
  "ssl_lib \<Rightarrow> (nat \<Rightarrow> nat) \<Rightarrow> hss \<Rightarrow> hss_ue_ctx \<Rightarrow> auth_vector \<Rightarrow> auth_vector \<times> hss_ue_ctx" where
  "gen_auth_info_answer_xor lib rnd h ue v =
    (let k = ue_key ue; amf = ue_amf ue; opc = ue_opc ue; sqn = ue_sqn ue;
         rand = gen_rand rnd (v_rand v);
         xdout = map (\<lambda>i. k ! i XOR rand ! i) [0..<16];
         xres = fill 16 (\<lambda>i. i) (\<lambda>i. xdout ! i) (v_xres v);
         ck = fill 16 (\<lambda>i. i) (\<lambda>i. xdout ! ((i + 1) mod 16)) (replicate 16 0);
         ik = fill 16 (\<lambda>i. i) (\<lambda>i. xdout ! ((i + 2) mod 16)) (replicate 16 0);
         ak = fill 6 (\<lambda>i. i) (\<lambda>i. xdout ! (i + 3)) (replicate 6 0);
         cdout = map (\<lambda>i. sqn ! i) [0..<6] @ map (\<lambda>i. amf ! i) [0..<2];
         mac = map (\<lambda>i. xdout ! i XOR cdout ! i) [0..<8];
         autn = hss_autn sqn ak amf mac (v_autn v);
         k_asme = snd (security_generate_k_asme lib (Some ck) (Some ik) (Some ak) (Some sqn) (h_mcc h) (h_mnc h)
                    (Some (v_k_asme v)));
         autn = hss_autn sqn ak amf mac autn
     in (\<lparr>v_k_asme = the k_asme, v_autn = autn, v_rand = rand, v_xres = xres\<rparr>, set_last_rand rand ue))"

definition get_ue_ctx :: "hss \<Rightarrow> u64 \<Rightarrow> hss_ue_ctx ptr" where
  "get_ue_ctx h imsi = map_find imsi (h_imsi_to_ue_ctx h)"

text \<open>A write through the pointer \<open>get_ue_ctx\<close> returns.\<close>

definition put_ue_ctx :: "u64 \<Rightarrow> hss_ue_ctx \<Rightarrow> hss \<Rightarrow> hss" where
  "put_ue_ctx imsi ue h = h\<lparr>h_imsi_to_ue_ctx := map_write imsi ue (h_imsi_to_ue_ctx h)\<rparr>"

definition gen_auth_info_answer ::
  "ssl_lib \<Rightarrow> (nat \<Rightarrow> nat) \<Rightarrow> u64 \<Rightarrow> auth_vector \<Rightarrow> hss \<Rightarrow> bool \<times> auth_vector \<times> hss" where
  "gen_auth_info_answer lib rnd imsi v h =
    (case get_ue_ctx h imsi of
       None \<Rightarrow> (False, v, h)
     | Some ue \<Rightarrow>
         (case (case ue_algo ue of
                  HSS_ALGO_XOR \<Rightarrow> gen_auth_info_answer_xor lib rnd h ue v
                | HSS_ALGO_MILENAGE \<Rightarrow> gen_auth_info_answer_milenage lib rnd h ue v) of
            (v, ue) \<Rightarrow> (True, v, put_ue_ctx imsi (increment_ue_sqn ue) h)))"

text \<open>The 16-bit QCI is stored through an 8-bit pointer.\<close>

definition gen_update_loc_answer :: "hss \<Rightarrow> u64 \<Rightarrow> u8 \<Rightarrow> bool \<times> u8" where
  "gen_update_loc_answer h imsi qci =
    (case map_find imsi (h_imsi_to_ue_ctx h) of None \<Rightarrow> (False, qci) | Some ue \<Rightarrow> (True, ucast (ue_qci ue)))"

section \<open>Resynchronisation\<close>

definition resync_sqn_xor :: "hss_ue_ctx \<Rightarrow> bytes \<Rightarrow> hss_ue_ctx" where
  "resync_sqn_xor ue auts = ue"

definition resync_sqn_milenage :: "ssl_lib \<Rightarrow> hss_ue_ctx \<Rightarrow> bytes \<Rightarrow> hss_ue_ctx" where
  "resync_sqn_milenage lib ue auts =
    (let k = ue_key ue; amf = ue_amf ue; opc = ue_opc ue; sqn = ue_sqn ue;
         last_rand = get_last_rand ue;
         sqn_ms_xor_ak = map (\<lambda>i. auts ! i) [0..<6];
         mac_s = map (\<lambda>i. auts ! (i + 6)) [0..<8];
         ak = the (snd (security_milenage_f5_star lib (Some k) (Some opc) (Some last_rand) (Some (replicate 6 0))));
         sqn_ms = map (\<lambda>i. sqn_ms_xor_ak ! i XOR ak ! i) [0..<6];
         dummy_amf = [0, 0];
         mac_s_tmp = snd (security_milenage_f1_star lib (Some k) (Some opc) (Some last_rand) (Some sqn_ms)
                       (Some dummy_amf) (Some (replicate 8 0)))
     in set_sqn sqn_ms ue)"

definition resync_sqn :: "ssl_lib \<Rightarrow> u64 \<Rightarrow> bytes \<Rightarrow> hss \<Rightarrow> bool \<times> hss" where
  "resync_sqn lib imsi auts h =
    (case get_ue_ctx h imsi of
       None \<Rightarrow> (False, h)
     | Some ue \<Rightarrow>
         (let ue = (case ue_algo ue of
                      HSS_ALGO_XOR \<Rightarrow> resync_sqn_xor ue auts
                    | HSS_ALGO_MILENAGE \<Rightarrow> resync_sqn_milenage lib ue auts)
          in (True, put_ue_ctx imsi (increment_seq_after_resync ue) h)))"

section \<open>Facts on sequence numbers\<close>

lemma bit_fold_OR:
  "bit (fold (\<lambda>i v. v OR f i) xs (v0 :: 'a::len word)) n \<longleftrightarrow> bit v0 n \<or> (\<exists>i \<in> set xs. bit (f i) n)"
  by (induction xs arbitrary: v0) (auto simp: bit_or_iff)

lemma bit_sqn_load: "bit (sqn_load s) n \<longleftrightarrow> n < 48 \<and> bit (s ! (5 - n div 8)) (n mod 8)"
proof -
  have u: "bit (b :: u8) m \<Longrightarrow> m < 8" for b m using bit_imp_le_length by fastforce
  have "bit (sqn_load s) n \<longleftrightarrow> (\<exists>i<6. (5 - i) * 8 \<le> n \<and> bit (s ! i) (n - (5 - i) * 8))"
  proof -
    have "bit (push_bit ((5 - i) * 8) (ucast (s ! i)) :: u64) n
        \<longleftrightarrow> (5 - i) * 8 \<le> n \<and> bit (s ! i) (n - (5 - i) * 8)" if "i < 6" for i
    proof -
      have "(5 - i) * 8 \<le> 40" by simp
      then show ?thesis using u [of "s ! i" "n - (5 - i) * 8"] by (auto simp: bit_simps)
    qed
    then show ?thesis by (auto simp: sqn_load_def bit_fold_OR)
  qed
  also have "\<dots> \<longleftrightarrow> n < 48 \<and> bit (s ! (5 - n div 8)) (n mod 8)"
  proof (intro iffI conjI)
    assume "\<exists>i<6. (5 - i) * 8 \<le> n \<and> bit (s ! i) (n - (5 - i) * 8)"
    then obtain i where i: "i < 6" "(5 - i) * 8 \<le> n" "bit (s ! i) (n - (5 - i) * 8)" by blast
    define m where "m = n - (5 - i) * 8"
    have m: "n = (5 - i) * 8 + m" "m < 8" using i u by (auto simp: m_def)
    then have d: "n div 8 = 5 - i" "n mod 8 = m" by simp_all
    show "n < 48" using m i(1) by linarith
    show "bit (s ! (5 - n div 8)) (n mod 8)" unfolding d using i by (simp add: m_def)
  next
    assume n: "n < 48 \<and> bit (s ! (5 - n div 8)) (n mod 8)"
    then have "n div 8 \<le> 5" by linarith
    then have e: "5 - (5 - n div 8) = n div 8" by simp
    have "n div 8 * 8 \<le> n" "n - n div 8 * 8 = n mod 8"
      by (simp_all add: minus_div_mult_eq_mod)
    then show "\<exists>i<6. (5 - i) * 8 \<le> n \<and> bit (s ! i) (n - (5 - i) * 8)"
      using n by (intro exI [of _ "5 - n div 8"]) (simp only: e, simp)
  qed
  finally show ?thesis .
qed

lemma sqn_load_bound: "unat (sqn_load s) < 2 ^ 48"
proof -
  have "take_bit 48 (sqn_load s) = sqn_load s"
    by (rule bit_word_eqI) (auto simp: bit_take_bit_iff bit_sqn_load)
  then show ?thesis by (metis take_bit_nat_less_exp unsigned_take_bit_eq)
qed

lemma length_sqn_store [simp]: "length (sqn_store w s) = length s"
  by (simp add: sqn_store_def)

lemma nth_sqn_store:
  assumes "length s = 6" "i < 6"
  shows "sqn_store w s ! i = ucast (drop_bit ((5 - i) * 8) w)"
proof -
  have ff: "(0xFF :: u64) = mask 8" by (simp add: mask_eq_exp_minus_1)
  have "(ucast (take_bit 8 x) :: u8) = ucast x" for x :: u64
    by (rule bit_word_eqI) (auto simp: bit_simps)
  then show ?thesis
    using assms by (simp add: sqn_store_def fill_id ff flip: take_bit_eq_mask)
qed

lemma sqn_load_store:
  assumes "length s = 6" "unat w < 2 ^ 48"
  shows "sqn_load (sqn_store w s) = w"
proof (rule bit_word_eqI)
  fix n assume "n < LENGTH(64)"
  have tw: "take_bit 48 w = w"
    using assms(2) by (simp add: word_unat_eq_iff unsigned_take_bit_eq take_bit_nat_eq_self)
  have high: "\<not> bit w n" if "48 \<le> n" for n
    by (metis tw bit_take_bit_iff not_less that)
  show "bit (sqn_load (sqn_store w s)) n = bit w n"
  proof (cases "n < 48")
    case True
    then have "n div 8 \<le> 5" by linarith
    then have "(5 - (5 - n div 8)) * 8 + n mod 8 = n" by simp
    then show ?thesis
      using assms(1) True by (simp add: bit_sqn_load nth_sqn_store bit_simps)
  next
    case False
    then show ?thesis using high [of n] by (simp add: bit_sqn_load)
  qed
qed

lemma sqn_store_load:
  assumes "length s = 6" "length t = 6"
  shows "sqn_store (sqn_load s) t = s"
proof (rule nth_equalityI)
  fix i assume "i < length (sqn_store (sqn_load s) t)"
  then have i: "i < 6" using assms by simp
  show "sqn_store (sqn_load s) t ! i = s ! i"
  proof (rule bit_word_eqI)
    fix n assume "n < LENGTH(8)"
    then have n: "n < 8" by simp
    have d: "((5 - i) * 8 + n) div 8 = 5 - i" "((5 - i) * 8 + n) mod 8 = n" using n by simp_all
    have "bit (sqn_load s) ((5 - i) * 8 + n) = bit (s ! i) n"
      unfolding bit_sqn_load d using n i by auto
    then show "bit (sqn_store (sqn_load s) t ! i) n = bit (s ! i) n"
      using n i assms by (simp add: nth_sqn_store bit_simps)
  qed
qed (simp add: assms)

text \<open>SEQ and IND of TS 33.102 Annex C.\<close>

definition sqn_seq :: "bytes \<Rightarrow> nat" where
  "sqn_seq s = unat (sqn_load s) div 32"

definition sqn_ind :: "bytes \<Rightarrow> nat" where
  "sqn_ind s = unat (sqn_load s) mod 32"

definition sqn_val :: "bytes \<Rightarrow> nat" where
  "sqn_val s = unat (sqn_load s)"

lemma sqn_val_parts: "sqn_val s = 32 * sqn_seq s + sqn_ind s" "sqn_ind s < 32" "sqn_seq s < 2 ^ 43"
proof -
  show "sqn_val s = 32 * sqn_seq s + sqn_ind s" "sqn_ind s < 32"
    by (simp_all add: sqn_val_def sqn_seq_def sqn_ind_def)
  show "sqn_seq s < 2 ^ 43"
    using sqn_load_bound [of s] by (simp add: sqn_seq_def less_mult_imp_div_less)
qed

lemma sqn_val_inj: "length s = 6 \<Longrightarrow> length t = 6 \<Longrightarrow> sqn_val s = sqn_val t \<Longrightarrow> s = t"
  by (metis sqn_store_load sqn_val_def word_unat_eq_iff)

lemma sqn_pack:
  assumes "length s = 6" "q < 2 ^ 43" "r < 32"
  shows "sqn_val (sqn_store (push_bit 5 (of_nat q) OR of_nat r) s) = 32 * q + r"
    and "sqn_seq (sqn_store (push_bit 5 (of_nat q) OR of_nat r) s) = q"
    and "sqn_ind (sqn_store (push_bit 5 (of_nat q) OR of_nat r) s) = r"
proof -
  have r: "take_bit 5 (of_nat r :: u64) = of_nat r"
    using assms(3) by (simp add: word_unat_eq_iff unsigned_take_bit_eq unat_of_nat take_bit_eq_mod unat_mod)
  have "push_bit 5 (of_nat q :: u64) OR of_nat r = push_bit 5 (of_nat q) + of_nat r"
    by (rule push_or_plus [OF r])
  also have "\<dots> = of_nat (32 * q + r)"
    by (simp add: push_bit_eq_mult)
  finally have w: "push_bit 5 (of_nat q :: u64) OR of_nat r = of_nat (32 * q + r)" .
  have b: "32 * q + r < 2 ^ 48" using assms(2,3) by simp
  then have "unat (of_nat (32 * q + r) :: u64) = 32 * q + r"
    by (simp add: unat_of_nat del: of_nat_add of_nat_mult)
  then show *: "sqn_val (sqn_store (push_bit 5 (of_nat q) OR of_nat r) s) = 32 * q + r"
    unfolding sqn_val_def w using sqn_load_store [OF assms(1), of "of_nat (32 * q + r)"] b by simp
  then show "sqn_seq (sqn_store (push_bit 5 (of_nat q) OR of_nat r) s) = q"
    "sqn_ind (sqn_store (push_bit 5 (of_nat q) OR of_nat r) s) = r"
    using assms(3) by (simp_all add: sqn_seq_def sqn_ind_def sqn_val_def)
qed

lemma sqn_fields:
  "drop_bit 5 (sqn_load s) = of_nat (sqn_seq s)" "sqn_load s AND 0x1F = of_nat (sqn_ind s)"
proof -
  show "drop_bit 5 (sqn_load s) = of_nat (sqn_seq s)"
    using sqn_load_bound [of s] by (simp add: word_unat_eq_iff unat_drop_bit_eq drop_bit_eq_div sqn_seq_def unat_of_nat unat_div)
  have m: "(0x1F :: u64) = mask 5" by (simp add: mask_eq_exp_minus_1)
  show "sqn_load s AND 0x1F = of_nat (sqn_ind s)"
    unfolding m take_bit_eq_mask [symmetric] sqn_ind_def
    by (simp add: word_unat_eq_iff unsigned_take_bit_eq take_bit_eq_mod unat_of_nat unat_mod)
qed

lemma next_mod:
  assumes "q < 2 ^ 43" "0 < m" "m \<le> 2 ^ 43"
  shows "((of_nat q + 1) mod of_nat m :: u64) = of_nat ((q + 1) mod m)"
proof -
  have "unat (of_nat q + 1 :: u64) = q + 1"
    using assms(1) by (simp add: unat_word_ariths unat_of_nat)
  moreover have "unat (of_nat m :: u64) = m" using assms(3) by (simp add: unat_of_nat)
  moreover have "(q + 1) mod m < 2 ^ 64" 
  proof -
    have "(q + 1) mod m < m" using assms(2) by simp
    also have "m \<le> 2 ^ 64" using assms(3) by (rule order_trans) simp
    finally show ?thesis .
  qed
  ultimately show ?thesis
    using assms by (simp add: word_unat_eq_iff unat_mod unat_of_nat)
qed

lemma increment_sqn_parts:
  assumes "length s = 6" "length t = 6"
  shows "sqn_seq (increment_sqn s t) = (sqn_seq s + 1) mod (2 ^ 43 - 1)"
    and "sqn_ind (increment_sqn s t) = (sqn_ind s + 1) mod 31" and "length (increment_sqn s t) = 6"
proof -
  note b = sqn_val_parts(2,3) [of s]
  have q: "(of_nat (sqn_seq s) + 1) mod 0x07FFFFFFFFFF = (of_nat ((sqn_seq s + 1) mod (2 ^ 43 - 1)) :: u64)"
    using next_mod [OF b(2), of "2 ^ 43 - 1"] by simp
  have r: "(of_nat (sqn_ind s) + 1) mod 31 = (of_nat ((sqn_ind s + 1) mod 31) :: u64)"
    using next_mod [of "sqn_ind s" 31] b(1) by simp
  have "(sqn_seq s + 1) mod (2 ^ 43 - 1) < 2 ^ 43 - 1" "(sqn_ind s + 1) mod 31 < 31" by simp_all
  then have "(sqn_seq s + 1) mod (2 ^ 43 - 1) < 2 ^ 43" "(sqn_ind s + 1) mod 31 < 32" by linarith+
  note p = sqn_pack [OF assms(2) this]
  show "sqn_seq (increment_sqn s t) = (sqn_seq s + 1) mod (2 ^ 43 - 1)"
    "sqn_ind (increment_sqn s t) = (sqn_ind s + 1) mod 31" "length (increment_sqn s t) = 6"
    unfolding increment_sqn_def Let_def sqn_fields q r using p assms by simp_all
qed

lemma increment_seq_parts:
  assumes "length (ue_sqn ue) = 6"
  defines "ue' \<equiv> increment_seq_after_resync ue"
  shows "sqn_seq (ue_sqn ue') = (sqn_seq (ue_sqn ue) + 1) mod (2 ^ 43 - 1)"
    and "sqn_ind (ue_sqn ue') = sqn_ind (ue_sqn ue)" and "length (ue_sqn ue') = 6" and "ue' = ue\<lparr>ue_sqn := ue_sqn ue'\<rparr>"
proof -
  let ?s = "ue_sqn ue"
  note b = sqn_val_parts(2,3) [of ?s]
  have q: "(of_nat (sqn_seq ?s) + 1) mod 0x07FFFFFFFFFF = (of_nat ((sqn_seq ?s + 1) mod (2 ^ 43 - 1)) :: u64)"
    using next_mod [OF b(2), of "2 ^ 43 - 1"] by simp
  have "(sqn_seq ?s + 1) mod (2 ^ 43 - 1) < 2 ^ 43 - 1" by simp
  then have "(sqn_seq ?s + 1) mod (2 ^ 43 - 1) < 2 ^ 43" by linarith
  note p = sqn_pack [OF assms(1) this b(1)]
  show "sqn_seq (ue_sqn ue') = (sqn_seq ?s + 1) mod (2 ^ 43 - 1)"
    "sqn_ind (ue_sqn ue') = sqn_ind ?s" "length (ue_sqn ue') = 6" "ue' = ue\<lparr>ue_sqn := ue_sqn ue'\<rparr>"
    unfolding ue'_def increment_seq_after_resync_def Let_def sqn_fields q using p assms by simp_all
qed


section \<open>Authentication vectors against the algorithms\<close>

fun algo_of :: "hss_auth_algo \<Rightarrow> auth_algo" where
  "algo_of HSS_ALGO_XOR = auth_algo_xor"
| "algo_of HSS_ALGO_MILENAGE = auth_algo_milenage"

definition ue_sizes :: "hss_ue_ctx \<Rightarrow> bool" where
  "ue_sizes ue \<longleftrightarrow> length (ue_key ue) = 16 \<and> length (ue_op ue) = 16 \<and> length (ue_opc ue) = 16 \<and>
    length (ue_amf ue) = 2 \<and> length (ue_sqn ue) = 6 \<and> length (ue_last_rand ue) = 16"

definition vector_sizes :: "auth_vector \<Rightarrow> bool" where
  "vector_sizes v \<longleftrightarrow> length (v_k_asme v) = 32 \<and> length (v_autn v) = 16 \<and> length (v_rand v) = 16 \<and> length (v_xres v) = 16"

definition rand_of :: "(nat \<Rightarrow> nat) \<Rightarrow> bytes" where
  "rand_of rnd = map (\<lambda>i. of_nat (rnd i mod 256)) [0..<16]"

lemma gen_rand_eq: "length rand = 16 \<Longrightarrow> gen_rand rnd rand = rand_of rnd"
  by (simp add: gen_rand_def rand_of_def fill_id)

lemma length_rand_of [simp]: "length (rand_of rnd) = 16"
  by (simp add: rand_of_def)

lemma hss_autn_eq:
  assumes "length autn = 16" "length sqn = 6" "length ak = 6" "length amf = 2" "length mac = 8"
  shows "hss_autn sqn ak amf mac autn = xor_bytes sqn ak @ amf @ mac"
proof -
  have "fill 6 (\<lambda>i. i) (\<lambda>i. sqn ! i XOR ak ! i) autn = fill 6 (\<lambda>i. 0 + i) (\<lambda>i. xor_bytes sqn ak ! i) autn"
    unfolding fill_def using assms by (intro fold_cong) auto
  also have "... = xor_bytes sqn ak @ drop 6 autn"
    using assms by (subst fill_shift [where k = 10]) simp_all
  finally show ?thesis
    using assms by (simp add: hss_autn_def fill_shift [where k = 8] fill_shift [where k = 0 and m = 8 and n = 8])
qed

text \<open>The vector of TS 33.102 for a subscriber record, before SQN is incremented.\<close>

definition aka_autn :: "ssl_lib \<Rightarrow> hss_ue_ctx \<Rightarrow> bytes \<Rightarrow> bytes" where
  "aka_autn lib ue rand =
    xor_bytes (ue_sqn ue) (aka_ak lib (algo_of (ue_algo ue)) (ue_key ue) (ue_opc ue) rand) @ ue_amf ue @
    aka_mac lib (algo_of (ue_algo ue)) (ue_key ue) (ue_opc ue) rand (ue_sqn ue) (ue_amf ue)"

definition vector_for :: "ssl_lib \<Rightarrow> u16 \<Rightarrow> u16 \<Rightarrow> hss_ue_ctx \<Rightarrow> bytes \<Rightarrow> auth_vector \<Rightarrow> bool" where
  "vector_for lib mcc mnc ue rand v \<longleftrightarrow>
    v_rand v = rand \<and> v_autn v = aka_autn lib ue rand \<and>
    take 8 (v_xres v) = aka_res lib (algo_of (ue_algo ue)) (ue_key ue) (ue_opc ue) rand \<and>
    v_k_asme v = aka_k_asme lib (algo_of (ue_algo ue)) (ue_key ue) (ue_opc ue) rand (take 6 (v_autn v)) mcc mnc"

lemma milenage_vector:
  assumes "ecb_16 lib" "hmac_32 lib" "ue_sizes ue" "vector_sizes v" "ue_algo ue = HSS_ALGO_MILENAGE"
  shows "\<exists>v'. gen_auth_info_answer_milenage lib rnd h ue v = (v', ue\<lparr>ue_last_rand := rand_of rnd\<rparr>) \<and>
    vector_sizes v' \<and> vector_for lib (h_mcc h) (h_mnc h) ue (rand_of rnd) v'"
proof -
  let ?k = "ue_key ue" and ?c = "ue_opc ue" and ?r = "rand_of rnd"
  note s = assms(3) [unfolded ue_sizes_def] and v = assms(4) [unfolded vector_sizes_def]
  have r: "gen_rand rnd (v_rand v) = ?r" using v by (simp add: gen_rand_eq)
  have l: "length (mil_f2 lib ?k ?c ?r) = 8" "length (mil_f3 lib ?k ?c ?r) = 16" "length (mil_f4 lib ?k ?c ?r) = 16"
    "length (mil_f5 lib ?k ?c ?r) = 6" "length (mil_f1 lib ?k ?c ?r (ue_sqn ue) (ue_amf ue)) = 8"
    using assms(1) s by simp_all
  have f2345: "security_milenage_f2345 lib (Some ?k) (Some ?c) (Some ?r) (Some (v_xres v)) (Some (replicate 16 0))
      (Some (replicate 16 0)) (Some (replicate 6 0)) = (LIBLTE_SUCCESS, Some (put (v_xres v) (mil_f2 lib ?k ?c ?r)),
        Some (mil_f3 lib ?k ?c ?r), Some (mil_f4 lib ?k ?c ?r), Some (mil_f5 lib ?k ?c ?r))"
    using s assms(1) l by (simp add: milenage_f2345_eq)
  have f1: "snd (security_milenage_f1 lib (Some ?k) (Some ?c) (Some ?r) (Some (ue_sqn ue)) (Some (ue_amf ue))
      (Some (replicate 8 0))) = Some (mil_f1 lib ?k ?c ?r (ue_sqn ue) (ue_amf ue))"
    using s assms(1) l by (simp add: milenage_f1_eq)
  note ka = kasme_spec [OF assms(2) l(2,3,4), of "ue_sqn ue" "v_k_asme v" "h_mcc h" "h_mnc h"]
  have lr: "set_last_rand ?r ue = ue\<lparr>ue_last_rand := ?r\<rparr>" using s by (simp add: set_last_rand_def)
  have t: "take 6 (xor_bytes (ue_sqn ue) (mil_f5 lib ?k ?c ?r) @ x) = xor_bytes (ue_sqn ue) (mil_f5 lib ?k ?c ?r)" for x
    using s l by simp
  show ?thesis
    unfolding gen_auth_info_answer_milenage_def Let_def r f2345 prod.case f1
    using s v l ka lr t assms(2,5)
    by (simp add: hss_autn_eq vector_for_def vector_sizes_def aka_autn_def aka_defs hmac_32_def)
qed

lemma xor_vector:
  assumes "hmac_32 lib" "ue_sizes ue" "vector_sizes v" "ue_algo ue = HSS_ALGO_XOR"
  shows "\<exists>v'. gen_auth_info_answer_xor lib rnd h ue v = (v', ue\<lparr>ue_last_rand := rand_of rnd\<rparr>) \<and>
    vector_sizes v' \<and> vector_for lib (h_mcc h) (h_mnc h) ue (rand_of rnd) v'"
proof -
  let ?k = "ue_key ue" and ?r = "rand_of rnd"
  note s = assms(2) [unfolded ue_sizes_def] and v = assms(3) [unfolded vector_sizes_def]
  have r: "gen_rand rnd (v_rand v) = ?r" using v by (simp add: gen_rand_eq)
  have l: "length (xor_ck ?k ?r) = 16" "length (xor_ik ?k ?r) = 16" "length (xor_ak ?k ?r) = 6"
    "length (xor_mac ?k ?r (ue_sqn ue) (ue_amf ue)) = 8"
    using s by simp_all
  have loops: "map (\<lambda>i. ?k ! i XOR ?r ! i) [0..<16] = xor_bytes ?k ?r"
    "fill 16 (\<lambda>i. i) (\<lambda>i. xor_bytes ?k ?r ! i) (v_xres v) = xor_bytes ?k ?r"
    "fill 16 (\<lambda>i. i) (\<lambda>i. xor_bytes ?k ?r ! ((i + 1) mod 16)) (replicate 16 0) = xor_ck ?k ?r"
    "fill 16 (\<lambda>i. i) (\<lambda>i. xor_bytes ?k ?r ! ((i + 2) mod 16)) (replicate 16 0) = xor_ik ?k ?r"
    "fill 6 (\<lambda>i. i) (\<lambda>i. xor_bytes ?k ?r ! (i + 3)) (replicate 6 0) = xor_ak ?k ?r"
    using xor_loops_algo [of ?k ?r "v_xres v" "replicate 16 0" "replicate 16 0" "replicate 6 0"] s v by simp_all
  have cd: "map (\<lambda>i. ue_sqn ue ! i) [0..<6] @ map (\<lambda>i. ue_amf ue ! i) [0..<2] = ue_sqn ue @ ue_amf ue"
    using s map_nth [of "ue_sqn ue"] map_nth [of "ue_amf ue"] by simp
  have mac: "map (\<lambda>i. xor_bytes ?k ?r ! i XOR (ue_sqn ue @ ue_amf ue) ! i) [0..<8] = xor_mac ?k ?r (ue_sqn ue) (ue_amf ue)"
    using s by (auto intro!: nth_equalityI simp: xor_mac_def)
  note ka = kasme_spec [OF assms(1) l(1,2,3), of "ue_sqn ue" "v_k_asme v" "h_mcc h" "h_mnc h"]
  have lr: "set_last_rand ?r ue = ue\<lparr>ue_last_rand := ?r\<rparr>" using s by (simp add: set_last_rand_def)
  have t: "take 6 (xor_bytes (ue_sqn ue) (xor_ak ?k ?r) @ x) = xor_bytes (ue_sqn ue) (xor_ak ?k ?r)" for x
    using s l by simp
  show ?thesis
    unfolding gen_auth_info_answer_xor_def Let_def r loops cd mac
    using s v l ka lr t assms(1,4)
    by (simp add: hss_autn_eq vector_for_def vector_sizes_def aka_autn_def aka_defs hmac_32_def)
qed

text \<open>The record after a vector: the RAND kept for a resynchronisation, SQN one step on.\<close>

definition ue_after :: "bytes \<Rightarrow> hss_ue_ctx \<Rightarrow> hss_ue_ctx" where
  "ue_after rand ue = ue\<lparr>ue_last_rand := rand, ue_sqn := increment_sqn (ue_sqn ue) (ue_sqn ue)\<rparr>"

lemma auth_info_answer:
  assumes "ecb_16 lib" "hmac_32 lib" "ue_sizes ue" "vector_sizes v" "get_ue_ctx h imsi = Some ue"
  shows "\<exists>v'. gen_auth_info_answer lib rnd imsi v h = (True, v', put_ue_ctx imsi (ue_after (rand_of rnd) ue) h) \<and>
    vector_sizes v' \<and> vector_for lib (h_mcc h) (h_mnc h) ue (rand_of rnd) v'"
  using milenage_vector [OF assms(1-4), of rnd h] xor_vector [OF assms(2-4), of rnd h] assms(5)
  by (cases "ue_algo ue") (auto simp: gen_auth_info_answer_def ue_after_def increment_ue_sqn_def)

lemma get_put_ue [simp]:
  "get_ue_ctx (put_ue_ctx imsi ue h) imsi' =
    (if imsi' = imsi \<and> get_ue_ctx h imsi \<noteq> None then Some ue else get_ue_ctx h imsi')"
  by (auto simp: get_ue_ctx_def put_ue_ctx_def stdmap.find_wrt)

lemma put_ue_frame [simp]:
  "h_mcc (put_ue_ctx imsi ue h) = h_mcc h" "h_mnc (put_ue_ctx imsi ue h) = h_mnc h"
  by (simp_all add: put_ue_ctx_def)

lemma ue_after_sizes: "ue_sizes ue \<Longrightarrow> length rand = 16 \<Longrightarrow> ue_sizes (ue_after rand ue)"
  by (simp add: ue_sizes_def ue_after_def increment_sqn_parts)


section \<open>Resynchronisation and the invariant\<close>

lemma length_f5_star: "ecb_16 lib \<Longrightarrow> length opc = 16 \<Longrightarrow> length rand = 16 \<Longrightarrow> length (mil_f5_star lib k opc rand) = 6"
  by (simp add: mil_f5_star_def)

text \<open>SQN_MS as AUTS conceals it.\<close>

definition auts_sqn :: "ssl_lib \<Rightarrow> hss_ue_ctx \<Rightarrow> bytes \<Rightarrow> bytes" where
  "auts_sqn lib ue auts = xor_bytes (take 6 auts) (mil_f5_star lib (ue_key ue) (ue_opc ue) (ue_last_rand ue))"

lemma resync_milenage_eq:
  assumes "ecb_16 lib" "ue_sizes ue" "6 \<le> length auts"
  shows "resync_sqn_milenage lib ue auts = ue\<lparr>ue_sqn := auts_sqn lib ue auts\<rparr>"
proof -
  note s = assms(2) [unfolded ue_sizes_def]
  have lr: "get_last_rand ue = ue_last_rand ue" using s by (simp add: get_last_rand_def)
  have l: "length (mil_f5_star lib (ue_key ue) (ue_opc ue) (ue_last_rand ue)) = 6"
    using assms(1) s by (intro length_f5_star) simp_all
  have ak: "the (snd (security_milenage_f5_star lib (Some (ue_key ue)) (Some (ue_opc ue)) (Some (ue_last_rand ue))
      (Some (replicate 6 0)))) = mil_f5_star lib (ue_key ue) (ue_opc ue) (ue_last_rand ue)"
    using s assms(1) l by (simp add: milenage_f5_star_eq)
  have ms: "map (\<lambda>i. map (\<lambda>i. auts ! i) [0..<6] ! i XOR mil_f5_star lib (ue_key ue) (ue_opc ue) (ue_last_rand ue) ! i) [0..<6]
      = auts_sqn lib ue auts"
    using l assms(3) by (auto intro!: nth_equalityI simp: auts_sqn_def)
  have "length (auts_sqn lib ue auts) = 6" using l assms(3) by (simp add: auts_sqn_def)
  then show ?thesis
    unfolding resync_sqn_milenage_def Let_def lr ak ms using s by (simp add: set_sqn_def)
qed

text \<open>Every stored subscriber has its declared sizes and stands under its own IMSI.\<close>

definition hss_ok :: "hss \<Rightarrow> bool" where
  "hss_ok h \<longleftrightarrow> map_ok (h_imsi_to_ue_ctx h) \<and> map_ok (h_ip_to_imsi h) \<and>
    (\<forall>imsi ue. get_ue_ctx h imsi = Some ue \<longrightarrow> ue_sizes ue \<and> ue_imsi ue = imsi)"

lemma hss_okD: "hss_ok h \<Longrightarrow> get_ue_ctx h imsi = Some ue \<Longrightarrow> ue_sizes ue \<and> ue_imsi ue = imsi"
  by (simp add: hss_ok_def)

lemma hss_ok_put:
  "hss_ok h \<Longrightarrow> ue_sizes ue \<Longrightarrow> ue_imsi ue = imsi \<Longrightarrow> hss_ok (put_ue_ctx imsi ue h)"
  by (auto simp: hss_ok_def stdmap.wrt_ok) (auto simp: put_ue_ctx_def stdmap.wrt_ok)

lemma ue_after_imsi [simp]: "ue_imsi (ue_after rand ue) = ue_imsi ue"
  by (simp add: ue_after_def)

text \<open>The requests of the MME.\<close>

datatype hss_request =
    Auth_info "nat \<Rightarrow> nat" u64 auth_vector
  | Update_loc u64 u8
  | Resync u64 bytes

fun hss_request_ok :: "hss_request \<Rightarrow> bool" where
  "hss_request_ok (Auth_info rnd imsi v) = vector_sizes v"
| "hss_request_ok (Update_loc imsi qci) = True"
| "hss_request_ok (Resync imsi auts) = (14 \<le> length auts)"

inductive hss_step :: "ssl_lib \<Rightarrow> hss \<Rightarrow> hss_request \<Rightarrow> hss \<Rightarrow> bool" for lib where
  auth_info: "gen_auth_info_answer lib rnd imsi v h = (ok, v', h') \<Longrightarrow> hss_step lib h (Auth_info rnd imsi v) h'"
| update_loc: "gen_update_loc_answer h imsi qci = (ok, qci') \<Longrightarrow> hss_step lib h (Update_loc imsi qci) h"
| resync: "resync_sqn lib imsi auts h = (ok, h') \<Longrightarrow> hss_step lib h (Resync imsi auts) h'"

inductive_simps hss_step_simps:
  "hss_step lib h (Auth_info rnd imsi v) h'"
  "hss_step lib h (Update_loc imsi qci) h'"
  "hss_step lib h (Resync imsi auts) h'"

inductive hss_run :: "ssl_lib \<Rightarrow> hss \<Rightarrow> hss_request list \<Rightarrow> hss \<Rightarrow> bool" for lib where
  start: "hss_run lib h [] h"
| request: "hss_run lib h rs h' \<Longrightarrow> hss_request_ok r \<Longrightarrow> hss_step lib h' r h'' \<Longrightarrow> hss_run lib h (rs @ [r]) h''"

definition ue_resynced :: "ssl_lib \<Rightarrow> hss_ue_ctx \<Rightarrow> bytes \<Rightarrow> hss_ue_ctx" where
  "ue_resynced lib ue auts = increment_seq_after_resync
     (case ue_algo ue of HSS_ALGO_XOR \<Rightarrow> resync_sqn_xor ue auts | HSS_ALGO_MILENAGE \<Rightarrow> resync_sqn_milenage lib ue auts)"

lemma resync_sqn_eq:
  "resync_sqn lib imsi auts h = (case get_ue_ctx h imsi of None \<Rightarrow> (False, h)
     | Some ue \<Rightarrow> (True, put_ue_ctx imsi (ue_resynced lib ue auts) h))"
  by (simp add: resync_sqn_def ue_resynced_def Let_def split: option.split)

lemma resync_ue:
  assumes "ecb_16 lib" "ue_sizes ue" "6 \<le> length auts"
  defines "ue' \<equiv> ue_resynced lib ue auts"
  defines "base \<equiv> (if ue_algo ue = HSS_ALGO_XOR then ue_sqn ue else auts_sqn lib ue auts)"
  shows "ue' = ue\<lparr>ue_sqn := ue_sqn ue'\<rparr>" "length (ue_sqn ue') = 6"
    "sqn_seq (ue_sqn ue') = (sqn_seq base + 1) mod (2 ^ 43 - 1)" "sqn_ind (ue_sqn ue') = sqn_ind base"
proof -
  have l: "length (auts_sqn lib ue auts) = 6" "length (ue_sqn ue) = 6"
    using assms(1-3) by (simp_all add: auts_sqn_def length_f5_star ue_sizes_def)
  have e: "ue' = increment_seq_after_resync (ue\<lparr>ue_sqn := base\<rparr>)"
    unfolding ue'_def base_def ue_resynced_def using resync_milenage_eq [OF assms(1-3)]
    by (cases "ue_algo ue") (simp_all add: resync_sqn_xor_def)
  have "length (ue_sqn (ue\<lparr>ue_sqn := base\<rparr>)) = 6" using l by (simp add: base_def)
  note p = increment_seq_parts [OF this]
  show "length (ue_sqn ue') = 6" "sqn_seq (ue_sqn ue') = (sqn_seq base + 1) mod (2 ^ 43 - 1)"
    "sqn_ind (ue_sqn ue') = sqn_ind base"
    unfolding e using p by simp_all
  show "ue' = ue\<lparr>ue_sqn := ue_sqn ue'\<rparr>"
    unfolding e by (subst p(4)) simp
qed

lemma resync_keeps:
  assumes "ecb_16 lib" "ue_sizes ue" "6 \<le> length auts"
  shows "ue_sizes (ue_resynced lib ue auts)" "ue_imsi (ue_resynced lib ue auts) = ue_imsi ue"
  using resync_ue(2) [OF assms] assms(2)
  by (subst resync_ue(1) [OF assms], simp add: ue_sizes_def)+

lemma hss_step_ok:
  assumes "ecb_16 lib" "hmac_32 lib" "hss_step lib h r h'" "hss_request_ok r" "hss_ok h"
  shows "hss_ok h' \<and> (\<forall>imsi. get_ue_ctx h' imsi = None \<longleftrightarrow> get_ue_ctx h imsi = None)"
  using assms(3)
proof cases
  case (auth_info rnd imsi v ok v')
  show ?thesis
  proof (cases "get_ue_ctx h imsi")
    case None
    then show ?thesis using auth_info assms(5) by (simp add: gen_auth_info_answer_def)
  next
    case (Some ue)
    note ue = hss_okD [OF assms(5) Some]
    have "h' = put_ue_ctx imsi (ue_after (rand_of rnd) ue) h"
      using auth_info_answer [OF assms(1,2) _ _ Some, of v rnd] ue auth_info assms(4) by auto
    then show ?thesis using ue assms(5) Some by (auto intro!: hss_ok_put ue_after_sizes)
  qed
next
  case (update_loc imsi qci ok qci')
  then show ?thesis using assms(5) by simp
next
  case (resync imsi auts ok)
  show ?thesis
  proof (cases "get_ue_ctx h imsi")
    case None
    then show ?thesis using resync assms(5) by (simp add: resync_sqn_eq)
  next
    case (Some ue)
    note ue = hss_okD [OF assms(5) Some]
    have "6 \<le> length auts" using resync(1) assms(4) by simp
    note k = resync_keeps [OF assms(1) _ this, of ue]
    show ?thesis
      using resync(2) Some ue k assms(5)
      by (auto simp: resync_sqn_eq intro!: hss_ok_put split: if_splits)
  qed
qed

lemma hss_run_ok:
  assumes "hss_run lib h rs h'" "ecb_16 lib" "hmac_32 lib" "hss_ok h"
  shows "hss_ok h' \<and> (\<forall>imsi. get_ue_ctx h' imsi = None \<longleftrightarrow> get_ue_ctx h imsi = None)"
  using assms(1,4) by (induction rule: hss_run.induct) (auto dest: hss_step_ok [OF assms(2,3)])


fun auth_for :: "u64 \<Rightarrow> hss_request \<Rightarrow> bool" where
  "auth_for imsi (Auth_info rnd imsi' v) = (imsi' = imsi)"
| "auth_for imsi _ = False"

fun is_resync :: "u64 \<Rightarrow> hss_request \<Rightarrow> bool" where
  "is_resync imsi (Resync imsi' auts) = (imsi' = imsi)"
| "is_resync imsi _ = False"

lemma hss_step_seq:
  assumes "ecb_16 lib" "hmac_32 lib" "hss_step lib h r h'" "hss_request_ok r" "hss_ok h"
    and "\<not> is_resync imsi r" "get_ue_ctx h imsi = Some ue"
  shows "\<exists>ue'. get_ue_ctx h' imsi = Some ue' \<and>
    sqn_seq (ue_sqn ue') = (if auth_for imsi r then (sqn_seq (ue_sqn ue) + 1) mod (2 ^ 43 - 1) else sqn_seq (ue_sqn ue))"
  using assms(3)
proof cases
  case (auth_info rnd imsi' v ok v')
  have l: "length (ue_sqn ue) = 6" using hss_okD [OF assms(5,7)] by (simp add: ue_sizes_def)
  show ?thesis
  proof (cases "get_ue_ctx h imsi'")
    case None
    then show ?thesis using auth_info assms(7) by (auto simp: gen_auth_info_answer_def)
  next
    case (Some ue2)
    note ue2 = hss_okD [OF assms(5) Some]
    have "h' = put_ue_ctx imsi' (ue_after (rand_of rnd) ue2) h"
      using auth_info_answer [OF assms(1,2) _ _ Some, of v rnd] ue2 auth_info assms(4) by auto
    then show ?thesis
      using Some assms(7) auth_info(1) increment_sqn_parts(1) [OF l l] by (auto simp: ue_after_def)
  qed
next
  case (update_loc imsi' qci ok qci')
  then show ?thesis using assms(7) by simp
next
  case (resync imsi' auts ok)
  then show ?thesis using assms(6,7) by (auto simp: resync_sqn_eq split: option.splits)
qed

section \<open>Properties\<close>

text \<open>
  Claim C21. An authentication information request for an unknown IMSI fails and changes nothing. For a
  known one it returns RAND, AUTN = SQN XOR AK || AMF || MAC, XRES and K_ASME of the subscriber's algorithm, stores the RAND, moves
  the subscriber's SQN one step on and leaves every other subscriber alone.
\<close>

theorem hss_auth_info:
  assumes "ecb_16 lib" "hmac_32 lib" "hss_ok h" "vector_sizes v"
  shows "case gen_auth_info_answer lib rnd imsi v h of (ok, v', h') \<Rightarrow>
    (case get_ue_ctx h imsi of
       None \<Rightarrow> \<not> ok \<and> v' = v \<and> h' = h
     | Some ue \<Rightarrow> ok \<and> vector_for lib (h_mcc h) (h_mnc h) ue (rand_of rnd) v' \<and> vector_sizes v' \<and>
         (\<forall>imsi'. get_ue_ctx h' imsi' = (if imsi' = imsi then Some (ue_after (rand_of rnd) ue) else get_ue_ctx h imsi')))"
proof (cases "get_ue_ctx h imsi")
  case None
  then show ?thesis by (simp add: gen_auth_info_answer_def)
next
  case (Some ue)
  then show ?thesis
    using auth_info_answer [OF assms(1,2) _ assms(4) Some, of rnd] hss_okD [OF assms(3) Some] by auto
qed

definition sample_ue :: hss_ue_ctx where
  "sample_ue = \<lparr>ue_name = ''ue1'', ue_imsi = 1010123456789, ue_algo = HSS_ALGO_XOR, ue_key = replicate 16 1,
    ue_op_configured = False, ue_op = replicate 16 0, ue_opc = replicate 16 0, ue_amf = [0x80, 0], ue_sqn = [0, 0, 0, 0, 4, 0xD2],
    ue_qci = 7, ue_last_rand = replicate 16 0, ue_static_ip_addr = ''0.0.0.0''\<rparr>"

definition sample_hss :: hss where
  "sample_hss = \<lparr>h_imsi_to_ue_ctx = [(1010123456789, sample_ue)], h_ip_to_imsi = [], h_db_file = [],
    h_mcc = 0xF001, h_mnc = 0xFF01\<rparr>"

definition sample_vector :: auth_vector where
  "sample_vector = \<lparr>v_k_asme = replicate 32 0, v_autn = replicate 16 0, v_rand = replicate 16 0, v_xres = replicate 16 0\<rparr>"

lemma sqn_load_list: "sqn_load [a, b, c, d, e, f] =
    ((((push_bit 40 (ucast a) OR push_bit 32 (ucast b)) OR push_bit 24 (ucast c)) OR push_bit 16 (ucast d)) OR
      push_bit 8 (ucast e)) OR ucast f"
  by (simp add: sqn_load_def upt_rec)

lemma sample_hss_ok: "hss_ok sample_hss" "vector_sizes sample_vector" "ue_sizes sample_ue"
  "get_ue_ctx sample_hss 1010123456789 = Some sample_ue" "get_ue_ctx sample_hss 5 = None"
  by (auto simp: hss_ok_def get_ue_ctx_def sample_hss_def sample_ue_def ue_sizes_def vector_sizes_def sample_vector_def
      split: if_splits)

theorem hss_auth_info_witness:
  "fst (gen_auth_info_answer sample_lib (\<lambda>i. 7 * i) 1010123456789 sample_vector sample_hss) \<and>
   \<not> fst (gen_auth_info_answer sample_lib (\<lambda>i. 7 * i) 5 sample_vector sample_hss)"
  using hss_auth_info [OF sample_lib_ok sample_hss_ok(1,2), of "\<lambda>i. 7 * i" 1010123456789]
    hss_auth_info [OF sample_lib_ok sample_hss_ok(1,2), of "\<lambda>i. 7 * i" 5]
  by (simp add: split_beta sample_hss_ok(4,5))

text \<open>
  One step of SQN adds one to SEQ modulo 2^43 - 1 and to IND modulo 31, in place or into another array; as a
  48-bit number SQN grows exactly if SEQ is below 2^43 - 2.
\<close>

theorem hss_sqn_step:
  assumes "length s = 6" "length t = 6"
  shows "sqn_seq (increment_sqn s t) = (sqn_seq s + 1) mod (2 ^ 43 - 1) \<and>
    sqn_ind (increment_sqn s t) = (sqn_ind s + 1) mod 31 \<and>
    (sqn_val s < sqn_val (increment_sqn s t) \<longleftrightarrow> sqn_seq s < 2 ^ 43 - 2)"
proof -
  note p = increment_sqn_parts(1,2) [OF assms]
  note v = sqn_val_parts [of s] and w = sqn_val_parts [of "increment_sqn s t"]
  have "sqn_seq s < 2 ^ 43 - 2 \<or> sqn_seq s = 2 ^ 43 - 2 \<or> sqn_seq s = 2 ^ 43 - 1" using v(3) by linarith
  then have "sqn_seq (increment_sqn s t) = (if sqn_seq s < 2 ^ 43 - 2 then sqn_seq s + 1 else if sqn_seq s = 2 ^ 43 - 2 then 0 else 1)"
    using p(1) by auto
  then have "sqn_val s < sqn_val (increment_sqn s t) \<longleftrightarrow> sqn_seq s < 2 ^ 43 - 2"
    using v(1,2,3) w(1,2) by (auto split: if_splits)
  then show ?thesis using p by simp
qed

theorem hss_sqn_step_witness:
  "sqn_val [0, 0, 0, 0, 4, 0xD2] < sqn_val (increment_sqn [0, 0, 0, 0, 4, 0xD2] [0, 0, 0, 0, 4, 0xD2]) \<and>
   \<not> sqn_val [0xFF, 0xFF, 0xFF, 0xFF, 0xFF, 0xFF] < sqn_val (increment_sqn [0xFF, 0xFF, 0xFF, 0xFF, 0xFF, 0xFF] [0xFF, 0xFF, 0xFF, 0xFF, 0xFF, 0xFF])"
proof -
  have "sqn_seq [0, 0, 0, 0, 4, 0xD2] = 38" "sqn_seq [0xFF, 0xFF, 0xFF, 0xFF, 0xFF, 0xFF] = 2 ^ 43 - 1"
    by (simp_all add: sqn_seq_def sqn_load_list)
  then show ?thesis
    using hss_sqn_step [of "[0, 0, 0, 0, 4, 0xD2]" "[0, 0, 0, 0, 4, 0xD2]"] hss_sqn_step [of "[0xFF, 0xFF, 0xFF, 0xFF, 0xFF, 0xFF]" "[0xFF, 0xFF, 0xFF, 0xFF, 0xFF, 0xFF]"]
    by simp
qed

text \<open>
  Claim C32. A resynchronisation of a Milenage subscriber sets SQN to the SQN_MS that AUTS conceals under f5* of the
  last RAND, with SEQ one on; the MAC-S in AUTS has no influence, the two halves may come from different
  messages. An XOR subscriber only has its SEQ advanced. An unknown IMSI changes nothing.
\<close>

theorem hss_resync:
  assumes "ecb_16 lib" "hss_ok h" "14 \<le> length auts" "take 6 auts' = take 6 auts" "14 \<le> length auts'"
  shows "(case resync_sqn lib imsi auts h of (ok, h') \<Rightarrow>
    (case get_ue_ctx h imsi of
       None \<Rightarrow> \<not> ok \<and> h' = h
     | Some ue \<Rightarrow>
         (let base = (if ue_algo ue = HSS_ALGO_XOR then ue_sqn ue else auts_sqn lib ue auts)
          in ok \<and> (\<exists>ue'. get_ue_ctx h' imsi = Some ue' \<and>
            sqn_seq (ue_sqn ue') = (sqn_seq base + 1) mod (2 ^ 43 - 1) \<and> sqn_ind (ue_sqn ue') = sqn_ind base \<and>
            ue' = ue\<lparr>ue_sqn := ue_sqn ue'\<rparr>)))) \<and>
    resync_sqn lib imsi auts' h = resync_sqn lib imsi auts h"
proof (cases "get_ue_ctx h imsi")
  case None
  then show ?thesis by (simp add: resync_sqn_eq)
next
  case (Some ue)
  note ue = hss_okD [OF assms(2) Some, THEN conjunct1]
  have l: "6 \<le> length auts" "6 \<le> length auts'" using assms(3,5) by simp_all
  note r = resync_ue [OF assms(1) ue l(1)]
  have "ue_resynced lib ue auts' = ue_resynced lib ue auts"
    using resync_milenage_eq [OF assms(1) ue l(1)] resync_milenage_eq [OF assms(1) ue l(2)] assms(4)
    by (cases "ue_algo ue") (simp_all add: ue_resynced_def resync_sqn_xor_def auts_sqn_def)
  then show ?thesis
    using Some r by (auto simp: resync_sqn_eq Let_def)
qed

theorem hss_resync_witness:
  "resync_sqn sample_lib 1010123456789 (replicate 14 1) sample_hss
    = resync_sqn sample_lib 1010123456789 (replicate 6 1 @ replicate 8 9) sample_hss"
  using hss_resync [OF sample_lib_ok(1) sample_hss_ok(1), of "replicate 6 1 @ replicate 8 9" "replicate 14 1" 1010123456789]
  by simp


lemma sample_run:
  "\<exists>h'. hss_run sample_lib sample_hss [Auth_info (\<lambda>i. i) 1010123456789 sample_vector] h'"
proof -
  obtain ok v' h' where "gen_auth_info_answer sample_lib (\<lambda>i. i) 1010123456789 sample_vector sample_hss = (ok, v', h')"
    by (metis surj_pair)
  then have "hss_run sample_lib sample_hss ([] @ [Auth_info (\<lambda>i. i) 1010123456789 sample_vector]) h'"
    using sample_hss_ok(2) by (intro hss_run.request [OF hss_run.start]) (auto intro: hss_step.intros)
  then show ?thesis by auto
qed




end
