(* ===== verification/Hss_Db.thy ===== *)
theory Hss_Db
  imports Hss
begin

text \<open>
  The subscriber file of the HSS: \<open>write_db_file\<close> against \<open>read_db_file\<close> of \<^verbatim>\<open>srsepc/src/hss/hss.cc\<close>, from the
  columns of a line up to the whole data base.
\<close>

section \<open>What a written file holds\<close>

definition plain :: "string \<Rightarrow> bool" where
  "plain s \<longleftrightarrow> CHR '','' \<notin> set s \<and> CHR 0x0A \<notin> set s"

lemma plain_simps [simp]: "plain []" "plain (c # s) \<longleftrightarrow> c \<noteq> CHR '','' \<and> c \<noteq> CHR 0x0A \<and> plain s"
  "plain (s @ t) \<longleftrightarrow> plain s \<and> plain t"
  by (auto simp: plain_def)

lemma plain_digits: "list_all isdigit s \<Longrightarrow> plain s"
  by (induction s) (auto dest: isdigit_other)

lemma plain_hex2 [simp]: "plain (hex2 b)"
proof -
  have "unat b < 256" using unat_u8_less [of b] by simp
  then have "unat b div 16 < 16" "unat b mod 16 < 16" by (auto simp: less_mult_imp_div_less)
  then show ?thesis
    using hex_char_digit [of "unat b div 16"] hex_char_digit [of "unat b mod 16"] by (simp add: hex2_def)
qed

lemma plain_hex_string [simp]: "plain (hex_string v n)"
  unfolding hex_string_def by (induction n) simp_all

lemma hex_string_Cons: "hex_string (b # v) (Suc n) = hex2 b @ hex_string v n"
proof -
  have "[0..<Suc n] = 0 # map Suc [0..<n]" by (simp add: map_Suc_upt upt_conv_Cons)
  then show ?thesis by (simp add: hex_string_def comp_def del: upt_Suc)
qed

lemma length_hex_string: "n \<le> length v \<Longrightarrow> length (hex_string v n) = 2 * n"
  by (induction n arbitrary: v) (auto simp: hex_string_Cons neq_Nil_conv Suc_le_length_iff hex_string_def hex2_def)

lemma drop_hex_string: "i < n \<Longrightarrow> n \<le> length v \<Longrightarrow> drop (2 * i) (hex_string v n) = hex2 (v ! i) @ hex_string (drop (Suc i) v) (n - Suc i)"
proof (induction i arbitrary: v n)
  case 0
  then obtain b w m where "v = b # w" "n = Suc m" by (cases v; cases n) auto
  then show ?case by (simp add: hex_string_Cons)
next
  case (Suc i)
  then obtain b w m where v: "v = b # w" "n = Suc m" by (cases v; cases n) auto
  then show ?case using Suc.IH [of m w] Suc.prems by (simp add: hex_string_Cons hex2_def)
qed

lemma ofold_fill:
  "(\<And>i. i < n \<Longrightarrow> i < length a) \<Longrightarrow> ofold (\<lambda>i a. wr a (int i) (g i)) [0..<n] a = Some (fill n (\<lambda>i. i) g a)"
proof (induction n)
  case (Suc n)
  then show ?case by (simp add: ofold_append fill_Suc)
qed simp

lemma read_hex_string:
  assumes "length v = n" "length buf = n"
  shows "get_uint_vec_from_hex_str (hex_string v n) buf n = Some v"
proof -
  have "get_uint_vec_from_hex_str (hex_string v n) buf n = ofold (\<lambda>i a. wr a (int i) (v ! i)) [0..<n] buf"
    unfolding get_uint_vec_from_hex_str_def
    using assms(1) by (intro ofold_cong) (simp add: length_hex_string drop_hex_string sscanf_hex2)
  also have "\<dots> = Some (fill n (\<lambda>i. i) (\<lambda>i. v ! i) buf)"
    using assms(2) by (intro ofold_fill) simp
  also have "fill n (\<lambda>i. i) (\<lambda>i. v ! i) buf = v"
    using assms map_nth [of v] by (simp add: fill_id)
  finally show ?thesis .
qed

lemma split_join:
  "list_all (\<lambda>t. d \<notin> set t) ts \<Longrightarrow> ts \<noteq> [] \<Longrightarrow> last ts \<noteq> [] \<Longrightarrow> getlines d (join d ts) = ts"
proof (induction d ts rule: join.induct)
  case (2 d s)
  then show ?case by (simp add: getlines_last)
next
  case (3 d s t ts)
  then show ?case by (simp add: getlines_token)
qed simp

lemma set_join: "set (join d ts) \<subseteq> insert d (\<Union> (set ` set ts))"
  by (induction d ts rule: join.induct) auto


lemma getlines_lines: "list_all (\<lambda>l. d \<notin> set l) ls \<Longrightarrow> getlines d (concat (map (\<lambda>l. l @ [d]) ls)) = ls"
  by (induction ls) (simp_all add: getlines_token)

section \<open>One subscriber\<close>

text \<open>
  What the format can carry: a name without comma, line break or leading \<open>#\<close>, and an address that is
  either \<open>0.0.0.0\<close> or a valid one; OPc is the one computed from OP where OP is configured.
\<close>

definition ue_writable :: "ssl_lib \<Rightarrow> (string \<Rightarrow> bool) \<Rightarrow> hss_ue_ctx \<Rightarrow> bool" where
  "ue_writable lib valid_ip ue \<longleftrightarrow> ue_sizes ue \<and> plain (ue_name ue) \<and> (ue_name ue = [] \<or> hd (ue_name ue) \<noteq> CHR ''#'') \<and>
    (ue_op_configured ue \<longrightarrow> ue_opc ue = xor_bytes (crypt_ecb lib (ue_key ue) (ue_op ue)) (ue_op ue)) \<and>
    (ue_static_ip_addr ue \<noteq> ''0.0.0.0'' \<longrightarrow> plain (ue_static_ip_addr ue) \<and> ue_static_ip_addr ue \<noteq> [] \<and>
      ue_static_ip_addr ue \<noteq> ''dynamic'' \<and> valid_ip (c_str (ue_static_ip_addr ue)))"

text \<open>The record as it is read back: the last RAND, and OP where only OPc is configured, are lost.\<close>

definition reread :: "hss_ue_ctx \<Rightarrow> hss_ue_ctx \<Rightarrow> hss_ue_ctx" where
  "reread fresh ue = ue\<lparr>ue_last_rand := ue_last_rand fresh, ue_op := (if ue_op_configured ue then ue_op ue else ue_op fresh)\<rparr>"

lemma db_columns_plain:
  assumes "ue_writable lib valid_ip ue"
  shows "list_all plain (db_columns ue)" "length (db_columns ue) = 10" "last (db_columns ue) \<noteq> []"
proof -
  have "plain (pad0 w (dec_str n))" "plain (dec_str n)" for w n
    using dec_str_digits [of n] by (auto intro!: plain_digits pad0_digits)
  then show "list_all plain (db_columns ue)" "length (db_columns ue) = 10" "last (db_columns ue) \<noteq> []"
    using assms by (simp_all add: db_columns_def ue_writable_def)
qed

lemma db_line_split:
  assumes "ue_writable lib valid_ip ue"
  shows "split_string (join CHR '','' (db_columns ue)) CHR '','' = db_columns ue"
    and "CHR 0x0A \<notin> set (join CHR '','' (db_columns ue))"
    and "join CHR '','' (db_columns ue) \<noteq> []" "hd (join CHR '','' (db_columns ue)) \<noteq> CHR ''#''"
proof -
  note c = db_columns_plain [OF assms]
  show "split_string (join CHR '','' (db_columns ue)) CHR '','' = db_columns ue"
    unfolding split_string_def using c by (intro split_join) (auto simp: list_all_iff plain_def)
  show "CHR 0x0A \<notin> set (join CHR '','' (db_columns ue))"
    using set_join [of "CHR '',''" "db_columns ue"] c(1) by (auto simp: list_all_iff plain_def)
  have j: "\<exists>r. join CHR '','' (db_columns ue) = ue_name ue @ CHR '','' # r"
    by (simp add: db_columns_def)
  then show "join CHR '','' (db_columns ue) \<noteq> []" by auto
  show "hd (join CHR '','' (db_columns ue)) \<noteq> CHR ''#''"
    using j assms by (cases "ue_name ue") (auto simp: ue_writable_def)
qed

lemma read_columns:
  assumes "ue_writable lib valid_ip ue" "ue_sizes fresh" "ecb_16 lib" "ue_name f = ue_name ue"
    "f = fresh\<lparr>ue_name := ue_name ue, ue_algo := ue_algo ue, ue_imsi := ue_imsi ue\<rparr>"
  shows "read_keys lib (db_columns ue) f
    = Some (Some ((reread fresh ue)\<lparr>ue_qci := ue_qci fresh, ue_static_ip_addr := ue_static_ip_addr fresh\<rparr>))"
proof -
  have s: "length (ue_key ue) = 16" "length (ue_op ue) = 16" "length (ue_opc ue) = 16" "length (ue_amf ue) = 2"
    "length (ue_sqn ue) = 6" using assms(1) by (simp_all add: ue_writable_def ue_sizes_def)
  have f: "length (ue_key fresh) = 16" "length (ue_op fresh) = 16" "length (ue_opc fresh) = 16" "length (ue_amf fresh) = 2"
    "length (ue_sqn fresh) = 6" using assms(2) by (simp_all add: ue_sizes_def)
  have opc: "compute_opc lib (Some (ue_key ue)) (Some (ue_op ue)) (Some (ue_opc fresh))
      = (LIBLTE_SUCCESS, Some (put (ue_opc fresh) (xor_bytes (crypt_ecb lib (ue_key ue) (ue_op ue)) (ue_op ue))))"
    using assms(3) s by (intro compute_opc_eq)
  have l: "length (crypt_ecb lib (ue_key ue) (ue_op ue)) = 16" using assms(3) s by (simp add: ecb_16_def)
  show ?thesis
    using assms(1,5) s f opc l
    by (cases "ue_op_configured ue")
      (simp_all add: read_keys_def db_columns_def read_hex_string Let_def reread_def ue_writable_def)
qed


text \<open>Reading the line of a subscriber inserts it, with its static address if it has one.\<close>

definition has_static :: "hss_ue_ctx \<Rightarrow> bool" where
  "has_static ue \<longleftrightarrow> ue_static_ip_addr ue \<noteq> ''0.0.0.0''"

lemma read_written_line:
  assumes "ue_writable lib valid_ip ue" "ue_sizes fresh" "ecb_16 lib"
    and "map_ok (h_ip_to_imsi h)" "has_static ue \<Longrightarrow> map_find (ue_static_ip_addr ue) (h_ip_to_imsi h) = None"
  shows "read_db_line lib valid_ip fresh (join CHR '','' (db_columns ue)) h
    = Some (True, h\<lparr>h_imsi_to_ue_ctx := snd (map_insert (ue_imsi ue) (reread fresh ue) (h_imsi_to_ue_ctx h)),
        h_ip_to_imsi := (if has_static ue then snd (map_insert (ue_static_ip_addr ue) (ue_imsi ue) (h_ip_to_imsi h))
                         else h_ip_to_imsi h)\<rparr>)"
proof -
  let ?f = "fresh\<lparr>ue_name := ue_name ue, ue_algo := ue_algo ue, ue_imsi := ue_imsi ue\<rparr>"
  note sp = db_line_split(1) [OF assms(1)] and len = db_columns_plain(2) [OF assms(1)]
  have cols: "db_columns ue ! 0 = ue_name ue" "read_algo (db_columns ue ! 1) = Some (ue_algo ue)"
    "db_columns ue ! 9 = (if has_static ue then ue_static_ip_addr ue else ''dynamic'')"
    by (auto simp: db_columns_def read_algo_def has_static_def split: hss_auth_algo.splits)
      (metis hss_auth_algo.exhaust)+
  have imsi: "strtoull10 (db_columns ue ! 2) = ue_imsi ue"
    using strtoull_dec [of "unat (ue_imsi ue)" 15] unsigned_less [of "ue_imsi ue"] by (simp add: db_columns_def)
  have "unat (ue_qci ue) < 2 ^ 63"
    by (rule order_less_le_trans [OF unsigned_less]) simp
  then have qci: "word_of_int (strtol10 (db_columns ue ! 8)) = ue_qci ue"
    by (simp add: db_columns_def strtol_dec)
  note keys = read_columns [OF assms(1-3), of ?f]
  have upd: "(reread fresh ue)\<lparr>ue_qci := ue_qci ue, ue_static_ip_addr := ue_static_ip_addr ue\<rparr> = reread fresh ue"
    "ue_imsi (reread fresh ue) = ue_imsi ue"
    by (simp_all add: reread_def)
  show ?thesis
  proof (cases "has_static ue")
    case False
    then have z: "ue_static_ip_addr ue = ''0.0.0.0''" by (simp add: has_static_def)
    show ?thesis
      unfolding read_db_line_def Let_def sp
      using len cols imsi qci keys upd z False by simp
  next
    case True
    have v: "ue_static_ip_addr ue \<noteq> ''dynamic''" "valid_ip (c_str (ue_static_ip_addr ue))"
      using assms(1) True by (auto simp: ue_writable_def has_static_def)
    have "fst (map_insert (ue_static_ip_addr ue) (ue_imsi ue) (h_ip_to_imsi h))"
      using stdmap.ins_new [OF assms(4)] assms(5) True by simp
    then obtain ips where i: "map_insert (ue_static_ip_addr ue) (ue_imsi ue) (h_ip_to_imsi h) = (True, ips)"
      by (cases "map_insert (ue_static_ip_addr ue) (ue_imsi ue) (h_ip_to_imsi h)") auto
    show ?thesis
      unfolding read_db_line_def Let_def sp
      using len cols imsi qci keys upd v True i by simp
  qed
qed


section \<open>The whole file\<close>

definition statics :: "(u64, hss_ue_ctx) std_map \<Rightarrow> (string \<times> u64) list" where
  "statics m = map (\<lambda>(imsi, ue). (ue_static_ip_addr ue, imsi)) (filter (\<lambda>(imsi, ue). has_static ue) m)"

lemma statics_simps [simp]: "statics [] = []"
  "statics ((imsi, ue) # m) = (if has_static ue then (ue_static_ip_addr ue, imsi) # statics m else statics m)"
  by (simp_all add: statics_def)

abbreviation add_ips :: "(string \<times> u64) list \<Rightarrow> (string, u64) std_map \<Rightarrow> (string, u64) std_map" where
  "add_ips ips m \<equiv> fold (\<lambda>(k, v) m. snd (map_insert k v m)) ips m"

text \<open>A data base that a file can carry: every record is writable and under its IMSI, no address is given twice.\<close>

definition db_ok :: "ssl_lib \<Rightarrow> (string \<Rightarrow> bool) \<Rightarrow> (u64, hss_ue_ctx) std_map \<Rightarrow> bool" where
  "db_ok lib valid_ip m \<longleftrightarrow> map_ok m \<and> (\<forall>(imsi, ue) \<in> set m. ue_writable lib valid_ip ue \<and> ue_imsi ue = imsi) \<and>
    distinct (map fst (statics m))"

abbreviation reread_all :: "hss_ue_ctx \<Rightarrow> (u64, hss_ue_ctx) std_map \<Rightarrow> (u64, hss_ue_ctx) std_map" where
  "reread_all fresh m \<equiv> map (\<lambda>(imsi, ue). (imsi, reread fresh ue)) m"

definition db_lines :: "(u64, hss_ue_ctx) std_map \<Rightarrow> string list" where
  "db_lines m = map (\<lambda>(imsi, ue). join CHR '','' (db_columns ue)) m"

lemma read_db_lines_entries:
  assumes "ue_sizes fresh" "ecb_16 lib"
  shows "map_ok (pre @ es) \<Longrightarrow> (\<forall>(imsi, ue) \<in> set es. ue_writable lib valid_ip ue \<and> ue_imsi ue = imsi) \<Longrightarrow>
    distinct (map fst (statics es)) \<Longrightarrow> map_ok (h_ip_to_imsi h) \<Longrightarrow>
    (\<And>ip. ip \<in> fst ` set (statics es) \<Longrightarrow> map_find ip (h_ip_to_imsi h) = None) \<Longrightarrow>
    h_imsi_to_ue_ctx h = reread_all fresh pre \<Longrightarrow>
    read_db_lines lib valid_ip fresh (db_lines es) h
      = Some (True, h\<lparr>h_imsi_to_ue_ctx := reread_all fresh (pre @ es), h_ip_to_imsi := add_ips (statics es) (h_ip_to_imsi h)\<rparr>)"
proof (induction es arbitrary: pre h)
  case Nil
  then show ?case by (simp add: db_lines_def)
next
  case (Cons e es)
  obtain imsi ue where e: "e = (imsi, ue)" by fastforce
  have w: "ue_writable lib valid_ip ue" "ue_imsi ue = imsi" using Cons.prems(2) by (simp_all add: e)
  have ok: "map_ok pre" "\<And>x. x \<in> set pre \<Longrightarrow> fst x < imsi" "map_ok ((pre @ [e]) @ es)"
    using Cons.prems(1) by (auto simp: map_ok_def e sorted_wrt_append)
  have ins: "snd (map_insert imsi (reread fresh ue) (reread_all fresh pre)) = reread_all fresh (pre @ [e])"
  proof -
    have "map fst (reread_all fresh pre) = map fst pre" by (induction pre) auto
    then have "map_ok (reread_all fresh pre)" using ok(1) by (simp only: map_ok_def)
    moreover have "a < imsi" if "a \<in> fst ` set (reread_all fresh pre)" for a
      using that ok(2) by force
    ultimately show ?thesis by (subst map_insert_last) (simp_all add: e)
  qed
  have free: "has_static ue \<Longrightarrow> map_find (ue_static_ip_addr ue) (h_ip_to_imsi h) = None"
    using Cons.prems(5) by (simp add: e)
  let ?m = "if has_static ue then snd (map_insert (ue_static_ip_addr ue) imsi (h_ip_to_imsi h)) else h_ip_to_imsi h"
  let ?h = "h\<lparr>h_imsi_to_ue_ctx := reread_all fresh (pre @ [e]), h_ip_to_imsi := ?m\<rparr>"
  have line: "read_db_line lib valid_ip fresh (join CHR '','' (db_columns ue)) h = Some (True, ?h)"
    using read_written_line [OF w(1) assms Cons.prems(4) free] ins by (simp add: w(2) Cons.prems(6))
  have "read_db_lines lib valid_ip fresh (db_lines es) ?h
      = Some (True, ?h\<lparr>h_imsi_to_ue_ctx := reread_all fresh ((pre @ [e]) @ es), h_ip_to_imsi := add_ips (statics es) ?m\<rparr>)"
  proof (subst Cons.IH [OF ok(3)])
    show "distinct (map fst (statics es))" using Cons.prems(3) by (simp add: e split: if_splits)
    show "map_find ip (h_ip_to_imsi ?h) = None" if "ip \<in> fst ` set (statics es)" for ip
    proof -
      have "has_static ue \<Longrightarrow> ue_static_ip_addr ue \<notin> fst ` set (statics es)" using Cons.prems(3) by (simp add: e)
      then have "has_static ue \<Longrightarrow> ip \<noteq> ue_static_ip_addr ue" using that by metis
      moreover have "map_find ip (h_ip_to_imsi h) = None" using that Cons.prems(5) by (simp add: e)
      ultimately show ?thesis using Cons.prems(4) by (simp add: stdmap.find_ins)
    qed
  qed (use Cons.prems(2,4) stdmap.ins_ok in \<open>auto simp: e\<close>)
  then show ?case
    using line db_line_split(3,4) [OF w(1)] by (simp add: db_lines_def e)
qed

lemma db_header_comment: "list_all (\<lambda>l. l \<noteq> [] \<and> hd l = CHR ''#'' \<and> CHR 0x0A \<notin> set l) db_header"
  by (simp add: db_header_def)

lemma read_db_lines_comments:
  "list_all (\<lambda>l. l \<noteq> [] \<and> hd l = CHR ''#'' \<and> CHR 0x0A \<notin> set l) cs \<Longrightarrow>
   read_db_lines lib valid_ip fresh (cs @ ls) h = read_db_lines lib valid_ip fresh ls h"
  by (induction cs) simp_all

lemma read_written_file:
  assumes "db_ok lib valid_ip (h_imsi_to_ue_ctx h)" "ue_sizes fresh" "ecb_16 lib"
    and "h_imsi_to_ue_ctx h0 = []" "h_ip_to_imsi h0 = []"
  shows "read_db_file lib valid_ip fresh (Some (write_db_file h)) h0
    = Some (True, h0\<lparr>h_imsi_to_ue_ctx := reread_all fresh (h_imsi_to_ue_ctx h),
        h_ip_to_imsi := add_ips (statics (h_imsi_to_ue_ctx h)) []\<rparr>)"
proof -
  let ?m = "h_imsi_to_ue_ctx h"
  have w: "\<And>imsi ue. (imsi, ue) \<in> set ?m \<Longrightarrow> ue_writable lib valid_ip ue" and ok: "map_ok ?m"
    "\<forall>(imsi, ue) \<in> set ?m. ue_writable lib valid_ip ue \<and> ue_imsi ue = imsi" "distinct (map fst (statics ?m))"
    using assms(1) by (auto simp: db_ok_def)
  have txt_eq: "write_db_file h = concat (map (\<lambda>l. l @ [CHR 0x0A]) (db_header @ db_lines ?m))"
    by (simp add: write_db_file_def db_lines_def comp_def case_prod_unfold)
  have "list_all (\<lambda>l. CHR 0x0A \<notin> set l) (db_header @ db_lines ?m)"
    using db_header_comment db_line_split(2) [OF w] by (auto simp: list_all_iff db_lines_def)
  then have "getlines CHR 0x0A (write_db_file h) = db_header @ db_lines ?m"
    unfolding txt_eq by (rule getlines_lines)
  then show ?thesis
    using read_db_lines_entries [OF assms(2,3), of "[]" ?m valid_ip h0] ok assms(4,5)
    by (simp add: read_db_file_def read_db_lines_comments [OF db_header_comment])
qed

section \<open>Properties\<close>

text \<open>
  Claim C37. Reading the file that \<open>write_db_file\<close> writes succeeds and gives back every subscriber, SQN, keys, algorithm,
  QCI and address included; only the RAND of the last vector, and OP where OPc is configured, are not stored. The
  address map then holds exactly the static addresses.
\<close>

theorem hss_db_roundtrip:
  assumes "db_ok lib valid_ip (h_imsi_to_ue_ctx h)" "ue_sizes fresh" "ecb_16 lib"
    and "h_imsi_to_ue_ctx h0 = []" "h_ip_to_imsi h0 = []"
  shows "\<exists>h'. read_db_file lib valid_ip fresh (Some (write_db_file h)) h0 = Some (True, h') \<and>
    (\<forall>imsi. get_ue_ctx h' imsi = map_option (reread fresh) (get_ue_ctx h imsi)) \<and>
    map_ok (h_ip_to_imsi h') \<and> (\<forall>ip. map_find ip (h_ip_to_imsi h') = map_of (statics (h_imsi_to_ue_ctx h)) ip)"
proof -
  have find: "map_find imsi (reread_all fresh m) = map_option (reread fresh) (map_find imsi m)" for imsi m
    by (induction m) auto
  have "distinct (map fst (statics (h_imsi_to_ue_ctx h)))" using assms(1) by (simp add: db_ok_def)
  note ips = stdmap.insert_many_find [OF _ _ this, of "[]"] stdmap.insert_many_ok [of "[]"]
  show ?thesis
    using read_written_file [OF assms] ips by (simp add: get_ue_ctx_def find)
qed

theorem hss_db_roundtrip_witness:
  "\<exists>h'. read_db_file sample_lib (\<lambda>ip. True) sample_ue (Some (write_db_file sample_hss)) (sample_hss\<lparr>h_imsi_to_ue_ctx := []\<rparr>)
      = Some (True, h') \<and> get_ue_ctx h' 1010123456789 = Some (reread sample_ue sample_ue)"
proof -
  have "db_ok sample_lib (\<lambda>ip. True) (h_imsi_to_ue_ctx sample_hss)"
    using sample_hss_ok(3) by (auto simp: db_ok_def sample_hss_def ue_writable_def sample_ue_def has_static_def)
  from hss_db_roundtrip [OF this sample_hss_ok(3) sample_lib_ok(1), of "sample_hss\<lparr>h_imsi_to_ue_ctx := []\<rparr>"]
  show ?thesis using sample_hss_ok(4) by (auto simp: sample_hss_def)
qed

end
