(* ===== verification/Aka.thy ===== *)
theory Aka
  imports Hss_Db
begin

text \<open>
  The authentication and key agreement end to end: the HSS issues a vector, the USIM answers it, the MME
  compares RES with XRES. The locale \<open>aka_algorithm\<close> states what either side promises for one algorithm; it is
  interpreted for Milenage and for XOR on the functions of \<^verbatim>\<open>hss.cc\<close> and \<^verbatim>\<open>usim.cc\<close>.
\<close>

section \<open>The check of the MME\<close>

text \<open>The comparison loop of \<^verbatim>\<open>handle_authentication_response\<close> in \<^verbatim>\<open>srsepc/src/mme/nas.cc\<close>.\<close>

definition mme_ue_valid :: "bytes \<Rightarrow> bytes \<Rightarrow> bool" where
  "mme_ue_valid res xres = fold (\<lambda>i ue_valid. if res ! i \<noteq> xres ! i then False else ue_valid) [0..<8] True"

lemma mme_ue_valid_iff:
  assumes "8 \<le> length res" "8 \<le> length xres"
  shows "mme_ue_valid res xres \<longleftrightarrow> take 8 res = take 8 xres"
proof -
  have "fold (\<lambda>i ok. if res ! i \<noteq> xres ! i then False else ok) is b \<longleftrightarrow> b \<and> (\<forall>i \<in> set is. res ! i = xres ! i)" for b "is"
    by (induction "is" arbitrary: b) auto
  then show ?thesis
    using assms by (auto simp: mme_ue_valid_def list_eq_iff_nth_eq)
qed

section \<open>The interface\<close>

type_synonym response = "auth_result \<times> bytes \<times> int \<times> bytes \<times> usim"

definition response_for ::
  "ssl_lib \<Rightarrow> auth_algo \<Rightarrow> usim \<Rightarrow> bytes \<Rightarrow> bytes \<Rightarrow> u16 \<Rightarrow> u16 \<Rightarrow> response \<Rightarrow> bool" where
  "response_for lib algo u rand autn mcc mnc r \<longleftrightarrow>
    (case r of (result, res, res_len, k_asme, u') \<Rightarrow>
      (let k = u_k u; opc = u_opc u; ak = aka_ak lib algo k opc rand;
           mac = aka_mac lib algo k opc rand (xor_bytes (take 6 autn) ak) (take 2 (drop 6 autn))
       in result = (if drop 8 autn = mac then AUTH_OK else AUTH_FAILED) \<and>
          take 8 res = aka_res lib algo k opc rand \<and> length res = 16 \<and>
          k_asme = aka_k_asme lib algo k opc rand (take 6 autn) mcc mnc \<and>
          u_k u' = k \<and> u_opc u' = opc \<and> u_auth_algo u' = u_auth_algo u \<and> usim_sizes u'))"

locale aka_algorithm =
  fixes algo :: hss_auth_algo
    and net :: "ssl_lib \<Rightarrow> (nat \<Rightarrow> nat) \<Rightarrow> hss \<Rightarrow> hss_ue_ctx \<Rightarrow> auth_vector \<Rightarrow> auth_vector \<times> hss_ue_ctx"
    and resp :: "ssl_lib \<Rightarrow> usim \<Rightarrow> bytes \<Rightarrow> bytes \<Rightarrow> u16 \<Rightarrow> u16 \<Rightarrow> bytes \<Rightarrow> bytes \<Rightarrow> response"
  assumes net_vector: "ecb_16 lib \<Longrightarrow> hmac_32 lib \<Longrightarrow> ue_sizes ue \<Longrightarrow> vector_sizes v \<Longrightarrow> ue_algo ue = algo \<Longrightarrow>
      vector_for lib (h_mcc h) (h_mnc h) ue (rand_of rnd) (fst (net lib rnd h ue v)) \<and> vector_sizes (fst (net lib rnd h ue v))"
    and resp_response: "ecb_16 lib \<Longrightarrow> hmac_32 lib \<Longrightarrow> usim_sizes u \<Longrightarrow> u_auth_algo u = algo_of algo \<Longrightarrow>
      length rand = 16 \<Longrightarrow> length autn = 16 \<Longrightarrow> length res = 16 \<Longrightarrow> length k_asme = 32 \<Longrightarrow>
      response_for lib (algo_of algo) u rand autn mcc mnc (resp lib u rand autn mcc mnc res k_asme)"
begin

text \<open>Any challenge made for the terminal's key and OPc is accepted, with the same RES and K_ASME.\<close>

lemma accepts:
  assumes "ecb_16 lib" "hmac_32 lib" "usim_sizes u" "u_auth_algo u = algo_of algo" "ue_sizes ue" "vector_sizes v"
    and "ue_algo ue = algo" "length rand = 16" "length res = 16" "length k_asme = 32"
    and shared: "\<And>rand sqn amf. aka_mac lib (algo_of algo) (u_k u) (u_opc u) rand sqn amf
        = aka_mac lib (algo_of algo) (ue_key ue) (ue_opc ue) rand sqn amf"
      "\<And>rand. aka_res lib (algo_of algo) (u_k u) (u_opc u) rand = aka_res lib (algo_of algo) (ue_key ue) (ue_opc ue) rand"
      "\<And>rand. aka_ak lib (algo_of algo) (u_k u) (u_opc u) rand = aka_ak lib (algo_of algo) (ue_key ue) (ue_opc ue) rand"
      "\<And>rand x m n. aka_k_asme lib (algo_of algo) (u_k u) (u_opc u) rand x m n
        = aka_k_asme lib (algo_of algo) (ue_key ue) (ue_opc ue) rand x m n"
    and v: "vector_for lib mcc mnc ue rand v"
  shows "case resp lib u (v_rand v) (v_autn v) mcc mnc res k_asme of (result, res', len, k_asme', u') \<Rightarrow>
    result = AUTH_OK \<and> mme_ue_valid res' (v_xres v) \<and> k_asme' = v_k_asme v \<and>
    u_k u' = u_k u \<and> u_opc u' = u_opc u \<and> u_auth_algo u' = u_auth_algo u \<and> usim_sizes u'"
proof -
  let ?a = "algo_of algo" and ?k = "ue_key ue" and ?c = "ue_opc ue"
  have s: "length ?k = 16" "length ?c = 16" "length (ue_sqn ue) = 6" "length (ue_amf ue) = 2"
    using assms(5) by (simp_all add: ue_sizes_def)
  note l = length_aka [OF assms(1) s(1,2) assms(8), where algo = ?a]
  have vs: "length (v_rand v) = 16" "length (v_autn v) = 16" "length (v_xres v) = 16"
    using assms(6) by (simp_all add: vector_sizes_def)
  have autn: "v_autn v = xor_bytes (ue_sqn ue) (aka_ak lib ?a ?k ?c rand) @ ue_amf ue @ aka_mac lib ?a ?k ?c rand (ue_sqn ue) (ue_amf ue)"
    using v assms(7) by (simp add: vector_for_def aka_autn_def)
  have x: "xor_bytes (xor_bytes (ue_sqn ue) (aka_ak lib ?a ?k ?c rand)) (aka_ak lib ?a ?k ?c rand) = ue_sqn ue"
    using s l by (intro xor_bytes_cancel) simp
  have parts: "xor_bytes (take 6 (v_autn v)) (aka_ak lib ?a ?k ?c rand) = ue_sqn ue"
    "take 2 (drop 6 (v_autn v)) = ue_amf ue" "drop 8 (v_autn v) = aka_mac lib ?a ?k ?c rand (ue_sqn ue) (ue_amf ue)"
    unfolding autn using s l x by simp_all
  have r: "v_rand v = rand" "take 8 (v_xres v) = aka_res lib ?a ?k ?c rand"
    "v_k_asme v = aka_k_asme lib ?a ?k ?c rand (take 6 (v_autn v)) mcc mnc"
    using v assms(7) by (simp_all add: vector_for_def)
  show ?thesis
    using resp_response [OF assms(1-4) vs(1,2) assms(9,10), of mcc mnc] parts r vs
    by (auto simp: response_for_def Let_def shared split_beta mme_ue_valid_iff)
qed

end

section \<open>Both algorithms implement it\<close>

lemma response_for_generate:
  assumes "ecb_16 lib" "hmac_32 lib" "usim_sizes u" "length rand = 16" "length autn = 16" "length res = 16" "length k_asme = 32"
  shows "response_for lib (u_auth_algo u) u rand autn mcc mnc (generate_authentication_response lib u rand autn mcc mnc res k_asme)"
proof -
  have l: "length (u_k u) = 16" "length (u_opc u) = 16" using assms(3) by (simp_all add: usim_sizes_def)
  show ?thesis
    using authentication_response [OF assms, of mcc mnc] assms(3,5) length_aka [OF assms(1) l assms(4)]
    by (auto simp: response_for_def Let_def usim_sizes_def)
qed

interpretation aka_mil: aka_algorithm HSS_ALGO_MILENAGE gen_auth_info_answer_milenage gen_auth_res_milenage
proof unfold_locales
  fix lib ue v h rnd
  assume "ecb_16 lib" "hmac_32 lib" "ue_sizes ue" "vector_sizes v" "ue_algo ue = HSS_ALGO_MILENAGE"
  then show "vector_for lib (h_mcc h) (h_mnc h) ue (rand_of rnd) (fst (gen_auth_info_answer_milenage lib rnd h ue v)) \<and>
      vector_sizes (fst (gen_auth_info_answer_milenage lib rnd h ue v))"
    using milenage_vector [of lib ue v rnd h] by auto
next
  fix lib u mcc mnc and rand autn res k_asme :: bytes
  assume "ecb_16 lib" "hmac_32 lib" "usim_sizes u" "u_auth_algo u = algo_of HSS_ALGO_MILENAGE" "length rand = 16"
    "length autn = 16" "length res = 16" "length k_asme = 32"
  then show "response_for lib (algo_of HSS_ALGO_MILENAGE) u rand autn mcc mnc
      (gen_auth_res_milenage lib u rand autn mcc mnc res k_asme)"
    using response_for_generate [of lib u rand autn res k_asme mcc mnc] by (simp add: generate_authentication_response_def)
qed

interpretation aka_xor: aka_algorithm HSS_ALGO_XOR gen_auth_info_answer_xor gen_auth_res_xor
proof unfold_locales
  fix lib ue v h rnd
  assume "ecb_16 lib" "hmac_32 lib" "ue_sizes ue" "vector_sizes v" "ue_algo ue = HSS_ALGO_XOR"
  then show "vector_for lib (h_mcc h) (h_mnc h) ue (rand_of rnd) (fst (gen_auth_info_answer_xor lib rnd h ue v)) \<and>
      vector_sizes (fst (gen_auth_info_answer_xor lib rnd h ue v))"
    using xor_vector [of lib ue v rnd h] by auto
next
  fix lib u mcc mnc and rand autn res k_asme :: bytes
  assume "ecb_16 lib" "hmac_32 lib" "usim_sizes u" "u_auth_algo u = algo_of HSS_ALGO_XOR" "length rand = 16"
    "length autn = 16" "length res = 16" "length k_asme = 32"
  then show "response_for lib (algo_of HSS_ALGO_XOR) u rand autn mcc mnc (gen_auth_res_xor lib u rand autn mcc mnc res k_asme)"
    using response_for_generate [of lib u rand autn res k_asme mcc mnc] by (simp add: generate_authentication_response_def)
qed

section \<open>Provisioning\<close>

text \<open>The USIM is configured with what the subscriber file holds, in the same hexadecimal text.\<close>

definition provisioned :: "usim_args \<Rightarrow> hss_ue_ctx \<Rightarrow> bool" where
  "provisioned args ue \<longleftrightarrow>
    arg_algo args = (if ue_algo ue = HSS_ALGO_XOR then ''xor'' else ''milenage'') \<and>
    arg_k args = hex_string (ue_key ue) 16 \<and> arg_using_op args = ue_op_configured ue \<and>
    (if ue_op_configured ue then arg_op args = hex_string (ue_op ue) 16 else arg_opc args = hex_string (ue_opc ue) 16)"

lemma hex_digit_char: "n < 16 \<Longrightarrow> hex_digit (hex_char n) = of_nat n"
proof -
  assume "n < 16"
  then have "n \<in> set [0..<16]" by simp
  then show ?thesis
    by (rule hex_digit_cases [of n]) (simp_all add: hex_char_def hex_digit_def char_of_def bit_0 odd_iff_mod_2_eq_one)
qed

lemma hex2_value: "push_bit 4 (hex_digit (hex2 b ! 0)) OR hex_digit (hex2 b ! 1) = b"
proof -
  define h l where "h = unat b div 16" and "l = unat b mod 16"
  have b: "unat b < 256" using unat_u8_less [of b] by simp
  then have hl: "h < 16" "l < 16" "16 * h + l = unat b" by (auto simp: h_def l_def less_mult_imp_div_less)
  have l4: "take_bit 4 (of_nat l :: u8) = of_nat l"
    using hl(2) by (simp add: word_unat_eq_iff unsigned_take_bit_eq unat_of_nat take_bit_eq_mod unat_mod)
  have "push_bit 4 (of_nat h :: u8) OR of_nat l = push_bit 4 (of_nat h) + of_nat l"
    by (rule push_or_plus [OF l4])
  also have "\<dots> = of_nat (16 * h + l)" by (simp add: push_bit_eq_mult)
  also have "\<dots> = b" unfolding hl(3) by simp
  finally show ?thesis using hl hex_digit_char by (simp add: hex2_def h_def l_def)
qed

lemma str_to_hex_string:
  assumes "length v = n" "length buf = n"
  shows "str_to_hex (hex_string v n) buf = v"
proof -
  have nth: "hex_string v n ! (i * 2) = hex2 (v ! i) ! 0" "hex_string v n ! (Suc (i * 2)) = hex2 (v ! i) ! 1" if "i < n" for i
  proof -
    have d: "drop (2 * i) (hex_string v n) = hex2 (v ! i) @ hex_string (drop (Suc i) v) (n - Suc i)"
      using that assms(1) by (intro drop_hex_string) simp_all
    have "length (hex_string v n) = 2 * n" using assms(1) by (simp add: length_hex_string)
    then have "hex_string v n ! (i * 2) = drop (2 * i) (hex_string v n) ! 0"
      "hex_string v n ! (Suc (i * 2)) = drop (2 * i) (hex_string v n) ! 1"
      using that by (simp_all add: mult.commute)
    then show "hex_string v n ! (i * 2) = hex2 (v ! i) ! 0" "hex_string v n ! (Suc (i * 2)) = hex2 (v ! i) ! 1"
      unfolding d by (simp_all add: hex2_def)
  qed
  have len: "length (hex_string v n) div 2 = n" using assms(1) by (simp add: length_hex_string)
  show ?thesis
    unfolding str_to_hex_def len
    by (rule nth_equalityI) (use assms nth hex2_value in \<open>simp_all add: fill_id\<close>)
qed

lemma usim_init_provisioned:
  assumes "provisioned args ue" "ue_writable lib valid_ip ue" "usim_sizes u0" "ecb_16 lib"
  defines "u \<equiv> usim_init lib args u0"
  shows "u_k u = ue_key ue" "u_auth_algo u = algo_of (ue_algo ue)" "usim_sizes u"
    "ue_algo ue = HSS_ALGO_MILENAGE \<Longrightarrow> u_opc u = ue_opc ue"
proof -
  have s: "length (ue_key ue) = 16" "length (ue_op ue) = 16" "length (ue_opc ue) = 16"
    using assms(2) by (simp_all add: ue_writable_def ue_sizes_def)
  note u0 = assms(3) [unfolded usim_sizes_def]
  have hx: "str_to_hex (hex_string (ue_key ue) 16) (u_k u0) = ue_key ue"
    "str_to_hex (hex_string (ue_op ue) 16) (u_op u0) = ue_op ue"
    "str_to_hex (hex_string (ue_opc ue) 16) (u_opc u0) = ue_opc ue"
    "length (hex_string (ue_key ue) 16) = 32" "length (hex_string (ue_op ue) 16) = 32" "length (hex_string (ue_opc ue) 16) = 32"
    using s u0 by (simp_all add: str_to_hex_string length_hex_string)
  have e: "length (crypt_ecb lib (ue_key ue) (ue_op ue)) = 16" using assms(4) s by (simp add: ecb_16_def)
  have opc: "snd (compute_opc lib (Some (ue_key ue)) (Some (ue_op ue)) (Some (u_opc u0)))
      = Some (xor_bytes (crypt_ecb lib (ue_key ue) (ue_op ue)) (ue_op ue))"
    using compute_opc_eq [OF assms(4) s(2)] u0 s e by simp
  have algo: "ue_algo ue = HSS_ALGO_XOR \<or> ue_algo ue = HSS_ALGO_MILENAGE" by (cases "ue_algo ue") simp_all
  show "u_k u = ue_key ue" "u_auth_algo u = algo_of (ue_algo ue)" "usim_sizes u"
    "ue_algo ue = HSS_ALGO_MILENAGE \<Longrightarrow> u_opc u = ue_opc ue"
    using algo assms(1,2) hx opc u0 s e
    by (auto simp: u_def usim_init_def Let_def provisioned_def ue_writable_def usim_sizes_def)
qed

section \<open>Properties\<close>

lemma aka_agree:
  assumes "ecb_16 lib" "hmac_32 lib" "hss_ok h" "get_ue_ctx h imsi = Some ue" "vector_sizes v"
    and "usim_sizes u" "u_k u = ue_key ue" "u_auth_algo u = algo_of (ue_algo ue)"
    and "ue_algo ue = HSS_ALGO_MILENAGE \<Longrightarrow> u_opc u = ue_opc ue" "length res = 16" "length k_asme = 32"
  shows "case gen_auth_info_answer lib rnd imsi v h of (ok, v', h') \<Rightarrow>
    case generate_authentication_response lib u (v_rand v') (v_autn v') (h_mcc h) (h_mnc h) res k_asme of
      (result, res', len, k_asme', u') \<Rightarrow>
        ok \<and> vector_sizes v' \<and> result = AUTH_OK \<and> mme_ue_valid res' (v_xres v') \<and> k_asme' = v_k_asme v' \<and>
        u_k u' = u_k u \<and> u_opc u' = u_opc u \<and> u_auth_algo u' = u_auth_algo u \<and> usim_sizes u'"
proof -
  have ue: "ue_sizes ue" using hss_okD [OF assms(3,4)] by simp
  obtain v' where v': "gen_auth_info_answer lib rnd imsi v h = (True, v', put_ue_ctx imsi (ue_after (rand_of rnd) ue) h)"
    "vector_sizes v'" "vector_for lib (h_mcc h) (h_mnc h) ue (rand_of rnd) v'"
    using auth_info_answer [OF assms(1,2) ue assms(5,4)] by blast
  show ?thesis
  proof (cases "ue_algo ue")
    case HSS_ALGO_MILENAGE
    have "u_opc u = ue_opc ue" by (rule assms(9) [OF HSS_ALGO_MILENAGE])
    then show ?thesis
      using aka_mil.accepts [OF assms(1,2,6) _ ue v'(2) HSS_ALGO_MILENAGE length_rand_of assms(10,11) _ _ _ _ v'(3)]
        assms(7,8) HSS_ALGO_MILENAGE v'(1,2)
      by (simp add: generate_authentication_response_def split_beta)
  next
    case HSS_ALGO_XOR
    then show ?thesis
      using aka_xor.accepts [OF assms(1,2,6) _ ue v'(2) HSS_ALGO_XOR length_rand_of assms(10,11) _ _ _ _ v'(3)]
        assms(7,8) v'(1,2)
      by (simp add: generate_authentication_response_def split_beta aka_defs)
  qed
qed

text \<open>
  Claim C5. A USIM that is initialised with the K and OP or OPc of a subscriber's line accepts every challenge the HSS
  makes for that subscriber, for both algorithms; the RES it returns passes the comparison of the MME, and both ends hold the
  same K_ASME.
\<close>

theorem aka_agreement:
  assumes "ecb_16 lib" "hmac_32 lib" "hss_ok h" "get_ue_ctx h imsi = Some ue" "ue_writable lib valid_ip ue"
    and "provisioned args ue" "usim_sizes u0" "vector_sizes v" "length res = 16" "length k_asme = 32"
  shows "case gen_auth_info_answer lib rnd imsi v h of (ok, v', h') \<Rightarrow>
    case generate_authentication_response lib (usim_init lib args u0) (v_rand v') (v_autn v') (h_mcc h) (h_mnc h) res k_asme of
      (result, res', len, k_asme', u') \<Rightarrow>
        ok \<and> result = AUTH_OK \<and> mme_ue_valid res' (v_xres v') \<and> k_asme' = v_k_asme v'"
  using aka_agree [OF assms(1-4,8) usim_init_provisioned(3) [OF assms(6,5,7,1)] usim_init_provisioned(1,2,4) [OF assms(6,5,7,1)]
      assms(9,10), of rnd]
  by (auto simp: split_beta)

definition sample_args :: usim_args where
  "sample_args = \<lparr>arg_algo = ''xor'', arg_using_op = False, arg_op = [], arg_opc = hex_string (ue_opc sample_ue) 16,
    arg_imsi = ''001010123456789'', arg_imei = [], arg_k = hex_string (ue_key sample_ue) 16\<rparr>"

lemma sample_provisioned: "provisioned sample_args sample_ue" "ue_writable sample_lib (\<lambda>ip. True) sample_ue"
  using sample_hss_ok(3)
  by (auto simp: provisioned_def sample_args_def sample_ue_def ue_writable_def)

theorem aka_agreement_witness:
  "case gen_auth_info_answer sample_lib (\<lambda>i. 3 * i) 1010123456789 sample_vector sample_hss of (ok, v', h') \<Rightarrow>
    ok \<and> fst (generate_authentication_response sample_lib (usim_init sample_lib sample_args sample_usim) (v_rand v') (v_autn v')
      0xF001 0xFF01 (replicate 16 0) (replicate 32 0)) = AUTH_OK"
  using aka_agreement [OF sample_lib_ok sample_hss_ok(1,4) sample_provisioned(2,1) sample_usim_ok(1) sample_hss_ok(2),
      of "replicate 16 0" "replicate 32 0" "\<lambda>i. 3 * i"]
  by (auto simp: split_beta sample_hss_def)

text \<open>
  Claim C38. The USIM keeps no SQN: after a successful authentication it accepts the same RAND and AUTN again, with the same
  K_ASME, and so on for any number of replays; it never answers with a synchronisation failure.
\<close>

fun replays :: "nat \<Rightarrow> ssl_lib \<Rightarrow> usim \<Rightarrow> bytes \<Rightarrow> bytes \<Rightarrow> u16 \<Rightarrow> u16 \<Rightarrow> (auth_result \<times> bytes) list" where
  "replays 0 lib u rand autn mcc mnc = []"
| "replays (Suc n) lib u rand autn mcc mnc =
    (case generate_authentication_response lib u rand autn mcc mnc (replicate 16 0) (replicate 32 0) of
       (result, res, len, k_asme, u') \<Rightarrow> (result, k_asme) # replays n lib u' rand autn mcc mnc)"

theorem usim_accepts_replay:
  assumes "ecb_16 lib" "hmac_32 lib" "usim_sizes u" "length rand = 16" "length autn = 16"
  shows "replays n lib u rand autn mcc mnc
    = replicate n (fst (generate_authentication_response lib u rand autn mcc mnc (replicate 16 0) (replicate 32 0)),
        aka_k_asme lib (u_auth_algo u) (u_k u) (u_opc u) rand (take 6 autn) mcc mnc)"
  using assms(3)
proof (induction n arbitrary: u)
  case (Suc n)
  obtain result res' len k_asme' u' where g:
    "generate_authentication_response lib u rand autn mcc mnc (replicate 16 0) (replicate 32 0) = (result, res', len, k_asme', u')"
    by (metis surj_pair)
  note r = response_for_generate [OF assms(1,2) Suc.prems assms(4,5), of "replicate 16 0" "replicate 32 0" mcc mnc]
  have u': "u_k u' = u_k u" "u_opc u' = u_opc u" "u_auth_algo u' = u_auth_algo u" "usim_sizes u'"
    "k_asme' = aka_k_asme lib (u_auth_algo u) (u_k u) (u_opc u) rand (take 6 autn) mcc mnc"
    using r by (simp_all add: g response_for_def Let_def)
  note r' = response_for_generate [OF assms(1,2) u'(4) assms(4,5), of "replicate 16 0" "replicate 32 0" mcc mnc]
  have "fst (generate_authentication_response lib u' rand autn mcc mnc (replicate 16 0) (replicate 32 0)) = result"
    using r r' u' by (auto simp: g response_for_def Let_def split_beta)
  then show ?case using Suc.IH [OF u'(4)] u' by (simp add: g)
qed simp

theorem usim_accepts_replay_witness:
  "length (replays 3 sample_lib sample_usim (replicate 16 5) (replicate 16 0) 0xF001 0xFF01) = 3 \<and>
   fst (replays 3 sample_lib sample_usim (replicate 16 5) (replicate 16 0) 0xF001 0xFF01 ! 2) =
   fst (replays 3 sample_lib sample_usim (replicate 16 5) (replicate 16 0) 0xF001 0xFF01 ! 0)"
  by (subst (1 2 3) usim_accepts_replay [OF sample_lib_ok sample_usim_ok(1)]) simp_all

end
