(* ===== verification/Byte_Buffer.thy ===== *)
theory Byte_Buffer
  imports Prelude
begin

unbundle bit_operations_syntax

text \<open>
  The packet buffer \<open>byte_buffer_t\<close> of \<^verbatim>\<open>lib/include/srslte/common/common.h\<close> and the integer
  helpers of \<^verbatim>\<open>int_helpers.h\<close>: an array, the pointer \<open>msg\<close> into it (as an offset) and the
  length \<open>N_bytes\<close>. Accesses are checked against the array; \<open>None\<close> is an access outside it.
\<close>

section \<open>The code\<close>

definition MAX_BUFFER_SIZE_BYTES :: nat where
  "MAX_BUFFER_SIZE_BYTES = 97896 div 8 + 1020"

definition BUFFER_HEADER_OFFSET :: nat where
  "BUFFER_HEADER_OFFSET = 1020"

record byte_buffer =
  bb_N_bytes :: u32
  bb_buffer :: bytes
  bb_msg :: nat

definition byte_buffer_new :: byte_buffer where
  "byte_buffer_new = \<lparr>bb_N_bytes = 0, bb_buffer = replicate MAX_BUFFER_SIZE_BYTES 0, bb_msg = BUFFER_HEADER_OFFSET\<rparr>"

definition bb_clear :: "byte_buffer \<Rightarrow> byte_buffer" where
  "bb_clear b = b\<lparr>bb_msg := BUFFER_HEADER_OFFSET, bb_N_bytes := 0\<rparr>"

definition get_headroom :: "byte_buffer \<Rightarrow> u32" where
  "get_headroom b = of_nat (bb_msg b)"

definition get_tailroom :: "byte_buffer \<Rightarrow> u32" where
  "get_tailroom b = of_nat (length (bb_buffer b)) - of_nat (bb_msg b) - bb_N_bytes b"

text \<open>The memory from \<open>&msg[i]\<close> on, its replacement, and the elements \<open>msg[i]\<close>.\<close>

definition bb_mem :: "byte_buffer \<Rightarrow> nat \<Rightarrow> bytes" where
  "bb_mem b i = drop (bb_msg b + i) (bb_buffer b)"

definition bb_set_mem :: "byte_buffer \<Rightarrow> nat \<Rightarrow> bytes \<Rightarrow> byte_buffer" where
  "bb_set_mem b i m = b\<lparr>bb_buffer := take (bb_msg b + i) (bb_buffer b) @ m\<rparr>"

definition bb_get :: "byte_buffer \<Rightarrow> nat \<Rightarrow> u8 option" where
  "bb_get b i = rd (bb_mem b 0) (int i)"

definition bb_put :: "byte_buffer \<Rightarrow> nat \<Rightarrow> u8 \<Rightarrow> byte_buffer option" where
  "bb_put b i x = map_option (bb_set_mem b 0) (wr (bb_mem b 0) (int i) x)"

definition memcpy_mem :: "bytes \<Rightarrow> bytes \<Rightarrow> nat \<Rightarrow> bytes option" where
  "memcpy_mem dst src n =
    (if n \<le> length src \<and> n \<le> length dst then Some (put dst (take n src)) else None)"

text \<open>The copy constructor and the assignment build the same buffer.\<close>

definition byte_buffer_copy :: "byte_buffer \<Rightarrow> byte_buffer option" where
  "byte_buffer_copy buf =
    (let b = byte_buffer_new\<lparr>bb_N_bytes := bb_N_bytes buf\<rparr>
     in map_option (bb_set_mem b 0) (memcpy_mem (bb_mem b 0) (bb_mem buf 0) (unat (bb_N_bytes buf))))"

definition append_bytes :: "byte_buffer \<Rightarrow> bytes \<Rightarrow> u32 \<Rightarrow> byte_buffer option" where
  "append_bytes b buf n =
    (let i = unat (bb_N_bytes b)
     in map_option (\<lambda>m. (bb_set_mem b i m)\<lparr>bb_N_bytes := bb_N_bytes b + n\<rparr>)
          (memcpy_mem (bb_mem b i) buf (unat n)))"

definition uint8_to_uint16 :: "u8 \<Rightarrow> u8 \<Rightarrow> u16" where
  "uint8_to_uint16 b0 b1 = ucast (push_bit 8 (ucast b0) OR ucast b1 :: u32)"

definition uint16_to_uint8 :: "u16 \<Rightarrow> bytes" where
  "uint16_to_uint8 i = [ucast (drop_bit 8 i AND 0xFF), ucast (i AND 0xFF)]"

definition uint8_to_uint24 :: "u8 \<Rightarrow> u8 \<Rightarrow> u8 \<Rightarrow> u32" where
  "uint8_to_uint24 b0 b1 b2 = push_bit 16 (ucast b0) OR push_bit 8 (ucast b1) OR ucast b2"

definition uint24_to_uint8 :: "u32 \<Rightarrow> bytes" where
  "uint24_to_uint8 i = [ucast (drop_bit 16 i AND 0xFF), ucast (drop_bit 8 i AND 0xFF), ucast (i AND 0xFF)]"

definition uint8_to_uint32 :: "u8 \<Rightarrow> u8 \<Rightarrow> u8 \<Rightarrow> u8 \<Rightarrow> u32" where
  "uint8_to_uint32 b0 b1 b2 b3 = push_bit 24 (ucast b0) OR push_bit 16 (ucast b1) OR push_bit 8 (ucast b2) OR ucast b3"

definition uint32_to_uint8 :: "u32 \<Rightarrow> bytes" where
  "uint32_to_uint8 i =
    [ucast (drop_bit 24 i AND 0xFF), ucast (drop_bit 16 i AND 0xFF), ucast (drop_bit 8 i AND 0xFF), ucast (i AND 0xFF)]"

definition store_octets :: "bytes \<Rightarrow> byte_buffer \<Rightarrow> byte_buffer option" where
  "store_octets bs b = ofold (\<lambda>i b. bb_put b i (bs ! i)) [0..<length bs] b"

section \<open>The octets of a buffer\<close>

definition bb_data :: "byte_buffer \<Rightarrow> bytes" where
  "bb_data b = take (unat (bb_N_bytes b)) (bb_mem b 0)"

text \<open>The pointer and the length stay inside the array.\<close>

definition bb_ok :: "byte_buffer \<Rightarrow> bool" where
  "bb_ok b \<longleftrightarrow> length (bb_buffer b) = MAX_BUFFER_SIZE_BYTES \<and>
    bb_msg b + unat (bb_N_bytes b) \<le> MAX_BUFFER_SIZE_BYTES"

lemma MAX_BUFFER_SIZE_BYTES [simp]: "MAX_BUFFER_SIZE_BYTES = 13257"
  by (simp add: MAX_BUFFER_SIZE_BYTES_def)

lemma length_bb_mem [simp]: "length (bb_mem b i) = length (bb_buffer b) - (bb_msg b + i)"
  by (simp add: bb_mem_def)

lemma bb_set_mem_simps [simp]:
  "bb_N_bytes (bb_set_mem b i m) = bb_N_bytes b" "bb_msg (bb_set_mem b i m) = bb_msg b"
  by (simp_all add: bb_set_mem_def)

lemma bb_mem_update [simp]:
  "bb_mem (b\<lparr>bb_N_bytes := n\<rparr>) i = bb_mem b i"
  by (simp add: bb_mem_def)

lemma bb_okD:
  "bb_ok b \<Longrightarrow> unat (bb_N_bytes b) \<le> length (bb_mem b 0)"
  "bb_ok b \<Longrightarrow> i < unat (bb_N_bytes b) \<Longrightarrow> i < length (bb_mem b 0)"
  by (auto simp: bb_ok_def)

lemma length_bb_data: "bb_ok b \<Longrightarrow> length (bb_data b) = unat (bb_N_bytes b)"
  using bb_okD(1) by (simp add: bb_data_def)

lemma bb_ok_set_mem [simp]:
  "bb_ok b \<Longrightarrow> length m = length (bb_mem b i) \<Longrightarrow> bb_msg b + i \<le> MAX_BUFFER_SIZE_BYTES \<Longrightarrow> bb_ok (bb_set_mem b i m)"
  by (simp add: bb_ok_def bb_set_mem_def)

lemma bb_mem_set_mem:
  "bb_ok b \<Longrightarrow> bb_msg b + i \<le> MAX_BUFFER_SIZE_BYTES \<Longrightarrow> bb_mem (bb_set_mem b i m) 0 = take i (bb_mem b 0) @ m"
  by (simp add: bb_mem_def bb_set_mem_def bb_ok_def drop_take)

lemma bb_mem_split: "i \<le> unat (bb_N_bytes b) \<Longrightarrow> bb_ok b \<Longrightarrow>
   bb_mem b i = drop i (bb_data b) @ bb_mem b (unat (bb_N_bytes b))"
proof -
  assume i: "i \<le> unat (bb_N_bytes b)" and ok: "bb_ok b"
  have "bb_mem b i = drop i (bb_mem b 0)" by (simp add: bb_mem_def add.commute)
  also have "bb_mem b 0 = bb_data b @ bb_mem b (unat (bb_N_bytes b))"
    by (simp add: bb_data_def bb_mem_def) (metis add.commute append_take_drop_id drop_drop)
  also have "drop i \<dots> = drop i (bb_data b) @ bb_mem b (unat (bb_N_bytes b))"
    using i length_bb_data [OF ok] by simp
  finally show ?thesis .
qed

lemma take_bb_mem: "i + n \<le> unat (bb_N_bytes b) \<Longrightarrow> bb_ok b \<Longrightarrow> take n (bb_mem b i) = take n (drop i (bb_data b))"
  by (subst bb_mem_split) (simp_all add: length_bb_data)

lemma take_bb_mem_end:
  "bb_ok b \<Longrightarrow> i \<le> unat (bb_N_bytes b) \<Longrightarrow> take (unat (bb_N_bytes b) - i) (bb_mem b i) = drop i (bb_data b)"
  by (simp add: take_bb_mem length_bb_data)

lemma bb_data_set_mem:
  "bb_ok b \<Longrightarrow> i + length m \<le> unat (bb_N_bytes b) \<Longrightarrow>
   bb_data (bb_set_mem b i (put (bb_mem b i) m))
     = take i (bb_data b) @ m @ drop (i + length m) (bb_data b)"
proof -
  assume ok: "bb_ok b" and i: "i + length m \<le> unat (bb_N_bytes b)"
  have l: "length (bb_data b) = unat (bb_N_bytes b)" using ok by (rule length_bb_data)
  have "bb_data (bb_set_mem b i (put (bb_mem b i) m))
      = take (unat (bb_N_bytes b)) (take i (bb_mem b 0) @ put (bb_mem b i) m)"
    using ok i by (simp add: bb_data_def bb_mem_set_mem bb_ok_def)
  also have "take i (bb_mem b 0) = take i (bb_data b)"
    using i by (simp add: bb_data_def)
  also have e: "put (bb_mem b i) m = m @ drop (i + length m) (bb_data b) @ bb_mem b (unat (bb_N_bytes b))"
    using i l ok by (subst bb_mem_split) (simp_all add: put_def add.commute)
  finally show ?thesis using i l by (simp add: e)
qed

lemma bb_get_data: "bb_ok b \<Longrightarrow> i < unat (bb_N_bytes b) \<Longrightarrow> bb_get b i = Some (bb_data b ! i)"
  using bb_okD by (simp add: bb_get_def bb_data_def)

lemma bb_put_data:
  assumes "bb_ok b" "i < unat (bb_N_bytes b)"
  obtains b' where "bb_put b i x = Some b'" "bb_ok b'" "bb_N_bytes b' = bb_N_bytes b" "bb_msg b' = bb_msg b"
    "bb_data b' = (bb_data b)[i := x]"
proof
  let ?b = "bb_set_mem b 0 ((bb_mem b 0)[i := x])"
  show "bb_put b i x = Some ?b" using bb_okD [OF assms(1)] assms(2) by (simp add: bb_put_def)
  show "bb_ok ?b" using assms by (simp add: bb_ok_def bb_set_mem_def)
  show "bb_data ?b = (bb_data b)[i := x]"
    using assms by (simp add: bb_data_def bb_mem_set_mem bb_ok_def take_update_swap)
qed simp_all

text \<open>Storing octets one at a time.\<close>

lemma store_octets_spec:
  assumes "bb_ok b" "length bs \<le> unat (bb_N_bytes b)"
  obtains b' where "store_octets bs b = Some b'" "bb_ok b'" "bb_N_bytes b' = bb_N_bytes b" "bb_msg b' = bb_msg b"
    "bb_data b' = bs @ drop (length bs) (bb_data b)"
proof -
  have "\<exists>b'. ofold (\<lambda>i b. bb_put b i (bs ! i)) [0..<k] b = Some b' \<and> bb_ok b' \<and> bb_N_bytes b' = bb_N_bytes b \<and>
      bb_msg b' = bb_msg b \<and> bb_data b' = take k bs @ drop k (bb_data b)" if "k \<le> length bs" for k
    using that
  proof (induction k)
    case (Suc k)
    then obtain b1 where b1: "ofold (\<lambda>i b. bb_put b i (bs ! i)) [0..<k] b = Some b1" "bb_ok b1"
      "bb_N_bytes b1 = bb_N_bytes b" "bb_msg b1 = bb_msg b" "bb_data b1 = take k bs @ drop k (bb_data b)" by auto
    have k: "k < unat (bb_N_bytes b1)" using Suc.prems assms(2) b1(3) by simp
    obtain b2 where b2: "bb_put b1 k (bs ! k) = Some b2" "bb_ok b2" "bb_N_bytes b2 = bb_N_bytes b1"
      "bb_msg b2 = bb_msg b1" "bb_data b2 = (bb_data b1)[k := bs ! k]"
      by (rule bb_put_data [OF b1(2) k])
    have "k < length (bb_data b)" using k b1(3) assms(1) by (simp add: length_bb_data)
    then have "bb_data b2 = take (Suc k) bs @ drop (Suc k) (bb_data b)"
      using Suc.prems by (simp add: b2(5) b1(5) list_update_append take_Suc_conv_app_nth flip: Cons_nth_drop_Suc)
    then show ?case using b1 b2 by (auto simp: ofold_append)
  qed (use assms in auto)
  from this [of "length bs"] show ?thesis using that by (auto simp: store_octets_def)
qed

section \<open>Integer helpers\<close>

lemma mask_8: "(0xFF :: 'a::len word) = mask 8"
  by (simp add: mask_eq_exp_minus_1)

lemma uint16_helpers: "uint8_to_uint16 (uint16_to_uint8 i ! 0) (uint16_to_uint8 i ! 1) = i"
  unfolding uint8_to_uint16_def uint16_to_uint8_def mask_8 nth_Cons_0 nth_Cons_Suc One_nat_def
  by (intro bit_word_eqI) (auto simp: bit_simps simp del: push_bit_Suc)

lemma uint24_helpers:
  "uint8_to_uint24 (uint24_to_uint8 i ! 0) (uint24_to_uint8 i ! 1) (uint24_to_uint8 i ! 2) = take_bit 24 i"
proof -
  have "uint24_to_uint8 i ! 2 = ucast (i AND 0xFF)" by (simp add: uint24_to_uint8_def)
  then show ?thesis
    unfolding uint8_to_uint24_def uint24_to_uint8_def mask_8 nth_Cons_0 nth_Cons_Suc One_nat_def
    by (intro bit_word_eqI)
      (auto simp: bit_simps not_less le_diff_conv less_diff_conv2, (metis le_add_diff_inverse not_less)+)
qed

lemma length_uint16_to_uint8: "length (uint16_to_uint8 i) = 2"
  by (simp add: uint16_to_uint8_def)

lemma length_uint24_to_uint8: "length (uint24_to_uint8 i) = 3"
  by (simp add: uint24_to_uint8_def)

lemma uint32_helpers:
  "uint8_to_uint32 (uint32_to_uint8 i ! 0) (uint32_to_uint8 i ! 1) (uint32_to_uint8 i ! 2) (uint32_to_uint8 i ! 3) = i"
proof -
  have "uint32_to_uint8 i ! 2 = ucast (drop_bit 8 i AND 0xFF)" "uint32_to_uint8 i ! 3 = ucast (i AND 0xFF)"
    by (simp_all add: uint32_to_uint8_def)
  then show ?thesis
    unfolding uint8_to_uint32_def uint32_to_uint8_def mask_8 nth_Cons_0 nth_Cons_Suc One_nat_def
    by (intro bit_word_eqI)
      (auto simp: bit_simps not_less le_diff_conv less_diff_conv2, (metis le_add_diff_inverse not_less)+)
qed

lemma length_uint32_to_uint8: "length (uint32_to_uint8 i) = 4"
  by (simp add: uint32_to_uint8_def)

end
