(* ===== verification/Pdcp_Base.thy ===== *)
theory Pdcp_Base
  imports Byte_Buffer Usim Lte_Eea Lte_Eia
begin

text \<open>
  What the LTE and NR PDCP entities share (\<^verbatim>\<open>lib/src/upper/pdcp_entity_base.cc\<close> and
  \<^verbatim>\<open>pdcp_interface_types.h\<close>): the configuration, the directions in which security is on, the
  split of COUNT into HFN and SN, the security functions and the packing of header and MAC-I.

  \<open>None\<close> is undefined behaviour: an access outside a buffer or the use of an uninitialised MAC.
\<close>

section \<open>Configuration\<close>

datatype pdcp_rb_type = PDCP_RB_IS_SRB | PDCP_RB_IS_DRB

datatype security_direction = SECURITY_DIRECTION_UPLINK | SECURITY_DIRECTION_DOWNLINK

fun direction_id :: "security_direction \<Rightarrow> u8" where
  "direction_id SECURITY_DIRECTION_UPLINK = 0"
| "direction_id SECURITY_DIRECTION_DOWNLINK = 1"

datatype srslte_direction = DIRECTION_NONE | DIRECTION_TX | DIRECTION_RX | DIRECTION_TXRX | DIRECTION_N_ITEMS

definition PDCP_SN_LEN_5 :: u8 where "PDCP_SN_LEN_5 = 5"
definition PDCP_SN_LEN_7 :: u8 where "PDCP_SN_LEN_7 = 7"
definition PDCP_SN_LEN_12 :: u8 where "PDCP_SN_LEN_12 = 12"
definition PDCP_SN_LEN_18 :: u8 where "PDCP_SN_LEN_18 = 18"

lemmas sn_len_defs = PDCP_SN_LEN_5_def PDCP_SN_LEN_7_def PDCP_SN_LEN_12_def PDCP_SN_LEN_18_def

definition PDCP_MAX_SDU_SIZE :: nat where "PDCP_MAX_SDU_SIZE = 9000"

text \<open>The two timer values are in milliseconds; \<open>0\<close> is \<open>ms0\<close> and \<open>infinity\<close>.\<close>

record pdcp_config =
  pc_bearer_id :: u8
  pc_rb_type :: pdcp_rb_type
  pc_tx_direction :: security_direction
  pc_rx_direction :: security_direction
  pc_sn_len :: u8
  pc_hdr_len_bytes :: u8
  pc_t_reordering :: u32
  pc_discard_timer :: u32

definition pdcp_config_t ::
  "u8 \<Rightarrow> pdcp_rb_type \<Rightarrow> security_direction \<Rightarrow> security_direction \<Rightarrow> u8 \<Rightarrow> u32 \<Rightarrow> u32 \<Rightarrow> pdcp_config" where
  "pdcp_config_t bearer_id rb_type tx_direction rx_direction sn_len t_reordering discard_timer =
    \<lparr>pc_bearer_id = bearer_id, pc_rb_type = rb_type, pc_tx_direction = tx_direction,
     pc_rx_direction = rx_direction, pc_sn_len = sn_len, pc_hdr_len_bytes = of_nat ((unat sn_len + 7) div 8),
     pc_t_reordering = t_reordering, pc_discard_timer = discard_timer\<rparr>"

record pdcp_entity_base =
  pe_active :: bool
  pe_lcid :: u32
  pe_integrity_direction :: srslte_direction
  pe_encryption_direction :: srslte_direction
  pe_enable_security_tx_sn :: int
  pe_enable_security_rx_sn :: int
  pe_cfg :: pdcp_config
  pe_sec_cfg :: as_security_config

section \<open>The common operations\<close>

definition is_srb :: "'a pdcp_entity_base_scheme \<Rightarrow> bool" where
  "is_srb e \<longleftrightarrow> pc_rb_type (pe_cfg e) = PDCP_RB_IS_SRB"

definition is_drb :: "'a pdcp_entity_base_scheme \<Rightarrow> bool" where
  "is_drb e \<longleftrightarrow> pc_rb_type (pe_cfg e) = PDCP_RB_IS_DRB"

definition join_direction :: "srslte_direction \<Rightarrow> srslte_direction \<Rightarrow> srslte_direction" where
  "join_direction current direction =
    (if current = DIRECTION_TX \<and> direction = DIRECTION_RX then DIRECTION_TXRX
     else if current = DIRECTION_RX \<and> direction = DIRECTION_TX then DIRECTION_TXRX
     else direction)"

definition enable_integrity :: "srslte_direction \<Rightarrow> 'a pdcp_entity_base_scheme \<Rightarrow> 'a pdcp_entity_base_scheme" where
  "enable_integrity direction e =
    e\<lparr>pe_integrity_direction := join_direction (pe_integrity_direction e) direction\<rparr>"

definition enable_encryption :: "srslte_direction \<Rightarrow> 'a pdcp_entity_base_scheme \<Rightarrow> 'a pdcp_entity_base_scheme" where
  "enable_encryption direction e =
    e\<lparr>pe_encryption_direction := join_direction (pe_encryption_direction e) direction\<rparr>"

definition enable_security_timed ::
  "srslte_direction \<Rightarrow> u32 \<Rightarrow> 'a pdcp_entity_base_scheme \<Rightarrow> 'a pdcp_entity_base_scheme" where
  "enable_security_timed direction sn e =
    (case direction of
       DIRECTION_TX \<Rightarrow> e\<lparr>pe_enable_security_tx_sn := sint sn\<rparr>
     | DIRECTION_RX \<Rightarrow> e\<lparr>pe_enable_security_rx_sn := sint sn\<rparr>
     | _ \<Rightarrow> e)"

definition config_security :: "as_security_config \<Rightarrow> 'a pdcp_entity_base_scheme \<Rightarrow> 'a pdcp_entity_base_scheme" where
  "config_security sec_cfg e = e\<lparr>pe_sec_cfg := sec_cfg\<rparr>"

text \<open>The shifts are those of C for lengths of 1 to 31 bits, which all legal lengths are.\<close>

definition HFN :: "pdcp_config \<Rightarrow> u32 \<Rightarrow> u32" where
  "HFN cfg count = drop_bit (unat (pc_sn_len cfg)) count"

definition SN :: "pdcp_config \<Rightarrow> u32 \<Rightarrow> u32" where
  "SN cfg count = count AND drop_bit (32 - unat (pc_sn_len cfg)) 0xFFFFFFFF"

definition COUNT :: "pdcp_config \<Rightarrow> u32 \<Rightarrow> u32 \<Rightarrow> u32" where
  "COUNT cfg hfn sn = push_bit (unat (pc_sn_len cfg)) hfn OR sn"

section \<open>Security functions\<close>

text \<open>The algorithm call with the integrity key; \<open>mac\<close> is the array written.\<close>

definition run_eia ::
  "ssl_lib \<Rightarrow> 'a pdcp_entity_base_scheme \<Rightarrow> security_direction \<Rightarrow> bytes \<Rightarrow> u32 \<Rightarrow> u32 \<Rightarrow> bytes \<Rightarrow> bytes option" where
  "run_eia lib e direction msg msg_len count mac =
    (let k_int = (if is_srb e then sec_k_rrc_int (pe_sec_cfg e) else sec_k_up_int (pe_sec_cfg e));
         key = Some (drop 16 k_int);
         bearer = ucast (pc_bearer_id (pe_cfg e)) - 1;
         dir = direction_id direction
     in case sec_integ_algo (pe_sec_cfg e) of
          EIA1_128 \<Rightarrow> map_option (\<lambda>(err, mac). the mac)
            (security_128_eia1 key count bearer dir (Some msg) msg_len (Some mac))
        | EIA2_128 \<Rightarrow> map_option (\<lambda>(err, mac). the mac)
            (security_128_eia2 lib key count bearer dir (Some msg) msg_len (Some mac))
        | EIA3_128 \<Rightarrow> map_option (\<lambda>(err, mac). the mac)
            (security_128_eia3 key count bearer dir (Some msg) msg_len (Some mac))
        | _ \<Rightarrow> Some mac)"

definition integrity_generate ::
  "ssl_lib \<Rightarrow> 'a pdcp_entity_base_scheme \<Rightarrow> bytes \<Rightarrow> u32 \<Rightarrow> u32 \<Rightarrow> bytes \<Rightarrow> bytes option" where
  "integrity_generate lib e msg msg_len count mac = run_eia lib e (pc_tx_direction (pe_cfg e)) msg msg_len count mac"

text \<open>A received MAC of \<open>None\<close> is an array that was never written.\<close>

definition integrity_verify ::
  "ssl_lib \<Rightarrow> 'a pdcp_entity_base_scheme \<Rightarrow> bytes \<Rightarrow> u32 \<Rightarrow> u32 \<Rightarrow> bytes option \<Rightarrow> bool option" where
  "integrity_verify lib e msg msg_len count mac =
    Option.bind (run_eia lib e (pc_rx_direction (pe_cfg e)) msg msg_len count (replicate 4 0)) (\<lambda>mac_exp.
      if sec_integ_algo (pe_sec_cfg e) \<noteq> EIA0
      then map_option (\<lambda>mac. list_all (\<lambda>i. mac ! i = mac_exp ! i) [0..<4]) mac
      else Some True)"

text \<open>
  Ciphering goes through a local array, whose initial content does not matter because only the octets
  written are copied.
\<close>

definition run_eea ::
  "ssl_lib \<Rightarrow> 'a pdcp_entity_base_scheme \<Rightarrow> security_direction \<Rightarrow> bytes \<Rightarrow> u32 \<Rightarrow> u32 \<Rightarrow> bytes \<Rightarrow> bytes option" where
  "run_eea lib e direction msg msg_len count out =
    (let k_enc = (if is_srb e then sec_k_rrc_enc (pe_sec_cfg e) else sec_k_up_enc (pe_sec_cfg e));
         key = Some (drop 16 k_enc);
         bearer = pc_bearer_id (pe_cfg e) - 1;
         dir = direction_id direction;
         tmp = Some (replicate PDCP_MAX_SDU_SIZE 0);
         copy = (\<lambda>(err, tmp). memcpy_mem out (the tmp) (unat msg_len))
     in case sec_cipher_algo (pe_sec_cfg e) of
          EEA1_128 \<Rightarrow> Option.bind (security_128_eea1 key count bearer dir (Some msg) msg_len tmp) copy
        | EEA2_128 \<Rightarrow> Option.bind (security_128_eea2 lib key count bearer dir (Some msg) msg_len tmp) copy
        | EEA3_128 \<Rightarrow> Option.bind (security_128_eea3 key count bearer dir (Some msg) msg_len tmp) copy
        | _ \<Rightarrow> Some out)"

definition cipher_encrypt ::
  "ssl_lib \<Rightarrow> 'a pdcp_entity_base_scheme \<Rightarrow> bytes \<Rightarrow> u32 \<Rightarrow> u32 \<Rightarrow> bytes \<Rightarrow> bytes option" where
  "cipher_encrypt lib e msg msg_len count ct = run_eea lib e (pc_tx_direction (pe_cfg e)) msg msg_len count ct"

definition cipher_decrypt ::
  "ssl_lib \<Rightarrow> 'a pdcp_entity_base_scheme \<Rightarrow> bytes \<Rightarrow> u32 \<Rightarrow> u32 \<Rightarrow> bytes \<Rightarrow> bytes option" where
  "cipher_decrypt lib e ct ct_len count msg = run_eea lib e (pc_rx_direction (pe_cfg e)) ct ct_len count msg"

section \<open>Packing\<close>

definition is_control_pdu :: "byte_buffer \<Rightarrow> bool option" where
  "is_control_pdu pdu = map_option (\<lambda>b. drop_bit 7 b AND 0x01 = 0) (bb_get pdu 0)"

definition read_data_header :: "'a pdcp_entity_base_scheme \<Rightarrow> byte_buffer \<Rightarrow> u32 option" where
  "read_data_header e pdu =
    (let cfg = pe_cfg e
     in if bb_N_bytes pdu \<le> ucast (pc_hdr_len_bytes cfg) then Some 0
        else if pc_sn_len cfg = PDCP_SN_LEN_5 \<or> pc_sn_len cfg = PDCP_SN_LEN_7 then
          map_option (\<lambda>b. SN cfg (ucast b)) (bb_get pdu 0)
        else if pc_sn_len cfg = PDCP_SN_LEN_12 then
          Option.bind (bb_get pdu 0) (\<lambda>b0. Option.bind (bb_get pdu 1) (\<lambda>b1.
            Some (SN cfg (ucast (uint8_to_uint16 b0 b1)))))
        else if pc_sn_len cfg = PDCP_SN_LEN_18 then
          Option.bind (bb_get pdu 0) (\<lambda>b0. Option.bind (bb_get pdu 1) (\<lambda>b1. Option.bind (bb_get pdu 2) (\<lambda>b2.
            Some (SN cfg (uint8_to_uint24 b0 b1 b2)))))
        else Some 0)"

definition discard_data_header :: "'a pdcp_entity_base_scheme \<Rightarrow> byte_buffer \<Rightarrow> byte_buffer" where
  "discard_data_header e pdu =
    (let h = pc_hdr_len_bytes (pe_cfg e)
     in pdu\<lparr>bb_msg := bb_msg pdu + unat h, bb_N_bytes := bb_N_bytes pdu - ucast h\<rparr>)"

definition set_d_flag :: "byte_buffer \<Rightarrow> byte_buffer option" where
  "set_d_flag b = Option.bind (bb_get b 0) (\<lambda>x. bb_put b 0 (x OR 0x80))"

definition write_data_header :: "'a pdcp_entity_base_scheme \<Rightarrow> byte_buffer \<Rightarrow> u32 \<Rightarrow> byte_buffer option" where
  "write_data_header e sdu count =
    (let cfg = pe_cfg e; h = pc_hdr_len_bytes cfg
     in if get_headroom sdu < ucast h then Some sdu
        else
          let sdu = sdu\<lparr>bb_msg := bb_msg sdu - unat h, bb_N_bytes := bb_N_bytes sdu + ucast h\<rparr>
          in if pc_sn_len cfg = PDCP_SN_LEN_5 then store_octets [ucast (SN cfg count)] sdu
             else if pc_sn_len cfg = PDCP_SN_LEN_7 then
               Option.bind (store_octets [ucast (SN cfg count)] sdu) (\<lambda>sdu.
                 if is_drb e then set_d_flag sdu else Some sdu)
             else if pc_sn_len cfg = PDCP_SN_LEN_12 then
               Option.bind (store_octets (uint16_to_uint8 (ucast (SN cfg count))) sdu) (\<lambda>sdu.
                 if is_drb e then set_d_flag sdu else Some sdu)
             else if pc_sn_len cfg = PDCP_SN_LEN_18 then
               Option.bind (store_octets (uint24_to_uint8 (SN cfg count)) sdu) set_d_flag
             else Some sdu)"

text \<open>The array \<open>mac\<close> of the caller: \<open>None\<close> while it is uninitialised.\<close>

definition extract_mac :: "byte_buffer \<Rightarrow> bytes option \<Rightarrow> (byte_buffer \<times> bytes option) option" where
  "extract_mac pdu mac =
    (if bb_N_bytes pdu < 4 then Some (pdu, mac)
     else
       let m = bb_mem pdu (unat (bb_N_bytes pdu - 4))
       in if length m < 4 then None
          else Some (pdu\<lparr>bb_N_bytes := bb_N_bytes pdu - 4\<rparr>, Some (take 4 m)))"

definition append_mac :: "byte_buffer \<Rightarrow> bytes \<Rightarrow> byte_buffer option" where
  "append_mac sdu mac =
    (if get_tailroom sdu < bb_N_bytes sdu + 4 then Some sdu
     else map_option (\<lambda>m. (bb_set_mem sdu (unat (bb_N_bytes sdu)) m)\<lparr>bb_N_bytes := bb_N_bytes sdu + 4\<rparr>)
            (memcpy_mem (bb_mem sdu (unat (bb_N_bytes sdu))) mac 4))"

section \<open>What the security functions compute\<close>

definition lib_ok :: "ssl_lib \<Rightarrow> bool" where
  "lib_ok lib \<longleftrightarrow> ctr_documented lib \<and> ecb_blocks lib"

definition k_int :: "'a pdcp_entity_base_scheme \<Rightarrow> bytes" where
  "k_int e = drop 16 (if is_srb e then sec_k_rrc_int (pe_sec_cfg e) else sec_k_up_int (pe_sec_cfg e))"

definition k_enc :: "'a pdcp_entity_base_scheme \<Rightarrow> bytes" where
  "k_enc e = drop 16 (if is_srb e then sec_k_rrc_enc (pe_sec_cfg e) else sec_k_up_enc (pe_sec_cfg e))"

definition bearer5 :: "'a pdcp_entity_base_scheme \<Rightarrow> u8" where
  "bearer5 e = pc_bearer_id (pe_cfg e) - 1"

text \<open>The MAC-I of a message and the key stream for \<open>m\<close> octets, zeros for EIA0 and EEA0.\<close>

definition mac_i :: "ssl_lib \<Rightarrow> 'a pdcp_entity_base_scheme \<Rightarrow> security_direction \<Rightarrow> u32 \<Rightarrow> bytes \<Rightarrow> bytes" where
  "mac_i lib e direction count m =
    (let b = bearer5 e; dir = direction_id direction
     in case sec_integ_algo (pe_sec_cfg e) of
          EIA1_128 \<Rightarrow> eia1_of (k_int e) count b dir m
        | EIA2_128 \<Rightarrow> eia2_of lib (k_int e) count b dir m
        | EIA3_128 \<Rightarrow> eia3_of (k_int e) count b dir m
        | _ \<Rightarrow> replicate 4 0)"

definition key_stream :: "ssl_lib \<Rightarrow> 'a pdcp_entity_base_scheme \<Rightarrow> security_direction \<Rightarrow> u32 \<Rightarrow> nat \<Rightarrow> bytes" where
  "key_stream lib e direction count m =
    (let b = bearer5 e; dir = direction_id direction
     in case sec_cipher_algo (pe_sec_cfg e) of
          EEA1_128 \<Rightarrow> eea1_bytes (k_enc e) count b dir m
        | EEA2_128 \<Rightarrow> eea2_bytes lib (k_enc e) count b dir m
        | EEA3_128 \<Rightarrow> eea3_bytes (k_enc e) count b dir m
        | _ \<Rightarrow> replicate m 0)"

definition crypt :: "ssl_lib \<Rightarrow> 'a pdcp_entity_base_scheme \<Rightarrow> security_direction \<Rightarrow> u32 \<Rightarrow> bytes \<Rightarrow> bytes" where
  "crypt lib e direction count m = xor_bytes m (key_stream lib e direction count (length m))"

lemma length_mac_i: "lib_ok lib \<Longrightarrow> length (mac_i lib e d count m) = 4"
  by (simp add: mac_i_def Let_def lib_ok_def eia1.length_code eia2.length_code eia3.length_code
      split: LIBLTE_SECURITY_INTEGRITY_ALGORITHM_ID.split)

lemma length_key_stream: "lib_ok lib \<Longrightarrow> length (key_stream lib e d count m) = m"
  by (simp add: key_stream_def Let_def lib_ok_def length_eea2_bytes
      split: LIBLTE_SECURITY_CIPHERING_ALGORITHM_ID.split)

lemma length_crypt [simp]: "lib_ok lib \<Longrightarrow> length (crypt lib e d count m) = length m"
  by (simp add: crypt_def length_key_stream)

lemma crypt_crypt: "lib_ok lib \<Longrightarrow> crypt lib e d count (crypt lib e d count m) = m"
  using length_crypt [of lib e d count m]
  by (simp add: crypt_def length_key_stream xor_bytes_cancel)

lemma xor_zeros: "length m = n \<Longrightarrow> xor_bytes m (replicate n 0) = m"
  by (rule nth_equalityI) (simp_all)

lemma bearer_u8: "ucast (ucast b - 1 :: u32) = (b - 1 :: u8)"
proof -
  have "uint (ucast b - 1 :: u32) mod 256 = (uint b - 1) mod 256"
    by (simp add: uint_word_ariths unsigned_ucast_eq take_bit_eq_mod mod_mod_cancel mod_diff_left_eq)
  then show ?thesis
    by (simp add: word_uint_eq_iff unsigned_ucast_eq uint_word_ariths take_bit_eq_mod)
qed

lemma run_eia_spec:
  assumes "lib_ok lib" "0 < unat len" "unat len < 2^23" "unat len \<le> length msg"
  shows "run_eia lib e d msg len count (replicate 4 0) = Some (mac_i lib e d count (take (unat len) msg))"
proof -
  have l: "length (replicate 4 0 :: bytes) = 4" by simp
  note eia = eia1.eia_mac [OF TrueI assms(2-4) l] eia3.eia_mac [OF TrueI assms(2-4) l]
    eia2.eia_mac [OF _ assms(2-4) l, of lib]
  show ?thesis
    using assms(1)
    by (simp add: run_eia_def mac_i_def Let_def eia lib_ok_def k_int_def bearer5_def bearer_u8
        split: LIBLTE_SECURITY_INTEGRITY_ALGORITHM_ID.split)
qed

lemma integrity_verify_spec:
  assumes "lib_ok lib" "0 < unat len" "unat len < 2^23" "unat len \<le> length msg" "length mac = 4"
  shows "integrity_verify lib e msg len count (Some mac)
    = Some (sec_integ_algo (pe_sec_cfg e) = EIA0 \<or>
        mac = mac_i lib e (pc_rx_direction (pe_cfg e)) count (take (unat len) msg))"
proof -
  have "list_all (\<lambda>i. mac ! i = m ! i) [0..<4] \<longleftrightarrow> mac = m" if "length m = 4" for m :: bytes
    using that assms(5) by (auto simp: list_all_iff intro: nth_equalityI)
  then show ?thesis
    unfolding integrity_verify_def run_eia_spec [OF assms(1-4)]
    by (simp add: length_mac_i assms(1))
qed

lemma integrity_verify_unwritten:
  assumes "lib_ok lib" "0 < unat len" "unat len < 2^23" "unat len \<le> length msg"
    "sec_integ_algo (pe_sec_cfg e) \<noteq> EIA0"
  shows "integrity_verify lib e msg len count None = None"
  unfolding integrity_verify_def run_eia_spec [OF assms(1-4)] using assms(5) by simp

lemma run_eea_spec:
  assumes "lib_ok lib" "sec_sizes (pe_sec_cfg e)" "0 < unat len" "unat len \<le> 9000" "unat len \<le> length msg"
  shows "run_eea lib e d msg len count msg = Some (put msg (crypt lib e d count (take (unat len) msg)))"
proof -
  have ok: "length_ok len msg (replicate PDCP_MAX_SDU_SIZE 0)"
    using assms by (simp add: length_ok_def PDCP_MAX_SDU_SIZE_def)
  have key: "length (k_enc e) = 16" using assms(2) by (auto simp: k_enc_def sec_sizes_def)
  have lib: "ctr_documented lib" using assms(1) by (simp add: lib_ok_def)
  note eea = eea1.crypt_stream [OF TrueI key ok] eea2.crypt_stream [OF lib key ok] eea3.crypt_stream [OF TrueI key ok]
  have l: "length (xor_bytes (take (unat len) msg) s) = unat len" if "length s = unat len" for s
    using that assms(5) by simp
  show ?thesis
    unfolding run_eea_def Let_def k_enc_def [symmetric] bearer5_def [symmetric]
    using assms lib
    by (simp add: crypt_def key_stream_def Let_def eea [unfolded PDCP_MAX_SDU_SIZE_def] memcpy_mem_def
        PDCP_MAX_SDU_SIZE_def l length_eea2_bytes xor_zeros put_def
        split: LIBLTE_SECURITY_CIPHERING_ALGORITHM_ID.split)
qed

section \<open>What the packing functions do\<close>

definition cfg_ok :: "pdcp_config \<Rightarrow> bool" where
  "cfg_ok cfg \<longleftrightarrow> pc_sn_len cfg \<in> {PDCP_SN_LEN_5, PDCP_SN_LEN_7, PDCP_SN_LEN_12, PDCP_SN_LEN_18} \<and>
    pc_hdr_len_bytes cfg = of_nat ((unat (pc_sn_len cfg) + 7) div 8)"

definition hdr_len :: "pdcp_config \<Rightarrow> nat" where
  "hdr_len cfg = unat (pc_hdr_len_bytes cfg)"

definition d_flag :: "pdcp_config \<Rightarrow> bytes \<Rightarrow> bytes" where
  "d_flag cfg h = (if pc_rb_type cfg = PDCP_RB_IS_DRB then h[0 := h ! 0 OR 0x80] else h)"

text \<open>The header of a data PDU.\<close>

definition pdcp_header :: "pdcp_config \<Rightarrow> u32 \<Rightarrow> bytes" where
  "pdcp_header cfg count =
    (let sn = SN cfg count
     in if pc_sn_len cfg = PDCP_SN_LEN_5 then [ucast sn]
        else if pc_sn_len cfg = PDCP_SN_LEN_7 then d_flag cfg [ucast sn]
        else if pc_sn_len cfg = PDCP_SN_LEN_12 then d_flag cfg (uint16_to_uint8 (ucast sn))
        else (uint24_to_uint8 sn)[0 := uint24_to_uint8 sn ! 0 OR 0x80])"

lemma cfg_ok_cases:
  assumes "cfg_ok cfg"
  obtains "pc_sn_len cfg = 5" "hdr_len cfg = 1" | "pc_sn_len cfg = 7" "hdr_len cfg = 1"
    | "pc_sn_len cfg = 12" "hdr_len cfg = 2" | "pc_sn_len cfg = 18" "hdr_len cfg = 3"
  using assms by (auto simp: cfg_ok_def sn_len_defs hdr_len_def)

lemma pdcp_config_t_ok:
  "sn_len \<in> {PDCP_SN_LEN_5, PDCP_SN_LEN_7, PDCP_SN_LEN_12, PDCP_SN_LEN_18} \<Longrightarrow>
   cfg_ok (pdcp_config_t b t tx rx sn_len r d)"
  by (simp add: cfg_ok_def pdcp_config_t_def)

lemma length_pdcp_header: "cfg_ok cfg \<Longrightarrow> length (pdcp_header cfg count) = hdr_len cfg"
  by (erule cfg_ok_cases)
    (simp_all add: pdcp_header_def Let_def sn_len_defs d_flag_def length_uint16_to_uint8 length_uint24_to_uint8)

lemma hdr_len_u32: "unat (ucast (pc_hdr_len_bytes cfg) :: u32) = hdr_len cfg"
  using unat_u8_less [of "pc_hdr_len_bytes cfg"]
  by (simp add: hdr_len_def unsigned_ucast_eq take_bit_nat_eq_self)

lemma hdr_len_pos: "cfg_ok cfg \<Longrightarrow> 0 < hdr_len cfg \<and> hdr_len cfg \<le> 3"
  by (erule cfg_ok_cases) simp_all

lemma SN_take_bit: "cfg_ok cfg \<Longrightarrow> SN cfg count = take_bit (unat (pc_sn_len cfg)) count"
proof -
  assume "cfg_ok cfg"
  then have "drop_bit (32 - unat (pc_sn_len cfg)) 0xFFFFFFFF = (mask (unat (pc_sn_len cfg)) :: u32)"
    by (rule cfg_ok_cases) (simp_all add: mask_eq_exp_minus_1)
  then show ?thesis by (simp add: SN_def take_bit_eq_mask)
qed

lemma set_d_flag_spec:
  assumes "bb_ok b" "0 < unat (bb_N_bytes b)"
  obtains b' where "set_d_flag b = Some b'" "bb_ok b'" "bb_N_bytes b' = bb_N_bytes b" "bb_msg b' = bb_msg b"
    "bb_data b' = (bb_data b)[0 := bb_data b ! 0 OR 0x80]"
  using bb_put_data [OF assms, of "bb_data b ! 0 OR 0x80"] that
  by (auto simp: set_d_flag_def bb_get_data [OF assms])

lemma write_data_header_spec:
  assumes cfg: "cfg_ok (pe_cfg e)" and ok: "bb_ok sdu" and room: "hdr_len (pe_cfg e) \<le> bb_msg sdu"
  obtains b where "write_data_header e sdu count = Some b" "bb_ok b" "bb_msg b = bb_msg sdu - hdr_len (pe_cfg e)"
    "unat (bb_N_bytes b) = unat (bb_N_bytes sdu) + hdr_len (pe_cfg e)"
    "bb_data b = pdcp_header (pe_cfg e) count @ bb_data sdu"
proof -
  let ?cfg = "pe_cfg e" let ?h = "hdr_len ?cfg"
  define s where "s = sdu\<lparr>bb_msg := bb_msg sdu - ?h, bb_N_bytes := bb_N_bytes sdu + ucast (pc_hdr_len_bytes ?cfg)\<rparr>"
  have N: "unat (bb_N_bytes s) = unat (bb_N_bytes sdu) + ?h"
    using ok room by (simp add: s_def unat_word_ariths hdr_len_u32 bb_ok_def)
  have s: "bb_ok s" "bb_msg s = bb_msg sdu - ?h" using ok room N by (simp_all add: bb_ok_def s_def)
  have data: "drop ?h (bb_data s) = bb_data sdu"
    using room N by (simp add: bb_data_def bb_mem_def s_def drop_take)
  have lim: "unat (of_nat (bb_msg sdu) :: u32) = bb_msg sdu"
    using ok by (simp add: unat_of_nat bb_ok_def)
  have "\<not> of_nat (bb_msg sdu) < (ucast (pc_hdr_len_bytes ?cfg) :: u32)"
    using room by (simp add: word_less_nat_alt lim hdr_len_u32)
  then have w: "write_data_header e sdu count =
      (if pc_sn_len ?cfg = 5 then store_octets [ucast (SN ?cfg count)] s
       else if pc_sn_len ?cfg = 7 then Option.bind (store_octets [ucast (SN ?cfg count)] s) (\<lambda>sdu.
           if is_drb e then set_d_flag sdu else Some sdu)
       else if pc_sn_len ?cfg = 12 then Option.bind (store_octets (uint16_to_uint8 (ucast (SN ?cfg count))) s) (\<lambda>sdu.
           if is_drb e then set_d_flag sdu else Some sdu)
       else if pc_sn_len ?cfg = 18 then Option.bind (store_octets (uint24_to_uint8 (SN ?cfg count)) s) set_d_flag
       else Some s)"
    by (simp add: write_data_header_def Let_def s_def hdr_len_def get_headroom_def sn_len_defs)
  have flag: "\<exists>b. Option.bind (store_octets h s) f = Some b \<and> bb_ok b \<and> bb_msg b = bb_msg s \<and>
      bb_N_bytes b = bb_N_bytes s \<and> bb_data b = (if p then h[0 := h ! 0 OR 0x80] else h) @ bb_data sdu"
    if h: "length h = ?h" and f: "\<And>b. f b = (if p then set_d_flag b else Some b)" for h f p
  proof -
    obtain b1 where b1: "store_octets h s = Some b1" "bb_ok b1" "bb_N_bytes b1 = bb_N_bytes s" "bb_msg b1 = bb_msg s"
      "bb_data b1 = h @ bb_data sdu"
      using store_octets_spec [OF s(1), of h] h N data by (metis le_add2)
    have pos: "0 < ?h" using hdr_len_pos [OF cfg] by simp
    then have "0 < unat (bb_N_bytes b1)" using b1(3) N by simp
    from set_d_flag_spec [OF b1(2) this] obtain b2 where b2: "set_d_flag b1 = Some b2" "bb_ok b2"
      "bb_N_bytes b2 = bb_N_bytes b1" "bb_msg b2 = bb_msg b1" "bb_data b2 = (bb_data b1)[0 := bb_data b1 ! 0 OR 0x80]"
      by metis
    show ?thesis using b1 b2 h pos by (auto simp: f list_update_append nth_append)
  qed
  have "\<exists>b. write_data_header e sdu count = Some b \<and> bb_ok b \<and> bb_msg b = bb_msg s \<and>
      bb_N_bytes b = bb_N_bytes s \<and> bb_data b = pdcp_header ?cfg count @ bb_data sdu"
    using cfg
  proof (cases rule: cfg_ok_cases)
    case 1
    then show ?thesis using flag [of "[ucast (SN ?cfg count)]" Some False]
      by (simp add: w pdcp_header_def sn_len_defs)
  next
    case 2
    then show ?thesis using flag [of "[ucast (SN ?cfg count)]" "\<lambda>b. if is_drb e then set_d_flag b else Some b" "is_drb e"]
      by (simp add: w pdcp_header_def sn_len_defs d_flag_def is_drb_def Let_def)
  next
    case 3
    then show ?thesis using flag [of "uint16_to_uint8 (ucast (SN ?cfg count))"
        "\<lambda>b. if is_drb e then set_d_flag b else Some b" "is_drb e"]
      by (simp add: w pdcp_header_def sn_len_defs d_flag_def is_drb_def Let_def length_uint16_to_uint8)
  next
    case 4
    then show ?thesis using flag [of "uint24_to_uint8 (SN ?cfg count)" set_d_flag True]
      by (simp add: w pdcp_header_def sn_len_defs Let_def length_uint24_to_uint8)
  qed
  then show ?thesis using that s N by auto
qed

lemma bit_0x80: "bit (0x80 :: nat) n \<longleftrightarrow> n = 7" "bit (0x80 :: int) n \<longleftrightarrow> n = 7"
proof -
  have e: "(0x80 :: nat) = push_bit 7 1" "(0x80 :: int) = push_bit 7 1" by (simp_all add: push_bit_of_1)
  show "bit (0x80 :: nat) n \<longleftrightarrow> n = 7" "bit (0x80 :: int) n \<longleftrightarrow> n = 7"
    unfolding e by (simp_all only: bit_push_bit_iff bit_1_iff) auto
qed

lemma header_octet: "k \<le> 7 \<Longrightarrow> take_bit k (ucast (ucast (take_bit k count) :: u8) :: u32) = take_bit k count"
  "k \<le> 7 \<Longrightarrow> take_bit k (ucast (ucast (take_bit k count) OR 0x80 :: u8) :: u32) = take_bit k count"
proof -
  assume k: "k \<le> 7"
  show "take_bit k (ucast (ucast (take_bit k count) :: u8) :: u32) = take_bit k count"
    using k by (intro bit_word_eqI) (auto simp: bit_simps)
  show "take_bit k (ucast (ucast (take_bit k count) OR 0x80 :: u8) :: u32) = take_bit k count"
    using k by (intro bit_word_eqI) (auto simp: bit_simps bit_0x80)
qed

lemma header_uint16:
  assumes "b0 = ucast (drop_bit 8 (ucast (take_bit 12 count) :: u16) AND 0xFF) \<or>
    b0 = ucast (drop_bit 8 (ucast (take_bit 12 count) :: u16) AND 0xFF) OR 0x80"
    and "b1 = ucast ((ucast (take_bit 12 count) :: u16) AND 0xFF)"
  shows "take_bit 12 (ucast (uint8_to_uint16 b0 b1)) = (take_bit 12 count :: u32)"
proof (rule bit_word_eqI)
  fix n assume "n < LENGTH(32)"
  consider "n < 8" | "8 \<le> n" "n < 12" | "12 \<le> n" by linarith
  then show "bit (take_bit 12 (ucast (uint8_to_uint16 b0 b1)) :: u32) n = bit (take_bit 12 count) n"
    using assms
    by cases (auto simp: uint8_to_uint16_def mask_8 bit_simps bit_0x80 simp del: push_bit_Suc)
qed

lemma header_uint24:
  assumes "b0 = ucast (drop_bit 16 (take_bit 18 count) AND 0xFF) \<or>
    b0 = ucast (drop_bit 16 (take_bit 18 count) AND 0xFF) OR 0x80"
    and "b1 = ucast (drop_bit 8 (take_bit 18 count) AND 0xFF)" and "b2 = ucast (take_bit 18 count AND 0xFF)"
  shows "take_bit 18 (uint8_to_uint24 b0 b1 b2) = (take_bit 18 count :: u32)"
proof (rule bit_word_eqI)
  fix n assume "n < LENGTH(32)"
  consider "n < 8" | "8 \<le> n" "n < 16" | "16 \<le> n" "n < 18" | "18 \<le> n" by linarith
  then show "bit (take_bit 18 (uint8_to_uint24 b0 b1 b2) :: u32) n = bit (take_bit 18 count) n"
    using assms
    by cases (auto simp: uint8_to_uint24_def mask_8 bit_simps bit_0x80 simp del: push_bit_Suc)
qed

lemma read_data_header_spec:
  assumes cfg: "cfg_ok (pe_cfg e)" and ok: "bb_ok pdu" and data: "bb_data pdu = pdcp_header (pe_cfg e) count @ rest"
    and rest: "rest \<noteq> []"
  shows "read_data_header e pdu = Some (SN (pe_cfg e) count)"
proof -
  let ?cfg = "pe_cfg e"
  have N: "unat (bb_N_bytes pdu) = hdr_len ?cfg + length rest"
    using length_bb_data [OF ok] length_pdcp_header [OF cfg] by (simp add: data)
  then have large: "\<not> bb_N_bytes pdu \<le> ucast (pc_hdr_len_bytes ?cfg)"
    using rest by (simp add: word_le_nat_alt hdr_len_u32)
  have get: "bb_get pdu i = Some (pdcp_header ?cfg count ! i)" if "i < hdr_len ?cfg" for i
    using bb_get_data [OF ok, of i] that N length_pdcp_header [OF cfg] by (simp add: data nth_append)
  note sn = SN_take_bit [OF cfg]
  from cfg show ?thesis
  proof (cases rule: cfg_ok_cases)
    case 1
    then show ?thesis using large get [of 0]
      by (simp add: read_data_header_def Let_def sn_len_defs pdcp_header_def sn header_octet)
  next
    case 2
    then show ?thesis using large get [of 0]
      by (simp add: read_data_header_def Let_def sn_len_defs pdcp_header_def sn header_octet d_flag_def)
  next
    case 3
    then show ?thesis using large get [of 0] get [of 1]
      by (simp add: read_data_header_def Let_def sn_len_defs pdcp_header_def sn d_flag_def uint16_to_uint8_def
          header_uint16)
  next
    case 4
    then show ?thesis using large get [of 0] get [of 1] get [of 2]
      by (simp add: read_data_header_def Let_def sn_len_defs pdcp_header_def sn uint24_to_uint8_def header_uint24)
  qed
qed

lemma discard_data_header_spec:
  assumes cfg: "cfg_ok (pe_cfg e)" and ok: "bb_ok pdu" and len: "hdr_len (pe_cfg e) \<le> length (bb_data pdu)"
  shows "bb_ok (discard_data_header e pdu)" "bb_data (discard_data_header e pdu) = drop (hdr_len (pe_cfg e)) (bb_data pdu)"
    "bb_msg (discard_data_header e pdu) = bb_msg pdu + hdr_len (pe_cfg e)"
proof -
  have l: "hdr_len (pe_cfg e) \<le> unat (bb_N_bytes pdu)" using len length_bb_data [OF ok] by simp
  then have N: "unat (bb_N_bytes (discard_data_header e pdu)) = unat (bb_N_bytes pdu) - hdr_len (pe_cfg e)"
    by (simp add: discard_data_header_def Let_def unat_sub word_le_nat_alt hdr_len_u32)
  show m: "bb_msg (discard_data_header e pdu) = bb_msg pdu + hdr_len (pe_cfg e)"
    by (simp add: discard_data_header_def Let_def hdr_len_def)
  have b: "bb_buffer (discard_data_header e pdu) = bb_buffer pdu" by (simp add: discard_data_header_def Let_def)
  show "bb_ok (discard_data_header e pdu)" using ok l by (simp add: bb_ok_def N m b)
  show "bb_data (discard_data_header e pdu) = drop (hdr_len (pe_cfg e)) (bb_data pdu)"
    by (simp add: bb_data_def N bb_mem_def m b drop_take add.commute)
qed

lemma extract_mac_spec:
  assumes ok: "bb_ok pdu" and len: "4 \<le> length (bb_data pdu)"
  obtains b where "extract_mac pdu mac = Some (b, Some (drop (length (bb_data pdu) - 4) (bb_data pdu)))"
    "bb_ok b" "bb_data b = take (length (bb_data pdu) - 4) (bb_data pdu)" "bb_msg b = bb_msg pdu"
    "unat (bb_N_bytes b) = length (bb_data pdu) - 4"
proof -
  let ?b = "pdu\<lparr>bb_N_bytes := bb_N_bytes pdu - 4\<rparr>"
  have l: "length (bb_data pdu) = unat (bb_N_bytes pdu)" using ok by (rule length_bb_data)
  have ge: "\<not> bb_N_bytes pdu < 4" using len l by (simp add: word_less_nat_alt)
  have N: "unat (bb_N_bytes pdu - 4) = unat (bb_N_bytes pdu) - 4"
    using len l by (simp add: unat_sub word_le_nat_alt)
  let ?m = "bb_mem pdu (unat (bb_N_bytes pdu - 4))"
  have "take 4 ?m = drop (unat (bb_N_bytes pdu) - 4) (bb_data pdu)"
    using take_bb_mem_end [OF ok, of "unat (bb_N_bytes pdu) - 4"] len l by (simp add: N)
  moreover have "\<not> length ?m < 4" using ok len unfolding l bb_ok_def length_bb_mem N by auto
  ultimately have e: "extract_mac pdu mac = Some (?b, Some (drop (length (bb_data pdu) - 4) (bb_data pdu)))"
    using ge l by (simp add: extract_mac_def Let_def)
  have d: "bb_data ?b = take (length (bb_data pdu) - 4) (bb_data pdu)"
    by (simp add: N l) (simp add: bb_data_def N)
  show ?thesis by (rule that [OF e _ d]) (use ok len l N in \<open>auto simp: bb_ok_def\<close>)
qed

lemma extract_mac_short: "bb_N_bytes pdu < 4 \<Longrightarrow> extract_mac pdu mac = Some (pdu, mac)"
  by (simp add: extract_mac_def)

lemma tailroom:
  assumes "bb_ok b"
  shows "unat (get_tailroom b) = MAX_BUFFER_SIZE_BYTES - bb_msg b - unat (bb_N_bytes b)"
proof -
  have "get_tailroom b = of_nat (MAX_BUFFER_SIZE_BYTES - bb_msg b - unat (bb_N_bytes b))"
    using assms by (simp add: get_tailroom_def bb_ok_def of_nat_diff)
  moreover have "MAX_BUFFER_SIZE_BYTES - bb_msg b - unat (bb_N_bytes b) < 2 ^ LENGTH(32)" by simp
  ultimately show ?thesis by (simp only: unat_of_nat mod_less)
qed

lemma append_mac_spec:
  assumes ok: "bb_ok b" and room: "bb_msg b + 2 * length (bb_data b) + 4 \<le> MAX_BUFFER_SIZE_BYTES" and mac: "length mac = 4"
  obtains b' where "append_mac b mac = Some b'" "bb_ok b'" "bb_data b' = bb_data b @ mac" "bb_msg b' = bb_msg b"
    "unat (bb_N_bytes b') = length (bb_data b) + 4"
proof -
  let ?n = "unat (bb_N_bytes b)"
  let ?b = "(bb_set_mem b ?n (put (bb_mem b ?n) mac))\<lparr>bb_N_bytes := bb_N_bytes b + 4\<rparr>"
  have l: "length (bb_data b) = ?n" using ok by (rule length_bb_data)
  have N: "unat (bb_N_bytes b + 4) = ?n + 4" using room l by (simp add: unat_word_ariths)
  have "\<not> get_tailroom b < bb_N_bytes b + 4"
    using room l ok by (simp add: word_less_nat_alt tailroom [OF ok] N)
  then have e: "append_mac b mac = Some ?b"
    using ok room l mac by (simp add: append_mac_def memcpy_mem_def bb_ok_def)
  have len: "length (put (bb_mem b ?n) mac) = length (bb_mem b ?n)"
    using ok room l mac by (simp add: bb_ok_def)
  have "bb_ok (bb_set_mem b ?n (put (bb_mem b ?n) mac))"
    using ok by (intro bb_ok_set_mem len) (simp_all add: bb_ok_def)
  then have ok': "bb_ok ?b" using room l by (simp add: bb_ok_def N)
  have "bb_mem (bb_set_mem b ?n (put (bb_mem b ?n) mac)) 0 = take ?n (bb_mem b 0) @ put (bb_mem b ?n) mac"
    using ok by (intro bb_mem_set_mem) (simp_all add: bb_ok_def)
  then have d: "bb_data ?b = bb_data b @ mac"
    using l mac by (simp add: bb_data_def N put_def)
  show ?thesis by (rule that [OF e ok' d]) (simp_all add: N l)
qed

text \<open>
  The check compares the room behind the message with the length of the message and the MAC: when it fails the
  message goes on without a MAC.
\<close>

lemma append_mac_skipped:
  assumes ok: "bb_ok b" and "MAX_BUFFER_SIZE_BYTES < bb_msg b + 2 * length (bb_data b) + 4"
  shows "append_mac b mac = Some b"
proof -
  let ?n = "unat (bb_N_bytes b)"
  have l: "length (bb_data b) = ?n" using ok by (rule length_bb_data)
  have N: "unat (bb_N_bytes b + 4) = ?n + 4" using ok by (simp add: unat_word_ariths bb_ok_def)
  have "get_tailroom b < bb_N_bytes b + 4"
    using assms(2) l ok by (simp add: word_less_nat_alt tailroom [OF ok] N bb_ok_def)
  then show ?thesis by (simp add: append_mac_def)
qed

text \<open>Ciphering of the payload in place.\<close>

lemma crypt_payload:
  assumes lib: "lib_ok lib" and sec: "sec_sizes (pe_sec_cfg e)" and ok: "bb_ok b"
    and len: "h < length (bb_data b)" "length (bb_data b) \<le> 9000" and n: "unat n = length (bb_data b) - h"
  obtains b' where "map_option (bb_set_mem b h) (run_eea lib e d (bb_mem b h) n count (bb_mem b h)) = Some b'"
    "bb_ok b'" "bb_msg b' = bb_msg b" "bb_N_bytes b' = bb_N_bytes b"
    "bb_data b' = take h (bb_data b) @ crypt lib e d count (drop h (bb_data b))"
proof -
  have l: "length (bb_data b) = unat (bb_N_bytes b)" using ok by (rule length_bb_data)
  have t: "take (unat n) (bb_mem b h) = drop h (bb_data b)"
    using take_bb_mem_end [OF ok, of h] len n l by simp
  have m: "unat n \<le> length (bb_mem b h)" using ok unfolding n l bb_ok_def length_bb_mem by linarith
  have r: "run_eea lib e d (bb_mem b h) n count (bb_mem b h) = Some (put (bb_mem b h) (crypt lib e d count (drop h (bb_data b))))"
    using run_eea_spec [OF lib sec _ _ m, of d count] len n t by simp
  let ?b = "bb_set_mem b h (put (bb_mem b h) (crypt lib e d count (drop h (bb_data b))))"
  have "bb_ok ?b" using ok len l m n lib by (intro bb_ok_set_mem) (simp_all add: bb_ok_def)
  moreover have "bb_data ?b = take h (bb_data b) @ crypt lib e d count (drop h (bb_data b))"
    using len l lib by (subst bb_data_set_mem [OF ok]) simp_all
  ultimately show ?thesis using that r by simp
qed

lemma run_eia_any:
  assumes "lib_ok lib" "0 < unat len" "unat len < 2^23" "unat len \<le> length msg" "length mac0 = 4"
  shows "run_eia lib e d msg len count mac0 = Some (if sec_integ_algo (pe_sec_cfg e) \<in> {EIA1_128, EIA2_128, EIA3_128}
    then mac_i lib e d count (take (unat len) msg) else mac0)"
proof -
  note eia = eia1.eia_mac [OF TrueI assms(2-5)] eia3.eia_mac [OF TrueI assms(2-5)] eia2.eia_mac [OF _ assms(2-5), of lib]
  show ?thesis
    using assms(1)
    by (simp add: run_eia_def mac_i_def Let_def eia lib_ok_def k_int_def bearer5_def bearer_u8
        split: LIBLTE_SECURITY_INTEGRITY_ALGORITHM_ID.split)
qed

text \<open>The functions depend on the keys, the algorithms, the kind of bearer and its number only.\<close>

lemma security_functions_cong:
  assumes "pe_sec_cfg r = pe_sec_cfg e" "pc_rb_type (pe_cfg r) = pc_rb_type (pe_cfg e)"
    "pc_bearer_id (pe_cfg r) = pc_bearer_id (pe_cfg e)"
  shows "mac_i lib r = mac_i lib e" "crypt lib r = crypt lib e"
proof -
  have k: "k_int r = k_int e" "k_enc r = k_enc e" "bearer5 r = bearer5 e"
    using assms by (simp_all add: k_int_def k_enc_def bearer5_def is_srb_def)
  show "mac_i lib r = mac_i lib e" "crypt lib r = crypt lib e"
    unfolding fun_eq_iff mac_i_def crypt_def key_stream_def k assms(1) by simp_all
qed

lemma header_functions_cong:
  assumes "pc_sn_len c' = pc_sn_len c" "pc_rb_type c' = pc_rb_type c" "cfg_ok c" "cfg_ok c'"
  shows "pdcp_header c' = pdcp_header c" "SN c' = SN c" "COUNT c' = COUNT c" "hdr_len c' = hdr_len c"
proof -
  show "pdcp_header c' = pdcp_header c" "SN c' = SN c" "COUNT c' = COUNT c"
    unfolding fun_eq_iff pdcp_header_def d_flag_def SN_def COUNT_def assms(1,2) by simp_all
  show "hdr_len c' = hdr_len c" using assms by (simp add: hdr_len_def cfg_ok_def)
qed

end
