(* ===== verification/Pdcp_Lte.thy ===== *)
theory Pdcp_Lte
  imports Pdcp_Base
begin

text \<open>
  The LTE PDCP entity (\<^verbatim>\<open>lib/src/upper/pdcp_entity_lte.cc\<close>): transmission and the three reception
  procedures of TS 36.323. The RLC is the interface \<open>rlc\<close>, of which the entity asks whether the queue of a
  bearer is full and whether a bearer is unacknowledged mode; what an operation passes on is a list of events.
\<close>

section \<open>State\<close>

record rlc_interface =
  sdu_queue_is_full :: "u32 \<Rightarrow> bool"
  rb_is_um :: "u32 \<Rightarrow> bool"

datatype pdcp_event =
    Rlc_write_sdu u32 byte_buffer
  | Rlc_discard_sdu u32 u32
  | Rrc_write_pdu u32 byte_buffer
  | Gw_write_pdu u32 byte_buffer

record pdcp_lte_state =
  next_pdcp_tx_sn :: u32
  tx_hfn :: u32
  rx_hfn :: u32
  next_pdcp_rx_sn :: u32
  last_submitted_pdcp_rx_sn :: u32
  reordering_pdcp_rx_count :: u32

record pdcp_entity_lte = pdcp_entity_base +
  pl_st :: pdcp_lte_state
  pl_reordering_window :: u32
  pl_maximum_pdcp_sn :: u32

section \<open>Construction and control\<close>

definition as_security_config_zero :: as_security_config where
  "as_security_config_zero =
    \<lparr>sec_k_rrc_int = replicate 32 0, sec_k_rrc_enc = replicate 32 0, sec_k_up_int = replicate 32 0,
     sec_k_up_enc = replicate 32 0, sec_integ_algo = EIA0, sec_cipher_algo = EEA0\<rparr>"

definition pdcp_entity_lte_new :: "u32 \<Rightarrow> pdcp_config \<Rightarrow> pdcp_entity_lte" where
  "pdcp_entity_lte_new lcid cfg =
    (let max_sn = push_bit (unat (pc_sn_len cfg)) 1 - 1
     in \<lparr>pe_active = True, pe_lcid = lcid, pe_integrity_direction = DIRECTION_NONE,
         pe_encryption_direction = DIRECTION_NONE, pe_enable_security_tx_sn = - 1, pe_enable_security_rx_sn = - 1,
         pe_cfg = cfg, pe_sec_cfg = as_security_config_zero,
         pl_st = \<lparr>next_pdcp_tx_sn = 0, tx_hfn = 0, rx_hfn = 0, next_pdcp_rx_sn = 0,
                  last_submitted_pdcp_rx_sn = max_sn, reordering_pdcp_rx_count = 0\<rparr>,
         pl_reordering_window = (if pc_rb_type cfg = PDCP_RB_IS_SRB then 0 else 2048),
         pl_maximum_pdcp_sn = max_sn\<rparr>)"

definition check_valid_config :: "rlc_interface \<Rightarrow> pdcp_entity_lte \<Rightarrow> bool" where
  "check_valid_config rlc e =
    (let sn_len = pc_sn_len (pe_cfg e)
     in if sn_len \<noteq> PDCP_SN_LEN_5 \<and> sn_len \<noteq> PDCP_SN_LEN_7 \<and> sn_len \<noteq> PDCP_SN_LEN_12 then False
        else if sn_len = PDCP_SN_LEN_5 \<and> is_drb e then False
        else if sn_len = PDCP_SN_LEN_7 \<and> (is_srb e \<or> \<not> rb_is_um rlc (pe_lcid e)) then False
        else if sn_len = PDCP_SN_LEN_12 \<and> is_srb e then False
        else True)"

definition clear_counters :: "pdcp_entity_lte \<Rightarrow> pdcp_entity_lte" where
  "clear_counters e =
    e\<lparr>pl_st := (pl_st e)\<lparr>next_pdcp_tx_sn := 0, tx_hfn := 0, rx_hfn := 0, next_pdcp_rx_sn := 0\<rparr>\<rparr>"

definition reestablish :: "rlc_interface \<Rightarrow> pdcp_entity_lte \<Rightarrow> pdcp_entity_lte" where
  "reestablish rlc e =
    (if is_srb e then clear_counters e
     else if rb_is_um rlc (pe_lcid e) then clear_counters e
     else e)"

definition pdcp_reset :: "pdcp_entity_lte \<Rightarrow> pdcp_entity_lte" where
  "pdcp_reset e = e\<lparr>pe_active := False\<rparr>"

definition get_bearer_state :: "pdcp_entity_lte \<Rightarrow> pdcp_lte_state" where
  "get_bearer_state e = pl_st e"

definition set_bearer_state :: "pdcp_lte_state \<Rightarrow> pdcp_entity_lte \<Rightarrow> pdcp_entity_lte" where
  "set_bearer_state st e = e\<lparr>pl_st := st\<rparr>"

section \<open>Transmission\<close>

definition dir_tx :: "srslte_direction \<Rightarrow> bool" where
  "dir_tx d \<longleftrightarrow> d = DIRECTION_TX \<or> d = DIRECTION_TXRX"

definition dir_rx :: "srslte_direction \<Rightarrow> bool" where
  "dir_rx d \<longleftrightarrow> d = DIRECTION_RX \<or> d = DIRECTION_TXRX"

definition activate_tx :: "u32 \<Rightarrow> pdcp_entity_lte \<Rightarrow> pdcp_entity_lte" where
  "activate_tx tx_count e =
    (if pe_enable_security_tx_sn e \<noteq> - 1 \<and> pe_enable_security_tx_sn e = sint tx_count
     then (enable_encryption DIRECTION_TX (enable_integrity DIRECTION_TX e))\<lparr>pe_enable_security_tx_sn := - 1\<rparr>
     else e)"

definition step_tx_sn :: "pdcp_entity_lte \<Rightarrow> pdcp_entity_lte" where
  "step_tx_sn e =
    (let st = (pl_st e)\<lparr>next_pdcp_tx_sn := next_pdcp_tx_sn (pl_st e) + 1\<rparr>
     in if pl_maximum_pdcp_sn e < next_pdcp_tx_sn st
        then e\<lparr>pl_st := st\<lparr>tx_hfn := tx_hfn st + 1, next_pdcp_tx_sn := 0\<rparr>\<rparr>
        else e\<lparr>pl_st := st\<rparr>)"

definition write_sdu ::
  "ssl_lib \<Rightarrow> rlc_interface \<Rightarrow> pdcp_entity_lte \<Rightarrow> byte_buffer \<Rightarrow> (pdcp_entity_lte \<times> pdcp_event list) option" where
  "write_sdu lib rlc e sdu =
    (if sdu_queue_is_full rlc (pe_lcid e) then Some (e, [])
     else
       let tx_count = COUNT (pe_cfg e) (tx_hfn (pl_st e)) (next_pdcp_tx_sn (pl_st e));
           e = activate_tx tx_count e;
           h = unat (pc_hdr_len_bytes (pe_cfg e))
       in Option.bind (write_data_header e sdu tx_count) (\<lambda>sdu.
          Option.bind (if dir_tx (pe_integrity_direction e) \<and> is_srb e
                       then integrity_generate lib e (bb_mem sdu 0) (bb_N_bytes sdu) tx_count (replicate 4 0)
                       else Some (replicate 4 0)) (\<lambda>mac.
          Option.bind (if is_srb e then append_mac sdu mac else Some sdu) (\<lambda>sdu.
          Option.bind (if dir_tx (pe_encryption_direction e)
                       then map_option (bb_set_mem sdu h)
                         (cipher_encrypt lib e (bb_mem sdu h) (bb_N_bytes sdu - ucast (pc_hdr_len_bytes (pe_cfg e)))
                            tx_count (bb_mem sdu h))
                       else Some sdu) (\<lambda>sdu.
          Some (step_tx_sn e, [Rlc_write_sdu (pe_lcid e) sdu]))))))"

section \<open>Reception\<close>

definition activate_rx :: "u32 \<Rightarrow> pdcp_entity_lte \<Rightarrow> pdcp_entity_lte" where
  "activate_rx sn e =
    (if pe_enable_security_rx_sn e \<noteq> - 1 \<and> pe_enable_security_rx_sn e = sint sn
     then (enable_encryption DIRECTION_RX (enable_integrity DIRECTION_RX e))\<lparr>pe_enable_security_rx_sn := - 1\<rparr>
     else e)"

definition step_rx_sn :: "u32 \<Rightarrow> pdcp_entity_lte \<Rightarrow> pdcp_entity_lte" where
  "step_rx_sn sn e =
    (let st = (pl_st e)\<lparr>next_pdcp_rx_sn := sn + 1\<rparr>
     in if pl_maximum_pdcp_sn e < next_pdcp_rx_sn st
        then e\<lparr>pl_st := st\<lparr>next_pdcp_rx_sn := 0, rx_hfn := rx_hfn st + 1\<rparr>\<rparr>
        else e\<lparr>pl_st := st\<rparr>)"

definition bump_rx_hfn :: "u32 \<Rightarrow> pdcp_entity_lte \<Rightarrow> pdcp_entity_lte" where
  "bump_rx_hfn sn e =
    (if sn < next_pdcp_rx_sn (pl_st e) then e\<lparr>pl_st := (pl_st e)\<lparr>rx_hfn := rx_hfn (pl_st e) + 1\<rparr>\<rparr> else e)"

definition handle_srb_pdu ::
  "ssl_lib \<Rightarrow> pdcp_entity_lte \<Rightarrow> byte_buffer \<Rightarrow> (pdcp_entity_lte \<times> pdcp_event list) option" where
  "handle_srb_pdu lib e pdu =
    (let cfg = pe_cfg e; h = unat (pc_hdr_len_bytes cfg)
     in Option.bind (read_data_header e pdu) (\<lambda>sn.
        let count = (if sn < next_pdcp_rx_sn (pl_st e) then COUNT cfg (rx_hfn (pl_st e) + 1) sn
                     else COUNT cfg (rx_hfn (pl_st e)) sn)
        in Option.bind (if dir_rx (pe_encryption_direction e)
                        then map_option (bb_set_mem pdu h)
                          (cipher_decrypt lib e (bb_mem pdu h) (bb_N_bytes pdu - ucast (pc_hdr_len_bytes cfg)) count
                             (bb_mem pdu h))
                        else Some pdu) (\<lambda>pdu.
           Option.bind (extract_mac pdu None) (\<lambda>(pdu, mac).
           Option.bind (if dir_rx (pe_integrity_direction e)
                        then integrity_verify lib e (bb_mem pdu 0) (bb_N_bytes pdu) count mac
                        else Some True) (\<lambda>valid.
           if \<not> valid then Some (e, [])
           else
             let pdu = discard_data_header e pdu
             in Some (step_rx_sn sn (bump_rx_hfn sn e), [Rrc_write_pdu (pe_lcid e) pdu]))))))"

definition handle_um_drb_pdu ::
  "ssl_lib \<Rightarrow> pdcp_entity_lte \<Rightarrow> byte_buffer \<Rightarrow> (pdcp_entity_lte \<times> pdcp_event list) option" where
  "handle_um_drb_pdu lib e pdu =
    Option.bind (read_data_header e pdu) (\<lambda>sn.
      let pdu = discard_data_header e pdu;
          e = bump_rx_hfn sn e;
          count = push_bit (unat (pc_sn_len (pe_cfg e))) (rx_hfn (pl_st e)) OR sn
      in Option.bind (if dir_rx (pe_encryption_direction e)
                      then map_option (bb_set_mem pdu 0)
                        (cipher_decrypt lib e (bb_mem pdu 0) (bb_N_bytes pdu) count (bb_mem pdu 0))
                      else Some pdu) (\<lambda>pdu.
         Some (step_rx_sn sn e, [Gw_write_pdu (pe_lcid e) pdu])))"

text \<open>
  The receiving state after a PDU with \<open>sn\<close> and the COUNT for it: \<open>None\<close> is the branch that discards the PDU.
\<close>

definition am_receive :: "pdcp_entity_lte \<Rightarrow> u32 \<Rightarrow> (pdcp_entity_lte \<times> u32) option" where
  "am_receive e sn =
    (let st = pl_st e;
         window = sint (pl_reordering_window e);
         last_submit_diff_sn = sint (last_submitted_pdcp_rx_sn st - sn);
         sn_diff_last_submit = sint (sn - last_submitted_pdcp_rx_sn st);
         sn_diff_next_pdcp_rx_sn = sint (sn - next_pdcp_rx_sn st);
         count = (\<lambda>hfn. push_bit (unat (pc_sn_len (pe_cfg e))) hfn OR sn)
     in if (0 \<le> sn_diff_last_submit \<and> window < sn_diff_last_submit) \<or>
           (0 \<le> last_submit_diff_sn \<and> last_submit_diff_sn < window) then None
        else if window < sint (next_pdcp_rx_sn st - sn) then
          Some (e\<lparr>pl_st := st\<lparr>rx_hfn := rx_hfn st + 1, next_pdcp_rx_sn := sn + 1\<rparr>\<rparr>, count (rx_hfn st + 1))
        else if window \<le> sn_diff_next_pdcp_rx_sn then Some (e, count (rx_hfn st - 1))
        else if next_pdcp_rx_sn st \<le> sn then Some (step_rx_sn sn e, count (rx_hfn st))
        else if sn < next_pdcp_rx_sn st then Some (e, count (rx_hfn st))
        else Some (e, 0))"

definition handle_am_drb_pdu ::
  "ssl_lib \<Rightarrow> pdcp_entity_lte \<Rightarrow> byte_buffer \<Rightarrow> (pdcp_entity_lte \<times> pdcp_event list) option" where
  "handle_am_drb_pdu lib e pdu =
    Option.bind (read_data_header e pdu) (\<lambda>sn.
      let pdu = discard_data_header e pdu
      in case am_receive e sn of
           None \<Rightarrow> Some (e, [])
         | Some (e, count) \<Rightarrow>
             Option.bind (map_option (bb_set_mem pdu 0)
               (cipher_decrypt lib e (bb_mem pdu 0) (bb_N_bytes pdu) count (bb_mem pdu 0))) (\<lambda>pdu.
             Some (e\<lparr>pl_st := (pl_st e)\<lparr>last_submitted_pdcp_rx_sn := sn\<rparr>\<rparr>, [Gw_write_pdu (pe_lcid e) pdu])))"

definition write_pdu ::
  "ssl_lib \<Rightarrow> rlc_interface \<Rightarrow> pdcp_entity_lte \<Rightarrow> byte_buffer \<Rightarrow> (pdcp_entity_lte \<times> pdcp_event list) option" where
  "write_pdu lib rlc e pdu =
    Option.bind (if is_drb e then is_control_pdu pdu else Some False) (\<lambda>control.
      if control then Some (e, [])
      else if bb_N_bytes pdu \<le> ucast (pc_hdr_len_bytes (pe_cfg e)) then Some (e, [])
      else Option.bind (read_data_header e pdu) (\<lambda>sn.
        let e = activate_rx sn e
        in if is_srb e then handle_srb_pdu lib e pdu
           else if is_drb e \<and> rb_is_um rlc (pe_lcid e) then handle_um_drb_pdu lib e pdu
           else if is_drb e \<and> \<not> rb_is_um rlc (pe_lcid e) then handle_am_drb_pdu lib e pdu
           else Some (e, [])))"

section \<open>Well-formed entities\<close>

definition sn_max :: "pdcp_config \<Rightarrow> u32" where
  "sn_max cfg = mask (unat (pc_sn_len cfg))"

definition lte_ok :: "pdcp_entity_lte \<Rightarrow> bool" where
  "lte_ok e \<longleftrightarrow> cfg_ok (pe_cfg e) \<and> sec_sizes (pe_sec_cfg e) \<and> pl_maximum_pdcp_sn e = sn_max (pe_cfg e) \<and>
    next_pdcp_tx_sn (pl_st e) \<le> sn_max (pe_cfg e) \<and> next_pdcp_rx_sn (pl_st e) \<le> sn_max (pe_cfg e) \<and>
    last_submitted_pdcp_rx_sn (pl_st e) \<le> sn_max (pe_cfg e) \<and>
    pl_reordering_window e = (if is_srb e then 0 else 2048)"

lemma unat_sn_max: "cfg_ok cfg \<Longrightarrow> unat (sn_max cfg) = 2 ^ unat (pc_sn_len cfg) - 1"
  by (erule cfg_ok_cases) (simp_all add: sn_max_def mask_eq_exp_minus_1)

lemma sn_max_values: "cfg_ok cfg \<Longrightarrow> unat (sn_max cfg) \<in> {31, 127, 4095, 262143}"
  by (erule cfg_ok_cases) (simp_all add: unat_sn_max sn_max_def mask_eq_exp_minus_1)

lemma SN_le: "cfg_ok cfg \<Longrightarrow> SN cfg x \<le> sn_max cfg"
  by (simp add: SN_take_bit sn_max_def take_bit_eq_mask word_and_le1)

lemma SN_id: "cfg_ok cfg \<Longrightarrow> sn \<le> sn_max cfg \<Longrightarrow> SN cfg sn = sn"
proof -
  assume cfg: "cfg_ok cfg" and sn: "sn \<le> sn_max cfg"
  have "unat sn < 2 ^ unat (pc_sn_len cfg)"
    using sn unat_sn_max [OF cfg] by (simp add: word_le_nat_alt) (metis Suc_pred less_Suc_eq_le pos2 zero_less_power)
  then show ?thesis
    by (simp add: SN_take_bit [OF cfg] word_unat_eq_iff unsigned_take_bit_eq take_bit_nat_eq_self)
qed

lemma SN_COUNT: "cfg_ok cfg \<Longrightarrow> sn \<le> sn_max cfg \<Longrightarrow> SN cfg (COUNT cfg hfn sn) = sn"
  using SN_id [of cfg sn] by (simp add: SN_take_bit COUNT_def take_bit_or take_bit_push_bit)

lemma COUNT_plus: "cfg_ok cfg \<Longrightarrow> sn \<le> sn_max cfg \<Longrightarrow> COUNT cfg hfn sn = 2 ^ unat (pc_sn_len cfg) * hfn + sn"
proof -
  assume "cfg_ok cfg" "sn \<le> sn_max cfg"
  then have "take_bit (unat (pc_sn_len cfg)) sn = sn" using SN_id SN_take_bit by metis
  then show ?thesis unfolding COUNT_def by (subst push_or_plus) (simp_all add: push_bit_eq_mult ac_simps)
qed

lemma plus_one_le:
  assumes "cfg_ok cfg" "sn \<le> sn_max cfg"
  shows "unat (sn + 1) = unat sn + 1"
  using sn_max_values [OF assms(1)] assms(2) by (auto simp: word_le_nat_alt unat_word_ariths)

lemma read_data_header_le: "cfg_ok (pe_cfg e) \<Longrightarrow> read_data_header e pdu = Some sn \<Longrightarrow> sn \<le> sn_max (pe_cfg e)"
  by (auto simp: read_data_header_def Let_def SN_le Option.bind_eq_Some_conv split: if_splits)

lemma sn_max_new: "2 ^ unat (pc_sn_len cfg) - 1 = sn_max cfg"
  by (simp add: sn_max_def mask_eq_exp_minus_1)

lemma sn_small: "cfg_ok cfg \<Longrightarrow> sn \<le> sn_max cfg \<Longrightarrow> unat sn \<le> 262143"
  using sn_max_values [of cfg] by (auto simp: word_le_nat_alt)

lemma sint_diff_small:
  assumes "unat a \<le> 262143" "unat b \<le> 262143"
  shows "sint (a - b :: u32) = int (unat a) - int (unat b)"
proof -
  have e: "a - b = word_of_int (int (unat a) - int (unat b))" by simp
  have "sint (a - b) = signed_take_bit 31 (int (unat a) - int (unat b))"
    by (simp only: e signed_of_int) simp
  also have "\<dots> = int (unat a) - int (unat b)"
    using assms by (intro signed_take_bit_int_eq_self) (simp_all del: of_nat_unat)
  finally show ?thesis .
qed

lemma lte_ok_new: "cfg_ok cfg \<Longrightarrow> lte_ok (pdcp_entity_lte_new lcid cfg)"
  by (simp add: pdcp_entity_lte_new_def lte_ok_def Let_def sn_max_new as_security_config_zero_def sec_sizes_def is_srb_def)

lemma lte_ok_control:
  assumes "lte_ok e"
  shows "lte_ok (enable_integrity d e)" "lte_ok (enable_encryption d e)" "lte_ok (enable_security_timed d sn e)"
    "lte_ok (activate_tx sn e)" "lte_ok (activate_rx sn e)" "lte_ok (reestablish rlc e)" "lte_ok (pdcp_reset e)"
    "sec_sizes sec \<Longrightarrow> lte_ok (config_security sec e)"
  using assms
  by (simp_all add: lte_ok_def enable_integrity_def enable_encryption_def enable_security_timed_def activate_tx_def
      activate_rx_def reestablish_def clear_counters_def pdcp_reset_def config_security_def is_srb_def
      split: srslte_direction.split)

lemma lte_ok_step_tx: "lte_ok e \<Longrightarrow> lte_ok (step_tx_sn e)"
  by (auto simp: lte_ok_def step_tx_sn_def Let_def is_srb_def not_less)

lemma lte_ok_step_rx: "lte_ok e \<Longrightarrow> lte_ok (step_rx_sn sn e)"
  by (auto simp: lte_ok_def step_rx_sn_def Let_def is_srb_def not_less)

lemma lte_ok_bump: "lte_ok e \<Longrightarrow> lte_ok (bump_rx_hfn sn e)"
  by (simp add: lte_ok_def bump_rx_hfn_def is_srb_def)

lemma pe_cfg_steps [simp]:
  "pe_cfg (activate_tx c e) = pe_cfg e" "pe_cfg (activate_rx c e) = pe_cfg e"
  "pe_cfg (step_tx_sn e) = pe_cfg e" "pe_cfg (step_rx_sn c e) = pe_cfg e" "pe_cfg (bump_rx_hfn c e) = pe_cfg e"
  by (simp_all add: activate_tx_def activate_rx_def enable_integrity_def enable_encryption_def step_tx_sn_def
      step_rx_sn_def bump_rx_hfn_def Let_def)

lemma write_sdu_state:
  "write_sdu lib rlc e sdu = Some (e', evs) \<Longrightarrow>
   (e' = e \<and> evs = []) \<or> (\<exists>c. e' = step_tx_sn (activate_tx c e))"
  unfolding write_sdu_def Let_def by (auto simp: Option.bind_eq_Some_conv split: if_splits)

lemma lte_ok_am:
  assumes ok: "lte_ok e" and sn: "sn \<le> sn_max (pe_cfg e)" and r: "am_receive e sn = Some (e', count)"
  shows "lte_ok (e'\<lparr>pl_st := (pl_st e')\<lparr>last_submitted_pdcp_rx_sn := sn\<rparr>\<rparr>)"
proof -
  have cfg: "cfg_ok (pe_cfg e)" using ok by (simp add: lte_ok_def)
  have last: "lte_ok (x\<lparr>pl_st := (pl_st x)\<lparr>last_submitted_pdcp_rx_sn := sn\<rparr>\<rparr>)"
    if "lte_ok x" "pe_cfg x = pe_cfg e" for x
    using that sn by (simp add: lte_ok_def is_srb_def)
  let ?w = "sint (pl_reordering_window e)"
  have jump: "lte_ok (e\<lparr>pl_st := (pl_st e)\<lparr>rx_hfn := rx_hfn (pl_st e) + 1, next_pdcp_rx_sn := sn + 1\<rparr>\<rparr>)"
    if d: "?w < sint (next_pdcp_rx_sn (pl_st e) - sn)"
  proof -
    have w: "0 \<le> ?w" using ok by (simp add: lte_ok_def)
    have n: "next_pdcp_rx_sn (pl_st e) \<le> sn_max (pe_cfg e)" using ok by (simp add: lte_ok_def)
    have "sint (next_pdcp_rx_sn (pl_st e) - sn) = int (unat (next_pdcp_rx_sn (pl_st e))) - int (unat sn)"
      by (intro sint_diff_small sn_small [OF cfg] n sn)
    then have "int (unat sn) < int (unat (next_pdcp_rx_sn (pl_st e)))" using d w by linarith
    then have "unat sn < unat (next_pdcp_rx_sn (pl_st e))" by (simp only: of_nat_less_iff)
    then have "sn + 1 \<le> next_pdcp_rx_sn (pl_st e)"
      by (simp add: word_le_nat_alt plus_one_le [OF cfg sn])
    then have "sn + 1 \<le> sn_max (pe_cfg e)" using n by simp
    then show ?thesis using ok by (simp add: lte_ok_def is_srb_def)
  qed
  have "lte_ok e' \<and> pe_cfg e' = pe_cfg e"
    using r jump ok lte_ok_step_rx [OF ok] unfolding am_receive_def Let_def by (auto split: if_splits)
  then show ?thesis using last by blast
qed

lemma handle_srb_state:
  "handle_srb_pdu lib e pdu = Some (e', evs) \<Longrightarrow> read_data_header e pdu = Some sn \<Longrightarrow>
   e' = e \<or> e' = step_rx_sn sn (bump_rx_hfn sn e)"
  unfolding handle_srb_pdu_def Let_def by (auto simp: Option.bind_eq_Some_conv split: if_splits)

lemma handle_um_state:
  "handle_um_drb_pdu lib e pdu = Some (e', evs) \<Longrightarrow> read_data_header e pdu = Some sn \<Longrightarrow>
   e' = step_rx_sn sn (bump_rx_hfn sn e)"
  unfolding handle_um_drb_pdu_def Let_def by (auto simp: Option.bind_eq_Some_conv split: if_splits)

lemma handle_am_state:
  "handle_am_drb_pdu lib e pdu = Some (e', evs) \<Longrightarrow> read_data_header e pdu = Some sn \<Longrightarrow>
   e' = e \<or> (\<exists>x c. am_receive e sn = Some (x, c) \<and> e' = x\<lparr>pl_st := (pl_st x)\<lparr>last_submitted_pdcp_rx_sn := sn\<rparr>\<rparr>)"
  unfolding handle_am_drb_pdu_def Let_def
  by (auto simp: Option.bind_eq_Some_conv split: option.splits if_splits)

lemma read_data_header_cong: "pe_cfg e' = pe_cfg e \<Longrightarrow> read_data_header e' pdu = read_data_header e pdu"
  by (simp add: read_data_header_def)

lemma am_receive_cfg: "am_receive e sn = Some (x, c) \<Longrightarrow> pe_cfg x = pe_cfg e"
  unfolding am_receive_def Let_def by (auto split: if_splits)

lemma write_pdu_state:
  assumes "write_pdu lib rlc e pdu = Some (e', evs)"
  obtains "e' = e"
  | sn where "read_data_header e pdu = Some sn" "e' = activate_rx sn e"
  | sn where "read_data_header e pdu = Some sn" "e' = step_rx_sn sn (bump_rx_hfn sn (activate_rx sn e))"
  | sn x c where "read_data_header e pdu = Some sn" "am_receive (activate_rx sn e) sn = Some (x, c)"
      "e' = x\<lparr>pl_st := (pl_st x)\<lparr>last_submitted_pdcp_rx_sn := sn\<rparr>\<rparr>"
proof (cases "e' = e")
  case False
  then obtain sn where sn: "read_data_header e pdu = Some sn" and h:
    "e' = activate_rx sn e \<or> handle_srb_pdu lib (activate_rx sn e) pdu = Some (e', evs) \<or>
     handle_um_drb_pdu lib (activate_rx sn e) pdu = Some (e', evs) \<or>
     handle_am_drb_pdu lib (activate_rx sn e) pdu = Some (e', evs)"
    using assms unfolding write_pdu_def Let_def by (auto simp: Option.bind_eq_Some_conv split: if_splits)
  have sn': "read_data_header (activate_rx sn e) pdu = Some sn" using sn by (simp cong: read_data_header_cong)
  from h consider "e' = activate_rx sn e" | "e' = step_rx_sn sn (bump_rx_hfn sn (activate_rx sn e))"
    | x c where "am_receive (activate_rx sn e) sn = Some (x, c)" "e' = x\<lparr>pl_st := (pl_st x)\<lparr>last_submitted_pdcp_rx_sn := sn\<rparr>\<rparr>"
    using handle_srb_state [OF _ sn'] handle_um_state [OF _ sn'] handle_am_state [OF _ sn'] by metis
  then show ?thesis using that sn by cases blast+
qed (use that in blast)

lemma lte_ok_write_pdu:
  assumes ok: "lte_ok e" and w: "write_pdu lib rlc e pdu = Some (e', evs)"
  shows "lte_ok e'"
proof -
  have le: "sn \<le> sn_max (pe_cfg e)" if "read_data_header e pdu = Some sn" for sn
    using that ok by (simp add: read_data_header_le lte_ok_def)
  note act = lte_ok_control(5) [OF ok]
  from w show ?thesis
    by (cases rule: write_pdu_state) (simp_all add: ok act lte_ok_step_rx lte_ok_bump le lte_ok_am [OF act])
qed

text \<open>Any history of an entity, with the calls of RRC, GW and RLC in any order.\<close>

inductive lte_run :: "ssl_lib \<Rightarrow> u32 \<Rightarrow> pdcp_config \<Rightarrow> pdcp_entity_lte \<Rightarrow> bool" for lib lcid cfg where
  start: "lte_run lib lcid cfg (pdcp_entity_lte_new lcid cfg)"
| sdu: "lte_run lib lcid cfg e \<Longrightarrow> write_sdu lib rlc e b = Some (e', evs) \<Longrightarrow> lte_run lib lcid cfg e'"
| pdu: "lte_run lib lcid cfg e \<Longrightarrow> write_pdu lib rlc e b = Some (e', evs) \<Longrightarrow> lte_run lib lcid cfg e'"
| integrity: "lte_run lib lcid cfg e \<Longrightarrow> lte_run lib lcid cfg (enable_integrity d e)"
| encryption: "lte_run lib lcid cfg e \<Longrightarrow> lte_run lib lcid cfg (enable_encryption d e)"
| timed: "lte_run lib lcid cfg e \<Longrightarrow> lte_run lib lcid cfg (enable_security_timed d n e)"
| security: "lte_run lib lcid cfg e \<Longrightarrow> sec_sizes sec \<Longrightarrow> lte_run lib lcid cfg (config_security sec e)"
| reestablish: "lte_run lib lcid cfg e \<Longrightarrow> lte_run lib lcid cfg (reestablish rlc e)"
| reset: "lte_run lib lcid cfg e \<Longrightarrow> lte_run lib lcid cfg (pdcp_reset e)"
| restore: "lte_run lib lcid cfg e \<Longrightarrow> lte_run lib lcid cfg e' \<Longrightarrow>
    lte_run lib lcid cfg (set_bearer_state (get_bearer_state e) e')"

lemma lte_run_cfg: "lte_run lib lcid cfg e \<Longrightarrow> pe_cfg e = cfg"
proof (induction rule: lte_run.induct)
  case (sdu e rlc b e' evs)
  then show ?case using write_sdu_state [OF sdu.hyps(2)] by auto
next
  case (pdu e rlc b e' evs)
  from pdu.hyps(2) show ?case
    by (cases rule: write_pdu_state) (auto simp: pdu.IH dest: am_receive_cfg)
qed (simp_all add: pdcp_entity_lte_new_def Let_def enable_integrity_def enable_encryption_def
    enable_security_timed_def config_security_def reestablish_def clear_counters_def pdcp_reset_def
    set_bearer_state_def split: srslte_direction.split)

section \<open>What is sent\<close>

text \<open>The octets of a data PDU, and the estimate of COUNT on reception from an SRB or in unacknowledged mode.\<close>

definition pdu_octets :: "ssl_lib \<Rightarrow> pdcp_entity_lte \<Rightarrow> bytes \<Rightarrow> bytes" where
  "pdu_octets lib e m =
    (let cfg = pe_cfg e;
         count = COUNT cfg (tx_hfn (pl_st e)) (next_pdcp_tx_sn (pl_st e));
         hdr = pdcp_header cfg count;
         dir = pc_tx_direction cfg;
         tag = (if is_drb e then [] else if dir_tx (pe_integrity_direction e) then mac_i lib e dir count (hdr @ m)
                else replicate 4 0)
     in hdr @ (if dir_tx (pe_encryption_direction e) then crypt lib e dir count (m @ tag) else m @ tag))"

text \<open>
  An SDU the buffer has room for. The bound doubles the length because of the check in \<open>append_mac\<close>; a DRB
  SDU must not be empty if it is ciphered.
\<close>

definition sdu_fits :: "pdcp_entity_lte \<Rightarrow> byte_buffer \<Rightarrow> bool" where
  "sdu_fits e sdu \<longleftrightarrow> bb_ok sdu \<and> hdr_len (pe_cfg e) \<le> bb_msg sdu \<and>
    bb_msg sdu + 2 * length (bb_data sdu) + hdr_len (pe_cfg e) + 4 \<le> MAX_BUFFER_SIZE_BYTES \<and>
    (is_drb e \<longrightarrow> bb_data sdu \<noteq> [])"

lemma not_srb: "is_srb e \<longleftrightarrow> \<not> is_drb e"
  by (cases "pc_rb_type (pe_cfg e)") (simp_all add: is_srb_def is_drb_def)

lemma write_sdu_octets:
  assumes lib: "lib_ok lib" and ok: "lte_ok e" and idle: "pe_enable_security_tx_sn e = - 1"
    and fits: "sdu_fits e sdu" and queue: "\<not> sdu_queue_is_full rlc (pe_lcid e)"
  obtains b where "write_sdu lib rlc e sdu = Some (step_tx_sn e, [Rlc_write_sdu (pe_lcid e) b])" "bb_ok b"
    "bb_data b = pdu_octets lib e (bb_data sdu)" "bb_msg b = bb_msg sdu - hdr_len (pe_cfg e)"
proof -
  define cfg where "cfg = pe_cfg e"
  define h where "h = hdr_len cfg"
  define count where "count = COUNT cfg (tx_hfn (pl_st e)) (next_pdcp_tx_sn (pl_st e))"
  define dir where "dir = pc_tx_direction cfg"
  define hdr where "hdr = pdcp_header cfg count"
  define m where "m = bb_data sdu"
  define tag where "tag = (if dir_tx (pe_integrity_direction e) then mac_i lib e dir count (hdr @ m) else replicate 4 0)"
  have cfg: "cfg_ok (pe_cfg e)" and sec: "sec_sizes (pe_sec_cfg e)" using ok by (simp_all add: lte_ok_def)
  have fit: "bb_ok sdu" "hdr_len (pe_cfg e) \<le> bb_msg sdu"
    "bb_msg sdu + 2 * length m + h + 4 \<le> MAX_BUFFER_SIZE_BYTES" "is_drb e \<Longrightarrow> m \<noteq> []"
    using fits by (simp_all add: sdu_fits_def m_def h_def cfg_def)
  obtain b1 where b1: "write_data_header e sdu count = Some b1" "bb_ok b1" "bb_msg b1 = bb_msg sdu - h"
    "unat (bb_N_bytes b1) = unat (bb_N_bytes sdu) + h" "bb_data b1 = hdr @ m"
    using write_data_header_spec [OF cfg fit(1,2), of count] by (auto simp: cfg_def h_def hdr_def m_def)
  have lh: "length hdr = h" using length_pdcp_header [OF cfg] by (simp add: hdr_def h_def cfg_def)
  have hp: "0 < h" "h \<le> 3" using hdr_len_pos [OF cfg] by (simp_all add: h_def cfg_def)
  have lm: "length m = unat (bb_N_bytes sdu)" using length_bb_data [OF fit(1)] by (simp add: m_def)
  have act: "activate_tx count e = e" using idle by (simp add: activate_tx_def)
  have tag: "(if dir_tx (pe_integrity_direction e) \<and> is_srb e
      then integrity_generate lib e (bb_mem b1 0) (bb_N_bytes b1) count (replicate 4 0)
      else Some (replicate 4 0)) = Some (if is_srb e then tag else replicate 4 0)"
  proof -
    have "run_eia lib e dir (bb_mem b1 0) (bb_N_bytes b1) count (replicate 4 0)
        = Some (mac_i lib e dir count (take (unat (bb_N_bytes b1)) (bb_mem b1 0)))"
      using b1 bb_okD(1) [OF b1(2)] fit hp lm by (intro run_eia_spec [OF lib]) auto
    then show ?thesis
      using b1(5) by (simp add: tag_def integrity_generate_def bb_data_def dir_def cfg_def)
  qed
  have l4: "length tag = 4" by (simp add: tag_def length_mac_i [OF lib])
  define body where "body = (if is_srb e then m @ tag else m)"
  obtain b2 where b2: "(if is_srb e then append_mac b1 (if is_srb e then tag else replicate 4 0) else Some b1) = Some b2"
    "bb_ok b2" "bb_msg b2 = bb_msg b1" "bb_data b2 = hdr @ body" "unat (bb_N_bytes b2) = h + length body"
  proof (cases "is_srb e")
    case True
    have "bb_msg b1 + 2 * length (bb_data b1) + 4 \<le> MAX_BUFFER_SIZE_BYTES"
      using fit b1 lh by (simp add: h_def cfg_def)
    from append_mac_spec [OF b1(2) this l4] obtain b' where "append_mac b1 tag = Some b'" "bb_ok b'"
      "bb_data b' = bb_data b1 @ tag" "bb_msg b' = bb_msg b1" "unat (bb_N_bytes b') = length (bb_data b1) + 4" .
    then show ?thesis using True b1 lh l4 by (intro that [of b']) (simp_all add: body_def)
  next
    case False
    show ?thesis by (rule that [of b1]) (use False b1 lm in \<open>simp_all add: body_def\<close>)
  qed
  have hl: "h < length (bb_data b2)" "length (bb_data b2) \<le> 9000"
    using b2(4) lh hp fit l4 by (auto simp: body_def not_srb)
  have n: "unat (bb_N_bytes b2 - ucast (pc_hdr_len_bytes cfg)) = length (bb_data b2) - h"
    using b2 lh by (simp add: unat_sub word_le_nat_alt hdr_len_u32 flip: h_def)
  obtain b3 where b3: "(if dir_tx (pe_encryption_direction e)
       then map_option (bb_set_mem b2 h) (cipher_encrypt lib e (bb_mem b2 h)
         (bb_N_bytes b2 - ucast (pc_hdr_len_bytes cfg)) count (bb_mem b2 h))
       else Some b2) = Some b3" "bb_ok b3" "bb_msg b3 = bb_msg b2"
     "bb_data b3 = hdr @ (if dir_tx (pe_encryption_direction e) then crypt lib e dir count body else body)"
  proof (cases "dir_tx (pe_encryption_direction e)")
    case True
    from crypt_payload [OF lib sec b2(2) hl n, of dir count] obtain b' where
      "map_option (bb_set_mem b2 h) (run_eea lib e dir (bb_mem b2 h) (bb_N_bytes b2 - ucast (pc_hdr_len_bytes cfg)) count
         (bb_mem b2 h)) = Some b'" "bb_ok b'" "bb_msg b' = bb_msg b2"
      "bb_data b' = take h (bb_data b2) @ crypt lib e dir count (drop h (bb_data b2))" by metis
    then show ?thesis using that [of b'] True b2(4) lh by (simp add: cipher_encrypt_def dir_def cfg_def)
  next
    case False
    then show ?thesis using that [of b2] b2 by simp
  qed
  have h: "unat (pc_hdr_len_bytes cfg) = h" by (simp add: h_def hdr_len_def)
  have w: "write_sdu lib rlc e sdu = Some (step_tx_sn e, [Rlc_write_sdu (pe_lcid e) b3])"
    unfolding write_sdu_def Let_def if_not_P [OF queue] cfg_def [symmetric] count_def [symmetric] act b1(1)
      bind.bind_lunit tag b2(1) h b3(1) ..
  have d: "bb_data b3 = pdu_octets lib e (bb_data sdu)"
    unfolding b3(4) pdu_octets_def Let_def
    by (simp add: body_def tag_def hdr_def not_srb m_def dir_def flip: cfg_def count_def)
  show ?thesis by (rule that [OF w b3(2) d]) (simp add: b3 b2 b1 h_def cfg_def)
qed

section \<open>What is accepted\<close>

definition srb_count :: "pdcp_entity_lte \<Rightarrow> u32 \<Rightarrow> u32" where
  "srb_count e sn =
    COUNT (pe_cfg e) (if sn < next_pdcp_rx_sn (pl_st e) then rx_hfn (pl_st e) + 1 else rx_hfn (pl_st e)) sn"

definition deciphered :: "ssl_lib \<Rightarrow> pdcp_entity_lte \<Rightarrow> u32 \<Rightarrow> bytes \<Rightarrow> bytes" where
  "deciphered lib e count m =
    (if dir_rx (pe_encryption_direction e) then crypt lib e (pc_rx_direction (pe_cfg e)) count m else m)"

text \<open>The PDU, deciphered behind its header, ends in the MAC-I of what precedes it, where that is checked.\<close>

definition srb_authentic :: "ssl_lib \<Rightarrow> pdcp_entity_lte \<Rightarrow> u32 \<Rightarrow> bytes \<Rightarrow> bool" where
  "srb_authentic lib e count plain \<longleftrightarrow>
    \<not> dir_rx (pe_integrity_direction e) \<or> sec_integ_algo (pe_sec_cfg e) = EIA0 \<or>
    drop (length plain - 4) plain =
      mac_i lib e (pc_rx_direction (pe_cfg e)) count (take (length plain - 4) plain)"

lemma cipher_decrypt_spec:
  assumes lib: "lib_ok lib" and sec: "sec_sizes (pe_sec_cfg e)" and ok: "bb_ok b"
    and len: "h < length (bb_data b)" "length (bb_data b) \<le> 9000" and n: "unat n = length (bb_data b) - h"
  obtains b' where
    "(if dir_rx (pe_encryption_direction e)
      then map_option (bb_set_mem b h) (cipher_decrypt lib e (bb_mem b h) n count (bb_mem b h))
      else Some b) = Some b'" "bb_ok b'" "bb_msg b' = bb_msg b" "bb_N_bytes b' = bb_N_bytes b"
    "bb_data b' = take h (bb_data b) @ deciphered lib e count (drop h (bb_data b))"
  by (cases "dir_rx (pe_encryption_direction e)")
    (use crypt_payload [OF lib sec ok len n, of "pc_rx_direction (pe_cfg e)" count] that [of b] that ok
     in \<open>auto simp: deciphered_def cipher_decrypt_def\<close>)

lemma COUNT_if: "COUNT cfg (if b then x else y) sn = (if b then COUNT cfg x sn else COUNT cfg y sn)"
  by simp

lemma handle_srb_pdu_count:
  "handle_srb_pdu lib e pdu =
    Option.bind (read_data_header e pdu) (\<lambda>sn.
    Option.bind (if dir_rx (pe_encryption_direction e)
                 then map_option (bb_set_mem pdu (hdr_len (pe_cfg e)))
                   (cipher_decrypt lib e (bb_mem pdu (hdr_len (pe_cfg e)))
                     (bb_N_bytes pdu - ucast (pc_hdr_len_bytes (pe_cfg e))) (srb_count e sn)
                     (bb_mem pdu (hdr_len (pe_cfg e))))
                 else Some pdu) (\<lambda>pdu.
    Option.bind (extract_mac pdu None) (\<lambda>(pdu, mac).
    Option.bind (if dir_rx (pe_integrity_direction e)
                 then integrity_verify lib e (bb_mem pdu 0) (bb_N_bytes pdu) (srb_count e sn) mac
                 else Some True) (\<lambda>valid.
      Some (if \<not> valid then (e, [])
            else (step_rx_sn sn (bump_rx_hfn sn e), [Rrc_write_pdu (pe_lcid e) (discard_data_header e pdu)]))))))"
  by (simp only: handle_srb_pdu_def Let_def srb_count_def hdr_len_def COUNT_if if_distrib [of Some])

lemma handle_srb_pdu_spec:
  assumes lib: "lib_ok lib" and e: "lte_ok e" and ok: "bb_ok pdu"
    and len: "hdr_len (pe_cfg e) + 4 \<le> length (bb_data pdu)" "length (bb_data pdu) \<le> 9000"
    and sn: "read_data_header e pdu = Some sn"
  defines "plain \<equiv> take (hdr_len (pe_cfg e)) (bb_data pdu) @
      deciphered lib e (srb_count e sn) (drop (hdr_len (pe_cfg e)) (bb_data pdu))"
  obtains b where "handle_srb_pdu lib e pdu =
      Some (if srb_authentic lib e (srb_count e sn) plain
            then (step_rx_sn sn (bump_rx_hfn sn e), [Rrc_write_pdu (pe_lcid e) b]) else (e, []))" "bb_ok b"
    "bb_data b = drop (hdr_len (pe_cfg e)) (take (length plain - 4) plain)"
proof -
  define h where "h = hdr_len (pe_cfg e)"
  define count where "count = srb_count e sn"
  have cfg: "cfg_ok (pe_cfg e)" and sec: "sec_sizes (pe_sec_cfg e)" using e by (simp_all add: lte_ok_def)
  have hp: "0 < h" using hdr_len_pos [OF cfg] by (simp add: h_def)
  have l: "length (bb_data pdu) = unat (bb_N_bytes pdu)" using length_bb_data [OF ok] .
  have n: "unat (bb_N_bytes pdu - ucast (pc_hdr_len_bytes (pe_cfg e))) = length (bb_data pdu) - h"
    using len l by (simp add: unat_sub word_le_nat_alt hdr_len_u32 h_def)
  have hl: "h < length (bb_data pdu)" using len by (simp add: h_def)
  obtain b1 where b1: "(if dir_rx (pe_encryption_direction e)
      then map_option (bb_set_mem pdu h) (cipher_decrypt lib e (bb_mem pdu h)
        (bb_N_bytes pdu - ucast (pc_hdr_len_bytes (pe_cfg e))) count (bb_mem pdu h))
      else Some pdu) = Some b1" "bb_ok b1" "bb_data b1 = plain"
    using cipher_decrypt_spec [OF lib sec ok hl len(2) n, of count] by (auto simp: plain_def h_def count_def)
  have lp: "length plain = length (bb_data pdu)"
    using len lib by (simp add: plain_def deciphered_def)
  have "4 \<le> length (bb_data b1)" using len lp b1(3) by simp
  from extract_mac_spec [OF b1(2) this, of None] obtain b2 where
    b2: "extract_mac b1 None = Some (b2, Some (drop (length plain - 4) plain))" "bb_ok b2"
      "bb_data b2 = take (length plain - 4) plain" "unat (bb_N_bytes b2) = length plain - 4"
    by (auto simp: b1(3))
  have t: "take (unat (bb_N_bytes b2)) (bb_mem b2 0) = take (length plain - 4) plain"
    using b2(3) by (simp add: bb_data_def)
  have m4: "length (drop (length plain - 4) plain) = 4" using len lp by simp
  have L: "0 < unat (bb_N_bytes b2)" "unat (bb_N_bytes b2) < 2^23" using b2(4) len lp hp by (auto simp: h_def)
  have v: "(if dir_rx (pe_integrity_direction e)
      then integrity_verify lib e (bb_mem b2 0) (bb_N_bytes b2) count (Some (drop (length plain - 4) plain))
      else Some True) = Some (srb_authentic lib e count plain)"
    unfolding integrity_verify_spec [OF lib L bb_okD(1) [OF b2(2)] m4] t srb_authentic_def by auto
  have l2: "hdr_len (pe_cfg e) \<le> length (bb_data b2)" using len lp b2(3) by simp
  have eq: "handle_srb_pdu lib e pdu = Some (if srb_authentic lib e count plain
      then (step_rx_sn sn (bump_rx_hfn sn e), [Rrc_write_pdu (pe_lcid e) (discard_data_header e b2)]) else (e, []))"
    unfolding handle_srb_pdu_count sn bind.bind_lunit b1(1) [unfolded h_def count_def] count_def b2(1) prod.case
      v [unfolded count_def] by simp
  show ?thesis
    using that [of "discard_data_header e b2"] eq discard_data_header_spec [OF cfg b2(2) l2]
    by (simp add: b2(3) count_def)
qed

end
