(* ===== verification/Pdcp_Link.thy ===== *)
theory Pdcp_Link
  imports Pdcp_Lte
begin

text \<open>
  Two LTE PDCP entities that face each other: what one sends the other delivers, a forged or short PDU is dropped
  or not, and the COUNT of the sender never repeats. The lemmas follow one SDU through header, MAC-I, ciphering and
  their inverses; the properties are at the end, with sample entities for their witnesses.
\<close>

section \<open>Two entities in step\<close>

text \<open>
  \<open>in_step rlc e r\<close>: \<open>r\<close> is configured to receive what \<open>e\<close> sends, and expects the COUNT that \<open>e\<close> uses next.
  A bearer in acknowledged mode has 12-bit numbers and, if ciphering is not on, the null algorithm, because the
  receiver applies the algorithm in any case.
\<close>

definition same_link :: "pdcp_entity_lte \<Rightarrow> pdcp_entity_lte \<Rightarrow> bool" where
  "same_link e r \<longleftrightarrow>
    pc_rb_type (pe_cfg r) = pc_rb_type (pe_cfg e) \<and> pc_sn_len (pe_cfg r) = pc_sn_len (pe_cfg e) \<and>
    pc_bearer_id (pe_cfg r) = pc_bearer_id (pe_cfg e) \<and> pc_rx_direction (pe_cfg r) = pc_tx_direction (pe_cfg e) \<and>
    pe_sec_cfg r = pe_sec_cfg e \<and>
    dir_rx (pe_integrity_direction r) = dir_tx (pe_integrity_direction e) \<and>
    dir_rx (pe_encryption_direction r) = dir_tx (pe_encryption_direction e)"

definition previous_sn :: "pdcp_config \<Rightarrow> u32 \<Rightarrow> u32" where
  "previous_sn cfg sn = (if sn = 0 then sn_max cfg else sn - 1)"

definition am_bearer :: "rlc_interface \<Rightarrow> pdcp_entity_lte \<Rightarrow> bool" where
  "am_bearer rlc r \<longleftrightarrow> is_drb r \<and> \<not> rb_is_um rlc (pe_lcid r)"

definition in_step :: "rlc_interface \<Rightarrow> pdcp_entity_lte \<Rightarrow> pdcp_entity_lte \<Rightarrow> bool" where
  "in_step rlc e r \<longleftrightarrow> lte_ok e \<and> lte_ok r \<and> same_link e r \<and>
    pe_enable_security_tx_sn e = - 1 \<and> pe_enable_security_rx_sn r = - 1 \<and>
    next_pdcp_rx_sn (pl_st r) = next_pdcp_tx_sn (pl_st e) \<and> rx_hfn (pl_st r) = tx_hfn (pl_st e) \<and>
    (is_drb e \<longrightarrow> pc_sn_len (pe_cfg e) \<noteq> PDCP_SN_LEN_5) \<and>
    (am_bearer rlc r \<longrightarrow> pc_sn_len (pe_cfg r) = PDCP_SN_LEN_12 \<and>
       last_submitted_pdcp_rx_sn (pl_st r) = previous_sn (pe_cfg r) (next_pdcp_rx_sn (pl_st r)) \<and>
       (dir_tx (pe_encryption_direction e) \<or> sec_cipher_algo (pe_sec_cfg e) = EEA0))"

definition upper_event :: "pdcp_entity_lte \<Rightarrow> byte_buffer \<Rightarrow> pdcp_event" where
  "upper_event r b = (if is_srb r then Rrc_write_pdu (pe_lcid r) b else Gw_write_pdu (pe_lcid r) b)"

lemma same_link_functions:
  assumes "same_link e r" "cfg_ok (pe_cfg e)" "cfg_ok (pe_cfg r)"
  shows "mac_i lib r d count m = mac_i lib e d count m" "crypt lib r d count m = crypt lib e d count m"
    "pdcp_header (pe_cfg r) count = pdcp_header (pe_cfg e) count" "hdr_len (pe_cfg r) = hdr_len (pe_cfg e)"
    "COUNT (pe_cfg r) = COUNT (pe_cfg e)" "SN (pe_cfg r) = SN (pe_cfg e)" "sn_max (pe_cfg r) = sn_max (pe_cfg e)"
    "is_srb r = is_srb e" "is_drb r = is_drb e"
proof -
  have eq: "pe_sec_cfg r = pe_sec_cfg e" "pc_rb_type (pe_cfg r) = pc_rb_type (pe_cfg e)"
    "pc_bearer_id (pe_cfg r) = pc_bearer_id (pe_cfg e)" "pc_sn_len (pe_cfg r) = pc_sn_len (pe_cfg e)"
    using assms(1) by (simp_all add: same_link_def)
  show "mac_i lib r d count m = mac_i lib e d count m" "crypt lib r d count m = crypt lib e d count m"
    by (simp_all only: security_functions_cong [OF eq(1-3)])
  show "pdcp_header (pe_cfg r) count = pdcp_header (pe_cfg e) count" "hdr_len (pe_cfg r) = hdr_len (pe_cfg e)"
    "COUNT (pe_cfg r) = COUNT (pe_cfg e)" "SN (pe_cfg r) = SN (pe_cfg e)"
    by (simp_all only: header_functions_cong [OF eq(4,2) assms(2,3)])
  show "sn_max (pe_cfg r) = sn_max (pe_cfg e)" "is_srb r = is_srb e" "is_drb r = is_drb e"
    by (simp_all add: sn_max_def is_srb_def is_drb_def eq)
qed

lemma crypt_EEA0: "sec_cipher_algo (pe_sec_cfg e) = EEA0 \<Longrightarrow> crypt lib e d count m = m"
  by (simp add: crypt_def key_stream_def Let_def xor_zeros)

lemma previous_sn_step:
  assumes "cfg_ok cfg" "sn \<le> sn_max cfg"
  shows "previous_sn cfg (if sn_max cfg < sn + 1 then 0 else sn + 1) = sn"
proof (cases "sn_max cfg < sn + 1")
  case True
  then have "sn = sn_max cfg"
    using assms plus_one_le [OF assms] by (simp add: word_less_nat_alt word_le_nat_alt word_unat_eq_iff)
  then show ?thesis using True by (simp add: previous_sn_def)
next
  case False
  have "sn + 1 \<noteq> 0" using plus_one_le [OF assms] by (metis add_is_0 one_neq_zero unat_0)
  then show ?thesis using False by (simp add: previous_sn_def)
qed

text \<open>In step, the estimate of COUNT is the COUNT used.\<close>

lemma am_receive_in_step:
  assumes ok: "lte_ok r" and srb: "is_drb r" and sn_len: "pc_sn_len (pe_cfg r) = PDCP_SN_LEN_12"
    and last: "last_submitted_pdcp_rx_sn (pl_st r) = previous_sn (pe_cfg r) sn" and sn: "next_pdcp_rx_sn (pl_st r) = sn"
  shows "am_receive r sn = Some (step_rx_sn sn r, COUNT (pe_cfg r) (rx_hfn (pl_st r)) sn)"
proof -
  have cfg: "cfg_ok (pe_cfg r)" and le: "sn \<le> sn_max (pe_cfg r)" and w: "pl_reordering_window r = 2048"
    using ok sn srb by (auto simp: lte_ok_def not_srb)
  have m: "sn_max (pe_cfg r) = 4095" using sn_len by (simp add: sn_max_def PDCP_SN_LEN_12_def mask_eq_exp_minus_1)
  have small: "unat sn \<le> 262143" using sn_small [OF cfg le] .
  have p: "unat (previous_sn (pe_cfg r) sn) = (if sn = 0 then 4095 else unat sn - 1)"
    by (simp add: previous_sn_def m unat_minus_one)
  then have p': "unat (previous_sn (pe_cfg r) sn) \<le> 262143" using small by auto
  have pos: "0 < unat sn" if "sn \<noteq> 0" using that by (simp add: unat_gt_0)
  have d: "sint (previous_sn (pe_cfg r) sn - sn) = (if sn = 0 then 4095 else - 1)"
    "sint (sn - previous_sn (pe_cfg r) sn) = (if sn = 0 then - 4095 else 1)"
    unfolding sint_diff_small [OF small p'] sint_diff_small [OF p' small] p
    using pos by (auto simp del: of_nat_unat simp: of_nat_diff)
  show ?thesis
    unfolding am_receive_def Let_def last sn d w by (simp add: COUNT_def)
qed

lemma step_functions:
  "pl_st (step_rx_sn sn r) = (if pl_maximum_pdcp_sn r < sn + 1
     then (pl_st r)\<lparr>next_pdcp_rx_sn := 0, rx_hfn := rx_hfn (pl_st r) + 1\<rparr> else (pl_st r)\<lparr>next_pdcp_rx_sn := sn + 1\<rparr>)"
  "pl_st (step_tx_sn e) = (if pl_maximum_pdcp_sn e < next_pdcp_tx_sn (pl_st e) + 1
     then (pl_st e)\<lparr>tx_hfn := tx_hfn (pl_st e) + 1, next_pdcp_tx_sn := 0\<rparr>
     else (pl_st e)\<lparr>next_pdcp_tx_sn := next_pdcp_tx_sn (pl_st e) + 1\<rparr>)"
  by (simp_all add: step_rx_sn_def step_tx_sn_def Let_def)

lemma step_base [simp]:
  "pe_sec_cfg (step_rx_sn sn r) = pe_sec_cfg r" "pe_sec_cfg (step_tx_sn e) = pe_sec_cfg e"
  "pe_integrity_direction (step_rx_sn sn r) = pe_integrity_direction r"
  "pe_integrity_direction (step_tx_sn e) = pe_integrity_direction e"
  "pe_encryption_direction (step_rx_sn sn r) = pe_encryption_direction r"
  "pe_encryption_direction (step_tx_sn e) = pe_encryption_direction e"
  "pe_enable_security_rx_sn (step_rx_sn sn r) = pe_enable_security_rx_sn r"
  "pe_enable_security_tx_sn (step_tx_sn e) = pe_enable_security_tx_sn e"
  "pe_lcid (step_rx_sn sn r) = pe_lcid r" "pe_lcid (step_tx_sn e) = pe_lcid e"
  by (simp_all add: step_rx_sn_def step_tx_sn_def Let_def)

lemma crypt_step: "crypt lib (step_rx_sn sn r) d count m = crypt lib r d count m"
  by (subst security_functions_cong(2)) simp_all

lemma in_step_next:
  assumes s: "in_step rlc e r" and sn: "sn = next_pdcp_tx_sn (pl_st e)"
  shows "in_step rlc (step_tx_sn e) ((step_rx_sn sn r)\<lparr>pl_st := (pl_st (step_rx_sn sn r))\<lparr>last_submitted_pdcp_rx_sn :=
      if am_bearer rlc r then sn else last_submitted_pdcp_rx_sn (pl_st r)\<rparr>\<rparr>)"
proof -
  let ?r = "(step_rx_sn sn r)\<lparr>pl_st := (pl_st (step_rx_sn sn r))\<lparr>last_submitted_pdcp_rx_sn :=
      if am_bearer rlc r then sn else last_submitted_pdcp_rx_sn (pl_st r)\<rparr>\<rparr>"
  have ok: "lte_ok e" "lte_ok r" and link: "same_link e r" using s by (simp_all add: in_step_def)
  have cfg: "cfg_ok (pe_cfg r)" "cfg_ok (pe_cfg e)" using ok by (simp_all add: lte_ok_def)
  have max: "pl_maximum_pdcp_sn r = sn_max (pe_cfg r)" "pl_maximum_pdcp_sn e = sn_max (pe_cfg r)"
    using ok same_link_functions(7) [OF link cfg(2,1)] by (simp_all add: lte_ok_def)
  have le: "sn \<le> sn_max (pe_cfg r)" using ok s sn by (simp add: in_step_def lte_ok_def)
  have l: "lte_ok ?r"
    using lte_ok_step_rx [OF ok(2), of sn] le ok(2) by (auto simp: lte_ok_def is_srb_def)
  have link': "same_link (step_tx_sn e) ?r" using link by (simp add: same_link_def)
  have am: "am_bearer rlc ?r \<longleftrightarrow> am_bearer rlc r" by (simp add: am_bearer_def is_drb_def)
  have prev: "previous_sn (pe_cfg r) (next_pdcp_rx_sn (pl_st (step_rx_sn sn r))) = sn"
    using previous_sn_step [OF cfg(1) le] by (simp add: step_functions max if_distrib cong: if_cong)
  have c: "next_pdcp_rx_sn (pl_st (step_rx_sn sn r)) = next_pdcp_tx_sn (pl_st (step_tx_sn e))"
    "rx_hfn (pl_st (step_rx_sn sn r)) = tx_hfn (pl_st (step_tx_sn e))"
    using s by (simp_all add: step_functions max sn in_step_def)
  have drb: "is_drb (step_tx_sn e) \<longleftrightarrow> is_drb e" by (simp add: is_drb_def)
  show ?thesis
    using s l link' lte_ok_step_tx [OF ok(1)] c prev unfolding in_step_def am drb by simp
qed

text \<open>The bearer receives a PDU of the octets the peer sent.\<close>

lemma receive_srb:
  assumes lib: "lib_ok lib" and s: "in_step rlc e r" and srb: "is_srb r" and ok: "bb_ok pdu"
    and data: "bb_data pdu = pdu_octets lib e m" and len: "length (bb_data pdu) \<le> 9000"
    and sn: "read_data_header r pdu = Some (next_pdcp_tx_sn (pl_st e))"
  obtains b where "handle_srb_pdu lib r pdu = Some (step_rx_sn (next_pdcp_tx_sn (pl_st e)) r,
      [Rrc_write_pdu (pe_lcid r) b])" "bb_ok b" "bb_data b = m"
proof -
  define sn where "sn = next_pdcp_tx_sn (pl_st e)"
  define count where "count = COUNT (pe_cfg e) (tx_hfn (pl_st e)) sn"
  define hdr where "hdr = pdcp_header (pe_cfg e) count"
  define dir where "dir = pc_tx_direction (pe_cfg e)"
  define tag where "tag = (if dir_tx (pe_integrity_direction e) then mac_i lib e dir count (hdr @ m) else replicate 4 0)"
  have oks: "lte_ok e" "lte_ok r" and link: "same_link e r" using s by (simp_all add: in_step_def)
  have cfg: "cfg_ok (pe_cfg e)" "cfg_ok (pe_cfg r)" using oks by (simp_all add: lte_ok_def)
  note same = same_link_functions [OF link cfg]
  have d: "pc_rx_direction (pe_cfg r) = dir" "dir_rx (pe_integrity_direction r) = dir_tx (pe_integrity_direction e)"
    "dir_rx (pe_encryption_direction r) = dir_tx (pe_encryption_direction e)" "pe_sec_cfg r = pe_sec_cfg e"
    using link by (simp_all add: same_link_def dir_def)
  have l4: "length tag = 4" by (simp add: tag_def length_mac_i [OF lib])
  have lh: "length hdr = hdr_len (pe_cfg r)" using length_pdcp_header [OF cfg(1)] same(4) by (simp add: hdr_def)
  have drb: "\<not> is_drb e" using srb same(9) by (simp add: not_srb)
  have octets: "bb_data pdu = hdr @ (if dir_tx (pe_encryption_direction e) then crypt lib e dir count (m @ tag) else m @ tag)"
    unfolding data pdu_octets_def Let_def using drb
    by (simp add: hdr_def count_def sn_def dir_def tag_def)
  have c: "srb_count r sn = count"
    using s same(5) by (simp add: srb_count_def count_def sn_def in_step_def)
  have plain: "take (hdr_len (pe_cfg r)) (bb_data pdu) @ deciphered lib r count (drop (hdr_len (pe_cfg r)) (bb_data pdu))
      = hdr @ m @ tag"
    by (simp add: octets deciphered_def d same(2) crypt_crypt [OF lib] flip: lh)
  have long: "hdr_len (pe_cfg r) + 4 \<le> length (bb_data pdu)" using octets lh l4 lib by simp
  have auth: "srb_authentic lib r count (hdr @ m @ tag)"
    using l4 by (simp add: srb_authentic_def d same(1) tag_def)
  obtain b where b: "handle_srb_pdu lib r pdu = Some (step_rx_sn sn (bump_rx_hfn sn r), [Rrc_write_pdu (pe_lcid r) b])"
    "bb_ok b" "bb_data b = drop (hdr_len (pe_cfg r)) (take (length (hdr @ m @ tag) - 4) (hdr @ m @ tag))"
    by (rule handle_srb_pdu_spec [OF lib oks(2) ok long len sn [folded sn_def], unfolded c plain if_P [OF auth]])
  have "bump_rx_hfn sn r = r" using s by (simp add: bump_rx_hfn_def in_step_def sn_def)
  then show ?thesis using that b l4 lh by (simp add: sn_def)
qed

lemma receive_drb:
  assumes lib: "lib_ok lib" and s: "in_step rlc e r" and drb: "is_drb r" and ok: "bb_ok pdu"
    and data: "bb_data pdu = pdu_octets lib e m" and len: "length (bb_data pdu) \<le> 9000" and m: "m \<noteq> []"
    and sn: "read_data_header r pdu = Some (next_pdcp_tx_sn (pl_st e))"
  obtains b where "(if rb_is_um rlc (pe_lcid r) then handle_um_drb_pdu lib r pdu else handle_am_drb_pdu lib r pdu)
      = Some ((step_rx_sn (next_pdcp_tx_sn (pl_st e)) r)\<lparr>pl_st := (pl_st (step_rx_sn (next_pdcp_tx_sn (pl_st e)) r))
          \<lparr>last_submitted_pdcp_rx_sn := if am_bearer rlc r then next_pdcp_tx_sn (pl_st e)
             else last_submitted_pdcp_rx_sn (pl_st r)\<rparr>\<rparr>, [Gw_write_pdu (pe_lcid r) b])" "bb_ok b" "bb_data b = m"
proof -
  define sn where "sn = next_pdcp_tx_sn (pl_st e)"
  define count where "count = COUNT (pe_cfg e) (tx_hfn (pl_st e)) sn"
  define dir where "dir = pc_tx_direction (pe_cfg e)"
  define enc where "enc = dir_tx (pe_encryption_direction e)"
  define b1 where "b1 = discard_data_header r pdu"
  have oks: "lte_ok e" "lte_ok r" and link: "same_link e r" using s by (simp_all add: in_step_def)
  have cfg: "cfg_ok (pe_cfg e)" "cfg_ok (pe_cfg r)" and sec: "sec_sizes (pe_sec_cfg r)"
    using oks by (simp_all add: lte_ok_def)
  note same = same_link_functions [OF link cfg]
  have d: "pc_rx_direction (pe_cfg r) = dir" "dir_rx (pe_encryption_direction r) = enc" "pe_sec_cfg r = pe_sec_cfg e"
    using link by (simp_all add: same_link_def dir_def enc_def)
  have octets: "bb_data pdu = pdcp_header (pe_cfg e) count @ (if enc then crypt lib e dir count m else m)"
    unfolding data pdu_octets_def Let_def using drb same(9) by (simp add: count_def sn_def dir_def enc_def)
  have lh: "length (pdcp_header (pe_cfg e) count) = hdr_len (pe_cfg r)"
    using length_pdcp_header [OF cfg(1)] same(4) by simp
  have hl: "hdr_len (pe_cfg r) \<le> length (bb_data pdu)" using octets lh by simp
  have b1: "bb_ok b1" "bb_data b1 = (if enc then crypt lib e dir count m else m)"
    using discard_data_header_spec [OF cfg(2) ok hl] octets lh by (simp_all add: b1_def)
  have lm: "length (bb_data b1) = length m" using b1 lib by simp
  have l: "0 < length (bb_data b1)" "length (bb_data b1) \<le> 9000" "unat (bb_N_bytes b1) = length (bb_data b1) - 0"
    using lm m len octets length_bb_data [OF b1(1)]
    by (simp_all add: lib b1(2) flip: length_greater_0_conv split: if_splits)
  have sn': "read_data_header r pdu = Some sn" using sn by (simp add: sn_def)
  have st: "next_pdcp_rx_sn (pl_st r) = sn" "rx_hfn (pl_st r) = tx_hfn (pl_st e)" using s by (simp_all add: in_step_def sn_def)
  have bump: "bump_rx_hfn sn r = r" by (simp add: bump_rx_hfn_def st)
  have count': "COUNT (pe_cfg r) (rx_hfn (pl_st r)) sn = count" using same(5) st(2) by (simp add: count_def)
  show ?thesis
  proof (cases "rb_is_um rlc (pe_lcid r)")
    case True
    then have am: "\<not> am_bearer rlc r" by (simp add: am_bearer_def)
    obtain b where b: "(if dir_rx (pe_encryption_direction r)
         then map_option (bb_set_mem b1 0) (cipher_decrypt lib r (bb_mem b1 0) (bb_N_bytes b1) count (bb_mem b1 0))
         else Some b1) = Some b" "bb_ok b" "bb_data b = take 0 (bb_data b1) @ deciphered lib r count (drop 0 (bb_data b1))"
      by (rule cipher_decrypt_spec [OF lib sec b1(1) l]) 
    have "bb_data b = m"
      using b(3) by (simp add: deciphered_def d same(2) b1(2) crypt_crypt [OF lib])
    moreover have "handle_um_drb_pdu lib r pdu = Some (step_rx_sn sn r, [Gw_write_pdu (pe_lcid r) b])"
      unfolding handle_um_drb_pdu_def Let_def sn' bind.bind_lunit bump b1_def [symmetric]
        count' [unfolded COUNT_def] b(1) ..
    ultimately show ?thesis
      using that b(2) True am by (simp add: step_functions flip: sn_def)
  next
    case False
    then have am: "am_bearer rlc r" using drb by (simp add: am_bearer_def)
    then have "pc_sn_len (pe_cfg r) = PDCP_SN_LEN_12" "last_submitted_pdcp_rx_sn (pl_st r) = previous_sn (pe_cfg r) sn"
      and null: "enc \<or> sec_cipher_algo (pe_sec_cfg e) = EEA0"
      using s st by (simp_all add: in_step_def enc_def)
    from am_receive_in_step [OF oks(2) drb this(1,2) st(1)]
    have rcv: "am_receive r sn = Some (step_rx_sn sn r, count)" by (simp add: count')
    have sec': "sec_sizes (pe_sec_cfg (step_rx_sn sn r))" using sec by simp
    obtain b where b: "map_option (bb_set_mem b1 0) (run_eea lib (step_rx_sn sn r) dir (bb_mem b1 0) (bb_N_bytes b1) count
        (bb_mem b1 0)) = Some b" "bb_ok b"
      "bb_data b = take 0 (bb_data b1) @ crypt lib (step_rx_sn sn r) dir count (drop 0 (bb_data b1))"
      by (rule crypt_payload [OF lib sec' b1(1) l])
    have cr: "crypt lib (step_rx_sn sn r) dir count x = crypt lib e dir count x" for x
      using same(2) by (simp add: crypt_step)
    have "bb_data b = m"
      using b(3) null by (auto simp: cr b1(2) crypt_crypt [OF lib] crypt_EEA0)
    moreover have "handle_am_drb_pdu lib r pdu = Some ((step_rx_sn sn r)\<lparr>pl_st := (pl_st (step_rx_sn sn r))
        \<lparr>last_submitted_pdcp_rx_sn := sn\<rparr>\<rparr>, [Gw_write_pdu (pe_lcid r) b])"
      unfolding handle_am_drb_pdu_def Let_def sn' bind.bind_lunit rcv option.case prod.case b1_def [symmetric]
        cipher_decrypt_def pe_cfg_steps d(1) b(1) by simp
    ultimately show ?thesis
      using that b(2) False am by (simp flip: sn_def)
  qed
qed

lemma header_not_control:
  assumes cfg: "cfg_ok (pe_cfg e)" and drb: "is_drb e" "pc_sn_len (pe_cfg e) \<noteq> PDCP_SN_LEN_5"
    and ok: "bb_ok pdu" and data: "bb_data pdu = pdcp_header (pe_cfg e) count @ rest"
  shows "is_control_pdu pdu = Some False"
proof -
  have "\<exists>y. pdcp_header (pe_cfg e) count ! 0 = y OR 0x80"
    using cfg drb
    by (cases rule: cfg_ok_cases) (auto simp: pdcp_header_def Let_def sn_len_defs d_flag_def is_drb_def
        length_uint16_to_uint8 length_uint24_to_uint8)
  then obtain y where y: "pdcp_header (pe_cfg e) count ! 0 = y OR 0x80" by blast
  have l: "0 < length (pdcp_header (pe_cfg e) count)" using hdr_len_pos [OF cfg] length_pdcp_header [OF cfg] by simp
  then have "0 < length (bb_data pdu)" by (simp add: data)
  then have "0 < unat (bb_N_bytes pdu)" unfolding length_bb_data [OF ok] .
  from bb_get_data [OF ok this] have "bb_get pdu 0 = Some (y OR 0x80)"
    using l y by (simp add: data nth_append)
  moreover have "bit (drop_bit 7 (y OR 0x80 :: u8) AND 1) 0" by (simp add: bit_simps bit_0x80 del: bit_0)
  then have "drop_bit 7 (y OR 0x80 :: u8) AND 1 \<noteq> 0" by (metis bit_0_eq bot_apply bot_bool_def)
  ultimately show ?thesis by (simp add: is_control_pdu_def)
qed

lemma deliver:
  assumes lib: "lib_ok lib" and s: "in_step rlc e r" and ok: "bb_ok pdu" and data: "bb_data pdu = pdu_octets lib e m"
    and len: "length (bb_data pdu) \<le> 9000" and m: "is_drb e \<longrightarrow> m \<noteq> []"
  obtains r' b where "write_pdu lib rlc r pdu = Some (r', [upper_event r b])" "bb_ok b" "bb_data b = m"
    "in_step rlc (step_tx_sn e) r'" "pe_lcid r' = pe_lcid r" "is_srb r' = is_srb r"
proof -
  define sn where "sn = next_pdcp_tx_sn (pl_st e)"
  define r' where "r' = (step_rx_sn sn r)\<lparr>pl_st := (pl_st (step_rx_sn sn r))\<lparr>last_submitted_pdcp_rx_sn :=
      if am_bearer rlc r then sn else last_submitted_pdcp_rx_sn (pl_st r)\<rparr>\<rparr>"
  have oks: "lte_ok e" "lte_ok r" and link: "same_link e r" using s by (simp_all add: in_step_def)
  have cfg: "cfg_ok (pe_cfg e)" "cfg_ok (pe_cfg r)" using oks by (simp_all add: lte_ok_def)
  note same = same_link_functions [OF link cfg]
  define count where "count = COUNT (pe_cfg e) (tx_hfn (pl_st e)) sn"
  obtain rest where octets: "bb_data pdu = pdcp_header (pe_cfg r) count @ rest" and rest: "rest \<noteq> []"
  proof -
    define tag where "tag = (if dir_tx (pe_integrity_direction e)
      then mac_i lib e (pc_tx_direction (pe_cfg e)) count (pdcp_header (pe_cfg e) count @ m) else replicate 4 0)"
    define body where "body = (if is_drb e then m else m @ tag)"
    define rest where
      "rest = (if dir_tx (pe_encryption_direction e) then crypt lib e (pc_tx_direction (pe_cfg e)) count body else body)"
    have d: "bb_data pdu = pdcp_header (pe_cfg r) count @ rest"
      unfolding data pdu_octets_def Let_def
      by (simp add: count_def [symmetric] sn_def [symmetric] same(3) rest_def body_def tag_def)
    have "length tag = 4" by (simp add: tag_def length_mac_i [OF lib])
    then have "0 < length body" using m by (auto simp: body_def)
    moreover have "length rest = length body" by (simp add: rest_def length_crypt [OF lib])
    ultimately show ?thesis using that d by fastforce
  qed
  have sn_le: "sn \<le> sn_max (pe_cfg e)" using oks by (simp add: lte_ok_def sn_def)
  have rd: "read_data_header r pdu = Some sn"
    using read_data_header_spec [OF cfg(2) ok octets rest] SN_COUNT [OF cfg(1) sn_le] same(6) by (simp add: count_def)
  have act: "activate_rx sn r = r" using s by (simp add: activate_rx_def in_step_def)
  have control: "(if is_drb r then is_control_pdu pdu else Some False) = Some False"
  proof (cases "is_drb r")
    case True
    then have "pc_sn_len (pe_cfg r) \<noteq> PDCP_SN_LEN_5"
      using s same(9) link by (simp add: in_step_def same_link_def)
    from header_not_control [OF cfg(2) True this ok octets] show ?thesis using True by simp
  qed simp
  have big: "\<not> bb_N_bytes pdu \<le> ucast (pc_hdr_len_bytes (pe_cfg r))"
  proof -
    have "unat (bb_N_bytes pdu) = hdr_len (pe_cfg r) + length rest"
      using length_bb_data [OF ok] length_pdcp_header [OF cfg(2), of count] by (simp add: octets)
    moreover have "0 < length rest" using rest by simp
    ultimately show ?thesis unfolding word_le_nat_alt hdr_len_u32 by linarith
  qed
  have w: "write_pdu lib rlc r pdu = (if is_srb r then handle_srb_pdu lib r pdu
      else if rb_is_um rlc (pe_lcid r) then handle_um_drb_pdu lib r pdu else handle_am_drb_pdu lib r pdu)"
    unfolding write_pdu_def control bind.bind_lunit if_False if_not_P [OF big] rd Let_def act
    by (simp add: not_srb)
  have nxt: "in_step rlc (step_tx_sn e) r'" unfolding r'_def by (rule in_step_next [OF s sn_def])
  have fr: "pe_lcid r' = pe_lcid r" "is_srb r' = is_srb r" by (simp_all add: r'_def is_srb_def)
  show ?thesis
  proof (cases "is_srb r")
    case True
    then have "\<not> am_bearer rlc r" by (simp add: am_bearer_def not_srb)
    then have e: "r' = step_rx_sn sn r" by (simp add: r'_def step_functions)
    obtain b where "handle_srb_pdu lib r pdu = Some (step_rx_sn (next_pdcp_tx_sn (pl_st e)) r, [Rrc_write_pdu (pe_lcid r) b])"
      "bb_ok b" "bb_data b = m"
      by (rule receive_srb [OF lib s True ok data len rd [unfolded sn_def]])
    then show ?thesis using that [of r' b] nxt fr True w e by (simp add: upper_event_def sn_def)
  next
    case False
    then have drb: "is_drb r" by (simp add: not_srb)
    then have "m \<noteq> []" using m same(9) by simp
    then obtain b where "(if rb_is_um rlc (pe_lcid r) then handle_um_drb_pdu lib r pdu else handle_am_drb_pdu lib r pdu)
      = Some ((step_rx_sn (next_pdcp_tx_sn (pl_st e)) r)\<lparr>pl_st := (pl_st (step_rx_sn (next_pdcp_tx_sn (pl_st e)) r))
          \<lparr>last_submitted_pdcp_rx_sn := if am_bearer rlc r then next_pdcp_tx_sn (pl_st e)
             else last_submitted_pdcp_rx_sn (pl_st r)\<rparr>\<rparr>, [Gw_write_pdu (pe_lcid r) b])" "bb_ok b" "bb_data b = m"
      by (rule receive_drb [OF lib s drb ok data len _ rd [unfolded sn_def]])
    then show ?thesis using that [of r' b] nxt fr False w by (simp add: upper_event_def sn_def r'_def)
  qed
qed

text \<open>
  A run of SDUs through the two entities: each PDU reaches the receiver in a buffer of its own, the copy that
  \<open>byte_buffer_copy\<close> makes.
\<close>

fun transfer :: "ssl_lib \<Rightarrow> rlc_interface \<Rightarrow> rlc_interface \<Rightarrow> pdcp_entity_lte \<Rightarrow> pdcp_entity_lte \<Rightarrow> byte_buffer list \<Rightarrow>
   (pdcp_entity_lte \<times> pdcp_entity_lte \<times> pdcp_event list) option" where
  "transfer lib rlc_t rlc_r e r [] = Some (e, r, [])"
| "transfer lib rlc_t rlc_r e r (sdu # sdus) =
    (case write_sdu lib rlc_t e sdu of
       Some (e, [Rlc_write_sdu _ pdu]) \<Rightarrow>
         Option.bind (byte_buffer_copy pdu) (\<lambda>pdu.
         Option.bind (write_pdu lib rlc_r r pdu) (\<lambda>(r, up).
         map_option (\<lambda>(e, r, ups). (e, r, up @ ups)) (transfer lib rlc_t rlc_r e r sdus)))
     | _ \<Rightarrow> None)"

lemma byte_buffer_copy_spec:
  assumes "bb_ok b" "length (bb_data b) \<le> 12237"
  obtains b' where "byte_buffer_copy b = Some b'" "bb_ok b'" "bb_data b' = bb_data b"
proof -
  let ?c = "byte_buffer_new\<lparr>bb_N_bytes := bb_N_bytes b\<rparr>"
  have l: "length (bb_data b) = unat (bb_N_bytes b)" using assms(1) by (rule length_bb_data)
  have ok: "bb_ok ?c" using assms(2) l by (simp add: bb_ok_def byte_buffer_new_def BUFFER_HEADER_OFFSET_def)
  have t: "take (unat (bb_N_bytes b)) (bb_mem b 0) = bb_data b" by (simp add: bb_data_def)
  have "byte_buffer_copy b = Some (bb_set_mem ?c 0 (put (bb_mem ?c 0) (bb_data b)))"
    using bb_okD(1) [OF assms(1)] bb_okD(1) [OF ok]
    by (simp add: byte_buffer_copy_def Let_def memcpy_mem_def t)
  moreover have "bb_ok (bb_set_mem ?c 0 (put (bb_mem ?c 0) (bb_data b)))"
    using ok bb_okD(1) [OF ok] l by (intro bb_ok_set_mem) (simp_all add: byte_buffer_new_def BUFFER_HEADER_OFFSET_def)
  moreover have "bb_data (bb_set_mem ?c 0 (put (bb_mem ?c 0) (bb_data b))) = bb_data b"
    using l length_bb_data [OF ok] by (subst bb_data_set_mem [OF ok]) simp_all
  ultimately show ?thesis using that by blast
qed

lemma length_pdu_octets:
  assumes "lib_ok lib" "lte_ok e" "sdu_fits e sdu"
  shows "length (pdu_octets lib e (bb_data sdu)) \<le> 9000"
proof -
  have "cfg_ok (pe_cfg e)" using assms(2) by (simp add: lte_ok_def)
  from length_pdcp_header [OF this] hdr_len_pos [OF this] assms(1,3)
  show ?thesis by (simp add: pdu_octets_def Let_def sdu_fits_def length_mac_i)
qed

lemma upper_event_cong: "pe_lcid r' = pe_lcid r \<Longrightarrow> is_srb r' = is_srb r \<Longrightarrow> upper_event r' = upper_event r"
  by (simp add: upper_event_def fun_eq_iff)

lemma transfer_in_step:
  assumes lib: "lib_ok lib" and s: "in_step rlc_r e r" and fits: "\<forall>sdu \<in> set sdus. sdu_fits e sdu"
    and queue: "\<not> sdu_queue_is_full rlc_t (pe_lcid e)"
  shows "\<exists>e' r' bufs. transfer lib rlc_t rlc_r e r sdus = Some (e', r', map (upper_event r) bufs) \<and>
    map bb_data bufs = map bb_data sdus \<and> in_step rlc_r e' r'"
  using s fits queue
proof (induction sdus arbitrary: e r)
  case (Cons sdu sdus)
  have ok: "lte_ok e" and idle: "pe_enable_security_tx_sn e = - 1" using Cons.prems(1) by (simp_all add: in_step_def)
  have fit: "sdu_fits e sdu" using Cons.prems(2) by simp
  obtain p where p: "write_sdu lib rlc_t e sdu = Some (step_tx_sn e, [Rlc_write_sdu (pe_lcid e) p])" "bb_ok p"
    "bb_data p = pdu_octets lib e (bb_data sdu)"
    by (rule write_sdu_octets [OF lib ok idle fit Cons.prems(3)])
  have len: "length (bb_data p) \<le> 9000" using length_pdu_octets [OF lib ok fit] p(3) by simp
  then have "length (bb_data p) \<le> 12237" by simp
  from byte_buffer_copy_spec [OF p(2) this] obtain q where q: "byte_buffer_copy p = Some q" "bb_ok q" "bb_data q = bb_data p" .
  have "is_drb e \<longrightarrow> bb_data sdu \<noteq> []" using fit by (simp add: sdu_fits_def)
  from deliver [OF lib Cons.prems(1) q(2) _ _ this] obtain r' b where
    r': "write_pdu lib rlc_r r q = Some (r', [upper_event r b])" "bb_data b = bb_data sdu"
      "in_step rlc_r (step_tx_sn e) r'" "pe_lcid r' = pe_lcid r" "is_srb r' = is_srb r"
    using q(3) p(3) len by metis
  have fits': "\<forall>sdu \<in> set sdus. sdu_fits (step_tx_sn e) sdu"
    using Cons.prems(2) by (simp add: sdu_fits_def is_drb_def)
  have queue': "\<not> sdu_queue_is_full rlc_t (pe_lcid (step_tx_sn e))" using Cons.prems(3) by simp
  obtain e2 r2 bufs where "transfer lib rlc_t rlc_r (step_tx_sn e) r' sdus = Some (e2, r2, map (upper_event r') bufs)"
    "map bb_data bufs = map bb_data sdus" "in_step rlc_r e2 r2"
    using Cons.IH [OF r'(3) fits' queue'] by blast
  then show ?case
    using r' p(1) q(1) by (intro exI [of _ e2] exI [of _ r2] exI [of _ "b # bufs"])
      (simp add: upper_event_cong [OF r'(4,5)])
qed (auto intro: exI [of _ "[]"])

section \<open>COUNT\<close>

definition tx_count :: "pdcp_entity_lte \<Rightarrow> u32" where
  "tx_count e = COUNT (pe_cfg e) (tx_hfn (pl_st e)) (next_pdcp_tx_sn (pl_st e))"

lemma tx_count_step: "lte_ok e \<Longrightarrow> tx_count (step_tx_sn e) = tx_count e + 1"
proof -
  assume ok: "lte_ok e"
  let ?cfg = "pe_cfg e" and ?sn = "next_pdcp_tx_sn (pl_st e)"
  have cfg: "cfg_ok ?cfg" and le: "?sn \<le> sn_max ?cfg" and max: "pl_maximum_pdcp_sn e = sn_max ?cfg"
    using ok by (simp_all add: lte_ok_def)
  show ?thesis
  proof (cases "sn_max ?cfg < ?sn + 1")
    case True
    then have "?sn = sn_max ?cfg"
      using le plus_one_le [OF cfg le] by (simp add: word_less_nat_alt word_le_nat_alt word_unat_eq_iff)
    moreover have "sn_max ?cfg + 1 = 2 ^ unat (pc_sn_len ?cfg)" by (simp add: sn_max_def mask_eq_exp_minus_1)
    ultimately show ?thesis
      using True cfg le by (simp add: tx_count_def step_functions max COUNT_plus algebra_simps)
  next
    case False
    then have "tx_count (step_tx_sn e) = COUNT ?cfg (tx_hfn (pl_st e)) (?sn + 1)" "?sn + 1 \<le> sn_max ?cfg"
      unfolding tx_count_def step_functions max if_not_P [OF False] by simp_all
    then show ?thesis
      using cfg le by (simp add: tx_count_def COUNT_plus)
  qed
qed

section \<open>Short PDUs\<close>

lemma read_data_header_Some:
  assumes cfg: "cfg_ok (pe_cfg e)" and ok: "bb_ok pdu"
  obtains sn where "read_data_header e pdu = Some sn" "sn \<le> sn_max (pe_cfg e)"
proof (cases "bb_N_bytes pdu \<le> ucast (pc_hdr_len_bytes (pe_cfg e))")
  case True
  then show ?thesis using that [of 0] by (simp add: read_data_header_def Let_def)
next
  case False
  then have l: "hdr_len (pe_cfg e) < unat (bb_N_bytes pdu)" by (simp add: word_le_nat_alt hdr_len_u32)
  then have get: "bb_get pdu i = Some (bb_data pdu ! i)" if "i < hdr_len (pe_cfg e)" for i
    using that bb_get_data [OF ok] by simp
  from cfg have "\<exists>sn. read_data_header e pdu = Some sn"
    using False get by (cases rule: cfg_ok_cases) (simp_all add: read_data_header_def Let_def sn_len_defs)
  then show ?thesis using that read_data_header_le [OF cfg] by blast
qed

lemma write_pdu_srb:
  assumes cfg: "cfg_ok (pe_cfg e)" and srb: "is_srb e" and idle: "pe_enable_security_rx_sn e = - 1"
    and sn: "read_data_header e pdu = Some sn" and len: "hdr_len (pe_cfg e) < unat (bb_N_bytes pdu)"
  shows "write_pdu lib rlc e pdu = handle_srb_pdu lib e pdu"
proof -
  have big: "\<not> bb_N_bytes pdu \<le> ucast (pc_hdr_len_bytes (pe_cfg e))"
    using len by (simp add: word_le_nat_alt hdr_len_u32)
  have act: "activate_rx sn e = e" using idle by (simp add: activate_rx_def)
  show ?thesis
    unfolding write_pdu_def sn bind.bind_lunit if_not_P [OF big] Let_def act using srb by (simp add: not_srb)
qed

lemma srb_four_octets:
  assumes cfg: "cfg_ok (pe_cfg e)" and ok: "bb_ok pdu" and plain: "\<not> dir_rx (pe_encryption_direction e)"
    "\<not> dir_rx (pe_integrity_direction e)" and sn_len: "pc_sn_len (pe_cfg e) = PDCP_SN_LEN_5" and N: "bb_N_bytes pdu = 4"
  shows "\<exists>e' b. handle_srb_pdu lib e pdu = Some (e', [Rrc_write_pdu (pe_lcid e) b]) \<and> unat (bb_N_bytes b) = 2^32 - 1"
proof -
  obtain sn where sn: "read_data_header e pdu = Some sn" by (rule read_data_header_Some [OF cfg ok])
  have l: "length (bb_data pdu) = 4" using length_bb_data [OF ok] by (simp add: N)
  then obtain b tag where b: "extract_mac pdu None = Some (b, Some tag)" "unat (bb_N_bytes b) = 0"
    using extract_mac_spec [OF ok, of None] by (metis diff_self_eq_0 order_refl)
  have "hdr_len (pe_cfg e) = 1" using cfg sn_len by (cases rule: cfg_ok_cases) (simp_all add: sn_len_defs)
  then have h: "(ucast (pc_hdr_len_bytes (pe_cfg e)) :: u32) = 1" using hdr_len_u32 [of "pe_cfg e"] by (metis unat_1 word_unat_eq_iff)
  have "bb_N_bytes (discard_data_header e b) = - 1"
    using b(2) by (simp add: discard_data_header_def Let_def h unat_eq_0)
  then have "unat (bb_N_bytes (discard_data_header e b)) = 2^32 - 1" by (simp add: unsigned_minus_1_eq_mask mask_eq_exp_minus_1)
  moreover have "handle_srb_pdu lib e pdu = Some (step_rx_sn sn (bump_rx_hfn sn e), [Rrc_write_pdu (pe_lcid e) (discard_data_header e b)])"
    using plain unfolding handle_srb_pdu_count sn bind.bind_lunit by (simp add: b(1))
  ultimately show ?thesis by blast
qed

lemma srb_unwritten_mac:
  assumes lib: "lib_ok lib" and cfg: "cfg_ok (pe_cfg e)" and ok: "bb_ok pdu" and plain: "\<not> dir_rx (pe_encryption_direction e)"
    and int: "dir_rx (pe_integrity_direction e)" "sec_integ_algo (pe_sec_cfg e) \<noteq> EIA0"
    and N: "0 < unat (bb_N_bytes pdu)" "unat (bb_N_bytes pdu) < 4"
  shows "handle_srb_pdu lib e pdu = None"
proof -
  obtain sn where sn: "read_data_header e pdu = Some sn" by (rule read_data_header_Some [OF cfg ok])
  have s: "bb_N_bytes pdu < 4" using N by (simp add: word_less_nat_alt)
  have "integrity_verify lib e (bb_mem pdu 0) (bb_N_bytes pdu) count None = None" for count
    using N bb_okD(1) [OF ok] by (intro integrity_verify_unwritten lib int) simp_all
  then show ?thesis
    using plain int(1) unfolding handle_srb_pdu_count sn bind.bind_lunit by (simp add: extract_mac_short [OF s])
qed

section \<open>Sample entities\<close>

definition sample_pdcp_lib :: ssl_lib where
  "sample_pdcp_lib = sample_ssl\<lparr>crypt_ecb := (\<lambda>k b. rotate 1 b)\<rparr>"

definition sample_pdcp_sec :: as_security_config where
  "sample_pdcp_sec =
    \<lparr>sec_k_rrc_int = replicate 32 1, sec_k_rrc_enc = replicate 32 2, sec_k_up_int = replicate 32 3,
     sec_k_up_enc = replicate 32 4, sec_integ_algo = EIA2_128, sec_cipher_algo = EEA2_128\<rparr>"

definition sample_srb :: "security_direction \<Rightarrow> security_direction \<Rightarrow> pdcp_entity_lte" where
  "sample_srb tx rx = enable_integrity DIRECTION_TXRX (enable_encryption DIRECTION_TXRX (config_security sample_pdcp_sec
    (pdcp_entity_lte_new 1 (pdcp_config_t 1 PDCP_RB_IS_SRB tx rx PDCP_SN_LEN_5 0 0))))"

definition sample_rlc :: rlc_interface where
  "sample_rlc = \<lparr>sdu_queue_is_full = (\<lambda>lcid. False), rb_is_um = (\<lambda>lcid. False)\<rparr>"

abbreviation sample_enb :: pdcp_entity_lte where
  "sample_enb \<equiv> sample_srb SECURITY_DIRECTION_DOWNLINK SECURITY_DIRECTION_UPLINK"

abbreviation sample_ue :: pdcp_entity_lte where
  "sample_ue \<equiv> sample_srb SECURITY_DIRECTION_UPLINK SECURITY_DIRECTION_DOWNLINK"

definition sample_sdu :: "u32 \<Rightarrow> byte_buffer" where
  "sample_sdu n = byte_buffer_new\<lparr>bb_N_bytes := n\<rparr>"

lemma sample_pdcp_lib_ok: "lib_ok sample_pdcp_lib"
proof -
  have "ctr_documented (l\<lparr>crypt_ecb := f\<rparr>) = ctr_documented l" for l :: ssl_lib and f
    by (simp add: ctr_documented_def ctr_stream_def)
  then show ?thesis
    using sample_ssl_documented by (simp add: lib_ok_def ecb_blocks_def sample_pdcp_lib_def)
qed

lemma sample_srb_ok: "lte_ok (sample_srb tx rx)"
  by (simp add: sample_srb_def lte_ok_control lte_ok_new pdcp_config_t_ok sec_sizes_def sample_pdcp_sec_def)

lemma sample_srb_fields:
  "pe_enable_security_tx_sn (sample_srb tx rx) = - 1" "pe_enable_security_rx_sn (sample_srb tx rx) = - 1"
  "pe_cfg (sample_srb tx rx) = pdcp_config_t 1 PDCP_RB_IS_SRB tx rx PDCP_SN_LEN_5 0 0"
  "pe_sec_cfg (sample_srb tx rx) = sample_pdcp_sec" "is_srb (sample_srb tx rx)" "is_drb (sample_srb tx rx) = False"
  "pe_integrity_direction (sample_srb tx rx) = DIRECTION_TXRX" "pe_encryption_direction (sample_srb tx rx) = DIRECTION_TXRX"
  "pl_st (sample_srb tx rx) = \<lparr>next_pdcp_tx_sn = 0, tx_hfn = 0, rx_hfn = 0, next_pdcp_rx_sn = 0,
                  last_submitted_pdcp_rx_sn = 31, reordering_pdcp_rx_count = 0\<rparr>"
  by (simp_all add: sample_srb_def enable_integrity_def enable_encryption_def config_security_def
      pdcp_entity_lte_new_def Let_def pdcp_config_t_def is_srb_def is_drb_def join_direction_def PDCP_SN_LEN_5_def)

lemma sample_in_step: "in_step sample_rlc sample_enb sample_ue"
  by (simp add: in_step_def sample_srb_ok sample_srb_fields same_link_def am_bearer_def pdcp_config_t_def
      dir_rx_def dir_tx_def)

lemma sample_sdu_fields:
  "n \<le> 9000 \<Longrightarrow> bb_ok (sample_sdu n)" "n \<le> 9000 \<Longrightarrow> bb_data (sample_sdu n) = replicate (unat n) 0"
  "bb_msg (sample_sdu n) = 1020"
  by (simp_all add: sample_sdu_def byte_buffer_new_def bb_ok_def bb_data_def bb_mem_def BUFFER_HEADER_OFFSET_def
      word_le_nat_alt)

lemma sample_sdu_fits: "sdu_fits sample_enb (sample_sdu 3)"
  by (simp add: sdu_fits_def sample_sdu_fields sample_srb_fields hdr_len_def pdcp_config_t_def PDCP_SN_LEN_5_def)

section \<open>Properties\<close>

text \<open>
  Claim C1. Two LTE entities in step deliver every sequence of SDUs, in order and unchanged, on signalling
  bearers and on data bearers in both RLC modes, with any of the algorithms: nothing is dropped, no access leaves
  a buffer, and the entities are in step again afterwards, also over the wrap of the sequence number.
\<close>

theorem pdcp_lte_delivery:
  assumes "lib_ok lib" "in_step rlc_r e r" "\<forall>sdu \<in> set sdus. sdu_fits e sdu" "\<not> sdu_queue_is_full rlc_t (pe_lcid e)"
  shows "\<exists>e' r' bufs. transfer lib rlc_t rlc_r e r sdus = Some (e', r', map (upper_event r) bufs) \<and>
    map bb_data bufs = map bb_data sdus \<and> in_step rlc_r e' r'"
  using assms by (rule transfer_in_step)

theorem pdcp_lte_delivery_witness:
  "\<exists>e' r' bufs. transfer sample_pdcp_lib sample_rlc sample_rlc sample_enb sample_ue [sample_sdu 3, sample_sdu 3]
      = Some (e', r', map (upper_event sample_ue) bufs) \<and>
    map bb_data bufs = [replicate 3 0, replicate 3 0] \<and> in_step sample_rlc e' r'"
proof -
  let ?sdus = "[sample_sdu 3, sample_sdu 3]"
  have f: "\<forall>sdu \<in> set ?sdus. sdu_fits sample_enb sdu" by (simp add: sample_sdu_fits)
  have q: "\<not> sdu_queue_is_full sample_rlc (pe_lcid sample_enb)" by (simp add: sample_rlc_def)
  have d: "map bb_data ?sdus = [replicate 3 0, replicate 3 0]" by (simp add: sample_sdu_fields)
  show ?thesis using pdcp_lte_delivery [OF sample_pdcp_lib_ok sample_in_step f q] unfolding d .
qed



text \<open>
  Claim C8. With integrity protection on, a PDU on a signalling bearer reaches RRC exactly if, deciphered, it ends
  in the MAC-I of its header and payload under the estimated COUNT; RRC then gets the payload, and otherwise the
  PDU is dropped and the entity is as before.
\<close>

theorem pdcp_srb_integrity:
  assumes "lib_ok lib" "lte_ok r" "is_srb r" "pe_enable_security_rx_sn r = - 1" "bb_ok pdu"
    and "hdr_len (pe_cfg r) + 4 \<le> length (bb_data pdu)" "length (bb_data pdu) \<le> 9000"
    and "dir_rx (pe_integrity_direction r)" "sec_integ_algo (pe_sec_cfg r) \<noteq> EIA0"
  shows "\<exists>sn. read_data_header r pdu = Some sn \<and>
    (let h = hdr_len (pe_cfg r); n = length (bb_data pdu) - 4; count = srb_count r sn;
         plain = take h (bb_data pdu) @ deciphered lib r count (drop h (bb_data pdu))
     in if drop n plain = mac_i lib r (pc_rx_direction (pe_cfg r)) count (take n plain)
        then \<exists>b. write_pdu lib rlc r pdu = Some (step_rx_sn sn (bump_rx_hfn sn r), [Rrc_write_pdu (pe_lcid r) b]) \<and>
               bb_data b = drop h (take n plain)
        else write_pdu lib rlc r pdu = Some (r, []))"
proof -
  have cfg: "cfg_ok (pe_cfg r)" using assms(2) by (simp add: lte_ok_def)
  obtain sn where sn: "read_data_header r pdu = Some sn" by (rule read_data_header_Some [OF cfg assms(5)])
  let ?h = "hdr_len (pe_cfg r)"
  define plain where "plain = take ?h (bb_data pdu) @ deciphered lib r (srb_count r sn) (drop ?h (bb_data pdu))"
  have n: "length plain - 4 = length (bb_data pdu) - 4"
    using assms(1,6) by (simp add: plain_def deciphered_def)
  have w: "write_pdu lib rlc r pdu = handle_srb_pdu lib r pdu"
    using length_bb_data [OF assms(5)] assms(6) by (intro write_pdu_srb [OF cfg assms(3,4) sn]) simp
  obtain b where "handle_srb_pdu lib r pdu = Some (if srb_authentic lib r (srb_count r sn) plain
      then (step_rx_sn sn (bump_rx_hfn sn r), [Rrc_write_pdu (pe_lcid r) b]) else (r, []))"
    "bb_data b = drop ?h (take (length plain - 4) plain)"
    by (rule handle_srb_pdu_spec [OF assms(1,2,5-7) sn, folded plain_def])
  then show ?thesis
    using w assms(8,9) n
    by (intro exI [of _ sn] conjI sn, unfold Let_def plain_def [symmetric]) (simp add: srb_authentic_def)
qed

theorem pdcp_srb_integrity_witness:
  "\<exists>sn. read_data_header sample_ue (sample_sdu 9) = Some sn \<and>
    (let h = 1; n = 5; count = srb_count sample_ue sn;
         plain = take h (replicate 9 0) @ deciphered sample_pdcp_lib sample_ue count (drop h (replicate 9 0))
     in if drop n plain = mac_i sample_pdcp_lib sample_ue SECURITY_DIRECTION_DOWNLINK count (take n plain)
        then \<exists>b. write_pdu sample_pdcp_lib sample_rlc sample_ue (sample_sdu 9)
                 = Some (step_rx_sn sn (bump_rx_hfn sn sample_ue), [Rrc_write_pdu (pe_lcid sample_ue) b]) \<and>
               bb_data b = drop h (take n plain)
        else write_pdu sample_pdcp_lib sample_rlc sample_ue (sample_sdu 9) = Some (sample_ue, []))"
proof -
  have h: "hdr_len (pe_cfg sample_ue) = 1" "pc_rx_direction (pe_cfg sample_ue) = SECURITY_DIRECTION_DOWNLINK"
    by (simp_all add: sample_srb_fields hdr_len_def pdcp_config_t_def PDCP_SN_LEN_5_def)
  have d: "bb_data (sample_sdu 9) = replicate 9 0" "bb_ok (sample_sdu 9)" by (simp_all add: sample_sdu_fields)
  show ?thesis
    using pdcp_srb_integrity [OF sample_pdcp_lib_ok sample_srb_ok sample_srb_fields(5) sample_srb_fields(2) d(2),
        of SECURITY_DIRECTION_UPLINK SECURITY_DIRECTION_DOWNLINK sample_rlc]
    unfolding h d(1) by (simp add: sample_srb_fields dir_rx_def sample_pdcp_sec_def)
qed

text \<open>
  Claim C39. PDUs that are too short, on a signalling bearer with five-bit numbers: up to one octet is dropped
  without effect; two or three octets under integrity protection make the entity compare a MAC it never wrote;
  four octets before security is on reach RRC with a length of 2^32 - 1.
\<close>

theorem pdcp_srb_short_pdu:
  assumes "lib_ok lib" "lte_ok r" "is_srb r" "pc_sn_len (pe_cfg r) = PDCP_SN_LEN_5"
    and "pe_enable_security_rx_sn r = - 1" "bb_ok pdu" "\<not> dir_rx (pe_encryption_direction r)"
  shows "(bb_N_bytes pdu \<le> 1 \<longrightarrow> write_pdu lib rlc r pdu = Some (r, [])) \<and>
    (bb_N_bytes pdu \<in> {2, 3} \<and> dir_rx (pe_integrity_direction r) \<and> sec_integ_algo (pe_sec_cfg r) \<noteq> EIA0 \<longrightarrow>
       write_pdu lib rlc r pdu = None) \<and>
    (bb_N_bytes pdu = 4 \<and> \<not> dir_rx (pe_integrity_direction r) \<longrightarrow>
       (\<exists>r' b. write_pdu lib rlc r pdu = Some (r', [Rrc_write_pdu (pe_lcid r) b]) \<and> unat (bb_N_bytes b) = 2^32 - 1))"
proof -
  have cfg: "cfg_ok (pe_cfg r)" using assms(2) by (simp add: lte_ok_def)
  then have h: "hdr_len (pe_cfg r) = 1" using assms(4) by (cases rule: cfg_ok_cases) (simp_all add: sn_len_defs)
  obtain sn where sn: "read_data_header r pdu = Some sn" by (rule read_data_header_Some [OF cfg assms(6)])
  note w = write_pdu_srb [OF cfg assms(3,5) sn, of lib rlc, unfolded h]
  have "write_pdu lib rlc r pdu = Some (r, [])" if "bb_N_bytes pdu \<le> 1"
  proof -
    have "bb_N_bytes pdu \<le> ucast (pc_hdr_len_bytes (pe_cfg r))"
      using that h by (simp add: word_le_nat_alt hdr_len_u32)
    then show ?thesis using assms(3) by (simp add: write_pdu_def not_srb)
  qed
  moreover have "write_pdu lib rlc r pdu = None"
    if "bb_N_bytes pdu \<in> {2, 3}" "dir_rx (pe_integrity_direction r)" "sec_integ_algo (pe_sec_cfg r) \<noteq> EIA0"
    using that w srb_unwritten_mac [OF assms(1) cfg assms(6,7) that(2,3)] by auto
  moreover have "\<exists>r' b. write_pdu lib rlc r pdu = Some (r', [Rrc_write_pdu (pe_lcid r) b]) \<and> unat (bb_N_bytes b) = 2^32 - 1"
    if "bb_N_bytes pdu = 4" "\<not> dir_rx (pe_integrity_direction r)"
    using that w srb_four_octets [OF cfg assms(6,7) that(2) assms(4) that(1)] by simp
  ultimately show ?thesis by blast
qed

theorem pdcp_srb_short_pdu_witness:
  "\<exists>r' b. write_pdu sample_pdcp_lib sample_rlc
      (pdcp_entity_lte_new 1 (pdcp_config_t 1 PDCP_RB_IS_SRB SECURITY_DIRECTION_UPLINK SECURITY_DIRECTION_DOWNLINK
        PDCP_SN_LEN_5 0 0)) (sample_sdu 4) = Some (r', [Rrc_write_pdu 1 b]) \<and> unat (bb_N_bytes b) = 2^32 - 1"
proof -
  let ?c = "pdcp_config_t 1 PDCP_RB_IS_SRB SECURITY_DIRECTION_UPLINK SECURITY_DIRECTION_DOWNLINK PDCP_SN_LEN_5 0 0"
  let ?r = "pdcp_entity_lte_new 1 ?c"
  have f: "is_srb ?r" "pc_sn_len (pe_cfg ?r) = PDCP_SN_LEN_5" "pe_enable_security_rx_sn ?r = - 1"
    "\<not> dir_rx (pe_encryption_direction ?r)" "\<not> dir_rx (pe_integrity_direction ?r)" "pe_lcid ?r = 1"
    by (simp_all add: pdcp_entity_lte_new_def Let_def is_srb_def pdcp_config_t_def dir_rx_def)
  have ok: "lte_ok ?r" by (intro lte_ok_new pdcp_config_t_ok) simp
  have d: "bb_N_bytes (sample_sdu 4) = 4" "bb_ok (sample_sdu 4)" by (simp add: sample_sdu_def, simp add: sample_sdu_fields)
  show ?thesis
    using pdcp_srb_short_pdu [OF sample_pdcp_lib_ok ok f(1-3) d(2) f(4), of sample_rlc] f(5) d(1) unfolding f(6) by simp
qed

end
