(* ===== verification/Pdcp_Nr.thy ===== *)
theory Pdcp_Nr
  imports Pdcp_Link Std_Map
begin

text \<open>
  The NR PDCP entity (\<^verbatim>\<open>lib/src/upper/pdcp_entity_nr.cc\<close>): the estimate of COUNT, the reordering queue and
  the two kinds of timers of TS 38.323. Of the reordering timer the entity sees whether it runs; its expiry is an
  operation. The discard timers are the keys of \<open>discard_timers_map\<close>.
\<close>

section \<open>State\<close>

record pdcp_entity_nr = pdcp_entity_base +
  tx_next :: u32
  rx_next :: u32
  rx_deliv :: u32
  rx_reord :: u32
  window_size :: u32
  reorder_queue :: "(u32, byte_buffer) std_map"
  reordering_timer_running :: bool
  discard_timers_map :: "(u32, unit) std_map"
  tx_overflow :: bool
  rx_overflow :: bool

definition pdcp_entity_nr_new :: "u32 \<Rightarrow> pdcp_config \<Rightarrow> pdcp_entity_nr" where
  "pdcp_entity_nr_new lcid cfg =
    \<lparr>pe_active = True, pe_lcid = lcid, pe_integrity_direction = DIRECTION_NONE,
     pe_encryption_direction = DIRECTION_NONE, pe_enable_security_tx_sn = - 1, pe_enable_security_rx_sn = - 1,
     pe_cfg = cfg, pe_sec_cfg = as_security_config_zero, tx_next = 0, rx_next = 0, rx_deliv = 0, rx_reord = 0,
     window_size = push_bit (unat (pc_sn_len cfg) - 1) 1, reorder_queue = [], reordering_timer_running = False,
     discard_timers_map = [], tx_overflow = False, rx_overflow = False\<rparr>"

definition nr_reset :: "pdcp_entity_nr \<Rightarrow> pdcp_entity_nr" where
  "nr_reset e = e\<lparr>pe_active := False\<rparr>"

section \<open>Transmission\<close>

text \<open>\<open>mac0\<close> is what the uninitialised array of the MAC-I holds, which EIA0 leaves there.\<close>

definition start_discard_timer :: "pdcp_entity_nr \<Rightarrow> pdcp_entity_nr" where
  "start_discard_timer e =
    (if pc_discard_timer (pe_cfg e) \<noteq> 0
     then e\<lparr>discard_timers_map := snd (map_insert (tx_next e) () (discard_timers_map e))\<rparr> else e)"

definition nr_write_sdu ::
  "ssl_lib \<Rightarrow> bytes \<Rightarrow> pdcp_entity_nr \<Rightarrow> byte_buffer \<Rightarrow> (pdcp_entity_nr \<times> pdcp_event list) option" where
  "nr_write_sdu lib mac0 e sdu =
    (if tx_overflow e then Some (e, [])
     else
       let e = (if tx_next e + 1 = 0 then e\<lparr>tx_overflow := True\<rparr> else e);
           e = start_discard_timer e
       in Option.bind (integrity_generate lib e (bb_mem sdu 0) (bb_N_bytes sdu) (tx_next e) mac0) (\<lambda>mac.
          Option.bind (map_option (bb_set_mem sdu 0)
            (cipher_encrypt lib e (bb_mem sdu 0) (bb_N_bytes sdu) (tx_next e) (bb_mem sdu 0))) (\<lambda>sdu.
          Option.bind (write_data_header e sdu (tx_next e)) (\<lambda>sdu.
          Option.bind (append_mac sdu mac) (\<lambda>sdu.
          Some (e\<lparr>tx_next := tx_next e + 1\<rparr>, [Rlc_write_sdu (pe_lcid e) sdu]))))))"

definition discard_callback :: "u32 \<Rightarrow> pdcp_entity_nr \<Rightarrow> pdcp_entity_nr \<times> pdcp_event list" where
  "discard_callback discard_sn e =
    (e\<lparr>discard_timers_map := map_erase discard_sn (discard_timers_map e)\<rparr>, [Rlc_discard_sdu (pe_lcid e) discard_sn])"

section \<open>Reception\<close>

definition rcvd_count :: "pdcp_entity_nr \<Rightarrow> u32 \<Rightarrow> u32" where
  "rcvd_count e rcvd_sn =
    (let cfg = pe_cfg e;
         rcvd_hfn =
           (if int (unat rcvd_sn) < int (unat (SN cfg (rx_deliv e))) - int (unat (window_size e))
            then HFN cfg (rx_deliv e) + 1
            else if SN cfg (rx_deliv e) + window_size e \<le> rcvd_sn then HFN cfg (rx_deliv e) - 1
            else HFN cfg (rx_deliv e))
     in COUNT cfg rcvd_hfn rcvd_sn)"

definition pass_to_upper_layers :: "pdcp_entity_nr \<Rightarrow> byte_buffer \<Rightarrow> pdcp_event" where
  "pass_to_upper_layers e sdu = (if is_srb e then Rrc_write_pdu (pe_lcid e) sdu else Gw_write_pdu (pe_lcid e) sdu)"

text \<open>The loop runs over what is left of the queue; an overflow leaves it at the current element.\<close>

fun deliver_loop ::
  "(u32, byte_buffer) std_map \<Rightarrow> pdcp_entity_nr \<Rightarrow> pdcp_entity_nr \<times> pdcp_event list" where
  "deliver_loop [] e = (e\<lparr>reorder_queue := []\<rparr>, [])"
| "deliver_loop ((count, sdu) # q) e =
    (if count \<noteq> rx_deliv e then (e\<lparr>reorder_queue := (count, sdu) # q\<rparr>, [])
     else if rx_overflow e then (e\<lparr>reorder_queue := (count, sdu) # q\<rparr>, [])
     else
       let e1 = (if rx_deliv e + 1 = 0 then e\<lparr>rx_overflow := True\<rparr> else e);
           ev = pass_to_upper_layers e1 sdu;
           (e2, evs) = deliver_loop q (e1\<lparr>rx_deliv := rx_deliv e1 + 1\<rparr>)
       in (e2, ev # evs))"

definition deliver_all_consecutive_counts :: "pdcp_entity_nr \<Rightarrow> pdcp_entity_nr \<times> pdcp_event list" where
  "deliver_all_consecutive_counts e = deliver_loop (reorder_queue e) e"

definition restart_reordering :: "pdcp_entity_nr \<Rightarrow> pdcp_entity_nr" where
  "restart_reordering e =
    (let e = (if reordering_timer_running e \<and> rx_reord e \<le> rx_deliv e
              then e\<lparr>reordering_timer_running := False\<rparr> else e)
     in if \<not> reordering_timer_running e \<and> rx_deliv e < rx_next e
        then e\<lparr>rx_reord := rx_next e, reordering_timer_running := True\<rparr> else e)"

text \<open>What follows the integrity check, for a PDU with COUNT \<open>count\<close>.\<close>

definition nr_receive :: "u32 \<Rightarrow> byte_buffer \<Rightarrow> pdcp_entity_nr \<Rightarrow> pdcp_entity_nr \<times> pdcp_event list" where
  "nr_receive count pdu e =
    (if count < rx_deliv e then (e, [])
     else if map_find count (reorder_queue e) \<noteq> None then (e, [])
     else
       let e = e\<lparr>reorder_queue := map_assign count pdu (reorder_queue e)\<rparr>;
           e = (if rx_next e \<le> count then e\<lparr>rx_next := count + 1\<rparr> else e);
           (e, evs) = (if count = rx_deliv e then deliver_all_consecutive_counts e else (e, []))
       in (restart_reordering e, evs))"

definition nr_write_pdu ::
  "ssl_lib \<Rightarrow> pdcp_entity_nr \<Rightarrow> byte_buffer \<Rightarrow> (pdcp_entity_nr \<times> pdcp_event list) option" where
  "nr_write_pdu lib e pdu =
    (if bb_N_bytes pdu \<le> ucast (pc_hdr_len_bytes (pe_cfg e)) then Some (e, [])
     else Option.bind (read_data_header e pdu) (\<lambda>rcvd_sn.
       let pdu = discard_data_header e pdu
       in Option.bind (extract_mac pdu None) (\<lambda>(pdu, mac).
          let count = rcvd_count e rcvd_sn
          in Option.bind (map_option (bb_set_mem pdu 0)
               (cipher_decrypt lib e (bb_mem pdu 0) (bb_N_bytes pdu) count (bb_mem pdu 0))) (\<lambda>pdu.
             Option.bind (integrity_verify lib e (bb_mem pdu 0) (bb_N_bytes pdu) count mac) (\<lambda>is_valid.
             if \<not> is_valid then Some (e, []) else Some (nr_receive count pdu e))))))"

text \<open>Expiry of the reordering timer; the callback is set only for a positive duration.\<close>

fun deliver_before :: "u32 \<Rightarrow> (u32, byte_buffer) std_map \<Rightarrow> pdcp_entity_nr \<Rightarrow> pdcp_event list \<times> (u32, byte_buffer) std_map" where
  "deliver_before reord [] e = ([], [])"
| "deliver_before reord ((count, sdu) # q) e =
    (if count < reord then (case deliver_before reord q e of (evs, q) \<Rightarrow> (pass_to_upper_layers e sdu # evs, q))
     else ([], (count, sdu) # q))"

definition reordering_callback :: "pdcp_entity_nr \<Rightarrow> pdcp_entity_nr \<times> pdcp_event list" where
  "reordering_callback e =
    (let (evs, q) = deliver_before (rx_reord e) (reorder_queue e) e;
         (e, evs') = deliver_all_consecutive_counts (e\<lparr>reorder_queue := q\<rparr>);
         e = (if rx_deliv e < rx_next e then e\<lparr>rx_reord := rx_next e, reordering_timer_running := True\<rparr> else e)
     in (e, evs @ evs'))"

definition reordering_expired :: "pdcp_entity_nr \<Rightarrow> pdcp_entity_nr \<times> pdcp_event list" where
  "reordering_expired e =
    (let e = e\<lparr>reordering_timer_running := False\<rparr>
     in if 0 < pc_t_reordering (pe_cfg e) then reordering_callback e else (e, []))"

section \<open>The estimate of COUNT\<close>

definition nr_ok :: "pdcp_entity_nr \<Rightarrow> bool" where
  "nr_ok e \<longleftrightarrow> cfg_ok (pe_cfg e) \<and> sec_sizes (pe_sec_cfg e) \<and>
    window_size e = 2 ^ (unat (pc_sn_len (pe_cfg e)) - 1)"

text \<open>The COUNT is within half the sequence number space of the first COUNT waited for, seen modulo 2^32.\<close>

definition in_window :: "pdcp_entity_nr \<Rightarrow> u32 \<Rightarrow> bool" where
  "in_window e count \<longleftrightarrow>
    - int (unat (window_size e)) \<le> sint (count - rx_deliv e) \<and> sint (count - rx_deliv e) < int (unat (window_size e))"

lemma HFN_SN: "cfg_ok cfg \<Longrightarrow> 2 ^ unat (pc_sn_len cfg) * HFN cfg c + SN cfg c = c"
proof -
  assume cfg: "cfg_ok cfg"
  have "push_bit n (drop_bit n c) + take_bit n c = c" for n by (rule bits_ident)
  then show ?thesis by (simp add: HFN_def SN_take_bit [OF cfg] push_bit_eq_mult mult.commute)
qed

lemma rcvd_count_in_window:
  assumes cfg: "cfg_ok (pe_cfg e)" and W: "window_size e = 2 ^ (unat (pc_sn_len (pe_cfg e)) - 1)"
    and w: "in_window e count"
  shows "rcvd_count e (SN (pe_cfg e) count) = count"
proof -
  let ?cfg = "pe_cfg e"
  define L where "L = unat (pc_sn_len ?cfg)"
  define D where "D = rx_deliv e"
  define k where "k = sint (count - D)"
  define s where "s = uint (SN ?cfg D)"
  have L: "0 < L" "L < 32" using cfg by (cases rule: cfg_ok_cases; simp add: L_def)+
  define M where "M = (2::int) ^ L"
  have M: "M = 2 * 2 ^ (L - 1)" using L by (simp add: M_def power_eq_if)
  have uW: "int (unat (window_size e)) = 2 ^ (L - 1)"
    using cfg W by (cases rule: cfg_ok_cases) (simp_all add: L_def)
  have k: "- (2 ^ (L - 1)) \<le> k" "k < 2 ^ (L - 1)" using w uW by (simp_all add: in_window_def k_def D_def)
  have s: "0 \<le> s" "s < M"
    unfolding s_def M_def SN_take_bit [OF cfg] L_def by (simp_all add: unsigned_take_bit_eq)
  have c: "count = D + word_of_int k" by (simp add: k_def)
  have sn: "uint (SN ?cfg count) = (s + k) mod M"
  proof -
    have "uint count = (uint D + k) mod 2 ^ 32" by (simp add: c uint_word_ariths) (simp add: uint_word_of_int mod_simps)
    moreover have "uint (SN ?cfg count) = uint count mod M"
      by (simp only: SN_take_bit [OF cfg] unsigned_take_bit_eq) (simp add: take_bit_eq_mod M_def L_def)
    ultimately have "uint (SN ?cfg count) = (uint D + k) mod 2 ^ 32 mod M" by (simp only:)
    also have "\<dots> = (uint D + k) mod M"
      unfolding M_def using L by (intro mod_mod_cancel le_imp_power_dvd) simp
    also have "\<dots> = (uint D mod M + k) mod M" by (simp add: mod_add_left_eq)
    also have "uint D mod M = s"
      by (simp only: s_def SN_take_bit [OF cfg] unsigned_take_bit_eq) (simp add: take_bit_eq_mod M_def L_def)
    finally show ?thesis .
  qed
  have sn_le: "SN ?cfg count \<le> sn_max ?cfg" by (rule SN_le [OF cfg])
  have D_split: "2 ^ L * HFN ?cfg D + SN ?cfg D = D" using HFN_SN [OF cfg] by (simp add: L_def)
  have SNw: "SN ?cfg D = word_of_int s" by (simp add: s_def)
  have fin: "COUNT ?cfg (HFN ?cfg D + word_of_int j) (SN ?cfg count) = count" if "uint (SN ?cfg count) = s + k - j * M" for j
  proof -
    have "SN ?cfg count = word_of_int (s + k - j * M)" using that by (metis word_of_int_uint)
    also have "\<dots> = SN ?cfg D + word_of_int k - word_of_int j * 2 ^ L" by (simp add: SNw M_def wi_hom_syms)
    finally have e: "SN ?cfg count = SN ?cfg D + word_of_int k - word_of_int j * 2 ^ L" .
    have "COUNT ?cfg (HFN ?cfg D + word_of_int j) (SN ?cfg count) = 2 ^ L * (HFN ?cfg D + word_of_int j) + SN ?cfg count"
      using COUNT_plus [OF cfg sn_le] by (simp add: L_def)
    also have "\<dots> = (2 ^ L * HFN ?cfg D + SN ?cfg D) + word_of_int k" unfolding e by (simp add: algebra_simps)
    finally show ?thesis by (simp only: D_split c)
  qed
  have us: "int (unat (SN ?cfg x)) = uint (SN ?cfg x)" for x by simp
  have uplus: "int (unat (SN ?cfg D + window_size e)) = s + 2 ^ (L - 1)"
  proof -
    have "s + 2 ^ (L - 1) < 2 ^ 32"
    proof -
      have L18: "L \<le> 18" using cfg by (cases rule: cfg_ok_cases) (simp_all add: L_def)
      have "M \<le> 2 ^ 18" unfolding M_def using L18 by (rule power_increasing) simp
      moreover have "(2 :: int) ^ (L - 1) \<le> 2 ^ 18" using L18 by (intro power_increasing) simp_all
      ultimately show ?thesis using s by simp
    qed
    then show ?thesis using s uW by (simp add: s_def uint_word_ariths)
  qed
  have le: "SN ?cfg D + window_size e \<le> SN ?cfg count \<longleftrightarrow> s + 2 ^ (L - 1) \<le> (s + k) mod M"
    using uplus sn by (simp add: word_le_def)
  have lt: "int (unat (SN ?cfg count)) < int (unat (SN ?cfg D)) - int (unat (window_size e)) \<longleftrightarrow> (s + k) mod M < s - 2 ^ (L - 1)"
    using uW sn by (simp add: s_def)
  have rc: "rcvd_count e (SN ?cfg count) = COUNT ?cfg (HFN ?cfg D + word_of_int
      (if (s + k) mod M < s - 2 ^ (L - 1) then 1 else if s + 2 ^ (L - 1) \<le> (s + k) mod M then - 1 else 0)) (SN ?cfg count)"
    unfolding rcvd_count_def Let_def D_def [symmetric] lt le by simp
  consider "s + k < 0" | "0 \<le> s + k" "s + k < M" | "M \<le> s + k" by linarith
  then show ?thesis
  proof cases
    case 1
    then have "0 \<le> s + k + M" "s + k + M < M" using s k M by linarith+
    then have "(s + k + M) mod M = s + k + M" by (rule mod_pos_pos_trivial)
    then have "(s + k) mod M = s + k + M" by simp
    then show ?thesis using rc fin [of "- 1"] sn k M s by simp
  next
    case 2
    then have "(s + k) mod M = s + k" by simp
    then show ?thesis using rc fin [of 0] sn k by simp
  next
    case 3
    then have "0 \<le> s + k - M" "s + k - M < M" using s k M by linarith+
    then have "(s + k - M) mod M = s + k - M" by (rule mod_pos_pos_trivial)
    then have "(s + k) mod M = s + k - M" by simp
    then show ?thesis using rc fin [of 1] sn k M by simp
  qed
qed

section \<open>Sending and receiving one SDU\<close>

definition nr_tag :: "ssl_lib \<Rightarrow> bytes \<Rightarrow> pdcp_entity_nr \<Rightarrow> security_direction \<Rightarrow> u32 \<Rightarrow> bytes \<Rightarrow> bytes" where
  "nr_tag lib mac0 e d count m =
    (if sec_integ_algo (pe_sec_cfg e) \<in> {EIA1_128, EIA2_128, EIA3_128} then mac_i lib e d count m else mac0)"

text \<open>Only the SDU is ciphered: the MAC-I follows it in the clear.\<close>

definition nr_octets :: "ssl_lib \<Rightarrow> bytes \<Rightarrow> pdcp_entity_nr \<Rightarrow> bytes \<Rightarrow> bytes" where
  "nr_octets lib mac0 e m =
    (let d = pc_tx_direction (pe_cfg e)
     in pdcp_header (pe_cfg e) (tx_next e) @ crypt lib e d (tx_next e) m @ nr_tag lib mac0 e d (tx_next e) m)"

definition nr_sdu_fits :: "pdcp_entity_nr \<Rightarrow> byte_buffer \<Rightarrow> bool" where
  "nr_sdu_fits e sdu \<longleftrightarrow> bb_ok sdu \<and> hdr_len (pe_cfg e) \<le> bb_msg sdu \<and> bb_data sdu \<noteq> [] \<and>
    bb_msg sdu + 2 * length (bb_data sdu) + hdr_len (pe_cfg e) + 4 \<le> MAX_BUFFER_SIZE_BYTES"

lemma nr_write_sdu_octets:
  assumes lib: "lib_ok lib" and ok: "nr_ok e" and fits: "nr_sdu_fits e sdu" and mac0: "length mac0 = 4"
    and over: "\<not> tx_overflow e" "tx_next e \<noteq> - 1"
  obtains b where "nr_write_sdu lib mac0 e sdu
      = Some ((start_discard_timer e)\<lparr>tx_next := tx_next e + 1\<rparr>, [Rlc_write_sdu (pe_lcid e) b])" "bb_ok b"
    "bb_data b = nr_octets lib mac0 e (bb_data sdu)"
proof -
  define e1 where "e1 = start_discard_timer e"
  have same: "pe_cfg e1 = pe_cfg e" "pe_sec_cfg e1 = pe_sec_cfg e" "pe_lcid e1 = pe_lcid e" "tx_next e1 = tx_next e"
    by (simp_all add: e1_def start_discard_timer_def)
  then have f: "mac_i lib e1 = mac_i lib e" "crypt lib e1 = crypt lib e"
    by (intro security_functions_cong, simp_all)+
  define d where "d = pc_tx_direction (pe_cfg e)"
  define m where "m = bb_data sdu"
  have cfg: "cfg_ok (pe_cfg e1)" and sec: "sec_sizes (pe_sec_cfg e1)" using ok by (simp_all add: nr_ok_def same)
  have fit: "bb_ok sdu" "hdr_len (pe_cfg e) \<le> bb_msg sdu" "0 < length m"
    "bb_msg sdu + 2 * length m + hdr_len (pe_cfg e) + 4 \<le> MAX_BUFFER_SIZE_BYTES"
    using fits by (simp_all add: nr_sdu_fits_def m_def)
  have lm: "length m = unat (bb_N_bytes sdu)" using length_bb_data [OF fit(1)] by (simp add: m_def)
  have t: "take (unat (bb_N_bytes sdu)) (bb_mem sdu 0) = m" by (simp add: m_def bb_data_def)
  have tag: "integrity_generate lib e1 (bb_mem sdu 0) (bb_N_bytes sdu) (tx_next e) mac0 = Some (nr_tag lib mac0 e d (tx_next e) m)"
    using run_eia_any [OF lib _ _ bb_okD(1) [OF fit(1)] mac0, of e1 d "tx_next e"] fit lm
    by (simp add: integrity_generate_def nr_tag_def same d_def f t)
  have l4: "length (nr_tag lib mac0 e d (tx_next e) m) = 4" by (simp add: nr_tag_def length_mac_i [OF lib] mac0)
  have len: "0 < length (bb_data sdu)" "length (bb_data sdu) \<le> 9000" "unat (bb_N_bytes sdu) = length (bb_data sdu) - 0"
    using fit lm by (simp_all add: m_def flip: length_greater_0_conv)
  obtain b1 where b1: "map_option (bb_set_mem sdu 0) (run_eea lib e1 d (bb_mem sdu 0) (bb_N_bytes sdu) (tx_next e) (bb_mem sdu 0)) = Some b1"
    "bb_ok b1" "bb_msg b1 = bb_msg sdu" "bb_N_bytes b1 = bb_N_bytes sdu"
    "bb_data b1 = take 0 (bb_data sdu) @ crypt lib e1 d (tx_next e) (drop 0 (bb_data sdu))"
    by (rule crypt_payload [OF lib sec fit(1) len])
  have "hdr_len (pe_cfg e1) \<le> bb_msg b1" using fit b1(3) same by simp
  from write_data_header_spec [OF cfg b1(2) this, of "tx_next e"] obtain b2 where
    b2: "write_data_header e1 b1 (tx_next e) = Some b2" "bb_ok b2" "bb_msg b2 = bb_msg b1 - hdr_len (pe_cfg e1)"
      "bb_data b2 = pdcp_header (pe_cfg e) (tx_next e) @ crypt lib e d (tx_next e) m"
    using b1(5) by (auto simp: same f m_def)
  have lh: "length (pdcp_header (pe_cfg e) (tx_next e)) = hdr_len (pe_cfg e)"
    using length_pdcp_header [OF cfg] same by simp
  have "bb_msg b2 + 2 * length (bb_data b2) + 4 \<le> MAX_BUFFER_SIZE_BYTES"
    using fit b2 b1(3) lh same by (simp add: lib)
  from append_mac_spec [OF b2(2) this l4] obtain b3 where
    b3: "append_mac b2 (nr_tag lib mac0 e d (tx_next e) m) = Some b3" "bb_ok b3"
      "bb_data b3 = bb_data b2 @ nr_tag lib mac0 e d (tx_next e) m" by metis
  have "tx_next e + 1 \<noteq> 0" using over(2) by (metis add_diff_cancel diff_0)
  note nz = this
  have "nr_write_sdu lib mac0 e sdu = Some (e1\<lparr>tx_next := tx_next e + 1\<rparr>, [Rlc_write_sdu (pe_lcid e) b3])"
    unfolding nr_write_sdu_def if_not_P [OF over(1)] Let_def
    by (simp only: if_not_P [OF nz] e1_def [symmetric] same tag cipher_encrypt_def d_def [symmetric] b1(1) b2(1) b3(1) bind.bind_lunit)
  then show ?thesis using that b3 b2(4) by (simp add: e1_def nr_octets_def Let_def m_def d_def)
qed

definition nr_peer :: "pdcp_entity_nr \<Rightarrow> pdcp_entity_nr \<Rightarrow> bool" where
  "nr_peer e r \<longleftrightarrow>
    pc_rb_type (pe_cfg r) = pc_rb_type (pe_cfg e) \<and> pc_sn_len (pe_cfg r) = pc_sn_len (pe_cfg e) \<and>
    pc_bearer_id (pe_cfg r) = pc_bearer_id (pe_cfg e) \<and> pc_rx_direction (pe_cfg r) = pc_tx_direction (pe_cfg e) \<and>
    pe_sec_cfg r = pe_sec_cfg e \<and> sec_integ_algo (pe_sec_cfg e) \<noteq> EIA_N_ITEMS"

lemma nr_write_pdu_octets:
  assumes lib: "lib_ok lib" and oks: "nr_ok e" "nr_ok r" and peer: "nr_peer e r" and ok: "bb_ok pdu"
    and data: "bb_data pdu = nr_octets lib mac0 e m" and m: "m \<noteq> []" and mac0: "length mac0 = 4"
    and len: "length (bb_data pdu) \<le> 9000" and w: "in_window r (tx_next e)"
  obtains b where "nr_write_pdu lib r pdu = Some (nr_receive (tx_next e) b r)" "bb_ok b" "bb_data b = m"
proof -
  define count where "count = tx_next e"
  define d where "d = pc_tx_direction (pe_cfg e)"
  define tag where "tag = nr_tag lib mac0 e d count m"
  have cfg: "cfg_ok (pe_cfg e)" "cfg_ok (pe_cfg r)" and sec: "sec_sizes (pe_sec_cfg r)"
    using oks by (simp_all add: nr_ok_def)
  have k: "pe_sec_cfg r = pe_sec_cfg e" "pc_rx_direction (pe_cfg r) = d" using peer by (simp_all add: nr_peer_def d_def)
  have f: "mac_i lib r = mac_i lib e" "crypt lib r = crypt lib e"
    using peer by (intro security_functions_cong; simp add: nr_peer_def)+
  have h: "pdcp_header (pe_cfg r) = pdcp_header (pe_cfg e)" "SN (pe_cfg r) = SN (pe_cfg e)"
    "hdr_len (pe_cfg r) = hdr_len (pe_cfg e)"
    using peer cfg by (intro header_functions_cong; simp add: nr_peer_def)+
  have l4: "length tag = 4" by (simp add: tag_def nr_tag_def length_mac_i [OF lib] mac0)
  have octets: "bb_data pdu = pdcp_header (pe_cfg r) count @ crypt lib e d count m @ tag"
    by (simp add: data nr_octets_def Let_def count_def d_def tag_def h)
  have rest: "crypt lib e d count m @ tag \<noteq> []" using l4 by auto
  have lh: "length (pdcp_header (pe_cfg r) count) = hdr_len (pe_cfg r)" by (rule length_pdcp_header [OF cfg(2)])
  have rd: "read_data_header r pdu = Some (SN (pe_cfg r) count)"
    by (rule read_data_header_spec [OF cfg(2) ok octets rest])
  have N: "unat (bb_N_bytes pdu) = hdr_len (pe_cfg r) + length m + 4"
    using length_bb_data [OF ok] lh l4 by (simp add: octets lib)
  have big: "\<not> bb_N_bytes pdu \<le> ucast (pc_hdr_len_bytes (pe_cfg r))"
    using N by (simp add: word_le_nat_alt hdr_len_u32)
  define b1 where "b1 = discard_data_header r pdu"
  have hl: "hdr_len (pe_cfg r) \<le> length (bb_data pdu)" using octets lh by simp
  have b1: "bb_ok b1" "bb_data b1 = crypt lib e d count m @ tag"
    using discard_data_header_spec [OF cfg(2) ok hl] octets lh by (simp_all add: b1_def)
  have "4 \<le> length (bb_data b1)" using b1(2) l4 by simp
  from extract_mac_spec [OF b1(1) this, of None] obtain b2 where b2: "extract_mac b1 None = Some (b2, Some tag)" "bb_ok b2"
    "bb_data b2 = crypt lib e d count m" using b1(2) l4 by auto
  have c: "rcvd_count r (SN (pe_cfg r) count) = count"
    using oks(2) w by (intro rcvd_count_in_window cfg(2)) (simp_all add: nr_ok_def count_def)
  have lm: "0 < length (bb_data b2)" "length (bb_data b2) \<le> 9000" "unat (bb_N_bytes b2) = length (bb_data b2) - 0"
    using m b2(3) len octets length_bb_data [OF b2(2)] by (simp_all add: lib flip: length_greater_0_conv)
  obtain b3 where b3: "map_option (bb_set_mem b2 0) (run_eea lib r d (bb_mem b2 0) (bb_N_bytes b2) count (bb_mem b2 0)) = Some b3"
    "bb_ok b3" "bb_N_bytes b3 = bb_N_bytes b2" "bb_data b3 = take 0 (bb_data b2) @ crypt lib r d count (drop 0 (bb_data b2))"
    by (rule crypt_payload [OF lib sec b2(2) lm])
  have d3: "bb_data b3 = m" using b3(4) b2(3) by (simp add: f crypt_crypt [OF lib])
  have N3: "0 < unat (bb_N_bytes b3)" "unat (bb_N_bytes b3) < 2^23" using lm b3(3) by simp_all
  have t: "take (unat (bb_N_bytes b3)) (bb_mem b3 0) = m" using d3 by (simp add: bb_data_def)
  have v: "integrity_verify lib r (bb_mem b3 0) (bb_N_bytes b3) count (Some tag) = Some True"
    unfolding integrity_verify_spec [OF lib N3 bb_okD(1) [OF b3(2)] l4] t
    using peer by (cases "sec_integ_algo (pe_sec_cfg e)") (auto simp: tag_def nr_tag_def f k nr_peer_def)
  have "nr_write_pdu lib r pdu = Some (nr_receive count b3 r)"
    unfolding nr_write_pdu_def if_not_P [OF big] rd bind.bind_lunit Let_def b1_def [symmetric] b2(1) prod.case c
      cipher_decrypt_def k(2) b3(1) v by simp
  then show ?thesis using that b3(2) d3 by (simp add: count_def)
qed

section \<open>Reordering\<close>

lemma word_succ: "d \<noteq> - 1 \<Longrightarrow> unat (d + 1 :: u32) = Suc (unat d)"
proof -
  assume "d \<noteq> - 1"
  then have "unat d \<noteq> 2^32 - 1"
    by (auto simp: word_unat_eq_iff unsigned_minus_1_eq_mask mask_eq_exp_minus_1)
  then show ?thesis using unat_u32_less [of d] by (simp add: unat_word_ariths)
qed

lemma deliver_loop_spec:
  assumes "map_ok q" "\<And>c. c \<in> fst ` set q \<Longrightarrow> rx_deliv e \<le> c \<and> c \<noteq> - 1" "\<not> rx_overflow e"
  shows "\<exists>d' q'. deliver_loop q e = (e\<lparr>reorder_queue := q', rx_deliv := d'\<rparr>,
        map (\<lambda>i. pass_to_upper_layers e (the (map_of q (of_nat i)))) [unat (rx_deliv e)..<unat d']) \<and>
      rx_deliv e \<le> d' \<and> (\<forall>c. rx_deliv e \<le> c \<and> c < d' \<longrightarrow> map_of q c \<noteq> None) \<and> map_of q d' = None \<and> map_ok q' \<and>
      (\<forall>c. map_of q' c = (if d' \<le> c then map_of q c else None))"
  using assms
proof (induction q arbitrary: e)
  case Nil
  show ?case by (rule exI [of _ "rx_deliv e"], rule exI [of _ "[]"]) (auto simp: not_less)
next
  case (Cons x q)
  obtain c s where x: "x = (c, s)" by fastforce
  have keys: "\<And>a. a \<in> fst ` set q \<Longrightarrow> c < a" and ok: "map_ok q" using Cons.prems(1) by (auto simp: x)
  have absent: "map_of q a = None" if "a \<le> c" for a
    using keys that by (force simp: map_of_eq_None_iff)
  let ?d = "rx_deliv e"
  have c: "?d \<le> c" "c \<noteq> - 1" using Cons.prems(2) [of c] by (simp_all add: x)
  show ?case
  proof (cases "c = ?d")
    case False
    then have "map_of (x # q) ?d = None" using c absent [of ?d] by (simp add: x)
    moreover have "map_of (x # q) a = None" if "\<not> ?d \<le> a" for a
      using that c absent [of a] by (auto simp: x)
    ultimately show ?thesis
      using False Cons.prems(1) by (intro exI [of _ ?d] exI [of _ "x # q"]) (auto simp: x)
  next
    case True
    define e1 where "e1 = e\<lparr>rx_deliv := ?d + 1\<rparr>"
    have nz: "?d + 1 \<noteq> 0" using c True by (metis add_diff_cancel diff_0)
    have suc: "unat (?d + 1) = Suc (unat ?d)" using c True by (intro word_succ) simp
    have keys1: "a \<in> fst ` set q \<Longrightarrow> rx_deliv e1 \<le> a \<and> a \<noteq> - 1" for a
      using keys [of a] Cons.prems(2) [of a] True suc by (auto simp: x e1_def word_le_nat_alt word_less_nat_alt)
    have "\<not> rx_overflow e1" using Cons.prems(3) by (simp add: e1_def)
    from Cons.IH [OF ok keys1 this] obtain d' q' where IH: "deliver_loop q e1 = (e1\<lparr>reorder_queue := q', rx_deliv := d'\<rparr>,
        map (\<lambda>i. pass_to_upper_layers e1 (the (map_of q (of_nat i)))) [unat (?d + 1)..<unat d'])"
      "?d + 1 \<le> d'" "\<And>a. ?d + 1 \<le> a \<Longrightarrow> a < d' \<Longrightarrow> map_of q a \<noteq> None" "map_of q d' = None" "map_ok q'"
      "\<And>a. map_of q' a = (if d' \<le> a then map_of q a else None)"
      by (auto simp: e1_def)
    have less: "unat ?d < unat d'" using IH(2) suc by (simp add: word_le_nat_alt)
    have pass: "pass_to_upper_layers e1 = pass_to_upper_layers e"
      by (simp add: fun_eq_iff pass_to_upper_layers_def e1_def is_srb_def)
    have "deliver_loop (x # q) e = (e\<lparr>reorder_queue := q', rx_deliv := d'\<rparr>,
        map (\<lambda>i. pass_to_upper_layers e (the (map_of (x # q) (of_nat i)))) [unat ?d..<unat d'])"
    proof -
      have up: "[unat ?d..<unat d'] = unat ?d # [Suc (unat ?d)..<unat d']" using less by (rule upt_conv_Cons)
      have m: "map (\<lambda>i. pass_to_upper_layers e (the (map_of (x # q) (of_nat i)))) [Suc (unat ?d)..<unat d']
          = map (\<lambda>i. pass_to_upper_layers e (the (map_of q (of_nat i)))) [Suc (unat ?d)..<unat d']"
      proof (rule map_cong [OF refl])
        fix i assume i: "i \<in> set [Suc (unat ?d)..<unat d']"
        have "i < 2^32" using i unat_u32_less [of d'] by auto
        then have "unat (of_nat i :: u32) = i" by (simp add: unat_of_nat)
        then have "(of_nat i :: u32) \<noteq> ?d" using i by (metis atLeastLessThan_iff atLeastLessThan_upt not_less_eq_eq order_refl)
        then show "pass_to_upper_layers e (the (map_of (x # q) (of_nat i))) = pass_to_upper_layers e (the (map_of q (of_nat i)))"
          using True by (simp add: x)
      qed
      have "deliver_loop (x # q) e = (case deliver_loop q e1 of (e2, evs) \<Rightarrow> (e2, pass_to_upper_layers e s # evs))"
        using True Cons.prems(3) nz by (simp add: x e1_def Let_def)
      also have "\<dots> = (e\<lparr>reorder_queue := q', rx_deliv := d'\<rparr>, pass_to_upper_layers e s #
          map (\<lambda>i. pass_to_upper_layers e (the (map_of q (of_nat i)))) [Suc (unat ?d)..<unat d'])"
        by (simp add: IH(1) pass suc) (simp add: e1_def)
      also have "\<dots> = (e\<lparr>reorder_queue := q', rx_deliv := d'\<rparr>,
          map (\<lambda>i. pass_to_upper_layers e (the (map_of (x # q) (of_nat i)))) [unat ?d..<unat d'])"
        unfolding up list.map m using True by (simp add: x)
      finally show ?thesis .
    qed
    moreover have "map_of (x # q) a \<noteq> None" if "?d \<le> a" "a < d'" for a
    proof (cases "a = ?d")
      case False
      then have "?d + 1 \<le> a"
        using that(1) suc unsigned_word_eqI [of a ?d] by (cases "unat a = unat ?d") (auto simp: word_le_nat_alt)
      then show ?thesis using IH(3) [OF _ that(2)] by (auto simp: x)
    qed (simp add: x True)
    moreover have "d' \<noteq> c" using less True by auto
    moreover have "?d \<le> d'" "\<not> d' \<le> ?d" using less by (simp_all add: word_le_nat_alt)
    ultimately show ?thesis
      using IH(4-6) True by (intro exI [of _ d'] exI [of _ q']) (auto simp: x)
  qed
qed

fun nr_receive_all :: "(u32 \<times> byte_buffer) list \<Rightarrow> pdcp_entity_nr \<Rightarrow> pdcp_entity_nr \<times> pdcp_event list" where
  "nr_receive_all [] e = (e, [])"
| "nr_receive_all ((count, pdu) # rcv) e =
    (let (e, evs) = nr_receive count pdu e; (e, evs') = nr_receive_all rcv e in (e, evs @ evs'))"

text \<open>What is passed on and what waits, after \<open>rcv\<close>: the first SDU of each COUNT.\<close>

definition rx_inv :: "(u32 \<times> byte_buffer) list \<Rightarrow> pdcp_entity_nr \<Rightarrow> pdcp_event list \<Rightarrow> bool" where
  "rx_inv rcv e out \<longleftrightarrow> map_ok (reorder_queue e) \<and> \<not> rx_overflow e \<and>
    (\<forall>c. map_find c (reorder_queue e) = (if rx_deliv e \<le> c then map_of rcv c else None)) \<and>
    (\<forall>c < rx_deliv e. map_of rcv c \<noteq> None) \<and> map_of rcv (rx_deliv e) = None \<and>
    out = map (\<lambda>i. pass_to_upper_layers e (the (map_of rcv (of_nat i)))) [0..<unat (rx_deliv e)]"

lemma restart_reordering_fields [simp]:
  "reorder_queue (restart_reordering e) = reorder_queue e" "rx_deliv (restart_reordering e) = rx_deliv e"
  "rx_overflow (restart_reordering e) = rx_overflow e"
  "pass_to_upper_layers (restart_reordering e) = pass_to_upper_layers e"
  by (simp_all add: restart_reordering_def Let_def fun_eq_iff pass_to_upper_layers_def is_srb_def)

lemma pass_update: "pass_to_upper_layers (e\<lparr>reorder_queue := q, rx_deliv := d\<rparr>) = pass_to_upper_layers e"
  by (simp add: fun_eq_iff pass_to_upper_layers_def is_srb_def)

lemma map_of_snoc: "map_of (rcv @ [(c, p)]) k = (case map_of rcv k of None \<Rightarrow> if k = c then Some p else None | Some v \<Rightarrow> Some v)"
  by (auto simp: map_of_append map_add_def split: option.split)

lemma rx_inv_step:
  assumes inv: "rx_inv rcv e out" and c: "c \<noteq> - 1" "\<forall>x \<in> set rcv. fst x \<noteq> - 1" and r: "nr_receive c p e = (e', evs)"
  shows "rx_inv (rcv @ [(c, p)]) e' (out @ evs) \<and> pass_to_upper_layers e' = pass_to_upper_layers e"
proof -
  let ?rcv = "rcv @ [(c, p)]"
  note i = inv [unfolded rx_inv_def]
  consider (old) "map_of rcv c \<noteq> None" "e' = e" "evs = []" | (new) "map_of rcv c = None" "rx_deliv e \<le> c"
    using r i by (cases "c < rx_deliv e"; cases "map_of rcv c")
      (auto simp: nr_receive_def not_less)
  then show ?thesis
  proof cases
    case old
    then have "map_of ?rcv = map_of rcv"
      by (auto simp: fun_eq_iff map_of_snoc simp del: map_of_append split: option.split)
    then show ?thesis using i old by (simp add: rx_inv_def)
  next
    case new
    have find: "map_find c (reorder_queue e) = None" using i new by simp
    define q where "q = map_assign c p (reorder_queue e)"
    define e1 where "e1 = (let e = e\<lparr>reorder_queue := q\<rparr> in if rx_next e \<le> c then e\<lparr>rx_next := c + 1\<rparr> else e)"
    have e1: "reorder_queue e1 = q" "rx_deliv e1 = rx_deliv e" "rx_overflow e1 = rx_overflow e"
      "pass_to_upper_layers e1 = pass_to_upper_layers e"
      by (simp_all add: e1_def Let_def fun_eq_iff pass_to_upper_layers_def is_srb_def)
    have ok: "map_ok q" using i by (simp add: q_def map_assign_ok)
    have "map_find k q = (if rx_deliv e \<le> k then map_of ?rcv k else None)" for k
      using i new by (auto simp: q_def map_find_assign map_of_snoc simp del: map_of_append split: option.split)
    then have q: "map_of q k = (if rx_deliv e \<le> k then map_of ?rcv k else None)" for k by (simp only: map_find_eq)
    have step: "nr_receive c p e = (let (e, evs) = (if c = rx_deliv e then deliver_loop q e1 else (e1, []))
        in (restart_reordering e, evs))"
      using new find by (simp add: nr_receive_def Let_def deliver_all_consecutive_counts_def e1_def flip: q_def)
    show ?thesis
    proof (cases "c = rx_deliv e")
      case False
      have "map_of ?rcv k = map_of rcv k" if "k \<le> rx_deliv e" for k
        using that False new by (auto simp: map_of_snoc simp del: map_of_append split: option.split)
      moreover have "out = map (\<lambda>i. pass_to_upper_layers e (the (map_of ?rcv (of_nat i)))) [0..<unat (rx_deliv e)]"
      proof -
        have "(of_nat i :: u32) \<le> rx_deliv e" if "i < unat (rx_deliv e)" for i
          using that unat_u32_less [of "rx_deliv e"] by (simp add: word_le_nat_alt unat_of_nat)
        then show ?thesis using i calculation by simp
      qed
      ultimately show ?thesis
        using r step False ok q i e1 by (auto simp: rx_inv_def map_find_eq)
    next
      case True
      have keys: "rx_deliv e1 \<le> k \<and> k \<noteq> - 1" if "k \<in> fst ` set q" for k
      proof -
        have "map_of q k \<noteq> None" using that by (simp add: map_of_eq_None_iff)
        then have "rx_deliv e \<le> k" "map_of ?rcv k \<noteq> None" using q by (auto split: if_splits)
        moreover have "k \<in> fst ` set ?rcv" using calculation(2) by (simp only: map_of_eq_None_iff) simp
        ultimately show ?thesis using c e1 by auto
      qed
      have "\<not> rx_overflow e1" using i e1 by simp
      from deliver_loop_spec [OF ok keys this] obtain d' q' where d: "deliver_loop q e1 = (e1\<lparr>reorder_queue := q', rx_deliv := d'\<rparr>,
          map (\<lambda>i. pass_to_upper_layers e (the (map_of q (of_nat i)))) [unat (rx_deliv e)..<unat d'])"
        "rx_deliv e \<le> d'" "\<And>k. rx_deliv e \<le> k \<Longrightarrow> k < d' \<Longrightarrow> map_of q k \<noteq> None" "map_of q d' = None" "map_ok q'"
        "\<And>k. map_of q' k = (if d' \<le> k then map_of q k else None)"
        unfolding e1(2,4) by blast
      have e': "e' = restart_reordering (e1\<lparr>reorder_queue := q', rx_deliv := d'\<rparr>)"
        "evs = map (\<lambda>i. pass_to_upper_layers e (the (map_of q (of_nat i)))) [unat (rx_deliv e)..<unat d']"
        using r step True d(1) by simp_all
      have same: "map_of ?rcv k = map_of rcv k" if "k < rx_deliv e" for k
        using that True by (auto simp: map_of_snoc simp del: map_of_append split: option.split)
      have pass: "pass_to_upper_layers e' = pass_to_upper_layers e"
        by (simp add: e' e1(4) pass_update)
      have small: "(of_nat j :: u32) < w \<longleftrightarrow> j < unat w" if "j < 2^32" for j w
        using that by (simp add: word_less_nat_alt unat_of_nat)
      have lim: "unat d' < 2^32" "unat (rx_deliv e) \<le> unat d'" using unat_u32_less d(2) by (simp_all add: word_le_nat_alt)
      have "out = map (\<lambda>i. pass_to_upper_layers e (the (map_of ?rcv (of_nat i)))) [0..<unat (rx_deliv e)]"
        using i lim same small by (simp add: list_eq_iff_nth_eq)
      moreover have "evs = map (\<lambda>i. pass_to_upper_layers e (the (map_of ?rcv (of_nat i)))) [unat (rx_deliv e)..<unat d']"
      proof -
        have "rx_deliv e \<le> of_nat j" if "unat (rx_deliv e) \<le> j" "j < unat d'" for j
          using that lim by (simp add: word_le_nat_alt unat_of_nat)
        then show ?thesis unfolding e'(2) by (intro map_cong refl) (simp add: q del: map_of_append)
      qed
      ultimately have "out @ evs = map (\<lambda>i. pass_to_upper_layers e (the (map_of ?rcv (of_nat i)))) [0..<unat d']"
        using upt_add_eq_append [of 0 "unat (rx_deliv e)" "unat d' - unat (rx_deliv e)"] lim by simp
      moreover have "map_of ?rcv k \<noteq> None" if "k < d'" for k
        using d(3) [of k] that same [of k] i q [of k] by (cases "k < rx_deliv e") (auto simp: not_less)
      moreover have "map_of ?rcv d' = None" using d(2,4) q by simp
      moreover have "map_find k q' = (if d' \<le> k then map_of ?rcv k else None)" for k
        using d(6) q [of k] d(2) by (auto simp: map_find_eq)
      ultimately show ?thesis
        using pass d(5) i e1 by (auto simp: rx_inv_def e')
    qed
  qed
qed

lemma nr_receive_all_inv:
  "rx_inv rcv0 e out \<Longrightarrow> \<forall>x \<in> set (rcv0 @ rcv). fst x \<noteq> - 1 \<Longrightarrow> nr_receive_all rcv e = (e', evs) \<Longrightarrow>
   rx_inv (rcv0 @ rcv) e' (out @ evs) \<and> pass_to_upper_layers e' = pass_to_upper_layers e"
proof (induction rcv arbitrary: rcv0 e out evs)
  case (Cons x rcv)
  obtain c p where x: "x = (c, p)" by fastforce
  obtain e1 evs1 where r: "nr_receive c p e = (e1, evs1)" by fastforce
  obtain evs2 where r2: "nr_receive_all rcv e1 = (e', evs2)" "evs = evs1 @ evs2"
    using Cons.prems(3) by (auto simp: x r split: prod.splits)
  have s: "rx_inv (rcv0 @ [(c, p)]) e1 (out @ evs1)" "pass_to_upper_layers e1 = pass_to_upper_layers e"
    using rx_inv_step [OF Cons.prems(1) _ _ r] Cons.prems(2) by (auto simp: x)
  from Cons.IH [OF s(1) _ r2(1)] Cons.prems(2) show ?case by (simp add: x r2(2) s(2))
qed simp

section \<open>Expiry of the reordering timer\<close>

lemma deliver_before_spec:
  "map_ok q \<Longrightarrow> deliver_before reord q e = (evs, q') \<Longrightarrow>
   q' = filter (\<lambda>x. reord \<le> fst x) q \<and>
   evs = map (\<lambda>x. pass_to_upper_layers e (snd x)) (filter (\<lambda>x. fst x < reord) q)"
proof (induction q arbitrary: evs q')
  case (Cons x q)
  obtain c s where x: "x = (c, s)" by fastforce
  show ?case
  proof (cases "c < reord")
    case True
    then show ?thesis using Cons by (auto simp: x not_le split: prod.splits)
  next
    case False
    then have "\<forall>y \<in> set q. reord \<le> fst y" using Cons.prems(1) by (force simp: x)
    then have "filter (\<lambda>x. reord \<le> fst x) q = q" "filter (\<lambda>x. fst x < reord) q = []"
      by (auto simp: filter_empty_conv not_less)
    moreover have "q' = (c, s) # q" "evs = []" using Cons.prems(2) False by (simp_all add: x)
    ultimately show ?thesis using False by (simp add: x not_less)
  qed
qed simp

lemma deliver_loop_stuck:
  assumes "\<And>x. x \<in> set q \<Longrightarrow> fst x \<noteq> rx_deliv e"
  shows "deliver_loop q e = (e\<lparr>reorder_queue := q\<rparr>, [])"
proof (cases q)
  case (Cons x l)
  then have "fst x \<noteq> rx_deliv e" using assms by simp
  then show ?thesis by (cases x) (simp add: Cons)
qed simp

text \<open>
  While the first COUNT waited for is missing, an expiry passes on the SDUs below \<open>rx_reord\<close> and leaves
  \<open>rx_deliv\<close> where it is.
\<close>

lemma reordering_expired_gap:
  assumes ok: "map_ok (reorder_queue e)" and gap: "map_find (rx_deliv e) (reorder_queue e) = None"
    and t: "0 < pc_t_reordering (pe_cfg e)" and "rx_deliv e < rx_next e"
  shows "reordering_expired e = (e\<lparr>reorder_queue := filter (\<lambda>x. rx_reord e \<le> fst x) (reorder_queue e),
      rx_reord := rx_next e, reordering_timer_running := True\<rparr>,
      map (\<lambda>x. pass_to_upper_layers e (snd x)) (filter (\<lambda>x. fst x < rx_reord e) (reorder_queue e)))"
proof -
  define e1 where "e1 = e\<lparr>reordering_timer_running := False\<rparr>"
  let ?q = "filter (\<lambda>x. rx_reord e \<le> fst x) (reorder_queue e)"
  obtain evs q where b: "deliver_before (rx_reord e) (reorder_queue e) e1 = (evs, q)" by fastforce
  have pass: "pass_to_upper_layers e1 = pass_to_upper_layers e"
    by (simp add: e1_def fun_eq_iff pass_to_upper_layers_def is_srb_def)
  have q: "q = ?q" "evs = map (\<lambda>x. pass_to_upper_layers e (snd x)) (filter (\<lambda>x. fst x < rx_reord e) (reorder_queue e))"
    using deliver_before_spec [OF ok b] by (simp_all add: pass)
  have "fst x \<noteq> rx_deliv (e1\<lparr>reorder_queue := q\<rparr>)" if "x \<in> set q" for x
    using that gap by (force simp: q e1_def map_find_eq map_of_eq_None_iff)
  from deliver_loop_stuck [OF this] have "deliver_all_consecutive_counts (e1\<lparr>reorder_queue := q\<rparr>) = (e1\<lparr>reorder_queue := q\<rparr>, [])"
    by (simp add: deliver_all_consecutive_counts_def)
  then show ?thesis
    using t b assms(4) by (simp add: reordering_expired_def reordering_callback_def Let_def q flip: e1_def)
      (simp add: e1_def)
qed

section \<open>Properties\<close>

definition sample_nr :: "security_direction \<Rightarrow> security_direction \<Rightarrow> pdcp_entity_nr" where
  "sample_nr tx rx = pdcp_entity_nr_new 4 (pdcp_config_t 1 PDCP_RB_IS_DRB tx rx PDCP_SN_LEN_18 10 0)"

lemma sample_nr_ok: "nr_ok (sample_nr tx rx)"
  by (simp add: nr_ok_def sample_nr_def pdcp_entity_nr_new_def pdcp_config_t_ok)
    (simp add: pdcp_config_t_def PDCP_SN_LEN_18_def sec_sizes_def as_security_config_zero_def)

text \<open>
  Claim C17. An NR entity sends each SDU so that a peer with the same keys takes it in under the COUNT it was sent
  with, whatever that COUNT is, as long as it lies within half the sequence number space of the first COUNT the
  peer waits for: header, estimate of COUNT, deciphering and integrity check undo what the sender did.
\<close>

theorem pdcp_nr_transport:
  assumes "lib_ok lib" "nr_ok e" "nr_ok r" "nr_peer e r" "nr_sdu_fits e sdu" "length mac0 = 4"
    and "\<not> tx_overflow e" "tx_next e \<noteq> - 1" "in_window r (tx_next e)"
  shows "\<exists>e' pdu. nr_write_sdu lib mac0 e sdu = Some (e', [Rlc_write_sdu (pe_lcid e) pdu]) \<and> tx_next e' = tx_next e + 1 \<and>
    (\<forall>pdu'. bb_ok pdu' \<and> bb_data pdu' = bb_data pdu \<longrightarrow>
       (\<exists>b. nr_write_pdu lib r pdu' = Some (nr_receive (tx_next e) b r) \<and> bb_data b = bb_data sdu))"
proof -
  obtain p where p: "nr_write_sdu lib mac0 e sdu
      = Some ((start_discard_timer e)\<lparr>tx_next := tx_next e + 1\<rparr>, [Rlc_write_sdu (pe_lcid e) p])" "bb_ok p"
    "bb_data p = nr_octets lib mac0 e (bb_data sdu)"
    by (rule nr_write_sdu_octets [OF assms(1,2,5-8)])
  have cfg: "cfg_ok (pe_cfg e)" using assms(2) by (simp add: nr_ok_def)
  have m: "bb_data sdu \<noteq> []" using assms(5) by (simp add: nr_sdu_fits_def)
  have "length (bb_data p) \<le> 9000"
    using p(3) assms(1,5,6) length_pdcp_header [OF cfg, of "tx_next e"] hdr_len_pos [OF cfg]
    by (simp add: nr_octets_def Let_def nr_tag_def length_mac_i nr_sdu_fits_def)
  then have "\<exists>b. nr_write_pdu lib r pdu' = Some (nr_receive (tx_next e) b r) \<and> bb_data b = bb_data sdu"
    if "bb_ok pdu' \<and> bb_data pdu' = bb_data p" for pdu'
    using that p(3) nr_write_pdu_octets [OF assms(1-4) _ _ m assms(6) _ assms(9), of pdu'] by metis
  then show ?thesis using p(1) by auto
qed

theorem pdcp_nr_transport_witness:
  "\<exists>e' pdu. nr_write_sdu sample_pdcp_lib (replicate 4 7) (sample_nr SECURITY_DIRECTION_UPLINK SECURITY_DIRECTION_DOWNLINK)
      (sample_sdu 3) = Some (e', [Rlc_write_sdu 4 pdu]) \<and> tx_next e' = 1"
proof -
  let ?e = "sample_nr SECURITY_DIRECTION_UPLINK SECURITY_DIRECTION_DOWNLINK"
  let ?r = "sample_nr SECURITY_DIRECTION_DOWNLINK SECURITY_DIRECTION_UPLINK"
  have f: "nr_peer ?e ?r" "\<not> tx_overflow ?e" "tx_next ?e = 0" "in_window ?r 0" "pe_lcid ?e = 4"
    by (simp_all add: nr_peer_def sample_nr_def pdcp_entity_nr_new_def pdcp_config_t_def as_security_config_zero_def
        in_window_def PDCP_SN_LEN_18_def)
  have fit: "nr_sdu_fits ?e (sample_sdu 3)"
    by (simp add: nr_sdu_fits_def sample_sdu_fields sample_nr_def pdcp_entity_nr_new_def hdr_len_def pdcp_config_t_def
        PDCP_SN_LEN_18_def)
  show ?thesis
    using pdcp_nr_transport [OF sample_pdcp_lib_ok sample_nr_ok sample_nr_ok f(1) fit, of "replicate 4 7"] f(2-5)
    by fastforce
qed

text \<open>
  Claim C9. While the reordering timer does not expire, the NR receiver passes on, in order of COUNT and once each,
  the SDUs up to the first COUNT that was never received, the first copy of each, in whatever order and however
  often the PDUs arrive.
\<close>

theorem pdcp_nr_in_order:
  assumes "nr_receive_all rcv (pdcp_entity_nr_new lcid cfg) = (e, evs)" "\<forall>(count, pdu) \<in> set rcv. count \<noteq> - 1"
  shows "evs = map (\<lambda>i. pass_to_upper_layers e (the (map_of rcv (of_nat i)))) [0..<unat (rx_deliv e)] \<and>
    (\<forall>count < rx_deliv e. map_of rcv count \<noteq> None) \<and> map_of rcv (rx_deliv e) = None"
proof -
  have "rx_inv [] (pdcp_entity_nr_new lcid cfg) []" by (simp add: rx_inv_def pdcp_entity_nr_new_def)
  from nr_receive_all_inv [OF this _ assms(1)] have "rx_inv rcv e evs" using assms(2) by fastforce
  then show ?thesis by (simp add: rx_inv_def)
qed

theorem pdcp_nr_in_order_witness:
  "snd (nr_receive_all [(1, sample_sdu 1), (0, sample_sdu 2), (1, sample_sdu 3)] (sample_nr SECURITY_DIRECTION_UPLINK
      SECURITY_DIRECTION_DOWNLINK)) = [Gw_write_pdu 4 (sample_sdu 2), Gw_write_pdu 4 (sample_sdu 1)]"
proof -
  let ?rcv = "[(1 :: u32, sample_sdu 1), (0, sample_sdu 2), (1, sample_sdu 3)]"
  let ?c = "pdcp_config_t 1 PDCP_RB_IS_DRB SECURITY_DIRECTION_UPLINK SECURITY_DIRECTION_DOWNLINK PDCP_SN_LEN_18 10 0"
  obtain e evs where r: "nr_receive_all ?rcv (pdcp_entity_nr_new 4 ?c) = (e, evs)" by fastforce
  have n: "\<forall>(count, pdu) \<in> set ?rcv. count \<noteq> - 1"
    by (simp add: word_unat_eq_iff unsigned_minus_1_eq_mask mask_eq_exp_minus_1)
  note p = pdcp_nr_in_order [OF r n]
  have "rx_inv [] (pdcp_entity_nr_new 4 ?c) []" by (simp add: rx_inv_def pdcp_entity_nr_new_def)
  from nr_receive_all_inv [OF this _ r] have pass: "pass_to_upper_layers e b = Gw_write_pdu 4 b" for b
    by (simp add: pass_to_upper_layers_def pdcp_entity_nr_new_def is_srb_def pdcp_config_t_def)
  have "rx_deliv e \<noteq> 0" "rx_deliv e \<noteq> 1" "\<not> 2 < rx_deliv e" using p by (auto split: if_splits)
  then have "unat (rx_deliv e) = 2"
    by (simp add: word_less_nat_alt word_unat_eq_iff)
  then have "evs = [Gw_write_pdu 4 (sample_sdu 2), Gw_write_pdu 4 (sample_sdu 1)]"
    using p by (simp add: pass upt_rec)
  then show ?thesis using r by (simp add: sample_nr_def)
qed

text \<open>
  Claim C31. An expiry of the reordering timer passes on the SDUs that wait behind a gap but does not move the gap:
  \<open>rx_deliv\<close> still names the missing COUNT, so that a repeated PDU is accepted and passed on a second time.
\<close>

theorem pdcp_nr_redelivery:
  assumes "map_ok (reorder_queue e)" "map_find (rx_deliv e) (reorder_queue e) = None" "map_find k (reorder_queue e) = Some sdu"
    and "rx_deliv e < k" "k < rx_reord e" "rx_reord e \<le> rx_next e" "0 < pc_t_reordering (pe_cfg e)"
    and "reordering_expired e = (e1, evs1)" "nr_receive k sdu e1 = (e2, evs2)" "reordering_expired e2 = (e3, evs3)"
  shows "rx_deliv e3 = rx_deliv e \<and> pass_to_upper_layers e sdu \<in> set evs1 \<and> pass_to_upper_layers e sdu \<in> set evs3"
proof -
  have d: "rx_deliv e < rx_next e" using assms(4-6) by simp
  note x1 = reordering_expired_gap [OF assms(1,2,7) d]
  have in_q: "(k, sdu) \<in> set (reorder_queue e)" using assms(3) by (simp add: map_find_eq map_of_SomeD)
  then have ev1: "pass_to_upper_layers e sdu \<in> set evs1" using assms(5,8) x1 by force
  let ?q = "filter (\<lambda>x. rx_reord e \<le> fst x) (reorder_queue e)"
  have e1: "e1 = e\<lparr>reorder_queue := ?q, rx_reord := rx_next e, reordering_timer_running := True\<rparr>" using assms(8) x1 by simp
  have okq: "map_ok ?q" using assms(1) by (simp add: map_ok_def sorted_wrt_map sorted_wrt_filter)
  have find: "map_find k ?q = None" "map_find (rx_deliv e) ?q = None"
    using assms(4,5) by (auto simp: map_find_eq map_of_eq_None_iff)
  have n: "\<not> rx_next e \<le> k" "\<not> k < rx_deliv e" "k \<noteq> rx_deliv e" "\<not> rx_next e \<le> rx_deliv e" using assms(4-6) by auto
  have e2: "e2 = e1\<lparr>reorder_queue := map_assign k sdu ?q\<rparr>"
    using assms(9) n find by (simp add: nr_receive_def e1 restart_reordering_def Let_def)
  have ok2: "map_ok (reorder_queue e2)" using okq by (simp add: e2 map_assign_ok)
  have gap2: "map_find (rx_deliv e2) (reorder_queue e2) = None"
    using n find(2) okq by (simp add: e2 e1 map_find_assign)
  have t2: "0 < pc_t_reordering (pe_cfg e2)" "rx_deliv e2 < rx_next e2" using assms(7) d by (simp_all add: e2 e1)
  have pass: "pass_to_upper_layers e2 = pass_to_upper_layers e"
    by (simp add: e2 e1 fun_eq_iff pass_to_upper_layers_def is_srb_def)
  note x2 = reordering_expired_gap [OF ok2 gap2 t2]
  have "map_find k (reorder_queue e2) = Some sdu" using okq by (simp add: e2 map_find_assign)
  then have "(k, sdu) \<in> set (reorder_queue e2)" by (simp add: map_find_eq map_of_SomeD)
  then have "(k, sdu) \<in> set (filter (\<lambda>x. fst x < rx_reord e2) (reorder_queue e2))" using n(1) by (simp add: e2 e1)
  moreover have "evs3 = map (\<lambda>x. pass_to_upper_layers e2 (snd x)) (filter (\<lambda>x. fst x < rx_reord e2) (reorder_queue e2))"
    using assms(10) x2 by simp
  ultimately have "pass_to_upper_layers e sdu \<in> set evs3" by (force simp: pass)
  moreover have "rx_deliv e3 = rx_deliv e" using assms(10) x2 by (auto simp: e2 e1)
  ultimately show ?thesis using ev1 by simp
qed

theorem pdcp_nr_redelivery_witness:
  "\<exists>e1 e2 e3 evs1 evs2 evs3 sdu.
     reordering_expired (fst (nr_receive 1 sdu (sample_nr SECURITY_DIRECTION_UPLINK SECURITY_DIRECTION_DOWNLINK))) = (e1, evs1) \<and>
     nr_receive 1 sdu e1 = (e2, evs2) \<and> reordering_expired e2 = (e3, evs3) \<and> rx_deliv e3 = 0 \<and>
     Gw_write_pdu 4 sdu \<in> set evs1 \<and> Gw_write_pdu 4 sdu \<in> set evs3"
proof -
  let ?e = "fst (nr_receive 1 (sample_sdu 1) (sample_nr SECURITY_DIRECTION_UPLINK SECURITY_DIRECTION_DOWNLINK))"
  have f: "reorder_queue ?e = [(1, sample_sdu 1)]" "rx_deliv ?e = 0" "rx_reord ?e = 2" "rx_next ?e = 2"
    "pe_cfg ?e = pdcp_config_t 1 PDCP_RB_IS_DRB SECURITY_DIRECTION_UPLINK SECURITY_DIRECTION_DOWNLINK PDCP_SN_LEN_18 10 0"
    "pe_lcid ?e = 4"
    by (simp_all add: nr_receive_def sample_nr_def pdcp_entity_nr_new_def Let_def map_assign_def restart_reordering_def)
  have p: "pass_to_upper_layers ?e b = Gw_write_pdu 4 b" for b
    by (simp add: pass_to_upper_layers_def f is_srb_def pdcp_config_t_def)
  obtain e1 evs1 where 1: "reordering_expired ?e = (e1, evs1)" by fastforce
  obtain e2 evs2 where 2: "nr_receive 1 (sample_sdu 1) e1 = (e2, evs2)" by fastforce
  obtain e3 evs3 where 3: "reordering_expired e2 = (e3, evs3)" by fastforce
  show ?thesis
    using pdcp_nr_redelivery [of ?e 1 "sample_sdu 1", OF _ _ _ _ _ _ _ 1 2 3] 1 2 3
    unfolding f p by (fastforce simp: pdcp_config_t_def)
qed

end
