(* ===== verification/Asn1_Bits.thy ===== *)
theory Asn1_Bits
  imports Prelude
begin

text \<open>
  The bit cursor of the ASN.1 library: \<open>bit_ref_impl\<close>, \<open>bit_ref\<close> and \<open>unpack_bits\<close> of
  \<^verbatim>\<open>lib/include/srslte/asn1/asn1_utils.h\<close> and \<^verbatim>\<open>lib/src/asn1/asn1_utils.cc\<close>. A cursor is the record
  \<open>bit_ref\<close>: the octets from \<open>start_ptr\<close> to \<open>max_ptr\<close>, the index of the current octet and the bit offset
  in it. Reading and writing are refined to bit lists: \<open>written\<close> is what lies before the cursor, \<open>ahead\<close> what lies
  after it, and \<open>pack\<close> appends the \<open>n\<close> low bits of a number, most significant first, to \<open>written\<close>.
\<close>

unbundle bit_operations_syntax

section \<open>Model\<close>

datatype SRSASN_CODE = SRSASN_SUCCESS | SRSASN_ERROR_ENCODE_FAIL | SRSASN_ERROR_DECODE_FAIL

record bit_ref =
  br_mem :: bytes
  br_ptr :: nat
  br_offset :: nat

definition bit_ref_new :: "bytes \<Rightarrow> bit_ref" where
  "bit_ref_new mem = \<lparr>br_mem = mem, br_ptr = 0, br_offset = 0\<rparr>"

definition distance :: "bit_ref \<Rightarrow> nat" where
  "distance b = br_offset b + 8 * br_ptr b"

definition distance_bytes :: "bit_ref \<Rightarrow> nat" where
  "distance_bytes b = br_ptr b + (if br_offset b \<noteq> 0 then 1 else 0)"

text \<open>
  \<open>HANDLE_CODE\<close>: an operation returns its code and the cursor, and the first failure ends the sequence. Reading
  gives the value with the cursor, or the code of the failure; the callers drop a value that failed to decode.
\<close>

type_synonym packed = "SRSASN_CODE \<times> bit_ref"
type_synonym 'a read = "SRSASN_CODE \<times> 'a \<times> bit_ref"
type_synonym 'a unpacked = "SRSASN_CODE + 'a \<times> bit_ref"

fun pthen :: "packed \<Rightarrow> (bit_ref \<Rightarrow> packed) \<Rightarrow> packed" where
  "pthen (SRSASN_SUCCESS, b) f = f b"
| "pthen (c, b) f = (c, b)"

fun uthen :: "'a unpacked \<Rightarrow> ('a \<Rightarrow> bit_ref \<Rightarrow> 'b unpacked) \<Rightarrow> 'b unpacked" where
  "uthen (Inl c) f = Inl c"
| "uthen (Inr (v, b)) f = f v b"

fun handled :: "'a read \<Rightarrow> 'a unpacked" where
  "handled (SRSASN_SUCCESS, v, b) = Inr (v, b)"
| "handled (c, v, b) = Inl c"

fun rthen :: "'a read \<Rightarrow> 'b \<Rightarrow> ('a \<Rightarrow> bit_ref \<Rightarrow> 'b read) \<Rightarrow> 'b read" where
  "rthen (SRSASN_SUCCESS, v, b) w f = f v b"
| "rthen (c, v, b) w f = (c, w, b)"

text \<open>The writing loop of \<open>bit_ref::pack\<close>; at most one octet is completed per round.\<close>

function pack_loop :: "u32 \<Rightarrow> nat \<Rightarrow> bit_ref \<Rightarrow> packed" where
  "pack_loop val n_bits b =
    (if n_bits = 0 then (SRSASN_SUCCESS, b)
     else if length (br_mem b) \<le> br_ptr b then (SRSASN_ERROR_ENCODE_FAIL, b)
     else
       let val = val AND (push_bit n_bits 1 - 1);
           offset = br_offset b; ptr = br_ptr b;
           keepmask = (-1 :: u8) - ucast (push_bit (8 - offset) 1 - 1 :: u32)
       in if n_bits < 8 - offset then
            let bit = ucast (push_bit (8 - offset - n_bits) val) :: u8
            in (SRSASN_SUCCESS,
                b\<lparr>br_mem := (br_mem b)[ptr := (br_mem b ! ptr AND keepmask) + bit], br_offset := offset + n_bits\<rparr>)
          else
            let bit = ucast (drop_bit (n_bits - (8 - offset)) val) :: u8
            in pack_loop val (n_bits - (8 - offset))
                 (b\<lparr>br_mem := (br_mem b)[ptr := (br_mem b ! ptr AND keepmask) + bit],
                    br_offset := 0, br_ptr := ptr + 1\<rparr>))"
  by pat_completeness auto
termination
  by (relation "measure (\<lambda>(v, n, b). 2 * n + (if 8 \<le> br_offset b then 1 else 0))") auto

declare pack_loop.simps [simp del]

definition pack :: "u32 \<Rightarrow> nat \<Rightarrow> bit_ref \<Rightarrow> packed" where
  "pack val n_bits b = (if 32 \<le> n_bits then (SRSASN_ERROR_ENCODE_FAIL, b) else pack_loop val n_bits b)"

text \<open>
  \<open>unpack_bits<T>\<close>: the value is assembled in \<open>T\<close> from shifted \<open>uint32_t\<close> pieces. The \<open>bool\<close> instance is only
  used for single bits. A value whose reading fails is only used where the callers do not look at the code.
\<close>

function unpack_loop :: "'a::len word \<Rightarrow> nat \<Rightarrow> bit_ref \<Rightarrow> 'a word read" where
  "unpack_loop val n_bits b =
    (if n_bits = 0 then (SRSASN_SUCCESS, val, b)
     else if length (br_mem b) \<le> br_ptr b then (SRSASN_ERROR_DECODE_FAIL, val, b)
     else
       let offset = br_offset b; octet = br_mem b ! br_ptr b
       in if n_bits < 8 - offset then
            let mask = (ucast (push_bit (8 - offset) 1 :: u32) :: u8) - ucast (push_bit (8 - offset - n_bits) 1 :: u32)
            in (SRSASN_SUCCESS, val + ucast (drop_bit (8 - offset - n_bits) (ucast (octet AND mask) :: u32)),
                    b\<lparr>br_offset := offset + n_bits\<rparr>)
          else
            let mask = ucast (push_bit (8 - offset) 1 - 1 :: u32) :: u8
            in unpack_loop (val + ucast (push_bit (n_bits - (8 - offset)) (ucast (octet AND mask) :: u32)))
                 (n_bits - (8 - offset)) (b\<lparr>br_offset := 0, br_ptr := br_ptr b + 1\<rparr>))"
  by pat_completeness auto
termination
  by (relation "measure (\<lambda>(v, n, b). 2 * n + (if 8 \<le> br_offset b then 1 else 0))") auto

declare unpack_loop.simps [simp del]

definition unpack_bits :: "nat \<Rightarrow> bit_ref \<Rightarrow> 'a::len word read" where
  "unpack_bits n_bits b =
    (if LENGTH('a) < n_bits then (SRSASN_ERROR_DECODE_FAIL, 0, b) else unpack_loop 0 n_bits b)"

definition unpack :: "nat \<Rightarrow> bit_ref \<Rightarrow> 'a::len word unpacked" where
  "unpack n_bits b = handled (unpack_bits n_bits b)"

definition pack_bool :: "bool \<Rightarrow> bit_ref \<Rightarrow> packed" where
  "pack_bool v b = pack (if v then 1 else 0) 1 b"

definition unpack_bit :: "bit_ref \<Rightarrow> bool read" where
  "unpack_bit b = (case (unpack_bits 1 b :: u8 read) of (c, v, b) \<Rightarrow> (c, v \<noteq> 0, b))"

definition unpack_bool :: "bit_ref \<Rightarrow> bool unpacked" where
  "unpack_bool b = handled (unpack_bit b)"

definition align_bytes :: "bit_ref \<Rightarrow> packed" where
  "align_bytes b =
    (if br_offset b = 0 then (SRSASN_SUCCESS, b)
     else if length (br_mem b) \<le> br_ptr b then (SRSASN_ERROR_DECODE_FAIL, b)
     else (SRSASN_SUCCESS, b\<lparr>br_offset := 0, br_ptr := br_ptr b + 1\<rparr>))"

definition align_bytes_zero :: "bit_ref \<Rightarrow> packed" where
  "align_bytes_zero b =
    (if br_offset b = 0 then (SRSASN_SUCCESS, b)
     else if length (br_mem b) \<le> br_ptr b then (SRSASN_ERROR_ENCODE_FAIL, b)
     else
       let mask = ucast (256 - push_bit (8 - br_offset b) 1 :: u32) :: u8
       in (SRSASN_SUCCESS,
           b\<lparr>br_mem := (br_mem b)[br_ptr b := br_mem b ! br_ptr b AND mask], br_offset := 0, br_ptr := br_ptr b + 1\<rparr>))"

text \<open>
  \<open>pack_bytes\<close> checks the end of the buffer with \<open>>=\<close>, in octets and without looking at the offset, and drops
  the codes of its loop.
\<close>

definition pack_each :: "bytes \<Rightarrow> bit_ref \<Rightarrow> bit_ref" where
  "pack_each buf b = foldl (\<lambda>b x. snd (pack (ucast x) 8 b)) b buf"

definition pack_bytes :: "bytes \<Rightarrow> bit_ref \<Rightarrow> packed" where
  "pack_bytes buf b =
    (if buf = [] then (SRSASN_SUCCESS, b)
     else if length (br_mem b) \<le> br_ptr b + length buf then (SRSASN_ERROR_ENCODE_FAIL, b)
     else if br_offset b = 0 then
       (SRSASN_SUCCESS,
        b\<lparr>br_mem := take (br_ptr b) (br_mem b) @ buf @ drop (br_ptr b + length buf) (br_mem b),
          br_ptr := br_ptr b + length buf\<rparr>)
     else (SRSASN_SUCCESS, pack_each buf b))"

fun pack_octets :: "bytes \<Rightarrow> bit_ref \<Rightarrow> packed" where
  "pack_octets [] b = (SRSASN_SUCCESS, b)"
| "pack_octets (x # xs) b = pthen (pack (ucast x) 8 b) (pack_octets xs)"

fun unpack_octets :: "nat \<Rightarrow> bit_ref \<Rightarrow> bytes unpacked" where
  "unpack_octets 0 b = Inr ([], b)"
| "unpack_octets (Suc n) b =
    uthen (unpack 8 b) (\<lambda>x b. uthen (unpack_octets n b) (\<lambda>xs b. Inr (x # xs, b)))"

section \<open>Cursors as bit lists\<close>

definition bits_of :: "nat \<Rightarrow> 'a::len word \<Rightarrow> bool list" where
  "bits_of n v = map (\<lambda>i. bit v (n - 1 - i)) [0..<n]"

definition mem_bits :: "bytes \<Rightarrow> bool list" where
  "mem_bits m = map (\<lambda>k. bit (m ! (k div 8)) (7 - k mod 8)) [0..<8 * length m]"

definition br_ok :: "bit_ref \<Rightarrow> bool" where
  "br_ok b \<longleftrightarrow> br_offset b < 8 \<and> distance b \<le> 8 * length (br_mem b)"

definition room :: "bit_ref \<Rightarrow> nat" where
  "room b = 8 * length (br_mem b) - distance b"

definition written :: "bit_ref \<Rightarrow> bool list" where
  "written b = take (distance b) (mem_bits (br_mem b))"

definition ahead :: "bit_ref \<Rightarrow> bool list" where
  "ahead b = drop (distance b) (mem_bits (br_mem b))"

lemma length_bits_of [simp]: "length (bits_of n v) = n"
  by (simp add: bits_of_def)

lemma nth_bits_of [simp]: "i < n \<Longrightarrow> bits_of n v ! i = bit v (n - 1 - i)"
  by (simp add: bits_of_def)

lemma bits_of_0 [simp]: "bits_of 0 v = []"
  by (simp add: bits_of_def)

lemma bits_of_1 [simp]: "bits_of (Suc 0) v = [bit v 0]"
  by (simp add: bits_of_def)

lemma bits_of_split:
  assumes "k \<le> n"
  shows "bits_of n v = bits_of k (drop_bit (n - k) v) @ bits_of (n - k) v"
  using assms
  by (intro nth_equalityI) (auto simp: nth_append bit_simps intro!: arg_cong [where f = "bit v"])

lemma bits_of_mask: "n \<le> k \<Longrightarrow> bits_of n (v AND mask k) = bits_of n v"
  by (rule nth_equalityI) (auto simp: bit_simps dest: bit_imp_le_length)

lemma length_mem_bits [simp]: "length (mem_bits m) = 8 * length m"
  by (simp add: mem_bits_def)

lemma nth_mem_bits [simp]: "k < 8 * length m \<Longrightarrow> mem_bits m ! k = bit (m ! (k div 8)) (7 - k mod 8)"
  by (simp add: mem_bits_def)

lemma length_written [simp]: "br_ok b \<Longrightarrow> length (written b) = distance b"
  by (simp add: written_def br_ok_def)

lemma length_ahead [simp]: "length (ahead b) = room b"
  by (simp add: ahead_def room_def)

lemma br_ok_new [simp]: "br_ok (bit_ref_new m)" "written (bit_ref_new m) = []" "room (bit_ref_new m) = 8 * length m"
    "ahead (bit_ref_new m) = mem_bits m" "br_mem (bit_ref_new m) = m"
  by (simp_all add: bit_ref_new_def br_ok_def distance_def written_def room_def ahead_def)

text \<open>One octet of the writing loop.\<close>

lemma put_bits:
  assumes ok: "br_ok b" and k: "k \<le> 8 - br_offset b" "length c = k" and p: "br_ptr b < length (br_mem b)"
    and old: "\<And>i. 8 - br_offset b \<le> i \<Longrightarrow> i < 8 \<Longrightarrow> bit w i = bit (br_mem b ! br_ptr b) i"
    and new: "\<And>i. i < k \<Longrightarrow> bit w (7 - br_offset b - i) = c ! i"
  shows "take (distance b + k) (mem_bits ((br_mem b)[br_ptr b := w])) = written b @ c"
proof (rule nth_equalityI)
  let ?p = "br_ptr b" and ?o = "br_offset b" and ?m = "br_mem b"
  have o: "?o < 8" and d: "distance b = ?o + 8 * ?p" and dl: "distance b \<le> 8 * length ?m"
    using ok by (simp_all add: br_ok_def distance_def)
  have le: "distance b + k \<le> 8 * length ?m" using k p d o by linarith
  then show "length (take (distance b + k) (mem_bits (?m[?p := w]))) = length (written b @ c)"
    using ok k by simp
  fix i assume "i < length (take (distance b + k) (mem_bits (?m[?p := w])))"
  then have i: "i < distance b + k" "i < 8 * length ?m" using le by simp_all
  show "take (distance b + k) (mem_bits (?m[?p := w])) ! i = (written b @ c) ! i"
  proof (cases "i < distance b")
    case True
    then have "i div 8 \<noteq> ?p \<or> (i div 8 = ?p \<and> i mod 8 < ?o)"
      using d by (metis add.commute add_less_cancel_left mult_div_mod_eq)
    then have "bit (?m[?p := w] ! (i div 8)) (7 - i mod 8) = bit (?m ! (i div 8)) (7 - i mod 8)"
      using old [of "7 - i mod 8"] p by (auto simp: nth_list_update)
    then show ?thesis using True i ok by (simp add: nth_append written_def dl)
  next
    case False
    define j where "j = i - distance b"
    have j: "i = 8 * ?p + (?o + j)" "j < k" "?o + j < 8" using False i d k o unfolding j_def by linarith+
    then have dm: "i div 8 = ?p" "i mod 8 = ?o + j" by simp_all
    have "take (distance b + k) (mem_bits (?m[?p := w])) ! i = bit w (7 - ?o - j)"
      using i p by (simp add: dm)
    moreover have "(written b @ c) ! i = c ! j" using False ok by (simp add: nth_append j_def)
    ultimately show ?thesis by (simp only: new [OF j(2)])
  qed
qed


lemma mask_u32: "(push_bit k 1 - 1 :: 'a::len word) = mask k"
  by (simp add: mask_eq_exp_minus_1 push_bit_of_1)

lemma ucast_mask_u8: "k \<le> 8 \<Longrightarrow> (ucast (mask k :: u32) :: u8) = mask k"
  by (rule bit_word_eqI) (auto simp: bit_simps)

lemma bit_octet_put:
  assumes "b < 8" and c: "\<And>i. 8 - b \<le> i \<Longrightarrow> \<not> bit (c :: u8) i"
  shows "bit ((x AND ((-1 :: u8) - ucast (push_bit (8 - b) 1 - 1 :: u32))) + c) i
    = (if i < 8 - b then bit c i else bit x i)"
proof -
  have "(-1 :: u8) - ucast (push_bit (8 - b) 1 - 1 :: u32) = NOT (mask (8 - b))"
    unfolding mask_u32 by (simp add: ucast_mask_u8 not_eq_complement)
  moreover have "(x AND NOT (mask (8 - b))) + c = (x AND NOT (mask (8 - b))) OR c"
    using c by (intro disjunctive_add_eq_or bit_word_eqI) (auto simp: bit_simps not_less)
  ultimately show ?thesis using c by (auto simp: bit_simps not_less dest: bit_imp_le_length)
qed

section \<open>Writing\<close>

lemma pack_loop_fits:
  assumes "br_ok b" and "n \<le> room b"
  shows "\<exists>b'. pack_loop v n b = (SRSASN_SUCCESS, b') \<and> br_ok b' \<and> length (br_mem b') = length (br_mem b) \<and>
    written b' = written b @ bits_of n v"
  using assms
proof (induction v n b rule: pack_loop.induct)
  case (1 v n b)
  let ?o = "br_offset b" and ?p = "br_ptr b" and ?m = "br_mem b"
  show ?case
  proof (cases "n = 0")
    case True
    then show ?thesis using "1.prems" by (intro exI [of _ b]) (simp add: pack_loop.simps [of v 0 b])
  next
    case False
    have o: "?o < 8" and dl: "distance b + n \<le> 8 * length ?m" and d: "distance b = ?o + 8 * ?p"
      using "1.prems" by (auto simp: br_ok_def room_def distance_def)
    then have p: "?p < length ?m" using False by linarith
    let ?v = "v AND (push_bit n 1 - 1)" and ?keep = "(-1 :: u8) - ucast (push_bit (8 - ?o) 1 - 1 :: u32)"
    have v: "?v = v AND mask n" by (simp only: mask_u32)
    show ?thesis
    proof (cases "n < 8 - ?o")
      case True
      define c where "c = (ucast (push_bit (8 - ?o - n) ?v) :: u8)"
      define w where "w = (?m ! ?p AND ?keep) + c"
      define b' where "b' = b\<lparr>br_mem := ?m[?p := w], br_offset := ?o + n\<rparr>"
      have c: "bit c i \<longleftrightarrow> i < 8 \<and> 8 - ?o - n \<le> i \<and> i < 8 - ?o \<and> bit v (i - (8 - ?o - n))" for i
        unfolding c_def v using True by (auto simp: bit_simps)
      have w: "bit w i = (if i < 8 - ?o then bit c i else bit (?m ! ?p) i)" for i
        unfolding w_def by (rule bit_octet_put [OF o]) (simp add: c)
      have d': "distance b' = distance b + n" by (simp add: b'_def distance_def)
      have "written b' = take (distance b + n) (mem_bits (?m[?p := w]))"
        by (simp add: written_def d') (simp add: b'_def)
      also have "\<dots> = written b @ bits_of n v"
        by (rule put_bits) (use "1.prems"(1) True p o in \<open>auto simp: w c\<close>)
      finally have "written b' = written b @ bits_of n v" .
      moreover have "br_ok b'" using True dl d' by (simp add: br_ok_def) (simp add: b'_def)
      moreover have "pack_loop v n b = (SRSASN_SUCCESS, b')"
        using False True p by (simp add: pack_loop.simps [of v n b] b'_def w_def c_def Let_def)
      ultimately show ?thesis by (auto simp: b'_def)
    next
      case n: False
      define c where "c = (ucast (drop_bit (n - (8 - ?o)) ?v) :: u8)"
      define w where "w = (?m ! ?p AND ?keep) + c"
      define b1 where "b1 = b\<lparr>br_mem := ?m[?p := w], br_offset := 0, br_ptr := ?p + 1\<rparr>"
      have c: "bit c i \<longleftrightarrow> i < 8 \<and> i < 8 - ?o \<and> bit v (n - (8 - ?o) + i)" for i
        unfolding c_def v using n by (auto simp: bit_simps dest: bit_imp_le_length)
      have w: "bit w i = (if i < 8 - ?o then bit c i else bit (?m ! ?p) i)" for i
        unfolding w_def by (rule bit_octet_put [OF o]) (simp add: c)
      have d': "distance b1 = distance b + (8 - ?o)" using o by (simp add: b1_def distance_def)
      have "written b1 = take (distance b + (8 - ?o)) (mem_bits (?m[?p := w]))"
        by (simp add: written_def d') (simp add: b1_def)
      also have "\<dots> = written b @ bits_of (8 - ?o) (drop_bit (n - (8 - ?o)) v)"
        by (rule put_bits) (use "1.prems"(1) n p o in \<open>auto simp: w c bit_simps\<close>)
      finally have w1: "written b1 = written b @ bits_of (8 - ?o) (drop_bit (n - (8 - ?o)) v)" .
      have ok1: "br_ok b1" using n dl d' by (simp add: br_ok_def) (simp add: b1_def)
      have r1: "n - (8 - ?o) \<le> room b1" using dl d' n by (simp add: room_def) (simp add: b1_def)
      have "\<exists>b'. pack_loop ?v (n - (8 - ?o)) b1 = (SRSASN_SUCCESS, b') \<and> br_ok b' \<and>
          length (br_mem b') = length (br_mem b1) \<and> written b' = written b1 @ bits_of (n - (8 - ?o)) ?v"
        using "1.IH" [OF False, of ?v ?o ?p ?keep c] p n ok1 r1
        by (simp add: b1_def w_def c_def not_le)
      moreover have "pack_loop v n b = pack_loop ?v (n - (8 - ?o)) b1"
        using False n p by (simp add: pack_loop.simps [of v n b] b1_def w_def c_def Let_def)
      moreover have "written b1 @ bits_of (n - (8 - ?o)) ?v = written b @ bits_of n v"
        unfolding v w1 using n bits_of_split [of "8 - ?o" n v] by (simp add: bits_of_mask)
      ultimately show ?thesis by (auto simp: b1_def)
    qed
  qed
qed

lemma pack_loop_full:
  "br_ok b \<Longrightarrow> room b < n \<Longrightarrow> fst (pack_loop v n b) = SRSASN_ERROR_ENCODE_FAIL"
proof (induction v n b rule: pack_loop.induct)
  case (1 v n b)
  let ?o = "br_offset b" and ?p = "br_ptr b" and ?m = "br_mem b"
  have o: "?o < 8" and d: "distance b = ?o + 8 * ?p" and dl: "distance b \<le> 8 * length ?m"
      "8 * length ?m < distance b + n"
    using "1.prems" by (auto simp: br_ok_def distance_def room_def)
  have n: "n \<noteq> 0" using "1.prems" by simp
  show ?case
  proof (cases "length ?m \<le> ?p")
    case True
    then show ?thesis using n by (simp add: pack_loop.simps [of v n b])
  next
    case False
    then have k: "\<not> n < 8 - ?o" using d dl by linarith
    have "br_ok (b\<lparr>br_mem := ?m[?p := w], br_offset := 0, br_ptr := ?p + 1\<rparr>)"
      "room (b\<lparr>br_mem := ?m[?p := w], br_offset := 0, br_ptr := ?p + 1\<rparr>) < n - (8 - ?o)" for w
      using False k dl d o by (auto simp: br_ok_def room_def distance_def)
    then show ?thesis using "1.IH" False n k by (simp add: pack_loop.simps [of v n b] Let_def)
  qed
qed


text \<open>\<open>writes p bs\<close>: with room for \<open>bs\<close> the operation succeeds and appends \<open>bs\<close>.\<close>

definition writes :: "(bit_ref \<Rightarrow> packed) \<Rightarrow> bool list \<Rightarrow> bool" where
  "writes p bs \<longleftrightarrow> (\<forall>b. br_ok b \<and> length bs \<le> room b \<longrightarrow>
     (\<exists>b'. p b = (SRSASN_SUCCESS, b') \<and> br_ok b' \<and> length (br_mem b') = length (br_mem b) \<and>
        written b' = written b @ bs))"

lemma writesD:
  assumes "writes p bs" and "br_ok b" and "length bs \<le> room b"
  obtains b' where "p b = (SRSASN_SUCCESS, b')" and "br_ok b'" and "length (br_mem b') = length (br_mem b)"
    and "written b' = written b @ bs" and "room b' = room b - length bs"
proof -
  obtain b' where b': "p b = (SRSASN_SUCCESS, b')" "br_ok b'" "length (br_mem b') = length (br_mem b)"
    "written b' = written b @ bs"
    using assms by (auto simp: writes_def)
  have "distance b' = distance b + length bs"
    using arg_cong [OF b'(4), of length] b'(2) assms(2) by simp
  then have "room b' = room b - length bs" using b'(3) by (simp add: room_def)
  with b' show thesis by (rule that)
qed

named_theorems codec \<open>what the writers write and the readers read\<close>

lemma writes_pack [codec]: "n < 32 \<Longrightarrow> writes (pack v n) (bits_of n v)"
  using pack_loop_fits by (simp add: writes_def pack_def)

lemma pack_full: "br_ok b \<Longrightarrow> room b < n \<Longrightarrow> fst (pack v n b) = SRSASN_ERROR_ENCODE_FAIL"
  by (simp add: pack_def pack_loop_full)

lemma writes_done [codec]: "writes (\<lambda>b. (SRSASN_SUCCESS, b)) []"
  by (simp add: writes_def)

lemma writes_then [codec]:
  assumes "writes p bs" and "writes q cs"
  shows "writes (\<lambda>b. pthen (p b) q) (bs @ cs)"
  unfolding writes_def
proof (intro allI impI, elim conjE)
  fix b assume b: "br_ok b" "length (bs @ cs) \<le> room b"
  obtain b1 where b1: "p b = (SRSASN_SUCCESS, b1)" "br_ok b1" "length (br_mem b1) = length (br_mem b)"
    "written b1 = written b @ bs" "room b1 = room b - length bs"
    by (rule writesD [OF assms(1) b(1)]) (use b(2) in auto)
  obtain b2 where "q b1 = (SRSASN_SUCCESS, b2)" "br_ok b2" "length (br_mem b2) = length (br_mem b1)"
    "written b2 = written b1 @ cs"
    by (rule writesD [OF assms(2) b1(2)]) (use b(2) b1(5) in auto)
  with b1 show "\<exists>b'. pthen (p b) q = (SRSASN_SUCCESS, b') \<and> br_ok b' \<and>
      length (br_mem b') = length (br_mem b) \<and> written b' = written b @ bs @ cs"
    by simp
qed

lemma writes_bool [codec]: "writes (pack_bool v) [v]"
proof -
  have "bits_of 1 (if v then 1 else 0 :: u32) = [v]" by (simp add: bits_of_def)
  then show ?thesis using writes_pack [of 1 "if v then 1 else 0"]
    by (simp add: pack_bool_def [abs_def] del: One_nat_def)
qed

lemma writes_bool_then [codec]: "writes q cs \<Longrightarrow> writes (\<lambda>b. pthen (pack_bool v b) q) (v # cs)"
  using writes_then [OF writes_bool] by fastforce

lemma bits_of_ucast_u8 [simp]: "n \<le> 8 \<Longrightarrow> bits_of n (ucast (x :: u8) :: u32) = bits_of n x"
  by (rule nth_equalityI) (auto simp: bit_simps)

lemma writes_octets [codec]: "writes (pack_octets xs) (concat (map (bits_of 8) xs))"
proof (induction xs)
  case Nil
  then show ?case by (simp add: writes_def)
next
  case (Cons x xs)
  have "writes (\<lambda>b. pthen (pack (ucast x) 8 b) (pack_octets xs)) (bits_of 8 x @ concat (map (bits_of 8) xs))"
    using writes_then [OF writes_pack [of 8 "ucast x"] Cons] by simp
  then show ?case by (simp add: writes_def)
qed

section \<open>Reading\<close>

text \<open>\<open>reads u bs v\<close>: where \<open>bs\<close> lies ahead the operation gives \<open>v\<close> and moves past it.\<close>

definition reads :: "(bit_ref \<Rightarrow> 'a unpacked) \<Rightarrow> bool list \<Rightarrow> 'a \<Rightarrow> bool" where
  "reads u bs v \<longleftrightarrow> (\<forall>b rest. br_ok b \<and> ahead b = bs @ rest \<longrightarrow>
     (\<exists>b'. u b = Inr (v, b') \<and> br_ok b' \<and> br_mem b' = br_mem b \<and> ahead b' = rest))"

lemma readsD:
  assumes "reads u bs v" and "br_ok b" and "ahead b = bs @ rest"
  obtains b' where "u b = Inr (v, b')" and "br_ok b'" and "br_mem b' = br_mem b" and "ahead b' = rest"
  using assms by (auto simp: reads_def)

lemma reads_imp:
  assumes "reads u bs v" and "\<And>b b'. u b = Inr (v, b') \<Longrightarrow> w b = Inr (x, b')"
  shows "reads w bs x"
  using assms unfolding reads_def by blast

lemma ahead_drop:
  assumes "br_mem b' = br_mem b" and "distance b' = distance b + k"
  shows "ahead b' = drop k (ahead b)"
  using assms by (simp add: ahead_def add.commute)

lemma octet_index:
  assumes "j < 8"
  shows "(8 * p + j) div 8 = p" and "(8 * p + j) mod 8 = (j :: nat)"
  using assms by simp_all

lemma nth_ahead:
  assumes "br_ok b" and "i < room b" and "br_offset b + i < 8"
  shows "ahead b ! i = bit (br_mem b ! br_ptr b) (7 - br_offset b - i)"
proof -
  have i: "distance b + i = 8 * br_ptr b + (br_offset b + i)" by (simp add: distance_def)
  have "(distance b + i) div 8 = br_ptr b" "(distance b + i) mod 8 = br_offset b + i"
    unfolding i by (rule octet_index [OF assms(3)])+
  moreover have "distance b + i < 8 * length (br_mem b)" using assms by (simp add: br_ok_def room_def)
  ultimately show ?thesis by (simp add: ahead_def)
qed

lemma bit_read_mask:
  assumes "j \<le> 8" and "i \<le> j"
  shows "(ucast (push_bit j 1 :: u32) :: u8) - ucast (push_bit i 1 :: u32) = mask j AND NOT (mask i)"
proof -
  have "\<forall>j\<in>set [0..<9]. \<forall>i\<in>set [0..<9]. i \<le> j \<longrightarrow>
    (ucast (push_bit j 1 :: u32) :: u8) - ucast (push_bit i 1 :: u32) = mask j AND NOT (mask i)"
    by code_simp
  then show ?thesis using assms by simp
qed

lemma bit_add_disjoint:
  assumes "\<And>i. bit a i \<Longrightarrow> \<not> bit b i"
  shows "a + b = a OR (b :: 'a::len word)"
  using assms by (intro disjunctive_add_eq_or bit_word_eqI) (auto simp: bit_simps)

lemma unpack_loop_reads:
  fixes val v :: "'a::len word"
  assumes "br_ok b" and "take n (ahead b) = bits_of n v" and "n \<le> room b" and "n \<le> 32" and "n \<le> LENGTH('a)"
    and "\<forall>i<n. \<not> bit val i"
  shows "\<exists>b'. unpack_loop val n b = (SRSASN_SUCCESS, val OR (v AND mask n), b') \<and> br_ok b' \<and> br_mem b' = br_mem b \<and>
    ahead b' = drop n (ahead b)"
  using assms
proof (induction val n b rule: unpack_loop.induct)
  case (1 val n b)
  let ?o = "br_offset b" and ?p = "br_ptr b" and ?m = "br_mem b"
  let ?x = "br_mem b ! br_ptr b"
  have o: "?o < 8" and dl: "distance b + n \<le> 8 * length ?m" and d: "distance b = ?o + 8 * ?p"
    using "1.prems" by (auto simp: br_ok_def room_def distance_def)
  have octet: "bit ?x (7 - ?o - i) = bit v (n - 1 - i)" if "i < n" "?o + i < 8" for i
    using nth_ahead [OF "1.prems"(1), of i] arg_cong [OF "1.prems"(2), of "\<lambda>bs. bs ! i"] that "1.prems"(3) by simp
  show ?case
  proof (cases "n = 0")
    case True
    then show ?thesis using "1.prems" by (intro exI [of _ b]) (simp add: unpack_loop.simps [of val 0 b])
  next
    case n0: False
    then have p: "?p < length ?m" using o dl d by linarith
    show ?thesis
    proof (cases "n < 8 - ?o")
      case True
      let ?mask = "(ucast (push_bit (8 - ?o) 1 :: u32) :: u8) - ucast (push_bit (8 - ?o - n) 1 :: u32)"
      define w where "w = (ucast (drop_bit (8 - ?o - n) (ucast (?x AND ?mask) :: u32)) :: 'a word)"
      define b' where "b' = b\<lparr>br_offset := ?o + n\<rparr>"
      have mask: "?mask = mask (8 - ?o) AND NOT (mask (8 - ?o - n))" by (rule bit_read_mask) simp_all
      have "bit w i \<longleftrightarrow> bit (v AND mask n) i" for i
        unfolding w_def mask using octet [of "n - 1 - i"] True "1.prems"(5)
        by (auto simp: bit_simps dest: bit_imp_le_length)
      then have w: "w = v AND mask n" by (simp add: bit_word_eqI)
      have "val + w = val OR (v AND mask n)"
        unfolding w by (rule bit_add_disjoint) (use "1.prems"(6) in \<open>auto simp: bit_simps\<close>)
      moreover have "unpack_loop val n b = (SRSASN_SUCCESS, val + w, b')"
        using n0 p True by (simp add: unpack_loop.simps [of val n b] w_def b'_def Let_def)
      moreover have d': "distance b' = distance b + n" "br_mem b' = br_mem b"
        by (simp_all add: b'_def distance_def)
      moreover have "br_ok b'" using True dl d' by (simp add: br_ok_def) (simp add: b'_def)
      ultimately show ?thesis using ahead_drop [OF d'(2,1)] by simp
    next
      case n: False
      let ?mask = "ucast (push_bit (8 - ?o) 1 - 1 :: u32) :: u8"
      define k where "k = n - (8 - ?o)"
      have k: "n = k + (8 - ?o)" using n by (simp add: k_def)
      define w where "w = (ucast (push_bit k (ucast (?x AND ?mask) :: u32)) :: 'a word)"
      define b1 where "b1 = b\<lparr>br_offset := 0, br_ptr := ?p + 1\<rparr>"
      have mask: "?mask = mask (8 - ?o)" by (simp only: mask_u32) (simp add: ucast_mask_u8)
      have x: "bit ?x (i - k) = bit v i" if i: "k \<le> i" "i < n" for i
      proof -
        have "7 - ?o - (n - 1 - i) = i - k" "n - 1 - (n - 1 - i) = i" "?o + (n - 1 - i) < 8"
          using i k o by linarith+
        then show ?thesis using octet [of "n - 1 - i"] i by simp
      qed
      have w: "bit w i \<longleftrightarrow> k \<le> i \<and> i < n \<and> bit v i" for i
        unfolding w_def mask using x [of i] k "1.prems"(4,5)
        by (auto simp: bit_simps dest: bit_imp_le_length)
      have vw: "val + w = val OR w" using "1.prems"(6) w by (intro bit_add_disjoint) auto
      have d': "distance b1 = distance b + (8 - ?o)" "br_mem b1 = br_mem b"
        using o by (simp_all add: b1_def distance_def)
      have a': "ahead b1 = drop (8 - ?o) (ahead b)" by (rule ahead_drop [OF d'(2,1)])
      have ok1: "br_ok b1" using n dl d' by (simp add: br_ok_def) (simp add: b1_def)
      have r1: "k \<le> room b1" using dl d' k by (simp add: room_def)
      have "take k (ahead b1) = drop (8 - ?o) (take n (ahead b))" by (simp add: a' drop_take k_def)
      also have "\<dots> = bits_of k v"
        using bits_of_split [of "8 - ?o" n v] n "1.prems"(2) by (simp add: k_def)
      finally have t1: "take k (ahead b1) = bits_of k v" .
      have "\<exists>b'. unpack_loop (val + w) k b1 = (SRSASN_SUCCESS, (val + w) OR (v AND mask k), b') \<and> br_ok b' \<and>
          br_mem b' = br_mem b1 \<and> ahead b' = drop k (ahead b1)"
        using "1.IH" [of ?o ?x ?mask] n0 p n ok1 t1 r1 "1.prems"(4,5,6) w vw
        by (simp add: b1_def w_def not_le bit_simps k_def)
      moreover have "unpack_loop val n b = unpack_loop (val + w) k b1"
        using n0 n p by (simp add: unpack_loop.simps [of val n b] b1_def w_def k_def Let_def)
      moreover have "(val + w) OR (v AND mask k) = val OR (v AND mask n)"
        using k by (intro bit_word_eqI) (auto simp: vw w bit_simps)
      moreover have "drop k (ahead b1) = drop n (ahead b)" using k by (simp add: a' add.commute)
      ultimately show ?thesis using d' by simp
    qed
  qed
qed


lemma reads_unpack [codec]:
  fixes v :: "'a::len word"
  assumes "n \<le> 32" and "n \<le> LENGTH('a)"
  shows "reads (unpack n) (bits_of n v) (v AND mask n)"
  unfolding reads_def
proof (intro allI impI, elim conjE)
  fix b rest assume b: "br_ok b" "ahead b = bits_of n v @ rest"
  have "n \<le> room b" using arg_cong [OF b(2), of length] by simp
  then show "\<exists>b'. unpack n b = Inr (v AND mask n, b') \<and> br_ok b' \<and> br_mem b' = br_mem b \<and> ahead b' = rest"
    using unpack_loop_reads [of b n v 0] b assms by (auto simp: unpack_def unpack_bits_def)
qed

lemma unpack_loop_full:
  "br_ok b \<Longrightarrow> room b < n \<Longrightarrow> fst (unpack_loop val n b) = SRSASN_ERROR_DECODE_FAIL"
proof (induction val n b rule: unpack_loop.induct)
  case (1 val n b)
  let ?o = "br_offset b" and ?p = "br_ptr b" and ?m = "br_mem b"
  have o: "?o < 8" and d: "distance b = ?o + 8 * ?p" and dl: "distance b \<le> 8 * length ?m"
      "8 * length ?m < distance b + n"
    using "1.prems" by (auto simp: br_ok_def distance_def room_def)
  have n: "n \<noteq> 0" using "1.prems" by simp
  show ?case
  proof (cases "length ?m \<le> ?p")
    case True
    then show ?thesis using n by (simp add: unpack_loop.simps [of val n b])
  next
    case False
    then have k: "\<not> n < 8 - ?o" using d dl by linarith
    have "br_ok (b\<lparr>br_offset := 0, br_ptr := ?p + 1\<rparr>)"
      "room (b\<lparr>br_offset := 0, br_ptr := ?p + 1\<rparr>) < n - (8 - ?o)"
      using False k dl d o by (auto simp: br_ok_def room_def distance_def)
    then show ?thesis using "1.IH" False n k by (simp add: unpack_loop.simps [of val n b] Let_def)
  qed
qed

lemma unpack_full: "br_ok b \<Longrightarrow> room b < n \<Longrightarrow> (unpack n b :: 'a::len word unpacked) = Inl SRSASN_ERROR_DECODE_FAIL"
  using unpack_loop_full [of b n "0 :: 'a word"]
  by (cases "unpack_loop 0 n b :: 'a word read") (simp_all add: unpack_def unpack_bits_def)

lemma reads_done [codec]: "reads (\<lambda>b. Inr (v, b)) [] v"
  by (simp add: reads_def)

lemma reads_then [codec]:
  assumes u: "reads u bs v" and w: "reads (f v) cs w"
  shows "reads (\<lambda>b. uthen (u b) f) (bs @ cs) w"
  unfolding reads_def
proof (intro allI impI, elim conjE)
  fix b rest assume b: "br_ok b" "ahead b = (bs @ cs) @ rest"
  obtain b1 where b1: "u b = Inr (v, b1)" "br_ok b1" "br_mem b1 = br_mem b" "ahead b1 = cs @ rest"
    by (rule readsD [OF u b(1)]) (use b(2) in auto)
  obtain b2 where "f v b1 = Inr (w, b2)" "br_ok b2" "br_mem b2 = br_mem b1" "ahead b2 = rest"
    by (rule readsD [OF w b1(2,4)])
  with b1 show "\<exists>b'. uthen (u b) f = Inr (w, b') \<and> br_ok b' \<and> br_mem b' = br_mem b \<and> ahead b' = rest"
    by simp
qed

lemma reads_map [codec]: "reads u bs v \<Longrightarrow> reads (\<lambda>b. uthen (u b) (\<lambda>v b. Inr (f v, b))) bs (f v)"
  using reads_then [of u bs v "\<lambda>v b. Inr (f v, b)" "[]" "f v"] by (simp add: reads_done)

lemma reads_bool [codec]: "reads unpack_bool [v] v"
proof -
  have "bits_of 1 (if v then 1 else 0 :: u8) = [v]" by (simp add: bits_of_def)
  moreover have "((if v then 1 else 0 :: u8) AND mask 1 \<noteq> 0) = v" by (simp add: mask_Suc_0)
  moreover have "unpack_bool = (\<lambda>b. uthen (unpack 1 b :: u8 unpacked) (\<lambda>v b. Inr (v \<noteq> 0, b)))"
  proof
    fix b
    show "unpack_bool b = uthen (unpack 1 b :: u8 unpacked) (\<lambda>v b. Inr (v \<noteq> 0, b))"
      by (cases "unpack_bits 1 b :: u8 read" rule: handled.cases)
        (simp_all add: unpack_bool_def unpack_bit_def unpack_def)
  qed
  ultimately show ?thesis
    using reads_map [OF reads_unpack [of 1 "if v then 1 else 0 :: u8"], of "\<lambda>v. v \<noteq> 0"]
    by (simp del: One_nat_def)
qed

lemma reads_bool_then [codec]:
  "reads (f v) cs w \<Longrightarrow> reads (\<lambda>b. uthen (unpack_bool b) f) (v # cs) w"
  using reads_then [OF reads_bool] by fastforce

lemma and_mask_8 [simp]: "x AND mask 8 = (x :: u8)"
  by (rule bit_word_eqI) (simp add: bit_simps)

lemma reads_octet [codec]: "reads (unpack 8) (bits_of 8 x) (x :: u8)"
  using reads_unpack [of 8 x] by (simp add: and_mask_8)

lemma reads_octets [codec]: "reads (unpack_octets (length xs)) (concat (map (bits_of 8) xs)) xs"
proof (induction xs)
  case Nil
  then show ?case by (simp add: reads_def)
next
  case (Cons x xs)
  have "reads (\<lambda>b. uthen (unpack 8 b) (\<lambda>x b. uthen (unpack_octets (length xs) b) (\<lambda>xs b. Inr (x # xs, b))))
     (bits_of 8 x @ concat (map (bits_of 8) xs)) (x # xs)"
    by (rule reads_then [OF reads_octet]) (rule reads_map [OF Cons])
  then show ?case by (simp add: reads_def)
qed

text \<open>What was written can be read back from the start of the buffer.\<close>

lemma ahead_written:
  assumes "br_ok b"
  shows "ahead (bit_ref_new (br_mem b)) = written b @ ahead b"
  by (simp add: written_def ahead_def bit_ref_new_def distance_def)

section \<open>Octet strings\<close>

lemma bits_of_8: "bits_of 8 x = map (\<lambda>i. bit x (7 - i)) [0..<8]"
  by (simp add: bits_of_def)

lemma mem_bits_Nil [simp]: "mem_bits [] = []"
  by (simp add: mem_bits_def)

lemma mem_bits_Cons: "mem_bits (x # xs) = bits_of 8 x @ mem_bits xs"
proof (rule nth_equalityI)
  fix i assume i: "i < length (mem_bits (x # xs))"
  show "mem_bits (x # xs) ! i = (bits_of 8 x @ mem_bits xs) ! i"
  proof (cases "i < 8")
    case False
    then obtain k where "i = k + 8" using le_Suc_ex by (metis add.commute not_less)
    moreover have "(k + 8) div 8 = Suc (k div 8)" for k :: nat by simp
    ultimately show ?thesis using i by (simp add: nth_append)
  qed (simp add: nth_append)
qed simp

lemma mem_bits_concat: "mem_bits xs = concat (map (bits_of 8) xs)"
  by (induction xs) (simp_all add: mem_bits_Cons)

lemma mem_bits_append: "mem_bits (xs @ ys) = mem_bits xs @ mem_bits ys"
  by (simp add: mem_bits_concat)

lemma writes_each [codec]: "writes (\<lambda>b. (SRSASN_SUCCESS, pack_each buf b)) (mem_bits buf)"
proof -
  have "br_ok b \<Longrightarrow> 8 * length buf \<le> room b \<Longrightarrow>
    br_ok (pack_each buf b) \<and> length (br_mem (pack_each buf b)) = length (br_mem b) \<and>
    written (pack_each buf b) = written b @ mem_bits buf" for b
  proof (induction buf arbitrary: b)
    case (Cons x xs)
    obtain b1 where "pack (ucast x) 8 b = (SRSASN_SUCCESS, b1)" "br_ok b1" "length (br_mem b1) = length (br_mem b)"
      "written b1 = written b @ bits_of 8 x" "room b1 = room b - 8"
      by (rule writesD [OF writes_pack [of 8 "ucast x"] Cons.prems(1)]) (use Cons.prems(2) in auto)
    then show ?case using Cons.IH [of b1] Cons.prems by (simp add: mem_bits_Cons pack_each_def)
  qed (simp add: pack_each_def)
  then show ?thesis by (simp add: writes_def)
qed

lemma pack_bytes_ok:
  assumes ok: "br_ok b" and fits: "br_ptr b + length buf < length (br_mem b)"
  obtains b' where "pack_bytes buf b = (SRSASN_SUCCESS, b')" and "br_ok b'"
    and "length (br_mem b') = length (br_mem b)" and "written b' = written b @ mem_bits buf"
proof (cases "buf = [] \<or> br_offset b \<noteq> 0")
  case True
  have "length (mem_bits buf) \<le> room b"
    using ok fits unfolding room_def distance_def br_ok_def length_mem_bits by linarith
  then show thesis
    using writesD [OF writes_each ok, of buf] that True fits ok by (cases "buf = []") (auto simp: pack_bytes_def)
next
  case False
  define b' where "b' = b\<lparr>br_mem := take (br_ptr b) (br_mem b) @ buf @ drop (br_ptr b + length buf) (br_mem b),
    br_ptr := br_ptr b + length buf\<rparr>"
  have w: "written b = mem_bits (take (br_ptr b) (br_mem b))"
    using fits False mem_bits_append [of "take (br_ptr b) (br_mem b)" "drop (br_ptr b) (br_mem b)"]
    by (simp add: written_def distance_def)
  have "written b' = written b @ mem_bits buf"
    using fits False by (simp add: w) (simp add: written_def distance_def b'_def mem_bits_append)
  then show thesis
    using that [of b'] fits False by (simp add: pack_bytes_def br_ok_def distance_def b'_def)
qed

text \<open>A message that exactly fills the buffer is refused.\<close>

lemma pack_bytes_exact_fit:
  assumes "br_offset b = 0" and "buf \<noteq> []" and "room b = 8 * length buf"
  shows "pack_bytes buf b = (SRSASN_ERROR_ENCODE_FAIL, b)"
  using assms by (simp add: pack_bytes_def room_def distance_def)

section \<open>Alignment\<close>

lemma align_bytes_zero_ok:
  assumes ok: "br_ok b"
  obtains b' where "align_bytes_zero b = (SRSASN_SUCCESS, b')" and "br_ok b'" and "length (br_mem b') = length (br_mem b)"
    and "written b' = written b @ replicate ((8 - distance b mod 8) mod 8) False" and "br_offset b' = 0"
proof (cases "br_offset b = 0")
  case True
  then show thesis using that [of b] ok by (simp add: align_bytes_zero_def distance_def)
next
  case False
  let ?o = "br_offset b" and ?p = "br_ptr b"
  have o: "?o < 8" and dl: "?o + 8 * ?p \<le> 8 * length (br_mem b)"
    using ok by (simp_all add: br_ok_def distance_def)
  then have p: "?p < length (br_mem b)" using False by linarith
  define w where "w = br_mem b ! ?p AND (ucast (256 - push_bit (8 - ?o) 1 :: u32) :: u8)"
  define b' where "b' = b\<lparr>br_mem := (br_mem b)[?p := w], br_offset := 0, br_ptr := ?p + 1\<rparr>"
  have m: "(ucast (256 - push_bit (8 - ?o) 1 :: u32) :: u8) = NOT (mask (8 - ?o))"
  proof -
    have "\<forall>j\<in>set [0..<9]. (ucast (256 - push_bit j 1 :: u32) :: u8) = NOT (mask j)" by code_simp
    then show ?thesis by simp
  qed
  have d: "distance b' = distance b + (8 - ?o)" "distance b mod 8 = ?o" using o by (simp_all add: b'_def distance_def)
  have "written b' = take (distance b + (8 - ?o)) (mem_bits ((br_mem b)[?p := w]))"
    by (simp add: written_def d) (simp add: b'_def)
  also have "\<dots> = written b @ replicate (8 - ?o) False"
    unfolding w_def m by (rule put_bits [OF ok]) (use p in \<open>auto simp: bit_simps\<close>)
  finally have "written b' = written b @ replicate ((8 - distance b mod 8) mod 8) False"
    using False by (simp add: d)
  moreover have "br_ok b'" using p by (simp add: br_ok_def b'_def distance_def)
  moreover have "align_bytes_zero b = (SRSASN_SUCCESS, b')"
    using False p by (simp add: align_bytes_zero_def b'_def w_def)
  ultimately show thesis using that [of b'] by (simp add: b'_def)
qed

lemma align_bytes_ok:
  assumes ok: "br_ok b"
  obtains b' where "align_bytes b = (SRSASN_SUCCESS, b')" and "br_ok b'" and "br_mem b' = br_mem b"
    and "br_offset b' = 0"
proof (cases "br_offset b = 0")
  case True
  then show thesis using that [of b] ok by (simp add: align_bytes_def)
next
  case False
  have "br_ptr b < length (br_mem b)" using ok False by (simp add: br_ok_def distance_def)
  then show thesis
    using that [of "b\<lparr>br_offset := 0, br_ptr := br_ptr b + 1\<rparr>"] False by (simp add: align_bytes_def br_ok_def distance_def)
qed

end
