(* ===== verification/Asn1_Per.thy ===== *)
theory Asn1_Per
  imports Asn1_Bits
begin

text \<open>
  The packed encoding rules of \<^verbatim>\<open>lib/src/asn1/asn1_utils.cc\<close>: whole numbers, length determinants,
  enumerations, octet and bit strings, sequences of items and open type fields, each as a writer and a reader,
  and the bits that the writers of numbers, lengths and enumerations write.
\<close>

unbundle bit_operations_syntax

section \<open>Whole numbers\<close>

text \<open>
  \<open>(uint32_t)ceilf(log2f(x))\<close>. The arguments of the sources modelled here are at most \<open>2 ^ 16\<close>, where single precision
  is exact enough.
\<close>

fun ceil_log2 :: "nat \<Rightarrow> nat" where
  "ceil_log2 x = (if x \<le> 1 then 0 else Suc (ceil_log2 ((x + 1) div 2)))"

declare ceil_log2.simps [simp del]

text \<open>\<open>(uint32_t)floorf(log2f(x) + 1)\<close> for \<open>x > 0\<close>: the number of significant bits.\<close>

fun floor_log2_1 :: "nat \<Rightarrow> nat" where
  "floor_log2_1 x = (if x = 0 then 0 else Suc (floor_log2_1 (x div 2)))"

declare floor_log2_1.simps [simp del]

definition ceil_frac :: "nat \<Rightarrow> nat \<Rightarrow> nat" where
  "ceil_frac n d = (n + (d - 1)) div d"

text \<open>The unaligned variant does not look at the code of \<open>pack\<close>.\<close>

definition pack_constrained_whole_number ::
  "'a::len word \<Rightarrow> 'a word \<Rightarrow> 'a word \<Rightarrow> bool \<Rightarrow> bit_ref \<Rightarrow> packed" where
  "pack_constrained_whole_number n lb ub aligned b =
    (if ub < lb \<or> n < lb \<or> ub < n then (SRSASN_ERROR_ENCODE_FAIL, b)
     else
       let ra = unat (ub - lb) + 1; n_bits = ceil_log2 ra; toencode = n - lb
       in if ra = 1 then (SRSASN_SUCCESS, b)
          else if \<not> aligned then (SRSASN_SUCCESS, snd (pack (ucast toencode) n_bits b))
          else if ra < 256 then pack (ucast toencode) n_bits b
          else if ra \<le> 65536 then
            let n_octets = ceil_frac n_bits 8
            in pthen (align_bytes_zero b) (\<lambda>b. pthen (pack 0 (n_octets * 8 - n_bits) b) (\<lambda>b.
               pthen (pack (ucast toencode) n_bits b) align_bytes_zero))
          else
            let n_bits_len = ceil_log2 (ceil_frac n_bits 8);
                n_bits = floor_log2_1 (max (unat toencode) 1);
                n_octets = (n_bits + 7) div 8
            in pthen (pack (of_nat (n_octets - 1)) n_bits_len b) (\<lambda>b. pthen (align_bytes_zero b) (\<lambda>b.
               pthen (pack 0 (n_octets * 8 - n_bits) b) (pack (ucast toencode) n_bits))))"

text \<open>An alignment while reading.\<close>

definition ualign :: "bit_ref \<Rightarrow> unit unpacked" where
  "ualign b = (case align_bytes b of (SRSASN_SUCCESS, b) \<Rightarrow> Inr ((), b) | (c, b) \<Rightarrow> Inl c)"

definition unpack_constrained_whole_number ::
  "'a::len word \<Rightarrow> 'a word \<Rightarrow> bool \<Rightarrow> bit_ref \<Rightarrow> 'a word unpacked" where
  "unpack_constrained_whole_number lb ub aligned b =
    (if ub < lb then Inl SRSASN_ERROR_DECODE_FAIL
     else
       let ra = unat (ub - lb) + 1; n_bits = ceil_log2 ra
       in if ra = 1 then Inr (lb, b)
          else if \<not> aligned then
            uthen (unpack n_bits b) (\<lambda>n b.
              if ub < n + lb then Inl SRSASN_ERROR_DECODE_FAIL else Inr (n + lb, b))
          else if ra < 256 then uthen (unpack n_bits b) (\<lambda>n b. Inr (n + lb, b))
          else if ra \<le> 65536 then
            let n_octets = ceil_frac n_bits 8
            in uthen (ualign b) (\<lambda>_ b. uthen (unpack (n_octets * 8) b) (\<lambda>n b.
               uthen (ualign b) (\<lambda>_ b. Inr (n + lb, b))))
          else
            let n_bits_len = ceil_log2 (ceil_frac n_bits 8)
            in uthen (unpack n_bits_len b :: u32 unpacked) (\<lambda>n_octets b. uthen (ualign b) (\<lambda>_ b.
               uthen (unpack (unat (n_octets + 1) * 8) b) (\<lambda>n b. Inr (n + lb, b)))))"

definition pack_norm_small_non_neg_whole_number :: "u32 \<Rightarrow> bit_ref \<Rightarrow> packed" where
  "pack_norm_small_non_neg_whole_number n b =
    (if n \<le> 63 then pack n 7 b
     else pthen (pack 1 1 b) (\<lambda>b. (SRSASN_ERROR_ENCODE_FAIL, b)))"

text \<open>Reading leaves the caller's variable, 0 in \<open>unpack_enum\<close>, alone when it fails before the digits.\<close>

definition unpack_norm_small_non_neg_whole_number :: "bit_ref \<Rightarrow> u32 read" where
  "unpack_norm_small_non_neg_whole_number b =
    rthen (unpack_bit b) 0 (\<lambda>ext b. if \<not> ext then unpack_bits 6 b else (SRSASN_ERROR_DECODE_FAIL, 0, b))"

section \<open>Length determinants\<close>

definition pack_length :: "u32 \<Rightarrow> bool \<Rightarrow> bit_ref \<Rightarrow> packed" where
  "pack_length val aligned b =
    (if \<not> aligned then
       (if val < 128 then pack val 8 b
        else if val < 16384 then pthen (pack 2 2 b) (pack val 14)
        else (SRSASN_ERROR_ENCODE_FAIL, b))
     else if 65536 < val then (SRSASN_ERROR_ENCODE_FAIL, b)
     else pthen (align_bytes b) (\<lambda>b.
       if val < 128 then pack val 8 b
       else if val < 16384 then pthen (pack 2 2 b) (pack val 14)
       else let m = val div 16384
            in pthen (pack 3 2 b) (\<lambda>b. pthen (pack m 6 b) (pack (val - m * 16384) 16))))"

text \<open>The value is the caller's 0 where reading fails early.\<close>

definition unpack_length :: "bool \<Rightarrow> bit_ref \<Rightarrow> u32 read" where
  "unpack_length aligned b =
    (if \<not> aligned then
       rthen (unpack_bit b) 0 (\<lambda>ext b.
         if \<not> ext then unpack_bits 7 b
         else rthen (unpack_bit b) 0 (\<lambda>ext b.
           if \<not> ext then unpack_bits 14 b else (SRSASN_ERROR_DECODE_FAIL, 0, b)))
     else
       (case align_bytes b of
          (SRSASN_SUCCESS, b) \<Rightarrow>
            rthen (unpack_bits 8 b) 0 (\<lambda>val b.
              if val < 128 then (SRSASN_SUCCESS, val, b)
              else if val - 128 < 64 then
                rthen (unpack_bits 8 b) (val - 128) (\<lambda>val_octet_2 b.
                  (SRSASN_SUCCESS, push_bit 8 (val - 128) + val_octet_2, b))
              else (SRSASN_ERROR_ENCODE_FAIL, val - 128, b))
        | (c, b) \<Rightarrow> (c, 0, b)))"

section \<open>Enumerations\<close>

definition pack_enum :: "u32 \<Rightarrow> u32 \<Rightarrow> u32 \<Rightarrow> bool \<Rightarrow> bit_ref \<Rightarrow> packed" where
  "pack_enum e nof_types nof_exts has_ext b =
    (if nof_types \<le> e then (SRSASN_ERROR_ENCODE_FAIL, b)
     else if has_ext then
       let nof_bits = ceil_log2 (unat (nof_types - nof_exts)); nof_noext = nof_types - nof_exts
       in pthen (pack_bool (nof_noext \<le> e) b)
            (if e < nof_noext then pack e nof_bits else pack_norm_small_non_neg_whole_number (e - nof_noext))
     else pack e (ceil_log2 (unat nof_types)) b)"

text \<open>
  \<open>unpack_enum\<close> returns early when the extension bit cannot be read; the value is then 0, which is below
  \<open>nof_types\<close>, so the check at the end changes nothing.
\<close>

definition unpack_enum :: "u32 \<Rightarrow> u32 \<Rightarrow> bool \<Rightarrow> bit_ref \<Rightarrow> u32 read" where
  "unpack_enum nof_types nof_exts has_ext b =
    (let (code, val, b) =
       (if has_ext then
          rthen (unpack_bit b) 0 (\<lambda>ext b.
            if \<not> ext then unpack_bits (ceil_log2 (unat (nof_types - nof_exts))) b
            else let (code, val, b) = unpack_norm_small_non_neg_whole_number b
                 in (code, val + (nof_types - nof_exts), b))
        else unpack_bits (ceil_log2 (unat nof_types)) b)
     in if nof_types \<le> val then (SRSASN_ERROR_DECODE_FAIL, val, b) else (code, val, b))"

section \<open>Octet strings and bit strings\<close>

text \<open>\<open>fixed_octstring<N>\<close> and \<open>dyn_octstring\<close>, the unaligned variants.\<close>

definition octstring_to_number :: "bytes \<Rightarrow> u64" where
  "octstring_to_number ptr =
    (let nbytes = length ptr
     in if 8 < nbytes then 0 else (\<Sum>i\<leftarrow>[0..<nbytes]. push_bit (i * 8) (ucast (ptr ! (nbytes - 1 - i)))))"

definition number_to_octstring :: "bytes \<Rightarrow> u64 \<Rightarrow> bytes" where
  "number_to_octstring ptr number =
    (let nbytes = length ptr
     in if 8 < nbytes then ptr
        else fill nbytes (\<lambda>i. nbytes - 1 - i) (\<lambda>i. ucast (drop_bit (i * 8) number AND 0xFF)) ptr)"

definition dyn_octstring_pack :: "bytes \<Rightarrow> bit_ref \<Rightarrow> packed" where
  "dyn_octstring_pack octets b = pthen (pack_length (of_nat (length octets)) False b) (pack_octets octets)"

definition dyn_octstring_unpack :: "bit_ref \<Rightarrow> bytes unpacked" where
  "dyn_octstring_unpack b = uthen (handled (unpack_length False b)) (\<lambda>len b. unpack_octets (unat len) b)"

text \<open>
  A \<open>bitstring<LB, UB>\<close> holds its octets least significant first. The bounds are arguments of the operations.
\<close>

record bitstring =
  bs_octets :: bytes
  bs_nof_bits :: nat

definition bs_resize :: "nat \<Rightarrow> bitstring" where
  "bs_resize n = \<lparr>bs_octets = replicate (ceil_frac n 8) 0, bs_nof_bits = n\<rparr>"

definition bs_from_number :: "bytes \<Rightarrow> u64 \<Rightarrow> nat \<Rightarrow> bytes" where
  "bs_from_number ptr number nbits =
    (if 64 < nbits then ptr
     else
       let nof_bytes = ceil_frac nbits 8;
           ptr = fill nof_bytes (\<lambda>i. i) (\<lambda>i. ucast (drop_bit (i * 8) number AND 0xFF)) ptr;
           offset = nbits mod 8
       in if 0 < offset then ptr[nof_bytes - 1 := ptr ! (nof_bytes - 1) AND ucast (push_bit offset 1 - 1 :: u32)]
          else ptr)"

text \<open>\<open>ceilf(log2(max(val, 1)))\<close> counts one bit too few for a power of two.\<close>

definition from_number :: "nat \<Rightarrow> nat \<Rightarrow> bitstring \<Rightarrow> u64 \<Rightarrow> bitstring" where
  "from_number LB UB s val =
    (let nof_bits = max (ceil_log2 (max (unat val) 1)) LB
     in if UB < nof_bits then s
        else \<lparr>bs_octets = bs_from_number (bs_octets (bs_resize nof_bits)) val nof_bits, bs_nof_bits = nof_bits\<rparr>)"

text \<open>\<open>ptr[i] << (i * 8u)\<close> is an \<open>int\<close> shift, so the fourth octet is sign extended into the sum.\<close>

definition to_number :: "bitstring \<Rightarrow> u64" where
  "to_number s =
    (if 64 < bs_nof_bits s then 0
     else (\<Sum>i\<leftarrow>[0..<ceil_frac (bs_nof_bits s) 8]. scast (push_bit (i * 8) (ucast (bs_octets s ! i)) :: u32)))"

definition pack_length_prefix :: "nat \<Rightarrow> nat \<Rightarrow> nat \<Rightarrow> bool \<Rightarrow> bool \<Rightarrow> bit_ref \<Rightarrow> packed" where
  "pack_length_prefix len lb ub has_ext is_aligned b =
    (if has_ext \<and> ub = 2 ^ 32 - 1 then (SRSASN_ERROR_ENCODE_FAIL, b)
     else
       let within_bounds = lb \<le> len \<and> len \<le> ub
       in if \<not> within_bounds \<and> \<not> has_ext then (SRSASN_ERROR_ENCODE_FAIL, b)
          else pthen (if has_ext then pack_bool (\<not> within_bounds) b else (SRSASN_SUCCESS, b)) (\<lambda>b.
            if lb = ub \<and> within_bounds then (SRSASN_SUCCESS, b)
            else if ub = 2 ^ 32 - 1 \<or> \<not> within_bounds then pack_length (of_nat len) False b
            else pthen (pack (of_nat (len - lb)) (ceil_log2 (ub - lb)) b) (\<lambda>b.
              if is_aligned then align_bytes_zero b else (SRSASN_SUCCESS, b))))"

definition pack_bitfield :: "bytes \<Rightarrow> nat \<Rightarrow> nat \<Rightarrow> nat \<Rightarrow> bool \<Rightarrow> bit_ref \<Rightarrow> packed" where
  "pack_bitfield buf nbits lb ub is_aligned b =
    (if nbits = 0 then (SRSASN_ERROR_ENCODE_FAIL, b)
     else
       let b = (if is_aligned \<and> (lb \<noteq> ub \<or> 16 < ub) then snd (align_bytes b) else b);
           n_octs = ceil_frac nbits 8; offset = (nbits - 1) mod 8 + 1
       in pthen (pack (ucast (buf ! (n_octs - 1))) offset b) (pack_octets (rev (take (n_octs - 1) buf))))"

definition bitstring_pack :: "nat \<Rightarrow> nat \<Rightarrow> bool \<Rightarrow> bool \<Rightarrow> bitstring \<Rightarrow> bit_ref \<Rightarrow> packed" where
  "bitstring_pack lb ub has_ext is_aligned s b =
    pthen (pack_length_prefix (bs_nof_bits s) lb ub has_ext is_aligned b)
      (pack_bitfield (bs_octets s) (bs_nof_bits s) lb ub is_aligned)"

definition unpack_length_prefix :: "nat \<Rightarrow> nat \<Rightarrow> bool \<Rightarrow> bool \<Rightarrow> bit_ref \<Rightarrow> u32 unpacked" where
  "unpack_length_prefix lb ub has_ext is_aligned b =
    uthen (if has_ext then unpack_bool b else Inr (False, b)) (\<lambda>ext b.
      if ub = 2 ^ 32 - 1 \<or> ext then handled (unpack_length is_aligned b)
      else if lb = ub then Inr (of_nat lb, b)
      else unpack_constrained_whole_number (of_nat lb) (of_nat ub) is_aligned b)"

definition unpack_bitfield :: "nat \<Rightarrow> nat \<Rightarrow> nat \<Rightarrow> bool \<Rightarrow> bit_ref \<Rightarrow> bytes unpacked" where
  "unpack_bitfield n lb ub is_aligned b =
    (if 65536 < n then Inl SRSASN_ERROR_DECODE_FAIL
     else if n = 0 then Inr ([], b)
     else
       let b = (if is_aligned \<and> (lb \<noteq> ub \<or> 16 < ub) then snd (align_bytes b) else b);
           n_octs = ceil_frac n 8; offset = (n - 1) mod 8 + 1
       in uthen (unpack offset b) (\<lambda>top b. uthen (unpack_octets (n_octs - 1) b) (\<lambda>rest b.
            Inr (rev rest @ [top], b))))"

definition bitstring_unpack :: "nat \<Rightarrow> nat \<Rightarrow> bool \<Rightarrow> bool \<Rightarrow> bit_ref \<Rightarrow> bitstring unpacked" where
  "bitstring_unpack lb ub has_ext is_aligned b =
    uthen (unpack_length_prefix lb ub has_ext is_aligned b) (\<lambda>nbits b.
      uthen (unpack_bitfield (unat nbits) lb ub is_aligned b) (\<lambda>octets b.
        Inr (\<lparr>bs_octets = octets, bs_nof_bits = unat nbits\<rparr>, b)))"

section \<open>Sequences of items and open types\<close>

fun pack_items :: "('a \<Rightarrow> bit_ref \<Rightarrow> packed) \<Rightarrow> 'a list \<Rightarrow> bit_ref \<Rightarrow> packed" where
  "pack_items packer [] b = (SRSASN_SUCCESS, b)"
| "pack_items packer (x # xs) b = pthen (packer x b) (pack_items packer xs)"

fun unpack_items :: "(bit_ref \<Rightarrow> 'a unpacked) \<Rightarrow> nat \<Rightarrow> bit_ref \<Rightarrow> 'a list unpacked" where
  "unpack_items unpacker 0 b = Inr ([], b)"
| "unpack_items unpacker (Suc n) b =
    uthen (unpacker b) (\<lambda>x b. uthen (unpack_items unpacker n b) (\<lambda>xs b. Inr (x # xs, b)))"

definition pack_dyn_seq_of ::
  "('a \<Rightarrow> bit_ref \<Rightarrow> packed) \<Rightarrow> u32 \<Rightarrow> u32 \<Rightarrow> bool \<Rightarrow> 'a list \<Rightarrow> bit_ref \<Rightarrow> packed" where
  "pack_dyn_seq_of packer lb ub aligned seqof b =
    pthen (pack_constrained_whole_number (of_nat (length seqof)) lb ub aligned b) (pack_items packer seqof)"

definition unpack_dyn_seq_of ::
  "(bit_ref \<Rightarrow> 'a unpacked) \<Rightarrow> u32 \<Rightarrow> u32 \<Rightarrow> bool \<Rightarrow> bit_ref \<Rightarrow> 'a list unpacked" where
  "unpack_dyn_seq_of unpacker lb ub aligned b =
    uthen (unpack_constrained_whole_number lb ub aligned b) (\<lambda>nof_items b. unpack_items unpacker (unat nof_items) b)"


text \<open>
  \<open>varlength_field_pack_guard\<close>: the field is written to a buffer of 1024 octets and copied behind its length when
  the guard is destroyed, whatever the code of the writer. The fresh buffer is modelled with zeros: a written octet
  keeps no bit of what was there before.
\<close>

definition varlength_pack :: "(bit_ref \<Rightarrow> packed) \<Rightarrow> bool \<Rightarrow> bit_ref \<Rightarrow> packed" where
  "varlength_pack p align b =
    (let (code, t) = p (bit_ref_new (replicate 1024 0));
         leftover = 7 - (distance t + (2 ^ 32 - 1)) mod 8;
         t = snd (pack 0 leftover t);
         nof_bytes = distance t div 8
     in (code, pack_each (take nof_bytes (br_mem t)) (snd (pack_length (of_nat nof_bytes) align b))))"

definition varlength_unpack :: "(bit_ref \<Rightarrow> 'a unpacked) \<Rightarrow> bool \<Rightarrow> bit_ref \<Rightarrow> 'a unpacked" where
  "varlength_unpack u align b =
    (case unpack_length align b of
       (_, len, b0) \<Rightarrow>
         uthen (u b0) (\<lambda>v b.
           let nof_bits = unat (len * 8 - of_nat (distance b - distance b0))
           in Inr (v, snd (snd (unpack_bits nof_bits b :: u32 read)))))"

section \<open>Lemmas\<close>

lemma ceil_log2_le: "x \<le> 2 ^ ceil_log2 x"
proof (induction x rule: ceil_log2.induct)
  case (1 x)
  then show ?case by (cases "x \<le> 1") (auto simp: ceil_log2.simps [of x])
qed

lemma ceil_log2_mono: "x \<le> 2 ^ k \<Longrightarrow> ceil_log2 x \<le> k"
proof (induction x arbitrary: k rule: ceil_log2.induct)
  case (1 x)
  show ?case
  proof (cases "x \<le> 1")
    case False
    then obtain j where "k = Suc j" using "1.prems" by (cases k) auto
    then show ?thesis using "1.IH" [OF False, of j] "1.prems" False by (simp add: ceil_log2.simps [of x])
  qed (simp add: ceil_log2.simps [of x])
qed

lemma ceil_log2_1 [simp]: "ceil_log2 0 = 0" "ceil_log2 1 = 0" "ceil_log2 (Suc 0) = 0"
  by (simp_all add: ceil_log2.simps)

lemma bits_of_cong: "(\<And>i. i < n \<Longrightarrow> bit v i = bit w i) \<Longrightarrow> bits_of n v = bits_of n w"
  by (rule nth_equalityI) auto

lemma and_mask_id:
  assumes "unat v < 2 ^ n"
  shows "v AND mask n = (v :: 'a::len word)"
proof -
  have "unat (take_bit n v) = unat v" using assms by (simp add: unsigned_take_bit_eq take_bit_nat_eq_self)
  then show ?thesis by (simp flip: take_bit_eq_mask add: word_unat_eq_iff)
qed

text \<open>Operations whose code the caller does not look at.\<close>

lemma writes_unchecked [codec]:
  assumes "writes p bs" and "writes q cs"
  shows "writes (\<lambda>b. q (snd (p b))) (bs @ cs)"
proof -
  have "pthen (p b) q = q (snd (p b))" if "br_ok b" "length (bs @ cs) \<le> room b" for b
    by (rule writesD [OF assms(1) that(1)]) (use that(2) in auto)
  then show ?thesis using writes_then [OF assms] by (auto simp: writes_def)
qed

lemma handled_Inr: "handled r = Inr (v, b) \<longleftrightarrow> r = (SRSASN_SUCCESS, v, b)"
  by (cases r rule: handled.cases) auto

lemma reads_unchecked [codec]:
  assumes "reads (\<lambda>b. handled (u b)) bs v" and "reads (f v) cs w"
  shows "reads (\<lambda>b. case u b of (_, v, b) \<Rightarrow> f v b) (bs @ cs) w"
proof -
  have "uthen (handled (u b)) f = (case u b of (_, v, b) \<Rightarrow> f v b)" if "br_ok b" "ahead b = bs @ rest" for b rest
    by (rule readsD [OF assms(1) that]) (simp add: handled_Inr)
  moreover have "\<exists>rest. ahead b = bs @ rest" if "ahead b = (bs @ cs) @ rest" for b rest using that by auto
  moreover have "reads (\<lambda>b. uthen (handled (u b)) f) (bs @ cs) w"
    by (rule reads_then [OF assms(1)]) (rule assms(2))
  ultimately show ?thesis unfolding reads_def by (metis append.assoc)
qed

lemma writes_if [codec]:
  "(c \<Longrightarrow> writes p bs) \<Longrightarrow> (\<not> c \<Longrightarrow> writes q cs) \<Longrightarrow> writes (\<lambda>b. if c then p b else q b) (if c then bs else cs)"
  by simp

text \<open>A constrained whole number takes the bits of its distance from the lower bound.\<close>

definition whole_bits :: "'a::len word \<Rightarrow> 'a word \<Rightarrow> nat" where
  "whole_bits lb ub = ceil_log2 (unat (ub - lb) + 1)"

definition enc_whole :: "'a::len word \<Rightarrow> 'a word \<Rightarrow> 'a word \<Rightarrow> bool list" where
  "enc_whole lb ub n = bits_of (whole_bits lb ub) (n - lb)"

lemma whole_bits_bound: "unat (ub - lb) < 2 ^ k \<Longrightarrow> whole_bits lb ub \<le> k"
  unfolding whole_bits_def by (rule ceil_log2_mono) simp

lemma whole_in_bits:
  assumes "lb \<le> n" and "n \<le> ub"
  shows "unat (n - lb) < 2 ^ whole_bits lb ub"
proof -
  have "unat (n - lb) \<le> unat (ub - lb)"
    using assms by (simp add: unat_sub_if' word_le_nat_alt)
  also have "\<dots> < 2 ^ whole_bits lb ub"
    using ceil_log2_le [of "unat (ub - lb) + 1"] by (simp add: whole_bits_def)
  finally show ?thesis .
qed

lemma writes_whole [codec]:
  fixes n :: "'a::len word"
  assumes "lb \<le> n" and "n \<le> ub" and "unat (ub - lb) < 2 ^ 31"
  shows "writes (pack_constrained_whole_number n lb ub False) (enc_whole lb ub n)"
proof (cases "ub = lb")
  case True
  then show ?thesis using assms
    by (simp add: pack_constrained_whole_number_def [abs_def] enc_whole_def whole_bits_def writes_done)
next
  case False
  have k: "whole_bits lb ub < 32" using whole_bits_bound [OF assms(3)] by simp
  have "bits_of (whole_bits lb ub) (ucast (n - lb) :: u32) = bits_of (whole_bits lb ub) (n - lb)"
    using k by (intro bits_of_cong) (auto simp: bit_simps dest: bit_imp_le_length)
  then have w: "writes (pack (ucast (n - lb)) (whole_bits lb ub)) (enc_whole lb ub n)"
    using writes_pack [OF k, of "ucast (n - lb)"] by (simp add: enc_whole_def)
  have "unat (ub - lb) \<noteq> 0" using False by (simp add: unat_eq_0)
  then have "pack_constrained_whole_number n lb ub False
      = (\<lambda>b. (SRSASN_SUCCESS, snd (pack (ucast (n - lb)) (whole_bits lb ub) b)))"
    using assms by (auto simp: pack_constrained_whole_number_def whole_bits_def Let_def fun_eq_iff not_less)
  then show ?thesis using writes_unchecked [OF w writes_done] by simp
qed

lemma reads_whole [codec]:
  fixes n :: "'a::len word"
  assumes "lb \<le> n" and "n \<le> ub" and "unat (ub - lb) < 2 ^ 31"
  shows "reads (unpack_constrained_whole_number lb ub False) (enc_whole lb ub n) n"
proof (cases "ub = lb")
  case True
  then show ?thesis using assms
    by (simp add: unpack_constrained_whole_number_def [abs_def] enc_whole_def whole_bits_def reads_done)
next
  case False
  let ?k = "whole_bits lb ub"
  have k: "?k \<le> 32" "?k \<le> LENGTH('a)"
    using whole_bits_bound [OF assms(3)] whole_bits_bound [of ub lb "LENGTH('a)"] by simp_all
  have "(n - lb) AND mask ?k = n - lb" by (rule and_mask_id) (rule whole_in_bits [OF assms(1,2)])
  then have r: "reads (unpack ?k) (enc_whole lb ub n) (n - lb)"
    using reads_unpack [OF k, of "n - lb"] by (simp add: enc_whole_def)
  have "reads (\<lambda>b. uthen (unpack ?k b) (\<lambda>n b.
      if ub < n + lb then Inl SRSASN_ERROR_DECODE_FAIL else Inr (n + lb, b))) (enc_whole lb ub n @ []) n"
    by (rule reads_then [OF r]) (use assms in \<open>simp add: leD reads_done\<close>)
  moreover have "unpack_constrained_whole_number lb ub False = (\<lambda>b. uthen (unpack ?k b) (\<lambda>n b.
      if ub < n + lb then Inl SRSASN_ERROR_DECODE_FAIL else Inr (n + lb, b)))"
    using assms False
    by (auto simp: unpack_constrained_whole_number_def whole_bits_def Let_def fun_eq_iff unat_eq_0)
  ultimately show ?thesis by simp
qed

text \<open>Length determinants below 128 and below 16384.\<close>

definition enc_length :: "u32 \<Rightarrow> bool list" where
  "enc_length val = (if val < 128 then bits_of 8 val else bits_of 2 (2 :: u32) @ bits_of 14 val)"

lemma writes_length [codec]: "val < 16384 \<Longrightarrow> writes (pack_length val False) (enc_length val)"
  using writes_pack [of 8 val] writes_then [OF writes_pack [of 2 2] writes_pack [of 14 val]]
  by (simp add: pack_length_def [abs_def] enc_length_def)

lemma reads_rthen [codec]:
  assumes u: "reads (\<lambda>b. handled (u b)) bs v" and f: "reads (\<lambda>b. handled (f v b)) cs w"
  shows "reads (\<lambda>b. handled (rthen (u b) d f)) (bs @ cs) w"
proof -
  have "handled (rthen r d f) = uthen (handled r) (\<lambda>v b. handled (f v b))" for r
    by (cases r rule: handled.cases) simp_all
  then show ?thesis using reads_then [OF u, of "\<lambda>v b. handled (f v b)"] f by simp
qed

lemma reads_bit [codec]: "reads (\<lambda>b. handled (unpack_bit b)) [v] v"
  using reads_bool [of v] by (simp add: unpack_bool_def [abs_def])

lemma reads_bit_rthen [codec]:
  "reads (\<lambda>b. handled (f v b)) cs w \<Longrightarrow> reads (\<lambda>b. handled (rthen (unpack_bit b) d f)) (v # cs) w"
  using reads_rthen [OF reads_bit] by fastforce

lemma reads_bits [codec]:
  fixes v :: "'a::len word"
  assumes "n \<le> 32" and "n \<le> LENGTH('a)" and "unat v < 2 ^ n"
  shows "reads (\<lambda>b. handled (unpack_bits n b)) (bits_of n v) v"
  using reads_unpack [OF assms(1,2), of v] and_mask_id [OF assms(3)] by (simp add: unpack_def [abs_def])

lemma bits_of_top: "unat v < 2 ^ n \<Longrightarrow> bits_of (Suc n) v = False # bits_of n v"
proof -
  assume "unat v < 2 ^ n"
  then have "\<not> bit v n" using arg_cong [OF and_mask_id [of v n], of "\<lambda>w. bit w n"] by (simp add: bit_simps)
  then show ?thesis using bits_of_split [of 1 "Suc n" v] by (simp add: bit_simps)
qed

lemma reads_length [codec]:
  assumes "val < 16384"
  shows "reads (\<lambda>b. handled (unpack_length False b)) (enc_length val) val"
proof (cases "val < 128")
  case True
  then have v: "unat val < 2 ^ 7" by (simp add: word_less_nat_alt)
  have e: "enc_length val = [False] @ bits_of 7 val"
    using bits_of_top [OF v] True by (simp add: enc_length_def)
  show ?thesis unfolding e unpack_length_def
    using reads_rthen [OF reads_bit [of False], of _ "bits_of 7 val" val] reads_bits [OF _ _ v] by simp
next
  case False
  have v: "unat val < 2 ^ 14" using assms by (simp add: word_less_nat_alt)
  have e: "enc_length val = [True] @ [False] @ bits_of 14 val"
  proof -
    have "bits_of 2 (2 :: u32) = [True, False]" by code_simp
    then show ?thesis using False by (simp add: enc_length_def)
  qed
  have "reads (\<lambda>b. handled (rthen (unpack_bit b) 0 (\<lambda>ext b.
      if \<not> ext then unpack_bits 14 b else (SRSASN_ERROR_DECODE_FAIL, 0, b)))) ([False] @ bits_of 14 val) val"
    by (rule reads_rthen [OF reads_bit]) (use reads_bits [OF _ _ v] in simp)
  then show ?thesis unfolding e unpack_length_def
    using reads_rthen [OF reads_bit [of True], of _ "[False] @ bits_of 14 val" val] by simp
qed


text \<open>Enumerations.\<close>

definition enc_enum :: "u32 \<Rightarrow> u32 \<Rightarrow> bool \<Rightarrow> u32 \<Rightarrow> bool list" where
  "enc_enum nof_types nof_exts has_ext e =
    (if has_ext then
       if e < nof_types - nof_exts then [False] @ bits_of (ceil_log2 (unat (nof_types - nof_exts))) e
       else [True] @ bits_of 7 (e - (nof_types - nof_exts))
     else bits_of (ceil_log2 (unat nof_types)) e)"

definition enum_ok :: "u32 \<Rightarrow> u32 \<Rightarrow> bool \<Rightarrow> u32 \<Rightarrow> bool" where
  "enum_ok nof_types nof_exts has_ext e \<longleftrightarrow> e < nof_types \<and> unat nof_types < 2 ^ 16 \<and>
     (has_ext \<longrightarrow> nof_exts \<le> nof_types \<and> nof_exts \<le> 64)"

lemma enum_bits:
  assumes "unat n < 2 ^ 16"
  shows "ceil_log2 (unat n) \<le> 16" and "e < n \<Longrightarrow> unat e < 2 ^ ceil_log2 (unat n)"
  using assms ceil_log2_mono [of "unat n" 16] ceil_log2_le [of "unat n"] by (auto simp: word_less_nat_alt)

lemma enum_ok_noext:
  assumes "enum_ok nof_types nof_exts has_ext e" and has_ext
  shows "unat (nof_types - nof_exts) < 2 ^ 16"
    and "\<not> e < nof_types - nof_exts \<Longrightarrow> unat (e - (nof_types - nof_exts)) \<le> 63"
  using assms by (auto simp: enum_ok_def unat_sub_if' word_less_nat_alt word_le_nat_alt)

lemma writes_enum [codec]:
  assumes ok: "enum_ok nof_types nof_exts has_ext e"
  shows "writes (pack_enum e nof_types nof_exts has_ext) (enc_enum nof_types nof_exts has_ext e)"
proof -
  have e: "\<not> nof_types \<le> e" "unat nof_types < 2 ^ 16" using ok by (auto simp: enum_ok_def)
  show ?thesis
  proof (cases has_ext)
    case False
    have "writes (pack e (ceil_log2 (unat nof_types))) (bits_of (ceil_log2 (unat nof_types)) e)"
      by (rule writes_pack) (use enum_bits(1) [OF e(2)] in simp)
    then show ?thesis using e False by (simp add: pack_enum_def [abs_def] enc_enum_def)
  next
    case True
    let ?no = "nof_types - nof_exts"
    note n = enum_ok_noext [OF ok True]
    show ?thesis
    proof (cases "e < ?no")
      case e_no: True
      have "writes (\<lambda>b. pthen (pack_bool False b) (pack e (ceil_log2 (unat ?no))))
          ([False] @ bits_of (ceil_log2 (unat ?no)) e)"
        by (rule writes_then [OF writes_bool writes_pack]) (use enum_bits(1) [OF n(1)] in simp)
      then show ?thesis using e True e_no by (simp add: pack_enum_def [abs_def] enc_enum_def Let_def not_le [symmetric])
    next
      case ext: False
      have "writes (pack_norm_small_non_neg_whole_number (e - ?no)) (bits_of 7 (e - ?no))"
        using n(2) [OF ext] writes_pack [of 7 "e - ?no"]
        by (simp add: pack_norm_small_non_neg_whole_number_def [abs_def] word_le_nat_alt)
      then have "writes (\<lambda>b. pthen (pack_bool True b) (pack_norm_small_non_neg_whole_number (e - ?no)))
          ([True] @ bits_of 7 (e - ?no))"
        by (rule writes_then [OF writes_bool])
      moreover have "(?no \<le> e) = True" using ext by (simp add: not_less)
      ultimately show ?thesis using e True ext by (simp add: pack_enum_def [abs_def] enc_enum_def Let_def)
    qed
  qed
qed

lemma reads_checked:
  assumes "reads (\<lambda>b. handled (u b)) bs v" and "\<not> P v"
  shows "reads (\<lambda>b. handled (let (c, v, b) = u b in if P v then (d, v, b) else (c, v, b))) bs v"
  by (rule reads_imp [OF assms(1)]) (simp add: handled_Inr assms(2))

lemma reads_add:
  assumes "reads (\<lambda>b. handled (u b)) bs v"
  shows "reads (\<lambda>b. handled (let (c, v, b) = u b in (c, f v, b))) bs (f v)"
  by (rule reads_imp [OF assms]) (simp add: handled_Inr)

lemma reads_enum [codec]:
  assumes ok: "enum_ok nof_types nof_exts has_ext e"
  shows "reads (\<lambda>b. handled (unpack_enum nof_types nof_exts has_ext b)) (enc_enum nof_types nof_exts has_ext e) e"
proof -
  have e: "e < nof_types" "unat nof_types < 2 ^ 16" using ok by (auto simp: enum_ok_def)
  let ?no = "nof_types - nof_exts"
  let ?u = "\<lambda>b. if has_ext then rthen (unpack_bit b) 0 (\<lambda>ext b.
      if \<not> ext then unpack_bits (ceil_log2 (unat ?no)) b
      else let (code, val, b) = unpack_norm_small_non_neg_whole_number b in (code, val + ?no, b))
    else unpack_bits (ceil_log2 (unat nof_types)) b"
  have "reads (\<lambda>b. handled (?u b)) (enc_enum nof_types nof_exts has_ext e) e"
  proof (cases has_ext)
    case False
    then show ?thesis
      using reads_bits [OF _ _ enum_bits(2) [OF e(2) e(1)]] enum_bits(1) [OF e(2)] by (simp add: enc_enum_def)
  next
    case True
    note n = enum_ok_noext [OF ok True]
    show ?thesis
    proof (cases "e < ?no")
      case e_no: True
      have "reads (\<lambda>b. handled (unpack_bits (ceil_log2 (unat ?no)) b)) (bits_of (ceil_log2 (unat ?no)) e) e"
        by (rule reads_bits [OF _ _ enum_bits(2) [OF n(1) e_no]]) (use enum_bits(1) [OF n(1)] in simp_all)
      then show ?thesis using True e_no by (auto simp: enc_enum_def intro: reads_bit_rthen)
    next
      case ext: False
      have v: "unat (e - ?no) < 2 ^ 6" using n(2) [OF ext] by simp
      have "reads (\<lambda>b. handled (unpack_norm_small_non_neg_whole_number b)) ([False] @ bits_of 6 (e - ?no)) (e - ?no)"
        unfolding unpack_norm_small_non_neg_whole_number_def
        by (rule reads_rthen [OF reads_bit]) (use reads_bits [OF _ _ v] in simp)
      then have "reads (\<lambda>b. handled (let (c, v, b) = unpack_norm_small_non_neg_whole_number b in (c, v + ?no, b)))
          (bits_of 7 (e - ?no)) e"
        using reads_add [of unpack_norm_small_non_neg_whole_number "bits_of 7 (e - ?no)" "e - ?no" "\<lambda>v. v + ?no"]
          bits_of_top [OF v] by simp
      then show ?thesis using True ext by (auto simp: enc_enum_def intro: reads_bit_rthen)
    qed
  qed
  then show ?thesis
    unfolding unpack_enum_def by (rule reads_checked) (use e(1) in simp)
qed

end
