(* ===== verification/Asn1_Codec.thy ===== *)
theory Asn1_Codec
  imports Asn1_Per
begin

text \<open>
  The contract of a writer and a reader of one ASN.1 type, the locale \<open>per_codec\<close>, and its interpretations for the
  octet strings, bit strings, sequences of items and open type fields of \<^verbatim>\<open>lib/src/asn1/asn1_utils.cc\<close>. The
  message types interpret it in their own theories.
\<close>

unbundle bit_operations_syntax

section \<open>Codecs\<close>

text \<open>
  A writer and a reader of one type with the encoding they share. \<open>ok\<close> are the values the type can carry.
\<close>

locale per_codec =
  fixes pack :: "'a \<Rightarrow> bit_ref \<Rightarrow> packed"
    and unpack :: "bit_ref \<Rightarrow> 'a unpacked"
    and enc :: "'a \<Rightarrow> bool list"
    and ok :: "'a \<Rightarrow> bool"
  assumes writes: "ok x \<Longrightarrow> writes (pack x) (enc x)"
    and reads: "ok x \<Longrightarrow> reads unpack (enc x) x"
begin

lemma roundtrip:
  assumes "ok x" and "length (enc x) \<le> 8 * length mem"
  obtains b b' where "pack x (bit_ref_new mem) = (SRSASN_SUCCESS, b)" and "br_ok b" and "written b = enc x"
    and "length (br_mem b) = length mem"
    and "unpack (bit_ref_new (br_mem b)) = Inr (x, b')" and "br_ok b'" and "ahead b' = ahead b"
proof -
  obtain b where b: "pack x (bit_ref_new mem) = (SRSASN_SUCCESS, b)" "br_ok b" "written b = enc x"
      "length (br_mem b) = length mem"
    by (rule writesD [OF writes [OF assms(1)], of "bit_ref_new mem"]) (use assms(2) in auto)
  have a: "ahead (bit_ref_new (br_mem b)) = enc x @ ahead b" using ahead_written [OF b(2)] b(3) by simp
  obtain b' where "unpack (bit_ref_new (br_mem b)) = Inr (x, b')" "br_ok b'" "ahead b' = ahead b"
    by (rule readsD [OF reads [OF assms(1)] _ a]) simp_all
  with b show thesis by (rule that)
qed

lemma writes_items: "list_all ok xs \<Longrightarrow> writes (pack_items pack xs) (concat (map enc xs))"
proof (induction xs)
  case Nil
  then show ?case using writes_done by (simp add: ext [of "pack_items pack []"])
next
  case (Cons x xs)
  have "writes (\<lambda>b. pthen (pack x b) (pack_items pack xs)) (enc x @ concat (map enc xs))"
    by (rule writes_then) (use Cons writes in auto)
  then show ?case by (simp add: ext [of "pack_items pack (x # xs)"])
qed

lemma reads_items: "list_all ok xs \<Longrightarrow> reads (unpack_items unpack (length xs)) (concat (map enc xs)) xs"
proof (induction xs)
  case Nil
  then show ?case using reads_done [of "[]"] by (simp add: ext [of "unpack_items unpack 0"])
next
  case (Cons x xs)
  have "reads (\<lambda>b. uthen (unpack b) (\<lambda>x b. uthen (unpack_items unpack (length xs) b) (\<lambda>xs b. Inr (x # xs, b))))
      (enc x @ concat (map enc xs)) (x # xs)"
    by (rule reads_then [OF reads]) (use Cons in \<open>auto intro: reads_map\<close>)
  then show ?case by (simp add: ext [of "unpack_items unpack (Suc (length xs))"])
qed

end

definition enc_seq_of :: "('a \<Rightarrow> bool list) \<Rightarrow> u32 \<Rightarrow> u32 \<Rightarrow> 'a list \<Rightarrow> bool list" where
  "enc_seq_of enc lb ub xs = enc_whole lb ub (of_nat (length xs)) @ concat (map enc xs)"

definition seq_of_ok :: "('a \<Rightarrow> bool) \<Rightarrow> u32 \<Rightarrow> u32 \<Rightarrow> 'a list \<Rightarrow> bool" where
  "seq_of_ok ok lb ub xs \<longleftrightarrow> unat lb \<le> length xs \<and> length xs \<le> unat ub \<and> unat ub < 2 ^ 31 \<and> list_all ok xs"

lemma seq_of_okD:
  assumes "seq_of_ok ok lb ub xs"
  shows "lb \<le> of_nat (length xs)" and "of_nat (length xs) \<le> ub" and "unat (ub - lb) < 2 ^ 31"
    and "unat (of_nat (length xs) :: u32) = length xs" and "list_all ok xs"
  using assms by (auto simp: seq_of_ok_def word_le_nat_alt unat_of_nat unat_sub_if')

context per_codec begin

lemma writes_seq_of:
  "seq_of_ok ok lb ub xs \<Longrightarrow> writes (pack_dyn_seq_of pack lb ub False xs) (enc_seq_of enc lb ub xs)"
  unfolding pack_dyn_seq_of_def enc_seq_of_def
  by (intro writes_then writes_whole writes_items) (simp_all only: seq_of_okD)

lemma reads_seq_of:
  assumes "seq_of_ok ok lb ub xs"
  shows "reads (unpack_dyn_seq_of unpack lb ub False) (enc_seq_of enc lb ub xs) xs"
  unfolding unpack_dyn_seq_of_def enc_seq_of_def
  by (rule reads_then [OF reads_whole]) (use seq_of_okD [OF assms] reads_items in simp_all)

lemma seq_of: "per_codec (pack_dyn_seq_of pack lb ub False) (unpack_dyn_seq_of unpack lb ub False)
    (enc_seq_of enc lb ub) (seq_of_ok ok lb ub)"
  by unfold_locales (rule writes_seq_of reads_seq_of; assumption)+

end


section \<open>Octet strings and bit strings\<close>

interpretation octstring: per_codec pack_octets "unpack_octets n" mem_bits "\<lambda>xs. length xs = n" for n
  by unfold_locales (use writes_octets reads_octets in \<open>auto simp: mem_bits_concat\<close>)

definition enc_dyn_octstring :: "bytes \<Rightarrow> bool list" where
  "enc_dyn_octstring xs = enc_length (of_nat (length xs)) @ mem_bits xs"

lemma of_nat_length_less: "length xs < 16384 \<Longrightarrow> (of_nat (length xs) :: u32) < 16384"
  by (simp add: word_less_nat_alt unat_of_nat)

interpretation dyn_octstring: per_codec dyn_octstring_pack dyn_octstring_unpack enc_dyn_octstring
  "\<lambda>xs. length xs < 16384"
proof
  fix xs :: bytes assume xs: "length xs < 16384"
  show "writes (dyn_octstring_pack xs) (enc_dyn_octstring xs)"
    unfolding dyn_octstring_pack_def enc_dyn_octstring_def
    by (rule writes_then [OF writes_length [OF of_nat_length_less [OF xs]]]) (simp add: octstring.writes)
  have "unat (of_nat (length xs) :: u32) = length xs" using xs by (simp add: unat_of_nat)
  then show "reads dyn_octstring_unpack (enc_dyn_octstring xs) xs"
    unfolding dyn_octstring_unpack_def enc_dyn_octstring_def
    by (intro reads_then [OF reads_length [OF of_nat_length_less [OF xs]]]) (simp add: octstring.reads)
qed

text \<open>The bits of a bit string are those of its number, most significant first.\<close>

definition bs_ok :: "nat \<Rightarrow> bitstring \<Rightarrow> bool" where
  "bs_ok n s \<longleftrightarrow> bs_nof_bits s = n \<and> 0 < n \<and> n \<le> 65536 \<and> length (bs_octets s) = ceil_frac n 8 \<and>
     unat (last (bs_octets s)) < 2 ^ ((n - 1) mod 8 + 1)"

definition enc_bitstring :: "bitstring \<Rightarrow> bool list" where
  "enc_bitstring s = bits_of ((bs_nof_bits s - 1) mod 8 + 1) (last (bs_octets s)) @ mem_bits (rev (butlast (bs_octets s)))"

lemma ceil_frac_8: "0 < n \<Longrightarrow> ceil_frac n 8 = Suc ((n - 1) div 8)"
  by (cases n) (simp_all add: ceil_frac_def)

lemma length_enc_bitstring: "bs_ok n s \<Longrightarrow> length (enc_bitstring s) = n"
  by (auto simp: bs_ok_def enc_bitstring_def ceil_frac_8)

interpretation fixed_bitstring: per_codec "bitstring_pack n n False False" "bitstring_unpack n n False False"
  enc_bitstring "bs_ok n" for n
proof
  fix s assume ok: "bs_ok n s"
  let ?k = "(n - 1) mod 8 + 1" and ?xs = "bs_octets s"
  have n: "bs_nof_bits s = n" "0 < n" "n \<le> 65536" and len: "length ?xs = Suc ((n - 1) div 8)"
    and top: "unat (last ?xs) < 2 ^ ?k"
    using ok by (auto simp: bs_ok_def ceil_frac_8)
  have k: "?k \<le> 8" using mod_less_divisor [of 8 "n - 1"] by linarith
  have xs: "?xs \<noteq> []" using len by auto
  have lst: "?xs ! ((n - 1) div 8) = last ?xs" using xs len by (simp add: last_conv_nth)
  have bl: "take ((n - 1) div 8) ?xs = butlast ?xs" using len by (simp add: butlast_conv_take)
  have "writes (\<lambda>b. pthen (pack (ucast (last ?xs)) ?k b) (pack_octets (rev (butlast ?xs)))) (enc_bitstring s)"
    unfolding enc_bitstring_def n(1)
    by (intro writes_then octstring.writes [OF refl]) (use writes_pack [of ?k "ucast (last ?xs)"] k in simp)
  moreover have "bitstring_pack n n False False s
      = (\<lambda>b. pthen (pack (ucast (last ?xs)) ?k b) (pack_octets (rev (butlast ?xs))))"
    using n len lst bl
    by (simp add: bitstring_pack_def pack_length_prefix_def pack_bitfield_def ceil_frac_8 Let_def fun_eq_iff)
  ultimately show "writes (bitstring_pack n n False False s) (enc_bitstring s)" by simp
  have "reads (\<lambda>b. uthen (unpack ?k b) (\<lambda>top b. uthen (unpack_octets ((n - 1) div 8) b) (\<lambda>rest b.
      Inr (rev rest @ [top], b)))) (enc_bitstring s) ?xs"
    unfolding enc_bitstring_def n(1)
  proof (rule reads_then)
    show "reads (unpack ?k) (bits_of ?k (last ?xs)) (last ?xs)"
      using reads_unpack [of ?k "last ?xs"] k and_mask_id [OF top] by simp
    have "length (rev (butlast ?xs)) = (n - 1) div 8" using len by simp
    from reads_map [OF octstring.reads [OF this], of "\<lambda>rest. rev rest @ [last ?xs]"]
    show "reads (\<lambda>b. uthen (unpack_octets ((n - 1) div 8) b) (\<lambda>rest b. Inr (rev rest @ [last ?xs], b)))
       (mem_bits (rev (butlast ?xs))) ?xs"
      using xs by simp
  qed
  then have "reads (unpack_bitfield n n n False) (enc_bitstring s) ?xs"
    using n by (simp add: unpack_bitfield_def [abs_def] ceil_frac_8 Let_def)
  from reads_map [OF this, of "\<lambda>octets. \<lparr>bs_octets = octets, bs_nof_bits = n\<rparr>"]
  have "reads (\<lambda>b. uthen (unpack_bitfield n n n False b) (\<lambda>octets b. Inr (\<lparr>bs_octets = octets, bs_nof_bits = n\<rparr>, b)))
      (enc_bitstring s) s"
    using n(1) by (cases s) simp
  moreover have "unat (of_nat n :: u32) = n" using n by (simp add: unat_of_nat)
  ultimately show "reads (bitstring_unpack n n False False) (enc_bitstring s) s"
    using n by (simp add: bitstring_unpack_def [abs_def] unpack_length_prefix_def)
qed


text \<open>\<open>from_number\<close> writes the bits of the number into the octets, least significant first.\<close>

lemma bit_byte_mask: "bit (ucast (drop_bit k v AND 0xFF) :: u8) j \<longleftrightarrow> j < 8 \<and> bit (v :: u64) (k + j)"
proof -
  have m: "(0xFF :: u64) = mask 8" by (simp add: mask_eq_exp_minus_1)
  show ?thesis unfolding m by (auto simp: bit_simps dest: bit_imp_le_length)
qed

lemma length_bs_from_number [simp]: "length (bs_from_number p v n) = length p"
  by (simp add: bs_from_number_def Let_def)

lemma bit_bs_from_number:
  assumes n: "0 < n" "n \<le> 64" and l: "length p = ceil_frac n 8" and i: "i < ceil_frac n 8" and j: "j < 8"
  shows "bit (bs_from_number p v n ! i) j \<longleftrightarrow> 8 * i + j < n \<and> bit v (8 * i + j)"
proof -
  let ?m = "ceil_frac n 8" and ?o = "n mod 8"
  let ?q = "fill ?m (\<lambda>i. i) (\<lambda>i. ucast (drop_bit (i * 8) v AND 0xFF)) p"
  have q: "bit (?q ! i) j \<longleftrightarrow> bit v (8 * i + j)"
    using l i j by (simp add: fill_id bit_byte_mask mult.commute)
  define a where "a = n div 8"
  have na: "n = 8 * a + ?o" "?o < 8" by (simp_all add: a_def)
  have m: "?m = (if ?o = 0 then a else Suc a)"
  proof -
    have "(8 * a + r + 7) div 8 = (if r = 0 then a else Suc a)" if "r < 8" for r
    proof (cases r)
      case (Suc k)
      then have "8 * a + r + 7 = 8 * Suc a + k" by simp
      then show ?thesis using that Suc by simp
    qed simp
    from this [OF na(2)] show ?thesis unfolding na(1) [symmetric] by (simp add: ceil_frac_def)
  qed
  show ?thesis
  proof (cases "?o = 0")
    case True
    then have "8 * i + j < n" using i j m na by simp
    then show ?thesis using q True n by (simp add: bs_from_number_def Let_def)
  next
    case False
    have mask: "(ucast (push_bit ?o 1 - 1 :: u32) :: u8) = mask ?o"
      by (simp only: mask_u32) (simp add: ucast_mask_u8)
    have b: "bs_from_number p v n = ?q[?m - 1 := ?q ! (?m - 1) AND mask ?o]"
      using False n unfolding bs_from_number_def Let_def mask by simp
    have m1: "?m - 1 = a" "?m = Suc a" using m False by simp_all
    show ?thesis
    proof (cases "i = a")
      case True
      then have "8 * i + j < n \<longleftrightarrow> j < ?o" using na(1) by (metis add_less_cancel_left)
      then show ?thesis using q True l m1 j by (simp only: b m1) (auto simp: bit_simps)
    next
      case False
      then have "8 * i + j < n" using i j m1(2) na by simp
      then show ?thesis using q False by (simp only: b m1) simp
    qed
  qed
qed


lemma sum_pred: "a + b = n - 1 \<Longrightarrow> 0 < n \<Longrightarrow> n = a + (b + 1 :: nat)"
  by arith

lemma octet_split:
  fixes n :: nat
  assumes "0 < n"
  obtains m k where "ceil_frac n 8 = Suc m" and "(n - 1) mod 8 + 1 = k" and "n = 8 * m + k" and "0 < k" and "k \<le> 8"
proof (rule that)
  show "ceil_frac n 8 = Suc ((n - 1) div 8)" by (rule ceil_frac_8 [OF assms])
  show "n = 8 * ((n - 1) div 8) + ((n - 1) mod 8 + 1)" by (rule sum_pred [OF mult_div_mod_eq assms])
  have "(n - 1) mod 8 < 8" by (rule mod_less_divisor) simp
  then show "(n - 1) mod 8 + 1 \<le> 8" by (simp only: Suc_eq_plus1 [symmetric] Suc_le_eq)
qed simp_all

lemma nth_enc_bitstring:
  assumes ok: "bs_ok n s" and p: "p < n"
  shows "enc_bitstring s ! p = bit (bs_octets s ! ((n - 1 - p) div 8)) ((n - 1 - p) mod 8)"
proof -
  let ?xs = "bs_octets s"
  have n: "bs_nof_bits s = n" "0 < n" and len: "length ?xs = ceil_frac n 8" using ok by (auto simp: bs_ok_def)
  obtain m k where m: "ceil_frac n 8 = Suc m" and k: "(n - 1) mod 8 + 1 = k" "n = 8 * m + k" "0 < k" "k \<le> 8"
    by (rule octet_split [OF n(2)])
  have xs: "?xs \<noteq> []" using len m by auto
  have enc: "enc_bitstring s = bits_of k (last ?xs) @ mem_bits (rev (butlast ?xs))"
    by (simp only: enc_bitstring_def n(1) k(1))
  have idx: "(n - 1 - p) div 8 = i" "(n - 1 - p) mod 8 = j" if "n - 1 - p = 8 * i + j" "j < 8" for i j
    unfolding that(1) by (rule octet_index [OF that(2)])+
  show ?thesis
  proof (cases "p < k")
    case True
    then have e: "n - 1 - p = 8 * m + (k - 1 - p)" "k - 1 - p < 8" using k(2-4) by linarith+
    show ?thesis unfolding idx [OF e] using True xs len m by (simp add: enc nth_append last_conv_nth)
  next
    case False
    define q where "q = p - k"
    define a where "a = q div 8"
    define b where "b = q mod 8"
    have q: "q < 8 * m" "p = q + k" using False p k(2) unfolding q_def by linarith+
    have ab: "q = 8 * a + b" "b < 8" by (simp_all add: a_def b_def)
    then have a: "a < m" using q(1) by linarith
    have e: "n - 1 - p = 8 * (m - 1 - a) + (7 - b)" "7 - b < 8" using k(2) q ab a by linarith+
    have "rev (butlast ?xs) ! a = ?xs ! (m - 1 - a)"
      using a len m by (simp add: rev_nth nth_butlast)
    moreover have "enc_bitstring s ! p = mem_bits (rev (butlast ?xs)) ! q"
      using False by (simp add: enc nth_append q_def)
    moreover have "mem_bits (rev (butlast ?xs)) ! q = bit (rev (butlast ?xs) ! a) (7 - b)"
      using q(1) len m by (simp add: a_def b_def)
    ultimately show ?thesis unfolding idx [OF e] by simp
  qed
qed

lemma and_mask_less:
  assumes "v AND mask n = (v :: 'a::len word)"
  shows "unat v < 2 ^ n"
proof -
  have "unat v = take_bit n (unat v)"
    using arg_cong [OF assms, of unat] by (simp flip: take_bit_eq_mask add: unsigned_take_bit_eq)
  then show ?thesis by (metis take_bit_nat_less_exp)
qed

lemma from_number_ok:
  assumes n: "0 < n" "n \<le> 64" and v: "unat v < 2 ^ n"
  shows "bs_ok n (from_number n n s v)" and "enc_bitstring (from_number n n s v) = bits_of n v"
proof -
  let ?m = "ceil_frac n 8" and ?xs = "bs_from_number (replicate (ceil_frac n 8) 0) v n"
  have "max (unat v) 1 \<le> 2 ^ n" using v by simp
  then have "ceil_log2 (max (unat v) 1) \<le> n" by (rule ceil_log2_mono)
  then have f: "from_number n n s v = \<lparr>bs_octets = ?xs, bs_nof_bits = n\<rparr>"
    by (simp add: from_number_def Let_def max_def bs_resize_def)
  obtain m k where m: "?m = Suc m" and k: "(n - 1) mod 8 + 1 = k" "n = 8 * m + k" "0 < k" "k \<le> 8"
    by (rule octet_split [OF n(1)])
  have bit_xs: "bit (?xs ! i) j \<longleftrightarrow> 8 * i + j < n \<and> bit v (8 * i + j)" if "i < Suc m" "j < 8" for i j
    by (rule bit_bs_from_number [OF n _ that [folded m]]) simp
  have ne: "length ?xs = Suc m" by (simp add: m)
  have "last ?xs AND mask k = last ?xs"
  proof (rule bit_word_eqI)
    fix j assume j: "j < LENGTH(8)"
    have "j < k" if "bit (?xs ! m) j" using bit_xs [of m j] j that k(2) by (simp del: k(2))
    moreover have "last ?xs = ?xs ! m" using ne by (metis diff_Suc_1 last_conv_nth length_0_conv nat.distinct(1))
    ultimately show "bit (last ?xs AND mask k) j \<longleftrightarrow> bit (last ?xs) j"
      using j by (auto simp: bit_simps)
  qed
  then have "unat (last ?xs) < 2 ^ k"
    by (rule and_mask_less)
  then show ok: "bs_ok n (from_number n n s v)" using n by (simp add: f bs_ok_def k(1) [simplified])
  show "enc_bitstring (from_number n n s v) = bits_of n v"
  proof (rule nth_equalityI)
    show "length (enc_bitstring (from_number n n s v)) = length (bits_of n v)"
      using length_enc_bitstring [OF ok] by simp
    fix p assume "p < length (enc_bitstring (from_number n n s v))"
    then have p: "p < n" using length_enc_bitstring [OF ok] by simp
    have "(n - 1 - p) div 8 < Suc m" using k(2-4) by (simp add: less_Suc_eq_le div_le_mono less_mult_imp_div_less)
    then show "enc_bitstring (from_number n n s v) ! p = bits_of n v ! p"
      using nth_enc_bitstring [OF ok p] p bit_xs [of "(n - 1 - p) div 8" "(n - 1 - p) mod 8"] by (simp add: f)
  qed
qed


text \<open>Reading a number back: the sign extension of the fourth octet only reaches the high half of the \<open>uint64_t\<close>.\<close>

lemma bit_octet_from_number:
  "0 < n \<Longrightarrow> n \<le> 64 \<Longrightarrow> i < ceil_frac n 8 \<Longrightarrow> j < 8 \<Longrightarrow>
    bit (bs_from_number (replicate (ceil_frac n 8) 0) v n ! i) j \<longleftrightarrow> 8 * i + j < n \<and> bit v (8 * i + j)"
  by (rule bit_bs_from_number) simp_all

lemma from_number_octets:
  assumes "0 < n" "n \<le> 64" "unat v < 2 ^ n"
  shows "from_number n n s v = \<lparr>bs_octets = bs_from_number (replicate (ceil_frac n 8) 0) v n, bs_nof_bits = n\<rparr>"
proof -
  have "max (unat v) 1 \<le> 2 ^ n" using assms(3) by simp
  then have "ceil_log2 (max (unat v) 1) \<le> n" by (rule ceil_log2_mono)
  then show ?thesis by (simp add: from_number_def Let_def max_def bs_resize_def)
qed

lemma unat_ucast_less:
  assumes "LENGTH('a) = n"
  shows "unat (ucast (v :: 'a::len word) :: 'b::len word) < 2 ^ n"
proof -
  have "unat (ucast v :: 'b word) \<le> unat v" by (simp add: unsigned_ucast_eq take_bit_nat_less_eq_self)
  also have "\<dots> < 2 ^ n" using unsigned_less [of v] assms by simp
  finally show ?thesis .
qed

lemma ucast_u32_add: "(ucast (a + b :: u64) :: u32) = ucast a + ucast b"
proof -
  have "(of_nat (unat (a + b)) :: u32) = of_nat (unat a + unat b)"
    by (simp add: word_of_nat_eq_iff take_bit_eq_mod unat_word_ariths mod_mod_cancel del: of_nat_unat of_nat_add)
  then show ?thesis by simp
qed

text \<open>Four octets in their places do not overlap.\<close>

lemma octets_sum:
  assumes t: "\<And>i j. i < 4 \<Longrightarrow> bit (t i) j \<longleftrightarrow> 8 * i \<le> j \<and> j < 8 * i + 8 \<and> bit (v :: u32) j"
  shows "t 0 + (t 1 + (t 2 + t 3)) = v"
proof -
  note b = t [of 0] t [of "Suc 0"] t [of 1] t [of 2] t [of 3]
  have "t 2 + t 3 = t 2 OR t 3" by (rule bit_add_disjoint) (simp add: b)
  moreover have "t 1 + (t 2 OR t 3) = t 1 OR (t 2 OR t 3)" by (rule bit_add_disjoint) (auto simp: b bit_or_iff)
  moreover have "t 0 + (t 1 OR (t 2 OR t 3)) = t 0 OR (t 1 OR (t 2 OR t 3))"
    by (rule bit_add_disjoint) (auto simp: b bit_or_iff)
  moreover have "t 0 OR (t 1 OR (t 2 OR t 3)) = v"
  proof (rule bit_word_eqI)
    fix j assume "j < LENGTH(32)"
    then show "bit (t 0 OR (t 1 OR (t 2 OR t 3))) j = bit v j" by (auto simp: b bit_or_iff)
  qed
  ultimately show ?thesis by simp
qed

lemma to_number_8: "to_number (from_number 8 8 s (ucast (v :: u8))) = ucast v"
proof -
  have v: "unat (ucast v :: u64) < 2 ^ 8" by (rule unat_ucast_less) simp
  have c: "ceil_frac 8 8 = 1" by (simp add: ceil_frac_def)
  have "bs_from_number (replicate 1 0) (ucast v) 8 ! 0 = v"
    by (rule bit_word_eqI) (use bit_octet_from_number [of 8 0 _ "ucast v"] in \<open>simp add: c bit_simps\<close>)
  moreover have "(scast (ucast v :: u32) :: u64) = ucast v"
    by (rule bit_word_eqI) (auto simp: bit_simps min_def dest: bit_imp_le_length)
  ultimately show ?thesis by (simp add: from_number_octets [OF _ _ v] to_number_def c)
qed

lemma to_number_32: "ucast (to_number (from_number 32 32 s (ucast (v :: u32)))) = v"
proof -
  have v: "unat (ucast v :: u64) < 2 ^ 32" by (rule unat_ucast_less) simp
  have c: "ceil_frac 32 8 = 4" by (simp add: ceil_frac_def)
  have upt: "[0..<4] = [0 :: nat, 1, 2, 3]" by code_simp
  let ?x = "bs_from_number (replicate 4 0) (ucast v :: u64) 32"
  have x: "bit (?x ! i) j \<longleftrightarrow> j < 8 \<and> bit v (8 * i + j)" if "i < 4" for i j
  proof (cases "j < 8")
    case True
    then show ?thesis using bit_octet_from_number [of 32 i j "ucast v"] that by (simp add: c bit_simps)
  qed (auto dest: bit_imp_le_length)
  let ?t = "\<lambda>i. push_bit (8 * i) (ucast (?x ! i) :: u32)"
  have t: "bit (?t i) j \<longleftrightarrow> 8 * i \<le> j \<and> j < 8 * i + 8 \<and> bit v j" if "i < 4" for i j
    using x [OF that, of "j - 8 * i"] that by (auto simp: bit_simps dest: bit_imp_le_length)
  have sum: "?t 0 + (?t 1 + (?t 2 + ?t 3)) = v" by (rule octets_sum) (rule t)
  have "(ucast (scast (w :: u32) :: u64) :: u32) = w" for w
    by (rule bit_word_eqI) (auto simp: bit_simps dest: bit_imp_le_length)
  then show ?thesis
    using sum by (simp add: from_number_octets [OF _ _ v] to_number_def c upt mult.commute ucast_u32_add)
qed


section \<open>Open type fields\<close>

definition pad_bits :: "nat \<Rightarrow> nat" where
  "pad_bits n = (8 - n mod 8) mod 8"

lemma pad_bits_dvd: "8 * ((n + pad_bits n) div 8) = n + pad_bits n"
proof -
  define r where "r = n mod 8"
  define q where "q = n div 8"
  have n: "n = 8 * q + r" "r < 8" by (simp_all add: r_def q_def)
  have "\<exists>k. n + pad_bits n = 8 * k"
  proof (cases "r = 0")
    case True
    then have "n + pad_bits n = 8 * q" using n(1) by (simp add: pad_bits_def flip: r_def)
    then show ?thesis by blast
  next
    case False
    then have "pad_bits n = 8 - r" by (simp add: pad_bits_def flip: r_def)
    then have "n + pad_bits n = 8 * q + (r + (8 - r))" using n(1) by simp
    also have "\<dots> = 8 * (q + 1)" using n(2) by simp
    finally have "n + pad_bits n = 8 * (q + 1)" .
    then show ?thesis by blast
  qed
  then show ?thesis by auto
qed

lemma mem_bits_take: "mem_bits (take k m) = take (8 * k) (mem_bits m)"
proof (rule nth_equalityI)
  fix i assume i: "i < length (mem_bits (take k m))"
  then have "i div 8 < k" by (simp add: less_mult_imp_div_less mult.commute)
  then show "mem_bits (take k m) ! i = take (8 * k) (mem_bits m) ! i" using i by simp
qed simp

lemma leftover_pad: "7 - (d + (2 ^ 32 - 1)) mod 8 = pad_bits d"
proof -
  have "d + (2 ^ 32 - 1) = (d + 7) + 8 * 536870911" by simp
  then have "(d + (2 ^ 32 - 1)) mod 8 = (d + 7) mod 8" by (simp only: mod_mult_self2)
  then have "(d + (2 ^ 32 - 1)) mod 8 = (d mod 8 + 7) mod 8" by (simp only: mod_add_left_eq)
  moreover have "7 - (r + 7) mod 8 = (8 - r) mod 8" if "r < 8" for r :: nat
    using that by (cases r) simp_all
  ultimately show ?thesis by (simp add: pad_bits_def)
qed

definition enc_varlength :: "bool list \<Rightarrow> bool list" where
  "enc_varlength bs =
    enc_length (of_nat ((length bs + pad_bits (length bs)) div 8)) @ bs @ replicate (pad_bits (length bs)) False"

lemma bits_of_zero [simp]: "bits_of n 0 = replicate n False"
  by (rule nth_equalityI) auto

lemma writes_varlength:
  assumes w: "writes p bs" and l: "length bs \<le> 8000"
  shows "writes (varlength_pack p False) (enc_varlength bs)"
proof -
  let ?n = "length bs" and ?pad = "pad_bits (length bs)"
  define k where "k = (?n + ?pad) div 8"
  have pad: "?pad < 8" by (simp add: pad_bits_def)
  obtain t where t: "p (bit_ref_new (replicate 1024 0)) = (SRSASN_SUCCESS, t)" "br_ok t"
      "length (br_mem t) = 1024" "written t = bs" "room t = 8192 - ?n"
    by (rule writesD [OF w, of "bit_ref_new (replicate 1024 0)"]) (use l in auto)
  have d: "distance t = ?n" using arg_cong [OF t(4), of length] t(2) by simp
  obtain u where u: "pack 0 ?pad t = (SRSASN_SUCCESS, u)" "br_ok u" "length (br_mem u) = 1024"
      "written u = bs @ replicate ?pad False"
    by (rule writesD [OF writes_pack [of ?pad 0] t(2)]) (use l pad t(3-5) in auto)
  have du: "distance u = ?n + ?pad" using arg_cong [OF u(4), of length] u(2) by simp
  have k: "8 * k = ?n + ?pad" unfolding k_def by (rule pad_bits_dvd)
  then have k1: "k \<le> 1024" "k < 16384" using l pad by linarith+
  have "mem_bits (take k (br_mem u)) = written u"
    unfolding written_def du k [symmetric]
    by (rule mem_bits_take)
  then have buf: "mem_bits (take k (br_mem u)) = bs @ replicate ?pad False" by (simp add: u(4))
  have "varlength_pack p False
      = (\<lambda>b. (SRSASN_SUCCESS, pack_each (take k (br_mem u)) (snd (pack_length (of_nat k) False b))))"
    by (simp only: varlength_pack_def [abs_def] t(1) Let_def prod.case leftover_pad d u(1) snd_conv du k_def)
  moreover have "(of_nat k :: u32) < 16384" using k1 by (simp add: word_less_nat_alt unat_of_nat)
  ultimately show ?thesis
    using writes_unchecked [OF writes_length writes_each, of "of_nat k" "take k (br_mem u)"]
    by (simp add: enc_varlength_def buf flip: k_def)
qed

lemma distance_ahead: "br_ok b \<Longrightarrow> distance b + length (ahead b) = 8 * length (br_mem b)"
  by (simp add: room_def br_ok_def)

lemma reads_varlength:
  assumes u: "reads u bs v" and l: "length bs \<le> 8000"
  shows "reads (varlength_unpack u False) (enc_varlength bs) v"
  unfolding reads_def
proof (intro allI impI, elim conjE)
  fix b rest
  let ?n = "length bs" and ?pad = "pad_bits (length bs)"
  define k where "k = (?n + ?pad) div 8"
  assume ok: "br_ok b" and a: "ahead b = enc_varlength bs @ rest"
  have pad: "?pad < 8" by (simp add: pad_bits_def)
  have k: "8 * k = ?n + ?pad" unfolding k_def by (rule pad_bits_dvd)
  then have "(of_nat k :: u32) < 16384" using l pad by (simp add: word_less_nat_alt unat_of_nat)
  then obtain b0 where b0: "handled (unpack_length False b) = Inr (of_nat k, b0)" "br_ok b0" "br_mem b0 = br_mem b"
      "ahead b0 = bs @ replicate ?pad False @ rest"
    by (rule readsD [OF reads_length ok]) (use a in \<open>simp add: enc_varlength_def flip: k_def\<close>)
  obtain b1 where b1: "u b0 = Inr (v, b1)" "br_ok b1" "br_mem b1 = br_mem b0" "ahead b1 = replicate ?pad False @ rest"
    by (rule readsD [OF u b0(2,4)])
  have "distance b0 + (?n + (?pad + length rest)) = distance b1 + (?pad + length rest)"
    using distance_ahead [OF b0(2)] distance_ahead [OF b1(2)] b1(3)
    by (simp only: b0(4) b1(4) length_append length_replicate)
  then have "distance b1 - distance b0 = ?n" by simp
  then have "of_nat k * 8 - of_nat (distance b1 - distance b0) = (of_nat ?pad :: u32)"
    using arg_cong [OF k, of "of_nat :: nat \<Rightarrow> u32"] by (simp add: mult.commute)
  moreover have "unat (of_nat ?pad :: u32) = ?pad" using pad by (simp add: unat_of_nat)
  moreover obtain b2 where "handled (unpack_bits ?pad b1 :: u32 read) = Inr (0, b2)" "br_ok b2" "br_mem b2 = br_mem b1"
      "ahead b2 = rest"
    by (rule readsD [OF reads_bits [of ?pad "0 :: u32"] b1(2)]) (use pad b1(4) in auto)
  ultimately show "\<exists>b'. varlength_unpack u False b = Inr (v, b') \<and> br_ok b' \<and> br_mem b' = br_mem b \<and> ahead b' = rest"
    using b0 b1 by (simp add: varlength_unpack_def handled_Inr Let_def)
qed

context per_codec begin

lemma varlength:
  assumes "\<And>x. ok x \<Longrightarrow> length (enc x) \<le> 8000"
  shows "per_codec (\<lambda>x. varlength_pack (pack x) False) (varlength_unpack unpack False) (\<lambda>x. enc_varlength (enc x)) ok"
  by unfold_locales (use assms writes reads in \<open>auto intro: writes_varlength reads_varlength\<close>)

end


section \<open>Optional members and alternatives\<close>

text \<open>An optional member.\<close>

definition popt :: "bool \<Rightarrow> (bit_ref \<Rightarrow> packed) \<Rightarrow> bit_ref \<Rightarrow> packed" where
  "popt present p b = (if present then p b else (SRSASN_SUCCESS, b))"

definition uopt :: "bool \<Rightarrow> (bit_ref \<Rightarrow> 'a unpacked) \<Rightarrow> 'a \<Rightarrow> bit_ref \<Rightarrow> 'a unpacked" where
  "uopt present u d b = (if present then u b else Inr (d, b))"

definition umap :: "('a \<Rightarrow> 'b) \<Rightarrow> 'a unpacked \<Rightarrow> 'b unpacked" where
  "umap f r = uthen r (\<lambda>x b. Inr (f x, b))"

definition eopt :: "bool \<Rightarrow> bool list \<Rightarrow> bool list" where
  "eopt present bs = (if present then bs else [])"

lemma writes_popt [codec]: "(c \<Longrightarrow> writes p bs) \<Longrightarrow> writes (popt c p) (eopt c bs)"
  by (cases c) (simp_all add: popt_def [abs_def] eopt_def writes_done)

lemma reads_uopt [codec]: "(c \<Longrightarrow> reads u bs v) \<Longrightarrow> (\<not> c \<Longrightarrow> v = d) \<Longrightarrow> reads (uopt c u d) (eopt c bs) v"
  by (cases c) (simp_all add: uopt_def [abs_def] eopt_def reads_done)

lemma reads_last: "reads u bs v \<Longrightarrow> f v = w \<Longrightarrow> reads (\<lambda>b. uthen (u b) (\<lambda>v b. Inr (f v, b))) bs w"
  using reads_map [of u bs v f] by simp

lemma reads_umap: "reads u bs v \<Longrightarrow> reads (\<lambda>b. umap f (u b)) bs (f v)"
  unfolding umap_def by (rule reads_map)

lemma reads_bit_unchecked:
  assumes "reads (f v) cs w"
  shows "reads (\<lambda>b. case unpack_bit b of (_, v, b) \<Rightarrow> f v b) (v # cs) w"
proof -
  have "reads (\<lambda>b. case unpack_bit b of (_, v, b) \<Rightarrow> f v b) ([v] @ cs) w"
    by (rule reads_unchecked [OF reads_bit]) (rule assms)
  then show ?thesis by simp
qed

end
