(* ===== verification/Rrc_Pcch.thy ===== *)
theory Rrc_Pcch
  imports Asn1_Codec
begin

text \<open>
  The paging channel messages of \<^verbatim>\<open>lib/include/srslte/asn1/rrc_asn1.h\<close> and
  \<^verbatim>\<open>lib/src/asn1/rrc_asn1.cc\<close>: \<open>pcch_msg_s\<close> down to the identities of the UEs and the chain of extensions,
  the generated packing and unpacking code, and its encoding as a bit list. Each type interprets \<open>per_codec\<close>. The
  absent alternatives of a choice object are not represented.
\<close>

unbundle bit_operations_syntax

section \<open>Messages\<close>

record paging_v1530_ies =
  access_type_present :: bool
  v1530_non_crit_ext_present :: bool

record paging_v1310_ies =
  redist_ind_r13_present :: bool
  sys_info_mod_e_drx_r13_present :: bool
  v1310_non_crit_ext_present :: bool
  v1310_non_crit_ext :: paging_v1530_ies

record paging_v1130_ies =
  eab_param_mod_r11_present :: bool
  v1130_non_crit_ext_present :: bool
  v1130_non_crit_ext :: paging_v1310_ies

record paging_v920_ies =
  cmas_ind_r9_present :: bool
  v920_non_crit_ext_present :: bool
  v920_non_crit_ext :: paging_v1130_ies

record paging_v890_ies =
  late_non_crit_ext_present :: bool
  v890_non_crit_ext_present :: bool
  late_non_crit_ext :: bytes
  v890_non_crit_ext :: paging_v920_ies

record s_tmsi =
  st_mmec :: bitstring
  st_m_tmsi :: bitstring

datatype paging_ue_id =
    Ue_s_tmsi s_tmsi
  | Ue_imsi bytes
  | Ue_ng_5g_s_tmsi bitstring
  | Ue_i_rnti bitstring
  | Ue_nulltype

datatype cn_domain = Cn_ps | Cn_cs | Cn_nulltype

record paging_record =
  pr_ext :: bool
  pr_ue_id :: paging_ue_id
  pr_cn_domain :: cn_domain

record paging =
  paging_record_list_present :: bool
  sys_info_mod_present :: bool
  etws_ind_present :: bool
  pg_non_crit_ext_present :: bool
  paging_record_list :: "paging_record list"
  pg_non_crit_ext :: paging_v890_ies

datatype pcch_msg_type = Pcch_c1 paging | Pcch_msg_class_ext | Pcch_nulltype

text \<open>The default values of the members.\<close>

definition v1530_new :: paging_v1530_ies where
  "v1530_new = \<lparr>access_type_present = False, v1530_non_crit_ext_present = False\<rparr>"

definition v1310_new :: paging_v1310_ies where
  "v1310_new = \<lparr>redist_ind_r13_present = False, sys_info_mod_e_drx_r13_present = False,
     v1310_non_crit_ext_present = False, v1310_non_crit_ext = v1530_new\<rparr>"

definition v1130_new :: paging_v1130_ies where
  "v1130_new = \<lparr>eab_param_mod_r11_present = False, v1130_non_crit_ext_present = False,
     v1130_non_crit_ext = v1310_new\<rparr>"

definition v920_new :: paging_v920_ies where
  "v920_new = \<lparr>cmas_ind_r9_present = False, v920_non_crit_ext_present = False, v920_non_crit_ext = v1130_new\<rparr>"

definition v890_new :: paging_v890_ies where
  "v890_new = \<lparr>late_non_crit_ext_present = False, v890_non_crit_ext_present = False, late_non_crit_ext = [],
     v890_non_crit_ext = v920_new\<rparr>"

definition paging_new :: paging where
  "paging_new = \<lparr>paging_record_list_present = False, sys_info_mod_present = False, etws_ind_present = False,
     pg_non_crit_ext_present = False, paging_record_list = [], pg_non_crit_ext = v890_new\<rparr>"

section \<open>Packing\<close>

definition v1530_pack :: "paging_v1530_ies \<Rightarrow> bit_ref \<Rightarrow> packed" where
  "v1530_pack m b = pthen (pack_bool (access_type_present m) b) (\<lambda>b.
     pthen (pack_bool (v1530_non_crit_ext_present m) b) (\<lambda>b. (SRSASN_SUCCESS, b)))"

definition v1530_unpack :: "bit_ref \<Rightarrow> paging_v1530_ies unpacked" where
  "v1530_unpack b = uthen (unpack_bool b) (\<lambda>x b. uthen (unpack_bool b) (\<lambda>y b.
     Inr (\<lparr>access_type_present = x, v1530_non_crit_ext_present = y\<rparr>, b)))"

definition v1310_pack :: "paging_v1310_ies \<Rightarrow> bit_ref \<Rightarrow> packed" where
  "v1310_pack m b = pthen (pack_bool (redist_ind_r13_present m) b) (\<lambda>b.
     pthen (pack_bool (sys_info_mod_e_drx_r13_present m) b) (\<lambda>b.
     pthen (pack_bool (v1310_non_crit_ext_present m) b)
       (popt (v1310_non_crit_ext_present m) (v1530_pack (v1310_non_crit_ext m)))))"

definition v1310_unpack :: "bit_ref \<Rightarrow> paging_v1310_ies unpacked" where
  "v1310_unpack b = uthen (unpack_bool b) (\<lambda>x b. uthen (unpack_bool b) (\<lambda>y b. uthen (unpack_bool b) (\<lambda>z b.
     uthen (uopt z v1530_unpack v1530_new b) (\<lambda>e b.
       Inr (\<lparr>redist_ind_r13_present = x, sys_info_mod_e_drx_r13_present = y, v1310_non_crit_ext_present = z,
         v1310_non_crit_ext = e\<rparr>, b)))))"

definition v1130_pack :: "paging_v1130_ies \<Rightarrow> bit_ref \<Rightarrow> packed" where
  "v1130_pack m b = pthen (pack_bool (eab_param_mod_r11_present m) b) (\<lambda>b.
     pthen (pack_bool (v1130_non_crit_ext_present m) b)
       (popt (v1130_non_crit_ext_present m) (v1310_pack (v1130_non_crit_ext m))))"

definition v1130_unpack :: "bit_ref \<Rightarrow> paging_v1130_ies unpacked" where
  "v1130_unpack b = uthen (unpack_bool b) (\<lambda>x b. uthen (unpack_bool b) (\<lambda>z b.
     uthen (uopt z v1310_unpack v1310_new b) (\<lambda>e b.
       Inr (\<lparr>eab_param_mod_r11_present = x, v1130_non_crit_ext_present = z, v1130_non_crit_ext = e\<rparr>, b))))"

definition v920_pack :: "paging_v920_ies \<Rightarrow> bit_ref \<Rightarrow> packed" where
  "v920_pack m b = pthen (pack_bool (cmas_ind_r9_present m) b) (\<lambda>b.
     pthen (pack_bool (v920_non_crit_ext_present m) b)
       (popt (v920_non_crit_ext_present m) (v1130_pack (v920_non_crit_ext m))))"

definition v920_unpack :: "bit_ref \<Rightarrow> paging_v920_ies unpacked" where
  "v920_unpack b = uthen (unpack_bool b) (\<lambda>x b. uthen (unpack_bool b) (\<lambda>z b.
     uthen (uopt z v1130_unpack v1130_new b) (\<lambda>e b.
       Inr (\<lparr>cmas_ind_r9_present = x, v920_non_crit_ext_present = z, v920_non_crit_ext = e\<rparr>, b))))"

definition v890_pack :: "paging_v890_ies \<Rightarrow> bit_ref \<Rightarrow> packed" where
  "v890_pack m b = pthen (pack_bool (late_non_crit_ext_present m) b) (\<lambda>b.
     pthen (pack_bool (v890_non_crit_ext_present m) b) (\<lambda>b.
     pthen (popt (late_non_crit_ext_present m) (dyn_octstring_pack (late_non_crit_ext m)) b)
       (popt (v890_non_crit_ext_present m) (v920_pack (v890_non_crit_ext m)))))"

definition v890_unpack :: "bit_ref \<Rightarrow> paging_v890_ies unpacked" where
  "v890_unpack b = uthen (unpack_bool b) (\<lambda>x b. uthen (unpack_bool b) (\<lambda>z b.
     uthen (uopt x dyn_octstring_unpack [] b) (\<lambda>l b.
     uthen (uopt z v920_unpack v920_new b) (\<lambda>e b.
       Inr (\<lparr>late_non_crit_ext_present = x, v890_non_crit_ext_present = z, late_non_crit_ext = l,
         v890_non_crit_ext = e\<rparr>, b)))))"

definition s_tmsi_pack :: "s_tmsi \<Rightarrow> bit_ref \<Rightarrow> packed" where
  "s_tmsi_pack m b =
    pthen (bitstring_pack 8 8 False False (st_mmec m) b) (bitstring_pack 32 32 False False (st_m_tmsi m))"

definition s_tmsi_unpack :: "bit_ref \<Rightarrow> s_tmsi unpacked" where
  "s_tmsi_unpack b = uthen (bitstring_unpack 8 8 False False b) (\<lambda>x b.
     uthen (bitstring_unpack 32 32 False False b) (\<lambda>y b. Inr (\<lparr>st_mmec = x, st_m_tmsi = y\<rparr>, b)))"

text \<open>\<open>integer_packer<uint8_t>(0, 9)\<close>: no extension, bounded on both sides.\<close>

definition digit_pack :: "u8 \<Rightarrow> bit_ref \<Rightarrow> packed" where
  "digit_pack n b =
    (if \<not> (0 \<le> n \<and> n \<le> 9) then (SRSASN_ERROR_ENCODE_FAIL, b) else pack_constrained_whole_number n 0 9 False b)"

definition digit_unpack :: "bit_ref \<Rightarrow> u8 unpacked" where
  "digit_unpack = unpack_constrained_whole_number 0 9 False"

fun ue_id_type :: "paging_ue_id \<Rightarrow> u32" where
  "ue_id_type (Ue_s_tmsi _) = 0"
| "ue_id_type (Ue_imsi _) = 1"
| "ue_id_type (Ue_ng_5g_s_tmsi _) = 2"
| "ue_id_type (Ue_i_rnti _) = 3"
| "ue_id_type Ue_nulltype = 4"

fun paging_ue_id_value_pack :: "paging_ue_id \<Rightarrow> bit_ref \<Rightarrow> packed" where
  "paging_ue_id_value_pack (Ue_s_tmsi x) b = s_tmsi_pack x b"
| "paging_ue_id_value_pack (Ue_imsi x) b = pack_dyn_seq_of digit_pack 6 21 False x b"
| "paging_ue_id_value_pack (Ue_ng_5g_s_tmsi x) b = varlength_pack (bitstring_pack 48 48 False False x) False b"
| "paging_ue_id_value_pack (Ue_i_rnti x) b = varlength_pack (bitstring_pack 40 40 False False x) False b"
| "paging_ue_id_value_pack Ue_nulltype b = (SRSASN_ERROR_ENCODE_FAIL, b)"

text \<open>The codes of \<open>type_.pack\<close>, \<open>e.unpack\<close> and of the extension bit of a record are not looked at.\<close>

definition paging_ue_id_pack :: "paging_ue_id \<Rightarrow> bit_ref \<Rightarrow> packed" where
  "paging_ue_id_pack m b = paging_ue_id_value_pack m (snd (pack_enum (ue_id_type m) 4 2 True b))"

definition paging_ue_id_value_unpack :: "u32 \<Rightarrow> bit_ref \<Rightarrow> paging_ue_id unpacked" where
  "paging_ue_id_value_unpack e b =
    (if e = 0 then umap Ue_s_tmsi (s_tmsi_unpack b)
     else if e = 1 then umap Ue_imsi (unpack_dyn_seq_of digit_unpack 6 21 False b)
     else if e = 2 then umap Ue_ng_5g_s_tmsi (varlength_unpack (bitstring_unpack 48 48 False False) False b)
     else if e = 3 then umap Ue_i_rnti (varlength_unpack (bitstring_unpack 40 40 False False) False b)
     else Inl SRSASN_ERROR_DECODE_FAIL)"

definition paging_ue_id_unpack :: "bit_ref \<Rightarrow> paging_ue_id unpacked" where
  "paging_ue_id_unpack b = (case unpack_enum 4 2 True b of (_, e, b) \<Rightarrow> paging_ue_id_value_unpack e b)"

fun cn_domain_number :: "cn_domain \<Rightarrow> u32" where
  "cn_domain_number Cn_ps = 0"
| "cn_domain_number Cn_cs = 1"
| "cn_domain_number Cn_nulltype = 2"

definition cn_domain_of :: "u32 \<Rightarrow> cn_domain" where
  "cn_domain_of e = (if e = 0 then Cn_ps else if e = 1 then Cn_cs else Cn_nulltype)"

definition paging_record_pack :: "paging_record \<Rightarrow> bit_ref \<Rightarrow> packed" where
  "paging_record_pack m b =
    pthen (paging_ue_id_pack (pr_ue_id m) (snd (pack_bool (pr_ext m) b)))
      (pack_enum (cn_domain_number (pr_cn_domain m)) 2 0 False)"

definition paging_record_unpack :: "bit_ref \<Rightarrow> paging_record unpacked" where
  "paging_record_unpack b =
    (case unpack_bit b of (_, ext, b) \<Rightarrow>
       uthen (paging_ue_id_unpack b) (\<lambda>u b. uthen (handled (unpack_enum 2 0 False b)) (\<lambda>e b.
         Inr (\<lparr>pr_ext = ext, pr_ue_id = u, pr_cn_domain = cn_domain_of e\<rparr>, b))))"

definition paging_pack :: "paging \<Rightarrow> bit_ref \<Rightarrow> packed" where
  "paging_pack m b = pthen (pack_bool (paging_record_list_present m) b) (\<lambda>b.
     pthen (pack_bool (sys_info_mod_present m) b) (\<lambda>b. pthen (pack_bool (etws_ind_present m) b) (\<lambda>b.
     pthen (pack_bool (pg_non_crit_ext_present m) b) (\<lambda>b.
     pthen (popt (paging_record_list_present m)
              (pack_dyn_seq_of paging_record_pack 1 16 False (paging_record_list m)) b)
       (popt (pg_non_crit_ext_present m) (v890_pack (pg_non_crit_ext m)))))))"

definition paging_unpack :: "bit_ref \<Rightarrow> paging unpacked" where
  "paging_unpack b = uthen (unpack_bool b) (\<lambda>x b. uthen (unpack_bool b) (\<lambda>y b. uthen (unpack_bool b) (\<lambda>z b.
     uthen (unpack_bool b) (\<lambda>w b.
     uthen (uopt x (unpack_dyn_seq_of paging_record_unpack 1 16 False) [] b) (\<lambda>l b.
     uthen (uopt w v890_unpack v890_new b) (\<lambda>e b.
       Inr (\<lparr>paging_record_list_present = x, sys_info_mod_present = y, etws_ind_present = z,
         pg_non_crit_ext_present = w, paging_record_list = l, pg_non_crit_ext = e\<rparr>, b)))))))"

text \<open>\<open>c1\<close> is a choice of one alternative and takes no bits of its own.\<close>

fun pcch_type :: "pcch_msg_type \<Rightarrow> u32" where
  "pcch_type (Pcch_c1 _) = 0"
| "pcch_type Pcch_msg_class_ext = 1"
| "pcch_type Pcch_nulltype = 2"

fun pcch_value_pack :: "pcch_msg_type \<Rightarrow> bit_ref \<Rightarrow> packed" where
  "pcch_value_pack (Pcch_c1 p) b = paging_pack p b"
| "pcch_value_pack Pcch_msg_class_ext b = (SRSASN_SUCCESS, b)"
| "pcch_value_pack Pcch_nulltype b = (SRSASN_ERROR_ENCODE_FAIL, b)"

definition pcch_msg_type_pack :: "pcch_msg_type \<Rightarrow> bit_ref \<Rightarrow> packed" where
  "pcch_msg_type_pack m b = pcch_value_pack m (snd (pack_enum (pcch_type m) 2 0 False b))"

definition pcch_value_unpack :: "u32 \<Rightarrow> bit_ref \<Rightarrow> pcch_msg_type unpacked" where
  "pcch_value_unpack e b =
    (if e = 0 then umap Pcch_c1 (paging_unpack b)
     else if e = 1 then Inr (Pcch_msg_class_ext, b)
     else Inl SRSASN_ERROR_DECODE_FAIL)"

definition pcch_msg_type_unpack :: "bit_ref \<Rightarrow> pcch_msg_type unpacked" where
  "pcch_msg_type_unpack b = (case unpack_enum 2 0 False b of (_, e, b) \<Rightarrow> pcch_value_unpack e b)"

definition pcch_msg_pack :: "pcch_msg_type \<Rightarrow> bit_ref \<Rightarrow> packed" where
  "pcch_msg_pack m b = pthen (pcch_msg_type_pack m b) (\<lambda>b. (SRSASN_SUCCESS, snd (align_bytes_zero b)))"

definition pcch_msg_unpack :: "bit_ref \<Rightarrow> pcch_msg_type unpacked" where
  "pcch_msg_unpack b = uthen (pcch_msg_type_unpack b) (\<lambda>m b. Inr (m, snd (align_bytes b)))"


section \<open>Encodings\<close>

definition enc_v1530 :: "paging_v1530_ies \<Rightarrow> bool list" where
  "enc_v1530 m = [access_type_present m, v1530_non_crit_ext_present m]"

definition enc_v1310 :: "paging_v1310_ies \<Rightarrow> bool list" where
  "enc_v1310 m = redist_ind_r13_present m # sys_info_mod_e_drx_r13_present m # v1310_non_crit_ext_present m #
     eopt (v1310_non_crit_ext_present m) (enc_v1530 (v1310_non_crit_ext m))"

definition enc_v1130 :: "paging_v1130_ies \<Rightarrow> bool list" where
  "enc_v1130 m = eab_param_mod_r11_present m # v1130_non_crit_ext_present m #
     eopt (v1130_non_crit_ext_present m) (enc_v1310 (v1130_non_crit_ext m))"

definition enc_v920 :: "paging_v920_ies \<Rightarrow> bool list" where
  "enc_v920 m = cmas_ind_r9_present m # v920_non_crit_ext_present m #
     eopt (v920_non_crit_ext_present m) (enc_v1130 (v920_non_crit_ext m))"

definition enc_v890 :: "paging_v890_ies \<Rightarrow> bool list" where
  "enc_v890 m = late_non_crit_ext_present m # v890_non_crit_ext_present m #
     eopt (late_non_crit_ext_present m) (enc_dyn_octstring (late_non_crit_ext m)) @
     eopt (v890_non_crit_ext_present m) (enc_v920 (v890_non_crit_ext m))"

text \<open>
  An absent member is not transmitted, so it has its default value in what the reader builds. The messages that a
  reader can build are the ones whose absent members have it.
\<close>

definition v1310_ok :: "paging_v1310_ies \<Rightarrow> bool" where
  "v1310_ok m \<longleftrightarrow> v1310_non_crit_ext_present m \<or> v1310_non_crit_ext m = v1530_new"

definition v1130_ok :: "paging_v1130_ies \<Rightarrow> bool" where
  "v1130_ok m \<longleftrightarrow> (if v1130_non_crit_ext_present m then v1310_ok (v1130_non_crit_ext m)
     else v1130_non_crit_ext m = v1310_new)"

definition v920_ok :: "paging_v920_ies \<Rightarrow> bool" where
  "v920_ok m \<longleftrightarrow> (if v920_non_crit_ext_present m then v1130_ok (v920_non_crit_ext m)
     else v920_non_crit_ext m = v1130_new)"

definition v890_ok :: "paging_v890_ies \<Rightarrow> bool" where
  "v890_ok m \<longleftrightarrow>
     (if late_non_crit_ext_present m then length (late_non_crit_ext m) < 16384 else late_non_crit_ext m = []) \<and>
     (if v890_non_crit_ext_present m then v920_ok (v890_non_crit_ext m) else v890_non_crit_ext m = v920_new)"

interpretation v1530: per_codec v1530_pack v1530_unpack enc_v1530 "\<lambda>m. True"
  by unfold_locales (auto simp: v1530_pack_def [abs_def] v1530_unpack_def [abs_def] enc_v1530_def
      intro!: writes_bool_then writes_done reads_bool_then reads_last [OF reads_bool])

interpretation v1310: per_codec v1310_pack v1310_unpack enc_v1310 v1310_ok
  by unfold_locales (auto simp: v1310_pack_def [abs_def] v1310_unpack_def [abs_def] enc_v1310_def v1310_ok_def
      intro!: writes_bool_then writes_popt v1530.writes reads_bool_then reads_last [OF reads_uopt] v1530.reads)

interpretation v1130: per_codec v1130_pack v1130_unpack enc_v1130 v1130_ok
  by unfold_locales (auto simp: v1130_pack_def [abs_def] v1130_unpack_def [abs_def] enc_v1130_def v1130_ok_def
      intro!: writes_bool_then writes_popt v1310.writes reads_bool_then reads_last [OF reads_uopt] v1310.reads)

interpretation v920: per_codec v920_pack v920_unpack enc_v920 v920_ok
  by unfold_locales (auto simp: v920_pack_def [abs_def] v920_unpack_def [abs_def] enc_v920_def v920_ok_def
      intro!: writes_bool_then writes_popt v1130.writes reads_bool_then reads_last [OF reads_uopt] v1130.reads)

interpretation v890: per_codec v890_pack v890_unpack enc_v890 v890_ok
proof
  fix m assume ok: "v890_ok m"
  then show "writes (v890_pack m) (enc_v890 m)"
    unfolding v890_pack_def enc_v890_def
    by (intro writes_bool_then writes_then writes_popt dyn_octstring.writes v920.writes) (simp_all add: v890_ok_def)
  show "reads v890_unpack (enc_v890 m) m"
    unfolding v890_unpack_def enc_v890_def
    by (intro reads_bool_then reads_then [OF reads_uopt [where v = "late_non_crit_ext m"]]
        reads_last [OF reads_uopt [where v = "v890_non_crit_ext m"]] dyn_octstring.reads v920.reads)
      (use ok in \<open>simp_all add: v890_ok_def split: if_splits\<close>)
qed


definition s_tmsi_ok :: "s_tmsi \<Rightarrow> bool" where
  "s_tmsi_ok m \<longleftrightarrow> bs_ok 8 (st_mmec m) \<and> bs_ok 32 (st_m_tmsi m)"

definition enc_s_tmsi :: "s_tmsi \<Rightarrow> bool list" where
  "enc_s_tmsi m = enc_bitstring (st_mmec m) @ enc_bitstring (st_m_tmsi m)"

interpretation s_tmsi: per_codec s_tmsi_pack s_tmsi_unpack enc_s_tmsi s_tmsi_ok
proof
  fix m assume ok: "s_tmsi_ok m"
  then show "writes (s_tmsi_pack m) (enc_s_tmsi m)"
    unfolding s_tmsi_pack_def enc_s_tmsi_def
    by (intro writes_then fixed_bitstring.writes) (simp_all add: s_tmsi_ok_def)
  show "reads s_tmsi_unpack (enc_s_tmsi m) m"
    unfolding s_tmsi_unpack_def enc_s_tmsi_def
    by (intro reads_then [OF fixed_bitstring.reads] reads_last [OF fixed_bitstring.reads])
      (use ok in \<open>simp_all add: s_tmsi_ok_def\<close>)
qed

interpretation digit: per_codec digit_pack digit_unpack "enc_whole 0 9" "\<lambda>n. n \<le> 9"
  by unfold_locales (auto simp: digit_pack_def [abs_def] digit_unpack_def intro!: writes_whole reads_whole)

interpretation imsi: per_codec "pack_dyn_seq_of digit_pack 6 21 False" "unpack_dyn_seq_of digit_unpack 6 21 False"
  "enc_seq_of (enc_whole 0 9) 6 21" "seq_of_ok (\<lambda>n. n \<le> 9) 6 21"
  by (rule digit.seq_of)

lemma length_enc_fixed: "bs_ok n s \<Longrightarrow> n \<le> 8000 \<Longrightarrow> length (enc_bitstring s) \<le> 8000"
  by (simp add: length_enc_bitstring)

interpretation bits48: per_codec "\<lambda>x. varlength_pack (bitstring_pack 48 48 False False x) False"
  "varlength_unpack (bitstring_unpack 48 48 False False) False" "\<lambda>x. enc_varlength (enc_bitstring x)" "bs_ok 48"
  by (rule fixed_bitstring.varlength) (simp add: length_enc_fixed)

interpretation bits40: per_codec "\<lambda>x. varlength_pack (bitstring_pack 40 40 False False x) False"
  "varlength_unpack (bitstring_unpack 40 40 False False) False" "\<lambda>x. enc_varlength (enc_bitstring x)" "bs_ok 40"
  by (rule fixed_bitstring.varlength) (simp add: length_enc_fixed)

fun ue_id_ok :: "paging_ue_id \<Rightarrow> bool" where
  "ue_id_ok (Ue_s_tmsi x) = s_tmsi_ok x"
| "ue_id_ok (Ue_imsi x) = seq_of_ok (\<lambda>n. n \<le> 9) 6 21 x"
| "ue_id_ok (Ue_ng_5g_s_tmsi x) = bs_ok 48 x"
| "ue_id_ok (Ue_i_rnti x) = bs_ok 40 x"
| "ue_id_ok Ue_nulltype = False"

fun enc_ue_id_value :: "paging_ue_id \<Rightarrow> bool list" where
  "enc_ue_id_value (Ue_s_tmsi x) = enc_s_tmsi x"
| "enc_ue_id_value (Ue_imsi x) = enc_seq_of (enc_whole 0 9) 6 21 x"
| "enc_ue_id_value (Ue_ng_5g_s_tmsi x) = enc_varlength (enc_bitstring x)"
| "enc_ue_id_value (Ue_i_rnti x) = enc_varlength (enc_bitstring x)"
| "enc_ue_id_value Ue_nulltype = []"

definition enc_ue_id :: "paging_ue_id \<Rightarrow> bool list" where
  "enc_ue_id m = enc_enum 4 2 True (ue_id_type m) @ enc_ue_id_value m"

lemma ue_id_type_ok: "ue_id_ok m \<Longrightarrow> enum_ok 4 2 True (ue_id_type m)"
  by (cases m) (simp_all add: enum_ok_def)

interpretation ue_id: per_codec paging_ue_id_pack paging_ue_id_unpack enc_ue_id ue_id_ok
proof
  fix m assume ok: "ue_id_ok m"
  have "writes (paging_ue_id_value_pack m) (enc_ue_id_value m)"
    using ok by (cases m) (simp_all add: s_tmsi.writes imsi.writes bits48.writes bits40.writes
        ext [of "paging_ue_id_value_pack _"])
  then show "writes (paging_ue_id_pack m) (enc_ue_id m)"
    unfolding paging_ue_id_pack_def enc_ue_id_def
    by (rule writes_unchecked [OF writes_enum [OF ue_id_type_ok [OF ok]]])
  have "reads (paging_ue_id_value_unpack (ue_id_type m)) (enc_ue_id_value m) m"
    using ok by (cases m) (auto simp: paging_ue_id_value_unpack_def [abs_def]
        intro!: reads_umap s_tmsi.reads imsi.reads bits48.reads bits40.reads)
  then show "reads paging_ue_id_unpack (enc_ue_id m) m"
    unfolding paging_ue_id_unpack_def enc_ue_id_def
    by (rule reads_unchecked [OF reads_enum [OF ue_id_type_ok [OF ok]]])
qed

definition enc_paging_record :: "paging_record \<Rightarrow> bool list" where
  "enc_paging_record m = pr_ext m # enc_ue_id (pr_ue_id m) @ enc_enum 2 0 False (cn_domain_number (pr_cn_domain m))"

definition paging_record_ok :: "paging_record \<Rightarrow> bool" where
  "paging_record_ok m \<longleftrightarrow> ue_id_ok (pr_ue_id m) \<and> pr_cn_domain m \<noteq> Cn_nulltype"

interpretation paging_record: per_codec paging_record_pack paging_record_unpack enc_paging_record paging_record_ok
proof
  fix m assume ok: "paging_record_ok m"
  then have e: "enum_ok 2 0 False (cn_domain_number (pr_cn_domain m))"
    by (cases "pr_cn_domain m") (simp_all add: paging_record_ok_def enum_ok_def)
  have d: "cn_domain_of (cn_domain_number (pr_cn_domain m)) = pr_cn_domain m"
    by (cases "pr_cn_domain m") (simp_all add: cn_domain_of_def)
  have u: "ue_id_ok (pr_ue_id m)" using ok by (simp add: paging_record_ok_def)
  have "writes (\<lambda>b. pthen (paging_ue_id_pack (pr_ue_id m) b) (pack_enum (cn_domain_number (pr_cn_domain m)) 2 0 False))
      (enc_ue_id (pr_ue_id m) @ enc_enum 2 0 False (cn_domain_number (pr_cn_domain m)))"
    by (rule writes_then [OF ue_id.writes [OF u] writes_enum [OF e]])
  from writes_unchecked [OF writes_bool this]
  show "writes (paging_record_pack m) (enc_paging_record m)"
    unfolding paging_record_pack_def enc_paging_record_def by simp
  have "reads (\<lambda>b. uthen (paging_ue_id_unpack b) (\<lambda>u b. uthen (handled (unpack_enum 2 0 False b)) (\<lambda>e b.
         Inr (\<lparr>pr_ext = pr_ext m, pr_ue_id = u, pr_cn_domain = cn_domain_of e\<rparr>, b))))
      (enc_ue_id (pr_ue_id m) @ enc_enum 2 0 False (cn_domain_number (pr_cn_domain m))) m"
    by (rule reads_then [OF ue_id.reads [OF u] reads_last [OF reads_enum [OF e]]]) (simp add: d)
  then show "reads paging_record_unpack (enc_paging_record m) m"
    unfolding paging_record_unpack_def enc_paging_record_def by (rule reads_bit_unchecked)
qed

interpretation paging_records: per_codec "pack_dyn_seq_of paging_record_pack 1 16 False"
  "unpack_dyn_seq_of paging_record_unpack 1 16 False" "enc_seq_of enc_paging_record 1 16"
  "seq_of_ok paging_record_ok 1 16"
  by (rule paging_record.seq_of)

definition enc_paging :: "paging \<Rightarrow> bool list" where
  "enc_paging m = paging_record_list_present m # sys_info_mod_present m # etws_ind_present m #
     pg_non_crit_ext_present m #
     eopt (paging_record_list_present m) (enc_seq_of enc_paging_record 1 16 (paging_record_list m)) @
     eopt (pg_non_crit_ext_present m) (enc_v890 (pg_non_crit_ext m))"

definition paging_ok :: "paging \<Rightarrow> bool" where
  "paging_ok m \<longleftrightarrow>
     (if paging_record_list_present m then seq_of_ok paging_record_ok 1 16 (paging_record_list m)
      else paging_record_list m = []) \<and>
     (if pg_non_crit_ext_present m then v890_ok (pg_non_crit_ext m) else pg_non_crit_ext m = v890_new)"

interpretation paging: per_codec paging_pack paging_unpack enc_paging paging_ok
proof
  fix m assume ok: "paging_ok m"
  then show "writes (paging_pack m) (enc_paging m)"
    unfolding paging_pack_def enc_paging_def
    by (intro writes_bool_then writes_then writes_popt paging_records.writes v890.writes) (simp_all add: paging_ok_def)
  show "reads paging_unpack (enc_paging m) m"
    unfolding paging_unpack_def enc_paging_def
    by (intro reads_bool_then reads_then [OF reads_uopt [where v = "paging_record_list m"]]
        reads_last [OF reads_uopt [where v = "pg_non_crit_ext m"]] paging_records.reads v890.reads)
      (use ok in \<open>simp_all add: paging_ok_def split: if_splits\<close>)
qed

fun pcch_ok :: "pcch_msg_type \<Rightarrow> bool" where
  "pcch_ok (Pcch_c1 p) = paging_ok p"
| "pcch_ok Pcch_msg_class_ext = True"
| "pcch_ok Pcch_nulltype = False"

fun enc_pcch_value :: "pcch_msg_type \<Rightarrow> bool list" where
  "enc_pcch_value (Pcch_c1 p) = enc_paging p"
| "enc_pcch_value _ = []"

definition enc_pcch :: "pcch_msg_type \<Rightarrow> bool list" where
  "enc_pcch m = enc_enum 2 0 False (pcch_type m) @ enc_pcch_value m"

interpretation pcch: per_codec pcch_msg_type_pack pcch_msg_type_unpack enc_pcch pcch_ok
proof
  fix m assume ok: "pcch_ok m"
  then have e: "enum_ok 2 0 False (pcch_type m)" by (cases m) (simp_all add: enum_ok_def)
  have "writes (pcch_value_pack m) (enc_pcch_value m)"
    using ok by (cases m) (simp_all add: paging.writes writes_done ext [of "pcch_value_pack _"])
  then show "writes (pcch_msg_type_pack m) (enc_pcch m)"
    unfolding pcch_msg_type_pack_def enc_pcch_def by (rule writes_unchecked [OF writes_enum [OF e]])
  have "reads (pcch_value_unpack (pcch_type m)) (enc_pcch_value m) m"
    using ok by (cases m) (auto simp: pcch_value_unpack_def [abs_def] intro!: reads_umap paging.reads reads_done)
  then show "reads pcch_msg_type_unpack (enc_pcch m) m"
    unfolding pcch_msg_type_unpack_def enc_pcch_def by (rule reads_unchecked [OF reads_enum [OF e]])
qed


section \<open>Whole messages\<close>

text \<open>
  A reader that gets the octets that the writer has filled, as the payload of the transport channel, followed by
  anything.
\<close>

lemma pcch_transport:
  assumes ok: "pcch_ok m" and fits: "length (enc_pcch m) \<le> 8 * length mem"
  obtains b where "pcch_msg_pack m (bit_ref_new mem) = (SRSASN_SUCCESS, b)"
    and "length (br_mem b) = length mem"
    and "8 * distance_bytes b = length (enc_pcch m) + pad_bits (length (enc_pcch m))"
    and "\<forall>tail. \<exists>b'. pcch_msg_unpack (bit_ref_new (take (distance_bytes b) (br_mem b) @ tail)) = Inr (m, b')"
proof -
  let ?bs = "enc_pcch m"
  obtain b1 where b1: "pcch_msg_type_pack m (bit_ref_new mem) = (SRSASN_SUCCESS, b1)" "br_ok b1"
      "length (br_mem b1) = length mem" "written b1 = ?bs"
    by (rule writesD [OF pcch.writes [OF ok], of "bit_ref_new mem"]) (use fits in auto)
  have d1: "distance b1 = length ?bs" using arg_cong [OF b1(4), of length] b1(2) by simp
  obtain b where b: "align_bytes_zero b1 = (SRSASN_SUCCESS, b)" "br_ok b" "length (br_mem b) = length (br_mem b1)"
      "written b = written b1 @ replicate ((8 - distance b1 mod 8) mod 8) False" "br_offset b = 0"
    by (rule align_bytes_zero_ok [OF b1(2)])
  let ?pad = "replicate (pad_bits (length ?bs)) False"
  have w: "written b = ?bs @ ?pad" using b(4) by (simp only: b1(4) d1 pad_bits_def)
  have d: "distance b = 8 * distance_bytes b" using b(5) by (simp add: distance_def distance_bytes_def)
  have "distance b = length ?bs + pad_bits (length ?bs)" using arg_cong [OF w, of length] b(2) by simp
  then have len: "8 * distance_bytes b = length ?bs + pad_bits (length ?bs)" using d by simp
  have read: "\<exists>b'. pcch_msg_unpack (bit_ref_new (take (distance_bytes b) (br_mem b) @ tail)) = Inr (m, b')" for tail
  proof -
    have "ahead (bit_ref_new (take (distance_bytes b) (br_mem b) @ tail)) = ?bs @ ?pad @ mem_bits tail"
      using w unfolding written_def d by (simp add: mem_bits_append mem_bits_take)
    then obtain b2 where "pcch_msg_type_unpack (bit_ref_new (take (distance_bytes b) (br_mem b) @ tail)) = Inr (m, b2)"
      by (rule readsD [OF pcch.reads [OF ok] br_ok_new(1)])
    then show ?thesis by (simp add: pcch_msg_unpack_def)
  qed
  have "pcch_msg_pack m (bit_ref_new mem) = (SRSASN_SUCCESS, b)" using b1(1) b(1) by (simp add: pcch_msg_pack_def)
  then show thesis using that b(3) b1(3) len read by simp
qed

text \<open>
  Claim C12. Every paging channel message that has values the types can carry, and whose encoding fits, is packed
  into whole octets, zero bits at the end, and unpacking these octets, followed by whatever octets fill the
  transport block, gives the message back, with all paging records and the ETWS indication.
\<close>

theorem pcch_roundtrip:
  assumes "pcch_ok m" and "length (enc_pcch m) \<le> 8 * length mem"
  shows "\<exists>b. pcch_msg_pack m (bit_ref_new mem) = (SRSASN_SUCCESS, b) \<and>
    distance_bytes b = (length (enc_pcch m) + 7) div 8 \<and>
    (\<forall>tail. \<exists>b'. pcch_msg_unpack (bit_ref_new (take (distance_bytes b) (br_mem b) @ tail)) = Inr (m, b'))"
proof -
  obtain b where b: "pcch_msg_pack m (bit_ref_new mem) = (SRSASN_SUCCESS, b)"
      "8 * distance_bytes b = length (enc_pcch m) + pad_bits (length (enc_pcch m))"
      "\<forall>tail. \<exists>b'. pcch_msg_unpack (bit_ref_new (take (distance_bytes b) (br_mem b) @ tail)) = Inr (m, b')"
    by (rule pcch_transport [OF assms])
  have "pad_bits (length (enc_pcch m)) < 8" by (simp add: pad_bits_def)
  then have "distance_bytes b = (length (enc_pcch m) + 7) div 8" using b(2) by linarith
  then show ?thesis using b by blast
qed

text \<open>An ETWS indication with one paged S-TMSI and one paged IMSI.\<close>

definition sample_s_tmsi :: s_tmsi where
  "sample_s_tmsi = \<lparr>st_mmec = from_number 8 8 (bs_resize 8) 0x1A,
     st_m_tmsi = from_number 32 32 (bs_resize 32) 0xC0FFEE01\<rparr>"

definition sample_paging :: paging where
  "sample_paging = paging_new\<lparr>paging_record_list_present := True, etws_ind_present := True,
     paging_record_list := [
       \<lparr>pr_ext = False, pr_ue_id = Ue_s_tmsi sample_s_tmsi, pr_cn_domain = Cn_ps\<rparr>,
       \<lparr>pr_ext = False, pr_ue_id = Ue_imsi [0, 0, 1, 0, 1, 9, 8, 7], pr_cn_domain = Cn_cs\<rparr>]\<rparr>"

lemma sample_s_tmsi_ok: "s_tmsi_ok sample_s_tmsi"
  by (simp add: s_tmsi_ok_def sample_s_tmsi_def from_number_ok)

lemma sample_paging_ok: "pcch_ok (Pcch_c1 sample_paging)" "length (enc_pcch (Pcch_c1 sample_paging)) \<le> 8 * 100"
proof -
  show "pcch_ok (Pcch_c1 sample_paging)"
    by (simp add: sample_paging_def paging_new_def paging_ok_def seq_of_ok_def paging_record_ok_def sample_s_tmsi_ok)
  have "length (enc_s_tmsi sample_s_tmsi) = 40"
    using sample_s_tmsi_ok by (auto simp: enc_s_tmsi_def s_tmsi_ok_def dest!: length_enc_bitstring)
  moreover have "ceil_log2 2 = 1" "ceil_log2 10 = 4" "ceil_log2 16 = 4" by code_simp+
  ultimately show "length (enc_pcch (Pcch_c1 sample_paging)) \<le> 8 * 100"
    by (simp add: enc_pcch_def enc_enum_def sample_paging_def paging_new_def enc_paging_def eopt_def enc_seq_of_def
        enc_whole_def whole_bits_def enc_paging_record_def enc_ue_id_def)
qed

theorem pcch_roundtrip_witness:
  "\<exists>b. pcch_msg_pack (Pcch_c1 sample_paging) (bit_ref_new (replicate 100 0)) = (SRSASN_SUCCESS, b) \<and>
    distance_bytes b = (length (enc_pcch (Pcch_c1 sample_paging)) + 7) div 8 \<and>
    (\<forall>tail. \<exists>b'. pcch_msg_unpack (bit_ref_new (take (distance_bytes b) (br_mem b) @ tail)) = Inr (Pcch_c1 sample_paging, b'))"
  by (rule pcch_roundtrip) (use sample_paging_ok in simp_all)

end
