(* ===== verification/Rrc_Paging.thy ===== *)
theory Rrc_Paging
  imports Rrc_Pcch Std_Map Byte_Buffer "HOL-Library.Multiset"
begin

text \<open>
  Paging in the eNB: \<open>handle_paging\<close> of \<^verbatim>\<open>srsenb/src/stack/upper/s1ap.cc\<close>, the functions
  \<open>add_paging_id\<close>, \<open>is_paging_opportunity\<close> and \<open>read_pdu_pcch\<close> of
  \<^verbatim>\<open>srsenb/src/stack/rrc/rrc.cc\<close>, where the ETWS indication is raised, and the scheduler's
  \<open>alloc_paging\<close> of \<^verbatim>\<open>srsenb/src/stack/mac/scheduler_carrier.cc\<close>. The lemmas give the paging
  occasions of TS 36.304, the message that is built at an occasion and what is lost when it cannot be packed.
\<close>

unbundle bit_operations_syntax

section \<open>Configuration\<close>

datatype paging_cycle = Rf32 | Rf64 | Rf128 | Rf256 | Cycle_nulltype

datatype paging_nb =
    Four_t
  | Two_t
  | One_t
  | Half_t
  | Quarter_t
  | One_eighth_t
  | One_sixteenth_t
  | One_thirty_second_t
  | Nb_nulltype

record pcch_cfg =
  default_paging_cycle :: paging_cycle
  pcch_nb :: paging_nb

fun cycle_to_number :: "paging_cycle \<Rightarrow> nat" where
  "cycle_to_number Rf32 = 32"
| "cycle_to_number Rf64 = 64"
| "cycle_to_number Rf128 = 128"
| "cycle_to_number Rf256 = 256"
| "cycle_to_number Cycle_nulltype = 0"

text \<open>
  \<open>T * nb.to_number()\<close>: the factors are powers of two between 1/32 and 4, so the \<open>float\<close> product is exact and its
  conversion to an integer is the quotient.
\<close>

fun times_nb :: "nat \<Rightarrow> paging_nb \<Rightarrow> nat" where
  "times_nb T Four_t = T * 4"
| "times_nb T Two_t = T * 2"
| "times_nb T One_t = T"
| "times_nb T Half_t = T div 2"
| "times_nb T Quarter_t = T div 4"
| "times_nb T One_eighth_t = T div 8"
| "times_nb T One_sixteenth_t = T div 16"
| "times_nb T One_thirty_second_t = T div 32"
| "times_nb T Nb_nulltype = 0"

definition pcch_Nb :: "pcch_cfg \<Rightarrow> nat" where
  "pcch_Nb cfg = times_nb (cycle_to_number (default_paging_cycle cfg)) (pcch_nb cfg)"

definition pcch_T :: "pcch_cfg \<Rightarrow> nat" where
  "pcch_T cfg = cycle_to_number (default_paging_cycle cfg)"

definition pcch_N :: "pcch_cfg \<Rightarrow> nat" where
  "pcch_N cfg = (if pcch_T cfg < pcch_Nb cfg then pcch_T cfg else pcch_Nb cfg)"

definition pcch_Ns :: "pcch_cfg \<Rightarrow> nat" where
  "pcch_Ns cfg = (if 1 < pcch_Nb cfg div pcch_T cfg then pcch_Nb cfg div pcch_T cfg else 1)"

definition sf_pattern :: "int list list" where
  "sf_pattern = [[9, 4, -1, 0], [-1, 9, -1, 4], [-1, -1, -1, 5], [-1, -1, -1, 9]]"

definition INVALID_TTI :: u32 where
  "INVALID_TTI = 10241"

definition ASN1_RRC_MAX_PAGE_REC :: nat where
  "ASN1_RRC_MAX_PAGE_REC = 16"

section \<open>State and operations\<close>

record enb_paging =
  pending_paging :: "(u32, paging_record) std_map"
  paging_tti :: u32
  byte_buf_paging :: byte_buffer

definition enb_paging_new :: enb_paging where
  "enb_paging_new = \<lparr>pending_paging = [], paging_tti = INVALID_TTI, byte_buf_paging = byte_buffer_new\<rparr>"

text \<open>The identity of the S1AP message: octet strings of any length for the IMSI, of 1 and 4 octets for the S-TMSI.\<close>

datatype ue_paging_id = Paging_s_tmsi bytes bytes | Paging_imsi bytes | Paging_nulltype

text \<open>\<open>m_tmsi |= octets[i] << (8 * (n - i - 1))\<close>, an \<open>int\<close> shift of at most 24 bits.\<close>

definition m_tmsi_of :: "bytes \<Rightarrow> u32" where
  "m_tmsi_of octets =
    foldl (\<lambda>v i. v OR push_bit (8 * (length octets - i - 1)) (ucast (octets ! i))) 0 [0..<length octets]"

definition paging_s_tmsi :: "bytes \<Rightarrow> bytes \<Rightarrow> s_tmsi" where
  "paging_s_tmsi mmec m_tmsi =
    \<lparr>st_mmec = from_number 8 8 (bs_resize 8) (ucast (mmec ! 0)),
     st_m_tmsi = from_number 32 32 (bs_resize 32) (ucast (m_tmsi_of m_tmsi))\<rparr>"

text \<open>
  \<open>None\<close> stands for undefined behaviour: an IMSI of more than 21 octets is copied past the end of the record, and
  an identity without a type is read.
\<close>

definition add_paging_id :: "u32 \<Rightarrow> ue_paging_id \<Rightarrow> enb_paging \<Rightarrow> enb_paging option" where
  "add_paging_id ueid ue_paging_id s =
    (if map_find ueid (pending_paging s) \<noteq> None then Some s
     else
       map_option (\<lambda>ue_id.
           let paging_elem = \<lparr>pr_ext = False, pr_ue_id = ue_id, pr_cn_domain = Cn_ps\<rparr>
           in s\<lparr>pending_paging := snd (map_insert ueid paging_elem (pending_paging s))\<rparr>)
         (case ue_paging_id of
            Paging_imsi imsi \<Rightarrow> if length imsi \<le> 21 then Some (Ue_imsi imsi) else None
          | Paging_s_tmsi mmec m_tmsi \<Rightarrow> Some (Ue_s_tmsi (paging_s_tmsi mmec m_tmsi))
          | Paging_nulltype \<Rightarrow> None))"

text \<open>The UE identity index value is a bit string of ten bits.\<close>

definition handle_paging :: "bitstring \<Rightarrow> ue_paging_id \<Rightarrow> enb_paging \<Rightarrow> enb_paging option" where
  "handle_paging ue_id_idx_value ue_paging_id s =
    add_paging_id (ucast (to_number ue_id_idx_value)) ue_paging_id s"

text \<open>
  The loop over the pending records, which skips a record in every branch that does not append it. The numbers
  stay below 1024, so they are written as naturals.
\<close>

fun collect_records ::
  "pcch_cfg \<Rightarrow> u32 \<Rightarrow> nat \<Rightarrow> (u32, paging_record) std_map \<Rightarrow> paging_record list \<times> u32 list" where
  "collect_records cfg tti n [] = ([], [])"
| "collect_records cfg tti n ((key, u) # items) =
    (if ASN1_RRC_MAX_PAGE_REC \<le> n then ([], [])
     else
       let T = pcch_T cfg; N = pcch_N cfg; Ns = pcch_Ns cfg; sfn = unat tti div 10;
           ueid = unat key mod 1024; i_s = (ueid div N) mod Ns
       in if sfn mod T \<noteq> (T div N) * (ueid mod N) then collect_records cfg tti n items
          else
            let sf_idx = sf_pattern ! (i_s mod 4) ! ((Ns - 1) mod 4)
            in if sf_idx < 0 then collect_records cfg tti n items
               else if sf_idx = int (unat tti mod 10) then
                 let (records, ue_to_remove) = collect_records cfg tti (n + 1) items
                 in (u # records, of_nat ueid # ue_to_remove)
               else collect_records cfg tti n items)"

definition etws_paging :: "paging_record list \<Rightarrow> paging" where
  "etws_paging records =
    (if records = [] then paging_new
     else paging_new\<lparr>etws_ind_present := True, paging_record_list_present := True, paging_record_list := records\<rparr>)"

text \<open>Packing writes into the octets behind \<open>msg\<close>, also when it fails.\<close>

definition send_paging :: "u32 \<Rightarrow> u32 \<Rightarrow> paging \<Rightarrow> enb_paging \<Rightarrow> bool \<times> u32 \<times> enb_paging" where
  "send_paging tti payload_len paging_rec s =
    (let buf = bb_clear (byte_buf_paging s); n = unat (get_tailroom buf);
         (code, bref) = pcch_msg_pack (Pcch_c1 paging_rec) (bit_ref_new (take n (bb_mem buf 0)));
         buf = bb_set_mem buf 0 (br_mem bref @ drop n (bb_mem buf 0))
     in if code = SRSASN_ERROR_ENCODE_FAIL then (False, payload_len, s\<lparr>byte_buf_paging := buf\<rparr>)
        else
          let buf = buf\<lparr>bb_N_bytes := of_nat (distance_bytes bref)\<rparr>
          in (True, bb_N_bytes buf, s\<lparr>byte_buf_paging := buf, paging_tti := tti\<rparr>))"

text \<open>The value, the length the caller gets and the state. \<open>None\<close> is a division by zero.\<close>

definition is_paging_opportunity ::
  "pcch_cfg \<Rightarrow> u32 \<Rightarrow> u32 \<Rightarrow> enb_paging \<Rightarrow> (bool \<times> u32 \<times> enb_paging) option" where
  "is_paging_opportunity cfg tti payload_len s =
    (if tti = paging_tti s then Some (True, bb_N_bytes (byte_buf_paging s), s)
     else
       let s = s\<lparr>paging_tti := INVALID_TTI\<rparr>
       in if pending_paging s = [] then Some (False, payload_len, s)
          else if pcch_T cfg = 0 \<or> pcch_N cfg = 0 then None
          else
            let (records, ue_to_remove) = collect_records cfg tti 0 (pending_paging s);
                s = s\<lparr>pending_paging := fold map_erase ue_to_remove (pending_paging s)\<rparr>
            in if 0 < length (paging_record_list (etws_paging records))
               then Some (send_paging tti payload_len (etws_paging records) s)
               else Some (False, payload_len, s))"

definition read_pdu_pcch :: "bytes \<Rightarrow> u32 \<Rightarrow> enb_paging \<Rightarrow> bytes option" where
  "read_pdu_pcch payload buffer_size s =
    (let buf = byte_buf_paging s
     in if bb_N_bytes buf \<le> buffer_size then memcpy_mem payload (bb_mem buf 0) (unat (bb_N_bytes buf))
        else Some payload)"

text \<open>The scheduler asks for an allocation of the payload's length.\<close>

definition alloc_paging :: "pcch_cfg \<Rightarrow> u32 \<Rightarrow> enb_paging \<Rightarrow> (u32 option \<times> enb_paging) option" where
  "alloc_paging cfg tti s =
    map_option (\<lambda>(opportunity, paging_payload, s). (if opportunity \<and> 0 < paging_payload then Some paging_payload else None, s))
      (is_paging_opportunity cfg tti 0 s)"

section \<open>Paging occasions\<close>

definition pcch_cfg_ok :: "pcch_cfg \<Rightarrow> bool" where
  "pcch_cfg_ok cfg \<longleftrightarrow> default_paging_cycle cfg \<noteq> Cycle_nulltype \<and> pcch_nb cfg \<noteq> Nb_nulltype"

lemma pcch_cases:
  assumes "pcch_cfg_ok cfg"
  shows "pcch_T cfg \<in> {32, 64, 128, 256}"
    and "pcch_N cfg \<in> {1, 2, 4, 8, 16, 32, 64, 128, 256}"
    and "pcch_N cfg dvd pcch_T cfg"
    and "pcch_Ns cfg \<in> {1, 2, 4}"
  using assms by (cases "default_paging_cycle cfg"; cases "pcch_nb cfg";
      simp add: pcch_cfg_ok_def pcch_T_def pcch_N_def pcch_Ns_def pcch_Nb_def)+

definition paging_i_s :: "pcch_cfg \<Rightarrow> nat \<Rightarrow> nat" where
  "paging_i_s cfg ueid = (ueid div pcch_N cfg) mod pcch_Ns cfg"

definition paging_sf :: "pcch_cfg \<Rightarrow> nat \<Rightarrow> int" where
  "paging_sf cfg ueid = sf_pattern ! (paging_i_s cfg ueid mod 4) ! ((pcch_Ns cfg - 1) mod 4)"

definition paging_frame :: "pcch_cfg \<Rightarrow> nat \<Rightarrow> nat" where
  "paging_frame cfg ueid = (pcch_T cfg div pcch_N cfg) * (ueid mod pcch_N cfg)"

definition paging_occasion :: "pcch_cfg \<Rightarrow> nat \<Rightarrow> nat \<Rightarrow> bool" where
  "paging_occasion cfg ueid tti \<longleftrightarrow>
    (tti div 10) mod pcch_T cfg = paging_frame cfg ueid \<and> int (tti mod 10) = paging_sf cfg ueid"

text \<open>The records that are due, in the order of their keys, at most as many as a message takes.\<close>

definition due_records :: "pcch_cfg \<Rightarrow> u32 \<Rightarrow> (u32, paging_record) std_map \<Rightarrow> (u32, paging_record) std_map" where
  "due_records cfg tti items =
    take ASN1_RRC_MAX_PAGE_REC (filter (\<lambda>(key, u). paging_occasion cfg (unat key mod 1024) (unat tti)) items)"

lemma collect_records_step:
  "collect_records cfg tti n ((key, u) # items) =
    (if ASN1_RRC_MAX_PAGE_REC \<le> n then ([], [])
     else if paging_occasion cfg (unat key mod 1024) (unat tti) then
       (let (records, ue_to_remove) = collect_records cfg tti (n + 1) items
        in (u # records, of_nat (unat key mod 1024) # ue_to_remove))
     else collect_records cfg tti n items)"
proof -
  have skip: "(if P then c else if f \<noteq> g then b else if sf < 0 then b else if sf = int k then a else b)
      = (if P then c else if f = g \<and> int k = sf then a else b)" for P and f g k :: nat and sf and a b c :: 'b
    by auto
  show ?thesis
    unfolding collect_records.simps Let_def paging_occasion_def paging_frame_def paging_sf_def paging_i_s_def
    by (rule skip)
qed

lemma collect_records_due:
  "collect_records cfg tti n items =
    (let ds = take (ASN1_RRC_MAX_PAGE_REC - n)
         (filter (\<lambda>(key, u). paging_occasion cfg (unat key mod 1024) (unat tti)) items)
     in (map snd ds, map (\<lambda>(key, u). of_nat (unat key mod 1024)) ds))"
proof (induction items arbitrary: n)
  case (Cons x items)
  obtain key u where x: "x = (key, u)" by fastforce
  show ?case
  proof (cases "ASN1_RRC_MAX_PAGE_REC \<le> n")
    case False
    then obtain m where m: "ASN1_RRC_MAX_PAGE_REC - n = Suc m" "ASN1_RRC_MAX_PAGE_REC - (n + 1) = m"
      by (metis Suc_diff_Suc Suc_eq_plus1 not_le)
    show ?thesis
      unfolding x collect_records_step
      using False Cons.IH [of n, unfolded Let_def m] Cons.IH [of "n + 1", unfolded Let_def m] by (simp add: m Let_def)
  qed (simp add: x collect_records_step)
qed simp

text \<open>An occasion is one subframe of the paging cycle.\<close>

lemma paging_sf_range:
  assumes "pcch_cfg_ok cfg"
  shows "paging_sf cfg ueid \<in> {0, 4, 5, 9}"
proof -
  have "paging_i_s cfg ueid < pcch_Ns cfg" using pcch_cases(4) [OF assms] by (auto simp: paging_i_s_def)
  then consider "pcch_Ns cfg = 1" "paging_i_s cfg ueid = 0"
    | "pcch_Ns cfg = 2" "paging_i_s cfg ueid \<in> {0, 1}"
    | "pcch_Ns cfg = 4" "paging_i_s cfg ueid \<in> {0, 1, 2, 3}"
    using pcch_cases(4) [OF assms] by fastforce
  then show ?thesis by cases (auto simp: paging_sf_def sf_pattern_def)
qed

lemma paging_frame_less: "pcch_cfg_ok cfg \<Longrightarrow> paging_frame cfg ueid < pcch_T cfg"
proof -
  assume ok: "pcch_cfg_ok cfg"
  have "0 < pcch_N cfg" using pcch_cases(2) [OF ok] by auto
  then have "ueid mod pcch_N cfg < pcch_N cfg" by simp
  moreover have "pcch_T cfg div pcch_N cfg * pcch_N cfg = pcch_T cfg" using pcch_cases(3) [OF ok] by simp
  moreover have "0 < pcch_T cfg div pcch_N cfg"
    using pcch_cases(1,3) [OF ok] by (auto intro: Nat.gr0I dest!: dvd_div_eq_0_iff [THEN iffD1, rotated])
  ultimately show ?thesis unfolding paging_frame_def by (metis mult_less_cancel1)
qed

definition occasion_offset :: "pcch_cfg \<Rightarrow> nat \<Rightarrow> nat" where
  "occasion_offset cfg ueid = 10 * paging_frame cfg ueid + nat (paging_sf cfg ueid)"

lemma paging_occasion_offset:
  assumes "pcch_cfg_ok cfg"
  shows "paging_occasion cfg ueid t \<longleftrightarrow> t mod (10 * pcch_T cfg) = occasion_offset cfg ueid"
proof -
  obtain s where s: "paging_sf cfg ueid = int s" "s < 10" using paging_sf_range [OF assms, of ueid] by auto
  have "t mod (10 * pcch_T cfg) = 10 * (t div 10 mod pcch_T cfg) + t mod 10" by (rule mod_mult2_eq)
  moreover have "10 * a + b = 10 * f + s \<longleftrightarrow> a = f \<and> b = s" if "b < 10" for a b f :: nat
  proof
    assume e: "10 * a + b = 10 * f + s"
    have "a = (10 * a + b) div 10" "f = (10 * f + s) div 10" using that s(2) by simp_all
    then show "a = f \<and> b = s" using e by simp
  qed simp
  from this [of "t mod 10"] have "10 * (t div 10 mod pcch_T cfg) + t mod 10 = 10 * paging_frame cfg ueid + s \<longleftrightarrow>
      t div 10 mod pcch_T cfg = paging_frame cfg ueid \<and> t mod 10 = s" by simp
  ultimately show ?thesis unfolding paging_occasion_def occasion_offset_def s(1) nat_int of_nat_eq_iff by argo
qed

lemma occasion_offset_less: "pcch_cfg_ok cfg \<Longrightarrow> occasion_offset cfg ueid < 10 * pcch_T cfg"
  using paging_frame_less [of cfg ueid] paging_sf_range [of cfg ueid] by (auto simp: occasion_offset_def)

text \<open>Among any \<open>10 * T\<close> consecutive TTIs there is exactly one occasion.\<close>

lemma mod_unique_window:
  fixes c m :: nat
  assumes "c < m"
  shows "\<exists>!t. t0 \<le> t \<and> t < t0 + m \<and> t mod m = c"
proof (rule ex_ex1I)
  let ?r = "t0 mod m"
  show "\<exists>t. t0 \<le> t \<and> t < t0 + m \<and> t mod m = c"
  proof (cases "?r \<le> c")
    case True
    have "(t0 + (c - ?r)) mod m = (?r + (c - ?r)) mod m" by (metis mod_add_left_eq)
    then have "(t0 + (c - ?r)) mod m = c" using True assms by simp
    then show ?thesis using assms by (intro exI [of _ "t0 + (c - ?r)"]) auto
  next
    case False
    have r: "?r < m" using assms by simp
    have "(t0 + (m - (?r - c))) mod m = (?r + (m - (?r - c))) mod m" by (metis mod_add_left_eq)
    also have "\<dots> = (c + m) mod m" using False r by simp
    finally have "(t0 + (m - (?r - c))) mod m = c" using assms by simp
    then show ?thesis using False r by (intro exI [of _ "t0 + (m - (?r - c))"]) auto
  qed
next
  fix t u assume t: "t0 \<le> t \<and> t < t0 + m \<and> t mod m = c" and u: "t0 \<le> u \<and> u < t0 + m \<and> u mod m = c"
  show "t = u"
  proof (cases "t \<le> u")
    case True
    then have "m dvd u - t" using t u mod_eq_dvd_iff_nat [OF True, of m] by simp
    then show ?thesis using t u True by (auto dest: dvd_imp_le)
  next
    case False
    then have "m dvd t - u" using t u mod_eq_dvd_iff_nat [of u t m] by simp
    then show ?thesis using t u False by (auto dest: dvd_imp_le)
  qed
qed

lemma occasion_once:
  assumes "pcch_cfg_ok cfg"
  shows "\<exists>!t. t0 \<le> t \<and> t < t0 + 10 * pcch_T cfg \<and> paging_occasion cfg ueid t"
  using mod_unique_window [OF occasion_offset_less [OF assms]] by (simp only: paging_occasion_offset [OF assms])

section \<open>The message of an occasion\<close>

lemma map_erase_filter: "map_ok m \<Longrightarrow> map_erase k m = filter (\<lambda>x. fst x \<noteq> k) m"
proof (induction m)
  case (Cons x m)
  have "filter (\<lambda>y. fst y \<noteq> fst x) m = m" using Cons.prems by (cases x) (auto intro!: filter_True)
  then show ?case using Cons by (cases x) auto
qed simp

lemma fold_map_erase: "map_ok m \<Longrightarrow> fold map_erase ks m = filter (\<lambda>x. fst x \<notin> set ks) m"
proof (induction ks arbitrary: m)
  case (Cons k ks)
  then show ?case using map_erase_ok [OF Cons.prems, of k] by (simp add: map_erase_filter conj_commute)
qed simp

definition paging_inv :: "enb_paging \<Rightarrow> bool" where
  "paging_inv s \<longleftrightarrow> map_ok (pending_paging s) \<and> (\<forall>(key, u) \<in> set (pending_paging s). key < 1024) \<and>
     length (bb_buffer (byte_buf_paging s)) = MAX_BUFFER_SIZE_BYTES"

lemma length_enc_paging_record: "paging_record_ok r \<Longrightarrow> length (enc_paging_record r) \<le> 100"
proof -
  assume ok: "paging_record_ok r"
  have cl: "ceil_log2 2 = 1" "ceil_log2 10 = 4" "ceil_log2 16 = 4" by code_simp+
  have "length (enc_ue_id_value (pr_ue_id r)) \<le> 90"
  proof (cases "pr_ue_id r")
    case (Ue_s_tmsi x)
    then show ?thesis using ok by (auto simp: paging_record_ok_def enc_s_tmsi_def s_tmsi_ok_def dest!: length_enc_bitstring)
  next
    case (Ue_imsi x)
    then have "length x \<le> 21" using ok by (simp add: paging_record_ok_def seq_of_ok_def)
    moreover have "length (concat (map (enc_whole 0 (9 :: u8)) x)) = 4 * length x"
      by (induction x) (simp_all add: enc_whole_def whole_bits_def cl)
    ultimately show ?thesis using Ue_imsi by (simp add: enc_seq_of_def enc_whole_def [of _ _ "of_nat _"] whole_bits_def cl)
  next
    case (Ue_ng_5g_s_tmsi x)
    then have "length (enc_bitstring x) = 48" using ok by (auto simp: paging_record_ok_def dest!: length_enc_bitstring)
    then show ?thesis using Ue_ng_5g_s_tmsi by (simp add: enc_varlength_def pad_bits_def enc_length_def)
  next
    case (Ue_i_rnti x)
    then have "length (enc_bitstring x) = 40" using ok by (auto simp: paging_record_ok_def dest!: length_enc_bitstring)
    then show ?thesis using Ue_i_rnti by (simp add: enc_varlength_def pad_bits_def enc_length_def)
  qed simp
  moreover have "length (enc_enum 4 2 True (ue_id_type (pr_ue_id r))) \<le> 8"
    by (cases "pr_ue_id r") (simp_all add: enc_enum_def cl)
  ultimately show ?thesis by (simp add: enc_paging_record_def enc_ue_id_def enc_enum_def [of 2] cl)
qed

lemma etws_paging_ok:
  assumes "records \<noteq> []" "length records \<le> 16" "list_all paging_record_ok records"
  shows "pcch_ok (Pcch_c1 (etws_paging records))" "length (enc_pcch (Pcch_c1 (etws_paging records))) \<le> 8 * 1000"
proof -
  have cl: "ceil_log2 2 = 1" "ceil_log2 16 = 4" by code_simp+
  show "pcch_ok (Pcch_c1 (etws_paging records))"
    using assms by (cases records) (simp_all add: etws_paging_def paging_new_def paging_ok_def seq_of_ok_def)
  have "length (concat (map enc_paging_record records)) \<le> 100 * length records"
    using assms(3) by (induction records) (auto dest!: length_enc_paging_record)
  then show "length (enc_pcch (Pcch_c1 (etws_paging records))) \<le> 8 * 1000"
    using assms(1,2) by (simp add: enc_pcch_def enc_enum_def etws_paging_def paging_new_def enc_paging_def eopt_def
        enc_seq_of_def enc_whole_def whole_bits_def cl)
qed

lemma send_paging_ok:
  assumes p: "pcch_ok (Pcch_c1 p)" "length (enc_pcch (Pcch_c1 p)) \<le> 8 * 1000"
    and buf: "length (bb_buffer (byte_buf_paging s)) = MAX_BUFFER_SIZE_BYTES"
  obtains s' where "send_paging tti payload_len p s = (True, bb_N_bytes (byte_buf_paging s'), s')"
    and "pending_paging s' = pending_paging s" and "paging_tti s' = tti"
    and "bb_ok (byte_buf_paging s')" and "0 < bb_N_bytes (byte_buf_paging s')" and "bb_N_bytes (byte_buf_paging s') \<le> 1024"
    and "\<forall>tail. \<exists>b'. pcch_msg_unpack (bit_ref_new (bb_data (byte_buf_paging s') @ tail)) = Inr (Pcch_c1 p, b')"
proof -
  let ?buf = "bb_clear (byte_buf_paging s)"
  let ?mem = "bb_mem ?buf 0"
  have l: "length ?mem = 12237" using buf by (simp add: bb_clear_def BUFFER_HEADER_OFFSET_def)
  have t: "unat (get_tailroom ?buf) = 12237" using buf by (simp add: get_tailroom_def bb_clear_def BUFFER_HEADER_OFFSET_def)
  obtain b where b: "pcch_msg_pack (Pcch_c1 p) (bit_ref_new ?mem) = (SRSASN_SUCCESS, b)" "length (br_mem b) = length ?mem"
      "8 * distance_bytes b = length (enc_pcch (Pcch_c1 p)) + pad_bits (length (enc_pcch (Pcch_c1 p)))"
      "\<forall>tail. \<exists>b'. pcch_msg_unpack (bit_ref_new (take (distance_bytes b) (br_mem b) @ tail)) = Inr (Pcch_c1 p, b')"
    by (rule pcch_transport [OF p(1), of ?mem]) (use p(2) l in auto)
  have "length (enc_pcch (Pcch_c1 p)) > 0" by (simp add: enc_pcch_def enc_paging_def)
  moreover have "pad_bits (length (enc_pcch (Pcch_c1 p))) < 8" by (simp add: pad_bits_def)
  ultimately have d: "0 < distance_bytes b" "distance_bytes b \<le> 1001" using b(3) p(2) by linarith+
  then have n: "unat (of_nat (distance_bytes b) :: u32) = distance_bytes b" by (simp add: unat_of_nat)
  let ?s = "s\<lparr>byte_buf_paging := (bb_set_mem ?buf 0 (br_mem b))\<lparr>bb_N_bytes := of_nat (distance_bytes b)\<rparr>, paging_tti := tti\<rparr>"
  have data: "bb_data (byte_buf_paging ?s) = take (distance_bytes b) (br_mem b)"
    using n buf by (simp add: bb_data_def bb_mem_def bb_set_mem_def bb_clear_def BUFFER_HEADER_OFFSET_def)
  show thesis
  proof (rule that [of ?s])
    show "send_paging tti payload_len p s = (True, bb_N_bytes (byte_buf_paging ?s), ?s)"
      using b(1,2) l t by (simp add: send_paging_def Let_def)
    show "bb_ok (byte_buf_paging ?s)"
      using n d l b(2) buf by (simp add: bb_ok_def bb_set_mem_def bb_clear_def BUFFER_HEADER_OFFSET_def)
    show "0 < bb_N_bytes (byte_buf_paging ?s)" "bb_N_bytes (byte_buf_paging ?s) \<le> 1024"
      using n d by (simp_all add: word_less_nat_alt word_le_nat_alt)
    show "\<forall>tail. \<exists>b'. pcch_msg_unpack (bit_ref_new (bb_data (byte_buf_paging ?s) @ tail)) = Inr (Pcch_c1 p, b')"
      unfolding data by (rule b(4))
  qed simp_all
qed

lemma due_keys:
  assumes "paging_inv s" and "ds = due_records cfg tti (pending_paging s)"
  shows "filter (\<lambda>x. fst x \<notin> set (map (\<lambda>(key, u). of_nat (unat key mod 1024)) ds)) (pending_paging s)
    = filter (\<lambda>x. x \<notin> set ds) (pending_paging s)"
proof -
  have sub: "set ds \<subseteq> set (pending_paging s)" using assms(2) by (auto simp: due_records_def dest: in_set_takeD)
  have k: "of_nat (unat key mod 1024) = key" if "(key, u) \<in> set (pending_paging s)" for key u
    using assms(1) that by (auto simp: paging_inv_def word_less_nat_alt)
  have d: "distinct (map fst (pending_paging s))"
    using assms(1) strict_sorted_iff [of "map fst (pending_paging s)"] by (simp add: paging_inv_def map_ok_def)
  show ?thesis
  proof (rule filter_cong [OF refl])
    fix x assume x: "x \<in> set (pending_paging s)"
    have "set (map (\<lambda>(key, u). of_nat (unat key mod 1024)) ds) = fst ` set ds"
      using sub k by (force simp: image_iff)
    then show "(fst x \<notin> set (map (\<lambda>(key, u). of_nat (unat key mod 1024)) ds)) = (x \<notin> set ds)"
      using x d sub by (auto simp: distinct_map image_iff inj_on_def)
  qed
qed

lemma is_paging_opportunity_due:
  assumes cfg: "pcch_cfg_ok cfg" and inv: "paging_inv s" and tti: "tti \<noteq> paging_tti s"
    and ds: "ds = due_records cfg tti (pending_paging s)"
  shows "is_paging_opportunity cfg tti payload_len s =
    (let s1 = s\<lparr>paging_tti := INVALID_TTI, pending_paging := filter (\<lambda>x. x \<notin> set ds) (pending_paging s)\<rparr>
     in Some (if ds = [] then (False, payload_len, s1) else send_paging tti payload_len (etws_paging (map snd ds)) s1))"
proof -
  have T: "pcch_T cfg \<noteq> 0" "pcch_N cfg \<noteq> 0" using pcch_cases(1,2) [OF cfg] by auto
  have c: "collect_records cfg tti 0 (pending_paging s) = (map snd ds, map (\<lambda>(key, u). of_nat (unat key mod 1024)) ds)"
    by (simp add: collect_records_due Let_def ds due_records_def)
  have e: "fold map_erase (map (\<lambda>(key, u). of_nat (unat key mod 1024)) ds) (pending_paging s)
      = filter (\<lambda>x. x \<notin> set ds) (pending_paging s)"
    using fold_map_erase [of "pending_paging s"] inv unfolding due_keys [OF inv ds, symmetric] by (simp add: paging_inv_def)
  show ?thesis
  proof (cases "pending_paging s = []")
    case True
    then show ?thesis using tti ds by (cases s) (simp add: is_paging_opportunity_def due_records_def)
  next
    case False
    then show ?thesis using tti T c e by (simp add: is_paging_opportunity_def Let_def etws_paging_def paging_new_def)
  qed
qed

section \<open>A run of the scheduler\<close>

text \<open>
  The subframes of a run, one call of \<open>alloc_paging\<close> for each. At an allocation the MAC fetches the message into its
  payload buffer; the run lists the TTI, the length of the allocation and the buffer.
\<close>

definition pcch_payload_buffer_len :: u32 where
  "pcch_payload_buffer_len = 1024"

definition paging_subframe ::
  "pcch_cfg \<Rightarrow> u32 \<Rightarrow> enb_paging \<times> bytes \<Rightarrow> ((u32 \<times> u32 \<times> bytes) list \<times> enb_paging \<times> bytes) option" where
  "paging_subframe cfg tti sp =
    (case alloc_paging cfg tti (fst sp) of
       None \<Rightarrow> None
     | Some (None, s) \<Rightarrow> Some ([], s, snd sp)
     | Some (Some n, s) \<Rightarrow>
         map_option (\<lambda>payload. ([(tti, n, payload)], s, payload)) (read_pdu_pcch (snd sp) pcch_payload_buffer_len s))"

fun paging_run ::
  "pcch_cfg \<Rightarrow> u32 list \<Rightarrow> enb_paging \<times> bytes \<Rightarrow> ((u32 \<times> u32 \<times> bytes) list \<times> enb_paging \<times> bytes) option" where
  "paging_run cfg [] sp = Some ([], sp)"
| "paging_run cfg (tti # ttis) sp =
    (case paging_subframe cfg tti sp of
       None \<Rightarrow> None
     | Some (tx, sp) \<Rightarrow> map_option (\<lambda>(tx', sp). (tx @ tx', sp)) (paging_run cfg ttis sp))"

text \<open>
  The records a receiver finds in a transport block that announces ETWS. The block is what the allocation asks for
  with \<open>pad\<close> octets of the buffer behind it.
\<close>

definition etws_records :: "nat \<Rightarrow> u32 \<times> u32 \<times> bytes \<Rightarrow> paging_record list" where
  "etws_records pad t =
    (case t of (tti, n, payload) \<Rightarrow>
       case pcch_msg_unpack (bit_ref_new (take (unat n + pad) payload)) of
         Inr (Pcch_c1 p, _) \<Rightarrow> if etws_ind_present p then paging_record_list p else []
       | _ \<Rightarrow> [])"

lemma paging_subframe_due:
  assumes cfg: "pcch_cfg_ok cfg" and inv: "paging_inv s" and tti: "tti \<noteq> paging_tti s"
    and ok: "list_all (\<lambda>(key, u). paging_record_ok u) (pending_paging s)"
    and payload: "length payload = 1024"
    and ds: "ds = due_records cfg tti (pending_paging s)"
  obtains tx s' payload' where "paging_subframe cfg tti (s, payload) = Some (tx, s', payload')"
    and "paging_inv s'" and "length payload' = 1024" and "paging_tti s' \<in> {tti, INVALID_TTI}"
    and "pending_paging s' = filter (\<lambda>x. x \<notin> set ds) (pending_paging s)"
    and "concat (map (etws_records pad) tx) = map snd ds" and "\<forall>(t, n, pl) \<in> set tx. 0 < n \<and> length pl = 1024"
proof (cases "ds = []")
  case True
  let ?s = "s\<lparr>paging_tti := INVALID_TTI, pending_paging := filter (\<lambda>x. x \<notin> set ds) (pending_paging s)\<rparr>"
  have "paging_inv ?s" using inv True by (simp add: paging_inv_def)
  moreover have "paging_subframe cfg tti (s, payload) = Some ([], ?s, payload)"
    using True is_paging_opportunity_due [OF cfg inv tti ds] by (simp add: paging_subframe_def alloc_paging_def)
  ultimately show thesis using that [of "[]" ?s payload] payload True by simp
next
  case False
  let ?s = "s\<lparr>paging_tti := INVALID_TTI, pending_paging := filter (\<lambda>x. x \<notin> set ds) (pending_paging s)\<rparr>"
  have sub: "set ds \<subseteq> set (pending_paging s)" using ds by (auto simp: due_records_def dest: in_set_takeD)
  have rec_ok: "list_all paging_record_ok (map snd ds)" using ok sub by (fastforce simp: list_all_iff)
  have "map snd ds \<noteq> []" "length (map snd ds) \<le> 16" using False by (simp_all add: ds due_records_def ASN1_RRC_MAX_PAGE_REC_def)
  from this rec_ok have "map snd ds \<noteq> []" "length (map snd ds) \<le> 16" "list_all paging_record_ok (map snd ds)" .
  from etws_paging_ok [OF this] obtain s' where s': "send_paging tti 0 (etws_paging (map snd ds)) ?s =
      (True, bb_N_bytes (byte_buf_paging s'), s')" "pending_paging s' = pending_paging ?s" "paging_tti s' = tti"
      "bb_ok (byte_buf_paging s')" "0 < bb_N_bytes (byte_buf_paging s')" "bb_N_bytes (byte_buf_paging s') \<le> 1024"
      "\<forall>tail. \<exists>b'. pcch_msg_unpack (bit_ref_new (bb_data (byte_buf_paging s') @ tail)) = Inr (Pcch_c1 (etws_paging (map snd ds)), b')"
    by (rule send_paging_ok [where s = ?s and tti = tti and payload_len = 0]) (use inv in \<open>simp add: paging_inv_def\<close>)
  let ?n = "bb_N_bytes (byte_buf_paging s')"
  let ?payload = "put payload (bb_data (byte_buf_paging s'))"
  have l: "length (bb_data (byte_buf_paging s')) = unat ?n" "unat ?n \<le> 1024"
    using length_bb_data [OF s'(4)] s'(6) by (simp_all add: word_le_nat_alt)
  have r: "read_pdu_pcch payload pcch_payload_buffer_len s' = Some ?payload"
    using s'(4,6) payload l bb_okD(1) [OF s'(4)]
    by (simp add: read_pdu_pcch_def memcpy_mem_def pcch_payload_buffer_len_def bb_data_def Let_def)
  have "take (unat ?n + pad) ?payload = bb_data (byte_buf_paging s') @ take pad (drop (unat ?n) payload)"
    using l by (simp add: put_def)
  then obtain b' where "pcch_msg_unpack (bit_ref_new (take (unat ?n + pad) ?payload)) = Inr (Pcch_c1 (etws_paging (map snd ds)), b')"
    using s'(7) by metis
  then have e: "etws_records pad (tti, ?n, ?payload) = map snd ds" using False by (simp add: etws_records_def etws_paging_def)
  show thesis
  proof (rule that [of "[(tti, ?n, ?payload)]" s' ?payload])
    show "paging_subframe cfg tti (s, payload) = Some ([(tti, ?n, ?payload)], s', ?payload)"
      using False is_paging_opportunity_due [OF cfg inv tti ds, of 0] s'(1,5) r
      by (simp add: paging_subframe_def alloc_paging_def Let_def)
    show "paging_inv s'" using inv s'(2,4) by (auto simp: paging_inv_def bb_ok_def map_ok_filter)
    show "length ?payload = 1024" using payload l by (simp add: put_def)
  qed (use s'(2,3,5) e payload l in \<open>simp_all add: put_def\<close>)
qed

text \<open>
  With at most 16 records pending, a run over distinct subframes announces the records that have an occasion in it,
  each once, and keeps the others.
\<close>

definition due_in :: "pcch_cfg \<Rightarrow> u32 list \<Rightarrow> u32 \<times> paging_record \<Rightarrow> bool" where
  "due_in cfg ttis x \<longleftrightarrow> (\<exists>t \<in> set ttis. paging_occasion cfg (unat (fst x) mod 1024) (unat t))"

lemma due_records_few:
  "length items \<le> 16 \<Longrightarrow> due_records cfg tti items = filter (due_in cfg [tti]) items"
proof -
  assume l: "length items \<le> 16"
  have "length (filter (due_in cfg [tti]) items) \<le> 16" using length_filter_le [of _ items] l le_trans by blast
  moreover have "(\<lambda>(key, u). paging_occasion cfg (unat key mod 1024) (unat tti)) = due_in cfg [tti]"
    by (auto simp: due_in_def fun_eq_iff)
  ultimately show ?thesis by (simp add: due_records_def ASN1_RRC_MAX_PAGE_REC_def)
qed

lemma mset_filter_split:
  "mset (filter P xs) + mset (filter Q (filter (\<lambda>x. \<not> P x) xs)) = mset (filter (\<lambda>x. P x \<or> Q x) xs)"
  by (auto simp: multiset_eq_iff)

lemma paging_run_due:
  assumes cfg: "pcch_cfg_ok cfg"
  shows "paging_inv s \<Longrightarrow> length payload = 1024 \<Longrightarrow> length (pending_paging s) \<le> 16 \<Longrightarrow>
    list_all (\<lambda>(key, u). paging_record_ok u) (pending_paging s) \<Longrightarrow>
    distinct ttis \<Longrightarrow> paging_tti s \<notin> set ttis \<Longrightarrow> INVALID_TTI \<notin> set ttis \<Longrightarrow>
    \<exists>tx s' payload'. paging_run cfg ttis (s, payload) = Some (tx, s', payload') \<and>
      pending_paging s' = filter (\<lambda>x. \<not> due_in cfg ttis x) (pending_paging s) \<and>
      mset (concat (map (etws_records pad) tx)) = mset (map snd (filter (due_in cfg ttis) (pending_paging s))) \<and>
      (\<forall>(t, n, pl) \<in> set tx. 0 < n \<and> length pl = 1024)"
proof (induction ttis arbitrary: s payload)
  case Nil
  then show ?case by (simp add: due_in_def)
next
  case (Cons tti ttis)
  let ?ds = "filter (due_in cfg [tti]) (pending_paging s)"
  have "tti \<noteq> paging_tti s" using Cons.prems(6) by auto
  then obtain tx s1 p1 where 1: "paging_subframe cfg tti (s, payload) = Some (tx, s1, p1)" "paging_inv s1" "length p1 = 1024"
      "paging_tti s1 \<in> {tti, INVALID_TTI}" "pending_paging s1 = filter (\<lambda>x. x \<notin> set ?ds) (pending_paging s)"
      "concat (map (etws_records pad) tx) = map snd ?ds" "\<forall>(t, n, pl) \<in> set tx. 0 < n \<and> length pl = 1024"
    by (rule paging_subframe_due [OF cfg Cons.prems(1) _ Cons.prems(4,2) due_records_few [OF Cons.prems(3), symmetric]])
  have p: "pending_paging s1 = filter (\<lambda>x. \<not> due_in cfg [tti] x) (pending_paging s)"
    unfolding 1(5) by (rule filter_cong) auto
  have "length (pending_paging s1) \<le> 16" using Cons.prems(3) length_filter_le [of _ "pending_paging s"] le_trans
    unfolding p by blast
  moreover have "list_all (\<lambda>(key, u). paging_record_ok u) (pending_paging s1)"
    using Cons.prems(4) unfolding p by (auto simp: list_all_iff)
  moreover have "distinct ttis" "paging_tti s1 \<notin> set ttis" "INVALID_TTI \<notin> set ttis" using Cons.prems(5,7) 1(4) by auto
  ultimately obtain tx' s' p' where 2: "paging_run cfg ttis (s1, p1) = Some (tx', s', p')"
      "pending_paging s' = filter (\<lambda>x. \<not> due_in cfg ttis x) (pending_paging s1)"
      "mset (concat (map (etws_records pad) tx')) = mset (map snd (filter (due_in cfg ttis) (pending_paging s1)))"
      "\<forall>(t, n, pl) \<in> set tx'. 0 < n \<and> length pl = 1024"
    using Cons.IH [OF 1(2,3)] by blast
  have due: "due_in cfg (tti # ttis) = (\<lambda>x. due_in cfg [tti] x \<or> due_in cfg ttis x)" by (auto simp: due_in_def fun_eq_iff)
  have "mset (concat (map (etws_records pad) (tx @ tx')))
      = image_mset snd (mset ?ds + mset (filter (due_in cfg ttis) (filter (\<lambda>x. \<not> due_in cfg [tti] x) (pending_paging s))))"
    using 1(6) 2(3) p by simp
  also have "\<dots> = mset (map snd (filter (due_in cfg (tti # ttis)) (pending_paging s)))"
    unfolding mset_filter_split due by simp
  finally show ?case using 1(1,7) 2(1,2,4) by (auto simp: p due conj_commute)
qed

text \<open>One paging cycle.\<close>

definition cycle_ttis :: "pcch_cfg \<Rightarrow> nat \<Rightarrow> u32 list" where
  "cycle_ttis cfg t0 = map (\<lambda>i. of_nat ((t0 + i) mod 10240)) [0..<10 * pcch_T cfg]"

lemma cycle_window: "pcch_cfg_ok cfg \<Longrightarrow> 10 * pcch_T cfg dvd 10240 \<and> 10 * pcch_T cfg \<le> 2560"
  using pcch_cases(1) [of cfg] by auto

lemma mod_shift_inj:
  fixes i j m t :: nat
  assumes "(t + i) mod m = (t + j) mod m" and "i < m" and "j < m"
  shows "i = j"
proof -
  have aux: "a = b" if "a \<le> b" "b < m" "(t + b) mod m = (t + a) mod m" for a b
  proof -
    have "m dvd (t + b) - (t + a)" using mod_eq_dvd_iff_nat [of "t + a" "t + b" m] that by simp
    then show ?thesis using that by (auto dest: dvd_imp_le)
  qed
  show ?thesis using aux [of i j] aux [of j i] assms by (cases "i \<le> j") auto
qed

lemma cycle_ttis_distinct:
  assumes "pcch_cfg_ok cfg"
  shows "distinct (cycle_ttis cfg t0)" and "INVALID_TTI \<notin> set (cycle_ttis cfg t0)"
proof -
  let ?f = "\<lambda>i. of_nat ((t0 + i) mod 10240) :: u32"
  have u: "unat (?f i) = (t0 + i) mod 10240" for i by (simp add: unat_of_nat)
  have "inj_on ?f {0..<10 * pcch_T cfg}"
  proof (rule inj_onI)
    fix i j assume i: "i \<in> {0..<10 * pcch_T cfg}" and j: "j \<in> {0..<10 * pcch_T cfg}" and e: "?f i = ?f j"
    have e: "(t0 + i) mod 10240 = (t0 + j) mod 10240" using arg_cong [OF e, of unat] by (simp only: u)
    have "i < 10240" "j < 10240" using cycle_window [OF assms] i j by auto
    then show "i = j" using mod_shift_inj [OF e] by simp
  qed
  then show "distinct (cycle_ttis cfg t0)" by (simp add: cycle_ttis_def distinct_map)
  have "?f i \<noteq> INVALID_TTI" for i
  proof
    assume "?f i = INVALID_TTI"
    then have "(t0 + i) mod 10240 = 10241" using u [of i] by (simp add: INVALID_TTI_def)
    then show False using mod_less_divisor [of 10240 "t0 + i"] by simp
  qed
  then show "INVALID_TTI \<notin> set (cycle_ttis cfg t0)" by (auto simp: cycle_ttis_def eq_commute [of INVALID_TTI])
qed

lemma cycle_due:
  assumes cfg: "pcch_cfg_ok cfg"
  shows "due_in cfg (cycle_ttis cfg t0) x"
proof -
  obtain t where t: "t0 \<le> t" "t < t0 + 10 * pcch_T cfg" "paging_occasion cfg (unat (fst x) mod 1024) t"
    using occasion_once [OF cfg] by blast
  have "t mod 10240 mod (10 * pcch_T cfg) = t mod (10 * pcch_T cfg)"
    using cycle_window [OF cfg] by (simp add: mod_mod_cancel)
  then have o: "paging_occasion cfg (unat (fst x) mod 1024) (t mod 10240)"
    using t(3) unfolding paging_occasion_offset [OF cfg] by simp
  have "unat (of_nat (t mod 10240) :: u32) = t mod 10240" by (simp add: unat_of_nat)
  moreover have "of_nat (t mod 10240) \<in> set (cycle_ttis cfg t0)"
    unfolding cycle_ttis_def set_map using t(1,2) by (intro image_eqI [of _ _ "t - t0"]) auto
  ultimately show ?thesis unfolding due_in_def using o by (metis (no_types))
qed


section \<open>From the S1AP message\<close>

fun s1ap_id_ok :: "ue_paging_id \<Rightarrow> bool" where
  "s1ap_id_ok (Paging_s_tmsi mmec m_tmsi) \<longleftrightarrow> True"
| "s1ap_id_ok (Paging_imsi imsi) \<longleftrightarrow> seq_of_ok (\<lambda>n. n \<le> 9) 6 21 imsi"
| "s1ap_id_ok Paging_nulltype \<longleftrightarrow> False"

lemma paging_s_tmsi_ok: "s_tmsi_ok (paging_s_tmsi mmec m_tmsi)"
proof -
  have "unat (ucast (mmec ! 0) :: u64) < 2 ^ 8" "unat (ucast (m_tmsi_of m_tmsi) :: u64) < 2 ^ 32"
    by (rule unat_ucast_less; simp)+
  then show ?thesis by (simp add: s_tmsi_ok_def paging_s_tmsi_def from_number_ok)
qed

fun paged_id :: "ue_paging_id \<Rightarrow> paging_ue_id" where
  "paged_id (Paging_s_tmsi mmec m_tmsi) = Ue_s_tmsi (paging_s_tmsi mmec m_tmsi)"
| "paged_id (Paging_imsi imsi) = Ue_imsi imsi"
| "paged_id Paging_nulltype = Ue_nulltype"

definition paged_record :: "ue_paging_id \<Rightarrow> paging_record" where
  "paged_record i = \<lparr>pr_ext = False, pr_ue_id = paged_id i, pr_cn_domain = Cn_ps\<rparr>"

lemma paged_record_ok: "s1ap_id_ok i \<Longrightarrow> paging_record_ok (paged_record i)"
  by (cases i) (simp_all add: paging_record_ok_def paged_record_def paging_s_tmsi_ok)

lemma add_paging_id_ok:
  assumes inv: "paging_inv s" and k: "ueid < 1024" and i: "s1ap_id_ok i"
    and recs: "list_all (\<lambda>(key, u). paging_record_ok u) (pending_paging s)"
  obtains s' where "add_paging_id ueid i s = Some s'" and "paging_inv s'"
    and "list_all (\<lambda>(key, u). paging_record_ok u) (pending_paging s')"
    and "\<And>key. map_find key (pending_paging s') =
      (if key = ueid \<and> map_find key (pending_paging s) = None then Some (paged_record i) else map_find key (pending_paging s))"
    and "paging_tti s' = paging_tti s" and "byte_buf_paging s' = byte_buf_paging s"
proof (cases "map_find ueid (pending_paging s)")
  case None
  let ?m = "snd (map_insert ueid (paged_record i) (pending_paging s))"
  have a: "add_paging_id ueid i s = Some (s\<lparr>pending_paging := ?m\<rparr>)"
    using None i by (cases i) (simp_all add: add_paging_id_def paged_record_def seq_of_ok_def)
  have m: "map_ok (pending_paging s)" using inv by (simp add: paging_inv_def)
  show thesis
  proof (rule that [OF a])
    show "paging_inv (s\<lparr>pending_paging := ?m\<rparr>)"
      using inv k map_insert_ok [OF m] by (auto simp: paging_inv_def dest!: in_map_insert)
    show "list_all (\<lambda>(key, u). paging_record_ok u) (pending_paging (s\<lparr>pending_paging := ?m\<rparr>))"
      using recs paged_record_ok [OF i] by (auto simp: list_all_iff dest!: in_map_insert)
    show "map_find key (pending_paging (s\<lparr>pending_paging := ?m\<rparr>)) =
      (if key = ueid \<and> map_find key (pending_paging s) = None then Some (paged_record i) else map_find key (pending_paging s))" for key
      using map_find_insert [OF m] by auto
  qed simp_all
next
  case (Some u)
  then have "add_paging_id ueid i s = Some s" by (simp add: add_paging_id_def)
  then show thesis using inv recs Some by (intro that [of s]) auto
qed

text \<open>A state with an ETWS warning to send: one UE paged by its S-TMSI, from the initial state.\<close>

definition sample_pcch_cfg :: pcch_cfg where
  "sample_pcch_cfg = \<lparr>default_paging_cycle = Rf128, pcch_nb = Two_t\<rparr>"

definition sample_s1ap_id :: ue_paging_id where
  "sample_s1ap_id = Paging_s_tmsi [0x1A] [0xC0, 0xFF, 0xEE, 0x01]"

lemma paging_inv_new: "paging_inv enb_paging_new"
  by (simp add: paging_inv_def enb_paging_new_def byte_buffer_new_def)

lemma sample_paged:
  "add_paging_id 0x155 sample_s1ap_id enb_paging_new =
    Some (enb_paging_new\<lparr>pending_paging := [(0x155, paged_record sample_s1ap_id)]\<rparr>)"
  by (simp add: add_paging_id_def sample_s1ap_id_def paged_record_def enb_paging_new_def)


section \<open>An IMSI that cannot be packed\<close>

text \<open>The unaligned writers never give the code of a reader.\<close>

lemma fst_pthen: "fst (pthen r f) = (if fst r = SRSASN_SUCCESS then fst (f (snd r)) else fst r)"
  by (cases "(r, f)" rule: pthen.cases) simp_all

lemma pack_code [simp]: "fst (pack v n b) \<noteq> SRSASN_ERROR_DECODE_FAIL"
proof -
  have "fst (pack_loop v n b) \<noteq> SRSASN_ERROR_DECODE_FAIL"
  proof (induction v n b rule: pack_loop.induct)
    case (1 v n b)
    then show ?case by (subst pack_loop.simps) (auto simp: Let_def)
  qed
  then show ?thesis by (simp add: pack_def)
qed

lemma pack_bool_code [simp]: "fst (pack_bool v b) \<noteq> SRSASN_ERROR_DECODE_FAIL"
  by (simp add: pack_bool_def)

lemma pack_octets_code [simp]: "fst (pack_octets xs b) \<noteq> SRSASN_ERROR_DECODE_FAIL"
  by (induction xs arbitrary: b) (simp_all add: fst_pthen)

lemma pack_length_code [simp]: "fst (pack_length n False b) \<noteq> SRSASN_ERROR_DECODE_FAIL"
  by (simp add: pack_length_def fst_pthen)

lemma bitstring_pack_code [simp]: "fst (bitstring_pack n n False False s b) \<noteq> SRSASN_ERROR_DECODE_FAIL"
  by (simp add: bitstring_pack_def pack_length_prefix_def pack_bitfield_def fst_pthen Let_def)

lemma whole_number_code: "fst (pack_constrained_whole_number n lb ub False b) =
   (if ub < lb \<or> n < lb \<or> ub < n then SRSASN_ERROR_ENCODE_FAIL else SRSASN_SUCCESS)"
  by (simp add: pack_constrained_whole_number_def Let_def)

lemma pack_enum_code [simp]: "fst (pack_enum e n m x b) \<noteq> SRSASN_ERROR_DECODE_FAIL"
  by (simp add: pack_enum_def pack_norm_small_non_neg_whole_number_def fst_pthen Let_def)

lemma pack_items_code:
  "(\<And>x b. fst (p x b) \<noteq> SRSASN_ERROR_DECODE_FAIL) \<Longrightarrow> fst (pack_items p xs b) \<noteq> SRSASN_ERROR_DECODE_FAIL"
  by (induction xs arbitrary: b) (simp_all add: fst_pthen)

lemma digit_code: "fst (digit_pack n b) = (if n \<le> 9 then SRSASN_SUCCESS else SRSASN_ERROR_ENCODE_FAIL)"
  using not_le [of n 9] by (auto simp: digit_pack_def whole_number_code)

lemma pack_seq_of_code:
  "(\<And>x b. fst (p x b) \<noteq> SRSASN_ERROR_DECODE_FAIL) \<Longrightarrow> fst (pack_dyn_seq_of p lb ub False xs b) \<noteq> SRSASN_ERROR_DECODE_FAIL"
  by (simp add: pack_dyn_seq_of_def fst_pthen whole_number_code pack_items_code)

lemma paging_ue_id_code [simp]: "fst (paging_ue_id_pack u b) \<noteq> SRSASN_ERROR_DECODE_FAIL"
  by (cases u) (simp_all add: paging_ue_id_pack_def pack_seq_of_code digit_code s_tmsi_pack_def fst_pthen
      varlength_pack_def Let_def split_beta)

lemma paging_record_code [simp]: "fst (paging_record_pack r b) \<noteq> SRSASN_ERROR_DECODE_FAIL"
  by (simp add: paging_record_pack_def fst_pthen)

text \<open>One item that fails makes the list fail.\<close>

lemma pthen_fail:
  assumes "fst r \<noteq> SRSASN_ERROR_DECODE_FAIL" and "\<And>b. fst (f b) = SRSASN_ERROR_ENCODE_FAIL"
  shows "fst (pthen r f) = SRSASN_ERROR_ENCODE_FAIL"
  using assms by (cases "fst r") (simp_all add: fst_pthen)

lemma pack_items_fail:
  assumes "\<And>x b. fst (p x b) \<noteq> SRSASN_ERROR_DECODE_FAIL" and "x \<in> set xs" and "\<And>b. fst (p x b) = SRSASN_ERROR_ENCODE_FAIL"
  shows "fst (pack_items p xs b) = SRSASN_ERROR_ENCODE_FAIL"
  using assms(2)
proof (induction xs arbitrary: b)
  case (Cons y ys)
  have "fst (p y b) = SRSASN_SUCCESS \<or> fst (p y b) = SRSASN_ERROR_ENCODE_FAIL"
    using assms(1) [of y b] by (cases "fst (p y b)") simp_all
  then show ?case using Cons assms(3) by (auto simp: fst_pthen)
qed simp

lemma bad_imsi_code:
  assumes "\<not> seq_of_ok (\<lambda>n. n \<le> 9) 6 21 imsi" and "length imsi \<le> 21"
  shows "fst (pack_dyn_seq_of digit_pack 6 21 False imsi b) = SRSASN_ERROR_ENCODE_FAIL"
proof (cases "6 \<le> length imsi")
  case True
  then obtain n where "n \<in> set imsi" "\<not> n \<le> 9" using assms by (auto simp: seq_of_ok_def list_all_iff)
  then have "fst (pack_items digit_pack imsi b) = SRSASN_ERROR_ENCODE_FAIL" for b
    by (intro pack_items_fail [of digit_pack n]) (simp_all add: digit_code)
  then show ?thesis by (simp add: pack_dyn_seq_of_def fst_pthen whole_number_code)
next
  case False
  have "unat (of_nat (length imsi) :: u32) = length imsi" using assms(2) by (simp add: unat_of_nat)
  then show ?thesis using False by (simp add: pack_dyn_seq_of_def fst_pthen whole_number_code word_less_nat_alt)
qed

lemma etws_paging_bad:
  assumes "r \<in> set records" and "pr_ue_id r = Ue_imsi imsi"
    and "\<not> seq_of_ok (\<lambda>n. n \<le> 9) 6 21 imsi" and "length imsi \<le> 21"
  shows "fst (pcch_msg_pack (Pcch_c1 (etws_paging records)) b) = SRSASN_ERROR_ENCODE_FAIL"
proof -
  have "fst (paging_record_pack r b) = SRSASN_ERROR_ENCODE_FAIL" for b
    using bad_imsi_code [OF assms(3,4)] assms(2) by (simp add: paging_record_pack_def paging_ue_id_pack_def fst_pthen)
  then have items: "fst (pack_items paging_record_pack records b) = SRSASN_ERROR_ENCODE_FAIL" for b
    by (intro pack_items_fail [OF _ assms(1)]) simp_all
  have seq: "fst (pack_dyn_seq_of paging_record_pack 1 16 False records b) = SRSASN_ERROR_ENCODE_FAIL" for b
    by (simp add: pack_dyn_seq_of_def fst_pthen whole_number_code items)
  have "fst (paging_pack (etws_paging records) b) = SRSASN_ERROR_ENCODE_FAIL" for b
    unfolding paging_pack_def
    by (rule pthen_fail [OF pack_bool_code])+ (use assms(1) seq in \<open>auto simp: popt_def etws_paging_def fst_pthen\<close>)
  then show ?thesis by (simp add: pcch_msg_pack_def pcch_msg_type_pack_def fst_pthen)
qed

text \<open>
  Claim C23. A paged IMSI that has an octet above 9, as the TBCD octets of S1AP do, or fewer than six octets makes the
  packing fail. Then nothing is sent at the occasion, neither the ETWS indication nor the records of the other
  UEs that are due, and all these records are gone: \<open>is_paging_opportunity\<close> erases them before it packs.
\<close>

theorem paging_bad_imsi:
  assumes "pcch_cfg_ok cfg" and "paging_inv s" and "tti \<noteq> paging_tti s"
    and "(key, r) \<in> set (due_records cfg tti (pending_paging s))" and "pr_ue_id r = Ue_imsi imsi"
    and "length imsi \<le> 21" and "\<not> seq_of_ok (\<lambda>n. n \<le> 9) 6 21 imsi"
  shows "\<exists>s'. is_paging_opportunity cfg tti payload_len s = Some (False, payload_len, s') \<and>
      pending_paging s' = filter (\<lambda>x. x \<notin> set (due_records cfg tti (pending_paging s))) (pending_paging s) \<and>
      paging_tti s' = INVALID_TTI"
proof -
  let ?ds = "due_records cfg tti (pending_paging s)"
  have "r \<in> set (map snd ?ds)" using assms(4) by force
  from etws_paging_bad [OF this assms(5,7,6)]
  have code: "fst (pcch_msg_pack (Pcch_c1 (etws_paging (map snd ?ds))) b) = SRSASN_ERROR_ENCODE_FAIL" for b .
  have ne: "?ds \<noteq> []" using assms(4) by auto
  show ?thesis
    using code is_paging_opportunity_due [OF assms(1-3) refl, of payload_len] ne
    by (simp add: send_paging_def Let_def split_beta)
qed

text \<open>The octets of S1AP for the IMSI 001010123456789 and, at the same occasion, the UE of the sample above.\<close>

definition sample_imsi :: bytes where
  "sample_imsi = [0x00, 0x01, 0x01, 0x21, 0x43, 0x65, 0x87, 0xF9]"

definition sample_imsi_paging :: enb_paging where
  "sample_imsi_paging = enb_paging_new\<lparr>pending_paging :=
     [(0x155, paged_record sample_s1ap_id), (0x255, paged_record (Paging_imsi sample_imsi))]\<rparr>"

lemma sample_imsi_paged:
  "Option.bind (add_paging_id 0x155 sample_s1ap_id enb_paging_new) (add_paging_id 0x255 (Paging_imsi sample_imsi))
    = Some sample_imsi_paging"
  unfolding sample_paged bind.bind_lunit
  by (simp add: add_paging_id_def sample_imsi_paging_def paged_record_def sample_imsi_def)

lemma sample_imsi_due:
  "due_records sample_pcch_cfg 854 (pending_paging sample_imsi_paging) =
    [(0x155, paged_record sample_s1ap_id), (0x255, paged_record (Paging_imsi sample_imsi))]"
  by (simp add: due_records_def ASN1_RRC_MAX_PAGE_REC_def sample_imsi_paging_def paging_occasion_def paging_frame_def
      paging_sf_def paging_i_s_def sample_pcch_cfg_def pcch_T_def pcch_N_def pcch_Ns_def pcch_Nb_def sf_pattern_def)

lemma sample_imsi_bad: "\<not> seq_of_ok (\<lambda>n. n \<le> 9) 6 21 sample_imsi"
  by (simp add: seq_of_ok_def sample_imsi_def)

lemma sample_imsi_inv: "paging_inv sample_imsi_paging"
  using paging_inv_new by (simp add: paging_inv_def sample_imsi_paging_def)

theorem paging_bad_imsi_witness:
  "\<exists>s'. is_paging_opportunity sample_pcch_cfg 854 0 sample_imsi_paging = Some (False, 0, s') \<and>
    pending_paging s' = filter (\<lambda>x. x \<notin> set (due_records sample_pcch_cfg 854 (pending_paging sample_imsi_paging)))
      (pending_paging sample_imsi_paging) \<and>
    paging_tti s' = INVALID_TTI"
proof (rule paging_bad_imsi [of _ _ _ "0x255" "paged_record (Paging_imsi sample_imsi)" sample_imsi])
  show "pcch_cfg_ok sample_pcch_cfg" by (simp add: pcch_cfg_ok_def sample_pcch_cfg_def)
  show "854 \<noteq> paging_tti sample_imsi_paging" by (simp add: sample_imsi_paging_def enb_paging_new_def INVALID_TTI_def)
  show "(0x255, paged_record (Paging_imsi sample_imsi)) \<in>
      set (due_records sample_pcch_cfg 854 (pending_paging sample_imsi_paging))"
    unfolding sample_imsi_due by simp
qed (simp_all add: sample_imsi_inv sample_imsi_bad, simp_all add: paged_record_def sample_imsi_def)

end
