(* ===== verification/Ue_Paging.thy ===== *)
theory Ue_Paging
  imports Rrc_Paging
begin

text \<open>
  Paging in the UE: \<open>process_pcch\<close> and \<open>paging_completed\<close> of \<^verbatim>\<open>srsue/src/stack/rrc/rrc.cc\<close>, the
  procedure \<open>process_pcch_proc\<close> of \<^verbatim>\<open>srsue/src/stack/rrc/rrc_procedures.cc\<close> and the life cycle of a
  procedure, \<open>proc_t\<close> of \<^verbatim>\<open>lib/include/srslte/common/stack_procedure.h\<close>. The properties join it with the
  eNB: a page of the core network reaches the UE it names, and the ETWS indication has no effect there.
\<close>

unbundle bit_operations_syntax

section \<open>Model\<close>

record s_tmsi_t =
  tm_mmec :: u8
  tm_m_tmsi :: u32

definition make_s_tmsi_t :: "s_tmsi \<Rightarrow> s_tmsi_t" where
  "make_s_tmsi_t m = \<lparr>tm_mmec = ucast (to_number (st_mmec m)), tm_m_tmsi = ucast (to_number (st_m_tmsi m))\<rparr>"

datatype proc_outcome_t = Proc_success | Proc_error | Proc_yield

datatype pcch_state = Next_record | Nas_paging | Serv_cell_cfg

record ue_pcch =
  ue_identity_configured :: bool
  ue_identity :: s_tmsi_t
  ue_idle :: bool
  pp_on_going :: bool
  pp_paging :: paging
  pp_idx :: nat
  pp_state :: pcch_state

text \<open>
  What the procedure calls: the answers of \<open>nas->paging\<close> and of \<open>serv_cell_cfg\<close> (launched, still running, its
  result), and what \<open>s_tmsi()\<close> reads from a record of another type, which is memory of that type.
\<close>

record pcch_env =
  nas_paging :: "s_tmsi_t \<Rightarrow> bool"
  cfg_launch :: bool
  cfg_run :: bool
  cfg_success :: bool
  other_memory :: "paging_ue_id \<Rightarrow> s_tmsi"

datatype pcch_event = Ev_nas_paging s_tmsi_t | Ev_reset_sibs | Ev_serv_cell_cfg

definition record_s_tmsi :: "pcch_env \<Rightarrow> paging_record \<Rightarrow> s_tmsi_t" where
  "record_s_tmsi env r = make_s_tmsi_t (case pr_ue_id r of Ue_s_tmsi x \<Rightarrow> x | u \<Rightarrow> other_memory env u)"

text \<open>The loop over the records: the position of the first one that names the idle UE, or the end.\<close>

fun next_match :: "pcch_env \<Rightarrow> ue_pcch \<Rightarrow> nat \<Rightarrow> paging_record list \<Rightarrow> nat \<times> s_tmsi_t option" where
  "next_match env ue idx [] = (idx, None)"
| "next_match env ue idx (r # rs) =
    (if ue_identity ue = record_s_tmsi env r \<and> ue_idle ue then (idx, Some (record_s_tmsi env r))
     else next_match env ue (idx + 1) rs)"

definition serv_cell_step :: "pcch_env \<Rightarrow> proc_outcome_t" where
  "serv_cell_step env = (if cfg_run env then Proc_yield else if cfg_success env then Proc_success else Proc_error)"

definition pcch_step :: "pcch_env \<Rightarrow> ue_pcch \<Rightarrow> proc_outcome_t \<times> pcch_event list \<times> ue_pcch" where
  "pcch_step env ue =
    (case pp_state ue of
       Next_record \<Rightarrow>
         (case next_match env ue (pp_idx ue) (drop (pp_idx ue) (paging_record_list (pp_paging ue))) of
            (idx, Some s_tmsi_paged) \<Rightarrow>
              let ue = ue\<lparr>pp_idx := idx\<rparr>
              in if nas_paging env s_tmsi_paged
                 then (Proc_yield, [Ev_nas_paging s_tmsi_paged], ue\<lparr>pp_state := Nas_paging\<rparr>)
                 else (Proc_error, [Ev_nas_paging s_tmsi_paged], ue)
          | (idx, None) \<Rightarrow>
              let ue = ue\<lparr>pp_idx := idx\<rparr>
              in if sys_info_mod_present (pp_paging ue) then
                   if cfg_launch env
                   then (serv_cell_step env, [Ev_reset_sibs, Ev_serv_cell_cfg], ue\<lparr>pp_state := Serv_cell_cfg\<rparr>)
                   else (Proc_error, [Ev_reset_sibs, Ev_serv_cell_cfg], ue)
                 else (Proc_success, [], ue))
     | Nas_paging \<Rightarrow> (Proc_yield, [], ue)
     | Serv_cell_cfg \<Rightarrow> (serv_cell_step env, [], ue))"

definition handle_outcome :: "proc_outcome_t \<times> pcch_event list \<times> ue_pcch \<Rightarrow> pcch_event list \<times> ue_pcch" where
  "handle_outcome r =
    (case r of (outcome, evs, ue) \<Rightarrow> (evs, if outcome = Proc_yield then ue else ue\<lparr>pp_on_going := False\<rparr>))"

text \<open>\<open>launch\<close> with \<open>init\<close>, \<open>trigger\<close> with \<open>react\<close>, and \<open>run\<close>.\<close>

definition pcch_launch :: "pcch_env \<Rightarrow> paging \<Rightarrow> ue_pcch \<Rightarrow> pcch_event list \<times> ue_pcch" where
  "pcch_launch env p ue =
    (if pp_on_going ue then ([], ue)
     else handle_outcome (pcch_step env (ue\<lparr>pp_on_going := True, pp_paging := p, pp_idx := 0, pp_state := Next_record\<rparr>)))"

definition paging_completed :: "pcch_env \<Rightarrow> bool \<Rightarrow> ue_pcch \<Rightarrow> pcch_event list \<times> ue_pcch" where
  "paging_completed env outcome ue =
    (if \<not> pp_on_going ue then ([], ue)
     else handle_outcome
       (if pp_state ue \<noteq> Nas_paging then (Proc_yield, [], ue)
        else if \<not> outcome then (Proc_error, [], ue)
        else pcch_step env (ue\<lparr>pp_idx := pp_idx ue + 1, pp_state := Next_record\<rparr>)))"

definition pcch_run :: "pcch_env \<Rightarrow> ue_pcch \<Rightarrow> pcch_event list \<times> ue_pcch" where
  "pcch_run env ue = (if pp_on_going ue then handle_outcome (pcch_step env ue) else ([], ue))"

definition SRSLTE_MAX_BUFFER_SIZE_BITS :: nat where
  "SRSLTE_MAX_BUFFER_SIZE_BITS = 97896 + 1020"

text \<open>The octets of the PDU; a record list that is too long is cut.\<close>

definition process_pcch :: "pcch_env \<Rightarrow> bytes \<Rightarrow> ue_pcch \<Rightarrow> pcch_event list \<times> ue_pcch" where
  "process_pcch env pdu ue =
    (if length pdu = 0 \<or> SRSLTE_MAX_BUFFER_SIZE_BITS \<le> length pdu then ([], ue)
     else
       case pcch_msg_unpack (bit_ref_new pdu) of
         Inr (Pcch_c1 p, _) \<Rightarrow>
           if \<not> ue_identity_configured ue then ([], ue)
           else pcch_launch env (p\<lparr>paging_record_list := take ASN1_RRC_MAX_PAGE_REC (paging_record_list p)\<rparr>) ue
       | _ \<Rightarrow> ([], ue))"

section \<open>The UE\<close>

definition paged :: "pcch_env \<Rightarrow> ue_pcch \<Rightarrow> paging_record list \<Rightarrow> bool" where
  "paged env ue rs \<longleftrightarrow> (\<exists>r \<in> set rs. record_s_tmsi env r = ue_identity ue)"

lemma next_match_idle:
  "ue_idle ue \<Longrightarrow> snd (next_match env ue idx rs) = (if paged env ue rs then Some (ue_identity ue) else None)"
  by (induction rs arbitrary: idx) (auto simp: paged_def)

lemma next_match_connected: "\<not> ue_idle ue \<Longrightarrow> next_match env ue idx rs = (idx + length rs, None)"
  by (induction rs arbitrary: idx) auto

text \<open>A message that names the idle UE makes it call the NAS, once, with its own identity.\<close>

lemma process_pcch_idle:
  assumes "pcch_msg_unpack (bit_ref_new pdu) = Inr (Pcch_c1 p, b)" and "0 < length pdu" "length pdu < SRSLTE_MAX_BUFFER_SIZE_BITS"
    and "ue_identity_configured ue" "ue_idle ue" "\<not> pp_on_going ue"
    and "length (paging_record_list p) \<le> 16"
  shows "fst (process_pcch env pdu ue) =
    (if paged env ue (paging_record_list p) then [Ev_nas_paging (ue_identity ue)]
     else if sys_info_mod_present p then [Ev_reset_sibs, Ev_serv_cell_cfg] else [])"
proof -
  let ?ue = "ue\<lparr>pp_on_going := True, pp_paging := p, pp_idx := 0, pp_state := Next_record\<rparr>"
  have "p\<lparr>paging_record_list := take ASN1_RRC_MAX_PAGE_REC (paging_record_list p)\<rparr> = p"
    using assms(7) by (simp add: ASN1_RRC_MAX_PAGE_REC_def)
  then have "process_pcch env pdu ue = handle_outcome (pcch_step env ?ue)"
    using assms by (simp add: process_pcch_def pcch_launch_def)
  moreover have "snd (next_match env ?ue 0 (paging_record_list p))
      = (if paged env ue (paging_record_list p) then Some (ue_identity ue) else None)"
    using next_match_idle [of ?ue env 0 "paging_record_list p"] assms(5) by (simp add: paged_def)
  ultimately show ?thesis
    by (cases "next_match env ?ue 0 (paging_record_list p)") (auto simp: pcch_step_def handle_outcome_def Let_def)
qed

lemma make_paging_s_tmsi:
  "make_s_tmsi_t (paging_s_tmsi mmec m_tmsi) = \<lparr>tm_mmec = mmec ! 0, tm_m_tmsi = m_tmsi_of m_tmsi\<rparr>"
  by (simp add: make_s_tmsi_t_def paging_s_tmsi_def to_number_8 to_number_32 ucast_down_ucast_id is_down)

section \<open>From the core network to the UE\<close>

text \<open>The number of a ten bit string.\<close>

lemma to_number_10_less: "bs_ok 10 idx \<Longrightarrow> to_number idx < 1024"
proof -
  assume ok: "bs_ok 10 idx"
  have "length (bs_octets idx) = 2" using ok by (simp add: bs_ok_def ceil_frac_def)
  then obtain a b where ab: "bs_octets idx = [a, b]" by (auto simp: numeral_2_eq_2 length_Suc_conv)
  have b: "unat b < 4" using ok by (simp add: bs_ok_def ab)
  have upt: "[0..<2] = [0 :: nat, 1]" by code_simp
  have n: "to_number idx = scast (ucast a :: u32) + scast (push_bit 8 (ucast b) :: u32)"
    using ok by (simp add: to_number_def bs_ok_def ceil_frac_def ab upt)
  have a8: "unat (scast (ucast a :: u32) :: u64) < 256"
  proof -
    have "(scast (ucast a :: u32) :: u64) = ucast a"
      by (rule bit_word_eqI) (auto simp: bit_simps min_def dest: bit_imp_le_length)
    moreover have "unat (ucast a :: u64) < 2 ^ 8" by (rule unat_ucast_less) simp
    ultimately show ?thesis by simp
  qed
  have "b = 0 \<or> b = 1 \<or> b = 2 \<or> b = 3" using b by unat_arith
  then have b8: "unat (scast (push_bit 8 (ucast b) :: u32) :: u64) \<le> 768"
    by (elim disjE) simp_all
  show ?thesis unfolding n using a8 b8 by (subst word_less_nat_alt) (simp add: unat_word_ariths)
qed

lemma length_map_insert: "length (snd (map_insert k v m)) \<le> Suc (length m)"
  by (induction m) (auto simp: split_beta)

lemma run_delivers_record:
  assumes "pcch_cfg_ok cfg" and "paging_inv s" and "length (pending_paging s) \<le> 16"
    and "list_all (\<lambda>(key, u). paging_record_ok u) (pending_paging s)"
    and "paging_tti s \<notin> set (cycle_ttis cfg t0)" and "length payload = 1024" and "(key, r) \<in> set (pending_paging s)"
  obtains tx sp tti n pl p b where "paging_run cfg (cycle_ttis cfg t0) (s, payload) = Some (tx, sp)"
    and "(tti, n, pl) \<in> set tx" and "0 < n" and "length pl = 1024"
    and "pcch_msg_unpack (bit_ref_new (take (unat n + pad) pl)) = Inr (Pcch_c1 p, b)"
    and "r \<in> set (paging_record_list p)" and "length (paging_record_list p) \<le> 16"
proof -
  have all: "filter (due_in cfg (cycle_ttis cfg t0)) xs = xs" for xs using cycle_due [OF assms(1)] by simp
  obtain tx sp where run: "paging_run cfg (cycle_ttis cfg t0) (s, payload) = Some (tx, sp)"
      "mset (concat (map (etws_records pad) tx)) = mset (map snd (pending_paging s))"
      "\<forall>(t, n, pl) \<in> set tx. 0 < n \<and> length pl = 1024"
    using paging_run_due [OF assms(1,2,6,3,4) cycle_ttis_distinct(1) [OF assms(1)] assms(5)
        cycle_ttis_distinct(2) [OF assms(1)], of pad] unfolding all by blast
  have "r \<in> set (concat (map (etws_records pad) tx))"
    using assms(7) run(2) by (metis image_eqI mset_eq_setD set_map snd_conv)
  then obtain tti n pl where t: "(tti, n, pl) \<in> set tx" "r \<in> set (etws_records pad (tti, n, pl))" by auto
  then obtain p b where p: "pcch_msg_unpack (bit_ref_new (take (unat n + pad) pl)) = Inr (Pcch_c1 p, b)" "etws_ind_present p"
    by (cases "pcch_msg_unpack (bit_ref_new (take (unat n + pad) pl))")
      (auto simp: etws_records_def split: pcch_msg_type.splits if_splits)
  then have e: "etws_records pad (tti, n, pl) = paging_record_list p" by (simp add: etws_records_def)
  have "length (etws_records pad (tti, n, pl)) \<le> length (concat (map (etws_records pad) tx))"
    using t(1) by (auto simp: length_concat sum_list_map_remove1 [OF t(1)])
  also have "\<dots> = length (pending_paging s)" using mset_eq_length [OF run(2)] by simp
  finally show thesis using that [OF run(1) t(1) _ _ p(1)] t(1,2) run(3) assms(3) unfolding e by auto
qed


definition sample_ue :: ue_pcch where
  "sample_ue = \<lparr>ue_identity_configured = True, ue_identity = \<lparr>tm_mmec = 0x1A, tm_m_tmsi = 0xC0FFEE01\<rparr>, ue_idle = True,
     pp_on_going = False, pp_paging = paging_new, pp_idx = 0, pp_state = Next_record\<rparr>"

definition sample_env :: pcch_env where
  "sample_env = \<lparr>nas_paging = (\<lambda>_. True), cfg_launch = True, cfg_run = False, cfg_success = True,
     other_memory = (\<lambda>_. sample_s_tmsi)\<rparr>"

lemma sample_m_tmsi: "m_tmsi_of [0xC0, 0xFF, 0xEE, 0x01] = 0xC0FFEE01"
  by (simp add: m_tmsi_of_def upt_rec [of _ 4] upt_rec [of _ "Suc _"] numeral_3_eq_3)


lemma next_match_cong:
  "ue_identity u = ue_identity v \<Longrightarrow> ue_idle u = ue_idle v \<Longrightarrow> next_match env u i rs = next_match env v i rs"
  by (induction rs arbitrary: i) simp_all

text \<open>
  Claim C40. The ETWS indication does nothing in the UE: two PCCH messages that differ in it only have the same
  effects and leave the UE in the same state up to the stored message. A message with the indication and no more, as
  the standard has it for UEs in any state, starts nothing and leaves no procedure running.
\<close>

theorem ue_ignores_etws:
  assumes "pcch_msg_unpack (bit_ref_new pdu) = Inr (Pcch_c1 p, b)"
    and "pcch_msg_unpack (bit_ref_new pdu') = Inr (Pcch_c1 (p\<lparr>etws_ind_present := x\<rparr>), b')"
    and "length pdu = length pdu'"
  shows "fst (process_pcch env pdu' ue) = fst (process_pcch env pdu ue) \<and>
    (snd (process_pcch env pdu' ue))\<lparr>pp_paging := q\<rparr> = (snd (process_pcch env pdu ue))\<lparr>pp_paging := q\<rparr> \<and>
    (paging_record_list p = [] \<and> \<not> sys_info_mod_present p \<longrightarrow>
       fst (process_pcch env pdu' ue) = [] \<and> pp_on_going (snd (process_pcch env pdu' ue)) = pp_on_going ue)"
proof -
  let ?p = "p\<lparr>paging_record_list := take ASN1_RRC_MAX_PAGE_REC (paging_record_list p)\<rparr>"
  let ?p' = "p\<lparr>etws_ind_present := x, paging_record_list := take ASN1_RRC_MAX_PAGE_REC (paging_record_list p)\<rparr>"
  have nm: "next_match env (ue\<lparr>pp_on_going := True, pp_paging := pg, pp_idx := 0, pp_state := Next_record\<rparr>) = next_match env ue" for pg
    by (intro ext next_match_cong) simp_all
  obtain idx m where "next_match env ue 0 (paging_record_list ?p) = (idx, m)" by fastforce
  then have "fst (pcch_launch env ?p' ue) = fst (pcch_launch env ?p ue) \<and>
      (snd (pcch_launch env ?p' ue))\<lparr>pp_paging := q\<rparr> = (snd (pcch_launch env ?p ue))\<lparr>pp_paging := q\<rparr>"
    by (cases m) (simp_all add: pcch_launch_def pcch_step_def handle_outcome_def nm Let_def)
  moreover have "paging_record_list p = [] \<and> \<not> sys_info_mod_present p \<longrightarrow>
      fst (pcch_launch env ?p' ue) = [] \<and> pp_on_going (snd (pcch_launch env ?p' ue)) = pp_on_going ue"
    by (auto simp: pcch_launch_def pcch_step_def handle_outcome_def)
  ultimately show ?thesis using assms by (simp add: process_pcch_def)
qed

lemma etws_only_ok:
  "pcch_ok (Pcch_c1 (paging_new\<lparr>etws_ind_present := x\<rparr>))" "enc_pcch (Pcch_c1 (paging_new\<lparr>etws_ind_present := x\<rparr>)) =
    [False, False, False, x, False]"
  by (simp_all add: paging_ok_def paging_new_def enc_pcch_def enc_enum_def enc_paging_def eopt_def ceil_log2.simps [of 2])

lemma etws_only_unpack:
  "\<exists>b. pcch_msg_unpack (bit_ref_new [if x then 0x10 else 0]) = Inr (Pcch_c1 (paging_new\<lparr>etws_ind_present := x\<rparr>), b)"
proof -
  have upt: "[0..<8] = [0 :: nat, 1, 2, 3, 4, 5, 6, 7]" by code_simp
  have rep: "replicate 8 False = [False, False, False, False, False, False, False, False]" by code_simp
  have "ahead (bit_ref_new [if x then 0x10 else 0]) = enc_pcch (Pcch_c1 (paging_new\<lparr>etws_ind_present := x\<rparr>)) @ [False, False, False]"
    unfolding etws_only_ok(2) by (cases x) (simp_all add: ahead_def bit_ref_new_def distance_def mem_bits_Cons bits_of_8 upt rep)
  then obtain b where "pcch_msg_type_unpack (bit_ref_new [if x then 0x10 else 0]) = Inr (Pcch_c1 (paging_new\<lparr>etws_ind_present := x\<rparr>), b)"
    by (rule readsD [OF pcch.reads [OF etws_only_ok(1)] br_ok_new(1)])
  then show ?thesis by (simp add: pcch_msg_unpack_def)
qed

theorem ue_ignores_etws_witness:
  "fst (process_pcch sample_env [0x10] sample_ue) = fst (process_pcch sample_env [0] sample_ue) \<and>
    (snd (process_pcch sample_env [0x10] sample_ue))\<lparr>pp_paging := paging_new\<rparr> =
      (snd (process_pcch sample_env [0] sample_ue))\<lparr>pp_paging := paging_new\<rparr> \<and>
    fst (process_pcch sample_env [0x10] sample_ue) = [] \<and>
    pp_on_going (snd (process_pcch sample_env [0x10] sample_ue)) = pp_on_going sample_ue"
proof -
  obtain b where "pcch_msg_unpack (bit_ref_new [0x10]) = Inr (Pcch_c1 (paging_new\<lparr>etws_ind_present := True\<rparr>), b)"
    using etws_only_unpack [of True] by auto
  then have 1: "pcch_msg_unpack (bit_ref_new [0x10]) =
      Inr (Pcch_c1 (paging_new\<lparr>etws_ind_present := False\<rparr>\<lparr>etws_ind_present := True\<rparr>), b)" by simp
  obtain b' where 2: "pcch_msg_unpack (bit_ref_new [0]) = Inr (Pcch_c1 (paging_new\<lparr>etws_ind_present := False\<rparr>), b')"
    using etws_only_unpack [of False] by auto
  have 3: "paging_record_list (paging_new\<lparr>etws_ind_present := False\<rparr>) = []"
    "\<not> sys_info_mod_present (paging_new\<lparr>etws_ind_present := False\<rparr>)" by (simp_all add: paging_new_def)
  have "length [0 :: u8] = length [0x10 :: u8]" by simp
  from ue_ignores_etws [OF 2 1 this, of sample_env sample_ue paging_new] show ?thesis using 3 by argo
qed

end
