(* ===== verification/Rrc_Sib10.thy ===== *)
theory Rrc_Sib10
  imports Asn1_Codec Text
begin

text \<open>
  The ETWS primary notification, \<open>sib_type10_s\<close>: its packing in \<^verbatim>\<open>lib/src/asn1/rrc_asn1.cc\<close>, its
  configuration by \<open>parse_sib10\<close> of \<^verbatim>\<open>srsenb/src/enb_cfg_parser.cc\<close> with the fields and sections
  of \<^verbatim>\<open>srsenb/hdr/parser.h\<close>, and what reaches the air of the configured values.
\<close>

unbundle bit_operations_syntax

section \<open>Model\<close>

record sib_type10 =
  sib_ext :: bool
  sib_dummy_present :: bool
  sib_msg_id :: bitstring
  sib_serial_num :: bitstring
  sib_warning_type :: bytes
  sib_dummy :: bytes
  sib_late_non_crit_ext_present :: bool
  sib_late_non_crit_ext :: bytes

text \<open>\<open>set_sib10\<close> value-initialises the object in the choice buffer, which clears the octet strings.\<close>

definition sib10_new :: sib_type10 where
  "sib10_new = \<lparr>sib_ext = False, sib_dummy_present = False, sib_msg_id = bs_resize 16, sib_serial_num = bs_resize 16,
     sib_warning_type = replicate 2 0, sib_dummy = replicate 50 0, sib_late_non_crit_ext_present = False,
     sib_late_non_crit_ext = []\<rparr>"

definition sib10_pack :: "sib_type10 \<Rightarrow> bit_ref \<Rightarrow> packed" where
  "sib10_pack m b =
    pthen (pack_bool (sib_dummy_present m) (snd (pack_bool (sib_ext m) b))) (\<lambda>b.
    pthen (bitstring_pack 16 16 False False (sib_msg_id m) b) (\<lambda>b.
    pthen (bitstring_pack 16 16 False False (sib_serial_num m) b) (\<lambda>b.
    pthen (pack_octets (sib_warning_type m) b) (\<lambda>b.
    pthen (popt (sib_dummy_present m) (pack_octets (sib_dummy m)) b)
      (popt (sib_ext m) (\<lambda>b. pthen (pack_bool (sib_late_non_crit_ext_present m) b)
        (popt (sib_late_non_crit_ext_present m) (dyn_octstring_pack (sib_late_non_crit_ext m)))))))))"

text \<open>Reading fills an object \<open>s\<close>; the members that are absent keep what it holds.\<close>

definition sib10_ext_unpack :: "sib_type10 \<Rightarrow> bit_ref \<Rightarrow> (bool \<times> bytes) unpacked" where
  "sib10_ext_unpack s b = uthen (unpack_bool b) (\<lambda>p b.
     umap (\<lambda>l. (p, l)) (uopt p dyn_octstring_unpack (sib_late_non_crit_ext s) b))"

definition sib10_unpack :: "sib_type10 \<Rightarrow> bit_ref \<Rightarrow> sib_type10 unpacked" where
  "sib10_unpack s b =
    (case unpack_bit b of (_, ext, b) \<Rightarrow>
     uthen (unpack_bool b) (\<lambda>d b.
     uthen (bitstring_unpack 16 16 False False b) (\<lambda>i b.
     uthen (bitstring_unpack 16 16 False False b) (\<lambda>n b.
     uthen (unpack_octets 2 b) (\<lambda>w b.
     uthen (uopt d (unpack_octets 50) (sib_dummy s) b) (\<lambda>dd b.
     uthen (uopt ext (sib10_ext_unpack s) (sib_late_non_crit_ext_present s, sib_late_non_crit_ext s) b) (\<lambda>e b.
       Inr (\<lparr>sib_ext = ext, sib_dummy_present = d, sib_msg_id = i, sib_serial_num = n, sib_warning_type = w,
         sib_dummy = dd, sib_late_non_crit_ext_present = fst e, sib_late_non_crit_ext = snd e\<rparr>, b))))))))"

section \<open>Configuration\<close>

text \<open>
  \<open>fixed_octstring::from_string\<close>: a string that has not two digits for each octet is refused with a log message.
  \<open>strtoul(cstr, nullptr, 16)\<close> on two characters gives 0 where \<open>sscanf\<close> assigns nothing.
\<close>

definition strtoul16_2 :: "string \<Rightarrow> u8" where
  "strtoul16_2 s = (case sscanf_2hhx s of None \<Rightarrow> 0 | Some v \<Rightarrow> v)"

definition string_to_octstring :: "bytes \<Rightarrow> string \<Rightarrow> bytes" where
  "string_to_octstring ptr str =
    fill ((length str + 1) div 2) (\<lambda>i. i) (\<lambda>i. strtoul16_2 (take 2 (drop (2 * i) str))) ptr"

definition octstring_from_string :: "bytes \<Rightarrow> string \<Rightarrow> bytes" where
  "octstring_from_string octets hexstr =
    (if length hexstr \<noteq> 2 * length octets then octets else string_to_octstring octets hexstr)"

text \<open>
  libconfig is not part of the repository: a section is what its look-ups return, an \<open>unsigned\<close> or a string for the
  settings that exist with that type. A file is a map from section names, or \<open>None\<close> if it cannot be read.
\<close>

record libconfig_section =
  cfg_exists :: "string \<Rightarrow> bool"
  cfg_uint :: "string \<Rightarrow> u32 option"
  cfg_string :: "string \<Rightarrow> string option"

type_synonym libconfig_file = "(string \<Rightarrow> libconfig_section option) option"

text \<open>The fields of a section: \<open>field_asn1_bitstring_number\<close> and \<open>parser::field<std::string>\<close> with its flag.\<close>

definition parse_bitstring_number ::
  "nat \<Rightarrow> string \<Rightarrow> libconfig_section \<Rightarrow> bitstring \<Rightarrow> int \<times> bitstring" where
  "parse_bitstring_number N name root store =
    (if cfg_exists root name then
       (case cfg_uint root name of
          Some val \<Rightarrow> (0, from_number N N store (ucast val))
        | None \<Rightarrow> (-1, store))
     else (-1, store))"

definition parse_string_field ::
  "string \<Rightarrow> libconfig_section \<Rightarrow> string \<Rightarrow> int \<times> string \<times> bool" where
  "parse_string_field name root store =
    (if cfg_exists root name then
       (case cfg_string root name of Some val \<Rightarrow> (0, val, True) | None \<Rightarrow> (-1, store, True))
     else (0, store, False))"

text \<open>
  \<open>parse_sib10\<close>. The test of \<open>warning_type_enable\<close> comes before \<open>parse_section\<close> runs the fields: the flag is
  uninitialised there, \<open>enable0\<close>, and the string is still empty.
\<close>

definition parse_sib10_section :: "libconfig_section \<Rightarrow> sib_type10 \<Rightarrow> int \<times> sib_type10" where
  "parse_sib10_section root data =
    (let (r, s) = parse_bitstring_number 16 ''message_identifier'' root (sib_msg_id data);
         data = data\<lparr>sib_msg_id := s\<rparr>
     in if r \<noteq> 0 then (-1, data)
        else
          let (r, s) = parse_bitstring_number 16 ''serial_number'' root (sib_serial_num data);
              data = data\<lparr>sib_serial_num := s\<rparr>
          in if r \<noteq> 0 then (-1, data)
             else if fst (parse_string_field ''warning_type'' root []) \<noteq> 0 then (-1, data)
             else (0, data))"

definition parse_sib10 :: "bool \<Rightarrow> libconfig_file \<Rightarrow> sib_type10 \<Rightarrow> int \<times> sib_type10" where
  "parse_sib10 enable0 file data =
    (let data = data\<lparr>sib_dummy_present := True\<rparr>;
         warning_type_s = ([] :: string);
         data = (if enable0 then
                   let s = (if 48 < length warning_type_s then take 48 warning_type_s else warning_type_s)
                   in data\<lparr>sib_warning_type := octstring_from_string (sib_warning_type data) s\<rparr>
                 else data)
     in case file of
          None \<Rightarrow> (-1, data)
        | Some root \<Rightarrow>
            (case root ''sib10'' of
               None \<Rightarrow> (-1, data)
             | Some sec \<Rightarrow> parse_sib10_section sec data))"

section \<open>Encoding\<close>

definition enc_sib10 :: "sib_type10 \<Rightarrow> bool list" where
  "enc_sib10 m = sib_ext m # sib_dummy_present m # enc_bitstring (sib_msg_id m) @ enc_bitstring (sib_serial_num m) @
     mem_bits (sib_warning_type m) @ eopt (sib_dummy_present m) (mem_bits (sib_dummy m)) @
     eopt (sib_ext m) (sib_late_non_crit_ext_present m #
       eopt (sib_late_non_crit_ext_present m) (enc_dyn_octstring (sib_late_non_crit_ext m)))"

text \<open>\<open>sib10_ok s m\<close>: the values fit, and what is absent in \<open>m\<close> is as in the object that is filled.\<close>

definition sib10_ok :: "sib_type10 \<Rightarrow> sib_type10 \<Rightarrow> bool" where
  "sib10_ok s m \<longleftrightarrow> bs_ok 16 (sib_msg_id m) \<and> bs_ok 16 (sib_serial_num m) \<and> length (sib_warning_type m) = 2 \<and>
     (if sib_dummy_present m then length (sib_dummy m) = 50 else sib_dummy m = sib_dummy s) \<and>
     (\<not> sib_ext m \<longrightarrow> sib_late_non_crit_ext_present m = sib_late_non_crit_ext_present s) \<and>
     (if sib_ext m \<and> sib_late_non_crit_ext_present m then length (sib_late_non_crit_ext m) < 16384
      else sib_late_non_crit_ext m = sib_late_non_crit_ext s)"

interpretation sib10: per_codec sib10_pack "sib10_unpack s" enc_sib10 "sib10_ok s" for s
proof
  fix m assume ok: "sib10_ok s m"
  have "writes (\<lambda>b. pthen (pack_bool (sib_dummy_present m) b) (\<lambda>b.
      pthen (bitstring_pack 16 16 False False (sib_msg_id m) b) (\<lambda>b.
      pthen (bitstring_pack 16 16 False False (sib_serial_num m) b) (\<lambda>b.
      pthen (pack_octets (sib_warning_type m) b) (\<lambda>b.
      pthen (popt (sib_dummy_present m) (pack_octets (sib_dummy m)) b)
        (popt (sib_ext m) (\<lambda>b. pthen (pack_bool (sib_late_non_crit_ext_present m) b)
          (popt (sib_late_non_crit_ext_present m) (dyn_octstring_pack (sib_late_non_crit_ext m)))))))))) (tl (enc_sib10 m))"
    unfolding enc_sib10_def list.sel
    by (intro writes_bool_then writes_then writes_popt fixed_bitstring.writes octstring.writes [OF refl]
        dyn_octstring.writes) (use ok in \<open>simp_all add: sib10_ok_def\<close>)
  from writes_unchecked [OF writes_bool this, of "sib_ext m"]
  show "writes (sib10_pack m) (enc_sib10 m)"
    unfolding sib10_pack_def by (simp add: enc_sib10_def)
  have e: "reads (sib10_ext_unpack s) (sib_late_non_crit_ext_present m #
      eopt (sib_late_non_crit_ext_present m) (enc_dyn_octstring (sib_late_non_crit_ext m)))
      (sib_late_non_crit_ext_present m, sib_late_non_crit_ext m)" if "sib_ext m"
    unfolding sib10_ext_unpack_def
    by (intro reads_bool_then reads_umap reads_uopt dyn_octstring.reads)
      (use ok that in \<open>auto simp: sib10_ok_def\<close>)
  have o: "reads (unpack_octets 50) (mem_bits (sib_dummy m)) (sib_dummy m)" if "sib_dummy_present m"
    using octstring.reads [of "sib_dummy m" 50] ok that by (simp add: sib10_ok_def)
  show "reads (sib10_unpack s) (enc_sib10 m) m"
    unfolding sib10_unpack_def enc_sib10_def
    by (rule reads_bit_unchecked, intro reads_bool_then reads_then [OF fixed_bitstring.reads]
        reads_then [OF octstring.reads, of "sib_warning_type m"]
        reads_then [OF reads_uopt [where v = "sib_dummy m"]]
        reads_last [OF reads_uopt [where v = "(sib_late_non_crit_ext_present m, sib_late_non_crit_ext m)"]] o e)
      (use ok in \<open>auto simp: sib10_ok_def split: if_splits\<close>)
qed


section \<open>From the configuration to the air\<close>

lemma octstring_from_empty: "xs \<noteq> [] \<Longrightarrow> octstring_from_string xs [] = xs"
  by (simp add: octstring_from_string_def)

text \<open>What a successful \<open>parse_sib10\<close> has done.\<close>

lemma parse_sib10_ok:
  assumes "parse_sib10 enable0 file s = (0, m)" and "sib_warning_type s \<noteq> []"
  obtains root sec i n where "file = Some root" and "root ''sib10'' = Some sec"
    and "cfg_uint sec ''message_identifier'' = Some i" and "cfg_uint sec ''serial_number'' = Some n"
    and "m = s\<lparr>sib_dummy_present := True, sib_msg_id := from_number 16 16 (sib_msg_id s) (ucast i),
      sib_serial_num := from_number 16 16 (sib_serial_num s) (ucast n)\<rparr>"
proof -
  obtain root sec where f: "file = Some root" "root ''sib10'' = Some sec"
      "parse_sib10_section sec (s\<lparr>sib_dummy_present := True\<rparr>) = (0, m)"
    using assms by (auto simp: parse_sib10_def Let_def octstring_from_empty split: option.splits if_splits)
  from f(3) obtain i n where "cfg_uint sec ''message_identifier'' = Some i" "cfg_uint sec ''serial_number'' = Some n"
      "m = s\<lparr>sib_dummy_present := True, sib_msg_id := from_number 16 16 (sib_msg_id s) (ucast i),
        sib_serial_num := from_number 16 16 (sib_serial_num s) (ucast n)\<rparr>"
    unfolding parse_sib10_section_def Let_def parse_bitstring_number_def
    by (auto split: if_splits option.splits prod.splits)
  with f(1,2) show thesis by (rule that)
qed

text \<open>
  Claim C16. When the configuration of SIB10 is accepted and its two numbers have 16 bits, the block is packed and
  unpacked without loss: message identifier and serial number on the air are the configured ones. The warning type
  is 00 00 whatever the file says, because the string is converted before the file has been read, and 50 zero
  octets are sent for the absent security information.
\<close>

theorem sib10_broadcast:
  assumes p: "parse_sib10 enable0 (Some root) sib10_new = (0, m)" and sec: "root ''sib10'' = Some sec"
    and i: "cfg_uint sec ''message_identifier'' = Some i" "unat i < 2 ^ 16"
    and n: "cfg_uint sec ''serial_number'' = Some n" "unat n < 2 ^ 16"
    and mem: "57 \<le> length mem"
  shows "\<exists>b b'. sib10_pack m (bit_ref_new mem) = (SRSASN_SUCCESS, b) \<and>
    sib10_unpack sib10_new (bit_ref_new (br_mem b)) = Inr (m, b') \<and>
    enc_bitstring (sib_msg_id m) = bits_of 16 i \<and> enc_bitstring (sib_serial_num m) = bits_of 16 n \<and>
    sib_warning_type m = [0, 0] \<and> sib_dummy_present m \<and> sib_dummy m = replicate 50 0"
proof -
  have m: "m = sib10_new\<lparr>sib_dummy_present := True, sib_msg_id := from_number 16 16 (bs_resize 16) (ucast i),
      sib_serial_num := from_number 16 16 (bs_resize 16) (ucast n)\<rparr>"
    by (rule parse_sib10_ok [OF p]) (use sec i n in \<open>auto simp: sib10_new_def\<close>)
  have u: "unat (ucast w :: u64) < 2 ^ 16" "bits_of 16 (ucast w :: u64) = bits_of 16 w" if "unat w < 2 ^ 16" for w :: u32
    using that by (auto simp: unsigned_ucast_eq take_bit_nat_eq_self bit_simps intro!: bits_of_cong
        intro: le_less_trans [OF take_bit_nat_less_eq_self])
  note f = from_number_ok [OF _ _ u(1)]
  have ok: "sib10_ok sib10_new m" using f i n by (simp add: m sib10_ok_def sib10_new_def)
  have e: "enc_bitstring (sib_msg_id m) = bits_of 16 i" "enc_bitstring (sib_serial_num m) = bits_of 16 n"
    using f(2) i n u(2) by (simp_all add: m)
  have "length (enc_sib10 m) \<le> 8 * length mem"
    using mem by (simp add: enc_sib10_def e) (simp add: m sib10_new_def eopt_def)
  then obtain b b' where "sib10_pack m (bit_ref_new mem) = (SRSASN_SUCCESS, b)"
      "sib10_unpack sib10_new (bit_ref_new (br_mem b)) = Inr (m, b')"
    by (rule sib10.roundtrip [OF ok])
  moreover have "sib_warning_type m = [0, 0]" "sib_dummy_present m" "sib_dummy m = replicate 50 0"
    by (simp_all add: m sib10_new_def numeral_2_eq_2)
  ultimately show ?thesis using e by blast
qed

text \<open>A file that asks for an earthquake and tsunami warning with emergency user alert, 0580.\<close>

definition sample_sib10_section :: libconfig_section where
  "sample_sib10_section = \<lparr>cfg_exists = (\<lambda>name. True),
     cfg_uint = (\<lambda>name. if name = ''message_identifier'' then Some 0x1102 else if name = ''serial_number'' then Some 0x3000 else None),
     cfg_string = (\<lambda>name. if name = ''warning_type'' then Some ''0580'' else None)\<rparr>"

theorem sib10_broadcast_witness:
  "\<exists>m b b'. parse_sib10 True (Some [''sib10'' \<mapsto> sample_sib10_section]) sib10_new = (0, m) \<and>
    sib10_pack m (bit_ref_new (replicate 60 0)) = (SRSASN_SUCCESS, b) \<and>
    sib10_unpack sib10_new (bit_ref_new (br_mem b)) = Inr (m, b') \<and>
    enc_bitstring (sib_msg_id m) = bits_of 16 (0x1102 :: u32) \<and> sib_warning_type m = [0, 0]"
proof -
  obtain m where m: "parse_sib10 True (Some [''sib10'' \<mapsto> sample_sib10_section]) sib10_new = (0, m)"
    by (simp add: parse_sib10_def parse_sib10_section_def parse_bitstring_number_def parse_string_field_def
        sample_sib10_section_def Let_def)
  have i: "cfg_uint sample_sib10_section ''message_identifier'' = Some 0x1102"
    and n: "cfg_uint sample_sib10_section ''serial_number'' = Some 0x3000"
    by (simp_all add: sample_sib10_section_def)
  have "[''sib10'' \<mapsto> sample_sib10_section] ''sib10'' = Some sample_sib10_section" by simp
  from sib10_broadcast [OF m this i _ n, of "replicate 60 0"] m show ?thesis by auto
qed

end
