(* ===== verification/Rlc_Um_Pdu.thy ===== *)
theory Rlc_Um_Pdu
  imports Byte_Buffer
begin

unbundle bit_operations_syntax

text \<open>
  The data PDU of the RLC in unacknowledged mode: configuration and framing constants
  (\<^verbatim>\<open>lib/include/srslte/interfaces/rlc_interface_types.h\<close>, \<^verbatim>\<open>upper/rlc_common.h\<close>), header pack and
  unpack functions (\<^verbatim>\<open>lib/src/upper/rlc_um_lte.cc\<close>) and their round trip. A packet buffer is the list of
  its octets here: all that the RLC does to one is to take octets from its front, to append, and to put a header before.
\<close>

section \<open>Configuration\<close>

datatype rlc_umd_sn_size = size5bits | size10bits | sn_size_nulltype

record rlc_um_config =
  t_reordering :: u32
  tx_sn_field_length :: rlc_umd_sn_size
  rx_sn_field_length :: rlc_umd_sn_size
  rx_window_size :: u32
  rx_mod :: u32
  tx_mod :: u32
  is_mrb :: bool

record rlc_config =
  rc_um :: rlc_um_config
  tx_queue_length :: u32

definition RLC_TX_QUEUE_LEN :: u32 where
  "RLC_TX_QUEUE_LEN = 256"

definition rlc_config_empty :: rlc_config where
  "rlc_config_empty = \<lparr>rc_um = \<lparr>t_reordering = 0, tx_sn_field_length = size5bits, rx_sn_field_length = size5bits,
     rx_window_size = 0, rx_mod = 0, tx_mod = 0, is_mrb = False\<rparr>, tx_queue_length = RLC_TX_QUEUE_LEN\<rparr>"

definition mch_config :: rlc_config where
  "mch_config = \<lparr>rc_um = \<lparr>t_reordering = 45, tx_sn_field_length = size5bits, rx_sn_field_length = size5bits,
     rx_window_size = 16, rx_mod = 32, tx_mod = 32, is_mrb = True\<rparr>, tx_queue_length = 1024\<rparr>"

definition default_rlc_um_config :: "u32 \<Rightarrow> rlc_config" where
  "default_rlc_um_config sn_size =
    (let cnfg = rlc_config_empty in
     if sn_size = 10 then cnfg\<lparr>rc_um := \<lparr>t_reordering = 5, tx_sn_field_length = size10bits,
       rx_sn_field_length = size10bits, rx_window_size = 512, rx_mod = 1024, tx_mod = 1024, is_mrb = False\<rparr>\<rparr>
     else if sn_size = 5 then cnfg\<lparr>rc_um := \<lparr>t_reordering = 5, tx_sn_field_length = size5bits,
       rx_sn_field_length = size5bits, rx_window_size = 16, rx_mod = 32, tx_mod = 32, is_mrb = False\<rparr>\<rparr>
     else rlc_config_empty)"

text \<open>
  The UM part of the conversion from the RRC message; its parameters are the timer value and the two SN lengths that the
  message holds.
\<close>

definition make_rlc_um_config :: "u32 \<Rightarrow> rlc_umd_sn_size \<Rightarrow> rlc_umd_sn_size \<Rightarrow> rlc_config" where
  "make_rlc_um_config t_reord rx_len tx_len = rlc_config_empty\<lparr>rc_um :=
    \<lparr>t_reordering = t_reord, tx_sn_field_length = tx_len, rx_sn_field_length = rx_len,
     rx_window_size = (if rx_len = size5bits then 16 else 512), rx_mod = (if rx_len = size5bits then 32 else 1024),
     tx_mod = (if tx_len = size5bits then 32 else 1024), is_mrb = False\<rparr>\<rparr>"

section \<open>The header\<close>

definition RLC_AM_WINDOW_SIZE :: nat where
  "RLC_AM_WINDOW_SIZE = 512"

definition RLC_MAX_SDU_SIZE :: nat where
  "RLC_MAX_SDU_SIZE = 2 ^ 11 - 1"

definition RLC_FI_FIELD_START_AND_END_ALIGNED :: u8 where "RLC_FI_FIELD_START_AND_END_ALIGNED = 0"
definition RLC_FI_FIELD_NOT_END_ALIGNED :: u8 where "RLC_FI_FIELD_NOT_END_ALIGNED = 1"
definition RLC_FI_FIELD_NOT_START_ALIGNED :: u8 where "RLC_FI_FIELD_NOT_START_ALIGNED = 2"

lemmas fi_defs = RLC_FI_FIELD_START_AND_END_ALIGNED_def RLC_FI_FIELD_NOT_END_ALIGNED_def
  RLC_FI_FIELD_NOT_START_ALIGNED_def

text \<open>The array \<open>li\<close> with its counter \<open>N_li\<close> is a list; it has room for \<open>RLC_AM_WINDOW_SIZE\<close> elements.\<close>

record rlc_umd_pdu_header =
  h_fi :: u8
  h_sn_size :: rlc_umd_sn_size
  h_sn :: u16
  h_li :: "u16 list"

definition rlc_um_start_aligned :: "u8 \<Rightarrow> bool" where
  "rlc_um_start_aligned f \<longleftrightarrow> f = RLC_FI_FIELD_START_AND_END_ALIGNED \<or> f = RLC_FI_FIELD_NOT_END_ALIGNED"

definition rlc_um_end_aligned :: "u8 \<Rightarrow> bool" where
  "rlc_um_end_aligned f \<longleftrightarrow> f = RLC_FI_FIELD_START_AND_END_ALIGNED \<or> f = RLC_FI_FIELD_NOT_START_ALIGNED"

text \<open>\<open>N_li * 1.5 + 0.5\<close>, rounded down by the conversion to an integer.\<close>

definition ext_length :: "nat \<Rightarrow> nat" where
  "ext_length n = (3 * n + 1) div 2"

definition rlc_um_packed_length :: "rlc_umd_pdu_header \<Rightarrow> nat" where
  "rlc_um_packed_length h = (if h_sn_size h = size5bits then 1 else 2) + ext_length (length (h_li h))"

text \<open>Two length indicators fill three octets; a last single one fills two, four bits of which are padding.\<close>

fun write_li :: "u16 list \<Rightarrow> bytes" where
  "write_li [] = []"
| "write_li [a] = [ucast (drop_bit 4 (a AND 0x7F0)), ucast (push_bit 4 (a AND 0x00F))]"
| "write_li (a # b # ls) =
    [0x80 OR ucast (drop_bit 4 (a AND 0x7F0)),
     ucast (push_bit 4 (a AND 0x00F)) OR (if ls = [] then 0 else 0x08) OR ucast (drop_bit 8 (b AND 0x700)),
     ucast (b AND 0x0FF)] @ write_li ls"

definition rlc_um_write_data_pdu_header :: "rlc_umd_pdu_header \<Rightarrow> bytes \<Rightarrow> bytes" where
  "rlc_um_write_data_pdu_header h pdu =
    (let ext = (if 0 < length (h_li h) then 1 else 0 :: u8);
         fixed = (if h_sn_size h = size5bits
           then [push_bit 6 (h_fi h AND 3) OR push_bit 5 (ext AND 1) OR ucast (h_sn h AND 0x1F)]
           else [push_bit 3 (h_fi h AND 3) OR push_bit 2 (ext AND 1) OR ucast (drop_bit 8 (h_sn h AND 0x300)),
                 ucast (h_sn h AND 0xFF)])
     in fixed @ write_li (h_li h) @ pdu)"

text \<open>
  The loop over the extension part, entered with an even number \<open>n\<close> of length indicators. \<open>None\<close> is a read behind the
  end of the payload or a write behind the end of the array.
\<close>

fun read_li :: "nat \<Rightarrow> bytes \<Rightarrow> u16 list option" where
  "read_li n (p0 # p1 # ps) =
    (if RLC_AM_WINDOW_SIZE \<le> n then None else
     let a = push_bit 4 (ucast (p0 AND 0x7F)) OR ucast (drop_bit 4 (p1 AND 0xF0)) in
     if drop_bit 7 p0 AND 1 = 0 then Some [a]
     else if RLC_AM_WINDOW_SIZE \<le> n + 1 then None
     else (case ps of
        [] \<Rightarrow> None
      | p2 # ps \<Rightarrow>
         let b = push_bit 8 (ucast (p1 AND 0x07)) OR ucast (p2 AND 0xFF) in
         if drop_bit 3 p1 AND 1 = 0 then Some [a, b]
         else map_option (\<lambda>ls. a # b # ls) (read_li (n + 2) ps)))"
| "read_li n _ = None"

definition rlc_um_read_data_pdu_header :: "bytes \<Rightarrow> rlc_umd_sn_size \<Rightarrow> rlc_umd_pdu_header option" where
  "rlc_um_read_data_pdu_header payload sz =
    (if sz = size5bits then
       (case payload of
          p0 # ps \<Rightarrow>
            let h = \<lparr>h_fi = drop_bit 6 p0 AND 3, h_sn_size = sz, h_sn = ucast (p0 AND 0x1F), h_li = []\<rparr> in
            if drop_bit 5 p0 AND 1 = 0 then Some h else map_option (\<lambda>ls. h\<lparr>h_li := ls\<rparr>) (read_li 0 ps)
        | [] \<Rightarrow> None)
     else
       (case payload of
          p0 # p1 # ps \<Rightarrow>
            let h = \<lparr>h_fi = drop_bit 3 p0 AND 3, h_sn_size = sz,
                     h_sn = push_bit 8 (ucast (p0 AND 3)) OR ucast (p1 AND 0xFF), h_li = []\<rparr> in
            if drop_bit 2 p0 AND 1 = 0 then Some h else map_option (\<lambda>ls. h\<lparr>h_li := ls\<rparr>) (read_li 0 ps)
        | _ \<Rightarrow> None))"

section \<open>Round trip\<close>

lemma length_write_li [simp]: "length (write_li ls) = ext_length (length ls)"
  by (induction ls rule: write_li.induct) (simp_all add: ext_length_def)

lemma length_write_header: "length (rlc_um_write_data_pdu_header h pdu) = rlc_um_packed_length h + length pdu"
  by (simp add: rlc_um_write_data_pdu_header_def rlc_um_packed_length_def Let_def)

lemma drop_write_header: "drop (rlc_um_packed_length h) (rlc_um_write_data_pdu_header h pdu) = pdu"
  by (simp add: rlc_um_write_data_pdu_header_def rlc_um_packed_length_def Let_def)

lemma li_masks:
  "(0x7F0 :: u16) = push_bit 4 (mask 7)" "(0x700 :: u16) = push_bit 8 (mask 3)" "(0x300 :: u16) = push_bit 8 (mask 2)"
  "(0xF0 :: u8) = push_bit 4 (mask 4)"
  "(0x1F :: 'a::len word) = mask 5" "(0x7F :: 'a word) = mask 7" "(7 :: 'a word) = mask 3"
  "(0xF :: 'a word) = mask 4" "(3 :: 'a word) = mask 2" "(0xFF :: 'a word) = mask 8" "(1 :: 'a word) = mask 1"
  by (simp_all add: mask_eq_exp_minus_1 push_bit_eq_mult)

lemma u16_below: "a < 2048 \<Longrightarrow> bit (a :: u16) k \<Longrightarrow> k < 11"
proof -
  assume "a < 2048" "bit a k"
  then have "take_bit 11 a = a" by (simp add: take_bit_eq_mod word_mod_less_divisor word_less_nat_alt word_arith_nat_mod)
  then show "k < 11" using \<open>bit a k\<close> by (metis bit_take_bit_iff)
qed

lemma and_1_zero: "(x AND 1 = 0) = (\<not> bit (x :: 'a::len word) 0)"
  by (metis and_one_eq bit_0 even_iff_mod_2_eq_zero)

lemma bit_flags: "bit (0x80 :: u8) k \<longleftrightarrow> k = 7" "bit (8 :: u8) k \<longleftrightarrow> k = 3"
proof -
  have e: "(0x80 :: u8) = 2 ^ 7" "(8 :: u8) = 2 ^ 3" by simp_all
  show "bit (0x80 :: u8) k \<longleftrightarrow> k = 7" "bit (8 :: u8) k \<longleftrightarrow> k = 3"
    unfolding e by (auto simp: bit_exp_iff simp del: power_numeral)
qed

lemma u16_ge: "a < 2048 \<Longrightarrow> 11 \<le> k \<Longrightarrow> \<not> bit (a :: u16) k"
  using u16_below not_le by blast

lemma li_first:
  fixes a :: u16 and e r :: u8
  assumes "a < 2048" "\<forall>k < 7. \<not> bit e k" "\<forall>k \<ge> 4. \<not> bit r k"
  shows "push_bit 4 (ucast ((e OR ucast (drop_bit 4 (a AND 0x7F0))) AND 0x7F))
     OR ucast (drop_bit 4 ((ucast (push_bit 4 (a AND 0x00F)) OR r) AND 0xF0)) = a"
proof (rule bit_word_eqI)
  fix k assume k: "k < LENGTH(16)"
  show "bit (push_bit 4 (ucast ((e OR ucast (drop_bit 4 (a AND 0x7F0))) AND 0x7F))
     OR ucast (drop_bit 4 ((ucast (push_bit 4 (a AND 0x00F)) OR r) AND 0xF0)) :: u16) k = bit a k"
  proof (cases "k < 4")
    case True
    then show ?thesis unfolding li_masks using assms(3) by (simp add: bit_simps)
  next
    case False
    then obtain j where j: "k = 4 + j" using le_Suc_ex not_less by blast
    have "bit a (4 + j) \<Longrightarrow> j < 7" using u16_below [OF assms(1)] by fastforce
    then show ?thesis unfolding li_masks j using k assms(2) by (auto simp: bit_simps j)
  qed
qed

lemma li_second:
  fixes b :: u16 and r :: u8
  assumes "b < 2048" "\<forall>k < 3. \<not> bit r k"
  shows "push_bit 8 (ucast ((r OR ucast (drop_bit 8 (b AND 0x700))) AND 0x07)) OR ucast ((ucast (b AND 0x0FF) :: u8) AND 0xFF)
    = b"
proof (rule bit_word_eqI)
  fix k assume k: "k < LENGTH(16)"
  show "bit (push_bit 8 (ucast ((r OR ucast (drop_bit 8 (b AND 0x700))) AND 0x07))
      OR ucast ((ucast (b AND 0x0FF) :: u8) AND 0xFF) :: u16) k = bit b k"
  proof (cases "k < 8")
    case True
    then show ?thesis unfolding li_masks by (simp add: bit_simps)
  next
    case False
    then obtain j where j: "k = 8 + j" using le_Suc_ex not_less by blast
    have "bit b (8 + j) \<Longrightarrow> j < 3" using u16_below [OF assms(1)] by fastforce
    then show ?thesis unfolding li_masks j using k assms(2) by (auto simp: bit_simps j)
  qed
qed

lemma ext_bits:
  "drop_bit 7 (0x80 OR ucast (drop_bit 4 (a AND 0x7F0)) :: u8) AND 1 \<noteq> 0"
  "drop_bit 7 (ucast (drop_bit 4 ((a :: u16) AND 0x7F0)) :: u8) AND 1 = 0"
  "drop_bit 3 (ucast (push_bit 4 (a AND 0x00F)) OR c OR ucast (drop_bit 8 ((b :: u16) AND 0x700)) :: u8) AND 1 = 0
     \<longleftrightarrow> \<not> bit c 3"
  unfolding and_1_zero
  unfolding li_masks
  by (auto simp: bit_simps bit_flags simp del: push_bit_Suc bit_0)

lemma low_nibble:
  "\<forall>k \<ge> 4. \<not> bit ((if t then 0 else 8) OR ucast (drop_bit 8 ((b :: u16) AND 0x700)) :: u8) k"
  "\<forall>k \<ge> 4. \<not> bit (0 :: u8) k" "\<forall>k < 7. \<not> bit (0x80 :: u8) k" "\<forall>k < 7. \<not> bit (0 :: u8) k"
  "\<forall>k < 3. \<not> bit (ucast (push_bit 4 ((a :: u16) AND 0x00F)) OR (if t then 0 else 8) :: u8) k"
proof -
  have f: "bit (if t then 0 else 8 :: u8) k \<longleftrightarrow> \<not> t \<and> k = 3" for k
    by (cases t) (simp_all only: if_True if_False bit_0_eq bot_apply bot_bool_def bit_flags simp_thms)
  show "\<forall>k \<ge> 4. \<not> bit ((if t then 0 else 8) OR ucast (drop_bit 8 (b AND 0x700)) :: u8) k"
    unfolding li_masks bit_or_iff f by (auto simp: bit_simps)
  show "\<forall>k < 3. \<not> bit (ucast (push_bit 4 (a AND 0x00F)) OR (if t then 0 else 8) :: u8) k"
    unfolding li_masks bit_or_iff f by (auto simp: bit_simps)
qed (simp_all only: bit_flags bit_0_eq bot_apply bot_bool_def, simp_all)

lemma read_write_li:
  "ls \<noteq> [] \<Longrightarrow> (\<And>l. l \<in> set ls \<Longrightarrow> l < 2048) \<Longrightarrow> n + length ls \<le> RLC_AM_WINDOW_SIZE \<Longrightarrow> even n \<Longrightarrow>
   read_li n (write_li ls @ pdu) = Some ls"
proof (induction ls arbitrary: n rule: write_li.induct)
  case (2 a)
  have n: "\<not> RLC_AM_WINDOW_SIZE \<le> n" using "2.prems"(3) by simp
  have a: "a < 2048" using "2.prems"(2) by simp
  from li_first [OF a low_nibble(4) low_nibble(2)]
  show ?case unfolding write_li.simps append.simps read_li.simps if_not_P [OF n] Let_def if_P [OF ext_bits(2)]
    by simp
next
  case (3 a b ls)
  have n: "\<not> RLC_AM_WINDOW_SIZE \<le> n" "\<not> RLC_AM_WINDOW_SIZE \<le> n + 1" using "3.prems"(3) by simp_all
  have ab: "a < 2048" "b < 2048" using "3.prems"(2) by simp_all
  have c: "bit (if ls = [] then 0 else 8 :: u8) 3 \<longleftrightarrow> ls \<noteq> []" by (simp add: bit_flags)
  have IH: "read_li (n + 2) (write_li ls @ pdu) = Some ls" if "ls \<noteq> []"
    using "3.IH" [OF that] "3.prems" by simp
  note e = li_second [OF ab(2) low_nibble(5), unfolded or.assoc] li_first [OF ab(1) low_nibble(3) low_nibble(1)]
  show ?case
    unfolding write_li.simps append.simps read_li.simps if_not_P [OF n(1)] if_not_P [OF n(2)] Let_def list.case
      if_not_P [OF ext_bits(1)] ext_bits(3) c e
    by (cases "ls = []") (simp_all only: if_True if_False IH simp_thms not_False_eq_True refl option.map)
qed simp

definition header_ok :: "rlc_umd_pdu_header \<Rightarrow> bool" where
  "header_ok h \<longleftrightarrow> h_fi h < 4 \<and> h_sn h < (if h_sn_size h = size5bits then 32 else 1024) \<and>
    (\<forall>l \<in> set (h_li h). l < 2048) \<and> length (h_li h) \<le> RLC_AM_WINDOW_SIZE"

lemma below_bits: "a < 2 ^ n \<Longrightarrow> n < LENGTH('a) \<Longrightarrow> bit (a :: 'a::len word) k \<Longrightarrow> k < n"
proof -
  assume "a < 2 ^ n" "n < LENGTH('a)" "bit a k"
  then have "a = a AND mask n" using less_mask_eq by metis
  then show "k < n" using \<open>bit a k\<close> by (metis bit_and_iff bit_mask_iff)
qed

lemma fixed5:
  fixes f e :: u8 and s :: u16
  assumes "f < 4" "s < 32"
  shows "drop_bit 6 (push_bit 6 (f AND 3) OR push_bit 5 (e AND 1) OR ucast (s AND 0x1F)) AND 3 = f"
    "drop_bit 5 (push_bit 6 (f AND 3) OR push_bit 5 (e AND 1) OR ucast (s AND 0x1F)) AND 1 = 0 \<longleftrightarrow> \<not> bit e 0"
    "ucast ((push_bit 6 (f AND 3) OR push_bit 5 (e AND 1) OR ucast (s AND 0x1F)) AND 0x1F) = s"
proof -
  have f: "bit f k \<Longrightarrow> k < 2" for k using below_bits [of f 2 k] assms(1) by simp
  have s: "bit s k \<Longrightarrow> k < 5" for k using below_bits [of s 5 k] assms(2) by simp
  show "drop_bit 6 (push_bit 6 (f AND 3) OR push_bit 5 (e AND 1) OR ucast (s AND 0x1F)) AND 3 = f"
    unfolding li_masks
    by (rule bit_word_eqI) (auto simp: bit_simps simp del: push_bit_Suc dest: f)
  show "drop_bit 5 (push_bit 6 (f AND 3) OR push_bit 5 (e AND 1) OR ucast (s AND 0x1F)) AND 1 = 0 \<longleftrightarrow> \<not> bit e 0"
    unfolding and_1_zero unfolding li_masks by (simp add: bit_simps del: push_bit_Suc bit_0)
  show "ucast ((push_bit 6 (f AND 3) OR push_bit 5 (e AND 1) OR ucast (s AND 0x1F)) AND 0x1F) = s"
    unfolding li_masks
    by (rule bit_word_eqI) (auto simp: bit_simps simp del: push_bit_Suc dest: s)
qed

lemma fixed10:
  fixes f e :: u8 and s :: u16
  assumes "f < 4" "s < 1024"
  shows "drop_bit 3 (push_bit 3 (f AND 3) OR push_bit 2 (e AND 1) OR ucast (drop_bit 8 (s AND 0x300))) AND 3 = f"
    "drop_bit 2 (push_bit 3 (f AND 3) OR push_bit 2 (e AND 1) OR ucast (drop_bit 8 (s AND 0x300))) AND 1 = 0
       \<longleftrightarrow> \<not> bit e 0"
    "push_bit 8 (ucast ((push_bit 3 (f AND 3) OR push_bit 2 (e AND 1) OR ucast (drop_bit 8 (s AND 0x300))) AND 3))
       OR ucast ((ucast (s AND 0xFF) :: u8) AND 0xFF) = s"
proof -
  have f: "bit f k \<Longrightarrow> k < 2" for k using below_bits [of f 2 k] assms(1) by simp
  have s: "bit s k \<Longrightarrow> k < 10" for k using below_bits [of s 10 k] assms(2) by simp
  show "drop_bit 3 (push_bit 3 (f AND 3) OR push_bit 2 (e AND 1) OR ucast (drop_bit 8 (s AND 0x300))) AND 3 = f"
    unfolding li_masks
    by (rule bit_word_eqI) (auto simp: bit_simps simp del: push_bit_Suc dest: f)
  show "drop_bit 2 (push_bit 3 (f AND 3) OR push_bit 2 (e AND 1) OR ucast (drop_bit 8 (s AND 0x300))) AND 1 = 0
      \<longleftrightarrow> \<not> bit e 0"
    unfolding and_1_zero unfolding li_masks by (simp add: bit_simps del: push_bit_Suc bit_0)
  show "push_bit 8 (ucast ((push_bit 3 (f AND 3) OR push_bit 2 (e AND 1) OR ucast (drop_bit 8 (s AND 0x300))) AND 3))
      OR ucast ((ucast (s AND 0xFF) :: u8) AND 0xFF) = s"
  proof (rule bit_word_eqI)
    fix k assume k: "k < LENGTH(16)"
    show "bit (push_bit 8 (ucast ((push_bit 3 (f AND 3) OR push_bit 2 (e AND 1) OR ucast (drop_bit 8 (s AND 0x300))) AND 3))
      OR ucast ((ucast (s AND 0xFF) :: u8) AND 0xFF) :: u16) k = bit s k"
    proof (cases "k < 8")
      case True
      then show ?thesis unfolding li_masks by (simp add: bit_simps)
    next
      case False
      then obtain j where j: "k = 8 + j" using le_Suc_ex not_less by blast
      have "bit s (8 + j) \<Longrightarrow> j < 2" using s [of "8 + j"] by simp
      then show ?thesis unfolding li_masks j using k by (auto simp: bit_simps j)
    qed
  qed
qed

lemma read_write_header:
  assumes "header_ok h"
  shows "rlc_um_read_data_pdu_header (rlc_um_write_data_pdu_header h pdu) (h_sn_size h) = Some h"
proof -
  have ok: "h_fi h < 4" "\<And>l. l \<in> set (h_li h) \<Longrightarrow> l < 2048" "0 + length (h_li h) \<le> RLC_AM_WINDOW_SIZE"
    using assms by (auto simp: header_ok_def)
  have li: "read_li 0 (write_li (h_li h) @ pdu) = Some (h_li h)" if "h_li h \<noteq> []"
    by (rule read_write_li [OF that ok(2,3)]) simp_all
  have e: "bit (if 0 < length (h_li h) then 1 else 0 :: u8) 0 \<longleftrightarrow> h_li h \<noteq> []" by simp
  show ?thesis
  proof (cases "h_sn_size h = size5bits")
    case True
    then have sn: "h_sn h < 32" using assms by (simp add: header_ok_def)
    show ?thesis
      unfolding rlc_um_read_data_pdu_header_def rlc_um_write_data_pdu_header_def Let_def if_P [OF True] append.simps
        list.case fixed5 [OF ok(1) sn] e
      using li True by (cases "h_li h = []") simp_all
  next
    case False
    then have sn: "h_sn h < 1024" using assms by (simp add: header_ok_def)
    show ?thesis
      unfolding rlc_um_read_data_pdu_header_def rlc_um_write_data_pdu_header_def Let_def if_not_P [OF False] append.simps
        list.case fixed10 [OF ok(1) sn] e
      using li False by (cases "h_li h = []") simp_all
  qed
qed

section \<open>Reading what was written\<close>

lemma write_li_masked: "write_li (map (\<lambda>l. l AND 0x7FF) ls) = write_li ls"
proof (induction ls rule: write_li.induct)
  case (3 a b ls)
  then show ?case by (simp add: and.assoc)
qed (simp_all add: and.assoc)

text \<open>
  Claim C27. The header is read back from the octets written, and its packed length is where the payload starts. Of each
  length indicator 11 bits are kept, so a header whose length indicators are below 2048 is read back unchanged.
\<close>

theorem um_header_round_trip:
  assumes "h_fi h < 4" and "h_sn h < (if h_sn_size h = size5bits then 32 else 1024)" and "length (h_li h) \<le> RLC_AM_WINDOW_SIZE"
  shows "rlc_um_read_data_pdu_header (rlc_um_write_data_pdu_header h pdu) (h_sn_size h)
      = Some (h\<lparr>h_li := map (\<lambda>l. l AND 0x7FF) (h_li h)\<rparr>) \<and>
    drop (rlc_um_packed_length h) (rlc_um_write_data_pdu_header h pdu) = pdu"
proof -
  let ?h = "h\<lparr>h_li := map (\<lambda>l. l AND 0x7FF) (h_li h)\<rparr>"
  have m: "l AND 0x7FF < 2048" for l :: u16
    using word_and_le1 [of l "0x7FF"] by (rule order.strict_trans1) simp
  then have "header_ok ?h" using assms by (auto simp: header_ok_def)
  moreover have "rlc_um_write_data_pdu_header ?h pdu = rlc_um_write_data_pdu_header h pdu"
    by (cases h) (simp add: rlc_um_write_data_pdu_header_def write_li_masked)
  ultimately show ?thesis
    using read_write_header [of ?h pdu] drop_write_header [of h pdu] by simp
qed

theorem um_header_round_trip_witness:
  "rlc_um_read_data_pdu_header (rlc_um_write_data_pdu_header \<lparr>h_fi = 3, h_sn_size = size10bits, h_sn = 700, h_li = [5, 2049, 9]\<rparr> [1])
     size10bits = Some \<lparr>h_fi = 3, h_sn_size = size10bits, h_sn = 700, h_li = [5, 1, 9]\<rparr>"
  using um_header_round_trip [of "\<lparr>h_fi = 3, h_sn_size = size10bits, h_sn = 700, h_li = [5, 2049, 9]\<rparr>" "[1]"]
  by (simp add: RLC_AM_WINDOW_SIZE_def)

end
