(* ===== verification/Rlc_Um_Tx.thy ===== *)
theory Rlc_Um_Tx
  imports Rlc_Um_Pdu
begin

unbundle bit_operations_syntax

text \<open>
  The transmitter of the RLC in unacknowledged mode: the queue of SDUs (\<^verbatim>\<open>byte_buffer_queue.h\<close> over
  \<^verbatim>\<open>block_queue.h\<close>), the common part of \<^verbatim>\<open>rlc_um_base.cc\<close> and the LTE part of
  \<^verbatim>\<open>rlc_um_lte.cc\<close>. The lemmas say how a PDU cuts the pending octets into segments.
\<close>

section \<open>The queue\<close>

text \<open>A capacity of at most zero means that the queue is not bounded.\<close>

record byte_buffer_queue =
  bq_q :: "bytes list"
  bq_capacity :: int
  bq_unread_bytes :: u32

definition bq_new :: byte_buffer_queue where
  "bq_new = \<lparr>bq_q = [], bq_capacity = 128, bq_unread_bytes = 0\<rparr>"

definition bq_resize :: "u32 \<Rightarrow> byte_buffer_queue \<Rightarrow> byte_buffer_queue" where
  "bq_resize capacity q = q\<lparr>bq_capacity := sint capacity\<rparr>"

definition check_queue_space :: "byte_buffer_queue \<Rightarrow> bool" where
  "check_queue_space q \<longleftrightarrow> \<not> (0 < bq_capacity q \<and> nat (bq_capacity q) \<le> length (bq_q q))"

definition bq_is_full :: "byte_buffer_queue \<Rightarrow> bool" where
  "bq_is_full q \<longleftrightarrow> \<not> check_queue_space q"

definition bq_is_empty :: "byte_buffer_queue \<Rightarrow> bool" where
  "bq_is_empty q \<longleftrightarrow> bq_q q = []"

definition bq_pushing :: "bytes \<Rightarrow> byte_buffer_queue \<Rightarrow> byte_buffer_queue" where
  "bq_pushing msg q = q\<lparr>bq_unread_bytes := bq_unread_bytes q + of_nat (length msg)\<rparr>"

definition bq_popping :: "bytes \<Rightarrow> byte_buffer_queue \<Rightarrow> byte_buffer_queue" where
  "bq_popping msg q = q\<lparr>bq_unread_bytes :=
     (if of_nat (length msg) < bq_unread_bytes q then bq_unread_bytes q - of_nat (length msg) else 0)\<rparr>"

definition bq_try_write :: "bytes \<Rightarrow> byte_buffer_queue \<Rightarrow> bool \<times> byte_buffer_queue" where
  "bq_try_write msg q =
    (if check_queue_space q then (let q = bq_pushing msg q in (True, q\<lparr>bq_q := bq_q q @ [msg]\<rparr>)) else (False, q))"

text \<open>\<open>read\<close> on an empty queue would wait; the callers look at the size before.\<close>

definition bq_read :: "byte_buffer_queue \<Rightarrow> (bytes \<times> byte_buffer_queue) option" where
  "bq_read q = (case bq_q q of [] \<Rightarrow> None | m # ms \<Rightarrow> Some (m, (bq_popping m q)\<lparr>bq_q := ms\<rparr>))"

section \<open>The transmitter\<close>

record rlc_um_lte_tx =
  tx_cfg :: rlc_config
  tx_sdu_queue :: byte_buffer_queue
  tx_sdu :: "bytes option"
  vt_us :: u32

definition rlc_um_lte_tx_new :: rlc_um_lte_tx where
  "rlc_um_lte_tx_new = \<lparr>tx_cfg = rlc_config_empty, tx_sdu_queue = bq_new, tx_sdu = None, vt_us = 0\<rparr>"

definition tx_configure :: "rlc_config \<Rightarrow> rlc_um_lte_tx \<Rightarrow> bool \<times> rlc_um_lte_tx" where
  "tx_configure cnfg t =
    (let t = t\<lparr>tx_cfg := cnfg\<rparr> in
     if tx_mod (rc_um cnfg) = 0 then (False, t)
     else (True, t\<lparr>tx_sdu_queue := bq_resize (tx_queue_length cnfg) (tx_sdu_queue t)\<rparr>))"

text \<open>The loop that reads until the queue is empty.\<close>

function drain :: "byte_buffer_queue \<Rightarrow> byte_buffer_queue" where
  "drain q = (case bq_read q of None \<Rightarrow> q | Some (_, q) \<Rightarrow> drain q)"
  by auto
termination
  by (relation "measure (\<lambda>q. length (bq_q q))") (auto simp: bq_read_def split: list.splits)

definition tx_empty_queue :: "rlc_um_lte_tx \<Rightarrow> rlc_um_lte_tx" where
  "tx_empty_queue t =
    t\<lparr>tx_sdu_queue := drain (tx_sdu_queue t), tx_sdu := None\<rparr>"

definition tx_reset :: "rlc_um_lte_tx \<Rightarrow> rlc_um_lte_tx" where
  "tx_reset t = t\<lparr>vt_us := 0\<rparr>"

definition tx_stop :: "rlc_um_lte_tx \<Rightarrow> rlc_um_lte_tx" where
  "tx_stop t = tx_reset (tx_empty_queue t)"

definition tx_has_data :: "rlc_um_lte_tx \<Rightarrow> bool" where
  "tx_has_data t \<longleftrightarrow> tx_sdu t \<noteq> None \<or> \<not> bq_is_empty (tx_sdu_queue t)"

definition tx_try_write_sdu :: "bytes ptr \<Rightarrow> rlc_um_lte_tx \<Rightarrow> bool \<times> rlc_um_lte_tx" where
  "tx_try_write_sdu sdu t =
    (case sdu of
       Some s \<Rightarrow> (case bq_try_write s (tx_sdu_queue t) of (ret, q) \<Rightarrow> (ret, t\<lparr>tx_sdu_queue := q\<rparr>))
     | None \<Rightarrow> (False, t))"

definition tx_get_buffer_state :: "rlc_um_lte_tx \<Rightarrow> u32" where
  "tx_get_buffer_state t =
    (let n_sdus = length (bq_q (tx_sdu_queue t)) + (if tx_sdu t = None then 0 else 1);
         n_bytes = bq_unread_bytes (tx_sdu_queue t) + (case tx_sdu t of None \<Rightarrow> 0 | Some s \<Rightarrow> of_nat (length s));
         n_bytes = (if 1 < n_sdus then n_bytes + of_nat (ext_length (n_sdus - 1)) else n_bytes)
     in if 0 < n_bytes then n_bytes + (if is_mrb (rc_um (tx_cfg t)) then 2 else 3) else n_bytes)"

text \<open>The room behind \<open>msg\<close> in a fresh buffer; \<open>None\<close> is a write behind the end of the array.\<close>

definition buffer_room :: nat where
  "buffer_room = MAX_BUFFER_SIZE_BYTES - BUFFER_HEADER_OFFSET"

definition append_octets :: "bytes \<Rightarrow> bytes \<Rightarrow> bytes option" where
  "append_octets buf x = (if length buf + length x \<le> buffer_room then Some (buf @ x) else None)"

definition push_li :: "nat \<Rightarrow> rlc_umd_pdu_header \<Rightarrow> rlc_umd_pdu_header option" where
  "push_li n h = (if length (h_li h) < RLC_AM_WINDOW_SIZE then Some (h\<lparr>h_li := h_li h @ [of_nat n]\<rparr>) else None)"

text \<open>What is left of an SDU after \<open>to_move\<close> of its octets.\<close>

definition sdu_rest :: "nat \<Rightarrow> bytes \<Rightarrow> bytes option" where
  "sdu_rest to_move s = (if length s - to_move = 0 then None else Some (drop to_move s))"

text \<open>
  The loop \<open>Pull SDUs from queue\<close>. The sizes are below the buffer size and the differences are not negative: the
  first test leaves \<open>head_len + 2\<close> octets, and one more length indicator makes the header at most two octets longer.
\<close>

function pull_sdus ::
  "nat \<Rightarrow> nat \<Rightarrow> nat \<Rightarrow> rlc_umd_pdu_header \<Rightarrow> bytes \<Rightarrow> bytes option \<Rightarrow> byte_buffer_queue \<Rightarrow>
   (rlc_umd_pdu_header \<times> bytes \<times> bytes option \<times> byte_buffer_queue) option" where
  "pull_sdus pdu_space head_len last_li header pdu sdu q =
    (if head_len + 1 < pdu_space \<and> 0 < length (bq_q q) then
       Option.bind (if 0 < last_li then push_li last_li header else Some header) (\<lambda>header.
       let head_len = rlc_um_packed_length header;
           space = pdu_space - head_len in
       if space = 0 then Some (header\<lparr>h_li := butlast (h_li header)\<rparr>, pdu, sdu, q)
       else
         Option.bind (bq_read q) (\<lambda>(s, q).
         let to_move = (if length s \<le> space then length s else space) in
         Option.bind (append_octets pdu (take to_move s)) (\<lambda>pdu.
         pull_sdus (pdu_space - to_move) head_len to_move header pdu (sdu_rest to_move s) q)))
     else Some (header, pdu, sdu, q))"
  by auto
termination
  by (relation "measure (\<lambda>(_, _, _, _, _, _, q). length (bq_q q))") (auto simp: bq_read_def split: list.splits)

text \<open>The part before the loop that continues with an SDU of which a segment was sent, and the part behind the loop.\<close>

definition tx_sdu_segment ::
  "rlc_umd_pdu_header \<Rightarrow> nat \<Rightarrow> nat \<Rightarrow> bytes option \<Rightarrow> (rlc_umd_pdu_header \<times> bytes \<times> bytes option \<times> nat \<times> nat) option" where
  "tx_sdu_segment header head_len pdu_space sdu =
    (case sdu of
       None \<Rightarrow> Some (header, [], None, 0, pdu_space)
     | Some s \<Rightarrow>
         let space = pdu_space - head_len;
             to_move = (if length s \<le> space then length s else space) in
         Option.bind (append_octets [] (take to_move s)) (\<lambda>pdu.
         Some (header\<lparr>h_fi := h_fi header OR RLC_FI_FIELD_NOT_START_ALIGNED\<rparr>, pdu, sdu_rest to_move s, to_move,
               pdu_space - min to_move (buffer_room - length pdu))))"

definition tx_finish_pdu ::
  "rlc_umd_pdu_header \<Rightarrow> bytes \<Rightarrow> bytes option \<Rightarrow> byte_buffer_queue \<Rightarrow> rlc_um_lte_tx \<Rightarrow> bytes \<times> rlc_um_lte_tx" where
  "tx_finish_pdu header pdu sdu q t =
    (let header = (if sdu = None then header else header\<lparr>h_fi := h_fi header OR RLC_FI_FIELD_NOT_END_ALIGNED\<rparr>);
         header = header\<lparr>h_sn := ucast (vt_us t)\<rparr>;
         t = t\<lparr>tx_sdu := sdu, tx_sdu_queue := q, vt_us := (vt_us t + 1) mod tx_mod (rc_um (tx_cfg t))\<rparr>
     in (rlc_um_write_data_pdu_header header pdu, t))"

definition tx_build_data_pdu_lte :: "u32 \<Rightarrow> rlc_um_lte_tx \<Rightarrow> (bytes \<times> rlc_um_lte_tx) option" where
  "tx_build_data_pdu_lte nof_bytes t =
    (let header = \<lparr>h_fi = RLC_FI_FIELD_START_AND_END_ALIGNED, h_sn_size = tx_sn_field_length (rc_um (tx_cfg t)),
                   h_sn = ucast (vt_us t), h_li = []\<rparr>;
         head_len = rlc_um_packed_length header;
         pdu_space = min (unat nof_bytes) buffer_room in
     if pdu_space \<le> head_len + 1 then Some ([], t)
     else
       Option.bind (tx_sdu_segment header head_len pdu_space (tx_sdu t)) (\<lambda>(header, pdu, sdu, last_li, pdu_space).
       Option.bind (pull_sdus pdu_space head_len last_li header pdu sdu (tx_sdu_queue t)) (\<lambda>(header, pdu, sdu, q).
       Some (tx_finish_pdu header pdu sdu q t))))"

definition tx_build_data_pdu :: "u32 \<Rightarrow> rlc_um_lte_tx \<Rightarrow> (bytes \<times> rlc_um_lte_tx) option" where
  "tx_build_data_pdu nof_bytes t =
    (if tx_sdu t = None \<and> bq_is_empty (tx_sdu_queue t) then Some ([], t) else tx_build_data_pdu_lte nof_bytes t)"

declare pull_sdus.simps [simp del] drain.simps [simp del]

section \<open>How a PDU cuts the pending octets\<close>

lemma buffer_room: "buffer_room = 12237"
  by (simp add: buffer_room_def BUFFER_HEADER_OFFSET_def)

text \<open>\<open>cut ps pend r rest\<close>: the segments \<open>ps\<close> are taken from the front of \<open>pend\<close>, whole SDUs but for the last, of which \<open>r\<close> is left.\<close>

inductive cut :: "bytes list \<Rightarrow> bytes list \<Rightarrow> bytes \<Rightarrow> bytes list \<Rightarrow> bool" where
  cut_last: "p \<noteq> [] \<Longrightarrow> cut [p] ((p @ r) # q) r q"
| cut_more: "p \<noteq> [] \<Longrightarrow> cut ps q r q' \<Longrightarrow> cut (p # ps) (p # q) r q'"

inductive_simps cut_Cons: "cut (p # ps) pend r q'"
inductive_simps cut_Nil [simp]: "cut [] pend r q'"

definition opt_rest :: "bytes \<Rightarrow> bytes option" where
  "opt_rest r = (if r = [] then None else Some r)"

lemma sdu_rest: "sdu_rest n s = opt_rest (drop n s)"
  by (simp add: sdu_rest_def opt_rest_def)

lemma cut_segments: "cut ps pend r q' \<Longrightarrow> ps \<noteq> [] \<and> [] \<notin> set ps"
  by (induction rule: cut.induct) auto

lemma cut_lengths: "cut ps pend r q' \<Longrightarrow> length pend = length ps + length q' \<and> length (concat pend) = length (concat ps) + length r + length (concat q')"
  by (induction rule: cut.induct) auto

lemma cut_rest: "cut ps pend r q' \<Longrightarrow> set q' \<subseteq> set pend"
  by (induction rule: cut.induct) auto

lemma cut_small: "cut ps pend r q' \<Longrightarrow> \<forall>s \<in> set pend. length s \<le> n \<Longrightarrow> length r \<le> n \<and> (\<forall>p \<in> set ps. length p \<le> n)"
  by (induction rule: cut.induct) auto

definition bq_ok :: "byte_buffer_queue \<Rightarrow> bool" where
  "bq_ok q \<longleftrightarrow> unat (bq_unread_bytes q) = length (concat (bq_q q))"

lemma bq_read_Cons:
  assumes "bq_q q = s # ss"
  obtains q' where "bq_read q = Some (s, q')" "bq_q q' = ss" "bq_capacity q' = bq_capacity q" "bq_ok q \<Longrightarrow> bq_ok q'"
proof
  let ?q = "(bq_popping s q)\<lparr>bq_q := ss\<rparr>"
  show "bq_read q = Some (s, ?q)" by (simp add: bq_read_def assms)
  show "bq_ok ?q" if "bq_ok q"
  proof -
    have u: "unat (bq_unread_bytes q) = length s + length (concat ss)" using that by (simp add: bq_ok_def assms)
    then have "length s < 2 ^ 32" using unat_u32_less [of "bq_unread_bytes q"] by linarith
    then have l: "unat (of_nat (length s) :: u32) = length s" by (simp add: unsigned_of_nat take_bit_nat_eq_self)
    show ?thesis
      using u by (auto simp: bq_ok_def bq_popping_def word_less_nat_alt l unat_sub word_le_nat_alt)
  qed
qed (simp_all add: bq_popping_def)

lemma ext_length_Suc: "ext_length (Suc n) \<le> ext_length n + 2" "ext_length n \<le> ext_length (Suc n)"
proof -
  have "ext_length (Suc n) \<le> (3 * n + 1 + 4) div 2" unfolding ext_length_def by (intro div_le_mono) simp
  also have "\<dots> = ext_length n + 2" unfolding ext_length_def by presburger
  finally show "ext_length (Suc n) \<le> ext_length n + 2" .
  show "ext_length n \<le> ext_length (Suc n)" unfolding ext_length_def by (intro div_le_mono) simp
qed

definition with_li :: "nat \<Rightarrow> rlc_umd_pdu_header \<Rightarrow> rlc_umd_pdu_header" where
  "with_li n h = (if 0 < n then h\<lparr>h_li := h_li h @ [of_nat n]\<rparr> else h)"

lemma with_li_length: "rlc_um_packed_length (with_li n h) \<le> rlc_um_packed_length h + 2"
  using ext_length_Suc(1) [of "length (h_li h)"] by (simp add: with_li_def rlc_um_packed_length_def)

lemma pull_step:
  assumes "head_len = rlc_um_packed_length h" "head_len + 1 < pdu_space" "length pdu + pdu_space \<le> buffer_room"
    "length (h_li h) < RLC_AM_WINDOW_SIZE" "bq_q q = s # ss" "s \<noteq> []"
  obtains (full) "0 < last_li" "pull_sdus pdu_space head_len last_li h pdu sdu q = Some (h, pdu, sdu, q)"
  | (move) m q1 where "0 < m" "m \<le> length s" "rlc_um_packed_length (with_li last_li h) \<le> pdu_space - m" "m \<le> pdu_space"
      "m < length s \<Longrightarrow> pdu_space - m = rlc_um_packed_length (with_li last_li h)"
      "bq_q q1 = ss" "bq_capacity q1 = bq_capacity q" "bq_ok q \<Longrightarrow> bq_ok q1"
      "pull_sdus pdu_space head_len last_li h pdu sdu q = pull_sdus (pdu_space - m) (rlc_um_packed_length (with_li last_li h)) m
         (with_li last_li h) (pdu @ take m s) (opt_rest (drop m s)) q1"
proof -
  define h' where "h' = with_li last_li h"
  define space where "space = pdu_space - rlc_um_packed_length h'"
  define m where "m = (if length s \<le> space then length s else space)"
  have h': "(if 0 < last_li then push_li last_li h else Some h) = Some h'"
    using assms(4) by (simp add: push_li_def h'_def with_li_def)
  have p2: "rlc_um_packed_length h' \<le> pdu_space"
    using with_li_length [of last_li h] assms(1,2) unfolding h'_def by linarith
  obtain q1 where q1: "bq_read q = Some (s, q1)" "bq_q q1 = ss" "bq_capacity q1 = bq_capacity q" "bq_ok q \<Longrightarrow> bq_ok q1"
    using bq_read_Cons [OF assms(5)] by blast
  show ?thesis
  proof (cases "space = 0")
    case True
    then have l: "0 < last_li" using assms(1,2) by (auto simp: space_def h'_def with_li_def split: if_splits)
    have "pull_sdus pdu_space head_len last_li h pdu sdu q = Some (h'\<lparr>h_li := butlast (h_li h')\<rparr>, pdu, sdu, q)"
      using assms(2,5) True unfolding pull_sdus.simps [of pdu_space head_len] h' by (simp add: Let_def space_def)
    also have "h'\<lparr>h_li := butlast (h_li h')\<rparr> = h" using l by (simp add: h'_def with_li_def)
    finally show ?thesis using full l by blast
  next
    case False
    have m: "0 < m" "m \<le> space" "m \<le> length s" using False assms(6) by (auto simp: m_def)
    have fits: "append_octets pdu (take m s) = Some (pdu @ take m s)"
      using m assms(3) unfolding append_octets_def space_def by simp
    have "pull_sdus pdu_space head_len last_li h pdu sdu q
        = pull_sdus (pdu_space - m) (rlc_um_packed_length h') m h' (pdu @ take m s) (opt_rest (drop m s)) q1"
      using assms(2,5) fits unfolding m_def
      by (cases "length s \<le> space") (simp_all add: pull_sdus.simps [of pdu_space head_len] h' Let_def
          space_def [symmetric] False q1(1) sdu_rest del: diff_is_0_eq diff_is_0_eq')
    then show ?thesis
      using m p2 q1(2-4) by (intro move [of m q1]) (auto simp: h'_def space_def m_def split: if_splits)
  qed
qed

text \<open>What the loop adds to a header, and the room the result takes.\<close>

definition pulled :: "nat \<Rightarrow> rlc_umd_pdu_header \<Rightarrow> bytes list \<Rightarrow> rlc_umd_pdu_header" where
  "pulled last_li h ps = (with_li last_li h)\<lparr>h_li := h_li (with_li last_li h) @ map (of_nat \<circ> length) (butlast ps)\<rparr>"

lemma pulled_single: "pulled n h [p] = with_li n h"
  by (simp add: pulled_def)

lemma pulled_Cons: "p \<noteq> [] \<Longrightarrow> ps \<noteq> [] \<Longrightarrow> pulled (length p) (with_li n h) ps = pulled n h (p # ps)"
  by (simp add: pulled_def with_li_def)

lemma pull_spec:
  assumes "head_len = rlc_um_packed_length h" "head_len \<le> pdu_space" "length pdu + pdu_space \<le> S" "S \<le> buffer_room"
    "length (h_li h) + length (bq_q q) \<le> RLC_AM_WINDOW_SIZE" "[] \<notin> set (bq_q q)"
  shows "pull_sdus pdu_space head_len last_li h pdu sdu q = Some (h, pdu, sdu, q) \<and>
       \<not> (head_len + 1 < pdu_space \<and> bq_q q \<noteq> [] \<and> last_li = 0) \<or>
     (\<exists>ps r q'. pull_sdus pdu_space head_len last_li h pdu sdu q = Some (pulled last_li h ps, pdu @ concat ps, opt_rest r, q') \<and>
        cut ps (bq_q q) r (bq_q q') \<and> rlc_um_packed_length (pulled last_li h ps) + length (pdu @ concat ps) \<le> S \<and>
        bq_capacity q' = bq_capacity q \<and> (bq_ok q \<longrightarrow> bq_ok q'))"
  using assms
proof (induction "length (bq_q q)" arbitrary: pdu_space head_len last_li h pdu sdu q)
  case 0
  then show ?case by (simp add: pull_sdus.simps)
next
  case (Suc n)
  then obtain s ss where q: "bq_q q = s # ss" by (cases "bq_q q") auto
  have s: "s \<noteq> []" "length (h_li h) < RLC_AM_WINDOW_SIZE" "length pdu + pdu_space \<le> buffer_room" using Suc.prems q by auto
  show ?case
  proof (cases "head_len + 1 < pdu_space")
    case False
    then show ?thesis by (simp add: pull_sdus.simps [of pdu_space head_len])
  next
    case True
    from Suc.prems(1) this s(3) s(2) q s(1) show ?thesis
    proof (cases rule: pull_step [where last_li = last_li and sdu = sdu])
      case full
      then show ?thesis by simp
    next
      case (move m q1)
      define p where "p = take m s"
      define h' where "h' = with_li last_li h"
      let ?rec = "pull_sdus (pdu_space - m) (rlc_um_packed_length h') m h' (pdu @ p) (opt_rest (drop m s)) q1"
      have lp: "m = length p" "p \<noteq> []" using move(1,2) by (auto simp: p_def)
      have step: "pull_sdus pdu_space head_len last_li h pdu sdu q = ?rec" using move(9) by (simp add: p_def h'_def)
      have pre: "rlc_um_packed_length h' \<le> pdu_space - m" "length (pdu @ p) + (pdu_space - m) \<le> S"
        "length (h_li h') + length (bq_q q1) \<le> RLC_AM_WINDOW_SIZE" "[] \<notin> set (bq_q q1)" "n = length (bq_q q1)"
        using move(3,4,6) Suc.prems(3,5,6) Suc.hyps(2) lp(1) q by (auto simp: h'_def with_li_def)
      have one: "cut [p] (bq_q q) (drop m s) (bq_q q1)"
        unfolding q move(6) using cut_last [of p "drop m s" ss] lp(2) by (simp add: p_def)
      from Suc.hyps(1) [OF pre(5) refl pre(1,2) Suc.prems(4) pre(3,4), where last_li = m and sdu = "opt_rest (drop m s)"]
      consider (stop) "?rec = Some (h', pdu @ p, opt_rest (drop m s), q1)"
        | (more) ps r q' where "?rec = Some (pulled m h' ps, (pdu @ p) @ concat ps, opt_rest r, q')" "cut ps (bq_q q1) r (bq_q q')"
          "rlc_um_packed_length (pulled m h' ps) + length ((pdu @ p) @ concat ps) \<le> S"
          "bq_capacity q' = bq_capacity q1" "bq_ok q1 \<longrightarrow> bq_ok q'" "pdu_space - m \<noteq> rlc_um_packed_length h'"
        using pull_sdus.simps [of "rlc_um_packed_length h'" "rlc_um_packed_length h'"]
        by (cases "pdu_space - m = rlc_um_packed_length h'") auto
      then show ?thesis
      proof cases
        case stop
        have "rlc_um_packed_length h' + length (pdu @ p) \<le> S" using pre(1,2) by linarith
        then show ?thesis unfolding step using stop one move(7,8)
          by (intro disjI2 exI [of _ "[p]"] exI [of _ "drop m s"] exI [of _ q1]) (simp add: pulled_single h'_def)
      next
        case more
        have r: "drop m s = []" using more(6) move(2,5) unfolding h'_def by (cases "m < length s") auto
        have ps: "ps \<noteq> []" using cut_segments [OF more(2)] by simp
        have "cut (p # ps) (bq_q q) r (bq_q q')"
          using cut_more [OF lp(2) more(2)] r unfolding q move(6) p_def by auto
        then show ?thesis unfolding step
          using more(1,3,4,5) pulled_Cons [OF lp(2) ps, of last_li h] lp(1) move(7,8)
          by (intro disjI2 exI [of _ "p # ps"] exI [of _ r] exI [of _ q']) (simp add: h'_def)
      qed
    qed
  qed
qed

definition tx_pending :: "rlc_um_lte_tx \<Rightarrow> bytes list" where
  "tx_pending t = (case tx_sdu t of None \<Rightarrow> [] | Some s \<Rightarrow> [s]) @ bq_q (tx_sdu_queue t)"

definition tx_ok :: "rlc_um_lte_tx \<Rightarrow> bool" where
  "tx_ok t \<longleftrightarrow> [] \<notin> set (tx_pending t) \<and> length (bq_q (tx_sdu_queue t)) \<le> RLC_AM_WINDOW_SIZE \<and> bq_ok (tx_sdu_queue t)"

definition fixed_length :: "rlc_um_lte_tx \<Rightarrow> nat" where
  "fixed_length t = (if tx_sn_field_length (rc_um (tx_cfg t)) = size5bits then 1 else 2)"

definition tx_header :: "rlc_um_lte_tx \<Rightarrow> bytes \<Rightarrow> bytes list \<Rightarrow> rlc_umd_pdu_header" where
  "tx_header t r ps = \<lparr>h_fi = (if tx_sdu t = None then 0 else 2) OR (if r = [] then 0 else 1),
     h_sn_size = tx_sn_field_length (rc_um (tx_cfg t)), h_sn = ucast (vt_us t), h_li = map (of_nat \<circ> length) (butlast ps)\<rparr>"

lemma fixed_header_length: "rlc_um_packed_length \<lparr>h_fi = f, h_sn_size = tx_sn_field_length (rc_um (tx_cfg t)), h_sn = n, h_li = []\<rparr>
    = fixed_length t"
  by (simp add: rlc_um_packed_length_def fixed_length_def ext_length_def)

lemma opt_rest_None: "opt_rest r = None \<longleftrightarrow> r = []"
  by (simp add: opt_rest_def)

text \<open>The remainder of an SDU and what follows it.\<close>

lemma first_segment:
  assumes s: "s \<noteq> []" "2 * length s \<le> buffer_room" and S: "S \<le> buffer_room" "head + 1 < S"
  obtains m where "m = (if length s \<le> S - head then length s else S - head)" "0 < m" "m \<le> length s" "m + head \<le> S"
    "append_octets [] (take m s) = Some (take m s)" "S - min m (buffer_room - length (take m s)) = S - m"
    "m < length s \<longrightarrow> S - m = head"
proof
  define m where "m = (if length s \<le> S - head then length s else S - head)"
  have l: "0 < length s" using s(1) by simp
  show "m = (if length s \<le> S - head then length s else S - head)" by (fact m_def)
  show "0 < m" "m \<le> length s" "m + head \<le> S" "m < length s \<longrightarrow> S - m = head" using S l by (auto simp: m_def)
  then show "append_octets [] (take m s) = Some (take m s)" "S - min m (buffer_room - length (take m s)) = S - m"
    using s(2) S by (auto simp: append_octets_def)
qed

text \<open>The header before the loop.\<close>

definition tx_header0 :: "rlc_um_lte_tx \<Rightarrow> rlc_umd_pdu_header" where
  "tx_header0 t = \<lparr>h_fi = (if tx_sdu t = None then 0 else 2), h_sn_size = tx_sn_field_length (rc_um (tx_cfg t)),
     h_sn = ucast (vt_us t), h_li = []\<rparr>"

lemma finish_spec:
  "tx_finish_pdu ((tx_header0 t)\<lparr>h_li := map (of_nat \<circ> length) (butlast ps)\<rparr>) pdu (opt_rest r) q t
    = (rlc_um_write_data_pdu_header (tx_header t r ps) pdu,
       t\<lparr>tx_sdu := opt_rest r, tx_sdu_queue := q, vt_us := (vt_us t + 1) mod tx_mod (rc_um (tx_cfg t))\<rparr>)"
  by (simp add: tx_finish_pdu_def tx_header0_def tx_header_def opt_rest_None fi_defs Let_def)

text \<open>The segment part and the loop together.\<close>

lemma fill_spec:
  assumes ok: "tx_ok t" and data: "tx_has_data t" and rem: "\<forall>s. tx_sdu t = Some s \<longrightarrow> 2 * length s \<le> buffer_room"
    and S: "fixed_length t + 1 < S" "S \<le> buffer_room"
    and h: "h = \<lparr>h_fi = RLC_FI_FIELD_START_AND_END_ALIGNED, h_sn_size = tx_sn_field_length (rc_um (tx_cfg t)),
       h_sn = ucast (vt_us t), h_li = []\<rparr>"
  obtains ps r q' where "cut ps (tx_pending t) r (bq_q q')" "bq_capacity q' = bq_capacity (tx_sdu_queue t)" "bq_ok q'"
    "rlc_um_packed_length ((tx_header0 t)\<lparr>h_li := map (of_nat \<circ> length) (butlast ps)\<rparr>) + length (concat ps) \<le> S"
    "Option.bind (tx_sdu_segment h (fixed_length t) S (tx_sdu t)) (\<lambda>(header, pdu, sdu, last_li, pdu_space).
       pull_sdus pdu_space (fixed_length t) last_li header pdu sdu (tx_sdu_queue t))
     = Some ((tx_header0 t)\<lparr>h_li := map (of_nat \<circ> length) (butlast ps)\<rparr>, concat ps, opt_rest r, q')"
proof -
  let ?q = "tx_sdu_queue t" and ?h = "tx_header0 t"
  have q: "length (h_li ?h) + length (bq_q ?q) \<le> RLC_AM_WINDOW_SIZE" "[] \<notin> set (bq_q ?q)" "bq_ok ?q"
    using ok by (auto simp: tx_ok_def tx_pending_def tx_header0_def)
  have hl: "fixed_length t = rlc_um_packed_length ?h" by (simp add: tx_header0_def fixed_header_length)
  have pulled: "pulled n ?h ps = ?h\<lparr>h_li := (if 0 < n then [of_nat n] else []) @ map (of_nat \<circ> length) (butlast ps)\<rparr>" for n ps
    by (simp add: pulled_def with_li_def tx_header0_def)
  show thesis
  proof (cases "tx_sdu t")
    case None
    have h': "h = ?h" using None by (simp add: h tx_header0_def fi_defs)
    have ne: "bq_q ?q \<noteq> []" using data None by (simp add: tx_has_data_def bq_is_empty_def)
    have pre: "fixed_length t \<le> S" "length ([] :: bytes) + S \<le> S" using S by auto
    from pull_spec [OF hl pre(1,2) S(2) q(1,2), where last_li = 0 and sdu = None] ne S(1)
    obtain ps r q' where "pull_sdus S (fixed_length t) 0 ?h [] None ?q = Some (pulled 0 ?h ps, concat ps, opt_rest r, q')"
      "cut ps (bq_q ?q) r (bq_q q')" "rlc_um_packed_length (pulled 0 ?h ps) + length (concat ps) \<le> S"
      "bq_capacity q' = bq_capacity ?q" "bq_ok ?q \<longrightarrow> bq_ok q'"
      by auto
    then show thesis using that [of ps r q'] None q(3)
      by (simp add: pulled h' tx_sdu_segment_def tx_pending_def)
  next
    case (Some s)
    have s: "s \<noteq> []" "2 * length s \<le> buffer_room" using ok rem Some by (auto simp: tx_ok_def tx_pending_def)
    have h': "h\<lparr>h_fi := h_fi h OR RLC_FI_FIELD_NOT_START_ALIGNED\<rparr> = ?h" using Some by (simp add: h tx_header0_def fi_defs)
    obtain m where m: "m = (if length s \<le> S - fixed_length t then length s else S - fixed_length t)" "0 < m" "m \<le> length s"
      "m + fixed_length t \<le> S" "append_octets [] (take m s) = Some (take m s)"
      "S - min m (buffer_room - length (take m s)) = S - m" "m < length s \<longrightarrow> S - m = fixed_length t"
      by (rule first_segment [OF s S(2,1)])
    define p where "p = take m s"
    have p: "p \<noteq> []" "length p = m" using m(2,3) by (auto simp: p_def)
    have sp: "p @ drop m s = s" by (simp add: p_def)
    have seg: "tx_sdu_segment h (fixed_length t) S (tx_sdu t) = Some (?h, p, opt_rest (drop m s), m, S - m)"
      by (simp add: Some tx_sdu_segment_def Let_def m(1) [symmetric] m(5,6) h' sdu_rest p_def del: length_take)
    have one: "cut [p] (tx_pending t) (drop m s) (bq_q ?q)"
      using cut_last [OF p(1), of "drop m s" "bq_q ?q"] Some sp by (simp add: tx_pending_def)
    have pre: "fixed_length t \<le> S - m" "length p + (S - m) \<le> S" using m(4) p(2) by auto
    from pull_spec [OF hl pre(1,2) S(2) q(1,2), where last_li = m and sdu = "opt_rest (drop m s)"]
    consider (stop) "pull_sdus (S - m) (fixed_length t) m ?h p (opt_rest (drop m s)) ?q = Some (?h, p, opt_rest (drop m s), ?q)"
      | (more) ps r q' where "pull_sdus (S - m) (fixed_length t) m ?h p (opt_rest (drop m s)) ?q
            = Some (pulled m ?h ps, p @ concat ps, opt_rest r, q')"
          "cut ps (bq_q ?q) r (bq_q q')" "rlc_um_packed_length (pulled m ?h ps) + length (p @ concat ps) \<le> S"
          "bq_capacity q' = bq_capacity ?q" "bq_ok ?q \<longrightarrow> bq_ok q'" "S - m \<noteq> fixed_length t"
      using pull_sdus.simps [of "fixed_length t" "fixed_length t"] by (cases "S - m = fixed_length t") auto
    then show thesis
    proof cases
      case stop
      have "rlc_um_packed_length ?h + length p \<le> S" using hl m(4) p(2) by simp
      then show thesis using that [of "[p]" "drop m s" ?q] stop one q(3) seg by (simp add: tx_header0_def)
    next
      case more
      have r: "drop m s = []" using more(6) m(3,7) by (cases "m < length s") auto
      have ps: "ps \<noteq> []" using cut_segments [OF more(2)] by simp
      have "cut (p # ps) (tx_pending t) r (bq_q q')"
        using cut_more [OF p(1) more(2)] r sp Some by (simp add: tx_pending_def)
      then show thesis using that [of "p # ps" r q'] more(1,3,4,5) q(3) seg m(2) p(2) ps by (simp add: pulled)
    qed
  qed
qed

lemma build_spec:
  assumes ok: "tx_ok t" and data: "tx_has_data t" and rem: "\<forall>s. tx_sdu t = Some s \<longrightarrow> 2 * length s \<le> buffer_room"
    and room: "fixed_length t + 1 < min (unat n) buffer_room"
  obtains ps r t' where "tx_build_data_pdu n t = Some (rlc_um_write_data_pdu_header (tx_header t r ps) (concat ps), t')"
    "cut ps (tx_pending t) r (bq_q (tx_sdu_queue t'))" "tx_sdu t' = opt_rest r" "tx_cfg t' = tx_cfg t"
    "vt_us t' = (vt_us t + 1) mod tx_mod (rc_um (tx_cfg t))" "bq_ok (tx_sdu_queue t')"
    "bq_capacity (tx_sdu_queue t') = bq_capacity (tx_sdu_queue t)"
    "length (rlc_um_write_data_pdu_header (tx_header t r ps) (concat ps)) \<le> min (unat n) buffer_room"
proof -
  define h where "h = \<lparr>h_fi = RLC_FI_FIELD_START_AND_END_ALIGNED, h_sn_size = tx_sn_field_length (rc_um (tx_cfg t)),
       h_sn = ucast (vt_us t) :: u16, h_li = []\<rparr>"
  obtain ps r q' where f: "cut ps (tx_pending t) r (bq_q q')" "bq_capacity q' = bq_capacity (tx_sdu_queue t)" "bq_ok q'"
    "rlc_um_packed_length ((tx_header0 t)\<lparr>h_li := map (of_nat \<circ> length) (butlast ps)\<rparr>) + length (concat ps)
       \<le> min (unat n) buffer_room"
    "Option.bind (tx_sdu_segment h (fixed_length t) (min (unat n) buffer_room) (tx_sdu t))
       (\<lambda>(header, pdu, sdu, last_li, pdu_space).
       pull_sdus pdu_space (fixed_length t) last_li header pdu sdu (tx_sdu_queue t))
     = Some ((tx_header0 t)\<lparr>h_li := map (of_nat \<circ> length) (butlast ps)\<rparr>, concat ps, opt_rest r, q')"
    by (rule fill_spec [OF ok data rem room _ h_def]) simp
  let ?t = "t\<lparr>tx_sdu := opt_rest r, tx_sdu_queue := q', vt_us := (vt_us t + 1) mod tx_mod (rc_um (tx_cfg t))\<rparr>"
  have ne: "\<not> (tx_sdu t = None \<and> bq_is_empty (tx_sdu_queue t))" using data by (simp add: tx_has_data_def)
  have hl: "rlc_um_packed_length h = fixed_length t" by (simp add: h_def fixed_header_length)
  have np: "\<not> min (unat n) buffer_room \<le> fixed_length t + 1" using room by linarith
  have "tx_build_data_pdu n t = Option.bind (Option.bind (tx_sdu_segment h (fixed_length t) (min (unat n) buffer_room) (tx_sdu t))
       (\<lambda>(header, pdu, sdu, last_li, pdu_space). pull_sdus pdu_space (fixed_length t) last_li header pdu sdu (tx_sdu_queue t)))
       (\<lambda>(header, pdu, sdu, q). Some (tx_finish_pdu header pdu sdu q t))"
    unfolding tx_build_data_pdu_def if_not_P [OF ne] tx_build_data_pdu_lte_def Let_def h_def [symmetric] hl if_not_P [OF np]
    by (cases "tx_sdu_segment h (fixed_length t) (min (unat n) buffer_room) (tx_sdu t)") auto
  also have "\<dots> = Some (rlc_um_write_data_pdu_header (tx_header t r ps) (concat ps), ?t)"
    unfolding f(5) by (simp add: finish_spec)
  finally show thesis
    using that [of r ps ?t] f(1-4)
    by (simp add: length_write_header tx_header_def tx_header0_def rlc_um_packed_length_def split: if_splits)
qed

end
