(* ===== verification/Rlc_Um_Rx.thy ===== *)
theory Rlc_Um_Rx
  imports Rlc_Um_Tx Std_Map "HOL-Library.Sublist"
begin

unbundle bit_operations_syntax

text \<open>
  The receiver of the RLC in unacknowledged mode (\<^verbatim>\<open>rlc_um_lte_rx\<close> of
  \<^verbatim>\<open>lib/src/upper/rlc_um_lte.cc\<close>): reordering window, reassembly and the reordering timer. A step returns
  the receiver and the SDUs it passes up. \<open>None\<close> is an access outside a buffer, the use of octets that are not of the
  PDU, or a loop that does not end.
\<close>

section \<open>The state\<close>

record rlc_umd_pdu =
  up_header :: rlc_umd_pdu_header
  up_buf :: bytes

datatype rlc_event = Pdcp_write_pdu u32 bytes | Pdcp_write_pdu_mch u32 bytes

text \<open>
  The timer is its running flag and whether a callback is set; the passing of time is a call of \<open>timer_trigger\<close>.
\<close>

record rlc_um_lte_rx =
  rx_cfg :: rlc_config
  rx_lcid :: u32
  rx_window :: "(u32, rlc_umd_pdu) std_map"
  rx_sdu :: "bytes option"
  vr_ur_in_rx_sdu :: u32
  vr_ur :: u32
  vr_ux :: u32
  vr_uh :: u32
  pdu_lost :: bool
  reordering_callback :: bool
  reordering_running :: bool

definition rlc_um_lte_rx_new :: "u32 \<Rightarrow> rlc_config \<Rightarrow> rlc_um_lte_rx" where
  "rlc_um_lte_rx_new lcid cfg = \<lparr>rx_cfg = cfg, rx_lcid = lcid, rx_window = [], rx_sdu = None, vr_ur_in_rx_sdu = 0,
     vr_ur = 0, vr_ux = 0, vr_uh = 0, pdu_lost = False, reordering_callback = False, reordering_running = False\<rparr>"

definition MAX_TIMER_DURATION :: int where
  "MAX_TIMER_DURATION = (2 ^ 32 - 1) div 4"

text \<open>\<open>set\<close> takes the callback when it takes the duration.\<close>

definition rx_configure :: "rlc_um_lte_rx \<Rightarrow> bool \<times> rlc_um_lte_rx" where
  "rx_configure r =
    (if rx_mod (rc_um (rx_cfg r)) = 0 then (False, r)
     else if 0 < sint (t_reordering (rc_um (rx_cfg r))) then
       (True, if sint (t_reordering (rc_um (rx_cfg r))) \<le> MAX_TIMER_DURATION then r\<lparr>reordering_callback := True\<rparr> else r)
     else (True, r))"

definition rx_reset :: "rlc_um_lte_rx \<Rightarrow> rlc_um_lte_rx" where
  "rx_reset r = r\<lparr>vr_ur := 0, vr_ux := 0, vr_uh := 0, pdu_lost := False, rx_sdu := None, rx_window := []\<rparr>"

definition rx_stop :: "rlc_um_lte_rx \<Rightarrow> rlc_um_lte_rx" where
  "rx_stop r = (rx_reset r)\<lparr>reordering_running := False\<rparr>"

abbreviation um_mod :: "rlc_um_lte_rx \<Rightarrow> u32" where
  "um_mod r \<equiv> rx_mod (rc_um (rx_cfg r))"

definition RX_MOD_BASE :: "rlc_um_lte_rx \<Rightarrow> u32 \<Rightarrow> u32" where
  "RX_MOD_BASE r x = (x - vr_uh r - rx_window_size (rc_um (rx_cfg r))) mod um_mod r"

definition inside_reordering_window :: "rlc_um_lte_rx \<Rightarrow> u16 \<Rightarrow> bool" where
  "inside_reordering_window r s \<longleftrightarrow>
    (if rx_window_size (rc_um (rx_cfg r)) = 0 \<or> rx_window r = [] then True
     else RX_MOD_BASE r (vr_uh r - rx_window_size (rc_um (rx_cfg r))) \<le> RX_MOD_BASE r (ucast s) \<and>
          RX_MOD_BASE r (ucast s) < RX_MOD_BASE r (vr_uh r))"

definition pdu_belongs_to_rx_sdu :: "rlc_um_lte_rx \<Rightarrow> bool" where
  "pdu_belongs_to_rx_sdu r \<longleftrightarrow> (vr_ur_in_rx_sdu r + 1) mod um_mod r = vr_ur r \<or> vr_ur r = vr_ur_in_rx_sdu r"

section \<open>Steps of the reassembly\<close>

definition sdu_octets :: "rlc_um_lte_rx \<Rightarrow> bytes" where
  "sdu_octets r = (case rx_sdu r of None \<Rightarrow> [] | Some s \<Rightarrow> s)"

definition clear_sdu :: "rlc_um_lte_rx \<Rightarrow> rlc_um_lte_rx" where
  "clear_sdu r = r\<lparr>rx_sdu := Some []\<rparr>"

text \<open>Passing the SDU up and taking a fresh buffer, which the pool always has.\<close>

definition deliver_sdu :: "rlc_um_lte_rx \<Rightarrow> rlc_um_lte_rx \<times> rlc_event list" where
  "deliver_sdu r =
    (clear_sdu r, [if is_mrb (rc_um (rx_cfg r)) then Pdcp_write_pdu_mch (rx_lcid r) (sdu_octets r)
                   else Pdcp_write_pdu (rx_lcid r) (sdu_octets r)])"

text \<open>Copying \<open>len\<close> octets of the PDU to the end of the SDU and moving on in the PDU.\<close>

definition copy_segment :: "nat \<Rightarrow> bytes \<Rightarrow> rlc_um_lte_rx \<Rightarrow> (rlc_um_lte_rx \<times> bytes) option" where
  "copy_segment len buf r =
    (if len \<le> length buf then
       map_option (\<lambda>s. (r\<lparr>rx_sdu := Some s\<rparr>, drop len buf)) (append_octets (sdu_octets r) (take len buf))
     else None)"

subsection \<open>Below the reordering window\<close>

text \<open>The loop over the segments; \<open>i\<close> is its counter.\<close>

fun lower_segments ::
  "u8 \<Rightarrow> u16 list \<Rightarrow> nat \<Rightarrow> bytes \<Rightarrow> rlc_um_lte_rx \<Rightarrow> (rlc_um_lte_rx \<times> bytes \<times> rlc_event list) option" where
  "lower_segments f [] i buf r = Some (r, buf, [])"
| "lower_segments f (l # ls) i buf r =
    (let len = unat l in
     if sdu_octets r = [] \<and> i = 0 \<and> \<not> rlc_um_start_aligned f then Some (clear_sdu r, drop len buf, [])
     else
       Option.bind (copy_segment len buf r) (\<lambda>(r, buf).
       let (r, ev) = (if pdu_lost r \<and> \<not> rlc_um_start_aligned f \<or> vr_ur r \<noteq> (vr_ur_in_rx_sdu r + 1) mod um_mod r
             then (clear_sdu r, []) else deliver_sdu r)
       in map_option (\<lambda>(r, buf, evs). (r, buf, ev @ evs)) (lower_segments f ls (Suc i) buf (r\<lparr>pdu_lost := False\<rparr>))))"

definition lower_last :: "u8 \<Rightarrow> bytes \<Rightarrow> rlc_um_lte_rx \<Rightarrow> (rlc_um_lte_rx \<times> rlc_event list) option" where
  "lower_last f buf r =
    (if sdu_octets r \<noteq> [] \<or> rlc_um_start_aligned f then
       Option.bind (copy_segment (length buf) buf r) (\<lambda>(r, _).
       let r = r\<lparr>vr_ur_in_rx_sdu := vr_ur r\<rparr> in
       if rlc_um_end_aligned f then
         (let (r, ev) = (if pdu_lost r \<and> \<not> rlc_um_start_aligned f then (clear_sdu r, []) else deliver_sdu r)
          in Some (r\<lparr>pdu_lost := False\<rparr>, ev))
       else Some (r, []))
     else Some (r, []))"

definition lower_pdu :: "rlc_umd_pdu \<Rightarrow> rlc_um_lte_rx \<Rightarrow> (rlc_um_lte_rx \<times> rlc_event list) option" where
  "lower_pdu pdu r =
    Option.bind (lower_segments (h_fi (up_header pdu)) (h_li (up_header pdu)) 0 (up_buf pdu) r) (\<lambda>(r, buf, ev).
    Option.bind (lower_last (h_fi (up_header pdu)) buf r) (\<lambda>(r, ev').
    Some (r\<lparr>rx_window := map_erase (vr_ur r) (rx_window r)\<rparr>, ev @ ev')))"

definition next_vr_ur :: "rlc_um_lte_rx \<Rightarrow> rlc_um_lte_rx" where
  "next_vr_ur r = r\<lparr>vr_ur := (vr_ur r + 1) mod um_mod r\<rparr>"

partial_function (option) lower_edge :: "rlc_um_lte_rx \<Rightarrow> (rlc_um_lte_rx \<times> rlc_event list) option" where
  "lower_edge r =
    (if inside_reordering_window r (ucast (vr_ur r)) then Some (r, [])
     else
       Option.bind (case map_find (vr_ur r) (rx_window r) of None \<Rightarrow> Some (clear_sdu r, []) | Some pdu \<Rightarrow> lower_pdu pdu r)
         (\<lambda>s. Option.bind (lower_edge (next_vr_ur (fst s))) (\<lambda>s'. Some (fst s', snd s @ snd s'))))"

subsection \<open>In the reordering window\<close>

text \<open>The flag of the result is the jump to \<open>clean_up_rx_window\<close>.\<close>

fun update_segments ::
  "u8 \<Rightarrow> u16 list \<Rightarrow> nat \<Rightarrow> bytes \<Rightarrow> rlc_um_lte_rx \<Rightarrow> (rlc_um_lte_rx \<times> bytes \<times> bool \<times> rlc_event list) option" where
  "update_segments f [] i buf r = Some (r, buf, False, [])"
| "update_segments f (l # ls) i buf r =
    (let len = unat l in
     if sdu_octets r = [] \<and> i = 0 \<and> \<not> rlc_um_start_aligned f then
       if length buf < len then Some (r, buf, True, [])
       else update_segments f ls (Suc i) (drop len buf) ((clear_sdu r)\<lparr>pdu_lost := False\<rparr>)
     else if buffer_room - length (sdu_octets r) < len then Some (clear_sdu r, buf, True, [])
     else
       let r = (if pdu_belongs_to_rx_sdu r then r else r\<lparr>vr_ur_in_rx_sdu := vr_ur r\<rparr>) in
       Option.bind (copy_segment len buf r) (\<lambda>(r, buf).
       let r = r\<lparr>vr_ur_in_rx_sdu := vr_ur r\<rparr> in
       let (r, buf, ev) = (if pdu_belongs_to_rx_sdu r then (case deliver_sdu r of (r, ev) \<Rightarrow> (r, buf, ev))
             else (r, drop len buf, []))
       in map_option (\<lambda>(r, buf, stop, evs). (r, buf, stop, ev @ evs))
            (update_segments f ls (Suc i) buf (r\<lparr>pdu_lost := False\<rparr>))))"

definition update_last :: "u8 \<Rightarrow> u16 list \<Rightarrow> bytes \<Rightarrow> rlc_um_lte_rx \<Rightarrow> (rlc_um_lte_rx \<times> rlc_event list) option" where
  "update_last f ls buf r =
    (if sdu_octets r = [] \<and> ls = [] \<and> \<not> rlc_um_start_aligned f then Some (clear_sdu r, [])
     else
       Option.bind
         (if length (sdu_octets r) < MAX_BUFFER_SIZE_BYTES \<and> length buf < MAX_BUFFER_SIZE_BYTES \<and>
             length buf + length (sdu_octets r) < MAX_BUFFER_SIZE_BYTES
          then map_option fst (copy_segment (length buf) buf r) else Some r) (\<lambda>r.
       let r = r\<lparr>vr_ur_in_rx_sdu := vr_ur r\<rparr> in
       if rlc_um_end_aligned f then
         (let (r, ev) = (if pdu_lost r \<and> \<not> rlc_um_start_aligned f then (clear_sdu r, []) else deliver_sdu r)
          in Some (r\<lparr>pdu_lost := False\<rparr>, ev))
       else Some (r, [])))"

definition update_pdu :: "rlc_umd_pdu \<Rightarrow> rlc_um_lte_rx \<Rightarrow> (rlc_um_lte_rx \<times> rlc_event list) option" where
  "update_pdu pdu r =
    (let r = (if pdu_belongs_to_rx_sdu r then r else clear_sdu (r\<lparr>pdu_lost := False\<rparr>)) in
     Option.bind (update_segments (h_fi (up_header pdu)) (h_li (up_header pdu)) 0 (up_buf pdu) r) (\<lambda>(r, buf, stop, ev).
     Option.bind (if stop then Some (r, []) else update_last (h_fi (up_header pdu)) (h_li (up_header pdu)) buf r)
       (\<lambda>(r, ev').
     Some (r\<lparr>rx_window := map_erase (vr_ur r) (rx_window r)\<rparr>, ev @ ev'))))"

partial_function (option) update_loop :: "rlc_um_lte_rx \<Rightarrow> (rlc_um_lte_rx \<times> rlc_event list) option" where
  "update_loop r =
    (case map_find (vr_ur r) (rx_window r) of
       None \<Rightarrow> Some (r, [])
     | Some pdu \<Rightarrow> Option.bind (update_pdu pdu r)
         (\<lambda>s. Option.bind (update_loop (next_vr_ur (fst s))) (\<lambda>s'. Some (fst s', snd s @ snd s'))))"

definition reassemble_rx_sdus :: "rlc_um_lte_rx \<Rightarrow> (rlc_um_lte_rx \<times> rlc_event list) option" where
  "reassemble_rx_sdus r =
    (let r = (case rx_sdu r of None \<Rightarrow> clear_sdu r | Some _ \<Rightarrow> r) in
     Option.bind (lower_edge r) (\<lambda>(r, ev).
     Option.bind (update_loop r) (\<lambda>(r, ev').
     Some (r, ev @ ev'))))"

section \<open>The events\<close>

definition update_timer :: "rlc_um_lte_rx \<Rightarrow> rlc_um_lte_rx" where
  "update_timer r =
    (let r = (if reordering_running r \<and> (RX_MOD_BASE r (vr_ux r) \<le> RX_MOD_BASE r (vr_ur r) \<or>
                \<not> inside_reordering_window r (ucast (vr_ux r)) \<and> vr_ux r \<noteq> vr_uh r)
              then r\<lparr>reordering_running := False\<rparr> else r)
     in if \<not> reordering_running r \<and> RX_MOD_BASE r (vr_ur r) < RX_MOD_BASE r (vr_uh r)
        then r\<lparr>reordering_running := True, vr_ux := vr_uh r\<rparr> else r)"

definition handle_data_pdu :: "bytes \<Rightarrow> rlc_um_lte_rx \<Rightarrow> (rlc_um_lte_rx \<times> rlc_event list) option" where
  "handle_data_pdu payload r =
    Option.bind (rlc_um_read_data_pdu_header payload (rx_sn_field_length (rc_um (rx_cfg r)))) (\<lambda>header.
    if RX_MOD_BASE r (vr_uh r - rx_window_size (rc_um (rx_cfg r))) \<le> RX_MOD_BASE r (ucast (h_sn header)) \<and>
       RX_MOD_BASE r (ucast (h_sn header)) < RX_MOD_BASE r (vr_ur r) then Some (r, [])
    else if map_find (ucast (h_sn header)) (rx_window r) \<noteq> None then Some (r, [])
    else
      Option.bind (append_octets [] payload) (\<lambda>buf.
      let pdu = \<lparr>up_header = header, up_buf = drop (rlc_um_packed_length header) buf\<rparr>;
          r = r\<lparr>rx_window := map_assign (ucast (h_sn header)) pdu (rx_window r)\<rparr>;
          r = (if inside_reordering_window r (h_sn header) then r
               else r\<lparr>vr_uh := (ucast (h_sn header) + 1) mod um_mod r\<rparr>)
      in Option.bind (reassemble_rx_sdus r) (\<lambda>(r, ev). Some (update_timer r, ev))))"

partial_function (option) timeout_loop :: "rlc_um_lte_rx \<Rightarrow> (rlc_um_lte_rx \<times> rlc_event list) option" where
  "timeout_loop r =
    (if RX_MOD_BASE r (vr_ur r) < RX_MOD_BASE r (vr_ux r) then
       Option.bind (reassemble_rx_sdus (next_vr_ur r))
         (\<lambda>s. Option.bind (timeout_loop (fst s)) (\<lambda>s'. Some (fst s', snd s @ snd s')))
     else Some (r, []))"

declare lower_edge.simps [code] update_loop.simps [code] timeout_loop.simps [code]

definition timer_expired :: "rlc_um_lte_rx \<Rightarrow> (rlc_um_lte_rx \<times> rlc_event list) option" where
  "timer_expired r =
    (let r = r\<lparr>pdu_lost := True\<rparr>;
         r = (case rx_sdu r of None \<Rightarrow> r | Some _ \<Rightarrow> clear_sdu r)
     in Option.bind (timeout_loop r) (\<lambda>(r, ev).
        Some (if RX_MOD_BASE r (vr_ur r) < RX_MOD_BASE r (vr_uh r)
              then r\<lparr>reordering_running := True, vr_ux := vr_uh r\<rparr> else r, ev)))"

text \<open>What the timers do when the time is over: a timer that runs stops and calls back.\<close>

definition timer_trigger :: "rlc_um_lte_rx \<Rightarrow> (rlc_um_lte_rx \<times> rlc_event list) option" where
  "timer_trigger r =
    (if reordering_running r then
       (let r = r\<lparr>reordering_running := False\<rparr> in if reordering_callback r then timer_expired r else Some (r, []))
     else Some (r, []))"

definition rx_reestablish :: "rlc_um_lte_rx \<Rightarrow> (rlc_um_lte_rx \<times> rlc_event list) option" where
  "rx_reestablish r =
    Option.bind (if reordering_running r then timer_expired (r\<lparr>reordering_running := False\<rparr>) else Some (r, []))
      (\<lambda>(r, ev). Some (rx_reset r, ev))"

section \<open>One PDU\<close>

definition up_event :: "rlc_um_lte_rx \<Rightarrow> bytes \<Rightarrow> rlc_event" where
  "up_event r s = (if is_mrb (rc_um (rx_cfg r)) then Pdcp_write_pdu_mch (rx_lcid r) s else Pdcp_write_pdu (rx_lcid r) s)"

text \<open>
  The abstract view: segments \<open>ps\<close>, the octets \<open>c\<close> of the first SDU that were sent before, and whether the last segment
  ends its SDU. \<open>pdu_sdus\<close> are the SDUs that the PDU completes, \<open>pdu_carry\<close> is what it leaves open.
\<close>

definition sdu_parts :: "bytes \<Rightarrow> bytes list \<Rightarrow> bytes list" where
  "sdu_parts c ps = (c @ hd ps) # tl ps"

definition pdu_sdus :: "bytes \<Rightarrow> bytes list \<Rightarrow> bool \<Rightarrow> bytes list" where
  "pdu_sdus c ps e = (if e then sdu_parts c ps else butlast (sdu_parts c ps))"

definition pdu_carry :: "bytes \<Rightarrow> bytes list \<Rightarrow> bool \<Rightarrow> bytes" where
  "pdu_carry c ps e = (if e then [] else last (sdu_parts c ps))"

definition li_of :: "bytes list \<Rightarrow> u16 list" where
  "li_of ps = map (of_nat \<circ> length) ps"

text \<open>Segments that fit: their lengths have a length indicator and the SDUs a buffer.\<close>

definition parts_ok :: "bytes \<Rightarrow> bytes list \<Rightarrow> bool" where
  "parts_ok c ps \<longleftrightarrow> ps \<noteq> [] \<and> [] \<notin> set ps \<and> (\<forall>x \<in> set (sdu_parts c ps). length x \<le> RLC_MAX_SDU_SIZE)"

lemma unat_li: "n \<le> RLC_MAX_SDU_SIZE \<Longrightarrow> unat (of_nat n :: u16) = n"
  by (simp add: RLC_MAX_SDU_SIZE_def unsigned_of_nat take_bit_nat_eq_self)

lemma sdu_octets_simps [simp]:
  "sdu_octets (clear_sdu r) = []" "sdu_octets (r\<lparr>rx_sdu := Some s\<rparr>) = s" "sdu_octets (r\<lparr>pdu_lost := b\<rparr>) = sdu_octets r"
  "sdu_octets (r\<lparr>vr_ur_in_rx_sdu := i\<rparr>) = sdu_octets r" "sdu_octets (r\<lparr>rx_window := w\<rparr>) = sdu_octets r"
  "sdu_octets (r\<lparr>vr_ur := x\<rparr>) = sdu_octets r" "sdu_octets (r\<lparr>rx_sdu := Some s, vr_ur_in_rx_sdu := i\<rparr>) = s"
  by (simp_all add: sdu_octets_def clear_sdu_def)

lemma up_event_simps [simp]:
  "up_event (r\<lparr>rx_sdu := x\<rparr>) = up_event r" "up_event (r\<lparr>pdu_lost := b\<rparr>) = up_event r"
  "up_event (r\<lparr>vr_ur_in_rx_sdu := i\<rparr>) = up_event r" "up_event (r\<lparr>rx_window := w\<rparr>) = up_event r"
  "up_event (clear_sdu r) = up_event r" "up_event (r\<lparr>vr_ur := j\<rparr>) = up_event r"
  by (auto simp: up_event_def clear_sdu_def)

lemma deliver_sdu: "deliver_sdu r = (clear_sdu r, [up_event r (sdu_octets r)])"
  by (simp add: deliver_sdu_def up_event_def)

lemma copy_segment:
  "length (sdu_octets r) + length p \<le> buffer_room \<Longrightarrow>
   copy_segment (length p) (p @ buf) r = Some (r\<lparr>rx_sdu := Some (sdu_octets r @ p)\<rparr>, buf)"
  "length (sdu_octets r) + length p \<le> buffer_room \<Longrightarrow>
   copy_segment (length p) p r = Some (r\<lparr>rx_sdu := Some (sdu_octets r @ p)\<rparr>, [])"
  by (simp_all add: copy_segment_def append_octets_def)

lemma upd_order: "r\<lparr>vr_ur_in_rx_sdu := x, rx_sdu := y\<rparr> = r\<lparr>rx_sdu := y, vr_ur_in_rx_sdu := x\<rparr>"
  by simp

subsection \<open>In the window\<close>

lemma belongs_self [simp]: "pdu_belongs_to_rx_sdu (r\<lparr>vr_ur_in_rx_sdu := vr_ur r\<rparr>)"
  by (simp add: pdu_belongs_to_rx_sdu_def)

lemma update_segment:
  assumes "length (sdu_octets r) + length p \<le> RLC_MAX_SDU_SIZE" "sdu_octets r \<noteq> [] \<or> 0 < i \<or> rlc_um_start_aligned f"
  shows "update_segments f (of_nat (length p) # ls) i (p @ buf) r =
    map_option (\<lambda>(r', buf', stop, evs). (r', buf', stop, up_event r (sdu_octets r @ p) # evs))
      (update_segments f ls (Suc i) buf (r\<lparr>rx_sdu := Some [], vr_ur_in_rx_sdu := vr_ur r, pdu_lost := False\<rparr>))"
proof -
  have l: "unat (of_nat (length p) :: u16) = length p" using assms(1) by (simp add: unat_li)
  have room: "length (sdu_octets r) + length p \<le> buffer_room" "\<not> buffer_room - length (sdu_octets r) < length p"
    using assms(1) by (simp_all add: RLC_MAX_SDU_SIZE_def buffer_room)
  have np: "\<not> (sdu_octets r = [] \<and> i = 0 \<and> \<not> rlc_um_start_aligned f)" using assms(2) by auto
  define r1 where "r1 = (if pdu_belongs_to_rx_sdu r then r else r\<lparr>vr_ur_in_rx_sdu := vr_ur r\<rparr>)"
  have r1: "sdu_octets r1 = sdu_octets r" "vr_ur r1 = vr_ur r" "up_event r1 = up_event r"
    "r1\<lparr>rx_sdu := s, vr_ur_in_rx_sdu := vr_ur r\<rparr> = r\<lparr>rx_sdu := s, vr_ur_in_rx_sdu := vr_ur r\<rparr>" for s
    by (simp_all add: r1_def)
  have c: "copy_segment (length p) (p @ buf) r1 = Some (r1\<lparr>rx_sdu := Some (sdu_octets r @ p)\<rparr>, buf)"
    using copy_segment(1) [of r1] room(1) r1(1) by simp
  have b: "pdu_belongs_to_rx_sdu (r\<lparr>rx_sdu := s, vr_ur_in_rx_sdu := vr_ur r\<rparr>)" for s
    by (simp add: pdu_belongs_to_rx_sdu_def)
  show ?thesis
    unfolding update_segments.simps Let_def l if_not_P [OF np] if_not_P [OF room(2)] r1_def [symmetric] c
    by (simp add: r1 b deliver_sdu) (simp add: clear_sdu_def upd_order)
qed

lemma update_rest:
  assumes "sdu_octets r = []" "\<forall>q \<in> set qs. length q \<le> RLC_MAX_SDU_SIZE"
  shows "update_segments f (li_of qs) (Suc i) (concat qs @ buf) r =
    Some (if qs = [] then r else r\<lparr>rx_sdu := Some [], vr_ur_in_rx_sdu := vr_ur r, pdu_lost := False\<rparr>, buf, False,
          map (up_event r) qs)"
  using assms
proof (induction qs arbitrary: r i)
  case (Cons q qs)
  have l: "length (sdu_octets r) + length q \<le> RLC_MAX_SDU_SIZE" using Cons.prems by simp
  have li: "li_of (q # qs) = of_nat (length q) # li_of qs" by (simp add: li_of_def)
  let ?r = "r\<lparr>rx_sdu := Some [], vr_ur_in_rx_sdu := vr_ur r, pdu_lost := False\<rparr>"
  have "sdu_octets ?r = []" by (simp add: sdu_octets_def)
  from Cons.IH [OF this] show ?case
    unfolding li using update_segment [OF l, of "Suc i" f "li_of qs" "concat qs @ buf"] Cons.prems
    by (simp del: update_segments.simps)
qed (simp add: li_of_def)

lemma update_last_spec:
  assumes "length (sdu_octets r) + length l \<le> RLC_MAX_SDU_SIZE" "sdu_octets r \<noteq> [] \<or> ls \<noteq> [] \<or> rlc_um_start_aligned f"
  shows "update_last f ls l r =
    (if rlc_um_end_aligned f then
       if pdu_lost r \<and> \<not> rlc_um_start_aligned f
       then Some (r\<lparr>rx_sdu := Some [], vr_ur_in_rx_sdu := vr_ur r, pdu_lost := False\<rparr>, [])
       else Some (r\<lparr>rx_sdu := Some [], vr_ur_in_rx_sdu := vr_ur r, pdu_lost := False\<rparr>, [up_event r (sdu_octets r @ l)])
     else Some (r\<lparr>rx_sdu := Some (sdu_octets r @ l), vr_ur_in_rx_sdu := vr_ur r\<rparr>, []))"
proof -
  have np: "\<not> (sdu_octets r = [] \<and> ls = [] \<and> \<not> rlc_um_start_aligned f)" using assms(2) by auto
  have fits: "length (sdu_octets r) < MAX_BUFFER_SIZE_BYTES \<and> length l < MAX_BUFFER_SIZE_BYTES \<and>
             length l + length (sdu_octets r) < MAX_BUFFER_SIZE_BYTES" "length (sdu_octets r) + length l \<le> buffer_room"
    using assms(1) by (simp_all add: RLC_MAX_SDU_SIZE_def buffer_room)
  show ?thesis
    unfolding update_last_def if_not_P [OF np] if_P [OF fits(1)] copy_segment(2) [OF fits(2)]
    by (simp add: Let_def deliver_sdu) (simp add: clear_sdu_def)
qed

text \<open>
  What a step may do with a PDU: it passes up some of the SDUs that the PDU completes, in their order, and keeps the
  open octets or nothing; \<open>exact\<close> is the case without loss.
\<close>

definition step_ok :: "rlc_um_lte_rx \<Rightarrow> bytes \<Rightarrow> bytes list \<Rightarrow> bool \<Rightarrow> rlc_um_lte_rx \<Rightarrow> bytes list \<Rightarrow> bool \<Rightarrow> bool" where
  "step_ok r c ps e r' ds exact \<longleftrightarrow>
     r' = r\<lparr>rx_sdu := Some (sdu_octets r'), vr_ur_in_rx_sdu := vr_ur_in_rx_sdu r', pdu_lost := pdu_lost r'\<rparr> \<and>
     subseq ds (pdu_sdus c ps e) \<and> sdu_octets r' \<in> {[], pdu_carry c ps e} \<and>
     (sdu_octets r' \<noteq> [] \<longrightarrow> vr_ur_in_rx_sdu r' = vr_ur r) \<and>
     (exact \<longrightarrow> ds = pdu_sdus c ps e \<and> sdu_octets r' = pdu_carry c ps e \<and> \<not> pdu_lost r' \<and> vr_ur_in_rx_sdu r' = vr_ur r)"

lemma step_okD:
  assumes "step_ok r c ps e r' ds x"
  shows "vr_ur r' = vr_ur r" "vr_ux r' = vr_ux r" "vr_uh r' = vr_uh r" "rx_window r' = rx_window r" "rx_cfg r' = rx_cfg r"
    "rx_lcid r' = rx_lcid r" "reordering_running r' = reordering_running r" "reordering_callback r' = reordering_callback r"
    "rx_sdu r' \<noteq> None" "up_event r' = up_event r"
proof -
  have eq: "r' = r\<lparr>rx_sdu := Some (sdu_octets r'), vr_ur_in_rx_sdu := vr_ur_in_rx_sdu r', pdu_lost := pdu_lost r'\<rparr>"
    using assms by (simp add: step_ok_def)
  show "vr_ur r' = vr_ur r" "vr_ux r' = vr_ux r" "vr_uh r' = vr_uh r" "rx_window r' = rx_window r" "rx_cfg r' = rx_cfg r"
    "rx_lcid r' = rx_lcid r" "reordering_running r' = reordering_running r" "reordering_callback r' = reordering_callback r"
    "rx_sdu r' \<noteq> None" "up_event r' = up_event r"
    by (subst eq, simp)+
qed

lemma parts_okD:
  assumes "parts_ok c (qs @ [l])" "a \<in> {[], c}"
  shows "\<forall>q \<in> set qs. length q \<le> RLC_MAX_SDU_SIZE" "l \<noteq> []" "length l \<le> RLC_MAX_SDU_SIZE"
    "qs = [] \<Longrightarrow> length a + length l \<le> RLC_MAX_SDU_SIZE"
    "qs = p # qs' \<Longrightarrow> length a + length p \<le> RLC_MAX_SDU_SIZE" "qs = p # qs' \<Longrightarrow> p \<noteq> []"
  using assms by (cases qs; auto simp: parts_ok_def sdu_parts_def)+

lemma pdu_sdus_single: "pdu_sdus c [l] e = (if e then [c @ l] else [])" "pdu_carry c [l] e = (if e then [] else c @ l)"
  by (simp_all add: pdu_sdus_def pdu_carry_def sdu_parts_def)

lemma pdu_sdus_more:
  "pdu_sdus c (p # qs @ [l]) e = (c @ p) # qs @ (if e then [l] else [])" "pdu_carry c (p # qs @ [l]) e = (if e then [] else l)"
  by (simp_all add: pdu_sdus_def pdu_carry_def sdu_parts_def butlast_append)

lemma subseq_tl: "subseq xs (z # xs)"
  by (rule list_emb_Cons) (rule subseq_order.refl)

text \<open>All of a PDU, with an SDU to continue or at the start of one.\<close>

lemma update_whole:
  assumes ok: "parts_ok c (qs @ [l])" and a: "sdu_octets r \<in> {[], c}" and c: "c = [] \<longleftrightarrow> rlc_um_start_aligned f"
    and go: "sdu_octets r \<noteq> [] \<or> rlc_um_start_aligned f" and e: "e = rlc_um_end_aligned f"
  obtains r' ds where "Option.bind (update_segments f (li_of qs) 0 (concat (qs @ [l])) r) (\<lambda>(r, buf, stop, ev).
      Option.bind (if stop then Some (r, []) else update_last f (li_of qs) buf r) (\<lambda>(r, ev'). Some (r, ev @ ev')))
    = Some (r', map (up_event r) ds)" "step_ok r c (qs @ [l]) e r' ds (\<not> pdu_lost r)"
proof (cases qs)
  case Nil
  have cc: "c = sdu_octets r" using a c go by auto
  have l: "length (sdu_octets r) + length l \<le> RLC_MAX_SDU_SIZE" using parts_okD(4) [OF ok a Nil] .
  have go': "sdu_octets r \<noteq> [] \<or> ([] :: u16 list) \<noteq> [] \<or> rlc_um_start_aligned f" using go by auto
  show ?thesis
  proof (cases "rlc_um_end_aligned f \<and> pdu_lost r \<and> \<not> rlc_um_start_aligned f")
    case True
    show ?thesis
      by (rule that [of "r\<lparr>rx_sdu := Some [], vr_ur_in_rx_sdu := vr_ur r, pdu_lost := False\<rparr>" "[]"])
        (use True in \<open>simp_all add: Nil li_of_def update_last_spec [OF l go'] step_ok_def pdu_sdus_single e\<close>)
  next
    case False
    show ?thesis
    proof (cases "rlc_um_end_aligned f")
      case True
      then show ?thesis using False
        by (intro that [of "r\<lparr>rx_sdu := Some [], vr_ur_in_rx_sdu := vr_ur r, pdu_lost := False\<rparr>" "[sdu_octets r @ l]"])
          (auto simp: Nil li_of_def update_last_spec [OF l go'] step_ok_def pdu_sdus_single e cc)
    next
      case ne: False
      then show ?thesis
        by (intro that [of "r\<lparr>rx_sdu := Some (sdu_octets r @ l), vr_ur_in_rx_sdu := vr_ur r\<rparr>" "[]"])
          (simp_all add: Nil li_of_def update_last_spec [OF l go'] step_ok_def pdu_sdus_single e cc)
    qed
  qed
next
  case (Cons p qs')
  have cc: "c = sdu_octets r" using a c go by auto
  have len: "\<forall>q \<in> set qs'. length q \<le> RLC_MAX_SDU_SIZE" "length l \<le> RLC_MAX_SDU_SIZE"
    "length (sdu_octets r) + length p \<le> RLC_MAX_SDU_SIZE"
    using parts_okD(1,3,5) [OF ok a] Cons by auto
  let ?r = "r\<lparr>rx_sdu := Some [], vr_ur_in_rx_sdu := vr_ur r, pdu_lost := False\<rparr>"
  have li: "li_of qs = of_nat (length p) # li_of qs'" by (simp add: Cons li_of_def)
  have seg: "update_segments f (li_of qs) 0 (concat (qs @ [l])) r
      = Some (?r, l, False, up_event r (sdu_octets r @ p) # map (up_event r) qs')"
    using update_segment [OF len(3), of 0 f "li_of qs'" "concat qs' @ l"] go update_rest [OF _ len(1), of ?r f 0 l]
    unfolding li by (simp add: Cons sdu_octets_def del: update_segments.simps)
  have ne: "li_of qs \<noteq> []" by (simp add: li)
  have z: "sdu_octets ?r = []" by (simp add: sdu_octets_def)
  have last: "update_last f (li_of qs) l ?r = (if rlc_um_end_aligned f then Some (?r, [up_event r l])
      else Some (?r\<lparr>rx_sdu := Some l\<rparr>, []))"
    using update_last_spec [of ?r l "li_of qs" f] ne len(2) by (simp add: z)
  show ?thesis
  proof (cases "rlc_um_end_aligned f")
    case True
    show ?thesis
    proof (rule that)
      show "step_ok r c (qs @ [l]) e ?r ((c @ p) # qs' @ [l]) (\<not> pdu_lost r)"
        using True by (simp add: Cons step_ok_def pdu_sdus_more e z)
    qed (use True in \<open>simp add: seg last cc del: concat_append\<close>)
  next
    case False
    show ?thesis
    proof (rule that)
      show "step_ok r c (qs @ [l]) e (?r\<lparr>rx_sdu := Some l\<rparr>) ((c @ p) # qs') (\<not> pdu_lost r)"
        using False by (simp add: Cons step_ok_def pdu_sdus_more e z)
    qed (use False in \<open>simp add: seg last cc del: concat_append\<close>)
  qed
qed

text \<open>A PDU whose first segment continues an SDU that is lost.\<close>

lemma update_lost:
  assumes ok: "parts_ok c (qs @ [l])" and a: "sdu_octets r = []" and f: "\<not> rlc_um_start_aligned f" and e: "e = rlc_um_end_aligned f"
  obtains r' ds where "Option.bind (update_segments f (li_of qs) 0 (concat (qs @ [l])) r) (\<lambda>(r, buf, stop, ev).
      Option.bind (if stop then Some (r, []) else update_last f (li_of qs) buf r) (\<lambda>(r, ev'). Some (r, ev @ ev')))
    = Some (r', map (up_event r) ds)" "step_ok r c (qs @ [l]) e r' ds False"
proof (cases qs)
  case Nil
  show ?thesis
    by (rule that [of "clear_sdu r" "[]"])
      (use a f in \<open>simp_all add: Nil li_of_def update_last_def step_ok_def\<close>, simp_all add: clear_sdu_def)
next
  case (Cons p qs')
  have len: "\<forall>q \<in> set qs'. length q \<le> RLC_MAX_SDU_SIZE" "length l \<le> RLC_MAX_SDU_SIZE" "length p \<le> RLC_MAX_SDU_SIZE"
    using parts_okD(1,3) [OF ok, of c] Cons by auto
  let ?rc = "(clear_sdu r)\<lparr>pdu_lost := False\<rparr>"
  let ?r = "r\<lparr>rx_sdu := Some [], vr_ur_in_rx_sdu := (if qs' = [] then vr_ur_in_rx_sdu r else vr_ur r), pdu_lost := False\<rparr>"
  have li: "li_of qs = of_nat (length p) # li_of qs'" by (simp add: Cons li_of_def)
  have z: "sdu_octets ?rc = []" "sdu_octets ?r = []" by (simp_all add: sdu_octets_def clear_sdu_def)
  have r0: "(if qs' = [] then ?rc else ?rc\<lparr>rx_sdu := Some [], vr_ur_in_rx_sdu := vr_ur ?rc, pdu_lost := False\<rparr>) = ?r"
    by (cases r) (simp add: clear_sdu_def)
  have seg: "update_segments f (li_of qs) 0 (concat (qs @ [l])) r = Some (?r, l, False, map (up_event r) qs')"
  proof -
    have "update_segments f (li_of qs) 0 (concat (qs @ [l])) r = update_segments f (li_of qs') (Suc 0) (concat qs' @ l) ?rc"
      using a f len(3) unfolding li by (simp add: Cons Let_def unat_li)
    then show ?thesis unfolding update_rest [OF z(1) len(1)] r0 by simp
  qed
  have ne: "li_of qs \<noteq> []" by (simp add: li)
  let ?in = "?r\<lparr>vr_ur_in_rx_sdu := vr_ur r\<rparr>"
  have last: "update_last f (li_of qs) l ?r = (if rlc_um_end_aligned f then Some (?in, [up_event r l])
      else Some (?in\<lparr>rx_sdu := Some l\<rparr>, []))"
    using update_last_spec [of ?r l "li_of qs" f] ne len(2) by (simp add: z upd_order)
  show ?thesis
  proof (cases "rlc_um_end_aligned f")
    case True
    show ?thesis
    proof (rule that)
      show "step_ok r c (qs @ [l]) e ?in (qs' @ [l]) False"
        using True by (simp add: Cons step_ok_def pdu_sdus_more e sdu_octets_def subseq_tl del: subseq_Cons2_iff)
    qed (use True in \<open>simp add: seg last del: concat_append\<close>)
  next
    case False
    show ?thesis
    proof (rule that)
      show "step_ok r c (qs @ [l]) e (?in\<lparr>rx_sdu := Some l\<rparr>) qs' False"
        using False by (simp add: Cons step_ok_def pdu_sdus_more e sdu_octets_def subseq_tl)
    qed (use False in \<open>simp add: seg last del: concat_append\<close>)
  qed
qed

text \<open>The PDU as it is in the window.\<close>

definition um_pdu :: "rlc_umd_pdu \<Rightarrow> bytes list \<Rightarrow> bytes \<Rightarrow> bool \<Rightarrow> bool" where
  "um_pdu pdu ps c e \<longleftrightarrow> h_li (up_header pdu) = li_of (butlast ps) \<and> up_buf pdu = concat ps \<and>
     rlc_um_start_aligned (h_fi (up_header pdu)) = (c = []) \<and> rlc_um_end_aligned (h_fi (up_header pdu)) = e"

lemma update_pdu_spec:
  assumes ok: "parts_ok c ps" and pdu: "um_pdu pdu ps c e" and a: "pdu_belongs_to_rx_sdu r \<longrightarrow> sdu_octets r \<in> {[], c}"
  obtains r' ds where "update_pdu pdu r = Some (r'\<lparr>rx_window := map_erase (vr_ur r) (rx_window r)\<rparr>, map (up_event r) ds)"
    "step_ok r c ps e r' ds (pdu_belongs_to_rx_sdu r \<and> \<not> pdu_lost r \<and> sdu_octets r = c)"
proof -
  define r0 where "r0 = (if pdu_belongs_to_rx_sdu r then r else clear_sdu (r\<lparr>pdu_lost := False\<rparr>))"
  define f where "f = h_fi (up_header pdu)"
  obtain qs l where ps: "ps = qs @ [l]" using ok by (cases ps rule: rev_cases) (auto simp: parts_ok_def)
  have b: "h_li (up_header pdu) = li_of qs" "up_buf pdu = concat (qs @ [l])" "c = [] \<longleftrightarrow> rlc_um_start_aligned f"
    "e = rlc_um_end_aligned f"
    using pdu by (auto simp: um_pdu_def ps f_def)
  have r0: "sdu_octets r0 \<in> {[], c}" using a by (auto simp: r0_def)
  have fr: "up_event r0 = up_event r" "vr_ur r0 = vr_ur r" "rx_window r0 = rx_window r" by (auto simp: r0_def clear_sdu_def)
  obtain r' ds where s: "Option.bind (update_segments f (li_of qs) 0 (concat (qs @ [l])) r0) (\<lambda>(r, buf, stop, ev).
      Option.bind (if stop then Some (r, []) else update_last f (li_of qs) buf r) (\<lambda>(r, ev'). Some (r, ev @ ev')))
    = Some (r', map (up_event r0) ds)"
    "step_ok r0 c (qs @ [l]) e r' ds (\<not> pdu_lost r0 \<and> (sdu_octets r0 \<noteq> [] \<or> rlc_um_start_aligned f))"
  proof (cases "sdu_octets r0 \<noteq> [] \<or> rlc_um_start_aligned f")
    case True
    from update_whole [OF ok [unfolded ps] r0 b(3) True b(4)] show ?thesis using that True by auto
  next
    case False
    then have z: "sdu_octets r0 = []" "\<not> rlc_um_start_aligned f" by auto
    from update_lost [OF ok [unfolded ps] z b(4)] show ?thesis using that False by auto
  qed
  have w: "vr_ur r' = vr_ur r" "rx_window r' = rx_window r"
    using step_okD(1,4) [OF s(2)] fr by simp_all
  obtain r2 buf stop ev where u: "update_segments f (li_of qs) 0 (concat (qs @ [l])) r0 = Some (r2, buf, stop, ev)"
    using s(1) by (cases "update_segments f (li_of qs) 0 (concat (qs @ [l])) r0") auto
  obtain r3 ev' where v: "(if stop then Some (r2, []) else update_last f (li_of qs) buf r2) = Some (r3, ev')"
    using s(1) unfolding u by (cases "if stop then Some (r2, []) else update_last f (li_of qs) buf r2") auto
  have res: "r3 = r'" "ev @ ev' = map (up_event r) ds" using s(1) unfolding u by (simp_all add: v fr)
  have "update_pdu pdu r = Some (r'\<lparr>rx_window := map_erase (vr_ur r) (rx_window r)\<rparr>, map (up_event r) ds)"
    unfolding update_pdu_def Let_def r0_def [symmetric] f_def [symmetric] b(1,2) u
    by (simp add: v res w)
  moreover have "step_ok r c ps e r' ds (pdu_belongs_to_rx_sdu r \<and> \<not> pdu_lost r \<and> sdu_octets r = c)"
    using s(2) b(3) unfolding step_ok_def ps by (auto simp: r0_def clear_sdu_def split: if_splits)
  ultimately show ?thesis by (rule that)
qed

subsection \<open>Below the window\<close>

lemma lower_segment:
  assumes "length (sdu_octets r) + length p \<le> RLC_MAX_SDU_SIZE" "sdu_octets r \<noteq> [] \<or> 0 < i \<or> rlc_um_start_aligned f"
  shows "lower_segments f (of_nat (length p) # ls) i (p @ buf) r =
    map_option (\<lambda>(r', buf', evs). (r', buf', (if pdu_lost r \<and> \<not> rlc_um_start_aligned f \<or>
         vr_ur r \<noteq> (vr_ur_in_rx_sdu r + 1) mod um_mod r then [] else [up_event r (sdu_octets r @ p)]) @ evs))
      (lower_segments f ls (Suc i) buf (r\<lparr>rx_sdu := Some [], pdu_lost := False\<rparr>))"
proof -
  have l: "unat (of_nat (length p) :: u16) = length p" using assms(1) by (simp add: unat_li)
  have room: "length (sdu_octets r) + length p \<le> buffer_room"
    using assms(1) by (simp add: RLC_MAX_SDU_SIZE_def buffer_room)
  have np: "\<not> (sdu_octets r = [] \<and> i = 0 \<and> \<not> rlc_um_start_aligned f)" using assms(2) by auto
  show ?thesis
    unfolding lower_segments.simps Let_def l if_not_P [OF np] copy_segment(1) [OF room]
    by (auto simp: deliver_sdu clear_sdu_def simp del: lower_segments.simps)
qed

lemma lower_rest:
  assumes "sdu_octets r = []" "\<not> pdu_lost r" "rx_sdu r = Some []" "\<forall>q \<in> set qs. length q \<le> RLC_MAX_SDU_SIZE"
  shows "lower_segments f (li_of qs) (Suc i) (concat qs @ buf) r =
    Some (r, buf, if vr_ur r \<noteq> (vr_ur_in_rx_sdu r + 1) mod um_mod r then [] else map (up_event r) qs)"
  using assms
proof (induction qs arbitrary: i)
  case (Cons q qs)
  have l: "length (sdu_octets r) + length q \<le> RLC_MAX_SDU_SIZE" using Cons.prems by simp
  have li: "li_of (q # qs) = of_nat (length q) # li_of qs" by (simp add: li_of_def)
  have eq: "r\<lparr>rx_sdu := Some [], pdu_lost := False\<rparr> = r" using Cons.prems(2,3) by (cases r) simp
  show ?case
    unfolding li using lower_segment [OF l, of "Suc i" f "li_of qs" "concat qs @ buf", unfolded eq] Cons
    by (simp del: lower_segments.simps)
qed (simp add: li_of_def)

lemma lower_last_spec:
  assumes "length (sdu_octets r) + length l \<le> RLC_MAX_SDU_SIZE" "sdu_octets r \<noteq> [] \<or> rlc_um_start_aligned f"
  shows "lower_last f l r =
    (if rlc_um_end_aligned f then
       if pdu_lost r \<and> \<not> rlc_um_start_aligned f
       then Some (r\<lparr>rx_sdu := Some [], vr_ur_in_rx_sdu := vr_ur r, pdu_lost := False\<rparr>, [])
       else Some (r\<lparr>rx_sdu := Some [], vr_ur_in_rx_sdu := vr_ur r, pdu_lost := False\<rparr>, [up_event r (sdu_octets r @ l)])
     else Some (r\<lparr>rx_sdu := Some (sdu_octets r @ l), vr_ur_in_rx_sdu := vr_ur r\<rparr>, []))"
proof -
  have fits: "length (sdu_octets r) + length l \<le> buffer_room"
    using assms(1) by (simp add: RLC_MAX_SDU_SIZE_def buffer_room)
  show ?thesis
    unfolding lower_last_def if_P [OF assms(2)] copy_segment(2) [OF fits]
    by (simp add: Let_def deliver_sdu) (simp add: clear_sdu_def)
qed

lemma lower_whole:
  assumes ok: "parts_ok c (qs @ [l])" and a: "sdu_octets r \<in> {[], c}" and c: "c = [] \<longleftrightarrow> rlc_um_start_aligned f"
    and go: "sdu_octets r \<noteq> [] \<or> rlc_um_start_aligned f" and e: "e = rlc_um_end_aligned f"
  shows "\<exists>r' ds. Option.bind (lower_segments f (li_of qs) 0 (concat (qs @ [l])) r) (\<lambda>(r, buf, ev).
      Option.bind (lower_last f buf r) (\<lambda>(r, ev'). Some (r, ev @ ev'))) = Some (r', map (up_event r) ds) \<and>
      step_ok r c (qs @ [l]) e r' ds False"
proof (cases qs)
  case Nil
  have cc: "c = sdu_octets r" using a c go by auto
  have l: "length (sdu_octets r) + length l \<le> RLC_MAX_SDU_SIZE" using parts_okD(4) [OF ok a Nil] .
  define lost where "lost \<longleftrightarrow> pdu_lost r \<and> \<not> rlc_um_start_aligned f"
  let ?r = "if e then r\<lparr>rx_sdu := Some [], vr_ur_in_rx_sdu := vr_ur r, pdu_lost := False\<rparr>
     else r\<lparr>rx_sdu := Some (sdu_octets r @ l), vr_ur_in_rx_sdu := vr_ur r\<rparr>"
  let ?ds = "if e \<and> \<not> lost then [sdu_octets r @ l] else []"
  have "step_ok r c [l] e ?r ?ds False"
    by (simp add: step_ok_def pdu_sdus_single cc)
  then show ?thesis
    by (intro exI [of _ ?r] exI [of _ ?ds]) (simp add: Nil li_of_def lower_last_spec [OF l go] lost_def e)
next
  case (Cons p qs')
  have cc: "c = sdu_octets r" using a c go by auto
  have len: "\<forall>q \<in> set qs'. length q \<le> RLC_MAX_SDU_SIZE" "length l \<le> RLC_MAX_SDU_SIZE"
    "length (sdu_octets r) + length p \<le> RLC_MAX_SDU_SIZE"
    using parts_okD(1,3,5) [OF ok a] Cons by auto
  let ?r = "r\<lparr>rx_sdu := Some [], pdu_lost := False\<rparr>"
  have li: "li_of qs = of_nat (length p) # li_of qs'" by (simp add: Cons li_of_def)
  define d1 where "d1 = (if pdu_lost r \<and> \<not> rlc_um_start_aligned f \<or> vr_ur r \<noteq> (vr_ur_in_rx_sdu r + 1) mod um_mod r
    then [] else [c @ p])"
  define d2 where "d2 = (if vr_ur r \<noteq> (vr_ur_in_rx_sdu r + 1) mod um_mod r then [] else qs')"
  have z: "sdu_octets ?r = []" by (simp add: sdu_octets_def)
  have seg: "lower_segments f (li_of qs) 0 (concat (qs @ [l])) r = Some (?r, l, map (up_event r) (d1 @ d2))"
    using lower_segment [OF len(3), of 0 f "li_of qs'" "concat qs' @ l"] go lower_rest [OF z _ _ len(1), of f 0 l]
    unfolding li by (simp add: Cons cc d1_def d2_def del: lower_segments.simps)
  define d3 where "d3 = (if rlc_um_start_aligned f \<and> e then [l] else [])"
  let ?r2 = "if rlc_um_start_aligned f then
      if e then ?r\<lparr>vr_ur_in_rx_sdu := vr_ur r\<rparr> else ?r\<lparr>rx_sdu := Some l, vr_ur_in_rx_sdu := vr_ur r\<rparr> else ?r"
  have last: "lower_last f l ?r = Some (?r2, map (up_event r) d3)"
  proof (cases "rlc_um_start_aligned f")
    case True
    then show ?thesis
      using lower_last_spec [of ?r l f] len(2) unfolding z by (simp add: z d3_def e upd_order)
  qed (simp add: lower_last_def z d3_def)
  have "subseq (d1 @ d2 @ d3) ([c @ p] @ qs' @ (if e then [l] else []))"
    by (intro list_emb_append_mono) (auto simp: d1_def d2_def d3_def)
  then have "step_ok r c (qs @ [l]) e ?r2 (d1 @ d2 @ d3) False"
    by (auto simp: Cons step_ok_def pdu_sdus_more z sdu_octets_def)
  then show ?thesis
    by (intro exI [of _ ?r2] exI [of _ "d1 @ d2 @ d3"]) (simp add: seg last del: concat_append)
qed

lemma lower_lost:
  assumes a: "sdu_octets r = []" and f: "\<not> rlc_um_start_aligned f" and sdu: "rx_sdu r \<noteq> None"
  shows "\<exists>r' ds. Option.bind (lower_segments f (li_of qs) 0 (concat (qs @ [l])) r) (\<lambda>(r, buf, ev).
      Option.bind (lower_last f buf r) (\<lambda>(r, ev'). Some (r, ev @ ev'))) = Some (r', map (up_event r) ds) \<and>
      step_ok r c (qs @ [l]) e r' ds False"
proof -
  have s: "rx_sdu r = Some []" using a sdu by (auto simp: sdu_octets_def split: option.splits)
  have r: "clear_sdu r = r" using s by (cases r) (simp add: clear_sdu_def)
  have "step_ok r c (qs @ [l]) e r [] False"
    using s by (cases r) (simp add: step_ok_def sdu_octets_def)
  moreover have "lower_last f buf r = Some (r, [])" for buf using a f by (simp add: lower_last_def)
  ultimately show ?thesis using a f by (intro exI [of _ r] exI [of _ "[]"]) (cases qs; simp add: li_of_def r Let_def)
qed

lemma lower_pdu_spec:
  assumes ok: "parts_ok c ps" and pdu: "um_pdu pdu ps c e" and a: "sdu_octets r \<in> {[], c}" and sdu: "rx_sdu r \<noteq> None"
  obtains r' ds where "lower_pdu pdu r = Some (r'\<lparr>rx_window := map_erase (vr_ur r) (rx_window r)\<rparr>, map (up_event r) ds)"
    "step_ok r c ps e r' ds False"
proof -
  define f where "f = h_fi (up_header pdu)"
  obtain qs l where ps: "ps = qs @ [l]" using ok by (cases ps rule: rev_cases) (auto simp: parts_ok_def)
  have b: "h_li (up_header pdu) = li_of qs" "up_buf pdu = concat (qs @ [l])" "c = [] \<longleftrightarrow> rlc_um_start_aligned f"
    "e = rlc_um_end_aligned f"
    using pdu by (auto simp: um_pdu_def ps f_def)
  have fin: "\<exists>r' ds. Option.bind (lower_segments f (li_of qs) 0 (concat (qs @ [l])) r) (\<lambda>(r, buf, ev).
      Option.bind (lower_last f buf r) (\<lambda>(r, ev'). Some (r, ev @ ev'))) = Some (r', map (up_event r) ds) \<and> step_ok r c ps e r' ds False"
    unfolding ps
    using lower_whole [OF ok [unfolded ps] a b(3) _ b(4)] lower_lost [of r f qs l c e] sdu
    by (cases "sdu_octets r \<noteq> [] \<or> rlc_um_start_aligned f") auto
  then obtain r' ds where s: "Option.bind (lower_segments f (li_of qs) 0 (concat (qs @ [l])) r) (\<lambda>(r, buf, ev).
      Option.bind (lower_last f buf r) (\<lambda>(r, ev'). Some (r, ev @ ev'))) = Some (r', map (up_event r) ds)" "step_ok r c ps e r' ds False"
    by blast
  have "lower_pdu pdu r = Some (r'\<lparr>rx_window := map_erase (vr_ur r) (rx_window r)\<rparr>, map (up_event r) ds)"
    using s(1) step_okD(1,4) [OF s(2)] unfolding lower_pdu_def b(1,2) f_def [symmetric]
    by (auto simp: bind_eq_Some_conv)
  then show thesis using s(2) by (rule that)
qed

end
