(* ===== verification/Rlc_Um_Window.thy ===== *)
theory Rlc_Um_Window
  imports Rlc_Um_Rx
begin

unbundle bit_operations_syntax

text \<open>
  The reordering window against the absolute numbers of the PDUs: sequence numbers modulo \<open>rx_mod\<close>, the invariant
  of the receiver for a stream of PDUs of which some arrive, and what each of its loops does to it.
\<close>

section \<open>Sequence numbers\<close>

abbreviation um_win :: "rlc_um_lte_rx \<Rightarrow> u32" where
  "um_win r \<equiv> rx_window_size (rc_um (rx_cfg r))"

definition rx_cfg_ok :: "rlc_config \<Rightarrow> bool" where
  "rx_cfg_ok cfg \<longleftrightarrow> (rx_window_size (rc_um cfg) = 16 \<and> rx_mod (rc_um cfg) = 32 \<and> rx_sn_field_length (rc_um cfg) = size5bits) \<or>
     (rx_window_size (rc_um cfg) = 512 \<and> rx_mod (rc_um cfg) = 1024 \<and> rx_sn_field_length (rc_um cfg) \<noteq> size5bits)"

definition win :: "rlc_um_lte_rx \<Rightarrow> nat" where
  "win r = unat (um_win r)"

definition sn_of :: "rlc_um_lte_rx \<Rightarrow> nat \<Rightarrow> u32" where
  "sn_of r n = of_nat (n mod (2 * win r))"

lemma win:
  assumes "rx_cfg_ok (rx_cfg r)"
  shows "win r = 16 \<or> win r = 512" "unat (um_mod r) = 2 * win r" "uint (um_mod r) = 2 * int (win r)" "uint (um_win r) = int (win r)"
    "0 < win r" "2 * win r \<le> 1024"
  using assms by (auto simp: win_def rx_cfg_ok_def)

lemma uint_minus_mod: "int m dvd 2 ^ 32 \<Longrightarrow> uint (x - y :: u32) mod int m = (uint x - uint y) mod int m"
  by (simp add: uint_word_ariths mod_mod_cancel)

lemma unat_sn_of:
  assumes "rx_cfg_ok (rx_cfg r)"
  shows "unat (sn_of r n) = n mod (2 * win r)" "uint (sn_of r n) mod (2 * int (win r)) = int n mod (2 * int (win r))"
    "unat (sn_of r n) < 1024" "sn_of r n < um_mod r"
proof -
  have w: "0 < win r" "2 * win r \<le> 1024" using win [OF assms] by auto
  then have b: "n mod (2 * win r) < 1024" using mod_less_divisor [of "2 * win r" n] by linarith
  then have l: "n mod (2 * win r) < 2 ^ 32" by simp
  show u: "unat (sn_of r n) = n mod (2 * win r)"
    unfolding sn_of_def using l by (simp add: unsigned_of_nat take_bit_nat_eq_self)
  then show "unat (sn_of r n) < 1024" using b by simp
  have "uint (sn_of r n) = int (n mod (2 * win r))" using u by (metis uint_nat)
  then show "uint (sn_of r n) mod (2 * int (win r)) = int n mod (2 * int (win r))" by (simp add: zmod_int)
  show "sn_of r n < um_mod r" using u w win(2) [OF assms] by (simp add: word_less_nat_alt)
qed

lemma dvd_32: "rx_cfg_ok (rx_cfg r) \<Longrightarrow> int (2 * win r) dvd 2 ^ 32"
proof -
  assume "rx_cfg_ok (rx_cfg r)"
  moreover have "(32 :: int) dvd 2 ^ 32" "(1024 :: int) dvd 2 ^ 32" by simp_all
  ultimately show ?thesis using win(1) [of r] by auto
qed

lemma mod_diff3: "(a mod m - b mod m - c) mod m = (a - b - c) mod (m :: int)"
  by (metis mod_diff_eq mod_diff_left_eq)

lemma rx_mod_base:
  assumes cfg: "rx_cfg_ok (rx_cfg r)" and uh: "vr_uh r = sn_of r H"
    and x: "uint x mod (2 * int (win r)) = j mod (2 * int (win r))"
  shows "uint (RX_MOD_BASE r x) = (j - int H + int (win r)) mod (2 * int (win r))"
proof -
  let ?M = "2 * int (win r)"
  have d: "int (2 * win r) dvd 2 ^ 32" by (rule dvd_32 [OF cfg])
  have M: "int (2 * win r) = ?M" by simp
  have "uint (RX_MOD_BASE r x) = uint (x - vr_uh r - um_win r) mod ?M"
    by (simp add: RX_MOD_BASE_def uint_mod win(3) [OF cfg])
  also have "\<dots> = (uint (x - vr_uh r) - int (win r)) mod ?M"
    using uint_minus_mod [OF d] by (simp add: win(4) [OF cfg])
  also have "\<dots> = ((uint x - uint (vr_uh r)) mod ?M - int (win r)) mod ?M"
    using uint_minus_mod [OF d, of x "vr_uh r"] by (metis M mod_diff_left_eq)
  also have "\<dots> = (uint x - uint (vr_uh r) - int (win r)) mod ?M" by (rule mod_diff_left_eq)
  also have "\<dots> = (uint x mod ?M - uint (vr_uh r) mod ?M - int (win r)) mod ?M" by (rule mod_diff3 [symmetric])
  also have "\<dots> = (j mod ?M - int H mod ?M - int (win r)) mod ?M"
    unfolding x uh unat_sn_of(2) [OF cfg] ..
  also have "\<dots> = (j - int H - int (win r)) mod ?M" by (rule mod_diff3)
  also have "j - int H - int (win r) = j - int H + int (win r) - ?M" by simp
  also have "\<dots> mod ?M = (j - int H + int (win r)) mod ?M" by (rule minus_mod_self2)
  finally show ?thesis .
qed

lemma rx_base_sn:
  assumes cfg: "rx_cfg_ok (rx_cfg r)" and uh: "vr_uh r = sn_of r H" and b: "H \<le> n + win r" "n < H + win r"
  shows "unat (RX_MOD_BASE r (sn_of r n)) = n + win r - H"
proof -
  have "uint (RX_MOD_BASE r (sn_of r n)) = (int n - int H + int (win r)) mod (2 * int (win r))"
    by (rule rx_mod_base [OF cfg uh unat_sn_of(2) [OF cfg]])
  also have "\<dots> = int n - int H + int (win r)" using b by (intro mod_pos_pos_trivial) auto
  finally have "int (unat (RX_MOD_BASE r (sn_of r n))) = int n - int H + int (win r)" by simp
  then show ?thesis using b(1) by linarith
qed

lemma rx_base_below:
  assumes cfg: "rx_cfg_ok (rx_cfg r)" and uh: "vr_uh r = sn_of r H" and b: "H \<le> n + 2 * win r" "n + win r < H"
  shows "unat (RX_MOD_BASE r (sn_of r n)) = n + 3 * win r - H"
proof -
  have "uint (RX_MOD_BASE r (sn_of r n)) = (int n - int H + int (win r)) mod (2 * int (win r))"
    by (rule rx_mod_base [OF cfg uh unat_sn_of(2) [OF cfg]])
  also have "\<dots> = (int n - int H + int (win r) + 2 * int (win r)) mod (2 * int (win r))"
    by (simp only: mod_add_self2)
  also have "\<dots> = int n - int H + int (win r) + 2 * int (win r)" using b by (intro mod_pos_pos_trivial) auto
  finally have "int (unat (RX_MOD_BASE r (sn_of r n))) = int n - int H + int (win r) + 2 * int (win r)" by simp
  then show ?thesis using b(1) by linarith
qed

lemma rx_base_edge:
  assumes cfg: "rx_cfg_ok (rx_cfg r)" and uh: "vr_uh r = sn_of r H"
  shows "RX_MOD_BASE r (vr_uh r - um_win r) = 0"
proof -
  have "uint (vr_uh r - um_win r) mod (2 * int (win r)) = (uint (vr_uh r) - int (win r)) mod (2 * int (win r))"
    using uint_minus_mod [OF dvd_32 [OF cfg]] by (simp add: win(4) [OF cfg])
  also have "\<dots> = (int H - int (win r)) mod (2 * int (win r))"
    by (metis mod_diff_left_eq uh unat_sn_of(2) [OF cfg])
  finally have "uint (RX_MOD_BASE r (vr_uh r - um_win r)) = (int H - int (win r) - int H + int (win r)) mod (2 * int (win r))"
    by (rule rx_mod_base [OF cfg uh])
  then show ?thesis by (simp add: uint_0_iff)
qed

lemma sn_of_u16: "rx_cfg_ok (rx_cfg r) \<Longrightarrow> ucast (ucast (sn_of r n) :: u16) = sn_of r n"
proof -
  assume "rx_cfg_ok (rx_cfg r)"
  then have "unat (sn_of r n) < 2 ^ 16" using unat_sn_of(3) [of r n] by simp
  then have "take_bit 16 (unat (sn_of r n)) = unat (sn_of r n)" by (rule take_bit_nat_eq_self)
  then have "unat (ucast (ucast (sn_of r n) :: u16) :: u32) = unat (sn_of r n)" by (simp add: unsigned_ucast_eq unsigned_take_bit_eq)
  then show ?thesis by (simp only: word_unat_eq_iff)
qed

lemma sn_of_Suc: "rx_cfg_ok (rx_cfg r) \<Longrightarrow> (sn_of r n + 1) mod um_mod r = sn_of r (Suc n)"
proof -
  assume cfg: "rx_cfg_ok (rx_cfg r)"
  have l: "unat (sn_of r n) + 1 < 2 ^ 32" using unat_sn_of(3) [OF cfg, of n] by simp
  have "unat ((sn_of r n + 1) mod um_mod r) = (unat (sn_of r n) + 1) mod (2 * win r)"
    using unat_add_lem [of "sn_of r n" 1] l by (simp add: unat_mod win(2) [OF cfg])
  also have "\<dots> = unat (sn_of r (Suc n))" by (simp add: unat_sn_of(1) [OF cfg] mod_Suc_eq)
  finally show ?thesis by (simp add: word_unat_eq_iff)
qed

lemma sn_of_inj:
  assumes cfg: "rx_cfg_ok (rx_cfg r)" and eq: "sn_of r m = sn_of r n" and b: "m < n + 2 * win r" "n < m + 2 * win r"
  shows "m = n"
proof -
  have "m mod (2 * win r) = n mod (2 * win r)" using arg_cong [OF eq, of unat] by (simp add: unat_sn_of(1) [OF cfg])
  then have d: "int (2 * win r) dvd int m - int n" by (metis mod_eq_dvd_iff zmod_int)
  then show ?thesis using b zdvd_imp_le [OF d] zdvd_imp_le [of "int (2 * win r)" "int n - int m"] dvd_minus_iff [of "int (2 * win r)" "int m - int n"]
    by (cases "m < n"; cases "n < m") auto
qed

lemma inside_spec:
  assumes cfg: "rx_cfg_ok (rx_cfg r)" and uh: "vr_uh r = sn_of r H" and ne: "rx_window r \<noteq> []"
    and b: "H \<le> n + 2 * win r" "n < H + win r"
  shows "inside_reordering_window r (ucast (sn_of r n)) \<longleftrightarrow> H \<le> n + win r \<and> n < H"
proof -
  have w0: "um_win r \<noteq> 0" using win(5) [OF cfg] by (auto simp: win_def)
  have h: "unat (RX_MOD_BASE r (vr_uh r)) = win r" using rx_base_sn [OF cfg uh, of H] win(5) [OF cfg] by (simp add: uh)
  have "inside_reordering_window r (ucast (sn_of r n)) \<longleftrightarrow> unat (RX_MOD_BASE r (sn_of r n)) < win r"
    using w0 ne by (simp add: inside_reordering_window_def rx_base_edge [OF cfg uh] sn_of_u16 [OF cfg] word_less_nat_alt h)
  moreover have "unat (RX_MOD_BASE r (sn_of r n)) = (if H \<le> n + win r then n + win r - H else n + 3 * win r - H)"
    using rx_base_sn [OF cfg uh _ b(2)] rx_base_below [OF cfg uh b(1)] by simp
  ultimately show ?thesis using b by auto
qed

section \<open>The stream and the invariant\<close>

text \<open>The PDUs in the order of their numbers: segments, and whether the last one ends its SDU.\<close>

type_synonym stream = "(bytes list \<times> bool) list"

primrec carry_at :: "stream \<Rightarrow> nat \<Rightarrow> bytes" where
  "carry_at s 0 = []"
| "carry_at s (Suc n) = pdu_carry (carry_at s n) (fst (s ! n)) (snd (s ! n))"

definition sdus_at :: "stream \<Rightarrow> nat \<Rightarrow> bytes list" where
  "sdus_at s n = pdu_sdus (carry_at s n) (fst (s ! n)) (snd (s ! n))"

definition sdus_in :: "stream \<Rightarrow> nat \<Rightarrow> nat \<Rightarrow> bytes list" where
  "sdus_in s m n = concat (map (sdus_at s) [m..<n])"

definition stream_ok :: "stream \<Rightarrow> bool" where
  "stream_ok s \<longleftrightarrow> (\<forall>n < length s. parts_ok (carry_at s n) (fst (s ! n)))"

lemma sdus_in_simps [simp]: "sdus_in s n n = []" "sdus_in s n (Suc n) = sdus_at s n"
  by (simp_all add: sdus_in_def)

lemma sdus_in_append: "l \<le> m \<Longrightarrow> m \<le> n \<Longrightarrow> sdus_in s l m @ sdus_in s m n = sdus_in s l n"
proof -
  assume "l \<le> m" "m \<le> n"
  then have "[l..<n] = [l..<m] @ [m..<n]" by (metis le_Suc_ex upt_add_eq_append)
  then show ?thesis by (simp add: sdus_in_def)
qed

lemma carry_at_append: "n \<le> length s \<Longrightarrow> carry_at (s @ t) n = carry_at s n"
  by (induction n) (simp_all add: nth_append)

lemma sdus_at_append: "n < length s \<Longrightarrow> sdus_at (s @ t) n = sdus_at s n"
  by (simp add: sdus_at_def carry_at_append nth_append)

lemma sdus_in_stream_append: "n \<le> length s \<Longrightarrow> sdus_in (s @ t) m n = sdus_in s m n"
  unfolding sdus_in_def by (rule arg_cong [where f = concat]) (simp add: sdus_at_append)

lemma subseq_sdus: "subseq xs (sdus_in s l m) \<Longrightarrow> subseq ys (sdus_in s m n) \<Longrightarrow> l \<le> m \<Longrightarrow> m \<le> n \<Longrightarrow> subseq (xs @ ys) (sdus_in s l n)"
  using list_emb_append_mono [of "(=)" xs "sdus_in s l m" ys "sdus_in s m n"] by (simp add: sdus_in_append)

text \<open>
  The receiver waits for PDU \<open>U\<close>, the highest that arrived is \<open>H - 1\<close>, and \<open>A\<close> are those in the window.
\<close>

definition win_inv :: "rlc_um_lte_rx \<Rightarrow> stream \<Rightarrow> nat \<Rightarrow> nat \<Rightarrow> nat set \<Rightarrow> bool" where
  "win_inv r s U H A \<longleftrightarrow> rx_cfg_ok (rx_cfg r) \<and> stream_ok s \<and> map_ok (rx_window r) \<and>
     vr_ur r = sn_of r U \<and> vr_uh r = sn_of r H \<and> U \<le> H \<and> H \<le> U + 2 * win r \<and> H \<le> length s \<and> A \<subseteq> {U..<H} \<and>
     (\<forall>n \<in> A. \<exists>pdu. map_find (sn_of r n) (rx_window r) = Some pdu \<and> um_pdu pdu (fst (s ! n)) (carry_at s n) (snd (s ! n))) \<and>
     (\<forall>k pdu. map_find k (rx_window r) = Some pdu \<longrightarrow> k \<in> sn_of r ` A)"

definition acc_inv :: "rlc_um_lte_rx \<Rightarrow> stream \<Rightarrow> nat \<Rightarrow> bool" where
  "acc_inv r s U \<longleftrightarrow> rx_sdu r \<noteq> None \<and>
     (sdu_octets r = [] \<or> 0 < U \<and> sdu_octets r = carry_at s U \<and> vr_ur_in_rx_sdu r = sn_of r (U - 1))"

text \<open>
  After a timeout the octets may be of an older SDU, which the test \<open>pdu_belongs_to_rx_sdu\<close> then finds out.
\<close>

definition acc_weak :: "rlc_um_lte_rx \<Rightarrow> stream \<Rightarrow> nat \<Rightarrow> nat \<Rightarrow> bool" where
  "acc_weak r s U B \<longleftrightarrow> sdu_octets r = [] \<or>
     (\<exists>V. 0 < V \<and> V \<le> U \<and> B \<le> V + win r \<and> sdu_octets r = carry_at s V \<and> vr_ur_in_rx_sdu r = sn_of r (V - 1))"

text \<open>The receiver has all octets up to PDU \<open>U\<close>.\<close>

definition synced :: "rlc_um_lte_rx \<Rightarrow> stream \<Rightarrow> nat \<Rightarrow> bool" where
  "synced r s U \<longleftrightarrow> sdu_octets r = carry_at s U \<and> pdu_belongs_to_rx_sdu r \<and> \<not> pdu_lost r"

definition same_env :: "rlc_um_lte_rx \<Rightarrow> rlc_um_lte_rx \<Rightarrow> bool" where
  "same_env r r' \<longleftrightarrow> rx_cfg r' = rx_cfg r \<and> rx_lcid r' = rx_lcid r \<and> vr_ux r' = vr_ux r \<and> vr_uh r' = vr_uh r \<and>
     reordering_running r' = reordering_running r \<and> reordering_callback r' = reordering_callback r"

lemma same_env_trans: "same_env a b \<Longrightarrow> same_env b c \<Longrightarrow> same_env a c"
  by (simp add: same_env_def)

lemma same_env_refl [simp]: "same_env r r"
  by (simp add: same_env_def)

lemma same_envD: "same_env r r' \<Longrightarrow> sn_of r' = sn_of r \<and> win r' = win r \<and> up_event r' = up_event r"
  by (auto simp: same_env_def sn_of_def win_def up_event_def)

lemma win_find:
  assumes inv: "win_inv r s U H A" and n: "U \<le> n" "n < H"
  shows "map_find (sn_of r n) (rx_window r) = None \<longleftrightarrow> n \<notin> A"
proof -
  have cfg: "rx_cfg_ok (rx_cfg r)" and A: "A \<subseteq> {U..<H}" and H: "H \<le> U + 2 * win r" using inv by (simp_all add: win_inv_def)
  have "n \<in> A" if f: "map_find (sn_of r n) (rx_window r) = Some pdu" for pdu
  proof -
    obtain m where m: "m \<in> A" "sn_of r n = sn_of r m" using inv f unfolding win_inv_def by blast
    then have "n = m" using A H n by (intro sn_of_inj [OF cfg m(2)]) auto
    then show ?thesis using m(1) by simp
  qed
  moreover have "map_find (sn_of r n) (rx_window r) \<noteq> None" if "n \<in> A" using inv that by (auto simp: win_inv_def)
  ultimately show ?thesis by (cases "map_find (sn_of r n) (rx_window r)") auto
qed

lemma win_empty: "win_inv r s U H A \<Longrightarrow> rx_window r = [] \<longleftrightarrow> A = {}"
proof -
  assume inv: "win_inv r s U H A"
  have "rx_window r = []" if "A = {}"
  proof (cases "rx_window r")
    case (Cons x m)
    then have "map_find (fst x) (rx_window r) = Some (snd x)" by (cases x) simp
    then show ?thesis using inv that by (auto simp: win_inv_def)
  qed
  moreover have "A = {}" if "rx_window r = []" using inv that by (auto simp: win_inv_def)
  ultimately show ?thesis by blast
qed

lemma next_vr_ur_env: "same_env r (next_vr_ur r)" "rx_window (next_vr_ur r) = rx_window r" "rx_sdu (next_vr_ur r) = rx_sdu r"
  "sdu_octets (next_vr_ur r) = sdu_octets r" "vr_ur_in_rx_sdu (next_vr_ur r) = vr_ur_in_rx_sdu r" "pdu_lost (next_vr_ur r) = pdu_lost r"
  "vr_ur (next_vr_ur r) = (vr_ur r + 1) mod um_mod r" "rx_cfg (next_vr_ur r) = rx_cfg r" "vr_uh (next_vr_ur r) = vr_uh r"
  by (simp_all add: next_vr_ur_def same_env_def)

text \<open>Moving on over a PDU that is not there, or that was erased.\<close>

lemma win_next:
  assumes inv: "win_inv r s U H A" and U: "U < H" and r': "same_env r r'" "vr_ur r' = vr_ur r"
    "rx_window r' = (if U \<in> A then map_erase (vr_ur r) (rx_window r) else rx_window r)"
  shows "win_inv (next_vr_ur r') s (Suc U) H (A - {U})"
proof -
  have cfg: "rx_cfg_ok (rx_cfg r)" and A: "A \<subseteq> {U..<H}" and H: "H \<le> U + 2 * win r" and mo: "map_ok (rx_window r)"
    using inv by (simp_all add: win_inv_def)
  have e: "sn_of (next_vr_ur r') = sn_of r" "win (next_vr_ur r') = win r"
    using same_envD [OF r'(1)] same_envD [OF next_vr_ur_env(1) [of r']] by simp_all
  have ur: "vr_ur r = sn_of r U" using inv by (simp add: win_inv_def)
  have ur': "vr_ur (next_vr_ur r') = sn_of r (Suc U)"
    using sn_of_Suc [OF cfg, of U] r' ur by (simp add: next_vr_ur_env same_env_def)
  have f: "map_find k (rx_window r') = (if k = sn_of r U then None else map_find k (rx_window r))" for k
    using win_find [OF inv order_refl U] mo ur by (simp add: r'(3) map_find_erase)
  have inj: "sn_of r n \<noteq> sn_of r U" if "n \<in> A - {U}" for n
    using sn_of_inj [OF cfg, of n U] that A H by auto
  have 1: "\<exists>pdu. map_find (sn_of r n) (rx_window r') = Some pdu \<and> um_pdu pdu (fst (s ! n)) (carry_at s n) (snd (s ! n))"
    if n: "n \<in> A - {U}" for n
    using inv n inj [OF n] unfolding f win_inv_def by simp
  have 2: "k \<in> sn_of r ` (A - {U})" if "map_find k (rx_window r') = Some pdu" for k pdu
  proof -
    have k: "k \<noteq> sn_of r U" "map_find k (rx_window r) = Some pdu" using that by (auto simp: f split: if_splits)
    then have "k \<in> sn_of r ` A" using inv unfolding win_inv_def by blast
    then show ?thesis using k(1) by blast
  qed
  have mo': "map_ok (rx_window r')" using mo by (simp add: r'(3) map_erase_ok)
  have uh: "vr_uh (next_vr_ur r') = sn_of r H" "rx_cfg_ok (rx_cfg (next_vr_ur r'))"
    using inv r' by (simp_all add: next_vr_ur_env win_inv_def same_env_def)
  have A': "A - {U} \<subseteq> {Suc U..<H}" using A by (auto simp: less_le Suc_le_eq)
  have rest: "stream_ok s" "H \<le> length s" using inv by (simp_all add: win_inv_def)
  show ?thesis unfolding win_inv_def e
    using 1 2 mo' ur' uh A' U H rest by (simp add: next_vr_ur_env)
qed

section \<open>The loops\<close>

text \<open>After one PDU, or after a PDU that is not there.\<close>

lemma acc_next:
  assumes cfg: "rx_cfg_ok (rx_cfg r)" and ur: "vr_ur r = sn_of r U"
    and st: "step_ok r (carry_at s U) (fst (s ! U)) (snd (s ! U)) r' ds x"
  shows "acc_inv (next_vr_ur (r'\<lparr>rx_window := w\<rparr>)) s (Suc U)" "same_env r (next_vr_ur (r'\<lparr>rx_window := w\<rparr>))"
    "x \<Longrightarrow> synced (next_vr_ur (r'\<lparr>rx_window := w\<rparr>)) s (Suc U)" "subseq ds (sdus_at s U)" "x \<Longrightarrow> ds = sdus_at s U"
proof -
  let ?n = "next_vr_ur (r'\<lparr>rx_window := w\<rparr>)"
  have env: "same_env r r'" using step_okD [OF st] by (simp add: same_env_def)
  then have "same_env r (r'\<lparr>rx_window := w\<rparr>)" by (simp add: same_env_def)
  then show env': "same_env r ?n" by (rule same_env_trans) (rule next_vr_ur_env)
  have sn: "sn_of ?n = sn_of r" using same_envD [OF env'] by simp
  have f: "sdu_octets ?n = sdu_octets r'" "vr_ur_in_rx_sdu ?n = vr_ur_in_rx_sdu r'" "rx_sdu ?n = rx_sdu r'"
    "pdu_lost ?n = pdu_lost r'" "vr_ur ?n = (vr_ur r' + 1) mod um_mod r'" "um_mod ?n = um_mod r'" "vr_ur r' = vr_ur r"
    using step_okD [OF st] by (simp_all add: next_vr_ur_env)
  show "acc_inv ?n s (Suc U)"
    using st step_okD(9) [OF st] ur by (auto simp: acc_inv_def f sn step_ok_def)
  show "synced ?n s (Suc U)" if x
    using st that by (simp add: synced_def f step_ok_def pdu_belongs_to_rx_sdu_def)
  show "subseq ds (sdus_at s U)" using st by (simp add: step_ok_def sdus_at_def)
  show "ds = sdus_at s U" if x using st that by (simp add: step_ok_def sdus_at_def)
qed

lemma acc_octets: "acc_inv r s U \<Longrightarrow> sdu_octets r \<in> {[], carry_at s U}"
  by (auto simp: acc_inv_def)

lemma win_pdu:
  assumes "win_inv r s U H A" "U \<in> A"
  obtains pdu where "map_find (vr_ur r) (rx_window r) = Some pdu" "um_pdu pdu (fst (s ! U)) (carry_at s U) (snd (s ! U))"
    "parts_ok (carry_at s U) (fst (s ! U))" "U < H"
proof -
  have "U < H" "H \<le> length s" "stream_ok s" "vr_ur r = sn_of r U" using assms by (auto simp: win_inv_def)
  moreover obtain pdu where "map_find (sn_of r U) (rx_window r) = Some pdu" "um_pdu pdu (fst (s ! U)) (carry_at s U) (snd (s ! U))"
    using assms by (auto simp: win_inv_def)
  ultimately show thesis using that by (auto simp: stream_ok_def)
qed

lemma step_env: "step_ok r c ps e r' ds x \<Longrightarrow> same_env r (r'\<lparr>rx_window := w\<rparr>) \<and> vr_ur (r'\<lparr>rx_window := w\<rparr>) = vr_ur r"
  using step_okD [of r c ps e r' ds x] by (simp add: same_env_def)

text \<open>The part of the two loops that handles PDU \<open>U\<close>.\<close>

lemma lower_step:
  assumes inv: "win_inv r s U H A" and acc: "acc_inv r s U" and U: "U < H"
  obtains r' ds where "(case map_find (vr_ur r) (rx_window r) of None \<Rightarrow> Some (clear_sdu r, []) | Some pdu \<Rightarrow> lower_pdu pdu r)
      = Some (r', map (up_event r) ds)" "win_inv (next_vr_ur r') s (Suc U) H (A - {U})" "acc_inv (next_vr_ur r') s (Suc U)"
    "same_env r (next_vr_ur r')" "subseq ds (sdus_at s U)"
proof (cases "U \<in> A")
  case True
  obtain pdu where pdu: "map_find (vr_ur r) (rx_window r) = Some pdu" "um_pdu pdu (fst (s ! U)) (carry_at s U) (snd (s ! U))"
    "parts_ok (carry_at s U) (fst (s ! U))"
    by (rule win_pdu [OF inv True])
  have sdu: "rx_sdu r \<noteq> None" and cfg: "rx_cfg_ok (rx_cfg r)" "vr_ur r = sn_of r U"
    using acc inv by (simp_all add: acc_inv_def win_inv_def)
  obtain r' ds where l: "lower_pdu pdu r = Some (r'\<lparr>rx_window := map_erase (vr_ur r) (rx_window r)\<rparr>, map (up_event r) ds)"
    "step_ok r (carry_at s U) (fst (s ! U)) (snd (s ! U)) r' ds False"
    by (rule lower_pdu_spec [OF pdu(3,2) acc_octets [OF acc] sdu])
  have "win_inv (next_vr_ur (r'\<lparr>rx_window := map_erase (vr_ur r) (rx_window r)\<rparr>)) s (Suc U) H (A - {U})"
    using step_env [OF l(2)] True by (intro win_next [OF inv U]) simp_all
  then show thesis using that l(1) pdu(1) acc_next(1,2,4) [OF cfg l(2)] by simp
next
  case False
  have ur: "vr_ur r = sn_of r U" using inv by (simp add: win_inv_def)
  have n: "map_find (vr_ur r) (rx_window r) = None" using win_find [OF inv order_refl U] False ur by simp
  have e: "same_env r (clear_sdu r)" "vr_ur (clear_sdu r) = vr_ur r" "rx_window (clear_sdu r) = rx_window r"
    by (simp_all add: same_env_def clear_sdu_def)
  have "win_inv (next_vr_ur (clear_sdu r)) s (Suc U) H (A - {U})"
    using win_next [OF inv U e(1,2)] False e(3) by simp
  moreover have "acc_inv (next_vr_ur (clear_sdu r)) s (Suc U)"
    by (simp add: acc_inv_def next_vr_ur_env) (simp add: clear_sdu_def)
  moreover have "same_env r (next_vr_ur (clear_sdu r))" using same_env_trans [OF e(1) next_vr_ur_env(1)] .
  ultimately show thesis using that [of "clear_sdu r" "[]"] n by simp
qed

lemma lower_edge_spec:
  assumes "win_inv r s U H A" "acc_inv r s U"
  shows "\<exists>r' U' ds. lower_edge r = Some (r', map (up_event r) ds) \<and> win_inv r' s U' H (A \<inter> {U'..}) \<and> acc_inv r' s U' \<and>
     same_env r r' \<and> U \<le> U' \<and> subseq ds (sdus_in s U U') \<and> (U' = U \<or> U' + win r \<le> H) \<and>
     (A \<inter> {U'..} = {} \<or> H \<le> U' + win r) \<and> (A = {} \<or> H \<le> U + win r \<longrightarrow> r' = r \<and> ds = [] \<and> U' = U)"
  using assms
proof (induction "H - U" arbitrary: r U A)
  case 0
  then have A: "A = {}" by (auto simp: win_inv_def)
  then have "inside_reordering_window r (ucast (vr_ur r))"
    using win_empty [OF 0(2)] by (simp add: inside_reordering_window_def)
  then show ?case using 0 A by (intro exI [of _ r] exI [of _ U] exI [of _ "[]"]) (simp add: lower_edge.simps)
next
  case (Suc n)
  have cfg: "rx_cfg_ok (rx_cfg r)" "vr_uh r = sn_of r H" "H \<le> U + 2 * win r" "A \<subseteq> {U..<H}" "vr_ur r = sn_of r U"
    using Suc.prems by (auto simp: win_inv_def)
  have U: "U < H" using Suc.hyps(2) by simp
  show ?case
  proof (cases "A = {} \<or> H \<le> U + win r")
    case True
    have "inside_reordering_window r (ucast (vr_ur r))"
    proof (cases "A = {}")
      case True
      then show ?thesis using win_empty [OF Suc.prems(1)] by (simp add: inside_reordering_window_def)
    next
      case False
      then show ?thesis
        using True inside_spec [OF cfg(1,2) _ cfg(3)] win_empty [OF Suc.prems(1)] U by (simp add: cfg(5))
    qed
    moreover have "A \<inter> {U..} = A" using cfg(4) by auto
    ultimately show ?thesis
      using True Suc.prems by (intro exI [of _ r] exI [of _ U] exI [of _ "[]"]) (simp add: lower_edge.simps)
  next
    case False
    then have out: "\<not> inside_reordering_window r (ucast (vr_ur r))"
      using inside_spec [OF cfg(1,2) _ cfg(3)] win_empty [OF Suc.prems(1)] U by (simp add: cfg(5))
    obtain r1 ds1 where s1: "(case map_find (vr_ur r) (rx_window r) of None \<Rightarrow> Some (clear_sdu r, []) | Some pdu \<Rightarrow> lower_pdu pdu r)
      = Some (r1, map (up_event r) ds1)" "win_inv (next_vr_ur r1) s (Suc U) H (A - {U})" "acc_inv (next_vr_ur r1) s (Suc U)"
      "same_env r (next_vr_ur r1)" "subseq ds1 (sdus_at s U)"
      by (rule lower_step [OF Suc.prems U])
    have n: "n = H - Suc U" using Suc.hyps(2) by simp
    obtain r' U' ds where IH: "lower_edge (next_vr_ur r1) = Some (r', map (up_event (next_vr_ur r1)) ds)"
      "win_inv r' s U' H ((A - {U}) \<inter> {U'..})" "acc_inv r' s U'" "same_env (next_vr_ur r1) r'" "Suc U \<le> U'"
      "subseq ds (sdus_in s (Suc U) U')" "U' = Suc U \<or> U' + win r \<le> H" "(A - {U}) \<inter> {U'..} = {} \<or> H \<le> U' + win r"
      using Suc.hyps(1) [OF n s1(2,3)] same_envD [OF s1(4)] by auto
    have A': "(A - {U}) \<inter> {U'..} = A \<inter> {U'..}" using IH(5) by auto
    have l: "lower_edge r = Some (r', map (up_event r) (ds1 @ ds))"
      using out s1(1) IH(1) same_envD [OF s1(4)] by (simp add: lower_edge.simps [of r])
    have sub: "subseq (ds1 @ ds) (sdus_in s U U')"
      using subseq_sdus [of ds1 s U "Suc U" ds U'] s1(5) IH(5,6) by simp
    have far: "Suc U + win r \<le> H" using False by simp
    show ?thesis
      using l sub IH(2,3,5,7,8) far False same_env_trans [OF s1(4) IH(4)] unfolding A'
      by (intro exI [of _ r'] exI [of _ U'] exI [of _ "ds1 @ ds"]) auto
  qed
qed

lemma acc_inv_weak: "acc_inv r s U \<Longrightarrow> acc_weak r s U U"
  by (auto simp: acc_inv_def acc_weak_def)

lemma acc_weak_belongs:
  assumes cfg: "rx_cfg_ok (rx_cfg r)" "vr_ur r = sn_of r U" and acc: "acc_weak r s U U"
  shows "pdu_belongs_to_rx_sdu r \<longrightarrow> sdu_octets r \<in> {[], carry_at s U}"
proof (cases "sdu_octets r = []")
  case False
  then obtain V where V: "0 < V" "V \<le> U" "U \<le> V + win r" "sdu_octets r = carry_at s V" "vr_ur_in_rx_sdu r = sn_of r (V - 1)"
    using acc by (auto simp: acc_weak_def)
  have w: "2 \<le> win r" using win(1) [OF cfg(1)] by auto
  have "(vr_ur_in_rx_sdu r + 1) mod um_mod r = sn_of r V"
    using sn_of_Suc [OF cfg(1), of "V - 1"] V(1,5) by simp
  then have "pdu_belongs_to_rx_sdu r \<longleftrightarrow> sn_of r V = sn_of r U \<or> sn_of r U = sn_of r (V - 1)"
    by (simp add: pdu_belongs_to_rx_sdu_def cfg(2) V(5))
  moreover have "V = U" if "sn_of r V = sn_of r U" using V w by (intro sn_of_inj [OF cfg(1) that]) auto
  moreover have "U = V - 1" if "sn_of r U = sn_of r (V - 1)" using V w by (intro sn_of_inj [OF cfg(1) that]) auto
  ultimately show ?thesis using V by auto
qed simp

lemma update_loop_spec:
  assumes "win_inv r s U H A" "acc_weak r s U U"
  shows "\<exists>r' U' ds. update_loop r = Some (r', map (up_event r) ds) \<and> win_inv r' s U' H (A \<inter> {U'..}) \<and>
     (r' = r \<and> U' = U \<or> acc_inv r' s U') \<and> same_env r r' \<and> U \<le> U' \<and> subseq ds (sdus_in s U U') \<and> U' \<notin> A \<and> {U..<U'} \<subseteq> A \<and>
     (synced r s U \<longrightarrow> synced r' s U' \<and> ds = sdus_in s U U')"
  using assms
proof (induction "H - U" arbitrary: r U A)
  case 0
  then have A: "A = {}" by (auto simp: win_inv_def)
  then have "map_find (vr_ur r) (rx_window r) = None" using win_empty [OF 0(2)] by simp
  then show ?case using 0 A by (intro exI [of _ r] exI [of _ U] exI [of _ "[]"]) (simp add: update_loop.simps)
next
  case (Suc n)
  have U: "U < H" using Suc.hyps(2) by simp
  have cfg: "rx_cfg_ok (rx_cfg r)" "vr_ur r = sn_of r U" "A \<subseteq> {U..<H}" using Suc.prems by (auto simp: win_inv_def)
  show ?case
  proof (cases "U \<in> A")
    case False
    then have "map_find (vr_ur r) (rx_window r) = None" using win_find [OF Suc.prems(1) order_refl U] cfg(2) by simp
    moreover have "A \<inter> {U..} = A" using cfg(3) by auto
    ultimately show ?thesis
      using Suc.prems False by (intro exI [of _ r] exI [of _ U] exI [of _ "[]"]) (simp add: update_loop.simps)
  next
    case True
    obtain pdu where pdu: "map_find (vr_ur r) (rx_window r) = Some pdu" "um_pdu pdu (fst (s ! U)) (carry_at s U) (snd (s ! U))"
      "parts_ok (carry_at s U) (fst (s ! U))"
      by (rule win_pdu [OF Suc.prems(1) True])
    obtain r1 ds1 where u: "update_pdu pdu r = Some (r1\<lparr>rx_window := map_erase (vr_ur r) (rx_window r)\<rparr>, map (up_event r) ds1)"
      "step_ok r (carry_at s U) (fst (s ! U)) (snd (s ! U)) r1 ds1
         (pdu_belongs_to_rx_sdu r \<and> \<not> pdu_lost r \<and> sdu_octets r = carry_at s U)"
      by (rule update_pdu_spec [OF pdu(3,2) acc_weak_belongs [OF cfg(1,2) Suc.prems(2)]])
    define r2 where "r2 = next_vr_ur (r1\<lparr>rx_window := map_erase (vr_ur r) (rx_window r)\<rparr>)"
    note nxt = acc_next(1-3) [OF cfg(1,2) u(2), of "map_erase (vr_ur r) (rx_window r)", folded r2_def]
      acc_next(4,5) [OF cfg(1,2) u(2)]
    have w: "win_inv r2 s (Suc U) H (A - {U})"
      unfolding r2_def using step_env [OF u(2)] True by (intro win_next [OF Suc.prems(1) U]) simp_all
    have n: "n = H - Suc U" using Suc.hyps(2) by simp
    obtain r' U' ds where IH: "update_loop r2 = Some (r', map (up_event r2) ds)"
      "win_inv r' s U' H ((A - {U}) \<inter> {U'..})" "r' = r2 \<and> U' = Suc U \<or> acc_inv r' s U'" "same_env r2 r'" "Suc U \<le> U'"
      "subseq ds (sdus_in s (Suc U) U')" "U' \<notin> A - {U}" "{Suc U..<U'} \<subseteq> A - {U}"
      "synced r2 s (Suc U) \<longrightarrow> synced r' s U' \<and> ds = sdus_in s (Suc U) U'"
      using Suc.hyps(1) [OF n w acc_inv_weak [OF nxt(1)]] by blast
    have acc': "acc_inv r' s U'" using IH(3) nxt(1) by blast
    have A': "(A - {U}) \<inter> {U'..} = A \<inter> {U'..}" "U' \<notin> A" "{U..<U'} \<subseteq> A"
      using IH(5,7,8) True by (auto simp: subset_iff) (metis Suc_leI le_neq_implies_less)
    have l: "update_loop r = Some (r', map (up_event r) (ds1 @ ds))"
      using pdu(1) u(1) IH(1) same_envD [OF nxt(2)] by (simp add: update_loop.simps [of r] r2_def)
    have sub: "subseq (ds1 @ ds) (sdus_in s U U')"
      using subseq_sdus [of ds1 s U "Suc U" ds U'] nxt(4) IH(5,6) by simp
    have sy: "synced r' s U' \<and> ds1 @ ds = sdus_in s U U'" if "synced r s U"
      using that nxt(3,5) IH(5,9) sdus_in_append [of U "Suc U" U' s] by (simp add: synced_def)
    show ?thesis
      using l sub IH(2,5) acc' same_env_trans [OF nxt(2) IH(4)] sy A'(2,3) unfolding A'(1)
      by (intro exI [of _ r'] exI [of _ U'] exI [of _ "ds1 @ ds"]) auto
  qed
qed

end
