(* ===== verification/Rlc_Um_Receive.thy ===== *)
theory Rlc_Um_Receive
  imports Rlc_Um_Window
begin

unbundle bit_operations_syntax

text \<open>
  The receiver between its events: the invariant that relates reordering window, timer and open SDU to the stream of
  PDUs, and that a received PDU and an expiry of the timer keep it and pass up SDUs of the stream only.
\<close>

section \<open>Reassembly\<close>

lemma acc_clear: "win_inv r s U H A \<Longrightarrow> acc_weak r s U U \<Longrightarrow> 
   (let r1 = (case rx_sdu r of None \<Rightarrow> clear_sdu r | Some _ \<Rightarrow> r) in
    win_inv r1 s U H A \<and> acc_weak r1 s U U \<and> same_env r r1 \<and> rx_sdu r1 \<noteq> None \<and> sdu_octets r1 = sdu_octets r \<and>
    vr_ur_in_rx_sdu r1 = vr_ur_in_rx_sdu r \<and> (synced r s U \<longrightarrow> synced r1 s U))"
  by (cases "rx_sdu r")
    (auto simp: win_inv_def acc_weak_def same_env_def clear_sdu_def sn_of_def win_def sdu_octets_def synced_def
      pdu_belongs_to_rx_sdu_def)

lemma lower_edge_entry:
  assumes inv: "win_inv r s U H A" and acc: "acc_weak r s U U" and sdu: "rx_sdu r \<noteq> None"
    and enter: "U \<notin> A \<or> H \<le> U + win r"
  shows "\<exists>r' U' ds. lower_edge r = Some (r', map (up_event r) ds) \<and> win_inv r' s U' H (A \<inter> {U'..}) \<and>
     acc_weak r' s U' U' \<and> rx_sdu r' \<noteq> None \<and> same_env r r' \<and> U \<le> U' \<and> subseq ds (sdus_in s U U') \<and>
     (r' = r \<and> U' = U \<or> acc_inv r' s U') \<and>
     (U' = U \<or> U' + win r \<le> H) \<and> (A \<inter> {U'..} = {} \<or> H \<le> U' + win r) \<and> (H \<le> U + win r \<longrightarrow> r' = r \<and> ds = [] \<and> U' = U)"
proof (cases "A = {} \<or> H \<le> U + win r")
  case True
  have cfg: "rx_cfg_ok (rx_cfg r)" "vr_uh r = sn_of r H" "H \<le> U + 2 * win r" "A \<subseteq> {U..<H}" "vr_ur r = sn_of r U"
    using inv by (auto simp: win_inv_def)
  have "inside_reordering_window r (ucast (vr_ur r))"
  proof (cases "A = {}")
    case True
    then show ?thesis using win_empty [OF inv] by (simp add: inside_reordering_window_def)
  next
    case False
    then have "U < H" using cfg(4) by fastforce
    then show ?thesis
      using True False inside_spec [OF cfg(1,2) _ cfg(3)] win_empty [OF inv] by (simp add: cfg(5))
  qed
  moreover have "A \<inter> {U..} = A" using cfg(4) by auto
  ultimately show ?thesis
    using True inv acc sdu by (intro exI [of _ r] exI [of _ U] exI [of _ "[]"]) (simp add: lower_edge.simps)
next
  case False
  then have U: "U \<notin> A" "U + win r < H" using enter by auto
  then have lt: "U < H" by simp
  have cfg: "rx_cfg_ok (rx_cfg r)" "vr_uh r = sn_of r H" "H \<le> U + 2 * win r" "A \<subseteq> {U..<H}" "vr_ur r = sn_of r U"
    using inv by (auto simp: win_inv_def)
  have out: "\<not> inside_reordering_window r (ucast (vr_ur r))"
    using False inside_spec [OF cfg(1,2) _ cfg(3)] win_empty [OF inv] lt by (simp add: cfg(5))
  let ?n = "next_vr_ur (clear_sdu r)"
  have n: "map_find (vr_ur r) (rx_window r) = None" using win_find [OF inv order_refl lt] U(1) cfg(5) by simp
  have e: "same_env r (clear_sdu r)" "vr_ur (clear_sdu r) = vr_ur r" "rx_window (clear_sdu r) = rx_window r"
    by (simp_all add: same_env_def clear_sdu_def)
  have w: "win_inv ?n s (Suc U) H A"
    using win_next [OF inv lt e(1,2)] U(1) e(3) by simp
  have a: "acc_inv ?n s (Suc U)"
    by (simp add: acc_inv_def next_vr_ur_env) (simp add: clear_sdu_def)
  have env: "same_env r ?n" using same_env_trans [OF e(1) next_vr_ur_env(1)] .
  from lower_edge_spec [OF w a] obtain r' U' ds where l: "lower_edge ?n = Some (r', map (up_event ?n) ds)"
    "win_inv r' s U' H (A \<inter> {U'..})" "acc_inv r' s U'" "same_env ?n r'" "Suc U \<le> U'" "subseq ds (sdus_in s (Suc U) U')"
    "U' = Suc U \<or> U' + win r \<le> H" "A \<inter> {U'..} = {} \<or> H \<le> U' + win r"
    using same_envD [OF env] by auto
  have "lower_edge r = Some (r', map (up_event r) ds)"
    using out n l(1) same_envD [OF env] by (simp add: lower_edge.simps [of r])
  moreover have "subseq ds (sdus_in s U U')"
    using subseq_sdus [of "[]" s U "Suc U" ds U'] l(5,6) by simp
  moreover have "acc_weak r' s U' U'" "rx_sdu r' \<noteq> None" using acc_inv_weak [OF l(3)] l(3) by (simp_all add: acc_inv_def)
  ultimately show ?thesis
    using l(2,3,5,7,8) U(2) same_env_trans [OF env l(4)]
    by (intro exI [of _ r'] exI [of _ U'] exI [of _ ds]) auto
qed

lemma reassemble_spec:
  assumes inv: "win_inv r s U H A" and acc: "acc_weak r s U U" and enter: "U \<notin> A \<or> H \<le> U + win r"
  obtains r' U' ds where "reassemble_rx_sdus r = Some (r', map (up_event r) ds)" "win_inv r' s U' H (A \<inter> {U'..})"
    "sdu_octets r' = sdu_octets r \<and> vr_ur_in_rx_sdu r' = vr_ur_in_rx_sdu r \<and> U' = U \<or> acc_inv r' s U'" "same_env r r'" "U \<le> U'"
    "subseq ds (sdus_in s U U')" "U' \<notin> A" "A \<inter> {U'..} = {} \<or> H \<le> U' + win r"
    "\<forall>n. U \<le> n \<and> n \<notin> A \<and> H \<le> n + win r \<longrightarrow> U' \<le> n"
    "H \<le> U + win r \<and> synced r s U \<longrightarrow> synced r' s U' \<and> ds = sdus_in s U U'"
proof -
  define r1 where "r1 = (case rx_sdu r of None \<Rightarrow> clear_sdu r | Some _ \<Rightarrow> r)"
  have r1: "win_inv r1 s U H A" "acc_weak r1 s U U" "same_env r r1" "rx_sdu r1 \<noteq> None" "sdu_octets r1 = sdu_octets r"
    "vr_ur_in_rx_sdu r1 = vr_ur_in_rx_sdu r" "synced r s U \<longrightarrow> synced r1 s U"
    using acc_clear [OF inv acc] by (simp_all add: Let_def r1_def)
  have e1: "win r1 = win r" "up_event r1 = up_event r" using same_envD [OF r1(3)] by simp_all
  obtain r2 U2 ds2 where l: "lower_edge r1 = Some (r2, map (up_event r) ds2)" "win_inv r2 s U2 H (A \<inter> {U2..})"
    "acc_weak r2 s U2 U2" "rx_sdu r2 \<noteq> None" "same_env r1 r2" "U \<le> U2" "subseq ds2 (sdus_in s U U2)" "r2 = r1 \<and> U2 = U \<or> acc_inv r2 s U2"
    "U2 = U \<or> U2 + win r \<le> H" "A \<inter> {U2..} = {} \<or> H \<le> U2 + win r" "H \<le> U + win r \<longrightarrow> r2 = r1 \<and> ds2 = [] \<and> U2 = U"
    using lower_edge_entry [OF r1(1,2,4)] enter unfolding e1 by blast
  have env2: "same_env r r2" by (rule same_env_trans [OF r1(3) l(5)])
  have e2: "up_event r2 = up_event r" using same_envD [OF env2] by simp
  obtain r' U' ds where u: "update_loop r2 = Some (r', map (up_event r) ds)" "win_inv r' s U' H ((A \<inter> {U2..}) \<inter> {U'..})"
    "r' = r2 \<and> U' = U2 \<or> acc_inv r' s U'" "same_env r2 r'" "U2 \<le> U'" "subseq ds (sdus_in s U2 U')" "U' \<notin> A \<inter> {U2..}"
    "{U2..<U'} \<subseteq> A \<inter> {U2..}" "synced r2 s U2 \<longrightarrow> synced r' s U' \<and> ds = sdus_in s U2 U'"
    using update_loop_spec [OF l(2,3)] unfolding e2 by blast
  have A': "(A \<inter> {U2..}) \<inter> {U'..} = A \<inter> {U'..}" using u(5) by auto
  show thesis
  proof (rule that)
    show "reassemble_rx_sdus r = Some (r', map (up_event r) (ds2 @ ds))"
      unfolding reassemble_rx_sdus_def Let_def r1_def [symmetric] l(1) by (simp add: u(1))
    show "win_inv r' s U' H (A \<inter> {U'..})" using u(2) unfolding A' .
    show "sdu_octets r' = sdu_octets r \<and> vr_ur_in_rx_sdu r' = vr_ur_in_rx_sdu r \<and> U' = U \<or> acc_inv r' s U'"
      using u(3) l(8) r1(5,6) by auto
    show "same_env r r'" by (rule same_env_trans [OF env2 u(4)])
    show "U \<le> U'" using l(6) u(5) by simp
    show "subseq (ds2 @ ds) (sdus_in s U U')" by (rule subseq_sdus [OF l(7) u(6) l(6) u(5)])
    show "U' \<notin> A" using u(5,7) by auto
    show "A \<inter> {U'..} = {} \<or> H \<le> U' + win r" using l(10) u(5) by force
    show "\<forall>n. U \<le> n \<and> n \<notin> A \<and> H \<le> n + win r \<longrightarrow> U' \<le> n"
    proof (intro allI impI)
      fix n assume n: "U \<le> n \<and> n \<notin> A \<and> H \<le> n + win r"
      then have "U2 \<le> n" using l(9) by auto
      moreover have "n \<notin> {U2..<U'}" using u(8) n by blast
      ultimately show "U' \<le> n" by simp
    qed
    show "H \<le> U + win r \<and> synced r s U \<longrightarrow> synced r' s U' \<and> ds2 @ ds = sdus_in s U U'"
      using l(11) u(9) r1(7) by auto
  qed
qed

section \<open>Between the events\<close>

definition um_rx_inv :: "rlc_um_lte_rx \<Rightarrow> stream \<Rightarrow> nat \<Rightarrow> nat \<Rightarrow> nat set \<Rightarrow> bool" where
  "um_rx_inv r s U H A \<longleftrightarrow> win_inv r s U H A \<and> acc_weak r s U U \<and> H \<le> U + win r \<and> U \<notin> A \<and> (U < H \<longrightarrow> H - 1 \<in> A) \<and>
     (reordering_running r \<longrightarrow> (\<exists>X. U < X \<and> X \<le> H \<and> vr_ux r = sn_of r X))"

lemma win_inv_timer [simp]:
  "win_inv (r\<lparr>reordering_running := b\<rparr>) s U H A \<longleftrightarrow> win_inv r s U H A"
  "win_inv (r\<lparr>reordering_running := b, vr_ux := x\<rparr>) s U H A \<longleftrightarrow> win_inv r s U H A"
  "acc_weak (r\<lparr>reordering_running := b\<rparr>) s U B \<longleftrightarrow> acc_weak r s U B"
  "acc_weak (r\<lparr>reordering_running := b, vr_ux := x\<rparr>) s U B \<longleftrightarrow> acc_weak r s U B"
  "win (r\<lparr>reordering_running := b\<rparr>) = win r" "win (r\<lparr>reordering_running := b, vr_ux := x\<rparr>) = win r"
  "sn_of (r\<lparr>reordering_running := b\<rparr>) = sn_of r" "sn_of (r\<lparr>reordering_running := b, vr_ux := x\<rparr>) = sn_of r"
  "up_event (r\<lparr>reordering_running := b\<rparr>) = up_event r"
  by (auto simp: win_inv_def acc_weak_def sn_of_def win_def sdu_octets_def up_event_def)

lemma synced_timer [simp]:
  "synced (r\<lparr>reordering_running := b\<rparr>) s U \<longleftrightarrow> synced r s U"
  "synced (r\<lparr>reordering_running := b, vr_ux := x\<rparr>) s U \<longleftrightarrow> synced r s U"
  by (simp_all add: synced_def sdu_octets_def pdu_belongs_to_rx_sdu_def)

lemma acc_weakI: "acc_inv r s U \<or> acc_weak r s U U \<Longrightarrow> acc_weak r s U U"
  using acc_inv_weak by blast

lemma update_timer_spec:
  assumes inv: "win_inv r s U H A" and acc: "acc_weak r s U U" and b: "H \<le> U + win r" "U \<notin> A" "U < H \<longrightarrow> H - 1 \<in> A"
    and tm: "reordering_running r \<Longrightarrow> \<exists>X. X \<le> H \<and> H < X + 2 * win r \<and> vr_ux r = sn_of r X \<and> (X + win r < H \<longrightarrow> U < H)"
  shows "um_rx_inv (update_timer r) s U H A" "synced r s U \<Longrightarrow> synced (update_timer r) s U"
    "rx_cfg (update_timer r) = rx_cfg r" "rx_lcid (update_timer r) = rx_lcid r"
    "reordering_callback (update_timer r) = reordering_callback r"
proof -
  have cfg: "rx_cfg_ok (rx_cfg r)" "vr_uh r = sn_of r H" "U \<le> H" "vr_ur r = sn_of r U"
    using inv by (auto simp: win_inv_def)
  have w: "0 < win r" by (rule win(5) [OF cfg(1)])
  have base: "unat (RX_MOD_BASE r (vr_ur r)) = U + win r - H" "unat (RX_MOD_BASE r (vr_uh r)) = win r"
    using rx_base_sn [OF cfg(1,2) b(1)] rx_base_sn [OF cfg(1,2), of H] cfg w by simp_all
  define r1 where "r1 = (if reordering_running r \<and> (RX_MOD_BASE r (vr_ux r) \<le> RX_MOD_BASE r (vr_ur r) \<or>
                \<not> inside_reordering_window r (ucast (vr_ux r)) \<and> vr_ux r \<noteq> vr_uh r)
              then r\<lparr>reordering_running := False\<rparr> else r)"
  have run: "\<exists>X. U < X \<and> X \<le> H \<and> vr_ux r = sn_of r X" if r1_run: "reordering_running r1"
  proof -
    have on: "reordering_running r" "\<not> RX_MOD_BASE r (vr_ux r) \<le> RX_MOD_BASE r (vr_ur r)"
      "inside_reordering_window r (ucast (vr_ux r)) \<or> vr_ux r = vr_uh r"
      using r1_run by (auto simp: r1_def split: if_splits)
    obtain X where X: "X \<le> H" "H < X + 2 * win r" "vr_ux r = sn_of r X" "X + win r < H \<longrightarrow> U < H" using tm [OF on(1)] by blast
    show ?thesis
    proof (cases "X + win r < H")
      case False
      then have "unat (RX_MOD_BASE r (vr_ux r)) = X + win r - H"
        using rx_base_sn [OF cfg(1,2), of X] X w by simp
      then have "U < X" using on(2) base(1) by (simp add: word_le_nat_alt)
      then show ?thesis using X by blast
    next
      case True
      then have "A \<noteq> {}" using X(4) b(3) by auto
      then have "rx_window r \<noteq> []" using win_empty [OF inv] by simp
      then have "\<not> inside_reordering_window r (ucast (vr_ux r))"
        using inside_spec [OF cfg(1,2), of X] X True by simp
      moreover have "X = H" if "vr_ux r = vr_uh r"
        using that X cfg(2) w by (intro sn_of_inj [OF cfg(1)]) auto
      ultimately show ?thesis using on(3) True by auto
    qed
  qed
  have ut: "update_timer r = (if \<not> reordering_running r1 \<and> U < H then r1\<lparr>reordering_running := True, vr_ux := vr_uh r\<rparr> else r1)"
  proof -
    have "RX_MOD_BASE r1 = RX_MOD_BASE r" "vr_ur r1 = vr_ur r" "vr_uh r1 = vr_uh r" by (auto simp: r1_def RX_MOD_BASE_def)
    moreover have "RX_MOD_BASE r (vr_ur r) < RX_MOD_BASE r (vr_uh r) \<longleftrightarrow> U < H"
      unfolding word_less_nat_alt base using b(1) cfg(3) w by linarith
    ultimately show ?thesis unfolding update_timer_def Let_def r1_def [symmetric] by simp
  qed
  have f: "win_inv r1 s U H A" "acc_weak r1 s U U" "win r1 = win r" "sn_of r1 = sn_of r" "reordering_running r1 \<longrightarrow> vr_ux r1 = vr_ux r"
    "synced r s U \<Longrightarrow> synced r1 s U" "rx_cfg r1 = rx_cfg r" "rx_lcid r1 = rx_lcid r" "reordering_callback r1 = reordering_callback r"
    using inv acc by (auto simp: r1_def)
  show "um_rx_inv (update_timer r) s U H A"
  proof (cases "\<not> reordering_running r1 \<and> U < H")
    case True
    then show ?thesis using f b cfg unfolding ut um_rx_inv_def by auto
  next
    case False
    then show ?thesis using f b cfg run unfolding ut um_rx_inv_def by auto
  qed
  show "synced r s U \<Longrightarrow> synced (update_timer r) s U" using f by (simp add: ut)
  show "rx_cfg (update_timer r) = rx_cfg r" "rx_lcid (update_timer r) = rx_lcid r"
    "reordering_callback (update_timer r) = reordering_callback r"
    using f by (simp_all add: ut)
qed

section \<open>A PDU arrives\<close>

text \<open>The octets of PDU \<open>n\<close> of the stream.\<close>

definition pdu_octets_at :: "rlc_um_lte_rx \<Rightarrow> stream \<Rightarrow> nat \<Rightarrow> bytes \<Rightarrow> bool" where
  "pdu_octets_at r s n payload \<longleftrightarrow> (\<exists>h. payload = rlc_um_write_data_pdu_header h (concat (fst (s ! n))) \<and> header_ok h \<and>
     h_sn_size h = rx_sn_field_length (rc_um (rx_cfg r)) \<and> h_sn h = ucast (sn_of r n) \<and>
     um_pdu \<lparr>up_header = h, up_buf = concat (fst (s ! n))\<rparr> (fst (s ! n)) (carry_at s n) (snd (s ! n)) \<and>
     length payload \<le> buffer_room)"

text \<open>Storing it.\<close>

lemma win_store:
  assumes inv: "win_inv r s U H A" and b: "H \<le> U + win r" and n: "n < length s" "n < H + win r" "U \<le> n"
    and pdu: "um_pdu pdu (fst (s ! n)) (carry_at s n) (snd (s ! n))"
  defines "r1 \<equiv> r\<lparr>rx_window := map_assign (sn_of r n) pdu (rx_window r)\<rparr>"
  defines "r2 \<equiv> (if inside_reordering_window r1 (ucast (sn_of r n)) then r1 else r1\<lparr>vr_uh := (sn_of r n + 1) mod um_mod r1\<rparr>)"
  shows "win_inv r2 s U (max H (Suc n)) (insert n A)" "vr_uh r2 = sn_of r (max H (Suc n))"
    "r2 = r1\<lparr>vr_uh := vr_uh r2\<rparr>"
proof -
  have cfg: "rx_cfg_ok (rx_cfg r)" "vr_uh r = sn_of r H" "U \<le> H" "vr_ur r = sn_of r U" "A \<subseteq> {U..<H}" "map_ok (rx_window r)"
    "H \<le> length s" "stream_ok s"
    using inv by (auto simp: win_inv_def)
  have w: "0 < win r" by (rule win(5) [OF cfg(1)])
  have e: "win r1 = win r" "sn_of r1 = sn_of r" "rx_cfg r1 = rx_cfg r" by (auto simp: r1_def win_def sn_of_def)
  have find: "map_find k (rx_window r1) = (if k = sn_of r n then Some pdu else map_find k (rx_window r))" for k
    using cfg(6) by (simp add: r1_def map_find_assign)
  have ne: "rx_window r1 \<noteq> []" using find [of "sn_of r n"] by auto
  have ins: "inside_reordering_window r1 (ucast (sn_of r n)) \<longleftrightarrow> n < H"
    using inside_spec [of r1 H n] cfg(1,2) ne n b unfolding e by (simp add: r1_def)
  have mx: "max H (Suc n) = (if n < H then H else Suc n)" by auto
  have uh: "vr_uh r2 = sn_of r (max H (Suc n))"
    using sn_of_Suc [OF cfg(1), of n] cfg(2) ins unfolding mx by (simp add: r2_def r1_def)
  then show "vr_uh r2 = sn_of r (max H (Suc n))" .
  show "r2 = r1\<lparr>vr_uh := vr_uh r2\<rparr>" by (simp add: r2_def)
  have e2: "win r2 = win r" "sn_of r2 = sn_of r" "rx_cfg r2 = rx_cfg r" "rx_window r2 = rx_window r1" "vr_ur r2 = vr_ur r"
    by (auto simp: r2_def r1_def win_def sn_of_def)
  have 1: "\<exists>pdu. map_find (sn_of r m) (rx_window r1) = Some pdu \<and> um_pdu pdu (fst (s ! m)) (carry_at s m) (snd (s ! m))"
    if m: "m \<in> insert n A" for m
  proof (cases "m = n")
    case True
    then show ?thesis using pdu by (simp add: find)
  next
    case False
    then have mA: "m \<in> A" using m by simp
    then have "sn_of r m \<noteq> sn_of r n" using sn_of_inj [OF cfg(1), of m n] False cfg(5) n b by auto
    then show ?thesis using inv mA by (simp add: find win_inv_def)
  qed
  have 2: "k \<in> sn_of r ` insert n A" if "map_find k (rx_window r1) = Some q" for k q
    using inv that by (auto simp: find win_inv_def split: if_splits)
  show "win_inv r2 s U (max H (Suc n)) (insert n A)"
  proof -
    have "insert n A \<subseteq> {U..<max H (Suc n)}" using cfg(5) n(3) by (auto simp: subset_iff)
    moreover have "max H (Suc n) \<le> U + 2 * win r" using n b by simp
    ultimately show ?thesis
      unfolding win_inv_def e2 using 1 2 cfg uh n(1) by (simp add: r1_def map_assign_ok)
  qed
qed

lemma handle_data_pdu_spec:
  assumes inv: "um_rx_inv r s U H A" and pdu: "pdu_octets_at r s n payload" and n: "n < length s" "n < H + win r" "H \<le> n + win r"
  obtains r' U' ds where "handle_data_pdu payload r = Some (r', map (up_event r) ds)"
    "um_rx_inv r' s U' (max H (Suc n)) ((if n < U then A else insert n A) \<inter> {U'..})" "U \<le> U'" "subseq ds (sdus_in s U U')"
    "rx_cfg r' = rx_cfg r" "rx_lcid r' = rx_lcid r" "reordering_callback r' = reordering_callback r"
    "n = U \<and> U = H \<and> synced r s U \<longrightarrow> U' = Suc U \<and> synced r' s U' \<and> ds = sdus_at s U"
proof -
  have wi: "win_inv r s U H A" and acc: "acc_weak r s U U" and b: "H \<le> U + win r" and UA: "U \<notin> A" and top: "U < H \<longrightarrow> H - 1 \<in> A"
    using inv by (simp_all add: um_rx_inv_def)
  have cfg: "rx_cfg_ok (rx_cfg r)" "vr_uh r = sn_of r H" "U \<le> H" "vr_ur r = sn_of r U" "A \<subseteq> {U..<H}"
    using wi by (auto simp: win_inv_def)
  have w: "0 < win r" by (rule win(5) [OF cfg(1)])
  obtain h where h: "payload = rlc_um_write_data_pdu_header h (concat (fst (s ! n)))" "header_ok h"
    "h_sn_size h = rx_sn_field_length (rc_um (rx_cfg r))" "h_sn h = ucast (sn_of r n)"
    "um_pdu \<lparr>up_header = h, up_buf = concat (fst (s ! n))\<rparr> (fst (s ! n)) (carry_at s n) (snd (s ! n))"
    "length payload \<le> buffer_room"
    using pdu by (auto simp: pdu_octets_at_def)
  have rd: "rlc_um_read_data_pdu_header payload (rx_sn_field_length (rc_um (rx_cfg r))) = Some h"
    unfolding h(1) h(3) [symmetric] by (rule read_write_header [OF h(2)])
  have sn: "ucast (h_sn h) = sn_of r n" using h(4) sn_of_u16 [OF cfg(1)] by simp
  have base: "unat (RX_MOD_BASE r (sn_of r n)) = n + win r - H" "unat (RX_MOD_BASE r (vr_ur r)) = U + win r - H"
    using rx_base_sn [OF cfg(1,2) n(3,2)] rx_base_sn [OF cfg(1,2) b] cfg w by simp_all
  have old: "(RX_MOD_BASE r (vr_uh r - um_win r) \<le> RX_MOD_BASE r (ucast (h_sn h)) \<and>
       RX_MOD_BASE r (ucast (h_sn h)) < RX_MOD_BASE r (vr_ur r)) \<longleftrightarrow> n < U"
    unfolding sn rx_base_edge [OF cfg(1,2)] word_less_nat_alt word_le_nat_alt base using n b by auto
  show thesis
  proof (cases "n < U")
    case True
    then have m: "max H (Suc n) = H" "A \<inter> {U..} = A" using cfg(3,5) by auto
    show thesis
    proof (rule that [of r "[]" U])
      show "handle_data_pdu payload r = Some (r, map (up_event r) [])"
        unfolding handle_data_pdu_def rd using old True by simp
    qed (use inv True m cfg(3) in simp_all)
  next
    case nU: False
    show thesis
    proof (cases "n \<in> A")
      case True
      then have f: "map_find (sn_of r n) (rx_window r) \<noteq> None" using win_find [OF wi, of n] cfg(5) by auto
      have m: "max H (Suc n) = H" "insert n A \<inter> {U..} = A" using True cfg(5) by auto
      show thesis
      proof (rule that [of r "[]" U])
        show "handle_data_pdu payload r = Some (r, map (up_event r) [])"
          unfolding handle_data_pdu_def rd bind.bind_lunit sn old [unfolded sn] if_not_P [OF nU] if_P [OF f] by simp
      qed (use inv m nU True UA in simp_all, use True UA in auto)
    next
      case nA: False
      have f: "\<not> map_find (sn_of r n) (rx_window r) \<noteq> None"
      proof (cases "n < H")
        case True
        then show ?thesis using win_find [OF wi, of n] nU nA by simp
      next
        case False
        have "sn_of r n \<notin> sn_of r ` A"
          using sn_of_inj [OF cfg(1), of n] cfg(5) False n b by fastforce
        then show ?thesis using wi unfolding win_inv_def by blast
      qed
      have Un: "U \<le> n" using nU by simp
      define pdu where "pdu = \<lparr>up_header = h, up_buf = concat (fst (s ! n))\<rparr>"
      have buf: "append_octets [] payload = Some payload" "drop (rlc_um_packed_length h) payload = concat (fst (s ! n))"
        using h(6) drop_write_header by (simp_all add: append_octets_def h(1))
      define r1 where "r1 = r\<lparr>rx_window := map_assign (sn_of r n) pdu (rx_window r)\<rparr>"
      define r2 where "r2 = (if inside_reordering_window r1 (ucast (sn_of r n)) then r1
        else r1\<lparr>vr_uh := (sn_of r n + 1) mod um_mod r1\<rparr>)"
      have st: "win_inv r2 s U (max H (Suc n)) (insert n A)" "vr_uh r2 = sn_of r (max H (Suc n))" "r2 = r1\<lparr>vr_uh := vr_uh r2\<rparr>"
        unfolding r2_def r1_def pdu_def by (rule win_store [OF wi b n(1,2) Un h(5)])+
      have fr: "sdu_octets r2 = sdu_octets r" "vr_ur_in_rx_sdu r2 = vr_ur_in_rx_sdu r" "win r2 = win r" "sn_of r2 = sn_of r"
        "up_event r2 = up_event r" "rx_cfg r2 = rx_cfg r" "rx_lcid r2 = rx_lcid r" "reordering_callback r2 = reordering_callback r"
        "reordering_running r2 = reordering_running r" "vr_ux r2 = vr_ux r" "pdu_lost r2 = pdu_lost r" "vr_ur r2 = vr_ur r"
        by (simp_all add: r2_def r1_def sdu_octets_def win_def sn_of_def up_event_def fun_eq_iff)
      have acc2: "acc_weak r2 s U U" using acc by (simp add: acc_weak_def fr)
      have enter: "U \<notin> insert n A \<or> max H (Suc n) \<le> U + win r2"
        using UA b w by (cases "U = n") (auto simp: fr)
      obtain r3 U' ds where re: "reassemble_rx_sdus r2 = Some (r3, map (up_event r) ds)"
        "win_inv r3 s U' (max H (Suc n)) (insert n A \<inter> {U'..})"
        "sdu_octets r3 = sdu_octets r \<and> vr_ur_in_rx_sdu r3 = vr_ur_in_rx_sdu r \<and> U' = U \<or> acc_inv r3 s U'" "same_env r2 r3" "U \<le> U'"
        "subseq ds (sdus_in s U U')" "U' \<notin> insert n A" "insert n A \<inter> {U'..} = {} \<or> max H (Suc n) \<le> U' + win r"
        "\<forall>m. U \<le> m \<and> m \<notin> insert n A \<and> max H (Suc n) \<le> m + win r \<longrightarrow> U' \<le> m"
        "max H (Suc n) \<le> U + win r \<and> synced r2 s U \<longrightarrow> synced r3 s U' \<and> ds = sdus_in s U U'"
        by (rule reassemble_spec [OF st(1) acc2 enter, unfolded fr])
      let ?H = "max H (Suc n)" and ?A = "insert n A \<inter> {U'..}"
      have top': "U' < ?H \<longrightarrow> ?H - 1 \<in> ?A"
      proof
        assume "U' < ?H"
        moreover have "?H - 1 \<in> insert n A" using top nU by (cases "n < H") (auto simp: max_def)
        ultimately show "?H - 1 \<in> ?A" by auto
      qed
      have b': "?H \<le> U' + win r" using re(8) top' by fastforce
      have e3: "win r3 = win r" "sn_of r3 = sn_of r" using same_envD [OF re(4)] fr by simp_all
      have acc3: "acc_weak r3 s U' U'"
        using re(3)
      proof
        assume "acc_inv r3 s U'"
        then show ?thesis by (rule acc_inv_weak)
      next
        assume "sdu_octets r3 = sdu_octets r \<and> vr_ur_in_rx_sdu r3 = vr_ur_in_rx_sdu r \<and> U' = U"
        then show ?thesis using acc by (simp add: acc_weak_def e3)
      qed
      have tm: "\<exists>X. X \<le> ?H \<and> ?H < X + 2 * win r3 \<and> vr_ux r3 = sn_of r3 X \<and> (X + win r3 < ?H \<longrightarrow> U' < ?H)"
        if "reordering_running r3"
      proof -
        have "reordering_running r" "vr_ux r3 = vr_ux r" using that re(4) fr by (simp_all add: same_env_def)
        then obtain X where X: "U < X" "X \<le> H" "vr_ux r3 = sn_of r X" using inv by (auto simp: um_rx_inv_def)
        have "U' < ?H" if "X + win r < ?H"
        proof -
          have "H < n" using that X b by (auto simp: max_def split: if_splits)
          moreover from this have "U \<le> H \<and> H \<notin> insert n A \<and> ?H \<le> H + win r" using cfg(3,5) n(2) by auto
          ultimately have "U' \<le> H" "H < n" using re(9) by blast+
          then show ?thesis by simp
        qed
        moreover have "?H < X + 2 * win r" using X b n(2) by auto
        ultimately show ?thesis using X by (intro exI [of _ X]) (auto simp: e3)
      qed
      have nU': "U' \<notin> ?A" using re(7) by simp
      note ut = update_timer_spec [OF re(2) acc3 b' [folded e3(1)] nU' top' tm]
      show thesis
      proof (rule that)
        show "handle_data_pdu payload r = Some (update_timer r3, map (up_event r) ds)"
          unfolding handle_data_pdu_def rd bind.bind_lunit sn old [unfolded sn] if_not_P [OF nU] if_not_P [OF f] buf Let_def
          unfolding h(4) pdu_def [symmetric] r1_def [symmetric] r2_def [symmetric]
          by (simp add: re(1))
        show "um_rx_inv (update_timer r3) s U' ?H ((if n < U then A else insert n A) \<inter> {U'..})" using ut(1) nU by simp
        show "n = U \<and> U = H \<and> synced r s U \<longrightarrow> U' = Suc U \<and> synced (update_timer r3) s U' \<and> ds = sdus_at s U"
        proof
          assume a: "n = U \<and> U = H \<and> synced r s U"
          have "synced r2 s U" using a by (simp add: synced_def pdu_belongs_to_rx_sdu_def fr)
          then have s3: "synced r3 s U'" "ds = sdus_in s U U'" using re(10) a w by auto
          have "U' \<le> ?H" using re(2) by (simp add: win_inv_def)
          then have "U' = Suc U" using re(5,7) a by auto
          then show "U' = Suc U \<and> synced (update_timer r3) s U' \<and> ds = sdus_at s U" using s3 ut(2) by simp
        qed
      qed (use re(5,6) ut(3-5) re(4) fr in \<open>simp_all add: same_env_def\<close>)
    qed
  qed
qed

section \<open>The reordering timer expires\<close>

lemma timeout_step:
  assumes inv: "win_inv r s U H A" and U: "U < H" "U \<notin> A" "H \<le> U + win r"
    and acc: "sdu_octets r = [] \<or> (\<exists>V. 0 < V \<and> V \<le> U \<and> H \<le> V + win r \<and> sdu_octets r = carry_at s V \<and>
      vr_ur_in_rx_sdu r = sn_of r (V - 1))"
  obtains r' U' ds where "reassemble_rx_sdus (next_vr_ur r) = Some (r', map (up_event r) ds)" "win_inv r' s U' H (A \<inter> {U'..})"
    "sdu_octets r' = [] \<or> (\<exists>V. 0 < V \<and> V \<le> U' \<and> H \<le> V + win r' \<and> sdu_octets r' = carry_at s V \<and>
      vr_ur_in_rx_sdu r' = sn_of r' (V - 1))" "same_env r r'" "Suc U \<le> U'" "subseq ds (sdus_in s U U')" "U' \<notin> A"
proof -
  have env: "same_env r (next_vr_ur r)" by (rule next_vr_ur_env)
  have e: "win (next_vr_ur r) = win r" "sn_of (next_vr_ur r) = sn_of r" "up_event (next_vr_ur r) = up_event r"
    using same_envD [OF env] by simp_all
  have w: "win_inv (next_vr_ur r) s (Suc U) H A" using win_next [OF inv U(1) same_env_refl refl] U(2) by simp
  have a: "acc_weak (next_vr_ur r) s (Suc U) (Suc U)"
    using acc U(1) unfolding acc_weak_def e by (auto simp: next_vr_ur_env intro: le_trans)
  have en: "Suc U \<notin> A \<or> H \<le> Suc U + win (next_vr_ur r)" using U(3) by (simp add: e)
  obtain r' U' ds where re: "reassemble_rx_sdus (next_vr_ur r) = Some (r', map (up_event r) ds)" "win_inv r' s U' H (A \<inter> {U'..})"
    "sdu_octets r' = sdu_octets r \<and> vr_ur_in_rx_sdu r' = vr_ur_in_rx_sdu r \<and> U' = Suc U \<or> acc_inv r' s U'"
    "same_env (next_vr_ur r) r'" "Suc U \<le> U'" "subseq ds (sdus_in s (Suc U) U')" "U' \<notin> A"
    by (rule reassemble_spec [OF w a en, unfolded e next_vr_ur_env(4,5)])
  have env': "same_env r r'" by (rule same_env_trans [OF env re(4)])
  show thesis
  proof (rule that [OF re(1,2) _ env' re(5) _ re(7)])
    show "subseq ds (sdus_in s U U')" using subseq_sdus [of "[]" s U "Suc U" ds U'] re(5,6) by simp
    show "sdu_octets r' = [] \<or> (\<exists>V. 0 < V \<and> V \<le> U' \<and> H \<le> V + win r' \<and> sdu_octets r' = carry_at s V \<and>
      vr_ur_in_rx_sdu r' = sn_of r' (V - 1))"
      using re(3)
    proof
      assume "sdu_octets r' = sdu_octets r \<and> vr_ur_in_rx_sdu r' = vr_ur_in_rx_sdu r \<and> U' = Suc U"
      then show ?thesis using acc same_envD [OF env'] by auto
    next
      assume "acc_inv r' s U'"
      then have "sdu_octets r' = [] \<or> 0 < U' \<and> sdu_octets r' = carry_at s U' \<and> vr_ur_in_rx_sdu r' = sn_of r' (U' - 1)"
        by (auto simp: acc_inv_def)
      moreover have "H \<le> U' + win r'" using U(3) re(5) same_envD [OF env'] by simp
      ultimately show ?thesis by blast
    qed
  qed
qed

lemma timeout_loop_spec:
  assumes "win_inv r s U H A" "U \<notin> A" "H \<le> U + win r" "X \<le> H" "H \<le> X + win r" "vr_ux r = sn_of r X"
    "sdu_octets r = [] \<or> (\<exists>V. 0 < V \<and> V \<le> U \<and> H \<le> V + win r \<and> sdu_octets r = carry_at s V \<and>
      vr_ur_in_rx_sdu r = sn_of r (V - 1))"
  shows "\<exists>r' U' ds. timeout_loop r = Some (r', map (up_event r) ds) \<and> win_inv r' s U' H (A \<inter> {U'..}) \<and>
     (sdu_octets r' = [] \<or> (\<exists>V. 0 < V \<and> V \<le> U' \<and> H \<le> V + win r' \<and> sdu_octets r' = carry_at s V \<and>
      vr_ur_in_rx_sdu r' = sn_of r' (V - 1))) \<and> same_env r r' \<and> U \<le> U' \<and> subseq ds (sdus_in s U U') \<and> U' \<notin> A"
  using assms
proof (induction "H - U" arbitrary: r U A rule: less_induct)
  case less
  have cfg: "rx_cfg_ok (rx_cfg r)" "vr_uh r = sn_of r H" "U \<le> H" "vr_ur r = sn_of r U" "A \<subseteq> {U..<H}"
    using less.prems(1) by (auto simp: win_inv_def)
  have w: "0 < win r" by (rule win(5) [OF cfg(1)])
  have "unat (RX_MOD_BASE r (vr_ur r)) = U + win r - H" "unat (RX_MOD_BASE r (vr_ux r)) = X + win r - H"
    using rx_base_sn [OF cfg(1,2) less.prems(3)] rx_base_sn [OF cfg(1,2) less.prems(5)] cfg less.prems(4,6) w by simp_all
  then have lt: "RX_MOD_BASE r (vr_ur r) < RX_MOD_BASE r (vr_ux r) \<longleftrightarrow> U < X"
    unfolding word_less_nat_alt using less.prems(3,5) by auto
  show ?case
  proof (cases "U < X")
    case False
    moreover have "A \<inter> {U..} = A" using cfg(5) by auto
    ultimately show ?thesis
      using less.prems lt by (intro exI [of _ r] exI [of _ U] exI [of _ "[]"]) (simp add: timeout_loop.simps)
  next
    case True
    then have UH: "U < H" using less.prems(4) by simp
    obtain r1 U1 ds1 where s1: "reassemble_rx_sdus (next_vr_ur r) = Some (r1, map (up_event r) ds1)" "win_inv r1 s U1 H (A \<inter> {U1..})"
      "sdu_octets r1 = [] \<or> (\<exists>V. 0 < V \<and> V \<le> U1 \<and> H \<le> V + win r1 \<and> sdu_octets r1 = carry_at s V \<and>
        vr_ur_in_rx_sdu r1 = sn_of r1 (V - 1))" "same_env r r1" "Suc U \<le> U1" "subseq ds1 (sdus_in s U U1)" "U1 \<notin> A"
      by (rule timeout_step [OF less.prems(1) UH less.prems(2,3,7)])
    have e: "win r1 = win r" "sn_of r1 = sn_of r" "up_event r1 = up_event r" "vr_ux r1 = vr_ux r"
      using same_envD [OF s1(4)] s1(4) by (simp_all add: same_env_def)
    have pre: "H - U1 < H - U" "U1 \<notin> A \<inter> {U1..}" "H \<le> U1 + win r1" "H \<le> X + win r1" "vr_ux r1 = sn_of r1 X"
      using s1(5,7) UH less.prems(3,5,6) by (simp_all add: e)
    obtain r' U' ds where IH: "timeout_loop r1 = Some (r', map (up_event r) ds)" "win_inv r' s U' H ((A \<inter> {U1..}) \<inter> {U'..})"
      "sdu_octets r' = [] \<or> (\<exists>V. 0 < V \<and> V \<le> U' \<and> H \<le> V + win r' \<and> sdu_octets r' = carry_at s V \<and>
        vr_ur_in_rx_sdu r' = sn_of r' (V - 1))" "same_env r1 r'" "U1 \<le> U'" "subseq ds (sdus_in s U1 U')" "U' \<notin> A \<inter> {U1..}"
      using less.hyps [OF pre(1) s1(2) pre(2,3) less.prems(4) pre(4,5) s1(3)] unfolding e by blast
    have A': "(A \<inter> {U1..}) \<inter> {U'..} = A \<inter> {U'..}" "U' \<notin> A" using IH(5,7) by auto
    have "timeout_loop r = Some (r', map (up_event r) (ds1 @ ds))"
      using lt True s1(1) IH(1) by (simp add: timeout_loop.simps [of r])
    moreover have "subseq (ds1 @ ds) (sdus_in s U U')" using subseq_sdus [OF s1(6) IH(6) _ IH(5)] s1(5) by simp
    ultimately show ?thesis
      using IH(2,3,5) A' same_env_trans [OF s1(4) IH(4)] s1(5)
      by (intro exI [of _ r'] exI [of _ U'] exI [of _ "ds1 @ ds"]) auto
  qed
qed

lemma timer_trigger_spec:
  assumes inv: "um_rx_inv r s U H A"
  obtains r' U' ds where "timer_trigger r = Some (r', map (up_event r) ds)"
    "um_rx_inv r' s U' H (A \<inter> {U'..})" "U \<le> U'" "subseq ds (sdus_in s U U')"
    "rx_cfg r' = rx_cfg r" "rx_lcid r' = rx_lcid r" "reordering_callback r' = reordering_callback r"
    "\<not> reordering_running r \<longrightarrow> r' = r \<and> ds = [] \<and> U' = U"
proof -
  have wi: "win_inv r s U H A" and acc: "acc_weak r s U U" and b: "H \<le> U + win r" and UA: "U \<notin> A" and top: "U < H \<longrightarrow> H - 1 \<in> A"
    using inv by (simp_all add: um_rx_inv_def)
  have cfg: "rx_cfg_ok (rx_cfg r)" "vr_uh r = sn_of r H" "U \<le> H" "vr_ur r = sn_of r U" "A \<subseteq> {U..<H}"
    using wi by (auto simp: win_inv_def)
  have w: "0 < win r" by (rule win(5) [OF cfg(1)])
  have AU: "A \<inter> {U..} = A" using cfg(5) by auto
  define r0 where "r0 = r\<lparr>reordering_running := False\<rparr>"
  show thesis
  proof (cases "reordering_running r")
    case False
    then show thesis using inv AU by (intro that [of r "[]" U]) (simp_all add: timer_trigger_def)
  next
    case run: True
    show thesis
    proof (cases "reordering_callback r")
      case False
      have "um_rx_inv r0 s U H A" using inv by (simp add: r0_def um_rx_inv_def)
      then show thesis using run False AU by (intro that [of r0 "[]" U]) (simp_all add: timer_trigger_def r0_def)
    next
      case True
      obtain X where X: "U < X" "X \<le> H" "vr_ux r = sn_of r X" using inv run by (auto simp: um_rx_inv_def)
      define r1 where "r1 = (case rx_sdu (r0\<lparr>pdu_lost := True\<rparr>) of None \<Rightarrow> r0\<lparr>pdu_lost := True\<rparr> | Some _ \<Rightarrow> clear_sdu (r0\<lparr>pdu_lost := True\<rparr>))"
      have f: "win r1 = win r" "sn_of r1 = sn_of r" "up_event r1 = up_event r" "vr_ux r1 = vr_ux r" "sdu_octets r1 = []"
        "rx_cfg r1 = rx_cfg r" "rx_lcid r1 = rx_lcid r" "reordering_callback r1 = reordering_callback r" "vr_uh r1 = vr_uh r"
        by (auto simp: r1_def r0_def clear_sdu_def win_def sn_of_def up_event_def sdu_octets_def fun_eq_iff split: option.splits)
      have w1: "win_inv r1 s U H A"
        using wi by (auto simp: win_inv_def r1_def r0_def clear_sdu_def win_def sn_of_def split: option.splits)
      have pre: "H \<le> U + win r1" "H \<le> X + win r1" "vr_ux r1 = sn_of r1 X" using b X by (simp_all add: f)
      obtain r2 U' ds where l: "timeout_loop r1 = Some (r2, map (up_event r) ds)" "win_inv r2 s U' H (A \<inter> {U'..})"
        "sdu_octets r2 = [] \<or> (\<exists>V. 0 < V \<and> V \<le> U' \<and> H \<le> V + win r2 \<and> sdu_octets r2 = carry_at s V \<and>
           vr_ur_in_rx_sdu r2 = sn_of r2 (V - 1))" "same_env r1 r2" "U \<le> U'" "subseq ds (sdus_in s U U')" "U' \<notin> A"
        using timeout_loop_spec [OF w1 UA pre(1) X(2) pre(2,3)] f(5) unfolding f by blast
      define r3 where "r3 = (if RX_MOD_BASE r2 (vr_ur r2) < RX_MOD_BASE r2 (vr_uh r2)
         then r2\<lparr>reordering_running := True, vr_ux := vr_uh r2\<rparr> else r2)"
      have e2: "win r2 = win r" "sn_of r2 = sn_of r" "rx_cfg r2 = rx_cfg r" "rx_lcid r2 = rx_lcid r"
        "reordering_callback r2 = reordering_callback r" "\<not> reordering_running r2" "vr_uh r2 = sn_of r H"
        using same_envD [OF l(4)] l(4) f cfg(2) by (auto simp: same_env_def r1_def r0_def clear_sdu_def split: option.splits)
      have c2: "rx_cfg_ok (rx_cfg r2)" "U' \<le> H" "vr_ur r2 = sn_of r U'" using l(2) e2 by (auto simp: win_inv_def)
      have b': "H \<le> U' + win r2" using b l(5) e2 by simp
      have "unat (RX_MOD_BASE r2 (vr_ur r2)) = U' + win r2 - H" "unat (RX_MOD_BASE r2 (vr_uh r2)) = win r2"
        using rx_base_sn [OF c2(1) _ b'] rx_base_sn [OF c2(1), of H H] c2 e2 w by simp_all
      then have lt: "RX_MOD_BASE r2 (vr_ur r2) < RX_MOD_BASE r2 (vr_uh r2) \<longleftrightarrow> U' < H"
        unfolding word_less_nat_alt using b' c2(2) w e2(1) by auto
      have acc2: "acc_weak r2 s U' U'" using l(3) c2(2) unfolding acc_weak_def by (auto intro: le_trans)
      have top': "U' < H \<longrightarrow> H - 1 \<in> A \<inter> {U'..}" using top l(5) by auto
      have "um_rx_inv r3 s U' H (A \<inter> {U'..})"
        unfolding um_rx_inv_def r3_def using l(2,7) acc2 b' top' lt e2 c2 by auto
      moreover have "reordering_callback r0" using True by (simp add: r0_def)
      then have "timer_trigger r = Some (r3, map (up_event r) ds)"
        using run True l(1) unfolding timer_trigger_def timer_expired_def Let_def r0_def [symmetric] r1_def [symmetric]
        by (simp add: r3_def)
      ultimately show thesis
        using l(5,6) run e2 by (intro that [of r3 ds U']) (simp_all add: r3_def)
    qed
  qed
qed

end
