(* ===== verification/Rlc_Um_Entity.thy ===== *)
theory Rlc_Um_Entity
  imports Rlc_Um_Receive
begin

unbundle bit_operations_syntax

text \<open>
  The RLC entity in unacknowledged mode: \<^verbatim>\<open>rlc_um_base\<close> and \<^verbatim>\<open>rlc_um_lte\<close>
  around transmitter and receiver, and the entry point of \<^verbatim>\<open>rlc.cc\<close> that checks the length of an SDU.
\<close>

section \<open>The entity\<close>

record rlc_um_lte =
  um_cfg :: rlc_config
  um_lcid :: u32
  um_tx :: "rlc_um_lte_tx option"
  um_rx :: "rlc_um_lte_rx option"
  tx_enabled :: bool
  rx_enabled :: bool

definition rlc_um_lte_new :: "u32 \<Rightarrow> rlc_um_lte" where
  "rlc_um_lte_new lcid = \<lparr>um_cfg = rlc_config_empty, um_lcid = lcid, um_tx = None, um_rx = None,
     tx_enabled = False, rx_enabled = False\<rparr>"

definition um_configure :: "rlc_config \<Rightarrow> rlc_um_lte \<Rightarrow> bool \<times> rlc_um_lte" where
  "um_configure cnfg e =
    (case rx_configure (rlc_um_lte_rx_new (um_lcid e) cnfg) of (ok, r) \<Rightarrow>
     let e = e\<lparr>um_cfg := cnfg, um_rx := Some r\<rparr> in
     if \<not> ok then (False, e)
     else (case tx_configure cnfg rlc_um_lte_tx_new of (ok, t) \<Rightarrow>
       let e = e\<lparr>um_tx := Some t\<rparr> in
       if \<not> ok then (False, e) else (True, e\<lparr>rx_enabled := True, tx_enabled := True\<rparr>)))"

definition um_stop :: "rlc_um_lte \<Rightarrow> rlc_um_lte" where
  "um_stop e = e\<lparr>um_tx := map_option tx_stop (um_tx e), um_rx := map_option rx_stop (um_rx e)\<rparr>"

definition um_reestablish :: "rlc_um_lte \<Rightarrow> (rlc_um_lte \<times> rlc_event list) option" where
  "um_reestablish e =
    (let e = e\<lparr>tx_enabled := False\<rparr>;
         e = e\<lparr>um_tx := map_option tx_stop (um_tx e)\<rparr>
     in Option.bind (case um_rx e of
            None \<Rightarrow> Some (None, [])
          | Some r \<Rightarrow> map_option (\<lambda>(r, ev). (Some r, ev)) (rx_reestablish r)) (\<lambda>(rx, ev).
        Some (e\<lparr>um_rx := rx, tx_enabled := True\<rparr>, ev)))"

definition um_empty_queue :: "rlc_um_lte \<Rightarrow> rlc_um_lte" where
  "um_empty_queue e = e\<lparr>um_tx := map_option tx_empty_queue (um_tx e)\<rparr>"

definition um_write_sdu :: "bytes \<Rightarrow> rlc_um_lte \<Rightarrow> rlc_um_lte" where
  "um_write_sdu sdu e =
    (case um_tx e of
       None \<Rightarrow> e
     | Some t \<Rightarrow> if tx_enabled e then e\<lparr>um_tx := Some (snd (tx_try_write_sdu (Some sdu) t))\<rparr> else e)"

text \<open>The check of the length for a bearer that is not a multicast one; the bearer of the LCID is the argument.\<close>

definition rlc_write_sdu :: "bytes \<Rightarrow> rlc_um_lte \<Rightarrow> rlc_um_lte" where
  "rlc_write_sdu sdu e = (if RLC_MAX_SDU_SIZE < length sdu then e else um_write_sdu sdu e)"

definition rlc_write_sdu_mch :: "bytes \<Rightarrow> rlc_um_lte \<Rightarrow> rlc_um_lte" where
  "rlc_write_sdu_mch sdu e = um_write_sdu sdu e"

definition um_sdu_queue_is_full :: "rlc_um_lte \<Rightarrow> bool option" where
  "um_sdu_queue_is_full e = map_option (\<lambda>t. bq_is_full (tx_sdu_queue t)) (um_tx e)"

definition um_has_data :: "rlc_um_lte \<Rightarrow> bool" where
  "um_has_data e = (case um_tx e of None \<Rightarrow> False | Some t \<Rightarrow> tx_has_data t)"

definition um_get_buffer_state :: "rlc_um_lte \<Rightarrow> u32" where
  "um_get_buffer_state e = (case um_tx e of None \<Rightarrow> 0 | Some t \<Rightarrow> tx_get_buffer_state t)"

text \<open>The octets that \<open>read_pdu\<close> stores at \<open>payload\<close>; their number is its result.\<close>

definition um_read_pdu :: "u32 \<Rightarrow> rlc_um_lte \<Rightarrow> (bytes \<times> rlc_um_lte) option" where
  "um_read_pdu nof_bytes e =
    (case um_tx e of
       None \<Rightarrow> Some ([], e)
     | Some t \<Rightarrow> if tx_enabled e then map_option (\<lambda>(payload, t). (payload, e\<lparr>um_tx := Some t\<rparr>)) (tx_build_data_pdu nof_bytes t)
         else Some ([], e))"

definition um_write_pdu :: "bytes \<Rightarrow> rlc_um_lte \<Rightarrow> (rlc_um_lte \<times> rlc_event list) option" where
  "um_write_pdu payload e =
    (case um_rx e of
       None \<Rightarrow> Some (e, [])
     | Some r \<Rightarrow> if rx_enabled e then map_option (\<lambda>(r, ev). (e\<lparr>um_rx := Some r\<rparr>, ev)) (handle_data_pdu payload r)
         else Some (e, []))"

text \<open>The time of the reordering timer is over.\<close>

definition um_timeout :: "rlc_um_lte \<Rightarrow> (rlc_um_lte \<times> rlc_event list) option" where
  "um_timeout e =
    (case um_rx e of
       None \<Rightarrow> Some (e, [])
     | Some r \<Rightarrow> map_option (\<lambda>(r, ev). (e\<lparr>um_rx := Some r\<rparr>, ev)) (timer_trigger r))"

end
