(* ===== verification/Rlc_Um_Link.thy ===== *)
theory Rlc_Um_Link
  imports Rlc_Um_Entity
begin

unbundle bit_operations_syntax

text \<open>
  Two RLC entities over a channel that loses, duplicates and reorders PDUs: the PDUs of the sender as a stream, the
  runs of the system, and the properties of the transfer.
\<close>

section \<open>The sender as a stream of PDUs\<close>

text \<open>The SDUs that are not sent completely, with the octets \<open>c\<close> of the first one that were sent.\<close>

definition open_sdus :: "bytes \<Rightarrow> bytes list \<Rightarrow> bytes list" where
  "open_sdus c pend = (if c = [] then pend else (c @ hd pend) # tl pend)"

lemma cut_open:
  "cut ps pend r q \<Longrightarrow> (c @ hd pend) # tl pend =
     (if r = [] then sdu_parts c ps @ q else butlast (sdu_parts c ps) @ (last (sdu_parts c ps) @ r) # q)"
proof (induction arbitrary: c rule: cut.induct)
  case (cut_last p r q)
  then show ?case by (simp add: sdu_parts_def)
next
  case (cut_more p ps q r q')
  obtain p' ps' where ps: "ps = p' # ps'" using cut_segments [OF cut_more(2)] by (cases ps) auto
  obtain x xs where q: "q = x # xs" using cut_lengths [OF cut_more(2)] ps by (cases q) auto
  show ?case using cut_more.IH [of "[]"] by (simp add: sdu_parts_def ps q)
qed

lemma sdu_parts_ne: "[] \<notin> set ps \<Longrightarrow> ps \<noteq> [] \<Longrightarrow> [] \<notin> set (sdu_parts c ps) \<and> sdu_parts c ps \<noteq> []"
  by (cases ps) (auto simp: sdu_parts_def)

lemma cut_stream:
  assumes cut: "cut ps pend r q" and c: "pend \<noteq> []"
  shows "pdu_sdus c ps (r = []) @ open_sdus (pdu_carry c ps (r = [])) ((if r = [] then [] else [r]) @ q) = open_sdus c pend"
proof -
  have ps: "[] \<notin> set (sdu_parts c ps)" "sdu_parts c ps \<noteq> []"
    using cut_segments [OF cut] sdu_parts_ne by auto
  then have l: "last (sdu_parts c ps) \<noteq> []" by (metis last_in_set)
  have o: "open_sdus c pend = (c @ hd pend) # tl pend" using c by (simp add: open_sdus_def)
  show ?thesis
  proof (cases "r = []")
    case True
    then show ?thesis unfolding o cut_open [OF cut] by (simp add: pdu_sdus_def pdu_carry_def open_sdus_def)
  next
    case False
    then show ?thesis unfolding o cut_open [OF cut] using l by (simp add: pdu_sdus_def pdu_carry_def open_sdus_def)
  qed
qed

lemma cut_parts_ok:
  assumes cut: "cut ps pend r q" and small: "\<forall>x \<in> set (open_sdus c pend). length x \<le> RLC_MAX_SDU_SIZE" and c: "pend \<noteq> []"
  shows "parts_ok c ps"
proof -
  have o: "open_sdus c pend = (c @ hd pend) # tl pend" using c by (simp add: open_sdus_def)
  have ne: "ps \<noteq> []" "[] \<notin> set ps" using cut_segments [OF cut] by auto
  then have p: "sdu_parts c ps = butlast (sdu_parts c ps) @ [last (sdu_parts c ps)]"
    using sdu_parts_ne [OF ne(2,1)] by simp
  have "\<forall>x \<in> set (sdu_parts c ps). length x \<le> RLC_MAX_SDU_SIZE"
  proof (cases "r = []")
    case True
    then show ?thesis using small unfolding o cut_open [OF cut] by simp
  next
    case False
    then have b: "\<forall>x \<in> set (butlast (sdu_parts c ps)). length x \<le> RLC_MAX_SDU_SIZE"
      "length (last (sdu_parts c ps)) \<le> RLC_MAX_SDU_SIZE"
      using small unfolding o cut_open [OF cut] by auto
    show ?thesis by (subst p) (use b in auto)
  qed
  then show ?thesis using ne by (simp add: parts_ok_def)
qed

text \<open>The two ends of a bearer agree in what their headers look like.\<close>

definition um_peers :: "rlc_config \<Rightarrow> rlc_config \<Rightarrow> bool" where
  "um_peers cfg_t cfg_r \<longleftrightarrow> rx_cfg_ok cfg_r \<and> tx_mod (rc_um cfg_t) = rx_mod (rc_um cfg_r) \<and>
     tx_sn_field_length (rc_um cfg_t) = rx_sn_field_length (rc_um cfg_r) \<and>
     0 < sint (tx_queue_length cfg_t) \<and> sint (tx_queue_length cfg_t) \<le> 512 \<and>
     rx_mod (rc_um cfg_t) \<noteq> 0 \<and> tx_mod (rc_um cfg_r) \<noteq> 0"

text \<open>
  The sender that has sent the PDUs \<open>pdus\<close>, the stream \<open>s\<close>, of the accepted SDUs \<open>sdus\<close>; the receiver \<open>r\<close> gives the
  numbering.
\<close>

definition tx_inv :: "rlc_um_lte_rx \<Rightarrow> rlc_um_lte_tx \<Rightarrow> stream \<Rightarrow> bytes list \<Rightarrow> bytes list \<Rightarrow> bool" where
  "tx_inv r t s pdus sdus \<longleftrightarrow> um_peers (tx_cfg t) (rx_cfg r) \<and> tx_ok t \<and>
     bq_capacity (tx_sdu_queue t) = sint (tx_queue_length (tx_cfg t)) \<and>
     length s = length pdus \<and> stream_ok s \<and> vt_us t = sn_of r (length s) \<and>
     (\<forall>n < length s. pdu_octets_at r s n (pdus ! n)) \<and>
     (tx_sdu t = None \<longleftrightarrow> carry_at s (length s) = []) \<and>
     sdus_in s 0 (length s) @ open_sdus (carry_at s (length s)) (tx_pending t) = sdus \<and>
     (\<forall>x \<in> set sdus. length x \<le> RLC_MAX_SDU_SIZE)"

lemma pdu_octets_at_cong:
  assumes "rx_cfg r' = rx_cfg r" "n < length s"
  shows "pdu_octets_at r' (s @ x) n p = pdu_octets_at r s n p"
proof -
  have "sn_of r' = sn_of r" using assms(1) by (simp add: sn_of_def win_def fun_eq_iff)
  then show ?thesis using assms by (simp add: pdu_octets_at_def nth_append carry_at_append)
qed

lemma stream_ok_snoc:
  "stream_ok s \<Longrightarrow> parts_ok (carry_at s (length s)) ps \<Longrightarrow> stream_ok (s @ [(ps, e)])"
  by (auto simp: stream_ok_def nth_append carry_at_append less_Suc_eq)

lemma sdus_in_snoc:
  "sdus_in (s @ [(ps, e)]) 0 (Suc (length s)) = sdus_in s 0 (length s) @ pdu_sdus (carry_at s (length s)) ps e"
proof -
  have "sdus_in (s @ [(ps, e)]) 0 (Suc (length s))
      = sdus_in (s @ [(ps, e)]) 0 (length s) @ sdus_in (s @ [(ps, e)]) (length s) (Suc (length s))"
    by (rule sdus_in_append [symmetric]) simp_all
  also have "sdus_in (s @ [(ps, e)]) 0 (length s) = sdus_in s 0 (length s)" by (rule sdus_in_stream_append) simp
  also have "sdus_in (s @ [(ps, e)]) (length s) (Suc (length s)) = pdu_sdus (carry_at s (length s)) ps e"
    by (simp add: sdus_at_def carry_at_append)
  finally show ?thesis .
qed

lemma carry_snoc: "carry_at (s @ [(ps, e)]) (Suc (length s)) = pdu_carry (carry_at s (length s)) ps e"
  by (simp add: carry_at_append)

lemma tx_pending_small:
  assumes "tx_inv r t s pdus sdus" "x \<in> set (tx_pending t)"
  shows "length x \<le> RLC_MAX_SDU_SIZE"
proof -
  have all: "\<forall>x \<in> set (open_sdus (carry_at s (length s)) (tx_pending t)). length x \<le> RLC_MAX_SDU_SIZE"
    using assms(1) by (auto simp: tx_inv_def)
  show ?thesis
  proof (cases "carry_at s (length s) = []")
    case False
    then show ?thesis using all assms(2) by (cases "tx_pending t") (auto simp: open_sdus_def)
  qed (use all assms(2) in \<open>simp add: open_sdus_def\<close>)
qed

lemma header_bits: "(if a then 0 else 2) OR (if b then 0 else 1) < (4 :: u8)"
  "rlc_um_start_aligned ((if a then 0 else 2) OR (if b then 0 else 1)) \<longleftrightarrow> a"
  "rlc_um_end_aligned ((if a then 0 else 2) OR (if b then 0 else 1)) \<longleftrightarrow> b"
  by (auto simp: rlc_um_start_aligned_def rlc_um_end_aligned_def fi_defs)

lemma um_peers_sn:
  assumes p: "um_peers cfg_t (rx_cfg r)" and f: "tx_sn_field_length (rc_um cfg_t) = rx_sn_field_length (rc_um (rx_cfg r))"
  shows "(ucast (sn_of r n) :: u16) < (if rx_sn_field_length (rc_um (rx_cfg r)) = size5bits then 32 else 1024)"
proof -
  have cfg: "rx_cfg_ok (rx_cfg r)" using p by (simp add: um_peers_def)
  have "unat (ucast (sn_of r n) :: u16) = unat (sn_of r n)"
  proof -
    have "unat (ucast w :: u32) = unat w" for w :: u16
    proof -
      have "unat w < 2 ^ 16" using unsigned_less [of w] by simp
      then have "unat w < 2 ^ 32" by simp
      then show ?thesis by (simp add: unsigned_ucast_eq take_bit_nat_eq_self)
    qed
    then show ?thesis using arg_cong [OF sn_of_u16 [OF cfg, of n], of unat] by metis
  qed
  moreover have "unat (sn_of r n) < unat (um_mod r)" using unat_sn_of(4) [OF cfg, of n] by (simp add: word_less_nat_alt)
  moreover have "unat (um_mod r) = (if rx_sn_field_length (rc_um (rx_cfg r)) = size5bits then 32 else 1024)"
    using cfg by (auto simp: rx_cfg_ok_def)
  ultimately show ?thesis by (simp add: word_less_nat_alt split: if_splits)
qed

lemma tx_pending_opt: "tx_pending t = (if tx_sdu t = None then [] else [the (tx_sdu t)]) @ bq_q (tx_sdu_queue t)"
  by (auto simp: tx_pending_def)

lemma pdu_octets_new:
  assumes inv: "tx_inv r t s pdus sdus" and cut: "cut ps (tx_pending t) r' q" and pend: "tx_pending t \<noteq> []"
    and payload: "payload = rlc_um_write_data_pdu_header (tx_header t r' ps) (concat ps)" "length payload \<le> buffer_room"
  shows "pdu_octets_at r (s @ [(ps, r' = [])]) (length s) payload" "parts_ok (carry_at s (length s)) ps"
proof -
  let ?h = "tx_header t r' ps"
  have peers: "um_peers (tx_cfg t) (rx_cfg r)" and ok: "tx_ok t" and us: "vt_us t = sn_of r (length s)"
    and c: "tx_sdu t = None \<longleftrightarrow> carry_at s (length s) = []"
    using inv by (simp_all add: tx_inv_def)
  have f: "tx_sn_field_length (rc_um (tx_cfg t)) = rx_sn_field_length (rc_um (rx_cfg r))" using peers by (simp add: um_peers_def)
  show parts: "parts_ok (carry_at s (length s)) ps"
    using inv by (intro cut_parts_ok [OF cut _ pend]) (auto simp: tx_inv_def)
  have small: "\<forall>p \<in> set ps. length p \<le> RLC_MAX_SDU_SIZE"
    using cut_small [OF cut, of RLC_MAX_SDU_SIZE] tx_pending_small [OF inv] by blast
  have len: "length ps \<le> Suc RLC_AM_WINDOW_SIZE"
    using cut_lengths [OF cut] ok by (auto simp: tx_ok_def tx_pending_opt split: if_splits)
  have li: "h_li ?h = li_of (butlast ps)" by (simp add: tx_header_def li_of_def)
  have "\<forall>l \<in> set (h_li ?h). l < 2048"
  proof
    fix l assume "l \<in> set (h_li ?h)"
    then obtain p where p: "p \<in> set ps" "l = of_nat (length p)" by (auto simp: li li_of_def dest: in_set_butlastD)
    then have "unat l \<le> RLC_MAX_SDU_SIZE" using small unat_li by simp
    then show "l < 2048" by (simp add: word_less_nat_alt RLC_MAX_SDU_SIZE_def)
  qed
  moreover have "length (h_li ?h) \<le> RLC_AM_WINDOW_SIZE" using len by (simp add: li li_of_def)
  moreover have "h_fi ?h < 4" by (simp add: tx_header_def header_bits(1) del: if_split)
  moreover have "h_sn ?h < (if h_sn_size ?h = size5bits then 32 else 1024)"
    using um_peers_sn [OF peers f, of "length s"] by (simp add: tx_header_def us f)
  ultimately have "header_ok ?h" by (simp add: header_ok_def)
  moreover have "um_pdu \<lparr>up_header = ?h, up_buf = concat ps\<rparr> ps (carry_at s (length s)) (r' = [])"
    using c by (simp add: um_pdu_def li) (simp add: tx_header_def header_bits)
  ultimately show "pdu_octets_at r (s @ [(ps, r' = [])]) (length s) payload"
    using payload unfolding pdu_octets_at_def
    by (intro exI [of _ ?h]) (simp add: carry_at_append, simp add: tx_header_def f us)
qed

lemma grant_step:
  assumes inv: "tx_inv r t s pdus sdus"
  obtains (idle) "tx_build_data_pdu n t = Some ([], t)" "\<not> (tx_has_data t \<and> fixed_length t + 1 < min (unat n) buffer_room)"
  | (sent) payload t' ps e where "tx_build_data_pdu n t = Some (payload, t')" "payload \<noteq> []" "length payload \<le> unat n"
      "tx_inv r t' (s @ [(ps, e)]) (pdus @ [payload]) sdus" "length (concat (tx_pending t')) < length (concat (tx_pending t))"
      "tx_cfg t' = tx_cfg t"
proof (cases "tx_has_data t \<and> fixed_length t + 1 < min (unat n) buffer_room")
  case False
  then have "tx_build_data_pdu n t = Some ([], t)"
  proof (cases "tx_has_data t")
    case True
    then have "min (unat n) buffer_room \<le> fixed_length t + 1" using False by linarith
    then show ?thesis using True by (simp add: tx_build_data_pdu_def tx_build_data_pdu_lte_def tx_has_data_def Let_def fixed_header_length)
  qed (simp add: tx_build_data_pdu_def tx_has_data_def)
  then show thesis using False by (rule idle)
next
  case True
  then have data: "tx_has_data t" and room: "fixed_length t + 1 < min (unat n) buffer_room" by simp_all
  have ok: "tx_ok t" and peers: "um_peers (tx_cfg t) (rx_cfg r)" and us: "vt_us t = sn_of r (length s)"
    and cfg: "rx_cfg_ok (rx_cfg r)"
    using inv by (simp_all add: tx_inv_def um_peers_def)
  have pend: "tx_pending t \<noteq> []" using data by (auto simp: tx_has_data_def bq_is_empty_def tx_pending_def)
  have rem: "\<forall>x. tx_sdu t = Some x \<longrightarrow> 2 * length x \<le> buffer_room"
    using tx_pending_small [OF inv] by (fastforce simp: tx_pending_def RLC_MAX_SDU_SIZE_def buffer_room)
  obtain ps r' t' where b: "tx_build_data_pdu n t = Some (rlc_um_write_data_pdu_header (tx_header t r' ps) (concat ps), t')"
    "cut ps (tx_pending t) r' (bq_q (tx_sdu_queue t'))" "tx_sdu t' = opt_rest r'" "tx_cfg t' = tx_cfg t"
    "vt_us t' = (vt_us t + 1) mod tx_mod (rc_um (tx_cfg t))" "bq_ok (tx_sdu_queue t')"
    "bq_capacity (tx_sdu_queue t') = bq_capacity (tx_sdu_queue t)"
    "length (rlc_um_write_data_pdu_header (tx_header t r' ps) (concat ps)) \<le> min (unat n) buffer_room"
    by (rule build_spec [OF ok data rem room])
  define payload where "payload = rlc_um_write_data_pdu_header (tx_header t r' ps) (concat ps)"
  let ?c = "carry_at s (length s)" and ?s = "s @ [(ps, r' = [])]"
  have pl: "length payload \<le> unat n" "length payload \<le> buffer_room" using b(8) by (simp_all add: payload_def)
  note new = pdu_octets_new [OF inv b(2) pend payload_def pl(2)]
  have p': "tx_pending t' = (if r' = [] then [] else [r']) @ bq_q (tx_sdu_queue t')"
    using b(3) by (simp add: tx_pending_opt opt_rest_def)
  have seg: "ps \<noteq> [] \<and> [] \<notin> set ps" by (rule cut_segments [OF b(2)])
  then have pos: "0 < length (concat ps)" by (cases ps) auto
  have nonempty: "[] \<notin> set (tx_pending t)" "length (bq_q (tx_sdu_queue t)) \<le> RLC_AM_WINDOW_SIZE"
    using ok by (simp_all add: tx_ok_def)
  have len: "length (tx_pending t) \<le> Suc (length (bq_q (tx_sdu_queue t)))" by (simp add: tx_pending_opt)
  have "length (bq_q (tx_sdu_queue t')) < length (tx_pending t)"
    using cut_lengths [OF b(2)] seg by (cases ps) auto
  then have ok': "tx_ok t'"
    using nonempty len cut_rest [OF b(2)] b(6) by (auto simp: tx_ok_def p' split: if_splits)
  have "vt_us t' = sn_of r (Suc (length s))"
    using b(5) us sn_of_Suc [OF cfg, of "length s"] peers by (simp add: um_peers_def)
  moreover have "\<forall>m < Suc (length s). pdu_octets_at r ?s m ((pdus @ [payload]) ! m)"
    using new(1) inv pdu_octets_at_cong [OF refl] by (auto simp: tx_inv_def nth_append less_Suc_eq)
  moreover have "tx_sdu t' = None \<longleftrightarrow> carry_at ?s (Suc (length s)) = []"
  proof -
    have "[] \<notin> set (sdu_parts ?c ps)" "sdu_parts ?c ps \<noteq> []" using sdu_parts_ne seg by auto
    then have "last (sdu_parts ?c ps) \<noteq> []" by (metis last_in_set)
    then show ?thesis by (simp only: carry_snoc) (simp add: b(3) opt_rest_None pdu_carry_def)
  qed
  moreover have "sdus_in ?s 0 (Suc (length s)) @ open_sdus (carry_at ?s (Suc (length s))) (tx_pending t') = sdus"
  proof -
    have "sdus_in s 0 (length s) @ open_sdus ?c (tx_pending t) = sdus" using inv unfolding tx_inv_def by blast
    then show ?thesis unfolding carry_snoc sdus_in_snoc p' append_assoc cut_stream [OF b(2) pend] .
  qed
  moreover have ls: "length ?s = Suc (length s)" by simp
  moreover have "length s = length pdus" "stream_ok s" "\<forall>x \<in> set sdus. length x \<le> RLC_MAX_SDU_SIZE"
    "bq_capacity (tx_sdu_queue t') = sint (tx_queue_length (tx_cfg t))"
    using inv b(7) unfolding tx_inv_def by simp_all
  moreover have "Suc (length s) = length (pdus @ [payload])" using \<open>length s = length pdus\<close> by simp
  ultimately have "tx_inv r t' ?s (pdus @ [payload]) sdus"
    using peers ok' stream_ok_snoc [OF \<open>stream_ok s\<close> new(2)] unfolding tx_inv_def ls b(4) by blast
  moreover have "length (concat (tx_pending t')) < length (concat (tx_pending t))"
    using cut_lengths [OF b(2)] pos by (simp add: p')
  moreover have "payload \<noteq> []" using pos by (auto simp: payload_def length_write_header simp flip: length_greater_0_conv)
  ultimately show thesis using sent [of payload t' ps "r' = []"] b(1,4) pl(1) by (simp add: payload_def)
qed

lemma write_step:
  assumes inv: "tx_inv r t s pdus sdus" and x: "x \<noteq> []" "length x \<le> RLC_MAX_SDU_SIZE"
  obtains "\<not> check_queue_space (tx_sdu_queue t)" "tx_try_write_sdu (Some x) t = (False, t)"
  | t' where "check_queue_space (tx_sdu_queue t)" "tx_try_write_sdu (Some x) t = (True, t')" "tx_inv r t' s pdus (sdus @ [x])"
      "tx_sdu t' = tx_sdu t" "bq_q (tx_sdu_queue t') = bq_q (tx_sdu_queue t) @ [x]" "tx_cfg t' = tx_cfg t"
proof (cases "check_queue_space (tx_sdu_queue t)")
  case False
  then have "tx_try_write_sdu (Some x) t = (False, t)" by (simp add: tx_try_write_sdu_def bq_try_write_def)
  then show thesis using that(1) False by blast
next
  case True
  let ?q = "tx_sdu_queue t"
  define t' where "t' = t\<lparr>tx_sdu_queue := (bq_pushing x ?q)\<lparr>bq_q := bq_q ?q @ [x]\<rparr>\<rparr>"
  have w: "tx_try_write_sdu (Some x) t = (True, t')"
    using True by (simp add: tx_try_write_sdu_def bq_try_write_def Let_def t'_def bq_pushing_def)
  have cap: "0 < bq_capacity ?q" "bq_capacity ?q \<le> 512" and ok: "tx_ok t"
    and c: "tx_sdu t = None \<longleftrightarrow> carry_at s (length s) = []"
    using inv by (auto simp: tx_inv_def um_peers_def)
  have len: "length (bq_q ?q) < 512" using True cap by (simp add: check_queue_space_def)
  have small: "length (concat (bq_q ?q)) \<le> length (bq_q ?q) * RLC_MAX_SDU_SIZE"
  proof -
    have "\<forall>y \<in> set ys. length y \<le> RLC_MAX_SDU_SIZE \<Longrightarrow> length (concat ys) \<le> length ys * RLC_MAX_SDU_SIZE" for ys :: "bytes list"
      by (induction ys) auto
    then show ?thesis using tx_pending_small [OF inv] by (simp add: tx_pending_def)
  qed
  also have "\<dots> \<le> 512 * RLC_MAX_SDU_SIZE" using len by (intro mult_le_mono1) simp
  finally have total: "length (concat (bq_q ?q)) + length x < 2 ^ 32" using x(2) by (simp add: RLC_MAX_SDU_SIZE_def)
  have "bq_ok (tx_sdu_queue t')"
  proof -
    have "unat (bq_unread_bytes ?q) = length (concat (bq_q ?q))" using ok by (simp add: tx_ok_def bq_ok_def)
    moreover have "unat (of_nat (length x) :: u32) = length x" using total by (simp add: unsigned_of_nat take_bit_nat_eq_self)
    ultimately have "unat (bq_unread_bytes ?q + of_nat (length x)) = length (concat (bq_q ?q)) + length x"
      using total unat_add_lem [of "bq_unread_bytes ?q" "of_nat (length x)"] by simp
    then show ?thesis by (simp add: bq_ok_def t'_def bq_pushing_def)
  qed
  moreover have p': "tx_pending t' = tx_pending t @ [x]" by (simp add: tx_pending_def t'_def)
  moreover have "open_sdus (carry_at s (length s)) (tx_pending t @ [x]) = open_sdus (carry_at s (length s)) (tx_pending t) @ [x]"
    using c by (auto simp: open_sdus_def tx_pending_def split: option.splits)
  ultimately have "tx_inv r t' s pdus (sdus @ [x])"
    using inv x len ok by (auto simp: tx_inv_def tx_ok_def t'_def bq_pushing_def RLC_AM_WINDOW_SIZE_def)
  then show thesis using that(2) [of t'] True w by (simp add: t'_def)
qed

end
