(* ===== verification/Rlc_Um_Run.thy ===== *)
theory Rlc_Um_Run
  imports Rlc_Um_Link
begin

unbundle bit_operations_syntax

text \<open>
  The runs of two RLC entities and the channel between them, and the properties of the transfer.
\<close>


section \<open>The system\<close>

text \<open>
  Two entities and the channel between them: the PDUs sent so far, any of which can arrive, late, again or never; the
  SDUs passed up; and the number after the highest PDU that arrived.
\<close>

record um_link =
  lk_tx :: rlc_um_lte
  lk_rx :: rlc_um_lte
  lk_pdus :: "bytes list"
  lk_out :: "rlc_event list"
  lk_high :: nat

datatype link_op = Write bytes | Grant u32 | Arrive nat | Expire

definition link_start :: "u32 \<Rightarrow> rlc_config \<Rightarrow> rlc_config \<Rightarrow> um_link" where
  "link_start lcid cfg_t cfg_r = \<lparr>lk_tx = snd (um_configure cfg_t (rlc_um_lte_new lcid)),
     lk_rx = snd (um_configure cfg_r (rlc_um_lte_new lcid)), lk_pdus = [], lk_out = [], lk_high = 0\<rparr>"

fun link_step :: "link_op \<Rightarrow> um_link \<Rightarrow> um_link option" where
  "link_step (Write sdu) l = Some (l\<lparr>lk_tx := rlc_write_sdu sdu (lk_tx l)\<rparr>)"
| "link_step (Grant n) l = map_option (\<lambda>(payload, e). if payload = [] then l\<lparr>lk_tx := e\<rparr>
     else l\<lparr>lk_tx := e, lk_pdus := lk_pdus l @ [payload]\<rparr>) (um_read_pdu n (lk_tx l))"
| "link_step (Arrive i) l = (if i < length (lk_pdus l) then
     map_option (\<lambda>(e, evs). l\<lparr>lk_rx := e, lk_out := lk_out l @ evs, lk_high := max (lk_high l) (Suc i)\<rparr>)
       (um_write_pdu (lk_pdus l ! i) (lk_rx l)) else Some l)"
| "link_step Expire l = map_option (\<lambda>(e, evs). l\<lparr>lk_rx := e, lk_out := lk_out l @ evs\<rparr>) (um_timeout (lk_rx l))"

fun link_run :: "link_op list \<Rightarrow> um_link \<Rightarrow> um_link option" where
  "link_run [] l = Some l"
| "link_run (op # ops) l = Option.bind (link_step op l) (link_run ops)"

text \<open>
  What the channel may do: a PDU is at most half the number space away from the highest that arrived, and no SDU is empty.
\<close>

definition op_allowed :: "nat \<Rightarrow> um_link \<Rightarrow> link_op \<Rightarrow> bool" where
  "op_allowed w l op = (case op of Write sdu \<Rightarrow> sdu \<noteq> []
     | Arrive i \<Rightarrow> length (lk_pdus l) \<le> i \<or> i < lk_high l + w \<and> lk_high l \<le> i + w | _ \<Rightarrow> True)"

fun run_allowed :: "nat \<Rightarrow> link_op list \<Rightarrow> um_link \<Rightarrow> bool" where
  "run_allowed w [] l \<longleftrightarrow> True"
| "run_allowed w (op # ops) l \<longleftrightarrow> op_allowed w l op \<and>
     (case link_step op l of None \<Rightarrow> False | Some l' \<Rightarrow> run_allowed w ops l')"

fun um_written :: "link_op list \<Rightarrow> bytes list" where
  "um_written (Write sdu # ops) = sdu # um_written ops"
| "um_written (_ # ops) = um_written ops"
| "um_written [] = []"

definition um_up :: "rlc_config \<Rightarrow> u32 \<Rightarrow> bytes \<Rightarrow> rlc_event" where
  "um_up cfg lcid sdu = (if is_mrb (rc_um cfg) then Pdcp_write_pdu_mch lcid sdu else Pdcp_write_pdu lcid sdu)"

lemma um_up: "up_event r = um_up (rx_cfg r) (rx_lcid r)"
  by (simp add: fun_eq_iff up_event_def um_up_def)

section \<open>The invariant\<close>

definition link_inv :: "u32 \<Rightarrow> rlc_config \<Rightarrow> um_link \<Rightarrow> rlc_um_lte_tx \<Rightarrow> rlc_um_lte_rx \<Rightarrow> stream \<Rightarrow> bytes list \<Rightarrow> nat \<Rightarrow> bytes list \<Rightarrow> bool" where
  "link_inv lcid cfg l t r s sdus U D \<longleftrightarrow>
     um_tx (lk_tx l) = Some t \<and> tx_enabled (lk_tx l) \<and> um_rx (lk_rx l) = Some r \<and> rx_enabled (lk_rx l) \<and>
     rx_cfg r = cfg \<and> rx_lcid r = lcid \<and> tx_inv r t s (lk_pdus l) sdus \<and> (\<exists>A. um_rx_inv r s U (lk_high l) A) \<and>
     lk_out l = map (up_event r) D \<and> subseq D (sdus_in s 0 U)"

lemma tx_inv_cong: "rx_cfg r' = rx_cfg r \<Longrightarrow> tx_inv r' t s pdus sdus = tx_inv r t s pdus sdus"
proof -
  assume r: "rx_cfg r' = rx_cfg r"
  then have "sn_of r' = sn_of r" by (simp add: sn_of_def win_def fun_eq_iff)
  moreover have "(\<forall>n < length s. pdu_octets_at r' s n (pdus ! n)) \<longleftrightarrow> (\<forall>n < length s. pdu_octets_at r s n (pdus ! n))"
    using pdu_octets_at_cong [OF r, of _ s "[]"] by auto
  ultimately show ?thesis unfolding tx_inv_def r by simp
qed

lemma um_rx_inv_snoc:
  assumes inv: "um_rx_inv r s U H A" and ok: "stream_ok (s @ [x])"
  shows "um_rx_inv r (s @ [x]) U H A"
proof -
  have b: "U \<le> H" "H \<le> length s" "A \<subseteq> {U..<H}" using inv by (simp_all add: um_rx_inv_def win_inv_def)
  have "win_inv r (s @ [x]) U H A"
    using inv ok b unfolding um_rx_inv_def win_inv_def by (auto simp: carry_at_append nth_append)
  moreover have "acc_weak r (s @ [x]) U U"
    using inv b unfolding um_rx_inv_def acc_weak_def by (auto simp: carry_at_append)
  ultimately show ?thesis using inv by (simp add: um_rx_inv_def)
qed

lemma link_start_inv:
  assumes "um_peers cfg_t cfg_r"
  obtains t r where "link_inv lcid cfg_r (link_start lcid cfg_t cfg_r) t r [] [] 0 []" "synced r [] 0" "tx_pending t = []" "tx_cfg t = cfg_t"
proof -
  define t where "t = snd (tx_configure cfg_t rlc_um_lte_tx_new)"
  define r where "r = snd (rx_configure (rlc_um_lte_rx_new lcid cfg_r))"
  have cfg: "rx_cfg_ok cfg_r" "tx_mod (rc_um cfg_t) \<noteq> 0" "rx_mod (rc_um cfg_t) \<noteq> 0" "rx_mod (rc_um cfg_r) \<noteq> 0" "tx_mod (rc_um cfg_r) \<noteq> 0"
    using assms by (auto simp: um_peers_def rx_cfg_ok_def)
  have e: "um_tx (lk_tx (link_start lcid cfg_t cfg_r)) = Some t" "tx_enabled (lk_tx (link_start lcid cfg_t cfg_r))"
    "um_rx (lk_rx (link_start lcid cfg_t cfg_r)) = Some r" "rx_enabled (lk_rx (link_start lcid cfg_t cfg_r))"
    using cfg
    by (auto simp: link_start_def um_configure_def rx_configure_def tx_configure_def rlc_um_lte_new_def rlc_um_lte_rx_new_def
        Let_def t_def r_def)
  have r: "rx_cfg r = cfg_r" "rx_lcid r = lcid" "rx_window r = []" "rx_sdu r = None" "vr_ur r = 0" "vr_uh r = 0"
    "\<not> reordering_running r" "vr_ur_in_rx_sdu r = 0" "\<not> pdu_lost r"
    by (auto simp: r_def rx_configure_def rlc_um_lte_rx_new_def)
  have t: "tx_cfg t = cfg_t" "bq_q (tx_sdu_queue t) = []" "bq_capacity (tx_sdu_queue t) = sint (tx_queue_length cfg_t)"
    "bq_unread_bytes (tx_sdu_queue t) = 0" "tx_sdu t = None" "vt_us t = 0"
    using cfg(2) by (simp_all add: t_def tx_configure_def rlc_um_lte_tx_new_def bq_new_def bq_resize_def)
  have p: "tx_pending t = []" by (simp add: tx_pending_def t)
  have sn: "sn_of r 0 = 0" by (simp add: sn_of_def)
  have "tx_inv r t [] [] []"
    using assms by (simp add: tx_inv_def t r p tx_ok_def bq_ok_def stream_ok_def sn open_sdus_def)
  moreover have "um_rx_inv r [] 0 0 {}"
    using cfg by (simp add: um_rx_inv_def win_inv_def acc_weak_def r sn stream_ok_def map_ok_def sdu_octets_def)
  moreover have "synced r [] 0"
    by (simp add: synced_def r sdu_octets_def pdu_belongs_to_rx_sdu_def)
  ultimately show thesis
    using that [of t r] e p r t(1) by (auto simp: link_inv_def link_start_def)
qed

lemma link_invD:
  assumes "link_inv lcid cfg l t r s sdus U D"
  shows "um_tx (lk_tx l) = Some t" "tx_enabled (lk_tx l)" "um_rx (lk_rx l) = Some r" "rx_enabled (lk_rx l)" "rx_cfg r = cfg"
    "rx_lcid r = lcid" "tx_inv r t s (lk_pdus l) sdus" "lk_out l = map (up_event r) D" "subseq D (sdus_in s 0 U)"
    "\<exists>A. um_rx_inv r s U (lk_high l) A" "length s = length (lk_pdus l)"
  using assms unfolding link_inv_def by (blast | simp add: tx_inv_def)+

text \<open>Each step keeps it.\<close>

lemma link_write:
  assumes inv: "link_inv lcid cfg l t r s sdus U D" and x: "x \<noteq> []"
  obtains "link_step (Write x) l = Some l" "RLC_MAX_SDU_SIZE < length x \<or> \<not> check_queue_space (tx_sdu_queue t)"
  | l' t' where "link_step (Write x) l = Some l'" "link_inv lcid cfg l' t' r s (sdus @ [x]) U D" "tx_sdu t' = tx_sdu t"
      "bq_q (tx_sdu_queue t') = bq_q (tx_sdu_queue t) @ [x]" "tx_cfg t' = tx_cfg t" "lk_pdus l' = lk_pdus l" "lk_high l' = lk_high l"
proof -
  note d = link_invD [OF inv]
  show thesis
  proof (cases "RLC_MAX_SDU_SIZE < length x")
    case True
    then show thesis using that(1) by (simp add: rlc_write_sdu_def)
  next
    case False
    then have small: "length x \<le> RLC_MAX_SDU_SIZE" by simp
    show thesis
    proof (cases rule: write_step [OF d(7) x small])
      case 1
      have "(lk_tx l)\<lparr>um_tx := Some t\<rparr> = lk_tx l" using d(1) by simp
      then show thesis using that(1) 1 d(1,2) False by (simp add: rlc_write_sdu_def um_write_sdu_def)
    next
      case (2 t')
      let ?l = "l\<lparr>lk_tx := (lk_tx l)\<lparr>um_tx := Some t'\<rparr>\<rparr>"
      have "link_step (Write x) l = Some ?l"
        using 2(2) d(1,2) False by (simp add: rlc_write_sdu_def um_write_sdu_def)
      moreover have "link_inv lcid cfg ?l t' r s (sdus @ [x]) U D" using 2(3) inv by (simp add: link_inv_def)
      ultimately show thesis using that(2) 2(4-6) by simp
    qed
  qed
qed

lemma link_grant:
  assumes inv: "link_inv lcid cfg l t r s sdus U D"
  obtains (idle) l' where "link_step (Grant n) l = Some l'" "link_inv lcid cfg l' t r s sdus U D" "lk_pdus l' = lk_pdus l"
      "\<not> (tx_has_data t \<and> fixed_length t + 1 < min (unat n) buffer_room)" "lk_high l' = lk_high l"
  | (sent) l' t' x where "link_step (Grant n) l = Some l'" "link_inv lcid cfg l' t' r (s @ [x]) sdus U D"
      "length (concat (tx_pending t')) < length (concat (tx_pending t))" "tx_cfg t' = tx_cfg t"
      "length (lk_pdus l') = Suc (length (lk_pdus l))" "lk_high l' = lk_high l"
proof -
  note d = link_invD [OF inv]
  show thesis
  proof (cases rule: grant_step [OF d(7), of n])
    case 1
    have "link_step (Grant n) l = Some (l\<lparr>lk_tx := (lk_tx l)\<lparr>um_tx := Some t\<rparr>\<rparr>)"
      using 1(1) d(1,2) by (simp add: um_read_pdu_def)
    moreover have "link_inv lcid cfg (l\<lparr>lk_tx := (lk_tx l)\<lparr>um_tx := Some t\<rparr>\<rparr>) t r s sdus U D"
      using inv by (simp add: link_inv_def)
    ultimately show thesis using idle 1(2) by simp
  next
    case (2 payload t' ps e)
    let ?l = "l\<lparr>lk_tx := (lk_tx l)\<lparr>um_tx := Some t'\<rparr>, lk_pdus := lk_pdus l @ [payload]\<rparr>" and ?s = "s @ [(ps, e)]"
    have "link_step (Grant n) l = Some ?l" using 2(1,2) d(1,2) by (simp add: um_read_pdu_def)
    moreover have "link_inv lcid cfg ?l t' r ?s sdus U D"
    proof -
      obtain A where A: "um_rx_inv r s U (lk_high l) A" using d(10) by blast
      have "stream_ok ?s" using 2(4) by (simp add: tx_inv_def)
      then have "um_rx_inv r ?s U (lk_high l) A" using A by (rule um_rx_inv_snoc [rotated])
      moreover have "U \<le> length s" using A by (simp add: um_rx_inv_def win_inv_def)
      ultimately show ?thesis
        using inv 2(4) sdus_in_stream_append [of U s "[(ps, e)]" 0] unfolding link_inv_def by auto
    qed
    ultimately show thesis using sent 2(5,6) by simp
  qed
qed

lemma link_rx:
  assumes inv: "link_inv lcid cfg l t r s sdus U D" and A: "um_rx_inv r' s U' H' A"
    and r': "rx_cfg r' = rx_cfg r" "rx_lcid r' = rx_lcid r" and sub: "U \<le> U'" "subseq ds (sdus_in s U U')"
    and out: "out = lk_out l @ map (up_event r) ds"
  shows "link_inv lcid cfg (l\<lparr>lk_rx := (lk_rx l)\<lparr>um_rx := Some r'\<rparr>, lk_out := out, lk_high := H'\<rparr>) t r' s sdus U' (D @ ds)"
proof -
  note d = link_invD [OF inv]
  have "subseq (D @ ds) (sdus_in s 0 U')" using subseq_sdus [OF d(9) sub(2) _ sub(1)] by simp
  then show ?thesis
    using inv A r' unfolding link_inv_def out by (auto simp: um_up tx_inv_cong [OF r'(1)])
qed

lemma link_arrive:
  assumes inv: "link_inv lcid cfg l t r s sdus U D" and ok: "op_allowed (win r) l (Arrive i)"
  obtains l' r' U' ds where "link_step (Arrive i) l = Some l'" "link_inv lcid cfg l' t r' s sdus U' (D @ ds)" "lk_pdus l' = lk_pdus l"
    "i < length (lk_pdus l) \<longrightarrow> lk_high l' = max (lk_high l) (Suc i)"
    "i < length (lk_pdus l) \<and> i = U \<and> U = lk_high l \<and> synced r s U \<longrightarrow> U' = Suc U \<and> synced r' s U' \<and> ds = sdus_at s U"
    "length (lk_pdus l) \<le> i \<longrightarrow> l' = l \<and> r' = r \<and> U' = U \<and> ds = []"
proof (cases "i < length (lk_pdus l)")
  case False
  then show thesis using that [of l r U "[]"] inv by simp
next
  case True
  note d = link_invD [OF inv]
  obtain A where A: "um_rx_inv r s U (lk_high l) A" using d(10) by blast
  have i: "i < length s" "i < lk_high l + win r" "lk_high l \<le> i + win r" using True ok d(11) by (auto simp: op_allowed_def)
  have pdu: "pdu_octets_at r s i (lk_pdus l ! i)" using d(7) i(1) by (simp add: tx_inv_def)
  obtain r' U' ds where h: "handle_data_pdu (lk_pdus l ! i) r = Some (r', map (up_event r) ds)"
    "um_rx_inv r' s U' (max (lk_high l) (Suc i)) ((if i < U then A else insert i A) \<inter> {U'..})" "U \<le> U'" "subseq ds (sdus_in s U U')"
    "rx_cfg r' = rx_cfg r" "rx_lcid r' = rx_lcid r"
    "i = U \<and> U = lk_high l \<and> synced r s U \<longrightarrow> U' = Suc U \<and> synced r' s U' \<and> ds = sdus_at s U"
    by (rule handle_data_pdu_spec [OF A pdu i])
  define out where "out = lk_out l @ map (up_event r) ds"
  let ?l = "l\<lparr>lk_rx := (lk_rx l)\<lparr>um_rx := Some r'\<rparr>, lk_out := out, lk_high := max (lk_high l) (Suc i)\<rparr>"
  have "link_step (Arrive i) l = Some ?l" using h(1) d(3,4) True by (simp add: um_write_pdu_def out_def)
  then show thesis
    using that [of ?l r' U' ds] link_rx [OF inv h(2,5,6,3,4) out_def] h(7) True by simp
qed

lemma link_expire:
  assumes inv: "link_inv lcid cfg l t r s sdus U D"
  obtains l' r' U' ds where "link_step Expire l = Some l'" "link_inv lcid cfg l' t r' s sdus U' (D @ ds)"
proof -
  note d = link_invD [OF inv]
  obtain A where A: "um_rx_inv r s U (lk_high l) A" using d(10) by blast
  obtain r' U' ds where h: "timer_trigger r = Some (r', map (up_event r) ds)" "um_rx_inv r' s U' (lk_high l) (A \<inter> {U'..})" "U \<le> U'"
    "subseq ds (sdus_in s U U')" "rx_cfg r' = rx_cfg r" "rx_lcid r' = rx_lcid r"
    by (rule timer_trigger_spec [OF A])
  define out where "out = lk_out l @ map (up_event r) ds"
  let ?l = "l\<lparr>lk_rx := (lk_rx l)\<lparr>um_rx := Some r'\<rparr>, lk_out := out, lk_high := lk_high l\<rparr>"
  have "link_step Expire l = Some ?l" using h(1) d(3) by (simp add: um_timeout_def out_def)
  then show thesis using that [of ?l r' U' ds] link_rx [OF inv h(2,5,6,3,4) out_def] by simp
qed

lemma link_run_inv:
  assumes "link_inv lcid cfg l t r s sdus U D" "run_allowed (unat (rx_window_size (rc_um cfg))) ops l"
  shows "\<exists>l' t' r' s' more U' D'. link_run ops l = Some l' \<and> link_inv lcid cfg l' t' r' s' (sdus @ more) U' D' \<and>
     subseq more (um_written ops)"
  using assms
proof (induction ops arbitrary: l t r s sdus U D)
  case Nil
  then show ?case by force
next
  case (Cons op ops)
  have w: "win r = unat (rx_window_size (rc_um cfg))" using Cons.prems(1) by (simp add: win_def link_inv_def)
  note ok = Cons.prems(2) [folded w]
  have step: "\<exists>l' t' r' s' more U' D'. link_step op l = Some l' \<and> link_inv lcid cfg l' t' r' s' (sdus @ more) U' D' \<and>
     subseq more (um_written [op])"
  proof (cases op)
    case (Write x)
    then have x: "x \<noteq> []" using ok by (simp add: op_allowed_def)
    show ?thesis
    proof (cases rule: link_write [OF Cons.prems(1) x])
      case 1
      then show ?thesis using Cons.prems(1) Write by (intro exI [of _ l] exI [of _ t] exI [of _ r] exI [of _ s] exI [of _ "[]"]) auto
    next
      case (2 l' t')
      then show ?thesis using Write by (intro exI [of _ l'] exI [of _ t'] exI [of _ r] exI [of _ s] exI [of _ "[x]"]) auto
    qed
  next
    case (Grant n)
    show ?thesis
    proof (cases rule: link_grant [OF Cons.prems(1), of n])
      case (1 l')
      then show ?thesis using Grant by (intro exI [of _ l'] exI [of _ t] exI [of _ r] exI [of _ s] exI [of _ "[]"]) auto
    next
      case (2 l' t' y)
      then show ?thesis using Grant by (intro exI [of _ l'] exI [of _ t'] exI [of _ r] exI [of _ "s @ [y]"] exI [of _ "[]"]) auto
    qed
  next
    case (Arrive i)
    have a: "op_allowed (win r) l (Arrive i)" using ok Arrive by simp
    obtain l' r' U' ds where "link_step (Arrive i) l = Some l'" "link_inv lcid cfg l' t r' s sdus U' (D @ ds)"
      by (rule link_arrive [OF Cons.prems(1) a])
    then show ?thesis using Arrive by (intro exI [of _ l'] exI [of _ t] exI [of _ r'] exI [of _ s] exI [of _ "[]"]) auto
  next
    case Expire
    obtain l' r' U' ds where "link_step Expire l = Some l'" "link_inv lcid cfg l' t r' s sdus U' (D @ ds)"
      by (rule link_expire [OF Cons.prems(1)])
    then show ?thesis using Expire by (intro exI [of _ l'] exI [of _ t] exI [of _ r'] exI [of _ s] exI [of _ "[]"]) auto
  qed
  then obtain l1 t1 r1 s1 more1 U1 D1 where 1: "link_step op l = Some l1" "link_inv lcid cfg l1 t1 r1 s1 (sdus @ more1) U1 D1"
    "subseq more1 (um_written [op])" by blast
  have "run_allowed (unat (rx_window_size (rc_um cfg))) ops l1" using Cons.prems(2) 1(1) by simp
  from Cons.IH [OF 1(2) this] obtain l' t' r' s' more U' D' where 2: "link_run ops l1 = Some l'"
    "link_inv lcid cfg l' t' r' s' (sdus @ more1 @ more) U' D'" "subseq more (um_written ops)" by auto
  have "um_written (op # ops) = um_written [op] @ um_written ops" by (cases op) auto
  then have "subseq (more1 @ more) (um_written (op # ops))" using 1(3) 2(3) list_emb_append_mono by metis
  then show ?case using 1(1) 2(1,2) by (intro exI [of _ l'] exI [of _ t'] exI [of _ r'] exI [of _ s'] exI [of _ "more1 @ more"]) auto
qed

section \<open>A channel that delivers at once\<close>

primrec transfers :: "nat \<Rightarrow> u32 list \<Rightarrow> link_op list" where
  "transfers i [] = []"
| "transfers i (n # ns) = Grant n # Arrive i # transfers (Suc i) ns"

lemma link_run_append: "link_run (xs @ ys) l = Option.bind (link_run xs l) (link_run ys)"
proof (induction xs arbitrary: l)
  case (Cons op xs)
  then show ?case by (cases "link_step op l") simp_all
qed simp

lemma tx_has_data_pending: "tx_has_data t \<longleftrightarrow> tx_pending t \<noteq> []"
  by (auto simp: tx_has_data_def tx_pending_def bq_is_empty_def split: option.splits)

text \<open>All that was sent was passed up.\<close>

definition um_in_step :: "um_link \<Rightarrow> rlc_um_lte_rx \<Rightarrow> stream \<Rightarrow> bytes list \<Rightarrow> bool" where
  "um_in_step l r s D \<longleftrightarrow> lk_high l = length s \<and> D = sdus_in s 0 (length s) \<and> synced r s (length s)"

lemma link_writes:
  assumes "link_inv lcid cfg l t r s sdus U D" "\<forall>x \<in> set xs. x \<noteq> [] \<and> length x \<le> RLC_MAX_SDU_SIZE"
    "int (length (bq_q (tx_sdu_queue t)) + length xs) \<le> sint (tx_queue_length (tx_cfg t))"
  shows "\<exists>l' t'. link_run (map Write xs) l = Some l' \<and> link_inv lcid cfg l' t' r s (sdus @ xs) U D \<and>
     tx_pending t' = tx_pending t @ xs \<and> lk_pdus l' = lk_pdus l \<and> lk_high l' = lk_high l"
  using assms
proof (induction xs arbitrary: l t sdus)
  case (Cons x xs)
  have x: "x \<noteq> []" "length x \<le> RLC_MAX_SDU_SIZE" using Cons.prems(2) by simp_all
  have "bq_capacity (tx_sdu_queue t) = sint (tx_queue_length (tx_cfg t))"
    using link_invD(7) [OF Cons.prems(1)] by (simp add: tx_inv_def)
  then have room: "check_queue_space (tx_sdu_queue t)" using Cons.prems(3) by (auto simp: check_queue_space_def)
  show ?case
  proof (cases rule: link_write [OF Cons.prems(1) x(1)])
    case 1
    then show ?thesis using x room by simp
  next
    case (2 l1 t1)
    have "int (length (bq_q (tx_sdu_queue t1)) + length xs) \<le> sint (tx_queue_length (tx_cfg t1))"
      using Cons.prems(3) 2(4,5) by simp
    from Cons.IH [OF 2(2) _ this] Cons.prems(2) obtain l' t' where "link_run (map Write xs) l1 = Some l'"
      "link_inv lcid cfg l' t' r s ((sdus @ [x]) @ xs) U D" "tx_pending t' = tx_pending t1 @ xs" "lk_pdus l' = lk_pdus l1"
      "lk_high l' = lk_high l1" by auto
    then show ?thesis using 2 by (intro exI [of _ l'] exI [of _ t']) (simp add: tx_pending_def del: link_step.simps)
  qed
qed (intro exI conjI, auto)

lemma in_step_arrive:
  assumes inv: "link_inv lcid cfg l t r (s @ [x]) sdus (length s) D" and st: "um_in_step l r s D"
  obtains l' r' D' where "link_step (Arrive (length s)) l = Some l'" "link_inv lcid cfg l' t r' (s @ [x]) sdus (Suc (length s)) D'"
    "lk_pdus l' = lk_pdus l" "um_in_step l' r' (s @ [x]) D'"
proof -
  note d = link_invD [OF inv]
  have len: "length (lk_pdus l) = Suc (length s)" using d(11) by simp
  have "rx_cfg_ok (rx_cfg r)" using d(7) by (simp add: tx_inv_def um_peers_def)
  then have "0 < win r" by (rule win(5))
  then have ok: "op_allowed (win r) l (Arrive (length s))" using st by (simp add: op_allowed_def um_in_step_def)
  have sy: "synced r (s @ [x]) (length s)" using st by (simp add: um_in_step_def synced_def carry_at_append)
  obtain l' r' U' ds where a: "link_step (Arrive (length s)) l = Some l'" "link_inv lcid cfg l' t r' (s @ [x]) sdus U' (D @ ds)"
    "lk_pdus l' = lk_pdus l" "lk_high l' = max (lk_high l) (Suc (length s))" "U' = Suc (length s)" "synced r' (s @ [x]) U'"
    "ds = sdus_at (s @ [x]) (length s)"
    by (rule link_arrive [OF inv ok]) (use len st sy in \<open>simp add: um_in_step_def\<close>)
  have "D @ ds = sdus_in (s @ [x]) 0 (Suc (length s))"
    using st a(7) sdus_in_append [of 0 "length s" "Suc (length s)" "s @ [x]"] sdus_in_stream_append [of "length s" s "[x]" 0]
    by (simp add: um_in_step_def)
  then have "um_in_step l' r' (s @ [x]) (D @ ds)" using st a(4-6) by (simp add: um_in_step_def)
  then show thesis using that a by blast
qed

lemma link_transfers:
  assumes "link_inv lcid cfg l t r s sdus (length s) D" "um_in_step l r s D" "\<forall>n \<in> set ns. 4 \<le> unat n"
    "length s \<le> i" "tx_pending t \<noteq> [] \<longrightarrow> i = length s"
  shows "\<exists>l' t' r' s' D'. link_run (transfers i ns) l = Some l' \<and> link_inv lcid cfg l' t' r' s' sdus (length s') D' \<and>
     um_in_step l' r' s' D' \<and> length (concat (tx_pending t')) \<le> length (concat (tx_pending t)) - length ns"
  using assms
proof (induction ns arbitrary: l t r s D i)
  case Nil
  then show ?case by auto
next
  case (Cons n ns)
  show ?case
  proof (cases rule: link_grant [OF Cons.prems(1), of n])
    case (1 l1)
    have "4 \<le> unat n" "fixed_length t \<le> 2" using Cons.prems(3) by (simp_all add: fixed_length_def)
    then have p: "tx_pending t = []" using 1(4) by (auto simp: buffer_room tx_has_data_pending)
    have len: "length (lk_pdus l1) \<le> i" using link_invD(11) [OF 1(2)] Cons.prems(4) by simp
    have st: "um_in_step l1 r s D" using Cons.prems(2) 1(5) by (simp add: um_in_step_def)
    from Cons.IH [OF 1(2) st, of "Suc i"] Cons.prems(3,4) p obtain l' t' r' s' D' where
      "link_run (transfers (Suc i) ns) l1 = Some l'" "link_inv lcid cfg l' t' r' s' sdus (length s') D'" "um_in_step l' r' s' D'"
      "length (concat (tx_pending t')) \<le> length (concat (tx_pending t)) - length ns" by auto
    moreover have "link_step (Arrive i) l1 = Some l1" using len by simp
    ultimately show ?thesis
      using 1(1) p by (intro exI [of _ l'] exI [of _ t'] exI [of _ r'] exI [of _ s'] exI [of _ D']) (simp del: link_step.simps)
  next
    case (2 l1 t1 x)
    have ne: "tx_pending t \<noteq> []" using 2(3) by auto
    then have i: "i = length s" using Cons.prems(5) by simp
    have st: "um_in_step l1 r s D" using Cons.prems(2) 2(6) by (simp add: um_in_step_def)
    obtain l2 r2 D2 where a: "link_step (Arrive (length s)) l1 = Some l2"
      "link_inv lcid cfg l2 t1 r2 (s @ [x]) sdus (Suc (length s)) D2" "um_in_step l2 r2 (s @ [x]) D2"
      by (rule in_step_arrive [OF 2(2) st])
    from Cons.IH [of l2 t1 r2 "s @ [x]" D2 "Suc i"] a(2,3) Cons.prems(3) i obtain l' t' r' s' D' where
      "link_run (transfers (Suc i) ns) l2 = Some l'" "link_inv lcid cfg l' t' r' s' sdus (length s') D'" "um_in_step l' r' s' D'"
      "length (concat (tx_pending t')) \<le> length (concat (tx_pending t1)) - length ns" by auto
    then show ?thesis
      using 2(1,3) a(1) i by (intro exI [of _ l'] exI [of _ t'] exI [of _ r'] exI [of _ s'] exI [of _ D']) (simp del: link_step.simps)
  qed
qed

lemma link_drained:
  assumes inv: "link_inv lcid cfg l t r s sdus (length s) D" and st: "um_in_step l r s D" and e: "concat (tx_pending t) = []"
  shows "lk_out l = map (um_up cfg lcid) sdus"
proof -
  note d = link_invD [OF inv]
  have "[] \<notin> set (tx_pending t)" using d(7) by (simp add: tx_inv_def tx_ok_def)
  then have p: "tx_pending t = []" using e by (cases "tx_pending t") auto
  then have "tx_sdu t = None" by (auto simp: tx_pending_def split: option.splits)
  then have c: "carry_at s (length s) = []" using d(7) unfolding tx_inv_def by blast
  have "sdus_in s 0 (length s) @ open_sdus (carry_at s (length s)) (tx_pending t) = sdus" using d(7) unfolding tx_inv_def by blast
  then have "D = sdus" using st by (simp add: um_in_step_def c p open_sdus_def)
  then show ?thesis using d(5,6,8) by (simp add: um_up)
qed

lemma link_lossless:
  assumes "um_peers cfg_t cfg_r" and "\<forall>x \<in> set sdus. x \<noteq> [] \<and> length x \<le> RLC_MAX_SDU_SIZE"
    and "int (length sdus) \<le> sint (tx_queue_length cfg_t)" and "\<forall>n \<in> set ns. 4 \<le> unat n" and "length (concat sdus) \<le> length ns"
  shows "\<exists>l. link_run (map Write sdus @ transfers 0 ns) (link_start lcid cfg_t cfg_r) = Some l \<and>
     lk_out l = map (um_up cfg_r lcid) sdus"
proof -
  obtain t r where 0: "link_inv lcid cfg_r (link_start lcid cfg_t cfg_r) t r [] [] 0 []" "synced r [] 0" "tx_pending t = []" "tx_cfg t = cfg_t"
    by (rule link_start_inv [OF assms(1)])
  have "bq_q (tx_sdu_queue t) = []" using 0(3) by (simp add: tx_pending_def)
  then have room: "int (length (bq_q (tx_sdu_queue t)) + length sdus) \<le> sint (tx_queue_length (tx_cfg t))"
    using assms(3) 0(4) by simp
  obtain l1 t1 where 1: "link_run (map Write sdus) (link_start lcid cfg_t cfg_r) = Some l1"
    "link_inv lcid cfg_r l1 t1 r [] sdus (length ([] :: stream)) []" "tx_pending t1 = sdus" "lk_high l1 = 0"
    using link_writes [OF 0(1) assms(2) room] 0(3) by (auto simp: link_start_def)
  have st: "um_in_step l1 r [] []" using 0(2) 1(4) by (simp add: um_in_step_def)
  obtain l t' r' s' D' where 2: "link_run (transfers 0 ns) l1 = Some l" "link_inv lcid cfg_r l t' r' s' sdus (length s') D'"
    "um_in_step l r' s' D'" "length (concat (tx_pending t')) \<le> length (concat sdus) - length ns"
    using link_transfers [OF 1(2) st assms(4), of 0] 1(3) by auto
  have "concat (tx_pending t') = []" using 2(4) assms(5) by simp
  from link_drained [OF 2(2,3) this] show ?thesis using 1(1) 2(1) by (simp add: link_run_append)
qed

section \<open>The properties of the transfer\<close>


text \<open>
  When the queue has room for the SDUs, every PDU sent arrives at once, and there are as many grants of at
  least four octets as the SDUs have octets, then all SDUs are passed up, in their order.
\<close>

theorem um_link_lossless:
  assumes "um_peers cfg_t cfg_r" and "\<forall>x \<in> set sdus. x \<noteq> [] \<and> length x \<le> RLC_MAX_SDU_SIZE"
    and "int (length sdus) \<le> sint (tx_queue_length cfg_t)" and "\<forall>n \<in> set ns. 4 \<le> unat n" and "length (concat sdus) \<le> length ns"
  shows "\<exists>l. link_run (map Write sdus @ transfers 0 ns) (link_start lcid cfg_t cfg_r) = Some l \<and>
     lk_out l = map (um_up cfg_r lcid) sdus"
  using assms by (rule link_lossless)

text \<open>
  Claim C26. In every state the two entities reach, the PDU built for a grant is not longer than the grant, and building
  it does not leave the buffer.
\<close>

theorem um_pdu_fits:
  assumes "um_peers cfg_t cfg_r"
    and "run_allowed (unat (rx_window_size (rc_um cfg_r))) ops (link_start lcid cfg_t cfg_r)"
  shows "\<exists>l payload e. link_run ops (link_start lcid cfg_t cfg_r) = Some l \<and> um_read_pdu n (lk_tx l) = Some (payload, e) \<and>
     length payload \<le> unat n"
proof -
  obtain t r where "link_inv lcid cfg_r (link_start lcid cfg_t cfg_r) t r [] [] 0 []"
    by (rule link_start_inv [OF assms(1)])
  from link_run_inv [OF this assms(2)] obtain l t' r' s' more U' D' where l: "link_run ops (link_start lcid cfg_t cfg_r) = Some l"
    "link_inv lcid cfg_r l t' r' s' more U' D'" by auto
  note d = link_invD [OF l(2)]
  show ?thesis
    by (cases rule: grant_step [OF d(7), of n]) (use l(1) d(1,2) in \<open>auto simp: um_read_pdu_def\<close>)
qed

subsection \<open>An example\<close>

lemma bind_weak: "x = y \<Longrightarrow> Option.bind x f = Option.bind y f"
  by simp

lemmas um_tx_eval = link_start_def default_rlc_um_config_def Let_def um_configure_def rx_configure_def tx_configure_def
  rlc_um_lte_new_def rlc_um_lte_rx_new_def rlc_um_lte_tx_new_def RLC_TX_QUEUE_LEN_def rlc_config_empty_def bq_new_def
  bq_resize_def MAX_TIMER_DURATION_def op_allowed_def rlc_write_sdu_def um_write_sdu_def tx_try_write_sdu_def
  bq_try_write_def check_queue_space_def bq_pushing_def um_read_pdu_def tx_build_data_pdu_def tx_build_data_pdu_lte_def
  bq_is_empty_def fixed_header_length fixed_length_def RLC_MAX_SDU_SIZE_def RLC_AM_WINDOW_SIZE_def tx_sdu_segment_def
  pull_sdus.simps buffer_room rlc_um_packed_length_def ext_length_def bq_read_def bq_popping_def append_octets_def
  sdu_rest_def tx_finish_pdu_def rlc_um_write_data_pdu_header_def push_li_def fi_defs

lemmas um_rx_eval = um_write_pdu_def handle_data_pdu_def rlc_um_read_data_pdu_header_def RX_MOD_BASE_def
  inside_reordering_window_def map_assign_def reassemble_rx_sdus_def clear_sdu_def lower_edge.simps update_loop.simps
  update_timer_def update_pdu_def update_last_def copy_segment_def pdu_belongs_to_rx_sdu_def sdu_octets_def
  next_vr_ur_def deliver_sdu_def rlc_um_start_aligned_def rlc_um_end_aligned_def um_timeout_def timer_trigger_def

text \<open>The second PDU comes first, the first one twice.\<close>

definition um_example :: "link_op list" where
  "um_example = [Write [1, 2, 3, 4, 5], Write [6, 7], Grant 5, Grant 100, Arrive 1, Arrive 0, Arrive 0, Expire]"

abbreviation um_example_start :: um_link where
  "um_example_start \<equiv> link_start 3 (default_rlc_um_config 10) (default_rlc_um_config 10)"

lemma um_example_peers: "um_peers (default_rlc_um_config 10) (default_rlc_um_config 10)"
  by (simp add: um_peers_def default_rlc_um_config_def rx_cfg_ok_def rlc_config_empty_def RLC_TX_QUEUE_LEN_def Let_def)

lemma um_example_window: "unat (rx_window_size (rc_um (default_rlc_um_config 10))) = 512"
  by (simp add: default_rlc_um_config_def Let_def)

lemma um_example_run: "run_allowed 512 um_example um_example_start"
  "map_option lk_out (link_run um_example um_example_start) = Some [Pdcp_write_pdu 3 [1, 2, 3, 4, 5], Pdcp_write_pdu 3 [6, 7]]"
  unfolding um_example_def by (simp_all add: um_tx_eval um_rx_eval cong: bind_weak)


theorem um_link_lossless_witness:
  "\<exists>l. link_run (map Write [[1, 2, 3, 4, 5], [6, 7]] @ transfers 0 (replicate 7 4)) um_example_start = Some l \<and>
     lk_out l = map (um_up (default_rlc_um_config 10) 3) [[1, 2, 3, 4, 5], [6, 7]]"
  by (rule um_link_lossless [OF um_example_peers])
    (simp_all add: RLC_MAX_SDU_SIZE_def default_rlc_um_config_def rlc_config_empty_def RLC_TX_QUEUE_LEN_def Let_def)

theorem um_pdu_fits_witness: "\<exists>l payload e. link_run [Write [1, 2, 3, 4, 5], Grant 5] um_example_start = Some l \<and>
    um_read_pdu 9 (lk_tx l) = Some (payload, e) \<and> length payload \<le> 9"
proof -
  have a: "run_allowed 512 [Write [1, 2, 3, 4, 5], Grant 5] um_example_start" by (simp add: um_tx_eval cong: bind_weak)
  show ?thesis using um_pdu_fits [OF um_example_peers a [folded um_example_window], of 9] by simp
qed

section \<open>A length indicator behind the end of the PDU\<close>

text \<open>
  Claim C25. A receiver does not compare the length indicators of a PDU with the length of the PDU: with one that is
  greater than the number of octets that follow the header, it reads behind the end of the buffer.
\<close>

theorem um_forged_length:
  assumes "k = 5 \<or> k = 10" and "length data < unat l" and "l < 2048"
  shows "um_write_pdu (rlc_um_write_data_pdu_header
      \<lparr>h_fi = 0, h_sn_size = rx_sn_field_length (rc_um (default_rlc_um_config k)), h_sn = 0, h_li = [l]\<rparr> data)
      (snd (um_configure (default_rlc_um_config k) (rlc_um_lte_new lcid))) = None"
proof -
  define cfg where "cfg = default_rlc_um_config k"
  define h where "h = \<lparr>h_fi = 0 :: u8, h_sn_size = rx_sn_field_length (rc_um cfg), h_sn = 0 :: u16, h_li = [l]\<rparr>"
  define payload where "payload = rlc_um_write_data_pdu_header h data"
  have hk: "header_ok h" using assms(3) by (simp add: header_ok_def h_def RLC_AM_WINDOW_SIZE_def)
  have rd: "rlc_um_read_data_pdu_header payload (rx_sn_field_length (rc_um cfg)) = Some h"
    using read_write_header [OF hk, of data] by (simp add: payload_def h_def)
  have dr: "drop (rlc_um_packed_length h) payload = data" by (simp add: payload_def drop_write_header)
  have l: "unat l < 2048" using assms(3) by (simp add: word_less_nat_alt)
  then have "length payload \<le> buffer_room"
    using assms(2) by (simp add: payload_def length_write_header rlc_um_packed_length_def ext_length_def h_def buffer_room)
  then have ap: "append_octets [] payload = Some payload" by (simp add: append_octets_def)
  have nl: "\<not> unat l \<le> length data" using assms(2) by simp
  define r where "r = snd (rx_configure (rlc_um_lte_rx_new lcid cfg))"
  have r: "rx_cfg r = cfg" "rx_window r = []" "rx_sdu r = None" "vr_ur_in_rx_sdu r = 0" "vr_ur r = 0" "vr_uh r = 0" "\<not> pdu_lost r"
    by (simp_all add: r_def rx_configure_def rlc_um_lte_rx_new_def)
  have w: "um_win r = 16 \<and> rx_mod (rc_um cfg) = 32 \<or> um_win r = 512 \<and> rx_mod (rc_um cfg) = 1024" and "tx_mod (rc_um cfg) \<noteq> 0"
    using assms(1) by (auto simp: cfg_def default_rlc_um_config_def Let_def r)
  then have c: "rx_mod (rc_um cfg) \<noteq> 0" "tx_mod (rc_um cfg) \<noteq> 0" by auto
  have sn: "h_sn h = 0" by (simp add: h_def)
  have e: "um_rx (snd (um_configure cfg (rlc_um_lte_new lcid))) = Some r" "rx_enabled (snd (um_configure cfg (rlc_um_lte_new lcid)))"
    using c(1,2) by (simp_all add: um_configure_def r_def rlc_um_lte_new_def tx_configure_def rx_configure_def
        rlc_um_lte_rx_new_def Let_def)
  let ?pdu = "\<lparr>up_header = h, up_buf = data\<rparr>"
  have u: "update_pdu ?pdu r' = None" if "sdu_octets r' = []" for r'
  proof -
    have "copy_segment (unat l) data r' = None" for r' by (simp add: copy_segment_def nl)
    then show ?thesis
      using that l by (simp add: update_pdu_def h_def rlc_um_start_aligned_def fi_defs Let_def buffer_room)
  qed
  have "update_loop r' = None" if "map_find (vr_ur r') (rx_window r') = Some ?pdu" "sdu_octets r' = []" for r'
    using that u by (simp add: update_loop.simps [of r'])
  moreover have "lower_edge r' = Some (r', [])" if "inside_reordering_window r' (ucast (vr_ur r'))" for r'
    using that by (simp add: lower_edge.simps [of r'])
  moreover define r2 where "r2 = r\<lparr>rx_window := [(0, ?pdu)], vr_uh := 1 mod rx_mod (rc_um cfg), rx_sdu := Some []\<rparr>"
  moreover have "map_find (vr_ur r2) (rx_window r2) = Some ?pdu" "sdu_octets r2 = []" by (simp_all add: r2_def r sdu_octets_def)
  moreover have "inside_reordering_window r2 (ucast (vr_ur r2))"
    using w by (auto simp: inside_reordering_window_def RX_MOD_BASE_def r2_def r)
  ultimately have re: "reassemble_rx_sdus r2 = None" by (simp add: reassemble_rx_sdus_def r2_def)
  have out: "\<not> inside_reordering_window (r\<lparr>rx_window := [(0, ?pdu)]\<rparr>) 0"
    using w by (auto simp: inside_reordering_window_def RX_MOD_BASE_def r)
  have re': "reassemble_rx_sdus (r\<lparr>rx_window := [(0, ?pdu)], vr_uh := 1 mod rx_mod (rc_um cfg)\<rparr>) = None"
    using re by (simp add: reassemble_rx_sdus_def r r2_def clear_sdu_def)
  have "handle_data_pdu payload r = None"
    unfolding handle_data_pdu_def r(1) rd bind.bind_lunit
    using out re' by (simp add: r ap dr sn map_assign_def Let_def)
  then show ?thesis
    unfolding cfg_def [symmetric] h_def [symmetric] payload_def [symmetric] by (simp add: um_write_pdu_def e)
qed

theorem um_forged_length_witness:
  "um_write_pdu (rlc_um_write_data_pdu_header \<lparr>h_fi = 0, h_sn_size = size10bits, h_sn = 0, h_li = [2000]\<rparr> [1, 2, 3])
     (snd (um_configure (default_rlc_um_config 10) (rlc_um_lte_new 3))) = None"
  using um_forged_length [of 10 "[1, 2, 3]" 2000 3] by (simp add: default_rlc_um_config_def Let_def)

end
