(* ===== verification/Um_Bearer.thy ===== *)
theory Um_Bearer
  imports Pdcp_Link Rlc_Um_Run
begin

unbundle bit_operations_syntax

text \<open>
  A data bearer in unacknowledged mode: two PDCP entities above two RLC entities, from the SDU at one end to the SDU at
  the other.
\<close>

section \<open>The bearer\<close>

text \<open>What the PDCP sees of the RLC entity below it.\<close>

definition rlc_of :: "rlc_um_lte \<Rightarrow> rlc_interface" where
  "rlc_of u = \<lparr>sdu_queue_is_full = (\<lambda>lcid. um_sdu_queue_is_full u = Some True), rb_is_um = (\<lambda>lcid. True)\<rparr>"

text \<open>What the PDCP passes down, and what the RLC passes up in a buffer of its own.\<close>

fun pass_down :: "pdcp_event \<Rightarrow> um_link \<Rightarrow> um_link" where
  "pass_down (Rlc_write_sdu lcid pdu) l = l\<lparr>lk_tx := rlc_write_sdu (bb_data pdu) (lk_tx l)\<rparr>"
| "pass_down _ l = l"

fun bearer_send :: "ssl_lib \<Rightarrow> pdcp_entity_lte \<Rightarrow> um_link \<Rightarrow> byte_buffer list \<Rightarrow> (pdcp_entity_lte \<times> um_link) option" where
  "bearer_send lib e l [] = Some (e, l)"
| "bearer_send lib e l (sdu # sdus) =
    Option.bind (write_sdu lib (rlc_of (lk_tx l)) e sdu) (\<lambda>(e, evs). bearer_send lib e (fold pass_down evs l) sdus)"

fun bearer_receive :: "ssl_lib \<Rightarrow> rlc_interface \<Rightarrow> pdcp_entity_lte \<Rightarrow> rlc_event list \<Rightarrow> (pdcp_entity_lte \<times> pdcp_event list) option" where
  "bearer_receive lib rlc r [] = Some (r, [])"
| "bearer_receive lib rlc r (Pdcp_write_pdu lcid x # evs) =
    Option.bind (append_bytes byte_buffer_new x (of_nat (length x))) (\<lambda>pdu.
    Option.bind (write_pdu lib rlc r pdu) (\<lambda>(r, up).
    map_option (\<lambda>(r, ups). (r, up @ ups)) (bearer_receive lib rlc r evs)))"
| "bearer_receive lib rlc r (Pdcp_write_pdu_mch lcid x # evs) = bearer_receive lib rlc r evs"

definition um_bearer ::
  "ssl_lib \<Rightarrow> pdcp_entity_lte \<Rightarrow> pdcp_entity_lte \<Rightarrow> um_link \<Rightarrow> byte_buffer list \<Rightarrow> u32 list \<Rightarrow>
   (pdcp_entity_lte \<times> pdcp_entity_lte \<times> um_link \<times> pdcp_event list) option" where
  "um_bearer lib e r l sdus ns =
    Option.bind (bearer_send lib e l sdus) (\<lambda>(e, l).
    Option.bind (link_run (transfers 0 ns) l) (\<lambda>l.
    map_option (\<lambda>(r, ups). (e, r, l, ups)) (bearer_receive lib (rlc_of (lk_rx l)) r (lk_out l))))"

section \<open>Sending\<close>

fun pdcp_pdus :: "ssl_lib \<Rightarrow> pdcp_entity_lte \<Rightarrow> byte_buffer list \<Rightarrow> bytes list" where
  "pdcp_pdus lib e [] = []"
| "pdcp_pdus lib e (sdu # sdus) = pdu_octets lib e (bb_data sdu) # pdcp_pdus lib (step_tx_sn e) sdus"

definition sdu_small :: "pdcp_entity_lte \<Rightarrow> byte_buffer \<Rightarrow> bool" where
  "sdu_small e sdu \<longleftrightarrow> sdu_fits e sdu \<and> length (bb_data sdu) + 3 \<le> RLC_MAX_SDU_SIZE"

lemma sdu_small_step: "sdu_small (step_tx_sn e) sdu = sdu_small e sdu"
  by (simp add: sdu_small_def sdu_fits_def is_drb_def)

lemma drb_pdu_length:
  assumes "lib_ok lib" "lte_ok e" "is_drb e"
  shows "length (pdu_octets lib e m) = hdr_len (pe_cfg e) + length m" "0 < hdr_len (pe_cfg e)" "hdr_len (pe_cfg e) \<le> 3"
proof -
  have cfg: "cfg_ok (pe_cfg e)" using assms(2) by (simp add: lte_ok_def)
  then show "0 < hdr_len (pe_cfg e)" "hdr_len (pe_cfg e) \<le> 3" using hdr_len_pos by simp_all
  show "length (pdu_octets lib e m) = hdr_len (pe_cfg e) + length m"
    using assms(1,3) length_pdcp_header [OF cfg] by (simp add: pdu_octets_def Let_def length_crypt)
qed

lemma pdcp_pdus_size:
  assumes "lib_ok lib" "lte_ok e" "is_drb e" "\<forall>sdu \<in> set sdus. sdu_small e sdu"
  shows "\<forall>x \<in> set (pdcp_pdus lib e sdus). x \<noteq> [] \<and> length x \<le> RLC_MAX_SDU_SIZE"
    "length (concat (pdcp_pdus lib e sdus)) \<le> sum_list (map (\<lambda>sdu. length (bb_data sdu) + 3) sdus)"
    "length (pdcp_pdus lib e sdus) = length sdus"
proof -
  have "(\<forall>x \<in> set (pdcp_pdus lib e sdus). x \<noteq> [] \<and> length x \<le> RLC_MAX_SDU_SIZE) \<and>
    length (concat (pdcp_pdus lib e sdus)) \<le> sum_list (map (\<lambda>sdu. length (bb_data sdu) + 3) sdus) \<and>
    length (pdcp_pdus lib e sdus) = length sdus"
    using assms(2-4)
  proof (induction sdus arbitrary: e)
    case (Cons sdu sdus)
    let ?x = "pdu_octets lib e (bb_data sdu)"
    note l = drb_pdu_length(1) [OF assms(1) Cons.prems(1,2), of "bb_data sdu"] drb_pdu_length(2,3) [OF assms(1) Cons.prems(1,2)]
    have "length (bb_data sdu) + 3 \<le> RLC_MAX_SDU_SIZE" using Cons.prems(3) by (simp add: sdu_small_def)
    then have "?x \<noteq> []" "length ?x \<le> RLC_MAX_SDU_SIZE" "length ?x \<le> length (bb_data sdu) + 3" using l by auto
    moreover have "lte_ok (step_tx_sn e)" "is_drb (step_tx_sn e)" using Cons.prems(1,2) by (simp_all add: lte_ok_step_tx is_drb_def)
    ultimately show ?case using Cons.IH [of "step_tx_sn e"] Cons.prems(3) by (simp add: sdu_small_step)
  qed simp
  then show "\<forall>x \<in> set (pdcp_pdus lib e sdus). x \<noteq> [] \<and> length x \<le> RLC_MAX_SDU_SIZE"
    "length (concat (pdcp_pdus lib e sdus)) \<le> sum_list (map (\<lambda>sdu. length (bb_data sdu) + 3) sdus)"
    "length (pdcp_pdus lib e sdus) = length sdus" by simp_all
qed

lemma bearer_send_writes:
  assumes lib: "lib_ok lib"
    and "lte_ok e" "is_drb e" "pe_enable_security_tx_sn e = - 1" "\<forall>sdu \<in> set sdus. sdu_small e sdu"
    and "link_inv lcid cfg l t r s xs U D"
    and "int (length (bq_q (tx_sdu_queue t)) + length sdus) \<le> sint (tx_queue_length (tx_cfg t))"
  shows "\<exists>e' l'. bearer_send lib e l sdus = Some (e', l') \<and> link_run (map Write (pdcp_pdus lib e sdus)) l = Some l'"
  using assms(2-)
proof (induction sdus arbitrary: e l t xs)
  case (Cons sdu sdus)
  let ?x = "pdu_octets lib e (bb_data sdu)"
  have fit: "sdu_fits e sdu" using Cons.prems(4) by (simp add: sdu_small_def)
  have x: "?x \<noteq> []" "length ?x \<le> RLC_MAX_SDU_SIZE"
    using pdcp_pdus_size(1) [OF lib Cons.prems(1,2), of "[sdu]"] Cons.prems(4) by simp_all
  note d = link_invD [OF Cons.prems(5)]
  have "bq_capacity (tx_sdu_queue t) = sint (tx_queue_length (tx_cfg t))" using d(7) by (simp add: tx_inv_def)
  then have room: "check_queue_space (tx_sdu_queue t)" using Cons.prems(6) by (auto simp: check_queue_space_def)
  then have free: "\<not> sdu_queue_is_full (rlc_of (lk_tx l)) (pe_lcid e)"
    using d(1) by (simp add: rlc_of_def um_sdu_queue_is_full_def bq_is_full_def)
  obtain b where w: "write_sdu lib (rlc_of (lk_tx l)) e sdu = Some (step_tx_sn e, [Rlc_write_sdu (pe_lcid e) b])" "bb_data b = ?x"
    by (rule write_sdu_octets [OF lib Cons.prems(1,3) fit free])
  show ?case
  proof (cases rule: link_write [OF Cons.prems(5) x(1)])
    case 1
    then show ?thesis using x room by simp
  next
    case (2 l1 t1)
    have len: "int (length (bq_q (tx_sdu_queue t1)) + length sdus) \<le> sint (tx_queue_length (tx_cfg t1))"
      using Cons.prems(6) 2(4,5) by simp
    have ok: "lte_ok (step_tx_sn e)" "is_drb (step_tx_sn e)" "pe_enable_security_tx_sn (step_tx_sn e) = - 1"
      "\<forall>sdu \<in> set sdus. sdu_small (step_tx_sn e) sdu"
      using Cons.prems(1-4) by (simp_all add: lte_ok_step_tx is_drb_def sdu_small_step)
    from Cons.IH [OF ok 2(2) len] obtain e' l' where "bearer_send lib (step_tx_sn e) l1 sdus = Some (e', l')"
      "link_run (map Write (pdcp_pdus lib (step_tx_sn e) sdus)) l1 = Some l'" by blast
    then show ?thesis using w 2(1) by (intro exI [of _ e'] exI [of _ l']) simp
  qed
qed simp

section \<open>Receiving\<close>

lemma in_step_um: "in_step (rlc_of u) e r \<longleftrightarrow> in_step (rlc_of u') e r"
  by (simp add: in_step_def am_bearer_def rlc_of_def)

lemma fresh_buffer:
  assumes "length x \<le> 9000"
  obtains b where "append_bytes byte_buffer_new x (of_nat (length x)) = Some b" "bb_ok b" "bb_data b = x"
proof -
  have l: "unat (of_nat (length x) :: u32) = length x" using assms by (simp add: unsigned_of_nat take_bit_nat_eq_self)
  show thesis
    by (rule that [of "(bb_set_mem byte_buffer_new 0 (put (bb_mem byte_buffer_new 0) x))\<lparr>bb_N_bytes := of_nat (length x)\<rparr>"])
      (use assms l in \<open>simp_all add: append_bytes_def memcpy_mem_def byte_buffer_new_def bb_ok_def bb_data_def bb_mem_def
        bb_set_mem_def put_def BUFFER_HEADER_OFFSET_def\<close>)
qed

lemma bearer_receive_pdus:
  assumes lib: "lib_ok lib" and "in_step (rlc_of u) e r" "is_drb e" "\<forall>sdu \<in> set sdus. sdu_small e sdu"
    and mrb: "\<not> is_mrb (rc_um cfg)"
  shows "\<exists>r' bufs. bearer_receive lib (rlc_of u) r (map (um_up cfg lcid) (pdcp_pdus lib e sdus)) = Some (r', map (upper_event r) bufs) \<and>
     map bb_data bufs = map bb_data sdus"
proof -
  have up: "um_up cfg lcid = Pdcp_write_pdu lcid" using mrb by (simp add: fun_eq_iff um_up_def)
  show ?thesis
    using assms(2-4) unfolding up
  proof (induction sdus arbitrary: e r)
    case (Cons sdu sdus)
    let ?x = "pdu_octets lib e (bb_data sdu)"
    have ok: "lte_ok e" using Cons.prems(1) by (simp add: in_step_def)
    have "length ?x \<le> RLC_MAX_SDU_SIZE"
      using pdcp_pdus_size(1) [OF lib ok Cons.prems(2), of "[sdu]"] Cons.prems(3) by simp
    then have len: "length ?x \<le> 9000" by (simp add: RLC_MAX_SDU_SIZE_def)
    obtain b where b: "append_bytes byte_buffer_new ?x (of_nat (length ?x)) = Some b" "bb_ok b" "bb_data b = ?x"
      by (rule fresh_buffer [OF len])
    have lb: "length (bb_data b) \<le> 9000" using len b(3) by simp
    have ne: "is_drb e \<longrightarrow> bb_data sdu \<noteq> []" using Cons.prems(3) by (simp add: sdu_small_def sdu_fits_def)
    obtain r1 b1 where r1: "write_pdu lib (rlc_of u) r b = Some (r1, [upper_event r b1])" "bb_data b1 = bb_data sdu"
      "in_step (rlc_of u) (step_tx_sn e) r1" "pe_lcid r1 = pe_lcid r" "is_srb r1 = is_srb r"
      by (rule deliver [OF lib Cons.prems(1) b(2,3) lb ne])
    have "is_drb (step_tx_sn e)" "\<forall>sdu \<in> set sdus. sdu_small (step_tx_sn e) sdu"
      using Cons.prems(2,3) by (simp_all add: is_drb_def sdu_small_step)
    from Cons.IH [OF r1(3) this] obtain r' bufs where
      "bearer_receive lib (rlc_of u) r1 (map (Pdcp_write_pdu lcid) (pdcp_pdus lib (step_tx_sn e) sdus)) = Some (r', map (upper_event r1) bufs)"
      "map bb_data bufs = map bb_data sdus" by blast
    then show ?case
      using b(1) r1(1,2) upper_event_cong [OF r1(4,5)] by (intro exI [of _ r'] exI [of _ "b1 # bufs"]) simp
  qed simp
qed

text \<open>
  Claim C3. From the SDU at one end of a data bearer to the SDU at the other, through PDCP, ciphering, RLC segmentation
  and back: all SDUs are delivered, unchanged and in order, when the RLC queue has room for them and the MAC gives
  enough grants and loses no PDU.
\<close>

theorem um_bearer_delivery:
  assumes "lib_ok lib" "in_step (rlc_of (lk_tx (link_start lcid cfg_t cfg_r))) e r" "is_drb e" "\<forall>sdu \<in> set sdus. sdu_small e sdu"
    and "um_peers cfg_t cfg_r" "\<not> is_mrb (rc_um cfg_r)" "int (length sdus) \<le> sint (tx_queue_length cfg_t)"
    and "\<forall>n \<in> set ns. 4 \<le> unat n" "sum_list (map (\<lambda>sdu. length (bb_data sdu) + 3) sdus) \<le> length ns"
  shows "\<exists>e' r' l bufs. um_bearer lib e r (link_start lcid cfg_t cfg_r) sdus ns = Some (e', r', l, map (upper_event r) bufs) \<and>
    map bb_data bufs = map bb_data sdus"
proof -
  have e: "lte_ok e" "pe_enable_security_tx_sn e = - 1" using assms(2) by (simp_all add: in_step_def)
  note size = pdcp_pdus_size [OF assms(1) e(1) assms(3,4)]
  obtain t q where q: "link_inv lcid cfg_r (link_start lcid cfg_t cfg_r) t q [] [] 0 []" "tx_pending t = []" "tx_cfg t = cfg_t"
    by (rule link_start_inv [OF assms(5)])
  have "int (length (bq_q (tx_sdu_queue t)) + length sdus) \<le> sint (tx_queue_length (tx_cfg t))"
    using q(2,3) assms(7) by (simp add: tx_pending_def)
  from bearer_send_writes [OF assms(1) e(1) assms(3) e(2) assms(4) q(1) this] obtain e' l1 where
    s: "bearer_send lib e (link_start lcid cfg_t cfg_r) sdus = Some (e', l1)"
    "link_run (map Write (pdcp_pdus lib e sdus)) (link_start lcid cfg_t cfg_r) = Some l1" by blast
  have "int (length (pdcp_pdus lib e sdus)) \<le> sint (tx_queue_length cfg_t)" "length (concat (pdcp_pdus lib e sdus)) \<le> length ns"
    using size(2,3) assms(7,9) by simp_all
  from link_lossless [OF assms(5) size(1) this(1) assms(8) this(2), of lcid] s(2) obtain l where
    l: "link_run (transfers 0 ns) l1 = Some l" "lk_out l = map (um_up cfg_r lcid) (pdcp_pdus lib e sdus)"
    by (auto simp: link_run_append)
  have "in_step (rlc_of (lk_rx l)) e r" using assms(2) in_step_um by blast
  from bearer_receive_pdus [OF assms(1) this assms(3,4,6)] show ?thesis
    using s(1) l by (fastforce simp: um_bearer_def)
qed


definition sample_drb :: "security_direction \<Rightarrow> security_direction \<Rightarrow> pdcp_entity_lte" where
  "sample_drb tx rx = enable_encryption DIRECTION_TXRX (config_security sample_pdcp_sec
    (pdcp_entity_lte_new 3 (pdcp_config_t 3 PDCP_RB_IS_DRB tx rx PDCP_SN_LEN_12 0 0)))"

lemma sample_drb_fields:
  "pe_enable_security_tx_sn (sample_drb tx rx) = - 1" "pe_enable_security_rx_sn (sample_drb tx rx) = - 1"
  "pe_cfg (sample_drb tx rx) = pdcp_config_t 3 PDCP_RB_IS_DRB tx rx PDCP_SN_LEN_12 0 0"
  "pe_sec_cfg (sample_drb tx rx) = sample_pdcp_sec" "is_srb (sample_drb tx rx) = False" "is_drb (sample_drb tx rx)"
  "pe_integrity_direction (sample_drb tx rx) = DIRECTION_NONE" "pe_encryption_direction (sample_drb tx rx) = DIRECTION_TXRX"
  "pl_st (sample_drb tx rx) = \<lparr>next_pdcp_tx_sn = 0, tx_hfn = 0, rx_hfn = 0, next_pdcp_rx_sn = 0,
                  last_submitted_pdcp_rx_sn = 4095, reordering_pdcp_rx_count = 0\<rparr>"
  by (simp_all add: sample_drb_def enable_encryption_def config_security_def
      pdcp_entity_lte_new_def Let_def pdcp_config_t_def is_srb_def is_drb_def join_direction_def sn_len_defs)

lemma sample_drb_step: "in_step (rlc_of u) (sample_drb SECURITY_DIRECTION_DOWNLINK SECURITY_DIRECTION_UPLINK)
    (sample_drb SECURITY_DIRECTION_UPLINK SECURITY_DIRECTION_DOWNLINK)"
proof -
  have "lte_ok (sample_drb tx rx)" for tx rx
    by (simp add: sample_drb_def lte_ok_control lte_ok_new pdcp_config_t_ok sec_sizes_def sample_pdcp_sec_def)
  then show ?thesis
    by (simp add: in_step_def sample_drb_fields same_link_def am_bearer_def rlc_of_def pdcp_config_t_def sn_len_defs
        dir_rx_def dir_tx_def)
qed

theorem um_bearer_delivery_witness:
  "\<exists>e' r' l bufs. um_bearer sample_pdcp_lib (sample_drb SECURITY_DIRECTION_DOWNLINK SECURITY_DIRECTION_UPLINK)
      (sample_drb SECURITY_DIRECTION_UPLINK SECURITY_DIRECTION_DOWNLINK) um_example_start
      [sample_sdu 3, sample_sdu 40] (replicate 49 5)
    = Some (e', r', l, map (upper_event (sample_drb SECURITY_DIRECTION_UPLINK SECURITY_DIRECTION_DOWNLINK)) bufs) \<and>
    map bb_data bufs = [replicate 3 0, replicate 40 0]"
proof -
  let ?e = "sample_drb SECURITY_DIRECTION_DOWNLINK SECURITY_DIRECTION_UPLINK" and ?sdus = "[sample_sdu 3, sample_sdu 40]"
  have s: "\<forall>sdu \<in> set ?sdus. sdu_small ?e sdu"
    by (simp add: sdu_small_def sdu_fits_def sample_sdu_fields sample_drb_fields hdr_len_def pdcp_config_t_def sn_len_defs
        RLC_MAX_SDU_SIZE_def)
  have d: "map bb_data ?sdus = [replicate 3 0, replicate 40 0]" by (simp add: sample_sdu_fields)
  have n: "\<not> is_mrb (rc_um (default_rlc_um_config 10))" "int (length ?sdus) \<le> sint (tx_queue_length (default_rlc_um_config 10))"
    by (simp_all add: default_rlc_um_config_def rlc_config_empty_def RLC_TX_QUEUE_LEN_def Let_def)
  have g: "\<forall>n \<in> set (replicate 49 5 :: u32 list). 4 \<le> unat n"
    "sum_list (map (\<lambda>sdu. length (bb_data sdu) + 3) ?sdus) \<le> length (replicate 49 5 :: u32 list)"
    by (simp_all add: sample_sdu_fields)
  from um_bearer_delivery [OF sample_pdcp_lib_ok sample_drb_step sample_drb_fields(6) s um_example_peers n g]
  show ?thesis unfolding d .
qed

end
