(* ===== verification/Gtpu_Header.thy ===== *)
theory Gtpu_Header
  imports Byte_Buffer
begin

unbundle bit_operations_syntax

text \<open>
  The GTP-U header of user-plane tunnels: \<^verbatim>\<open>lib/src/upper/gtpu.cc\<close> and
  \<^verbatim>\<open>lib/include/srslte/upper/gtpu.h\<close>. \<open>None\<close> is undefined behaviour: an access outside the
  buffer or the use of a field of the header structure that was never written.
\<close>

section \<open>The code\<close>

definition GTPU_BASE_HEADER_LEN :: nat where "GTPU_BASE_HEADER_LEN = 8"
definition GTPU_EXTENDED_HEADER_LEN :: nat where "GTPU_EXTENDED_HEADER_LEN = 12"

definition GTPU_FLAGS_VERSION_MASK :: u8 where "GTPU_FLAGS_VERSION_MASK = 0xE0"
definition GTPU_FLAGS_VERSION_V1 :: u8 where "GTPU_FLAGS_VERSION_V1 = 0x20"
definition GTPU_FLAGS_GTP_PROTOCOL :: u8 where "GTPU_FLAGS_GTP_PROTOCOL = 0x10"
definition GTPU_FLAGS_EXTENDED_HDR :: u8 where "GTPU_FLAGS_EXTENDED_HDR = 0x04"
definition GTPU_FLAGS_SEQUENCE :: u8 where "GTPU_FLAGS_SEQUENCE = 0x02"
definition GTPU_FLAGS_PACKET_NUM :: u8 where "GTPU_FLAGS_PACKET_NUM = 0x01"

definition GTPU_MSG_ECHO_REQUEST :: u8 where "GTPU_MSG_ECHO_REQUEST = 1"
definition GTPU_MSG_ECHO_RESPONSE :: u8 where "GTPU_MSG_ECHO_RESPONSE = 2"
definition GTPU_MSG_END_MARKER :: u8 where "GTPU_MSG_END_MARKER = 254"
definition GTPU_MSG_DATA_PDU :: u8 where "GTPU_MSG_DATA_PDU = 255"

lemmas gtpu_flag_defs = GTPU_FLAGS_VERSION_MASK_def GTPU_FLAGS_VERSION_V1_def GTPU_FLAGS_GTP_PROTOCOL_def
  GTPU_FLAGS_EXTENDED_HDR_def GTPU_FLAGS_SEQUENCE_def GTPU_FLAGS_PACKET_NUM_def

lemmas gtpu_msg_defs = GTPU_MSG_ECHO_REQUEST_def GTPU_MSG_ECHO_RESPONSE_def GTPU_MSG_END_MARKER_def GTPU_MSG_DATA_PDU_def

text \<open>The optional fields are \<open>None\<close> until the code writes them.\<close>

record gtpu_header =
  gh_flags :: u8
  gh_message_type :: u8
  gh_length :: u16
  gh_teid :: u32
  gh_seq_number :: "u16 option"
  gh_n_pdu :: "u8 option"
  gh_next_ext_hdr_type :: "u8 option"

definition gtpu_supported_flags_check :: "gtpu_header \<Rightarrow> bool" where
  "gtpu_supported_flags_check h =
    (if gh_flags h AND GTPU_FLAGS_VERSION_MASK \<noteq> GTPU_FLAGS_VERSION_V1 then False
     else if gh_flags h AND GTPU_FLAGS_GTP_PROTOCOL = 0 then False
     else if gh_flags h AND GTPU_FLAGS_EXTENDED_HDR \<noteq> 0 then False
     else if gh_flags h AND GTPU_FLAGS_PACKET_NUM \<noteq> 0 then False
     else True)"

definition gtpu_supported_msg_type_check :: "gtpu_header \<Rightarrow> bool" where
  "gtpu_supported_msg_type_check h \<longleftrightarrow>
    \<not> (gh_message_type h \<noteq> GTPU_MSG_DATA_PDU \<and> gh_message_type h \<noteq> GTPU_MSG_ECHO_REQUEST \<and>
       gh_message_type h \<noteq> GTPU_MSG_ECHO_RESPONSE \<and> gh_message_type h \<noteq> GTPU_MSG_END_MARKER)"

definition gtpu_optional_fields :: "gtpu_header \<Rightarrow> bool" where
  "gtpu_optional_fields h \<longleftrightarrow>
    gh_flags h AND (GTPU_FLAGS_EXTENDED_HDR OR GTPU_FLAGS_SEQUENCE OR GTPU_FLAGS_PACKET_NUM) \<noteq> 0"

text \<open>
  The offset \<open>ptr\<close> is that of the TEID when the optional fields are written: the source does not
  advance it past the four octets of the TEID.
\<close>

definition gtpu_write_optional :: "nat \<Rightarrow> gtpu_header \<Rightarrow> byte_buffer \<Rightarrow> (gtpu_header \<times> byte_buffer) option" where
  "gtpu_write_optional ptr h pdu =
    Option.bind (if gh_flags h AND GTPU_FLAGS_SEQUENCE \<noteq> 0 then gh_seq_number h else Some 0) (\<lambda>seq.
    Option.bind (bb_put pdu ptr (uint16_to_uint8 seq ! 0)) (\<lambda>pdu.
    Option.bind (bb_put pdu (ptr + 1) (uint16_to_uint8 seq ! 1)) (\<lambda>pdu.
    Option.bind (if gh_flags h AND GTPU_FLAGS_PACKET_NUM \<noteq> 0
                 then Option.bind (gh_n_pdu h) (\<lambda>n. map_option (Pair h) (bb_put pdu (ptr + 2) n))
                 else Some (h\<lparr>gh_n_pdu := Some 0\<rparr>, pdu)) (\<lambda>(h, pdu).
    Option.bind (if gh_flags h AND GTPU_FLAGS_EXTENDED_HDR \<noteq> 0 then gh_next_ext_hdr_type h else Some 0) (\<lambda>e.
    map_option (Pair h) (bb_put pdu (ptr + 3) e))))))"

definition gtpu_write_header :: "gtpu_header \<Rightarrow> byte_buffer \<Rightarrow> (bool \<times> gtpu_header \<times> byte_buffer) option" where
  "gtpu_write_header h pdu =
    (if \<not> gtpu_supported_flags_check h then Some (False, h, pdu)
     else if \<not> gtpu_supported_msg_type_check h then Some (False, h, pdu)
     else
       let len = (if gtpu_optional_fields h then GTPU_EXTENDED_HEADER_LEN else GTPU_BASE_HEADER_LEN)
       in if get_headroom pdu < of_nat len then Some (False, h, pdu)
          else
            let pdu = pdu\<lparr>bb_msg := bb_msg pdu - len, bb_N_bytes := bb_N_bytes pdu + of_nat len\<rparr>
            in Option.bind (store_octets ([gh_flags h, gh_message_type h] @ uint16_to_uint8 (gh_length h) @
                  uint32_to_uint8 (gh_teid h)) pdu) (\<lambda>pdu.
               if gtpu_optional_fields h then map_option (Pair True) (gtpu_write_optional 4 h pdu)
               else Some (True, h, pdu)))"

definition gtpu_read_optional :: "nat \<Rightarrow> byte_buffer \<Rightarrow> gtpu_header \<Rightarrow> gtpu_header option" where
  "gtpu_read_optional ptr pdu h =
    Option.bind (bb_get pdu ptr) (\<lambda>s0. Option.bind (bb_get pdu (ptr + 1)) (\<lambda>s1.
    Option.bind (bb_get pdu (ptr + 2)) (\<lambda>n. Option.bind (bb_get pdu (ptr + 3)) (\<lambda>e.
      Some (h\<lparr>gh_seq_number := Some (uint8_to_uint16 s0 s1), gh_n_pdu := Some n, gh_next_ext_hdr_type := Some e\<rparr>)))))"

definition gtpu_read_mandatory :: "byte_buffer \<Rightarrow> gtpu_header option" where
  "gtpu_read_mandatory pdu =
    Option.bind (bb_get pdu 0) (\<lambda>f. Option.bind (bb_get pdu 1) (\<lambda>t.
    Option.bind (bb_get pdu 2) (\<lambda>l0. Option.bind (bb_get pdu 3) (\<lambda>l1.
    Option.bind (bb_get pdu 4) (\<lambda>t0. Option.bind (bb_get pdu 5) (\<lambda>t1.
    Option.bind (bb_get pdu 6) (\<lambda>t2. Option.bind (bb_get pdu 7) (\<lambda>t3.
      Some \<lparr>gh_flags = f, gh_message_type = t, gh_length = uint8_to_uint16 l0 l1, gh_teid = uint8_to_uint32 t0 t1 t2 t3,
        gh_seq_number = None, gh_n_pdu = None, gh_next_ext_hdr_type = None\<rparr>))))))))"

definition gtpu_read_header :: "byte_buffer \<Rightarrow> (bool \<times> byte_buffer \<times> gtpu_header) option" where
  "gtpu_read_header pdu =
    Option.bind (gtpu_read_mandatory pdu) (\<lambda>h.
      if \<not> gtpu_supported_flags_check h then Some (False, pdu, h)
      else if \<not> gtpu_supported_msg_type_check h then Some (False, pdu, h)
      else if gtpu_optional_fields h then
        map_option (\<lambda>h. (True, pdu\<lparr>bb_msg := bb_msg pdu + GTPU_EXTENDED_HEADER_LEN,
            bb_N_bytes := bb_N_bytes pdu - of_nat GTPU_EXTENDED_HEADER_LEN\<rparr>, h))
          (gtpu_read_optional 4 pdu h)
      else Some (True, pdu\<lparr>bb_msg := bb_msg pdu + GTPU_BASE_HEADER_LEN,
            bb_N_bytes := bb_N_bytes pdu - of_nat GTPU_BASE_HEADER_LEN\<rparr>, h))"

section \<open>The flags\<close>

lemma optional_is_sequence:
  "gtpu_supported_flags_check h \<Longrightarrow> gtpu_optional_fields h \<longleftrightarrow> gh_flags h AND GTPU_FLAGS_SEQUENCE \<noteq> 0"
  by (auto simp: gtpu_supported_flags_check_def gtpu_optional_fields_def bit.conj_disj_distrib split: if_splits)

lemma supported_no_packet_num:
  "gtpu_supported_flags_check h \<Longrightarrow> gh_flags h AND GTPU_FLAGS_PACKET_NUM = 0"
  "gtpu_supported_flags_check h \<Longrightarrow> gh_flags h AND GTPU_FLAGS_EXTENDED_HDR = 0"
  by (auto simp: gtpu_supported_flags_check_def split: if_splits)

text \<open>What the two directions accept.\<close>

definition gtpu_accepted :: "gtpu_header \<Rightarrow> bool" where
  "gtpu_accepted h \<longleftrightarrow> gtpu_supported_flags_check h \<and> gtpu_supported_msg_type_check h"

lemma gtpu_accepted_cong:
  "gh_flags h = gh_flags h' \<Longrightarrow> gh_message_type h = gh_message_type h' \<Longrightarrow> gtpu_accepted h \<longleftrightarrow> gtpu_accepted h'"
  "gh_flags h = gh_flags h' \<Longrightarrow> gtpu_optional_fields h \<longleftrightarrow> gtpu_optional_fields h'"
  by (simp_all add: gtpu_accepted_def gtpu_supported_flags_check_def gtpu_supported_msg_type_check_def gtpu_optional_fields_def)

section \<open>Moving the pointer\<close>

text \<open>Making room for \<open>n\<close> octets in front: the octets there are whatever the array held.\<close>

definition bb_push_front :: "nat \<Rightarrow> byte_buffer \<Rightarrow> byte_buffer" where
  "bb_push_front n b = b\<lparr>bb_msg := bb_msg b - n, bb_N_bytes := bb_N_bytes b + of_nat n\<rparr>"

definition bb_pull_front :: "nat \<Rightarrow> byte_buffer \<Rightarrow> byte_buffer" where
  "bb_pull_front n b = b\<lparr>bb_msg := bb_msg b + n, bb_N_bytes := bb_N_bytes b - of_nat n\<rparr>"

lemma push_front_length:
  assumes "bb_ok b" "n \<le> bb_msg b"
  shows "unat (bb_N_bytes b + of_nat n) = unat (bb_N_bytes b) + n"
proof -
  have "unat (bb_N_bytes b) + n < 2 ^ 32" "unat (of_nat n :: u32) = n"
    using assms by (auto simp: bb_ok_def unsigned_of_nat take_bit_nat_eq_self)
  then show ?thesis by (simp add: unat_word_ariths)
qed

lemma bb_push_front:
  assumes "bb_ok b" "n \<le> bb_msg b"
  shows "bb_ok (bb_push_front n b)" "unat (bb_N_bytes (bb_push_front n b)) = n + unat (bb_N_bytes b)"
    "bb_data (bb_push_front n b) = take n (drop (bb_msg b - n) (bb_buffer b)) @ bb_data b"
    "length (take n (drop (bb_msg b - n) (bb_buffer b))) = n"
proof -
  show "length (take n (drop (bb_msg b - n) (bb_buffer b))) = n"
    using assms by (auto simp: bb_ok_def)
  show n: "unat (bb_N_bytes (bb_push_front n b)) = n + unat (bb_N_bytes b)"
    using push_front_length [OF assms] by (simp add: bb_push_front_def)
  show "bb_ok (bb_push_front n b)"
    using assms n by (simp add: bb_ok_def bb_push_front_def)
  have "drop (bb_msg b) (bb_buffer b) = drop n (drop (bb_msg b - n) (bb_buffer b))"
    using assms(2) by simp
  then show "bb_data (bb_push_front n b) = take n (drop (bb_msg b - n) (bb_buffer b)) @ bb_data b"
    unfolding bb_data_def bb_mem_def n by (simp add: bb_push_front_def take_add)
qed

lemma bb_pull_front:
  assumes "bb_ok b" "n \<le> unat (bb_N_bytes b)"
  shows "bb_ok (bb_pull_front n b)" "unat (bb_N_bytes (bb_pull_front n b)) = unat (bb_N_bytes b) - n"
    "bb_data (bb_pull_front n b) = drop n (bb_data b)"
proof -
  have "n < 2 ^ 32" using assms by (simp add: bb_ok_def)
  then have "unat (of_nat n :: u32) = n" by (simp add: unsigned_of_nat take_bit_nat_eq_self)
  then show n: "unat (bb_N_bytes (bb_pull_front n b)) = unat (bb_N_bytes b) - n"
    using assms(2) by (simp add: bb_pull_front_def unat_sub word_le_nat_alt)
  show "bb_ok (bb_pull_front n b)"
    using assms n by (simp add: bb_ok_def bb_pull_front_def)
  show "bb_data (bb_pull_front n b) = drop n (bb_data b)"
    unfolding bb_data_def bb_mem_def n by (simp add: bb_pull_front_def drop_take add.commute)
qed

lemma push_pull_front [simp]:
  "n \<le> bb_msg b \<Longrightarrow> bb_pull_front n (bb_push_front n b) = b"
  by (simp add: bb_push_front_def bb_pull_front_def)

section \<open>The header octets\<close>

definition gtpu_mandatory :: "gtpu_header \<Rightarrow> bytes" where
  "gtpu_mandatory h = [gh_flags h, gh_message_type h] @ uint16_to_uint8 (gh_length h) @ uint32_to_uint8 (gh_teid h)"

lemma length_gtpu_mandatory [simp]: "length (gtpu_mandatory h) = 8"
  by (simp add: gtpu_mandatory_def length_uint16_to_uint8 length_uint32_to_uint8)

lemma gtpu_mandatory_octets:
  "gtpu_mandatory h = [gh_flags h, gh_message_type h, uint16_to_uint8 (gh_length h) ! 0, uint16_to_uint8 (gh_length h) ! 1,
    uint32_to_uint8 (gh_teid h) ! 0, uint32_to_uint8 (gh_teid h) ! 1, uint32_to_uint8 (gh_teid h) ! 2, uint32_to_uint8 (gh_teid h) ! 3]"
  by (simp add: gtpu_mandatory_def uint16_to_uint8_def uint32_to_uint8_def)

lemma read_mandatory:
  assumes "bb_ok b" "bb_data b = xs" "8 \<le> length xs"
  shows "gtpu_read_mandatory b = Some \<lparr>gh_flags = xs ! 0, gh_message_type = xs ! 1, gh_length = uint8_to_uint16 (xs ! 2) (xs ! 3),
    gh_teid = uint8_to_uint32 (xs ! 4) (xs ! 5) (xs ! 6) (xs ! 7),
    gh_seq_number = None, gh_n_pdu = None, gh_next_ext_hdr_type = None\<rparr>"
proof -
  have "length xs = unat (bb_N_bytes b)" using length_bb_data [OF assms(1)] assms(2) by simp
  then have "bb_get b i = Some (xs ! i)" if "i < 8" for i
    using bb_get_data [OF assms(1), of i] assms that by simp
  then show ?thesis by (simp add: gtpu_read_mandatory_def)
qed

section \<open>Writing and reading back\<close>

lemma headroom_enough:
  assumes "bb_ok b" "n \<le> 12"
  shows "get_headroom b < of_nat n \<longleftrightarrow> bb_msg b < n"
  using assms by (simp add: get_headroom_def bb_ok_def word_less_nat_alt unsigned_of_nat take_bit_nat_eq_self)

lemma gtpu_write_base:
  assumes "gtpu_accepted h" "\<not> gtpu_optional_fields h" "bb_ok b" "8 \<le> bb_msg b"
  obtains b' where "gtpu_write_header h b = Some (True, h, b')" "bb_ok b'" "bb_msg b' = bb_msg b - 8"
    "bb_data b' = gtpu_mandatory h @ bb_data b" "unat (bb_N_bytes b') = 8 + unat (bb_N_bytes b)"
proof -
  let ?b = "bb_push_front 8 b"
  note f = bb_push_front [OF assms(3,4)]
  have "length (gtpu_mandatory h) \<le> unat (bb_N_bytes ?b)" using f(2) by simp
  then obtain b' where b': "store_octets (gtpu_mandatory h) ?b = Some b'" "bb_ok b'" "bb_N_bytes b' = bb_N_bytes ?b"
    "bb_msg b' = bb_msg ?b" "bb_data b' = gtpu_mandatory h @ drop 8 (bb_data ?b)"
    using store_octets_spec [OF f(1)] by (metis length_gtpu_mandatory)
  have "gtpu_write_header h b = Some (True, h, b')"
    using assms b'(1) headroom_enough [OF assms(3), of 8]
    by (simp add: gtpu_write_header_def gtpu_accepted_def GTPU_BASE_HEADER_LEN_def bb_push_front_def gtpu_mandatory_def)
  moreover have "drop 8 (bb_data ?b) = bb_data b"
    using f(4) by (simp add: f(3))
  moreover have "unat (bb_N_bytes b') = 8 + unat (bb_N_bytes b)" using b'(3) f(2) by simp
  ultimately show thesis using b' by (intro that [of b']) (simp_all add: bb_push_front_def)
qed

lemma gtpu_write_no_room:
  assumes "bb_ok b" "bb_msg b < 8"
  shows "gtpu_write_header h b = Some (False, h, b)"
  using assms headroom_enough [of b 8] headroom_enough [of b 12]
  by (simp add: gtpu_write_header_def Let_def GTPU_BASE_HEADER_LEN_def GTPU_EXTENDED_HEADER_LEN_def)

lemma gtpu_write_refused: "\<not> gtpu_accepted h \<Longrightarrow> gtpu_write_header h b = Some (False, h, b)"
  by (auto simp: gtpu_write_header_def gtpu_accepted_def)

lemma mandatory_read_back:
  assumes "bb_ok b" "bb_data b = gtpu_mandatory h @ xs"
  shows "gtpu_read_mandatory b = Some \<lparr>gh_flags = gh_flags h, gh_message_type = gh_message_type h, gh_length = gh_length h,
    gh_teid = gh_teid h, gh_seq_number = None, gh_n_pdu = None, gh_next_ext_hdr_type = None\<rparr>"
proof -
  let ?xs = "gtpu_mandatory h @ xs"
  have "8 \<le> length ?xs" by simp
  note r = read_mandatory [OF assms this]
  have l: "uint8_to_uint16 (?xs ! 2) (?xs ! 3) = gh_length h"
    using uint16_helpers [of "gh_length h"] by (simp add: gtpu_mandatory_octets)
  have t: "uint8_to_uint32 (?xs ! 4) (?xs ! 5) (?xs ! 6) (?xs ! 7) = gh_teid h"
    using uint32_helpers [of "gh_teid h"] by (simp add: gtpu_mandatory_octets)
  have "?xs ! 0 = gh_flags h" "?xs ! 1 = gh_message_type h" by (simp_all add: gtpu_mandatory_octets)
  then show ?thesis unfolding r l t by simp
qed

lemma gtpu_read_base:
  assumes "gtpu_accepted h" "\<not> gtpu_optional_fields h" "bb_ok b" "bb_data b = gtpu_mandatory h @ xs"
  shows "gtpu_read_header b = Some (True, bb_pull_front 8 b, \<lparr>gh_flags = gh_flags h, gh_message_type = gh_message_type h,
    gh_length = gh_length h, gh_teid = gh_teid h, gh_seq_number = None, gh_n_pdu = None, gh_next_ext_hdr_type = None\<rparr>)"
proof -
  let ?h = "\<lparr>gh_flags = gh_flags h, gh_message_type = gh_message_type h, gh_length = gh_length h, gh_teid = gh_teid h,
    gh_seq_number = None, gh_n_pdu = None, gh_next_ext_hdr_type = None\<rparr>"
  have c: "gh_flags ?h = gh_flags h" "gh_message_type ?h = gh_message_type h" by simp_all
  have "gtpu_accepted ?h" "\<not> gtpu_optional_fields ?h"
    using assms(1,2) gtpu_accepted_cong(1) [OF c] gtpu_accepted_cong(2) [OF c(1)] by blast+
  then show ?thesis
    by (simp add: gtpu_read_header_def mandatory_read_back [OF assms(3,4)] gtpu_accepted_def GTPU_BASE_HEADER_LEN_def bb_pull_front_def)
qed

text \<open>
  A header without optional fields survives the tunnel: \<open>gtpu_write_header\<close> puts its eight octets in front
  of the packet, and \<open>gtpu_read_header\<close> gives back every field and the packet as it was.
\<close>

lemma gtpu_base_round_trip:
  assumes "gtpu_accepted h" "\<not> gtpu_optional_fields h" "bb_ok b" "8 \<le> bb_msg b"
  shows "\<exists>b' b'' h'. gtpu_write_header h b = Some (True, h, b') \<and> bb_data b' = gtpu_mandatory h @ bb_data b \<and>
    gtpu_read_header b' = Some (True, b'', h') \<and> bb_ok b'' \<and> bb_data b'' = bb_data b \<and>
    bb_msg b'' = bb_msg b \<and> bb_N_bytes b'' = bb_N_bytes b \<and>
    gh_flags h' = gh_flags h \<and> gh_message_type h' = gh_message_type h \<and> gh_length h' = gh_length h \<and> gh_teid h' = gh_teid h"
proof -
  obtain b' where b': "gtpu_write_header h b = Some (True, h, b')" "bb_ok b'" "bb_msg b' = bb_msg b - 8"
    "bb_data b' = gtpu_mandatory h @ bb_data b" "unat (bb_N_bytes b') = 8 + unat (bb_N_bytes b)"
    by (rule gtpu_write_base [OF assms])
  have "8 \<le> unat (bb_N_bytes b')" using b'(5) by simp
  note p = bb_pull_front [OF b'(2) this]
  have "bb_N_bytes (bb_pull_front 8 b') = bb_N_bytes b" using p(2) b'(5) by (simp add: word_unat_eq_iff)
  moreover have "bb_data (bb_pull_front 8 b') = bb_data b" using p(3) b'(4) by simp
  moreover have "bb_msg (bb_pull_front 8 b') = bb_msg b" using b'(3) assms(4) by (simp add: bb_pull_front_def)
  ultimately show ?thesis
    using b'(1,4) p(1) gtpu_read_base [OF assms(1,2) b'(2,4)] by simp
qed

section \<open>The sequence number\<close>

text \<open>What the four optional octets are written over: the four octets of the TEID.\<close>

definition gtpu_sequence_octets :: "gtpu_header \<Rightarrow> u16 \<Rightarrow> bytes" where
  "gtpu_sequence_octets h s = take 4 (gtpu_mandatory h) @ uint16_to_uint8 s @ [uint32_to_uint8 (gh_teid h) ! 2, 0]"

lemma length_gtpu_sequence_octets [simp]: "length (gtpu_sequence_octets h s) = 8"
  by (simp add: gtpu_sequence_octets_def length_uint16_to_uint8)

lemma overwrite_teid:
  "(gtpu_mandatory h @ xs)[4 := uint16_to_uint8 s ! 0, 5 := uint16_to_uint8 s ! 1, 7 := 0] = gtpu_sequence_octets h s @ xs"
  by (simp add: gtpu_sequence_octets_def gtpu_mandatory_octets uint16_to_uint8_def)

lemma write_optional:
  assumes "gtpu_accepted h" "gtpu_optional_fields h" "gh_seq_number h = Some s" "bb_ok b" "8 \<le> unat (bb_N_bytes b)"
    and "bb_data b = gtpu_mandatory h @ xs"
  obtains b' where "gtpu_write_optional 4 h b = Some (h\<lparr>gh_n_pdu := Some 0\<rparr>, b')" "bb_ok b'" "bb_msg b' = bb_msg b"
    "bb_N_bytes b' = bb_N_bytes b" "bb_data b' = gtpu_sequence_octets h s @ xs"
proof -
  have k: "4 < unat (bb_N_bytes b)" "5 < unat (bb_N_bytes b)" "7 < unat (bb_N_bytes b)" using assms(5) by simp_all
  obtain b1 where b1: "bb_put b 4 (uint16_to_uint8 s ! 0) = Some b1" "bb_ok b1" "bb_N_bytes b1 = bb_N_bytes b"
    "bb_msg b1 = bb_msg b" "bb_data b1 = (bb_data b)[4 := uint16_to_uint8 s ! 0]"
    by (rule bb_put_data [OF assms(4) k(1)])
  obtain b2 where b2: "bb_put b1 5 (uint16_to_uint8 s ! 1) = Some b2" "bb_ok b2" "bb_N_bytes b2 = bb_N_bytes b1"
    "bb_msg b2 = bb_msg b1" "bb_data b2 = (bb_data b1)[5 := uint16_to_uint8 s ! 1]"
    using bb_put_data [OF b1(2), of 5] k(2) b1(3) by metis
  obtain b3 where b3: "bb_put b2 7 0 = Some b3" "bb_ok b3" "bb_N_bytes b3 = bb_N_bytes b2"
    "bb_msg b3 = bb_msg b2" "bb_data b3 = (bb_data b2)[7 := 0]"
    using bb_put_data [OF b2(2), of 7] k(3) b1(3) b2(3) by metis
  have flags: "gtpu_supported_flags_check h" using assms(1) by (simp add: gtpu_accepted_def)
  have "gtpu_write_optional 4 h b = Some (h\<lparr>gh_n_pdu := Some 0\<rparr>, b3)"
    using assms(2,3) b1(1) b2(1) b3(1) supported_no_packet_num [OF flags] optional_is_sequence [OF flags]
    by (simp add: gtpu_write_optional_def)
  moreover have "bb_data b3 = gtpu_sequence_octets h s @ xs"
    by (simp only: b3(5) b2(5) b1(5) assms(6) overwrite_teid)
  ultimately show thesis using b1 b2 b3 by (intro that) simp_all
qed

lemma gtpu_write_sequence:
  assumes "gtpu_accepted h" "gtpu_optional_fields h" "gh_seq_number h = Some s" "bb_ok b" "12 \<le> bb_msg b"
  obtains b' where "gtpu_write_header h b = Some (True, h\<lparr>gh_n_pdu := Some 0\<rparr>, b')" "bb_ok b'" "bb_msg b' = bb_msg b - 12"
    "bb_data b' = gtpu_sequence_octets h s @ take 4 (drop (bb_msg b - 4) (bb_buffer b)) @ bb_data b"
    "unat (bb_N_bytes b') = 12 + unat (bb_N_bytes b)"
proof -
  let ?b = "bb_push_front 12 b"
  let ?stale = "take 12 (drop (bb_msg b - 12) (bb_buffer b))"
  note f = bb_push_front [OF assms(4,5)]
  have "length (gtpu_mandatory h) \<le> unat (bb_N_bytes ?b)" using f(2) by simp
  then obtain b1 where b1: "store_octets (gtpu_mandatory h) ?b = Some b1" "bb_ok b1" "bb_N_bytes b1 = bb_N_bytes ?b"
    "bb_msg b1 = bb_msg ?b" "bb_data b1 = gtpu_mandatory h @ drop 8 (bb_data ?b)"
    using store_octets_spec [OF f(1)] by (metis length_gtpu_mandatory)
  have "8 \<le> unat (bb_N_bytes b1)" using b1(3) f(2) by simp
  then obtain b2 where b2: "gtpu_write_optional 4 h b1 = Some (h\<lparr>gh_n_pdu := Some 0\<rparr>, b2)" "bb_ok b2" "bb_msg b2 = bb_msg b1"
    "bb_N_bytes b2 = bb_N_bytes b1" "bb_data b2 = gtpu_sequence_octets h s @ drop 8 (bb_data ?b)"
    by (rule write_optional [OF assms(1-3) b1(2) _ b1(5)])
  have "gtpu_write_header h b = Some (True, h\<lparr>gh_n_pdu := Some 0\<rparr>, b2)"
    using assms(1,2,5) b1(1) b2(1) headroom_enough [OF assms(4), of 12]
    by (simp add: gtpu_write_header_def gtpu_accepted_def GTPU_EXTENDED_HEADER_LEN_def bb_push_front_def gtpu_mandatory_def)
  moreover have "drop 8 (bb_data ?b) = drop 8 ?stale @ bb_data b" using f(4) by (simp add: f(3))
  moreover have "drop 8 ?stale = take 4 (drop (bb_msg b - 4) (bb_buffer b))"
    using assms(5) by (simp add: drop_take)
  moreover have "unat (bb_N_bytes b2) = 12 + unat (bb_N_bytes b)" using b1(3) b2(4) f(2) by simp
  ultimately show thesis using b1(4) b2 by (intro that [of b2]) (simp_all add: bb_push_front_def)
qed

lemma gtpu_read_sequence:
  assumes "gtpu_accepted h" "gtpu_optional_fields h" "bb_ok b" "bb_data b = gtpu_mandatory h @ xs"
  shows "\<exists>h'. gtpu_read_header b = Some (True, bb_pull_front 12 b, h') \<and> gh_teid h' = gh_teid h \<and>
    gh_message_type h' = gh_message_type h \<and>
    gh_seq_number h' = Some (uint8_to_uint16 (uint32_to_uint8 (gh_teid h) ! 0) (uint32_to_uint8 (gh_teid h) ! 1))"
proof -
  let ?h = "\<lparr>gh_flags = gh_flags h, gh_message_type = gh_message_type h, gh_length = gh_length h, gh_teid = gh_teid h,
    gh_seq_number = None, gh_n_pdu = None, gh_next_ext_hdr_type = None\<rparr>"
  have c: "gh_flags ?h = gh_flags h" "gh_message_type ?h = gh_message_type h" by simp_all
  have a: "gtpu_accepted ?h" "gtpu_optional_fields ?h"
    using assms(1,2) gtpu_accepted_cong(1) [OF c] gtpu_accepted_cong(2) [OF c(1)] by blast+
  have "length (bb_data b) = 8 + length xs" by (simp add: assms(4))
  then have "bb_get b i = Some ((gtpu_mandatory h @ xs) ! i)" if "i < 8" for i
    using bb_get_data [OF assms(3), of i] that length_bb_data [OF assms(3)] assms(4) by simp
  then have "bb_get b 4 = Some (uint32_to_uint8 (gh_teid h) ! 0)" "bb_get b 5 = Some (uint32_to_uint8 (gh_teid h) ! 1)"
    "bb_get b 6 = Some (uint32_to_uint8 (gh_teid h) ! 2)" "bb_get b 7 = Some (uint32_to_uint8 (gh_teid h) ! 3)"
    by (simp_all add: gtpu_mandatory_octets)
  then show ?thesis
    using a by (simp add: gtpu_read_header_def mandatory_read_back [OF assms(3,4)] gtpu_accepted_def GTPU_EXTENDED_HEADER_LEN_def
        bb_pull_front_def gtpu_read_optional_def)
qed

end
