(* ===== verification/Enb_Gtpu.thy ===== *)
theory Enb_Gtpu
  imports Gtpu_Header Std_Map
begin

unbundle bit_operations_syntax

text \<open>
  The user-plane tunnels of the eNB: \<^verbatim>\<open>srsenb/src/stack/upper/gtpu.cc\<close> and its header. The table of
  bearers by RNTI and the table of incoming TEIDs, packets in both directions, and the echo response. \<open>None\<close> is
  undefined behaviour: an index outside an array or the use of a field that was never written.

  Addresses and ports are the values in memory of a little-endian host, as in \<^verbatim>\<open>sockaddr_in\<close>.
\<close>

section \<open>State\<close>

definition SRSENB_N_SRB :: nat where "SRSENB_N_SRB = 3"
definition SRSENB_N_RADIO_BEARERS :: nat where "SRSENB_N_RADIO_BEARERS = 11"
definition SRSLTE_MRNTI :: u16 where "SRSLTE_MRNTI = 0xFFFD"
definition GTPU_PORT :: u16 where "GTPU_PORT = 2152"

record bearer_map =
  bm_teids_in :: "u32 list"
  bm_teids_out :: "u32 list"
  bm_spgw_addrs :: "u32 list"

definition bearer_map_new :: bearer_map where
  "bearer_map_new = \<lparr>bm_teids_in = replicate SRSENB_N_RADIO_BEARERS 0, bm_teids_out = replicate SRSENB_N_RADIO_BEARERS 0,
    bm_spgw_addrs = replicate SRSENB_N_RADIO_BEARERS 0\<rparr>"

record rnti_lcid =
  rl_rnti :: u16
  rl_lcid :: u16

record enb_gtpu =
  eg_rnti_bearers :: "(u16, bearer_map) std_map"
  eg_teidin_to_rntilcid :: "(u32, rnti_lcid) std_map"
  eg_next_teid_in :: u32
  eg_m1u_lcid_counter :: int

definition enb_gtpu_new :: enb_gtpu where
  "enb_gtpu_new = \<lparr>eg_rnti_bearers = [], eg_teidin_to_rntilcid = [], eg_next_teid_in = 0, eg_m1u_lcid_counter = 0\<rparr>"

text \<open>What the entity does to its surroundings.\<close>

datatype enb_gtpu_event =
    S1u_sendto u32 u16 bytes
  | Gtpu_pdcp_write_sdu u16 u32 byte_buffer

definition htons :: "u16 \<Rightarrow> u16" where
  "htons x = uint8_to_uint16 (uint16_to_uint8 x ! 1) (uint16_to_uint8 x ! 0)"

definition htonl :: "u32 \<Rightarrow> u32" where
  "htonl x = uint8_to_uint32 (uint32_to_uint8 x ! 3) (uint32_to_uint8 x ! 2) (uint32_to_uint8 x ! 1) (uint32_to_uint8 x ! 0)"

section \<open>The tables\<close>

text \<open>\<open>rnti_bearers[rnti]\<close> creates an entry of zeros when there is none.\<close>

definition bearers_at :: "u16 \<Rightarrow> enb_gtpu \<Rightarrow> enb_gtpu" where
  "bearers_at rnti g = g\<lparr>eg_rnti_bearers := snd (map_insert rnti bearer_map_new (eg_rnti_bearers g))\<rparr>"

definition bearers_read :: "(bearer_map \<Rightarrow> u32 list) \<Rightarrow> u16 \<Rightarrow> u32 \<Rightarrow> enb_gtpu \<Rightarrow> u32 option" where
  "bearers_read f rnti i g = Option.bind (map_find rnti (eg_rnti_bearers g)) (\<lambda>b. rd (f b) (uint i))"

definition set_bearer :: "u16 \<Rightarrow> (bearer_map \<Rightarrow> bearer_map option) \<Rightarrow> enb_gtpu \<Rightarrow> enb_gtpu option" where
  "set_bearer rnti f g =
    Option.bind (map_find rnti (eg_rnti_bearers g)) (\<lambda>b.
      map_option (\<lambda>b. g\<lparr>eg_rnti_bearers := map_write rnti b (eg_rnti_bearers g)\<rparr>) (f b))"

definition allocate_teidin :: "u16 \<Rightarrow> u16 \<Rightarrow> enb_gtpu \<Rightarrow> u32 \<times> enb_gtpu" where
  "allocate_teidin rnti lcid g =
    (let teid_in = eg_next_teid_in g + 1;
         g = g\<lparr>eg_next_teid_in := teid_in\<rparr>
     in if map_find teid_in (eg_teidin_to_rntilcid g) \<noteq> None then (0, g)
        else (teid_in, g\<lparr>eg_teidin_to_rntilcid :=
               map_assign teid_in \<lparr>rl_rnti = rnti, rl_lcid = lcid\<rparr> (eg_teidin_to_rntilcid g)\<rparr>))"

definition free_teidin_bearer :: "u16 \<Rightarrow> u16 \<Rightarrow> enb_gtpu \<Rightarrow> enb_gtpu" where
  "free_teidin_bearer rnti lcid g =
    g\<lparr>eg_teidin_to_rntilcid := filter (\<lambda>(t, x). \<not> (rl_rnti x = rnti \<and> rl_lcid x = lcid)) (eg_teidin_to_rntilcid g)\<rparr>"

definition free_teidin :: "u16 \<Rightarrow> enb_gtpu \<Rightarrow> enb_gtpu" where
  "free_teidin rnti g =
    g\<lparr>eg_teidin_to_rntilcid := filter (\<lambda>(t, x). \<not> rl_rnti x = rnti) (eg_teidin_to_rntilcid g)\<rparr>"

definition teidin_to_rntilcid :: "u32 \<Rightarrow> enb_gtpu \<Rightarrow> rnti_lcid" where
  "teidin_to_rntilcid teidin g =
    (case map_find teidin (eg_teidin_to_rntilcid g) of None \<Rightarrow> \<lparr>rl_rnti = 0, rl_lcid = 0\<rparr> | Some x \<Rightarrow> x)"

definition rntilcid_to_teidin :: "u16 \<Rightarrow> u16 \<Rightarrow> enb_gtpu \<Rightarrow> u32" where
  "rntilcid_to_teidin rnti lcid g =
    fold (\<lambda>(t, x) teidin. if rl_rnti x = rnti \<and> rl_lcid x = lcid then t else teidin) (eg_teidin_to_rntilcid g) 0"

section \<open>The bearers\<close>

definition add_bearer :: "u16 \<Rightarrow> u32 \<Rightarrow> u32 \<Rightarrow> u32 \<Rightarrow> enb_gtpu \<Rightarrow> (u32 \<times> enb_gtpu) option" where
  "add_bearer rnti lcid addr teid_out g =
    (let (teid_in, g) = allocate_teidin rnti (ucast lcid) g;
         g = (if map_find rnti (eg_rnti_bearers g) = None then bearers_at rnti g else g)
     in map_option (Pair teid_in)
          (set_bearer rnti (\<lambda>b.
             Option.bind (wr (bm_teids_in b) (uint lcid) teid_in) (\<lambda>i.
             Option.bind (wr (bm_teids_out b) (uint lcid) teid_out) (\<lambda>out.
             Option.bind (wr (bm_spgw_addrs b) (uint lcid) addr) (\<lambda>a.
               Some \<lparr>bm_teids_in = i, bm_teids_out = out, bm_spgw_addrs = a\<rparr>)))) g))"

definition rem_bearer :: "u16 \<Rightarrow> u32 \<Rightarrow> enb_gtpu \<Rightarrow> enb_gtpu option" where
  "rem_bearer rnti lcid g =
    (let g = bearers_at rnti (free_teidin_bearer rnti (ucast lcid) g)
     in Option.bind (set_bearer rnti (\<lambda>b.
          Option.bind (wr (bm_teids_in b) (uint lcid) 0) (\<lambda>i.
          Option.bind (wr (bm_teids_out b) (uint lcid) 0) (\<lambda>out.
            Some (b\<lparr>bm_teids_in := i, bm_teids_out := out\<rparr>)))) g) (\<lambda>g.
        map_option (\<lambda>b.
          if list_all (\<lambda>i. bm_teids_in b ! i = 0) [0..<SRSENB_N_RADIO_BEARERS]
          then g\<lparr>eg_rnti_bearers := map_erase rnti (eg_rnti_bearers g)\<rparr> else g)
          (map_find rnti (eg_rnti_bearers g))))"

definition mod_bearer_rnti :: "u16 \<Rightarrow> u16 \<Rightarrow> enb_gtpu \<Rightarrow> enb_gtpu" where
  "mod_bearer_rnti old_rnti new_rnti g =
    (if map_find new_rnti (eg_rnti_bearers g) \<noteq> None then g
     else case map_find old_rnti (eg_rnti_bearers g) of
            None \<Rightarrow> g
          | Some value \<Rightarrow>
              g\<lparr>eg_rnti_bearers := snd (map_insert new_rnti value (map_erase old_rnti (eg_rnti_bearers g))),
                eg_teidin_to_rntilcid :=
                  map (\<lambda>(t, x). (t, if rl_rnti x = old_rnti then x\<lparr>rl_rnti := new_rnti\<rparr> else x)) (eg_teidin_to_rntilcid g)\<rparr>)"

definition rem_user :: "u16 \<Rightarrow> enb_gtpu \<Rightarrow> enb_gtpu" where
  "rem_user rnti g =
    (let g = free_teidin rnti g in g\<lparr>eg_rnti_bearers := map_erase rnti (eg_rnti_bearers g)\<rparr>)"

section \<open>Packets\<close>

text \<open>The octets a socket call takes from a buffer.\<close>

definition bb_octets :: "byte_buffer \<Rightarrow> nat \<Rightarrow> bytes option" where
  "bb_octets b n = (if n \<le> length (bb_mem b 0) then Some (take n (bb_mem b 0)) else None)"

definition ip_version :: "byte_buffer \<Rightarrow> u8 option" where
  "ip_version pdu = map_option (drop_bit 4) (bb_get pdu 0)"

definition gtpu_write_pdu :: "u16 \<Rightarrow> u32 \<Rightarrow> byte_buffer \<Rightarrow> enb_gtpu \<Rightarrow> (enb_gtpu \<times> enb_gtpu_event list) option" where
  "gtpu_write_pdu rnti lcid pdu g =
    Option.bind (ip_version pdu) (\<lambda>version.
      if version \<noteq> 4 \<and> version \<noteq> 6 then Some (g, [])
      else
        let g = bearers_at rnti g
        in Option.bind (bearers_read bm_teids_out rnti lcid g) (\<lambda>teid.
           Option.bind (bearers_read bm_spgw_addrs rnti lcid g) (\<lambda>addr.
           let header = \<lparr>gh_flags = GTPU_FLAGS_VERSION_V1 OR GTPU_FLAGS_GTP_PROTOCOL, gh_message_type = GTPU_MSG_DATA_PDU,
                 gh_length = ucast (bb_N_bytes pdu), gh_teid = teid, gh_seq_number = None, gh_n_pdu = None,
                 gh_next_ext_hdr_type = None\<rparr>
           in Option.bind (gtpu_write_header header pdu) (\<lambda>(ok, header, pdu).
              if \<not> ok then Some (g, [])
              else map_option (\<lambda>x. (g, [S1u_sendto (htonl addr) (htons GTPU_PORT) x]))
                     (bb_octets pdu (unat (bb_N_bytes pdu)))))))"

text \<open>The buffer of the response comes from the pool: its array holds what an earlier packet left there.\<close>

definition echo_response :: "byte_buffer \<Rightarrow> u32 \<Rightarrow> u16 \<Rightarrow> u16 option \<Rightarrow> enb_gtpu_event list option" where
  "echo_response pool_buffer addr port seq =
    Option.bind seq (\<lambda>seq.
      let header = \<lparr>gh_flags = GTPU_FLAGS_VERSION_V1 OR GTPU_FLAGS_GTP_PROTOCOL OR GTPU_FLAGS_SEQUENCE,
            gh_message_type = GTPU_MSG_ECHO_RESPONSE, gh_length = 4, gh_teid = 0, gh_seq_number = Some seq,
            gh_n_pdu = Some 0, gh_next_ext_hdr_type = Some 0\<rparr>
      in Option.bind (gtpu_write_header header (bb_clear pool_buffer)) (\<lambda>(ok, header, pdu).
         map_option (\<lambda>x. [S1u_sendto addr port x]) (bb_octets pdu 12)))"

definition handle_gtpu_s1u_rx_packet ::
  "byte_buffer \<Rightarrow> byte_buffer \<Rightarrow> u32 \<Rightarrow> u16 \<Rightarrow> enb_gtpu \<Rightarrow> enb_gtpu_event list option" where
  "handle_gtpu_s1u_rx_packet pool_buffer pdu addr port g =
    Option.bind (gtpu_read_header pdu) (\<lambda>(ok, pdu, header).
      if \<not> ok then Some []
      else if gh_message_type header = GTPU_MSG_ECHO_REQUEST then
        echo_response pool_buffer addr port (gh_seq_number header)
      else if gh_message_type header = GTPU_MSG_DATA_PDU then
        let x = teidin_to_rntilcid (gh_teid header) g;
            rnti = rl_rnti x; lcid = rl_lcid x
        in if map_find rnti (eg_rnti_bearers g) = None then Some []
           else if unat lcid < SRSENB_N_SRB \<or> SRSENB_N_RADIO_BEARERS \<le> unat lcid then Some []
           else Option.bind (ip_version pdu) (\<lambda>version.
                  if version \<noteq> 4 \<and> version \<noteq> 6 then Some []
                  else Some [Gtpu_pdcp_write_sdu rnti (ucast lcid) pdu])
      else Some [])"

definition m1u_init :: "enb_gtpu \<Rightarrow> enb_gtpu" where
  "m1u_init g = g\<lparr>eg_m1u_lcid_counter := 1\<rparr>"

definition handle_gtpu_m1u_rx_packet :: "byte_buffer \<Rightarrow> enb_gtpu \<Rightarrow> enb_gtpu_event list option" where
  "handle_gtpu_m1u_rx_packet pdu g =
    Option.bind (gtpu_read_header pdu) (\<lambda>(ok, pdu, header).
      Some [Gtpu_pdcp_write_sdu SRSLTE_MRNTI (of_int (eg_m1u_lcid_counter g)) pdu])"

section \<open>The tunnels\<close>

text \<open>The abstract state: the live incoming TEIDs in the order of their allocation, each with its RNTI and LCID.\<close>

type_synonym tunnel = "u32 \<times> u16 \<times> u16"

definition tunnels_of :: "enb_gtpu \<Rightarrow> tunnel list" where
  "tunnels_of g = map (\<lambda>(t, x). (t, rl_rnti x, rl_lcid x)) (eg_teidin_to_rntilcid g)"

definition has_user :: "u16 \<Rightarrow> tunnel list \<Rightarrow> bool" where
  "has_user rnti ts \<longleftrightarrow> list_ex (\<lambda>(t, r, l). r = rnti) ts"

datatype tunnel_op =
    Add_bearer u16 u32 u32 u32
  | Rem_bearer u16 u32
  | Mod_bearer_rnti u16 u16
  | Rem_user u16
  | Write_pdu u16 u32 byte_buffer

fun tunnel_step :: "tunnel_op \<Rightarrow> enb_gtpu \<Rightarrow> enb_gtpu option" where
  "tunnel_step (Add_bearer rnti lcid addr teid_out) g = map_option snd (add_bearer rnti lcid addr teid_out g)"
| "tunnel_step (Rem_bearer rnti lcid) g = rem_bearer rnti lcid g"
| "tunnel_step (Mod_bearer_rnti old_rnti new_rnti) g = Some (mod_bearer_rnti old_rnti new_rnti g)"
| "tunnel_step (Rem_user rnti) g = Some (rem_user rnti g)"
| "tunnel_step (Write_pdu rnti lcid pdu) g = map_option fst (gtpu_write_pdu rnti lcid pdu g)"

fun tunnel_run :: "tunnel_op list \<Rightarrow> enb_gtpu \<Rightarrow> enb_gtpu option" where
  "tunnel_run [] g = Some g"
| "tunnel_run (op # ops) g = Option.bind (tunnel_step op g) (tunnel_run ops)"

text \<open>What each operation means for the tunnels; \<open>n\<close> counts the bearers ever added.\<close>

fun tunnel_spec :: "tunnel_op \<Rightarrow> nat \<times> tunnel list \<Rightarrow> nat \<times> tunnel list" where
  "tunnel_spec (Add_bearer rnti lcid addr teid_out) (n, ts) = (n + 1, ts @ [(of_nat (n + 1), rnti, ucast lcid)])"
| "tunnel_spec (Rem_bearer rnti lcid) (n, ts) = (n, filter (\<lambda>(t, r, l). \<not> (r = rnti \<and> l = ucast lcid)) ts)"
| "tunnel_spec (Mod_bearer_rnti old_rnti new_rnti) (n, ts) =
    (n, if has_user new_rnti ts then ts else map (\<lambda>(t, r, l). (t, if r = old_rnti then new_rnti else r, l)) ts)"
| "tunnel_spec (Rem_user rnti) (n, ts) = (n, filter (\<lambda>(t, r, l). r \<noteq> rnti) ts)"
| "tunnel_spec (Write_pdu rnti lcid pdu) (n, ts) = (n, ts)"

text \<open>
  The calls that the callers make: bearer indices within the arrays, packets only for users that have a bearer, and
  fewer than \<open>2 ^ 32\<close> bearers in the lifetime of the entity.
\<close>

fun tunnel_allowed :: "tunnel_op \<Rightarrow> nat \<times> tunnel list \<Rightarrow> bool" where
  "tunnel_allowed (Add_bearer rnti lcid addr teid_out) (n, ts) \<longleftrightarrow> unat lcid < SRSENB_N_RADIO_BEARERS \<and> n + 1 < 2 ^ 32"
| "tunnel_allowed (Rem_bearer rnti lcid) (n, ts) \<longleftrightarrow> unat lcid < SRSENB_N_RADIO_BEARERS"
| "tunnel_allowed (Write_pdu rnti lcid pdu) (n, ts) \<longleftrightarrow> unat lcid < SRSENB_N_RADIO_BEARERS \<and> has_user rnti ts \<and> bb_ok pdu \<and> bb_data pdu \<noteq> []"
| "tunnel_allowed _ _ \<longleftrightarrow> True"

fun tunnels_allowed :: "tunnel_op list \<Rightarrow> nat \<times> tunnel list \<Rightarrow> bool" where
  "tunnels_allowed [] s \<longleftrightarrow> True"
| "tunnels_allowed (op # ops) s \<longleftrightarrow> tunnel_allowed op s \<and> tunnels_allowed ops (tunnel_spec op s)"

section \<open>The invariant\<close>

definition bearer_sizes :: "bearer_map \<Rightarrow> bool" where
  "bearer_sizes b \<longleftrightarrow> length (bm_teids_in b) = SRSENB_N_RADIO_BEARERS \<and> length (bm_teids_out b) = SRSENB_N_RADIO_BEARERS \<and>
    length (bm_spgw_addrs b) = SRSENB_N_RADIO_BEARERS"

text \<open>\<open>live\<close>: the table of bearers of \<open>rnti\<close> has a TEID at index \<open>i\<close>.\<close>

definition live :: "enb_gtpu \<Rightarrow> u16 \<Rightarrow> nat \<Rightarrow> bool" where
  "live g rnti i \<longleftrightarrow> i < SRSENB_N_RADIO_BEARERS \<and>
    (\<exists>b. map_find rnti (eg_rnti_bearers g) = Some b \<and> bm_teids_in b ! i \<noteq> 0)"

text \<open>The two tables agree on which bearers exist, and no user is without one.\<close>

definition enb_gtpu_inv :: "nat \<Rightarrow> enb_gtpu \<Rightarrow> bool" where
  "enb_gtpu_inv n g \<longleftrightarrow> n < 2 ^ 32 \<and> eg_next_teid_in g = of_nat n \<and>
    map_ok (eg_rnti_bearers g) \<and> map_ok (eg_teidin_to_rntilcid g) \<and>
    (\<forall>(t, x) \<in> set (eg_teidin_to_rntilcid g). t \<noteq> 0 \<and> unat t \<le> n) \<and>
    (\<forall>rnti b. map_find rnti (eg_rnti_bearers g) = Some b \<longrightarrow> bearer_sizes b) \<and>
    (\<forall>rnti b. map_find rnti (eg_rnti_bearers g) = Some b \<longrightarrow> (\<exists>i. live g rnti i)) \<and>
    (\<forall>rnti i. live g rnti i \<longleftrightarrow> (\<exists>x \<in> snd ` set (eg_teidin_to_rntilcid g). rl_rnti x = rnti \<and> unat (rl_lcid x) = i))"

lemma enb_gtpu_invD:
  assumes "enb_gtpu_inv n g"
  shows "n < 2 ^ 32" "eg_next_teid_in g = of_nat n" "map_ok (eg_rnti_bearers g)" "map_ok (eg_teidin_to_rntilcid g)"
    "\<And>t x. (t, x) \<in> set (eg_teidin_to_rntilcid g) \<Longrightarrow> t \<noteq> 0 \<and> unat t \<le> n"
    "\<And>rnti b. map_find rnti (eg_rnti_bearers g) = Some b \<Longrightarrow> bearer_sizes b"
    "\<And>rnti b. map_find rnti (eg_rnti_bearers g) = Some b \<Longrightarrow> \<exists>i. live g rnti i"
    "\<And>rnti i. live g rnti i \<longleftrightarrow> (\<exists>x \<in> snd ` set (eg_teidin_to_rntilcid g). rl_rnti x = rnti \<and> unat (rl_lcid x) = i)"
  using assms unfolding enb_gtpu_inv_def by (blast | fastforce)+

lemma enb_gtpu_invI:
  assumes "n < 2 ^ 32" "eg_next_teid_in g = of_nat n" "map_ok (eg_rnti_bearers g)" "map_ok (eg_teidin_to_rntilcid g)"
    "\<And>t x. (t, x) \<in> set (eg_teidin_to_rntilcid g) \<Longrightarrow> t \<noteq> 0 \<and> unat t \<le> n"
    "\<And>rnti b. map_find rnti (eg_rnti_bearers g) = Some b \<Longrightarrow> bearer_sizes b"
    "\<And>rnti b. map_find rnti (eg_rnti_bearers g) = Some b \<Longrightarrow> \<exists>i. live g rnti i"
    "\<And>rnti i. live g rnti i \<longleftrightarrow> (\<exists>x \<in> snd ` set (eg_teidin_to_rntilcid g). rl_rnti x = rnti \<and> unat (rl_lcid x) = i)"
  shows "enb_gtpu_inv n g"
  unfolding enb_gtpu_inv_def using assms by blast

lemma has_user_tunnels:
  "has_user rnti (tunnels_of g) \<longleftrightarrow> (\<exists>x \<in> snd ` set (eg_teidin_to_rntilcid g). rl_rnti x = rnti)"
  by (auto simp: has_user_def tunnels_of_def list_ex_iff image_iff split_beta)

lemma user_known:
  assumes "enb_gtpu_inv n g"
  shows "map_find rnti (eg_rnti_bearers g) \<noteq> None \<longleftrightarrow> has_user rnti (tunnels_of g)"
proof
  assume "map_find rnti (eg_rnti_bearers g) \<noteq> None"
  then obtain i where "live g rnti i" using enb_gtpu_invD(7) [OF assms] by blast
  then show "has_user rnti (tunnels_of g)" using enb_gtpu_invD(8) [OF assms] by (auto simp: has_user_tunnels)
next
  assume "has_user rnti (tunnels_of g)"
  then obtain i where "live g rnti i" using enb_gtpu_invD(8) [OF assms] by (auto simp: has_user_tunnels)
  then show "map_find rnti (eg_rnti_bearers g) \<noteq> None" by (auto simp: live_def)
qed

lemma enb_gtpu_inv_new: "enb_gtpu_inv 0 enb_gtpu_new" "tunnels_of enb_gtpu_new = []"
  by (simp_all add: enb_gtpu_inv_def enb_gtpu_new_def tunnels_of_def live_def)

section \<open>Every operation keeps it and does what it means\<close>

text \<open>Updates of the bearer table, seen through \<open>map_find\<close>.\<close>

lemma set_bearer_find:
  assumes "set_bearer rnti f g = Some g'" "map_ok (eg_rnti_bearers g)"
  obtains b b' where "map_find rnti (eg_rnti_bearers g) = Some b" "f b = Some b'"
    "\<And>r. map_find r (eg_rnti_bearers g') = (if r = rnti then Some b' else map_find r (eg_rnti_bearers g))"
    "map_ok (eg_rnti_bearers g')" "eg_teidin_to_rntilcid g' = eg_teidin_to_rntilcid g" "eg_next_teid_in g' = eg_next_teid_in g"
proof -
  obtain b b' where b: "map_find rnti (eg_rnti_bearers g) = Some b" "f b = Some b'"
    "g' = g\<lparr>eg_rnti_bearers := map_write rnti b' (eg_rnti_bearers g)\<rparr>"
    using assms(1) by (auto simp: set_bearer_def bind_eq_Some_conv)
  then show thesis using assms(2) by (intro that [of b b']) (auto simp: map_find_write map_write_ok)
qed

lemma bearers_at_find:
  assumes "map_ok (eg_rnti_bearers g)"
  shows "map_find r (eg_rnti_bearers (bearers_at rnti g))
      = (if r = rnti \<and> map_find rnti (eg_rnti_bearers g) = None then Some bearer_map_new else map_find r (eg_rnti_bearers g))"
    "map_ok (eg_rnti_bearers (bearers_at rnti g))" "eg_teidin_to_rntilcid (bearers_at rnti g) = eg_teidin_to_rntilcid g"
    "eg_next_teid_in (bearers_at rnti g) = eg_next_teid_in g"
  using assms by (simp_all add: bearers_at_def map_find_insert map_insert_ok)

lemma bearers_at_present: "map_find rnti (eg_rnti_bearers g) \<noteq> None \<Longrightarrow> map_ok (eg_rnti_bearers g) \<Longrightarrow> bearers_at rnti g = g"
proof -
  have "map_find k m \<noteq> None \<Longrightarrow> map_ok m \<Longrightarrow> snd (map_insert k v m) = m" for k :: u16 and v :: bearer_map and m
  proof (induction k v m rule: map_insert.induct)
    case (2 k v a w m)
    have "k < a \<Longrightarrow> map_find k m = None" using 2(3) by (intro map_find_absent) auto
    then show ?case using 2 by (auto split: prod.splits)
  qed simp
  then show "map_find rnti (eg_rnti_bearers g) \<noteq> None \<Longrightarrow> map_ok (eg_rnti_bearers g) \<Longrightarrow> bearers_at rnti g = g"
    by (simp add: bearers_at_def)
qed

lemma bearer_map_new_sizes [simp]: "bearer_sizes bearer_map_new" "i < SRSENB_N_RADIO_BEARERS \<Longrightarrow> bm_teids_in bearer_map_new ! i = 0"
  by (simp_all add: bearer_sizes_def bearer_map_new_def)

lemma wr_u32 [simp]: "unat i < length xs \<Longrightarrow> wr xs (uint (i :: u32)) x = Some (xs[unat i := x])"
  using wr_Some [of "unat i" xs x] by simp

lemma rd_u32 [simp]: "unat i < length xs \<Longrightarrow> rd xs (uint (i :: u32)) = Some (xs ! unat i)"
  using rd_Some [of "unat i" xs] by simp

lemma lcid_u16: "unat (lcid :: u32) < SRSENB_N_RADIO_BEARERS \<Longrightarrow> unat (ucast lcid :: u16) = unat lcid"
  by (simp add: unsigned_ucast_eq take_bit_nat_eq_self SRSENB_N_RADIO_BEARERS_def)

lemma add_bearer_keeps:
  assumes inv: "enb_gtpu_inv n g" and lcid: "unat lcid < SRSENB_N_RADIO_BEARERS" and n: "n + 1 < 2 ^ 32"
  obtains g' where "add_bearer rnti lcid addr teid_out g = Some (of_nat (n + 1), g')" "enb_gtpu_inv (n + 1) g'"
    "tunnels_of g' = tunnels_of g @ [(of_nat (n + 1), rnti, ucast lcid)]"
    "bearers_read bm_teids_out rnti lcid g' = Some teid_out" "bearers_read bm_spgw_addrs rnti lcid g' = Some addr"
proof -
  note d = enb_gtpu_invD [OF inv]
  let ?x = "\<lparr>rl_rnti = rnti, rl_lcid = ucast lcid :: u16\<rparr>"
  define t where "t = (of_nat (n + 1) :: u32)"
  have t: "unat t = n + 1" "t = eg_next_teid_in g + 1"
    unfolding t_def unsigned_of_nat using n d(2) by (simp_all add: take_bit_nat_eq_self)
  have less: "a < t" if "a \<in> fst ` set (eg_teidin_to_rntilcid g)" for a
    using that d(5) t(1) by (fastforce simp: word_less_nat_alt)
  then have "t \<notin> fst ` set (eg_teidin_to_rntilcid g)" by blast
  then have none: "map_find t (eg_teidin_to_rntilcid g) = None" by (simp add: map_find_eq map_of_eq_None_iff)
  let ?m = "eg_teidin_to_rntilcid g @ [(t, ?x)]"
  let ?g1 = "g\<lparr>eg_next_teid_in := t, eg_teidin_to_rntilcid := ?m\<rparr>"
  have alloc: "allocate_teidin rnti (ucast lcid) g = (t, ?g1)"
    using none map_assign_last [OF d(4) less] by (simp add: allocate_teidin_def Let_def flip: t(2))
  define g2 where "g2 = (if map_find rnti (eg_rnti_bearers ?g1) = None then bearers_at rnti ?g1 else ?g1)"
  have g2: "map_ok (eg_rnti_bearers g2)" "eg_teidin_to_rntilcid g2 = ?m" "eg_next_teid_in g2 = t"
    "map_find r (eg_rnti_bearers g2) = (if r = rnti \<and> map_find rnti (eg_rnti_bearers g) = None then Some bearer_map_new
      else map_find r (eg_rnti_bearers g))" for r
    using d(3) by (simp_all add: g2_def bearers_at_find)
  obtain b where b: "map_find rnti (eg_rnti_bearers g2) = Some b" "bearer_sizes b"
    "\<And>i. i < SRSENB_N_RADIO_BEARERS \<Longrightarrow> bm_teids_in b ! i \<noteq> 0 \<longleftrightarrow> live g rnti i"
    using d(6) [of rnti] by (cases "map_find rnti (eg_rnti_bearers g)") (auto simp: g2(4) live_def)
  let ?k = "unat lcid"
  let ?b = "\<lparr>bm_teids_in = (bm_teids_in b)[?k := t], bm_teids_out = (bm_teids_out b)[?k := teid_out],
    bm_spgw_addrs = (bm_spgw_addrs b)[?k := addr]\<rparr>"
  define g3 where "g3 = g2\<lparr>eg_rnti_bearers := map_write rnti ?b (eg_rnti_bearers g2)\<rparr>"
  have add: "add_bearer rnti lcid addr teid_out g = Some (t, g3)"
    unfolding add_bearer_def alloc Let_def case_prod_conv g2_def [symmetric]
    using b(1,2) lcid by (simp add: g3_def set_bearer_def bearer_sizes_def)
  have find: "map_find r (eg_rnti_bearers g3) = (if r = rnti then Some ?b else map_find r (eg_rnti_bearers g))" for r
    using b(1) g2(4) [of r] by (simp add: g3_def map_find_write)
  have g3: "eg_teidin_to_rntilcid g3 = ?m" "eg_next_teid_in g3 = t" "map_ok (eg_rnti_bearers g3)"
    using g2(1,2,3) by (simp_all add: g3_def map_write_ok)
  have live: "live g3 r i \<longleftrightarrow> (r = rnti \<and> i = ?k) \<or> live g r i" for r i
  proof -
    have "t \<noteq> 0" using t(1) by (metis add_is_0 unat_0 zero_neq_one)
    then show ?thesis using b(2,3) lcid
      by (cases "r = rnti"; cases "i < SRSENB_N_RADIO_BEARERS") (auto simp: live_def find bearer_sizes_def nth_list_update)
  qed
  have keys: "map_ok (eg_teidin_to_rntilcid g3)" unfolding g3 using d(4) less by (auto simp: map_ok_def sorted_wrt_append)
  have set: "(a, x) \<in> set (eg_teidin_to_rntilcid g3) \<Longrightarrow> a \<noteq> 0 \<and> unat a \<le> n + 1" for a x
    unfolding g3 using d(5) [of a x] t(1) by auto
  have sizes: "map_find r (eg_rnti_bearers g3) = Some c \<Longrightarrow> bearer_sizes c" for r c
    using d(6) [of r c] b(2) by (auto simp: find bearer_sizes_def split: if_splits)
  have some: "map_find r (eg_rnti_bearers g3) = Some c \<Longrightarrow> \<exists>i. live g3 r i" for r c
    using d(7) [of r c] by (auto simp: find live split: if_splits)
  have agree: "live g3 r i \<longleftrightarrow> (\<exists>x \<in> snd ` set (eg_teidin_to_rntilcid g3). rl_rnti x = r \<and> unat (rl_lcid x) = i)" for r i
    unfolding live d(8) g3 using lcid_u16 [OF lcid] by auto
  have nxt: "eg_next_teid_in g3 = of_nat (n + 1)" unfolding g3 t_def ..
  have "enb_gtpu_inv (n + 1) g3" by (rule enb_gtpu_invI [OF n nxt g3(3) keys set sizes some agree])
  then show thesis
    using that [unfolded t_def [symmetric]] add b(2) lcid by (simp add: tunnels_of_def g3 bearers_read_def find bearer_sizes_def)
qed

lemma values_filter: "snd ` set (filter (\<lambda>(t, x). P x) m) = {x \<in> snd ` set m. P x}"
  by force

lemma tunnels_filter:
  "map (\<lambda>(t, x). (t, rl_rnti x, rl_lcid x)) (filter (\<lambda>(t, x). P (rl_rnti x) (rl_lcid x)) m)
    = filter (\<lambda>(t, r, l). P r l) (map (\<lambda>(t, x). (t, rl_rnti x, rl_lcid x)) m)"
  by (induction m) auto

lemma rem_bearer_keeps:
  assumes inv: "enb_gtpu_inv n g" and lcid: "unat lcid < SRSENB_N_RADIO_BEARERS"
  obtains g' where "rem_bearer rnti lcid g = Some g'" "enb_gtpu_inv n g'"
    "tunnels_of g' = filter (\<lambda>(t, r, l). \<not> (r = rnti \<and> l = ucast lcid)) (tunnels_of g)"
proof -
  note d = enb_gtpu_invD [OF inv]
  let ?k = "unat lcid"
  define g1 where "g1 = free_teidin_bearer rnti (ucast lcid) g"
  define m where "m = filter (\<lambda>(t, x). \<not> (rl_rnti x = rnti \<and> rl_lcid x = ucast lcid)) (eg_teidin_to_rntilcid g)"
  have g1: "eg_rnti_bearers g1 = eg_rnti_bearers g" "eg_teidin_to_rntilcid g1 = m" "eg_next_teid_in g1 = eg_next_teid_in g"
    by (simp_all add: g1_def free_teidin_bearer_def m_def)
  define g2 where "g2 = bearers_at rnti g1"
  have g2: "map_ok (eg_rnti_bearers g2)" "eg_teidin_to_rntilcid g2 = m" "eg_next_teid_in g2 = of_nat n"
    "map_find r (eg_rnti_bearers g2) = (if r = rnti \<and> map_find rnti (eg_rnti_bearers g) = None then Some bearer_map_new
      else map_find r (eg_rnti_bearers g))" for r
    using d(2,3) by (simp_all add: g2_def bearers_at_find g1)
  obtain b where b: "map_find rnti (eg_rnti_bearers g2) = Some b" "bearer_sizes b"
    "\<And>i. i < SRSENB_N_RADIO_BEARERS \<Longrightarrow> bm_teids_in b ! i \<noteq> 0 \<longleftrightarrow> live g rnti i"
    using d(6) [of rnti] by (cases "map_find rnti (eg_rnti_bearers g)") (auto simp: g2(4) live_def)
  let ?b = "b\<lparr>bm_teids_in := (bm_teids_in b)[?k := 0], bm_teids_out := (bm_teids_out b)[?k := 0]\<rparr>"
  define g3 where "g3 = g2\<lparr>eg_rnti_bearers := map_write rnti ?b (eg_rnti_bearers g2)\<rparr>"
  have find: "map_find r (eg_rnti_bearers g3) = (if r = rnti then Some ?b else map_find r (eg_rnti_bearers g))" for r
    using b(1) g2(4) [of r] by (simp add: g3_def map_find_write)
  have ok3: "map_ok (eg_rnti_bearers g3)" using g2(1) by (simp add: g3_def map_write_ok)
  have live3: "live g3 r i \<longleftrightarrow> \<not> (r = rnti \<and> i = ?k) \<and> live g r i" for r i
    using b(2,3) lcid
    by (cases "r = rnti"; cases "i < SRSENB_N_RADIO_BEARERS") (auto simp: live_def find bearer_sizes_def nth_list_update)
  let ?zero = "list_all (\<lambda>i. bm_teids_in ?b ! i = 0) [0..<SRSENB_N_RADIO_BEARERS]"
  have zero: "?zero \<longleftrightarrow> (\<nexists>i. live g3 rnti i)" by (auto simp: live_def find list_all_iff)
  define g4 where "g4 = (if ?zero then g3\<lparr>eg_rnti_bearers := map_erase rnti (eg_rnti_bearers g3)\<rparr> else g3)"
  have "set_bearer rnti (\<lambda>b. Option.bind (wr (bm_teids_in b) (uint lcid) 0) (\<lambda>i.
      Option.bind (wr (bm_teids_out b) (uint lcid) 0) (\<lambda>out. Some (b\<lparr>bm_teids_in := i, bm_teids_out := out\<rparr>)))) g2 = Some g3"
    using b(1,2) lcid by (simp add: set_bearer_def bearer_sizes_def g3_def)
  then have rem: "rem_bearer rnti lcid g = Some g4"
    unfolding rem_bearer_def g1_def [symmetric] g2_def [symmetric] Let_def by (simp add: find g4_def)
  have g4: "eg_teidin_to_rntilcid g4 = m" "eg_next_teid_in g4 = of_nat n" "map_ok (eg_rnti_bearers g4)"
    using g2(2,3) ok3 by (simp_all add: g4_def g3_def map_erase_ok)
  have find4: "map_find r (eg_rnti_bearers g4) = (if r = rnti \<and> ?zero then None else map_find r (eg_rnti_bearers g3))" for r
    using ok3 by (simp add: g4_def map_find_erase)
  have live4: "live g4 r i \<longleftrightarrow> live g3 r i" for r i
    using zero by (cases "r = rnti \<and> ?zero") (auto simp: live_def find4)
  have keys: "map_ok (eg_teidin_to_rntilcid g4)" unfolding g4 m_def using d(4) by (rule map_ok_filter)
  have set: "(a, x) \<in> set (eg_teidin_to_rntilcid g4) \<Longrightarrow> a \<noteq> 0 \<and> unat a \<le> n" for a x
    unfolding g4 m_def using d(5) [of a x] by auto
  have sizes: "map_find r (eg_rnti_bearers g4) = Some c \<Longrightarrow> bearer_sizes c" for r c
    using d(6) [of r c] b(2) by (auto simp: find4 find bearer_sizes_def split: if_splits)
  have some: "map_find r (eg_rnti_bearers g4) = Some c \<Longrightarrow> \<exists>i. live g4 r i" for r c
    using d(7) [of r c] zero unfolding live4 by (cases "r = rnti") (auto simp: find4 find live3 split: if_splits)
  have agree: "live g4 r i \<longleftrightarrow> (\<exists>x \<in> snd ` set (eg_teidin_to_rntilcid g4). rl_rnti x = r \<and> unat (rl_lcid x) = i)" for r i
  proof -
    have "unat l = ?k \<longleftrightarrow> l = ucast lcid" for l :: u16 using lcid_u16 [OF lcid] by (metis word_unat_eq_iff)
    then show ?thesis unfolding live4 live3 d(8) g4 m_def values_filter by auto
  qed
  have "enb_gtpu_inv n g4" by (rule enb_gtpu_invI [OF d(1) g4(2,3) keys set sizes some agree])
  moreover have "tunnels_of g4 = filter (\<lambda>(t, r, l). \<not> (r = rnti \<and> l = ucast lcid)) (tunnels_of g)"
    unfolding tunnels_of_def g4 m_def by (rule tunnels_filter)
  ultimately show thesis using rem that by blast
qed

lemma rem_user_keeps:
  assumes inv: "enb_gtpu_inv n g"
  shows "enb_gtpu_inv n (rem_user rnti g)" "tunnels_of (rem_user rnti g) = filter (\<lambda>(t, r, l). r \<noteq> rnti) (tunnels_of g)"
proof -
  note d = enb_gtpu_invD [OF inv]
  define m where "m = filter (\<lambda>(t, x). \<not> rl_rnti x = rnti) (eg_teidin_to_rntilcid g)"
  define g' where "g' = rem_user rnti g"
  have g': "eg_teidin_to_rntilcid g' = m" "eg_next_teid_in g' = of_nat n" "map_ok (eg_rnti_bearers g')"
    using d(2,3) by (simp_all add: g'_def rem_user_def free_teidin_def m_def map_erase_ok)
  have find: "map_find r (eg_rnti_bearers g') = (if r = rnti then None else map_find r (eg_rnti_bearers g))" for r
    using d(3) by (simp add: g'_def rem_user_def free_teidin_def map_find_erase)
  have live: "live g' r i \<longleftrightarrow> r \<noteq> rnti \<and> live g r i" for r i by (simp add: live_def find)
  have keys: "map_ok (eg_teidin_to_rntilcid g')" unfolding g' m_def using d(4) by (rule map_ok_filter)
  have set: "(a, x) \<in> set (eg_teidin_to_rntilcid g') \<Longrightarrow> a \<noteq> 0 \<and> unat a \<le> n" for a x
    unfolding g' m_def using d(5) [of a x] by auto
  have sizes: "map_find r (eg_rnti_bearers g') = Some c \<Longrightarrow> bearer_sizes c" for r c
    using d(6) [of r c] by (auto simp: find split: if_splits)
  have some: "map_find r (eg_rnti_bearers g') = Some c \<Longrightarrow> \<exists>i. live g' r i" for r c
    using d(7) [of r c] unfolding live by (auto simp: find split: if_splits)
  have agree: "live g' r i \<longleftrightarrow> (\<exists>x \<in> snd ` set (eg_teidin_to_rntilcid g'). rl_rnti x = r \<and> unat (rl_lcid x) = i)" for r i
    unfolding live d(8) g' m_def values_filter by auto
  show "enb_gtpu_inv n (rem_user rnti g)"
    unfolding g'_def [symmetric] by (rule enb_gtpu_invI [OF d(1) g'(2,3) keys set sizes some agree])
  show "tunnels_of (rem_user rnti g) = filter (\<lambda>(t, r, l). r \<noteq> rnti) (tunnels_of g)"
    unfolding g'_def [symmetric] tunnels_of_def g' m_def by (rule tunnels_filter)
qed

lemma map_ok_values: "(\<And>k x. fst (f (k, x)) = k) \<Longrightarrow> map_ok m \<Longrightarrow> map_ok (map f m)"
proof -
  assume "\<And>k x. fst (f (k, x)) = k"
  then have "map fst (map f m) = map fst m" by auto
  then show "map_ok m \<Longrightarrow> map_ok (map f m)" by (simp only: map_ok_def)
qed

lemma values_map: "snd ` set (map (\<lambda>(t, x). (t, h x)) m) = h ` (snd ` set m)"
  by (induction m) auto

lemma mod_bearer_rnti_keeps:
  assumes inv: "enb_gtpu_inv n g"
  shows "enb_gtpu_inv n (mod_bearer_rnti old_rnti new_rnti g)"
    "tunnels_of (mod_bearer_rnti old_rnti new_rnti g)
      = (if has_user new_rnti (tunnels_of g) then tunnels_of g
         else map (\<lambda>(t, r, l). (t, if r = old_rnti then new_rnti else r, l)) (tunnels_of g))"
proof -
  note d = enb_gtpu_invD [OF inv] and u = user_known [OF inv]
  let ?f = "\<lambda>(t, x). (t, if rl_rnti x = old_rnti then x\<lparr>rl_rnti := new_rnti\<rparr> else x)"
  let ?g = "mod_bearer_rnti old_rnti new_rnti g"
  show "enb_gtpu_inv n ?g"
  proof (cases "map_find new_rnti (eg_rnti_bearers g) = None \<and> map_find old_rnti (eg_rnti_bearers g) \<noteq> None")
    case False
    then have "?g = g" by (auto simp: mod_bearer_rnti_def)
    then show ?thesis using inv by simp
  next
    case True
    then obtain b where b: "map_find old_rnti (eg_rnti_bearers g) = Some b" "map_find new_rnti (eg_rnti_bearers g) = None" by auto
    define g' where "g' = ?g"
    have g': "eg_teidin_to_rntilcid g' = map ?f (eg_teidin_to_rntilcid g)" "eg_next_teid_in g' = of_nat n"
      "map_ok (eg_rnti_bearers g')"
      using b d(2,3) by (simp_all add: g'_def mod_bearer_rnti_def map_insert_ok map_erase_ok)
    have find: "map_find r (eg_rnti_bearers g') = (if r = new_rnti then Some b else if r = old_rnti then None else map_find r (eg_rnti_bearers g))" for r
      using b d(3) by (auto simp: g'_def mod_bearer_rnti_def map_find_insert map_erase_ok map_find_erase)
    have live: "live g' r i \<longleftrightarrow> (if r = new_rnti then live g old_rnti i else r \<noteq> old_rnti \<and> live g r i)" for r i
      using b by (auto simp: live_def find)
    have fresh: "\<not> live g new_rnti i" for i using b(2) by (simp add: live_def)
    have keys: "map_ok (eg_teidin_to_rntilcid g')" unfolding g' by (rule map_ok_values [OF _ d(4)]) simp
    have set: "(a, x) \<in> set (eg_teidin_to_rntilcid g') \<Longrightarrow> a \<noteq> 0 \<and> unat a \<le> n" for a x
      unfolding g' using d(5) by auto
    have sizes: "map_find r (eg_rnti_bearers g') = Some c \<Longrightarrow> bearer_sizes c" for r c
      using d(6) b by (auto simp: find split: if_splits)
    have some: "map_find r (eg_rnti_bearers g') = Some c \<Longrightarrow> \<exists>i. live g' r i" for r c
      using d(7) b(1) unfolding live by (auto simp: find split: if_splits)
    have agree: "live g' r i \<longleftrightarrow> (\<exists>x \<in> snd ` set (eg_teidin_to_rntilcid g'). rl_rnti x = r \<and> unat (rl_lcid x) = i)" for r i
    proof -
      let ?V = "snd ` set (eg_teidin_to_rntilcid g)"
      let ?h = "\<lambda>x. if rl_rnti x = old_rnti then x\<lparr>rl_rnti := new_rnti\<rparr> else x"
      have none: "\<not> (rl_rnti x = new_rnti \<and> unat (rl_lcid x) = i)" if "x \<in> ?V" for x
        using fresh [of i] that unfolding d(8) by blast
      have "snd ` set (eg_teidin_to_rntilcid g') = ?h ` ?V"
        unfolding g' by (rule values_map)
      then have "(\<exists>x \<in> snd ` set (eg_teidin_to_rntilcid g'). rl_rnti x = r \<and> unat (rl_lcid x) = i) \<longleftrightarrow>
          (\<exists>x \<in> ?V. rl_rnti (?h x) = r \<and> unat (rl_lcid (?h x)) = i)" by (simp only: bex_simps)
      moreover have "rl_rnti (?h x) = r \<and> unat (rl_lcid (?h x)) = i \<longleftrightarrow>
          (if r = new_rnti then rl_rnti x = old_rnti else r \<noteq> old_rnti \<and> rl_rnti x = r) \<and> unat (rl_lcid x) = i"
        if "x \<in> ?V" for x
        using none [OF that] by auto
      ultimately show ?thesis unfolding live d(8) by (cases "r = new_rnti") auto
    qed
    show ?thesis unfolding g'_def [symmetric] by (rule enb_gtpu_invI [OF d(1) g'(2,3) keys set sizes some agree])
  qed
  show "tunnels_of ?g = (if has_user new_rnti (tunnels_of g) then tunnels_of g
      else map (\<lambda>(t, r, l). (t, if r = old_rnti then new_rnti else r, l)) (tunnels_of g))"
  proof (cases "map_find old_rnti (eg_rnti_bearers g)")
    case None
    then have "\<not> has_user old_rnti (tunnels_of g)" using u by blast
    then have "map (\<lambda>(t, r, l). (t, if r = old_rnti then new_rnti else r, l)) (tunnels_of g) = tunnels_of g"
      by (intro map_idI) (auto simp: has_user_def list_ex_iff)
    then show ?thesis using None by (simp add: mod_bearer_rnti_def)
  next
    case (Some b)
    then show ?thesis using u [of new_rnti]
      by (auto simp: mod_bearer_rnti_def tunnels_of_def split: option.splits)
  qed
qed

text \<open>The header of a packet to the gateway, and what a user packet becomes.\<close>

definition data_header :: "u32 \<Rightarrow> nat \<Rightarrow> gtpu_header" where
  "data_header teid n = \<lparr>gh_flags = GTPU_FLAGS_VERSION_V1 OR GTPU_FLAGS_GTP_PROTOCOL, gh_message_type = GTPU_MSG_DATA_PDU,
    gh_length = of_nat n, gh_teid = teid, gh_seq_number = None, gh_n_pdu = None, gh_next_ext_hdr_type = None\<rparr>"

definition g_pdu :: "u32 \<Rightarrow> bytes \<Rightarrow> bytes" where
  "g_pdu teid xs = gtpu_mandatory (data_header teid (length xs)) @ xs"

lemma data_header_ok: "gtpu_accepted (data_header teid n)" "\<not> gtpu_optional_fields (data_header teid n)"
  by (simp_all add: data_header_def gtpu_accepted_def gtpu_supported_flags_check_def gtpu_supported_msg_type_check_def
      gtpu_optional_fields_def gtpu_flag_defs gtpu_msg_defs)

lemma data_header_length: "bb_ok pdu \<Longrightarrow> ucast (bb_N_bytes pdu) = (of_nat (length (bb_data pdu)) :: u16)"
  by (simp add: length_bb_data word_unat_eq_iff unsigned_ucast_eq unsigned_of_nat)

lemma bb_octets_data: "bb_ok b \<Longrightarrow> bb_octets b (unat (bb_N_bytes b)) = Some (bb_data b)"
  using bb_okD(1) [of b] by (simp add: bb_octets_def bb_data_def)

definition ip_version_ok :: "bytes \<Rightarrow> bool" where
  "ip_version_ok xs \<longleftrightarrow> xs \<noteq> [] \<and> (drop_bit 4 (xs ! 0) = 4 \<or> drop_bit 4 (xs ! 0) = 6)"

lemma ip_version_data: "bb_ok b \<Longrightarrow> bb_data b \<noteq> [] \<Longrightarrow> ip_version b = Some (drop_bit 4 (bb_data b ! 0))"
proof -
  assume b: "bb_ok b" "bb_data b \<noteq> []"
  then have "0 < unat (bb_N_bytes b)" by (simp flip: length_bb_data)
  then show ?thesis using b(1) by (simp add: ip_version_def bb_get_data)
qed

lemma gtpu_write_pdu_sends:
  assumes "map_ok (eg_rnti_bearers g)" "map_find rnti (eg_rnti_bearers g) = Some b" "bearer_sizes b"
    and "unat lcid < SRSENB_N_RADIO_BEARERS" "bb_ok pdu" "bb_data pdu \<noteq> []"
  shows "gtpu_write_pdu rnti lcid pdu g = Some (g,
    if ip_version_ok (bb_data pdu) \<and> 8 \<le> bb_msg pdu
    then [S1u_sendto (htonl (bm_spgw_addrs b ! unat lcid)) (htons GTPU_PORT) (g_pdu (bm_teids_out b ! unat lcid) (bb_data pdu))]
    else [])"
proof -
  have at: "bearers_at rnti g = g" using assms(1,2) by (intro bearers_at_present) simp_all
  have read: "bearers_read bm_teids_out rnti lcid g = Some (bm_teids_out b ! unat lcid)"
    "bearers_read bm_spgw_addrs rnti lcid g = Some (bm_spgw_addrs b ! unat lcid)"
    using assms(2-4) by (simp_all add: bearers_read_def bearer_sizes_def)
  let ?h = "data_header (bm_teids_out b ! unat lcid) (length (bb_data pdu))"
  have h: "\<lparr>gh_flags = GTPU_FLAGS_VERSION_V1 OR GTPU_FLAGS_GTP_PROTOCOL, gh_message_type = GTPU_MSG_DATA_PDU,
      gh_length = ucast (bb_N_bytes pdu), gh_teid = bm_teids_out b ! unat lcid, gh_seq_number = None, gh_n_pdu = None,
      gh_next_ext_hdr_type = None\<rparr> = ?h"
    using data_header_length [OF assms(5)] by (simp add: data_header_def)
  note v = ip_version_data [OF assms(5,6)]
  show ?thesis
  proof (cases "8 \<le> bb_msg pdu")
    case True
    obtain b' where b': "gtpu_write_header ?h pdu = Some (True, ?h, b')" "bb_ok b'" "bb_msg b' = bb_msg pdu - 8"
      "bb_data b' = gtpu_mandatory ?h @ bb_data pdu" "unat (bb_N_bytes b') = 8 + unat (bb_N_bytes pdu)"
      by (rule gtpu_write_base [OF data_header_ok assms(5) True])
    show ?thesis
      using True assms(6) b'(1,4) bb_octets_data [OF b'(2)]
      by (simp add: gtpu_write_pdu_def v at read h Let_def g_pdu_def ip_version_ok_def)
  next
    case False
    then have "gtpu_write_header ?h pdu = Some (False, ?h, pdu)" using gtpu_write_no_room [OF assms(5)] by simp
    then show ?thesis
      using False assms(6) by (simp add: gtpu_write_pdu_def v at read h Let_def ip_version_ok_def)
  qed
qed

lemma write_pdu_keeps:
  assumes "enb_gtpu_inv n g" "unat lcid < SRSENB_N_RADIO_BEARERS" "has_user rnti (tunnels_of g)" "bb_ok pdu" "bb_data pdu \<noteq> []"
  shows "\<exists>evs. gtpu_write_pdu rnti lcid pdu g = Some (g, evs)"
proof -
  note d = enb_gtpu_invD [OF assms(1)]
  obtain b where "map_find rnti (eg_rnti_bearers g) = Some b" using assms(3) user_known [OF assms(1)] by blast
  then show ?thesis using gtpu_write_pdu_sends [OF d(3) _ _ assms(2,4,5)] d(6) by blast
qed

lemma tunnel_step_keeps:
  assumes "enb_gtpu_inv n g" "tunnel_allowed op (n, tunnels_of g)"
  obtains g' n' where "tunnel_step op g = Some g'" "tunnel_spec op (n, tunnels_of g) = (n', tunnels_of g')" "enb_gtpu_inv n' g'"
proof (cases op)
  case (Add_bearer rnti lcid addr teid_out)
  then have "unat lcid < SRSENB_N_RADIO_BEARERS" "n + 1 < 2 ^ 32" using assms(2) by simp_all
  then obtain g' where "add_bearer rnti lcid addr teid_out g = Some (of_nat (n + 1), g')" "enb_gtpu_inv (n + 1) g'"
    "tunnels_of g' = tunnels_of g @ [(of_nat (n + 1), rnti, ucast lcid)]"
    by (rule add_bearer_keeps [OF assms(1)])
  then show thesis using Add_bearer by (intro that [of g' "n + 1"]) simp_all
next
  case (Rem_bearer rnti lcid)
  then have "unat lcid < SRSENB_N_RADIO_BEARERS" using assms(2) by simp
  then obtain g' where "rem_bearer rnti lcid g = Some g'" "enb_gtpu_inv n g'"
    "tunnels_of g' = filter (\<lambda>(t, r, l). \<not> (r = rnti \<and> l = ucast lcid)) (tunnels_of g)"
    by (rule rem_bearer_keeps [OF assms(1)])
  then show thesis using Rem_bearer by (intro that [of g' n]) simp_all
next
  case (Mod_bearer_rnti old_rnti new_rnti)
  then show thesis using mod_bearer_rnti_keeps [OF assms(1), of old_rnti new_rnti]
    by (intro that [of "mod_bearer_rnti old_rnti new_rnti g" n]) simp_all
next
  case (Rem_user rnti)
  then show thesis using rem_user_keeps [OF assms(1), of rnti] by (intro that [of "rem_user rnti g" n]) simp_all
next
  case (Write_pdu rnti lcid pdu)
  then obtain evs where "gtpu_write_pdu rnti lcid pdu g = Some (g, evs)"
    using write_pdu_keeps [OF assms(1), of lcid rnti pdu] assms(2) by auto
  then show thesis using Write_pdu assms(1) by (intro that) simp_all
qed

lemma tunnel_run_keeps:
  "enb_gtpu_inv n g \<Longrightarrow> tunnels_allowed ops (n, tunnels_of g) \<Longrightarrow>
   \<exists>g' n'. tunnel_run ops g = Some g' \<and> fold tunnel_spec ops (n, tunnels_of g) = (n', tunnels_of g') \<and> enb_gtpu_inv n' g'"
proof (induction ops arbitrary: n g)
  case (Cons op ops)
  then have "tunnel_allowed op (n, tunnels_of g)" by simp
  then obtain g1 n1 where 1: "tunnel_step op g = Some g1" "tunnel_spec op (n, tunnels_of g) = (n1, tunnels_of g1)" "enb_gtpu_inv n1 g1"
    by (rule tunnel_step_keeps [OF Cons.prems(1)])
  have "tunnels_allowed ops (n1, tunnels_of g1)" using Cons.prems(2) 1(2) by simp
  from Cons.IH [OF 1(3) this] show ?case using 1 by simp
qed auto

section \<open>Packets from the gateway\<close>

text \<open>A datagram as the socket leaves it in a buffer of the pool.\<close>

definition received :: "byte_buffer \<Rightarrow> bytes \<Rightarrow> byte_buffer" where
  "received pool_buffer xs =
    (let b = bb_clear pool_buffer in (bb_set_mem b 0 (put (bb_mem b 0) xs))\<lparr>bb_N_bytes := of_nat (length xs)\<rparr>)"

lemma received:
  assumes "length (bb_buffer p) = MAX_BUFFER_SIZE_BYTES" "length xs \<le> 12237"
  shows "bb_ok (received p xs)" "bb_data (received p xs) = xs" "bb_msg (received p xs) = 1020"
proof -
  have l: "unat (of_nat (length xs) :: u32) = length xs"
    using assms(2) by (simp add: unsigned_of_nat take_bit_nat_eq_self)
  show "bb_ok (received p xs)" "bb_data (received p xs) = xs" "bb_msg (received p xs) = 1020"
    using assms l
    by (simp_all add: received_def Let_def bb_ok_def bb_data_def bb_mem_def bb_set_mem_def put_def bb_clear_def BUFFER_HEADER_OFFSET_def)
qed

lemma map_of_tunnels:
  "map_of (tunnels_of g) t = map_option (\<lambda>x. (rl_rnti x, rl_lcid x)) (map_find t (eg_teidin_to_rntilcid g))"
proof -
  have "map_of (map (\<lambda>(t, x). (t, rl_rnti x, rl_lcid x)) m) t = map_option (\<lambda>x. (rl_rnti x, rl_lcid x)) (map_find t m)" for m
    by (induction m) auto
  then show ?thesis by (simp add: tunnels_of_def)
qed

text \<open>Where a packet with TEID \<open>t\<close> goes.\<close>

definition tunnel_end :: "tunnel list \<Rightarrow> u32 \<Rightarrow> (u16 \<times> u16) option" where
  "tunnel_end ts t = (case map_of ts t of None \<Rightarrow> None | Some (r, l) \<Rightarrow> if SRSENB_N_SRB \<le> unat l then Some (r, l) else None)"

lemma rx_data_pdu:
  assumes inv: "enb_gtpu_inv n g" and pdu: "bb_ok pdu" "bb_data pdu = gtpu_mandatory (data_header t k) @ xs" "xs \<noteq> []"
  shows "handle_gtpu_s1u_rx_packet p pdu addr port g = Some (case tunnel_end (tunnels_of g) t of None \<Rightarrow> []
      | Some (r, l) \<Rightarrow> if ip_version_ok xs then [Gtpu_pdcp_write_sdu r (ucast l) (bb_pull_front 8 pdu)] else [])"
    "bb_data (bb_pull_front 8 pdu) = xs"
proof -
  note d = enb_gtpu_invD [OF inv]
  have "8 \<le> unat (bb_N_bytes pdu)" using length_bb_data [OF pdu(1)] by (simp add: pdu(2))
  note p = bb_pull_front [OF pdu(1) this]
  show data: "bb_data (bb_pull_front 8 pdu) = xs" using p(3) pdu(2) by simp
  have v: "ip_version (bb_pull_front 8 pdu) = Some (drop_bit 4 (xs ! 0))"
    using ip_version_data [OF p(1)] data pdu(3) by simp
  have h: "gh_flags (data_header t k) = 0x30" "gh_message_type (data_header t k) = GTPU_MSG_DATA_PDU" "gh_teid (data_header t k) = t"
    by (simp_all add: data_header_def gtpu_flag_defs)
  note read = gtpu_read_base [OF data_header_ok pdu(1,2), unfolded h]
  have types: "GTPU_MSG_DATA_PDU \<noteq> GTPU_MSG_ECHO_REQUEST" by (simp add: gtpu_msg_defs)
  show "handle_gtpu_s1u_rx_packet p pdu addr port g = Some (case tunnel_end (tunnels_of g) t of None \<Rightarrow> []
      | Some (r, l) \<Rightarrow> if ip_version_ok xs then [Gtpu_pdcp_write_sdu r (ucast l) (bb_pull_front 8 pdu)] else [])"
  proof (cases "map_find t (eg_teidin_to_rntilcid g)")
    case None
    then show ?thesis
      using types by (simp add: handle_gtpu_s1u_rx_packet_def read Let_def teidin_to_rntilcid_def tunnel_end_def map_of_tunnels SRSENB_N_SRB_def)
  next
    case (Some x)
    then have "(t, x) \<in> set (eg_teidin_to_rntilcid g)" by (simp add: map_find_eq map_of_SomeD)
    then have "live g (rl_rnti x) (unat (rl_lcid x))" using d(8) by force
    then have "map_find (rl_rnti x) (eg_rnti_bearers g) \<noteq> None" "unat (rl_lcid x) < SRSENB_N_RADIO_BEARERS"
      by (auto simp: live_def)
    then show ?thesis
      using Some types pdu(3) by (auto simp: handle_gtpu_s1u_rx_packet_def read Let_def teidin_to_rntilcid_def tunnel_end_def map_of_tunnels
          v ip_version_ok_def)
  qed
qed

text \<open>
  Claim C11. The eNB delivers a downlink packet to the bearer that owns its TEID, and to no other. For every sequence of
  bearer set-ups, releases, RNTI changes, user releases and uplink packets, the table of TEIDs is the one the operations
  describe (\<open>tunnel_spec\<close>), and a data packet is handed to the PDCP with its payload unchanged exactly when its TEID
  belongs to a data bearer.
\<close>

theorem enb_downlink_delivery:
  assumes "tunnels_allowed ops (0, [])"
    and "bb_ok pdu" "bb_data pdu = gtpu_mandatory (data_header t k) @ xs" "xs \<noteq> []"
  shows "\<exists>g sdu. tunnel_run ops enb_gtpu_new = Some g \<and> tunnels_of g = snd (fold tunnel_spec ops (0, [])) \<and>
    bb_data sdu = xs \<and>
    handle_gtpu_s1u_rx_packet p pdu addr port g =
      Some (case tunnel_end (snd (fold tunnel_spec ops (0, []))) t of None \<Rightarrow> []
            | Some (r, l) \<Rightarrow> if ip_version_ok xs then [Gtpu_pdcp_write_sdu r (ucast l) sdu] else [])"
proof -
  have "tunnels_allowed ops (0, tunnels_of enb_gtpu_new)" using assms(1) by (simp add: enb_gtpu_inv_new)
  from tunnel_run_keeps [OF enb_gtpu_inv_new(1) this] obtain g n where
    g: "tunnel_run ops enb_gtpu_new = Some g" "fold tunnel_spec ops (0, []) = (n, tunnels_of g)" "enb_gtpu_inv n g"
    by (auto simp: enb_gtpu_inv_new)
  show ?thesis
    using g(1,2) rx_data_pdu [OF g(3) assms(2-4)] by (intro exI [of _ g] exI [of _ "bb_pull_front 8 pdu"]) simp
qed

theorem enb_downlink_delivery_witness:
  "\<exists>g sdu. tunnel_run [Add_bearer 0x46 3 1 7, Add_bearer 0x47 4 1 8, Mod_bearer_rnti 0x46 0x50, Rem_user 0x47] enb_gtpu_new = Some g \<and>
    bb_data sdu = [0x45, 0, 0, 20] \<and>
    handle_gtpu_s1u_rx_packet byte_buffer_new (received byte_buffer_new (gtpu_mandatory (data_header 1 4) @ [0x45, 0, 0, 20])) 0 0 g
      = Some [Gtpu_pdcp_write_sdu 0x50 3 sdu]"
proof -
  let ?ops = "[Add_bearer 0x46 3 1 7, Add_bearer 0x47 4 1 8, Mod_bearer_rnti 0x46 0x50, Rem_user 0x47]"
  let ?xs = "[0x45, 0, 0, 20] :: bytes"
  have ops: "tunnels_allowed ?ops (0, [])" "snd (fold tunnel_spec ?ops (0, [])) = [(1, 0x50, 3)]"
    by (simp_all add: SRSENB_N_RADIO_BEARERS_def has_user_def)
  have new: "length (bb_buffer byte_buffer_new) = MAX_BUFFER_SIZE_BYTES" by (simp add: byte_buffer_new_def)
  have len: "length (gtpu_mandatory (data_header 1 4) @ ?xs) \<le> 12237" by simp
  have te: "tunnel_end [(1, 0x50, 3)] 1 = Some (0x50, 3)" "ip_version_ok ?xs"
    by (simp_all add: tunnel_end_def SRSENB_N_SRB_def ip_version_ok_def)
  have ne: "?xs \<noteq> []" by simp
  obtain g sdu where "tunnel_run ?ops enb_gtpu_new = Some g" "bb_data sdu = ?xs"
    "handle_gtpu_s1u_rx_packet byte_buffer_new (received byte_buffer_new (gtpu_mandatory (data_header 1 4) @ ?xs)) 0 0 g =
      Some (case tunnel_end [(1, 0x50, 3)] 1 of None \<Rightarrow> []
            | Some (r, l) \<Rightarrow> if ip_version_ok ?xs then [Gtpu_pdcp_write_sdu r (ucast l) sdu] else [])"
    using enb_downlink_delivery [OF ops(1) received(1,2) [OF new len] ne, of byte_buffer_new 0 0] unfolding ops(2) by blast
  then show ?thesis
    unfolding te by (intro exI [of _ g] exI [of _ sdu]) (simp add: te(2) del: tunnel_run.simps)
qed

text \<open>In the other direction a packet goes to the gateway given when the bearer was added.\<close>

lemma enb_uplink:
  assumes "enb_gtpu_inv n g" "unat lcid < SRSENB_N_RADIO_BEARERS" "n + 1 < 2 ^ 32"
    and "bb_ok pdu" "8 \<le> bb_msg pdu" "ip_version_ok (bb_data pdu)"
  shows "\<exists>g'. add_bearer rnti lcid addr teid_out g = Some (of_nat (n + 1), g') \<and>
    gtpu_write_pdu rnti lcid pdu g' = Some (g', [S1u_sendto (htonl addr) (htons GTPU_PORT) (g_pdu teid_out (bb_data pdu))])"
proof -
  obtain g' where g': "add_bearer rnti lcid addr teid_out g = Some (of_nat (n + 1), g')" "enb_gtpu_inv (n + 1) g'"
    "bearers_read bm_teids_out rnti lcid g' = Some teid_out" "bearers_read bm_spgw_addrs rnti lcid g' = Some addr"
    by (rule add_bearer_keeps [OF assms(1-3)])
  note d = enb_gtpu_invD [OF g'(2)]
  obtain b where b: "map_find rnti (eg_rnti_bearers g') = Some b" using g'(3) by (auto simp: bearers_read_def bind_eq_Some_conv)
  have size: "bearer_sizes b" using d(6) b by blast
  have "bm_teids_out b ! unat lcid = teid_out" "bm_spgw_addrs b ! unat lcid = addr"
    using g'(3,4) b size assms(2) by (simp_all add: bearers_read_def bearer_sizes_def)
  moreover have "bb_data pdu \<noteq> []" using assms(6) by (simp add: ip_version_ok_def)
  ultimately show ?thesis
    using g'(1) gtpu_write_pdu_sends [OF d(3) b size assms(2,4)] assms(5,6) by simp
qed

section \<open>The echo response\<close>

text \<open>
  Claim C24. An echo request made as TS 29.281 lays it out, with its sequence number in octets 9 and 10, is answered with
  sequence number zero in the place of the TEID, followed by four octets of whatever the pool buffer held before.
\<close>

theorem enb_echo_loses_sequence:
  assumes "bb_ok req" "bb_data req = [0x32, 1, 0, 4, 0, 0, 0, 0, s1, s0, 0, 0]" "length (bb_buffer p) = MAX_BUFFER_SIZE_BYTES"
  shows "handle_gtpu_s1u_rx_packet p req addr port g =
    Some [S1u_sendto addr port ([0x32, 2, 0, 4, 0, 0, 0, 0] @ take 4 (drop 1016 (bb_buffer p)))]"
proof -
  let ?h = "\<lparr>gh_flags = 0x32, gh_message_type = 1, gh_length = 4, gh_teid = 0, gh_seq_number = None, gh_n_pdu = None, gh_next_ext_hdr_type = None\<rparr>"
  have acc: "gtpu_accepted ?h" "gtpu_optional_fields ?h"
    by (simp_all add: gtpu_accepted_def gtpu_supported_flags_check_def gtpu_supported_msg_type_check_def
        gtpu_optional_fields_def gtpu_flag_defs gtpu_msg_defs)
  have "bb_data req = gtpu_mandatory ?h @ [s1, s0, 0, 0]"
    by (simp add: assms(2) gtpu_mandatory_def uint16_to_uint8_def uint32_to_uint8_def)
  from gtpu_read_sequence [OF acc assms(1) this] obtain h' where h': "gtpu_read_header req = Some (True, bb_pull_front 12 req, h')"
    "gh_message_type h' = 1" "gh_seq_number h' = Some 0"
    by (auto simp: uint32_to_uint8_def uint8_to_uint16_def)
  let ?r = "\<lparr>gh_flags = 0x32, gh_message_type = 2, gh_length = 4, gh_teid = 0, gh_seq_number = Some 0, gh_n_pdu = Some 0, gh_next_ext_hdr_type = Some 0\<rparr>"
  have racc: "gtpu_accepted ?r" "gtpu_optional_fields ?r"
    by (simp_all add: gtpu_accepted_def gtpu_supported_flags_check_def gtpu_supported_msg_type_check_def
        gtpu_optional_fields_def gtpu_flag_defs gtpu_msg_defs)
  have p: "bb_ok (bb_clear p)" "bb_msg (bb_clear p) = 1020" "bb_buffer (bb_clear p) = bb_buffer p" "bb_data (bb_clear p) = []" "bb_N_bytes (bb_clear p) = 0"
    using assms(3) by (simp_all add: bb_ok_def bb_clear_def BUFFER_HEADER_OFFSET_def bb_data_def)
  have room: "12 \<le> bb_msg (bb_clear p)" by (simp add: p(2))
  have seq: "gh_seq_number ?r = Some 0" by simp
  obtain b where b: "gtpu_write_header ?r (bb_clear p) = Some (True, ?r\<lparr>gh_n_pdu := Some 0\<rparr>, b)" "bb_ok b" "bb_msg b = bb_msg (bb_clear p) - 12"
    "bb_data b = gtpu_sequence_octets ?r 0 @ take 4 (drop (bb_msg (bb_clear p) - 4) (bb_buffer (bb_clear p))) @ bb_data (bb_clear p)"
    "unat (bb_N_bytes b) = 12 + unat (bb_N_bytes (bb_clear p))"
    by (rule gtpu_write_sequence [OF racc seq p(1) room])
  have "bb_data b = [0x32, 2, 0, 4, 0, 0, 0, 0] @ take 4 (drop 1016 (bb_buffer p))"
    unfolding b(4) by (simp add: p gtpu_sequence_octets_def gtpu_mandatory_def uint16_to_uint8_def uint32_to_uint8_def)
  moreover have "bb_octets b 12 = Some (bb_data b)" using bb_octets_data [OF b(2)] b(5) p(5) by simp
  ultimately have "echo_response p addr port (Some 0) = Some [S1u_sendto addr port ([0x32, 2, 0, 4, 0, 0, 0, 0] @ take 4 (drop 1016 (bb_buffer p)))]"
    using b(1) by (simp add: echo_response_def gtpu_flag_defs gtpu_msg_defs)
  then show ?thesis using h' by (simp add: handle_gtpu_s1u_rx_packet_def gtpu_msg_defs)
qed

theorem enb_echo_loses_sequence_witness:
  "handle_gtpu_s1u_rx_packet byte_buffer_new (received byte_buffer_new [0x32, 1, 0, 4, 0, 0, 0, 0, 0x12, 0x34, 0, 0]) 5 6 enb_gtpu_new =
    Some [S1u_sendto 5 6 [0x32, 2, 0, 4, 0, 0, 0, 0, 0, 0, 0, 0]]"
proof -
  have new: "length (bb_buffer byte_buffer_new) = MAX_BUFFER_SIZE_BYTES" by (simp add: byte_buffer_new_def)
  have len: "length ([0x32, 1, 0, 4, 0, 0, 0, 0, 0x12, 0x34, 0, 0] :: bytes) \<le> 12237" by simp
  have "take 4 (drop 1016 (bb_buffer byte_buffer_new)) = replicate 4 0" by (simp add: byte_buffer_new_def)
  then show ?thesis
    using enb_echo_loses_sequence [OF received(1,2) [OF new len] new, of 5 6 enb_gtpu_new] by (simp add: numeral_eq_Suc)
qed

text \<open>Without the sequence flag the response uses a field of the header that was never written.\<close>

lemma enb_echo_unwritten:
  assumes "bb_ok req" "bb_data req = [0x30, 1, 0, 0, 0, 0, 0, 0]"
  shows "handle_gtpu_s1u_rx_packet p req addr port g = None"
proof -
  let ?h = "\<lparr>gh_flags = 0x30, gh_message_type = 1, gh_length = 0, gh_teid = 0, gh_seq_number = None, gh_n_pdu = None, gh_next_ext_hdr_type = None\<rparr>"
  have acc: "gtpu_accepted ?h" "\<not> gtpu_optional_fields ?h"
    by (simp_all add: gtpu_accepted_def gtpu_supported_flags_check_def gtpu_supported_msg_type_check_def
        gtpu_optional_fields_def gtpu_flag_defs gtpu_msg_defs)
  have "bb_data req = gtpu_mandatory ?h @ []"
    by (simp add: assms(2) gtpu_mandatory_def uint16_to_uint8_def uint32_to_uint8_def)
  from gtpu_read_base [OF acc assms(1) this] show ?thesis
    by (simp add: handle_gtpu_s1u_rx_packet_def gtpu_msg_defs echo_response_def)
qed

end
