(* ===== verification/Spgw.thy ===== *)
theory Spgw
  imports Enb_Gtpu
begin

unbundle bit_operations_syntax

text \<open>
  The packet gateway of the core network: the user plane \<^verbatim>\<open>srsepc/src/spgw/gtpu.cc\<close>, the control
  plane \<^verbatim>\<open>srsepc/src/spgw/gtpc.cc\<close>, and the loop of \<^verbatim>\<open>spgw.cc\<close> that feeds them. \<open>None\<close> is undefined behaviour.

  A tunnel context is owned by the table of control TEIDs, so the pointers to it are keys of that table.
\<close>

section \<open>State\<close>

record gtp_fteid =
  ft_ipv4_present :: bool
  ft_teid :: u32
  ft_ipv4 :: u32

definition gtp_fteid_zero :: gtp_fteid where
  "gtp_fteid_zero = \<lparr>ft_ipv4_present = False, ft_teid = 0, ft_ipv4 = 0\<rparr>"

record spgw_tunnel_ctx =
  tc_imsi :: u64
  tc_ue_ipv4 :: u32
  tc_ebi :: u8
  tc_up_ctrl_fteid :: gtp_fteid
  tc_up_user_fteid :: gtp_fteid
  tc_dw_ctrl_fteid :: gtp_fteid
  tc_dw_user_fteid :: gtp_fteid
  tc_paging_pending :: bool
  tc_paging_queue :: "byte_buffer list"

record spgw =
  sp_s1u_addr :: u32
  sp_ip_to_usr_teid :: "(u32, gtp_fteid) std_map"
  sp_ip_to_ctr_teid :: "(u32, u32) std_map"
  sp_next_ctrl_teid :: u64
  sp_next_user_teid :: u64
  sp_max_paging_queue :: u32
  sp_imsi_to_ctr_teid :: "(u64, u32) std_map"
  sp_teid_to_tunnel_ctx :: "(u32, spgw_tunnel_ctx) std_map"
  sp_ue_ip_addr_pool :: "u32 list"
  sp_imsi_to_ip :: "(u64, u32) std_map"

definition spgw_new :: "u32 \<Rightarrow> spgw" where
  "spgw_new s1u_addr = \<lparr>sp_s1u_addr = s1u_addr, sp_ip_to_usr_teid = [], sp_ip_to_ctr_teid = [], sp_next_ctrl_teid = 1,
    sp_next_user_teid = 1, sp_max_paging_queue = 0, sp_imsi_to_ctr_teid = [], sp_teid_to_tunnel_ctx = [],
    sp_ue_ip_addr_pool = [], sp_imsi_to_ip = []\<rparr>"

section \<open>Messages\<close>

definition GTPC_CAUSE_VALUE_REQUEST_ACCEPTED :: u32 where "GTPC_CAUSE_VALUE_REQUEST_ACCEPTED = 16"
definition GTPC_CAUSE_VALUE_CONTEXT_NOT_FOUND :: u32 where "GTPC_CAUSE_VALUE_CONTEXT_NOT_FOUND = 64"
definition GTPC_CAUSE_VALUE_UNABLE_TO_PAGE_UE :: u32 where "GTPC_CAUSE_VALUE_UNABLE_TO_PAGE_UE = 90"
definition GTPC_CAUSE_VALUE_UNABLE_TO_PAGE_UE_DUE_TO_SUSPENSION :: u32 where
  "GTPC_CAUSE_VALUE_UNABLE_TO_PAGE_UE_DUE_TO_SUSPENSION = 102"
definition GTPC_CAUSE_VALUE_UE_ALREADY_RE_ATTACHED :: u32 where "GTPC_CAUSE_VALUE_UE_ALREADY_RE_ATTACHED = 115"

text \<open>The messages of the S11 interface that the gateway handles, with the fields it reads; the TEID is that of the header.\<close>

datatype s11_request =
    Create_session_request u64 gtp_fteid
  | Modify_bearer_request u32 gtp_fteid
  | Delete_session_request u32
  | Release_access_bearers_request u32
  | Downlink_data_notification_acknowledge u32 u32
  | Downlink_data_notification_failure_indication u32 u32
  | Other_gtpc_message u8

record create_session_response =
  cr_cause :: u32
  cr_sender_f_teid :: gtp_fteid
  cr_ebi :: u8
  cr_bearer_cause :: u32
  cr_s1_u_sgw_f_teid_present :: bool
  cr_s1_u_sgw_f_teid :: gtp_fteid
  cr_paa_present :: bool
  cr_paa_ipv4_present :: bool
  cr_paa_ipv4 :: u32

record modify_bearer_response =
  mr_cause :: u32
  mr_ebi :: u8
  mr_bearer_cause :: u32

record downlink_data_notification =
  dn_eps_bearer_id_present :: bool
  dn_eps_bearer_id :: u8

text \<open>The messages it sends, each with the TEID of its header.\<close>

datatype s11_message =
    Create_session_response u32 create_session_response
  | Modify_bearer_response u32 modify_bearer_response
  | Downlink_data_notification u32 downlink_data_notification

datatype spgw_event =
    S11_send s11_message
  | S1u_send u32 u16 bytes
  | Sgi_write bytes
  | Pool_deallocate byte_buffer

section \<open>Addresses\<close>

text \<open>\<open>inet_addr\<close> and \<open>inet_ntoa\<close> are those of the C library.\<close>

fun load_static_ips :: "(string \<Rightarrow> u32) \<Rightarrow> (string \<times> u64) list \<Rightarrow> (u64, u32) std_map \<Rightarrow> bool \<times> (u64, u32) std_map" where
  "load_static_ips inet_addr [] m = (True, m)"
| "load_static_ips inet_addr ((ip, imsi) # rest) m =
    (case map_insert imsi (inet_addr ip) m of
       (False, m) \<Rightarrow> (False, m)
     | (True, m) \<Rightarrow> load_static_ips inet_addr rest m)"

definition init_ue_ip ::
  "(string \<Rightarrow> u32) \<Rightarrow> (u32 \<Rightarrow> string) \<Rightarrow> string \<Rightarrow> (string, u64) std_map \<Rightarrow> spgw \<Rightarrow> bool \<times> spgw" where
  "init_ue_ip inet_addr inet_ntoa sgi_if_addr ip_to_imsi s =
    (if map_find sgi_if_addr ip_to_imsi \<noteq> None then (False, s)
     else case load_static_ips inet_addr ip_to_imsi (sp_imsi_to_ip s) of
       (False, m) \<Rightarrow> (False, s\<lparr>sp_imsi_to_ip := m\<rparr>)
     | (True, m) \<Rightarrow>
         (True, s\<lparr>sp_imsi_to_ip := m,
            sp_ue_ip_addr_pool := fold (\<lambda>n pool.
              let ue_addr = inet_addr sgi_if_addr + htonl (of_nat n)
              in if map_find (inet_ntoa ue_addr) ip_to_imsi \<noteq> None then pool else insort_insert ue_addr pool)
              [1..<254] (sp_ue_ip_addr_pool s)\<rparr>))"

text \<open>The part of \<open>gtpc::init\<close> that sets the state.\<close>

definition gtpc_init ::
  "(string \<Rightarrow> u32) \<Rightarrow> (u32 \<Rightarrow> string) \<Rightarrow> string \<Rightarrow> (string, u64) std_map \<Rightarrow> u32 \<Rightarrow> spgw \<Rightarrow> spgw option" where
  "gtpc_init inet_addr inet_ntoa sgi_if_addr ip_to_imsi max_paging_queue s =
    (case init_ue_ip inet_addr inet_ntoa sgi_if_addr ip_to_imsi s of
       (False, s) \<Rightarrow> None
     | (True, s) \<Rightarrow> Some (s\<lparr>sp_max_paging_queue := max_paging_queue\<rparr>))"

definition get_new_ue_ipv4 :: "u64 \<Rightarrow> spgw \<Rightarrow> u32 \<times> spgw" where
  "get_new_ue_ipv4 imsi s =
    (case map_find imsi (sp_imsi_to_ip s) of
       Some ip \<Rightarrow> (ip, s)
     | None \<Rightarrow> (case sp_ue_ip_addr_pool s of
                 [] \<Rightarrow> (0, s)
               | ip # pool \<Rightarrow> (ip, s\<lparr>sp_ue_ip_addr_pool := pool\<rparr>)))"

section \<open>The tunnels of the user plane\<close>

definition send_s1u_pdu :: "gtp_fteid \<Rightarrow> byte_buffer \<Rightarrow> spgw_event list option" where
  "send_s1u_pdu enb_fteid msg =
    (let header = \<lparr>gh_flags = GTPU_FLAGS_VERSION_V1 OR GTPU_FLAGS_GTP_PROTOCOL, gh_message_type = GTPU_MSG_DATA_PDU,
           gh_length = ucast (bb_N_bytes msg), gh_teid = ft_teid enb_fteid, gh_seq_number = None, gh_n_pdu = None,
           gh_next_ext_hdr_type = None\<rparr>
     in Option.bind (gtpu_write_header header msg) (\<lambda>(ok, header, msg).
          if \<not> ok then Some [Pool_deallocate msg]
          else map_option (\<lambda>x. [S1u_send (ft_ipv4 enb_fteid) (htons GTPU_PORT) x, Pool_deallocate msg])
                 (bb_octets msg (unat (bb_N_bytes msg)))))"

fun send_all_queued_packets :: "gtp_fteid \<Rightarrow> byte_buffer list \<Rightarrow> spgw_event list option" where
  "send_all_queued_packets fteid [] = Some []"
| "send_all_queued_packets fteid (msg # pkt_queue) =
    Option.bind (send_s1u_pdu fteid msg) (\<lambda>evs. map_option ((@) evs) (send_all_queued_packets fteid pkt_queue))"

definition modify_gtpu_tunnel :: "u32 \<Rightarrow> gtp_fteid \<Rightarrow> u32 \<Rightarrow> spgw \<Rightarrow> spgw" where
  "modify_gtpu_tunnel ue_ipv4 dw_user_fteid up_ctrl_teid s =
    s\<lparr>sp_ip_to_usr_teid := map_assign ue_ipv4 dw_user_fteid (sp_ip_to_usr_teid s),
      sp_ip_to_ctr_teid := map_assign ue_ipv4 up_ctrl_teid (sp_ip_to_ctr_teid s)\<rparr>"

definition delete_gtpu_tunnel :: "u32 \<Rightarrow> spgw \<Rightarrow> bool \<times> spgw" where
  "delete_gtpu_tunnel ue_ipv4 s =
    (if map_find ue_ipv4 (sp_ip_to_usr_teid s) \<noteq> None
     then (True, s\<lparr>sp_ip_to_usr_teid := map_erase ue_ipv4 (sp_ip_to_usr_teid s)\<rparr>) else (False, s))"

definition delete_gtpc_tunnel :: "u32 \<Rightarrow> spgw \<Rightarrow> bool \<times> spgw" where
  "delete_gtpc_tunnel ue_ipv4 s =
    (if map_find ue_ipv4 (sp_ip_to_ctr_teid s) \<noteq> None
     then (True, s\<lparr>sp_ip_to_ctr_teid := map_erase ue_ipv4 (sp_ip_to_ctr_teid s)\<rparr>) else (False, s))"

section \<open>Contexts\<close>

definition write_ctx :: "u32 \<Rightarrow> spgw_tunnel_ctx \<Rightarrow> spgw \<Rightarrow> spgw" where
  "write_ctx teid ctx s = s\<lparr>sp_teid_to_tunnel_ctx := map_write teid ctx (sp_teid_to_tunnel_ctx s)\<rparr>"

definition create_gtpc_ctx :: "u64 \<Rightarrow> gtp_fteid \<Rightarrow> spgw \<Rightarrow> spgw_tunnel_ctx \<times> spgw" where
  "create_gtpc_ctx imsi sender_f_teid s =
    (let ctrl_teid = sp_next_ctrl_teid s;
         user_teid = sp_next_user_teid s;
         s = s\<lparr>sp_next_ctrl_teid := ctrl_teid + 1, sp_next_user_teid := user_teid + 1\<rparr>;
         (ue_ip, s) = get_new_ue_ipv4 imsi s;
         ctx = \<lparr>tc_imsi = imsi, tc_ue_ipv4 = ue_ip, tc_ebi = 5,
                tc_up_ctrl_fteid = gtp_fteid_zero\<lparr>ft_teid := ucast ctrl_teid\<rparr>,
                tc_up_user_fteid = gtp_fteid_zero\<lparr>ft_teid := ucast user_teid, ft_ipv4 := sp_s1u_addr s\<rparr>,
                tc_dw_ctrl_fteid = gtp_fteid_zero\<lparr>ft_teid := ft_teid sender_f_teid, ft_ipv4 := ft_ipv4 sender_f_teid\<rparr>,
                tc_dw_user_fteid = gtp_fteid_zero, tc_paging_pending = False, tc_paging_queue = []\<rparr>
     in (ctx, s\<lparr>sp_teid_to_tunnel_ctx := snd (map_insert (ucast ctrl_teid) ctx (sp_teid_to_tunnel_ctx s)),
                sp_imsi_to_ctr_teid := snd (map_insert imsi (ucast ctrl_teid) (sp_imsi_to_ctr_teid s))\<rparr>))"

definition delete_gtpc_ctx :: "u32 \<Rightarrow> spgw \<Rightarrow> bool \<times> spgw" where
  "delete_gtpc_ctx ctrl_teid s =
    (case map_find ctrl_teid (sp_teid_to_tunnel_ctx s) of
       None \<Rightarrow> (False, s)
     | Some ctx \<Rightarrow>
         let s = snd (delete_gtpc_tunnel (tc_ue_ipv4 ctx) s)
         in (True, s\<lparr>sp_imsi_to_ctr_teid := map_erase (tc_imsi ctx) (sp_imsi_to_ctr_teid s),
                     sp_teid_to_tunnel_ctx := map_erase ctrl_teid (sp_teid_to_tunnel_ctx s)\<rparr>))"

text \<open>The paging queue.\<close>

definition queue_downlink_packet :: "u32 \<Rightarrow> byte_buffer \<Rightarrow> spgw \<Rightarrow> bool \<times> spgw \<times> spgw_event list" where
  "queue_downlink_packet ctrl_teid msg s =
    (case map_find ctrl_teid (sp_teid_to_tunnel_ctx s) of
       None \<Rightarrow> (False, s, [Pool_deallocate msg])
     | Some ctx \<Rightarrow>
         if \<not> tc_paging_pending ctx then (False, s, [Pool_deallocate msg])
         else if length (tc_paging_queue ctx) < unat (sp_max_paging_queue s)
         then (True, write_ctx ctrl_teid (ctx\<lparr>tc_paging_queue := tc_paging_queue ctx @ [msg]\<rparr>) s, [])
         else (False, s, [Pool_deallocate msg]))"

definition free_all_queued_packets :: "spgw_tunnel_ctx \<Rightarrow> spgw_tunnel_ctx \<times> spgw_event list" where
  "free_all_queued_packets ctx = (ctx\<lparr>tc_paging_queue := []\<rparr>, map Pool_deallocate (tc_paging_queue ctx))"

definition send_downlink_data_notification :: "u32 \<Rightarrow> spgw \<Rightarrow> bool \<times> spgw \<times> spgw_event list" where
  "send_downlink_data_notification ctrl_teid s =
    (case map_find ctrl_teid (sp_teid_to_tunnel_ctx s) of
       None \<Rightarrow> (False, s, [])
     | Some ctx \<Rightarrow>
         if tc_paging_pending ctx then (False, s, [])
         else (True, write_ctx ctrl_teid (ctx\<lparr>tc_paging_pending := True\<rparr>) s,
               [S11_send (Downlink_data_notification (ft_teid (tc_dw_ctrl_fteid ctx))
                  \<lparr>dn_eps_bearer_id_present = True, dn_eps_bearer_id = 5\<rparr>)]))"

section \<open>The control plane\<close>

definition handle_create_session_request :: "u64 \<Rightarrow> gtp_fteid \<Rightarrow> spgw \<Rightarrow> spgw \<times> spgw_event list" where
  "handle_create_session_request imsi sender_f_teid s =
    (let s = (case map_find imsi (sp_imsi_to_ctr_teid s) of None \<Rightarrow> s | Some t \<Rightarrow> snd (delete_gtpc_ctx t s));
         (ctx, s) = create_gtpc_ctx imsi sender_f_teid s
     in (s, [S11_send (Create_session_response (ft_teid (tc_dw_ctrl_fteid ctx))
          \<lparr>cr_cause = GTPC_CAUSE_VALUE_REQUEST_ACCEPTED, cr_sender_f_teid = tc_up_ctrl_fteid ctx, cr_ebi = 5,
           cr_bearer_cause = GTPC_CAUSE_VALUE_REQUEST_ACCEPTED, cr_s1_u_sgw_f_teid_present = True,
           cr_s1_u_sgw_f_teid = tc_up_user_fteid ctx, cr_paa_present = True, cr_paa_ipv4_present = True,
           cr_paa_ipv4 = tc_ue_ipv4 ctx\<rparr>)]))"

definition handle_modify_bearer_request :: "u32 \<Rightarrow> gtp_fteid \<Rightarrow> spgw \<Rightarrow> (spgw \<times> spgw_event list) option" where
  "handle_modify_bearer_request ctrl_teid s1_u_enb_f_teid s =
    (case map_find ctrl_teid (sp_teid_to_tunnel_ctx s) of
       None \<Rightarrow> Some (s, [])
     | Some ctx \<Rightarrow>
         let ctx = ctx\<lparr>tc_dw_user_fteid := (tc_dw_user_fteid ctx)\<lparr>ft_teid := ft_teid s1_u_enb_f_teid,
                                                                  ft_ipv4 := ft_ipv4 s1_u_enb_f_teid\<rparr>\<rparr>;
             s = modify_gtpu_tunnel (tc_ue_ipv4 ctx) (tc_dw_user_fteid ctx) (ft_teid (tc_up_ctrl_fteid ctx)) s
         in map_option (\<lambda>(ctx, evs).
              (write_ctx ctrl_teid ctx s,
               evs @ [S11_send (Modify_bearer_response (ft_teid (tc_dw_ctrl_fteid ctx))
                 \<lparr>mr_cause = GTPC_CAUSE_VALUE_REQUEST_ACCEPTED, mr_ebi = tc_ebi ctx,
                  mr_bearer_cause = GTPC_CAUSE_VALUE_REQUEST_ACCEPTED\<rparr>)]))
              (if tc_paging_pending ctx
               then map_option (Pair (ctx\<lparr>tc_paging_pending := False, tc_paging_queue := []\<rparr>))
                      (send_all_queued_packets (tc_dw_user_fteid ctx) (tc_paging_queue ctx))
               else Some (ctx, [])))"

definition handle_delete_session_request :: "u32 \<Rightarrow> spgw \<Rightarrow> spgw" where
  "handle_delete_session_request ctrl_teid s =
    (case map_find ctrl_teid (sp_teid_to_tunnel_ctx s) of
       None \<Rightarrow> s
     | Some ctx \<Rightarrow> snd (delete_gtpc_ctx ctrl_teid (snd (delete_gtpu_tunnel (tc_ue_ipv4 ctx) s))))"

definition handle_release_access_bearers_request :: "u32 \<Rightarrow> spgw \<Rightarrow> spgw" where
  "handle_release_access_bearers_request ctrl_teid s =
    (case map_find ctrl_teid (sp_teid_to_tunnel_ctx s) of
       None \<Rightarrow> s
     | Some ctx \<Rightarrow> snd (delete_gtpu_tunnel (tc_ue_ipv4 ctx) s))"

definition stop_paging :: "u32 \<Rightarrow> spgw_tunnel_ctx \<Rightarrow> spgw \<Rightarrow> spgw \<times> spgw_event list" where
  "stop_paging ctrl_teid ctx s =
    (let (ctx, evs) = free_all_queued_packets ctx
     in (write_ctx ctrl_teid (ctx\<lparr>tc_paging_pending := False\<rparr>) s, evs))"

definition handle_downlink_data_notification_acknowledge :: "u32 \<Rightarrow> u32 \<Rightarrow> spgw \<Rightarrow> spgw \<times> spgw_event list" where
  "handle_downlink_data_notification_acknowledge ctrl_teid cause s =
    (case map_find ctrl_teid (sp_teid_to_tunnel_ctx s) of
       None \<Rightarrow> (s, [])
     | Some ctx \<Rightarrow>
         if cause = GTPC_CAUSE_VALUE_CONTEXT_NOT_FOUND \<or> cause = GTPC_CAUSE_VALUE_UE_ALREADY_RE_ATTACHED \<or>
            cause = GTPC_CAUSE_VALUE_UNABLE_TO_PAGE_UE \<or> cause = GTPC_CAUSE_VALUE_UNABLE_TO_PAGE_UE_DUE_TO_SUSPENSION
         then stop_paging ctrl_teid ctx s
         else if cause \<noteq> GTPC_CAUSE_VALUE_REQUEST_ACCEPTED then stop_paging ctrl_teid ctx s
         else (s, []))"

definition handle_downlink_data_notification_failure_indication :: "u32 \<Rightarrow> u32 \<Rightarrow> spgw \<Rightarrow> spgw \<times> spgw_event list" where
  "handle_downlink_data_notification_failure_indication ctrl_teid cause s =
    (case map_find ctrl_teid (sp_teid_to_tunnel_ctx s) of
       None \<Rightarrow> (s, [])
     | Some ctx \<Rightarrow> stop_paging ctrl_teid ctx s)"

fun handle_s11_pdu :: "s11_request \<Rightarrow> spgw \<Rightarrow> (spgw \<times> spgw_event list) option" where
  "handle_s11_pdu (Create_session_request imsi sender) s = Some (handle_create_session_request imsi sender s)"
| "handle_s11_pdu (Modify_bearer_request teid enb) s = handle_modify_bearer_request teid enb s"
| "handle_s11_pdu (Delete_session_request teid) s = Some (handle_delete_session_request teid s, [])"
| "handle_s11_pdu (Release_access_bearers_request teid) s = Some (handle_release_access_bearers_request teid s, [])"
| "handle_s11_pdu (Downlink_data_notification_acknowledge teid cause) s =
    Some (handle_downlink_data_notification_acknowledge teid cause s)"
| "handle_s11_pdu (Downlink_data_notification_failure_indication teid cause) s =
    Some (handle_downlink_data_notification_failure_indication teid cause s)"
| "handle_s11_pdu (Other_gtpc_message type) s = Some (s, [])"

definition gtpc_stop :: "spgw \<Rightarrow> spgw" where
  "gtpc_stop s = s\<lparr>sp_teid_to_tunnel_ctx := []\<rparr>"

section \<open>Packets\<close>

text \<open>The fields of an IP header in the memory of a little-endian host.\<close>

definition iph_tot_len :: "byte_buffer \<Rightarrow> u16 option" where
  "iph_tot_len b = Option.bind (bb_get b 2) (\<lambda>x. map_option (uint8_to_uint16 x) (bb_get b 3))"

definition iph_daddr :: "byte_buffer \<Rightarrow> u32 option" where
  "iph_daddr b =
    Option.bind (bb_get b 16) (\<lambda>b0. Option.bind (bb_get b 17) (\<lambda>b1. Option.bind (bb_get b 18) (\<lambda>b2.
      map_option (\<lambda>b3. uint8_to_uint32 b3 b2 b1 b0) (bb_get b 19))))"

definition handle_sgi_pdu :: "byte_buffer \<Rightarrow> spgw \<Rightarrow> (spgw \<times> spgw_event list) option" where
  "handle_sgi_pdu msg s =
    Option.bind (ip_version msg) (\<lambda>version.
      if version \<noteq> 4 then Some (s, [])
      else Option.bind (iph_tot_len msg) (\<lambda>tot_len.
        if tot_len < 20 then Some (s, [])
        else Option.bind (iph_daddr msg) (\<lambda>daddr.
          let usr = map_find daddr (sp_ip_to_usr_teid s); ctr = map_find daddr (sp_ip_to_ctr_teid s)
          in case usr of
               None \<Rightarrow> (case ctr of
                   None \<Rightarrow> Some (s, [Pool_deallocate msg])
                 | Some spgw_teid \<Rightarrow>
                     let (_, s, evs) = send_downlink_data_notification spgw_teid s;
                         (_, s, evs') = queue_downlink_packet spgw_teid msg s
                     in Some (s, evs @ evs'))
             | Some enb_fteid \<Rightarrow> map_option (Pair s) (send_s1u_pdu enb_fteid msg))))"

definition handle_s1u_pdu :: "byte_buffer \<Rightarrow> spgw_event list option" where
  "handle_s1u_pdu msg =
    Option.bind (gtpu_read_header msg) (\<lambda>(_, msg, header).
      map_option (\<lambda>x. [Sgi_write x]) (bb_octets msg (unat (bb_N_bytes msg))))"

text \<open>What the thread of the gateway reads from its three sockets.\<close>

datatype spgw_input = Sgi byte_buffer | S1u byte_buffer | S11 s11_request

fun spgw_step :: "spgw_input \<Rightarrow> spgw \<Rightarrow> (spgw \<times> spgw_event list) option" where
  "spgw_step (Sgi msg) s = handle_sgi_pdu msg s"
| "spgw_step (S1u msg) s = map_option (Pair s) (handle_s1u_pdu msg)"
| "spgw_step (S11 req) s = handle_s11_pdu req s"

fun spgw_run :: "spgw_input list \<Rightarrow> spgw \<Rightarrow> (spgw \<times> spgw_event list) option" where
  "spgw_run [] s = Some (s, [])"
| "spgw_run (i # is) s =
    Option.bind (spgw_step i s) (\<lambda>(s, evs). map_option (\<lambda>(s, evs'). (s, evs @ evs')) (spgw_run is s))"

end
