(* ===== verification/Spgw_Session.thy ===== *)
theory Spgw_Session
  imports Spgw
begin

unbundle bit_operations_syntax

text \<open>
  The sessions of the packet gateway: the invariant of its tables under every message, and where the packet buffers go.
\<close>

section \<open>Well-formed states\<close>

definition ctx_ok :: "spgw \<Rightarrow> u32 \<Rightarrow> spgw_tunnel_ctx \<Rightarrow> bool" where
  "ctx_ok s t c \<longleftrightarrow> ft_teid (tc_up_ctrl_fteid c) = t \<and> map_find (tc_imsi c) (sp_imsi_to_ctr_teid s) = Some t \<and>
    unat t < unat (sp_next_ctrl_teid s) \<and>
    length (tc_paging_queue c) \<le> unat (sp_max_paging_queue s) \<and> (tc_paging_queue c \<noteq> [] \<longrightarrow> tc_paging_pending c) \<and>
    (\<forall>m \<in> set (tc_paging_queue c). bb_ok m)"

text \<open>
  Every subscriber has at most one session, the three indexes lead to it, and packets wait only while a page is pending
  and never more than the configured number.
\<close>

definition spgw_inv :: "spgw \<Rightarrow> bool" where
  "spgw_inv s \<longleftrightarrow> map_ok (sp_ip_to_usr_teid s) \<and> map_ok (sp_ip_to_ctr_teid s) \<and> map_ok (sp_imsi_to_ctr_teid s) \<and>
    map_ok (sp_teid_to_tunnel_ctx s) \<and>
    (\<forall>t c. map_find t (sp_teid_to_tunnel_ctx s) = Some c \<longrightarrow> ctx_ok s t c) \<and>
    (\<forall>imsi t. map_find imsi (sp_imsi_to_ctr_teid s) = Some t \<longrightarrow>
      (\<exists>c. map_find t (sp_teid_to_tunnel_ctx s) = Some c \<and> tc_imsi c = imsi)) \<and>
    (\<forall>ip t. map_find ip (sp_ip_to_ctr_teid s) = Some t \<longrightarrow>
      (\<exists>c. map_find t (sp_teid_to_tunnel_ctx s) = Some c \<and> tc_ue_ipv4 c = ip))"

lemma spgw_invD:
  assumes "spgw_inv s"
  shows "map_ok (sp_ip_to_usr_teid s)" "map_ok (sp_ip_to_ctr_teid s)" "map_ok (sp_imsi_to_ctr_teid s)"
    "map_ok (sp_teid_to_tunnel_ctx s)"
    "\<And>t c. map_find t (sp_teid_to_tunnel_ctx s) = Some c \<Longrightarrow> ctx_ok s t c"
    "\<And>imsi t. map_find imsi (sp_imsi_to_ctr_teid s) = Some t \<Longrightarrow>
      \<exists>c. map_find t (sp_teid_to_tunnel_ctx s) = Some c \<and> tc_imsi c = imsi"
    "\<And>ip t. map_find ip (sp_ip_to_ctr_teid s) = Some t \<Longrightarrow>
      \<exists>c. map_find t (sp_teid_to_tunnel_ctx s) = Some c \<and> tc_ue_ipv4 c = ip"
  using assms unfolding spgw_inv_def by blast+

lemma spgw_invI:
  assumes "map_ok (sp_ip_to_usr_teid s)" "map_ok (sp_ip_to_ctr_teid s)" "map_ok (sp_imsi_to_ctr_teid s)"
    "map_ok (sp_teid_to_tunnel_ctx s)"
    "\<And>t c. map_find t (sp_teid_to_tunnel_ctx s) = Some c \<Longrightarrow> ctx_ok s t c"
    "\<And>imsi t. map_find imsi (sp_imsi_to_ctr_teid s) = Some t \<Longrightarrow>
      \<exists>c. map_find t (sp_teid_to_tunnel_ctx s) = Some c \<and> tc_imsi c = imsi"
    "\<And>ip t. map_find ip (sp_ip_to_ctr_teid s) = Some t \<Longrightarrow>
      \<exists>c. map_find t (sp_teid_to_tunnel_ctx s) = Some c \<and> tc_ue_ipv4 c = ip"
  shows "spgw_inv s"
  unfolding spgw_inv_def using assms by blast

lemma spgw_inv_new: "spgw_inv (spgw_new a)"
  by (simp add: spgw_inv_def spgw_new_def)

section \<open>Contexts\<close>

lemma find_write_ctx:
  "map_find t' (sp_teid_to_tunnel_ctx (write_ctx t c s))
    = (if t' = t \<and> map_find t (sp_teid_to_tunnel_ctx s) \<noteq> None then Some c else map_find t' (sp_teid_to_tunnel_ctx s))"
  by (simp add: write_ctx_def map_find_write)

lemma write_ctx_simps [simp]:
  "sp_ip_to_usr_teid (write_ctx t c s) = sp_ip_to_usr_teid s" "sp_ip_to_ctr_teid (write_ctx t c s) = sp_ip_to_ctr_teid s"
  "sp_imsi_to_ctr_teid (write_ctx t c s) = sp_imsi_to_ctr_teid s" "sp_max_paging_queue (write_ctx t c s) = sp_max_paging_queue s"
  "sp_next_ctrl_teid (write_ctx t c s) = sp_next_ctrl_teid s" "sp_ue_ip_addr_pool (write_ctx t c s) = sp_ue_ip_addr_pool s"
  "sp_imsi_to_ip (write_ctx t c s) = sp_imsi_to_ip s"
  by (simp_all add: write_ctx_def)

lemma write_ctx_inv:
  assumes inv: "spgw_inv s" and c: "map_find t (sp_teid_to_tunnel_ctx s) = Some c"
    and same: "tc_imsi c' = tc_imsi c" "tc_ue_ipv4 c' = tc_ue_ipv4 c"
    and ok: "ctx_ok s t c'"
  shows "spgw_inv (write_ctx t c' s)"
proof -
  note d = spgw_invD [OF inv]
  let ?s = "write_ctx t c' s"
  have ctx: "map_find t' (sp_teid_to_tunnel_ctx ?s) = Some x \<Longrightarrow> ctx_ok ?s t' x" for t' x
    using d(5) [of t'] ok c by (auto simp: find_write_ctx ctx_ok_def split: if_splits)
  have imsi: "\<exists>x. map_find t' (sp_teid_to_tunnel_ctx ?s) = Some x \<and> tc_imsi x = i"
    if "map_find i (sp_imsi_to_ctr_teid ?s) = Some t'" for i t'
    using d(6) [of i t'] that c same by (auto simp: find_write_ctx)
  have ip: "\<exists>x. map_find t' (sp_teid_to_tunnel_ctx ?s) = Some x \<and> tc_ue_ipv4 x = i"
    if "map_find i (sp_ip_to_ctr_teid ?s) = Some t'" for i t'
    using d(7) [of i t'] that c same by (auto simp: find_write_ctx)
  have "map_ok (sp_teid_to_tunnel_ctx ?s)" using d(4) by (simp add: write_ctx_def map_write_ok)
  then show ?thesis using d(1-3) by (intro spgw_invI ctx imsi ip) simp_all
qed

lemma delete_gtpu_tunnel_inv: "spgw_inv s \<Longrightarrow> spgw_inv (snd (delete_gtpu_tunnel ip s))"
  by (simp add: spgw_inv_def delete_gtpu_tunnel_def ctx_ok_def map_erase_ok)

lemma modify_gtpu_tunnel_inv:
  assumes "spgw_inv s" "map_find t (sp_teid_to_tunnel_ctx s) = Some c"
  shows "spgw_inv (modify_gtpu_tunnel (tc_ue_ipv4 c) f t s)"
  using assms by (auto simp: spgw_inv_def modify_gtpu_tunnel_def ctx_ok_def map_find_assign map_assign_ok)

lemma delete_gtpc_ctx_inv:
  assumes inv: "spgw_inv s"
  shows "spgw_inv (snd (delete_gtpc_ctx t s))"
proof (cases "map_find t (sp_teid_to_tunnel_ctx s)")
  case None
  then show ?thesis using inv by (simp add: delete_gtpc_ctx_def)
next
  case (Some c)
  note d = spgw_invD [OF inv]
  have own: "map_find (tc_imsi c) (sp_imsi_to_ctr_teid s) = Some t" using d(5) [OF Some] by (simp add: ctx_ok_def)
  define s' where "s' = snd (delete_gtpc_ctx t s)"
  have ok: "map_ok (sp_ip_to_usr_teid s')" "map_ok (sp_ip_to_ctr_teid s')" "map_ok (sp_imsi_to_ctr_teid s')"
    "map_ok (sp_teid_to_tunnel_ctx s')"
    using d(1-4) Some by (auto simp: s'_def delete_gtpc_ctx_def delete_gtpc_tunnel_def Let_def map_erase_ok)
  have find: "map_find t' (sp_teid_to_tunnel_ctx s') = (if t' = t then None else map_find t' (sp_teid_to_tunnel_ctx s))"
    "map_find i (sp_imsi_to_ctr_teid s') = (if i = tc_imsi c then None else map_find i (sp_imsi_to_ctr_teid s))"
    "map_find ip (sp_ip_to_ctr_teid s') = (if ip = tc_ue_ipv4 c then None else map_find ip (sp_ip_to_ctr_teid s))" for t' i ip
    using d(2-4) Some by (auto simp: s'_def delete_gtpc_ctx_def delete_gtpc_tunnel_def Let_def map_find_erase)
  have rest: "sp_next_ctrl_teid s' = sp_next_ctrl_teid s" "sp_max_paging_queue s' = sp_max_paging_queue s"
    using Some by (simp_all add: s'_def delete_gtpc_ctx_def delete_gtpc_tunnel_def Let_def)
  have ctx: "ctx_ok s' t' x" if x: "map_find t' (sp_teid_to_tunnel_ctx s') = Some x" for t' x
  proof -
    have x': "map_find t' (sp_teid_to_tunnel_ctx s) = Some x" "t' \<noteq> t" using x by (auto simp: find split: if_splits)
    then have "tc_imsi x \<noteq> tc_imsi c" using d(5) [OF x'(1)] own by (auto simp: ctx_ok_def)
    then show ?thesis using d(5) [OF x'(1)] by (simp add: ctx_ok_def find rest)
  qed
  have imsi: "\<exists>x. map_find t' (sp_teid_to_tunnel_ctx s') = Some x \<and> tc_imsi x = i"
    if "map_find i (sp_imsi_to_ctr_teid s') = Some t'" for i t'
    using d(6) [of i t'] that Some by (auto simp: find split: if_splits)
  have ip: "\<exists>x. map_find t' (sp_teid_to_tunnel_ctx s') = Some x \<and> tc_ue_ipv4 x = i"
    if "map_find i (sp_ip_to_ctr_teid s') = Some t'" for i t'
    using d(7) [of i t'] that Some by (auto simp: find split: if_splits)
  show ?thesis unfolding s'_def [symmetric] by (intro spgw_invI ok ctx imsi ip)
qed

lemma delete_gtpc_ctx_next [simp]: "sp_next_ctrl_teid (snd (delete_gtpc_ctx t s)) = sp_next_ctrl_teid s"
  by (simp add: delete_gtpc_ctx_def delete_gtpc_tunnel_def Let_def split: option.split)

lemma delete_gtpc_ctx_imsi:
  assumes "spgw_inv s" "map_find t (sp_teid_to_tunnel_ctx s) = Some c"
  shows "map_find (tc_imsi c) (sp_imsi_to_ctr_teid (snd (delete_gtpc_ctx t s))) = None"
  using assms spgw_invD(3) [OF assms(1)] by (simp add: delete_gtpc_ctx_def delete_gtpc_tunnel_def Let_def map_find_erase)

lemma create_gtpc_ctx_inv:
  assumes inv: "spgw_inv s" and new: "map_find imsi (sp_imsi_to_ctr_teid s) = None"
    and n: "unat (sp_next_ctrl_teid s) + 1 < 2 ^ 32"
  shows "spgw_inv (snd (create_gtpc_ctx imsi f s))"
    "unat (sp_next_ctrl_teid (snd (create_gtpc_ctx imsi f s))) = unat (sp_next_ctrl_teid s) + 1"
proof -
  note d = spgw_invD [OF inv]
  define t where "t = (ucast (sp_next_ctrl_teid s) :: u32)"
  have t: "unat t = unat (sp_next_ctrl_teid s)" "unat (sp_next_ctrl_teid s + 1) = unat (sp_next_ctrl_teid s) + 1"
    using n by (simp_all add: t_def unsigned_ucast_eq take_bit_nat_eq_self unat_word_ariths)
  define c where "c = fst (create_gtpc_ctx imsi f s)"
  define s' where "s' = snd (create_gtpc_ctx imsi f s)"
  have c: "ft_teid (tc_up_ctrl_fteid c) = t" "tc_imsi c = imsi" "tc_paging_queue c = []"
    by (simp_all add: c_def create_gtpc_ctx_def Let_def t_def split_beta)
  have s': "sp_ip_to_usr_teid s' = sp_ip_to_usr_teid s" "sp_ip_to_ctr_teid s' = sp_ip_to_ctr_teid s"
    "sp_max_paging_queue s' = sp_max_paging_queue s" "sp_next_ctrl_teid s' = sp_next_ctrl_teid s + 1"
    "sp_imsi_to_ctr_teid s' = snd (map_insert imsi t (sp_imsi_to_ctr_teid s))"
    "sp_teid_to_tunnel_ctx s' = snd (map_insert t c (sp_teid_to_tunnel_ctx s))"
    by (simp_all add: s'_def c_def create_gtpc_ctx_def Let_def t_def get_new_ue_ipv4_def split_beta split: option.split list.split)
  have fresh: "map_find t (sp_teid_to_tunnel_ctx s) = None"
    using d(5) [of t] t(1) by (cases "map_find t (sp_teid_to_tunnel_ctx s)") (auto simp: ctx_ok_def)
  have find: "map_find t' (sp_teid_to_tunnel_ctx s') = (if t' = t then Some c else map_find t' (sp_teid_to_tunnel_ctx s))"
    "map_find i (sp_imsi_to_ctr_teid s') = (if i = imsi then Some t else map_find i (sp_imsi_to_ctr_teid s))" for t' i
    using d(3,4) fresh new by (simp_all add: s' map_find_insert)
  have ok: "map_ok (sp_ip_to_usr_teid s')" "map_ok (sp_ip_to_ctr_teid s')" "map_ok (sp_imsi_to_ctr_teid s')"
    "map_ok (sp_teid_to_tunnel_ctx s')"
    using d(1-4) by (simp_all add: s' map_insert_ok)
  have nxt: "unat (sp_next_ctrl_teid s') = unat (sp_next_ctrl_teid s) + 1" using t(2) by (simp add: s')
  have ctx: "ctx_ok s' t' x" if "map_find t' (sp_teid_to_tunnel_ctx s') = Some x" for t' x
  proof (cases "t' = t")
    case True
    then show ?thesis using that c t(1) nxt by (simp add: find ctx_ok_def s'(3))
  next
    case False
    then have x: "ctx_ok s t' x" using that d(5) by (simp add: find)
    then have "tc_imsi x \<noteq> imsi" using new by (auto simp: ctx_ok_def)
    then show ?thesis using x nxt by (simp add: ctx_ok_def find s'(3))
  qed
  have imsi: "\<exists>x. map_find t' (sp_teid_to_tunnel_ctx s') = Some x \<and> tc_imsi x = i"
    if "map_find i (sp_imsi_to_ctr_teid s') = Some t'" for i t'
    using d(6) [of i t'] that c(2) fresh by (auto simp: find split: if_splits)
  have ip: "\<exists>x. map_find t' (sp_teid_to_tunnel_ctx s') = Some x \<and> tc_ue_ipv4 x = i"
    if "map_find i (sp_ip_to_ctr_teid s') = Some t'" for i t'
    using d(7) [of i t'] that fresh by (auto simp: find s'(2))
  show "spgw_inv (snd (create_gtpc_ctx imsi f s))"
    unfolding s'_def [symmetric] by (intro spgw_invI ok ctx imsi ip)
  show "unat (sp_next_ctrl_teid (snd (create_gtpc_ctx imsi f s))) = unat (sp_next_ctrl_teid s) + 1"
    using nxt by (simp add: s'_def)
qed

lemma handle_create_session_inv:
  assumes inv: "spgw_inv s" and n: "unat (sp_next_ctrl_teid s) + 1 < 2 ^ 32"
  shows "spgw_inv (fst (handle_create_session_request imsi f s))"
    "unat (sp_next_ctrl_teid (fst (handle_create_session_request imsi f s))) = unat (sp_next_ctrl_teid s) + 1"
proof -
  define s1 where "s1 = (case map_find imsi (sp_imsi_to_ctr_teid s) of None \<Rightarrow> s | Some t \<Rightarrow> snd (delete_gtpc_ctx t s))"
  have s1: "spgw_inv s1" "sp_next_ctrl_teid s1 = sp_next_ctrl_teid s"
    using inv delete_gtpc_ctx_inv [OF inv] by (simp_all add: s1_def split: option.split)
  have none: "map_find imsi (sp_imsi_to_ctr_teid s1) = None"
  proof (cases "map_find imsi (sp_imsi_to_ctr_teid s)")
    case (Some t)
    then obtain c where "map_find t (sp_teid_to_tunnel_ctx s) = Some c" "tc_imsi c = imsi" using spgw_invD(6) [OF inv] by blast
    then show ?thesis using delete_gtpc_ctx_imsi [OF inv] Some by (auto simp: s1_def)
  qed (simp add: s1_def)
  have "fst (handle_create_session_request imsi f s) = snd (create_gtpc_ctx imsi f s1)"
    by (simp add: handle_create_session_request_def s1_def split_beta Let_def)
  then show "spgw_inv (fst (handle_create_session_request imsi f s))"
    "unat (sp_next_ctrl_teid (fst (handle_create_session_request imsi f s))) = unat (sp_next_ctrl_teid s) + 1"
    using create_gtpc_ctx_inv [OF s1(1) none] n s1(2) by simp_all
qed

section \<open>Packets\<close>

text \<open>The IPv4 packets that the gateway looks up, and their destination.\<close>

definition v4_packet :: "bytes \<Rightarrow> bool" where
  "v4_packet xs \<longleftrightarrow> drop_bit 4 (xs ! 0) = 4 \<and> \<not> uint8_to_uint16 (xs ! 2) (xs ! 3) < 20"

definition ip_dest :: "bytes \<Rightarrow> u32" where
  "ip_dest xs = uint8_to_uint32 (xs ! 19) (xs ! 18) (xs ! 17) (xs ! 16)"

text \<open>A packet as it comes in: at least a header, in a buffer with room in front.\<close>

definition sgi_packet :: "byte_buffer \<Rightarrow> bool" where
  "sgi_packet m \<longleftrightarrow> bb_ok m \<and> 20 \<le> length (bb_data m)"

lemma sgi_fields:
  assumes "sgi_packet m"
  shows "ip_version m = Some (drop_bit 4 (bb_data m ! 0))" "iph_tot_len m = Some (uint8_to_uint16 (bb_data m ! 2) (bb_data m ! 3))"
    "iph_daddr m = Some (ip_dest (bb_data m))"
proof -
  have "bb_get m i = Some (bb_data m ! i)" if "i < 20" for i
    using assms that by (intro bb_get_data) (auto simp: sgi_packet_def length_bb_data)
  then show "ip_version m = Some (drop_bit 4 (bb_data m ! 0))" "iph_tot_len m = Some (uint8_to_uint16 (bb_data m ! 2) (bb_data m ! 3))"
    "iph_daddr m = Some (ip_dest (bb_data m))"
    by (simp_all add: ip_version_def iph_tot_len_def iph_daddr_def ip_dest_def)
qed

lemma handle_sgi_pdu_cases:
  assumes "sgi_packet m"
  shows "handle_sgi_pdu m s =
    (if \<not> v4_packet (bb_data m) then Some (s, [])
     else case map_find (ip_dest (bb_data m)) (sp_ip_to_usr_teid s) of
            Some f \<Rightarrow> map_option (Pair s) (send_s1u_pdu f m)
          | None \<Rightarrow> (case map_find (ip_dest (bb_data m)) (sp_ip_to_ctr_teid s) of
                None \<Rightarrow> Some (s, [Pool_deallocate m])
              | Some t \<Rightarrow>
                  let (_, s, evs) = send_downlink_data_notification t s; (_, s, evs') = queue_downlink_packet t m s
                  in Some (s, evs @ evs')))"
  by (simp add: handle_sgi_pdu_def sgi_fields [OF assms] v4_packet_def)

lemma send_s1u_pdu_sends:
  assumes "bb_ok m"
  obtains m' where "send_s1u_pdu f m = Some (if 8 \<le> bb_msg m
      then [S1u_send (ft_ipv4 f) (htons GTPU_PORT) (g_pdu (ft_teid f) (bb_data m)), Pool_deallocate m'] else [Pool_deallocate m'])"
proof -
  let ?h = "data_header (ft_teid f) (length (bb_data m))"
  have h: "\<lparr>gh_flags = GTPU_FLAGS_VERSION_V1 OR GTPU_FLAGS_GTP_PROTOCOL, gh_message_type = GTPU_MSG_DATA_PDU,
      gh_length = ucast (bb_N_bytes m), gh_teid = ft_teid f, gh_seq_number = None, gh_n_pdu = None,
      gh_next_ext_hdr_type = None\<rparr> = ?h"
    using data_header_length [OF assms] by (simp add: data_header_def)
  show thesis
  proof (cases "8 \<le> bb_msg m")
    case True
    obtain b' where b': "gtpu_write_header ?h m = Some (True, ?h, b')" "bb_ok b'" "bb_msg b' = bb_msg m - 8"
      "bb_data b' = gtpu_mandatory ?h @ bb_data m" "unat (bb_N_bytes b') = 8 + unat (bb_N_bytes m)"
      by (rule gtpu_write_base [OF data_header_ok assms True])
    show thesis
      using True b'(1,4) bb_octets_data [OF b'(2)] by (intro that [of b']) (simp add: send_s1u_pdu_def h Let_def g_pdu_def)
  next
    case False
    then have "gtpu_write_header ?h m = Some (False, ?h, m)" using gtpu_write_no_room [OF assms] by simp
    then show thesis using False by (intro that [of m]) (simp add: send_s1u_pdu_def h Let_def)
  qed
qed

lemma send_all_sends:
  assumes "\<forall>m \<in> set ms. bb_ok m"
  shows "\<exists>evs. send_all_queued_packets f ms = Some evs"
  using assms
proof (induction ms)
  case (Cons m ms)
  then show ?case by (auto intro: send_s1u_pdu_sends [of m f])
qed simp

lemma page_and_queue:
  assumes inv: "spgw_inv s" and c: "map_find t (sp_teid_to_tunnel_ctx s) = Some c" and m: "bb_ok m"
  defines "room \<equiv> length (tc_paging_queue c) < unat (sp_max_paging_queue s)"
  defines "c' \<equiv> c\<lparr>tc_paging_pending := True, tc_paging_queue := tc_paging_queue c @ (if room then [m] else [])\<rparr>"
  obtains s' where "(let (_, s, evs) = send_downlink_data_notification t s; (_, s, evs') = queue_downlink_packet t m s
      in Some (s, evs @ evs')) = Some (s',
        (if tc_paging_pending c then [] else [S11_send (Downlink_data_notification (ft_teid (tc_dw_ctrl_fteid c))
           \<lparr>dn_eps_bearer_id_present = True, dn_eps_bearer_id = 5\<rparr>)]) @ (if room then [] else [Pool_deallocate m]))"
    "s' = write_ctx t c' s" "spgw_inv s'"
proof -
  have ok: "ctx_ok s t c" using spgw_invD(5) [OF inv c] .
  have c': "ctx_ok s t c'" using ok m by (simp add: ctx_ok_def c'_def room_def)
  have inv': "spgw_inv (write_ctx t c' s)" by (rule write_ctx_inv [OF inv c _ _ c']) (simp_all add: c'_def)
  define s1 where "s1 = fst (snd (send_downlink_data_notification t s))"
  have twice: "write_ctx t y (write_ctx t x s) = write_ctx t y s" for x y
  proof -
    have "map_write t y (map_write t x k) = map_write t y k" for k by (induction k) auto
    then show ?thesis by (simp add: write_ctx_def)
  qed
  have same: "write_ctx t c s = s"
  proof -
    have "map_find t k = Some c \<Longrightarrow> map_write t c k = k" for k by (induction k) (auto split: if_splits)
    then show ?thesis using c by (simp add: write_ctx_def)
  qed
  let ?c1 = "c\<lparr>tc_paging_pending := True\<rparr>"
  have s1: "send_downlink_data_notification t s = (\<not> tc_paging_pending c, write_ctx t ?c1 s,
      if tc_paging_pending c then [] else [S11_send (Downlink_data_notification (ft_teid (tc_dw_ctrl_fteid c))
           \<lparr>dn_eps_bearer_id_present = True, dn_eps_bearer_id = 5\<rparr>)])"
  proof (cases "tc_paging_pending c")
    case True
    then have c1: "?c1 = c" by simp
    show ?thesis unfolding c1 using True c same by (simp add: send_downlink_data_notification_def)
  qed (simp add: send_downlink_data_notification_def c)
  have q: "queue_downlink_packet t m (write_ctx t ?c1 s) = (room, write_ctx t c' s, if room then [] else [Pool_deallocate m])"
    using c by (simp add: queue_downlink_packet_def find_write_ctx twice c'_def room_def)
  show thesis by (rule that [OF _ refl inv']) (simp add: s1 q)
qed

section \<open>Every message keeps the state well-formed\<close>

lemma stop_paging_inv:
  assumes "spgw_inv s" "map_find t (sp_teid_to_tunnel_ctx s) = Some c"
  shows "spgw_inv (fst (stop_paging t c s))"
  using write_ctx_inv [OF assms, of "c\<lparr>tc_paging_queue := [], tc_paging_pending := False\<rparr>"] spgw_invD(5) [OF assms]
  by (simp add: stop_paging_def free_all_queued_packets_def ctx_ok_def)

lemma modify_gtpu_simps [simp]:
  "sp_teid_to_tunnel_ctx (modify_gtpu_tunnel ip f t s) = sp_teid_to_tunnel_ctx s"
  "sp_imsi_to_ctr_teid (modify_gtpu_tunnel ip f t s) = sp_imsi_to_ctr_teid s"
  "sp_next_ctrl_teid (modify_gtpu_tunnel ip f t s) = sp_next_ctrl_teid s"
  "sp_max_paging_queue (modify_gtpu_tunnel ip f t s) = sp_max_paging_queue s"
  by (simp_all add: modify_gtpu_tunnel_def)

text \<open>What a Modify Bearer Request does to a session.\<close>

definition enb_tunnel :: "gtp_fteid \<Rightarrow> spgw_tunnel_ctx \<Rightarrow> gtp_fteid" where
  "enb_tunnel f c = (tc_dw_user_fteid c)\<lparr>ft_teid := ft_teid f, ft_ipv4 := ft_ipv4 f\<rparr>"

lemma handle_modify_bearer:
  assumes inv: "spgw_inv s" and c: "map_find t (sp_teid_to_tunnel_ctx s) = Some c"
  obtains s' evs where "handle_modify_bearer_request t f s = Some (s', evs @ [S11_send (Modify_bearer_response (ft_teid (tc_dw_ctrl_fteid c))
      \<lparr>mr_cause = GTPC_CAUSE_VALUE_REQUEST_ACCEPTED, mr_ebi = tc_ebi c, mr_bearer_cause = GTPC_CAUSE_VALUE_REQUEST_ACCEPTED\<rparr>)])"
    "send_all_queued_packets (enb_tunnel f c) (tc_paging_queue c) = Some evs" "spgw_inv s'"
    "s' = write_ctx t (c\<lparr>tc_dw_user_fteid := enb_tunnel f c, tc_paging_pending := False, tc_paging_queue := []\<rparr>)
      (modify_gtpu_tunnel (tc_ue_ipv4 c) (enb_tunnel f c) t s)"
proof -
  have ok: "ctx_ok s t c" using spgw_invD(5) [OF inv c] .
  let ?s1 = "modify_gtpu_tunnel (tc_ue_ipv4 c) (enb_tunnel f c) t s"
  let ?c2 = "c\<lparr>tc_dw_user_fteid := enb_tunnel f c, tc_paging_pending := False, tc_paging_queue := []\<rparr>"
  obtain evs where evs: "send_all_queued_packets (enb_tunnel f c) (tc_paging_queue c) = Some evs"
    using send_all_sends [of "tc_paging_queue c" "enb_tunnel f c"] ok by (auto simp: ctx_ok_def)
  have inv1: "spgw_inv ?s1" using modify_gtpu_tunnel_inv [OF inv c] .
  have "ctx_ok ?s1 t ?c2" using ok by (simp add: ctx_ok_def)
  then have inv2: "spgw_inv (write_ctx t ?c2 ?s1)"
    by (intro write_ctx_inv [OF inv1]) (use c in simp_all)
  have up: "ft_teid (tc_up_ctrl_fteid c) = t" using ok by (simp add: ctx_ok_def)
  have tun: "(tc_dw_user_fteid c)\<lparr>ft_teid := ft_teid f, ft_ipv4 := ft_ipv4 f\<rparr> = enb_tunnel f c" by (simp add: enb_tunnel_def)
  have "handle_modify_bearer_request t f s = Some (write_ctx t ?c2 ?s1, evs @ [S11_send (Modify_bearer_response (ft_teid (tc_dw_ctrl_fteid c))
      \<lparr>mr_cause = GTPC_CAUSE_VALUE_REQUEST_ACCEPTED, mr_ebi = tc_ebi c, mr_bearer_cause = GTPC_CAUSE_VALUE_REQUEST_ACCEPTED\<rparr>)])"
  proof (cases "tc_paging_pending c")
    case True
    then show ?thesis using c evs by (simp add: handle_modify_bearer_request_def Let_def tun up)
  next
    case False
    then have q: "tc_paging_queue c = []" using ok by (auto simp: ctx_ok_def)
    then have c2: "?c2 = c\<lparr>tc_dw_user_fteid := enb_tunnel f c\<rparr>" using False by simp
    show ?thesis unfolding c2 using c evs False q by (simp add: handle_modify_bearer_request_def Let_def tun up)
  qed
  then show thesis by (rule that [OF _ evs inv2 refl])
qed

text \<open>The inputs a peer and the kernel can produce, and how many sessions they open.\<close>

definition input_ok :: "spgw_input \<Rightarrow> bool" where
  "input_ok i = (case i of Sgi m \<Rightarrow> sgi_packet m | S1u m \<Rightarrow> bb_ok m \<and> 12 \<le> length (bb_data m) | S11 r \<Rightarrow> True)"

definition opens :: "spgw_input \<Rightarrow> nat" where
  "opens i = (case i of S11 (Create_session_request imsi f) \<Rightarrow> 1 | _ \<Rightarrow> 0)"

lemma delete_gtpu_next [simp]: "sp_next_ctrl_teid (snd (delete_gtpu_tunnel ip s)) = sp_next_ctrl_teid s"
  by (simp add: delete_gtpu_tunnel_def)

lemma read_header_some:
  assumes "bb_ok m" "12 \<le> length (bb_data m)"
  obtains ok m' h where "gtpu_read_header m = Some (ok, m', h)" "bb_ok m'"
proof -
  have n: "12 \<le> unat (bb_N_bytes m)" using assms by (simp add: length_bb_data)
  then have "\<exists>h. gtpu_read_mandatory m = Some h"
    using read_mandatory [OF assms(1) refl] assms(2) by simp
  then obtain h where h: "gtpu_read_mandatory m = Some h" by blast
  have "bb_get m i = Some (bb_data m ! i)" if "i < 12" for i using that n assms(1) by (intro bb_get_data) simp_all
  then have o: "\<exists>h'. gtpu_read_optional 4 m h = Some h'" by (simp add: gtpu_read_optional_def)
  have p: "bb_ok (bb_pull_front 12 m)" "bb_ok (bb_pull_front 8 m)" using bb_pull_front(1) [OF assms(1)] n by simp_all
  show thesis
  proof (cases "gtpu_accepted h")
    case False
    then have "gtpu_read_header m = Some (False, m, h)" using h by (auto simp: gtpu_read_header_def gtpu_accepted_def)
    then show thesis using that assms(1) by blast
  next
    case True
    obtain h' where "gtpu_read_optional 4 m h = Some h'" using o by blast
    then have "gtpu_read_header m = Some (if gtpu_optional_fields h then (True, bb_pull_front 12 m, h') else (True, bb_pull_front 8 m, h))"
      using True h by (simp add: gtpu_read_header_def gtpu_accepted_def bb_pull_front_def GTPU_EXTENDED_HEADER_LEN_def GTPU_BASE_HEADER_LEN_def)
    then show thesis using that p by (cases "gtpu_optional_fields h") auto
  qed
qed

text \<open>What becomes of a packet from the network: four cases.\<close>

definition paged :: "spgw \<Rightarrow> spgw_tunnel_ctx \<Rightarrow> byte_buffer \<Rightarrow> spgw_tunnel_ctx" where
  "paged s c m = c\<lparr>tc_paging_pending := True,
    tc_paging_queue := tc_paging_queue c @ (if length (tc_paging_queue c) < unat (sp_max_paging_queue s) then [m] else [])\<rparr>"

definition notification :: "spgw_tunnel_ctx \<Rightarrow> spgw_event" where
  "notification c = S11_send (Downlink_data_notification (ft_teid (tc_dw_ctrl_fteid c))
    \<lparr>dn_eps_bearer_id_present = True, dn_eps_bearer_id = 5\<rparr>)"

lemma handle_sgi_outcome:
  assumes inv: "spgw_inv s" and m: "sgi_packet m"
  obtains (bad) "\<not> v4_packet (bb_data m)" "handle_sgi_pdu m s = Some (s, [])"
  | (unknown) "v4_packet (bb_data m)" "map_find (ip_dest (bb_data m)) (sp_ip_to_usr_teid s) = None"
      "map_find (ip_dest (bb_data m)) (sp_ip_to_ctr_teid s) = None" "handle_sgi_pdu m s = Some (s, [Pool_deallocate m])"
  | (sent) f m' where "v4_packet (bb_data m)" "map_find (ip_dest (bb_data m)) (sp_ip_to_usr_teid s) = Some f"
      "handle_sgi_pdu m s = Some (s, if 8 \<le> bb_msg m
        then [S1u_send (ft_ipv4 f) (htons GTPU_PORT) (g_pdu (ft_teid f) (bb_data m)), Pool_deallocate m'] else [Pool_deallocate m'])"
  | (paging) t c where "v4_packet (bb_data m)" "map_find (ip_dest (bb_data m)) (sp_ip_to_usr_teid s) = None"
      "map_find (ip_dest (bb_data m)) (sp_ip_to_ctr_teid s) = Some t" "map_find t (sp_teid_to_tunnel_ctx s) = Some c"
      "tc_ue_ipv4 c = ip_dest (bb_data m)" "spgw_inv (write_ctx t (paged s c m) s)"
      "handle_sgi_pdu m s = Some (write_ctx t (paged s c m) s, (if tc_paging_pending c then [] else [notification c]) @
        (if length (tc_paging_queue c) < unat (sp_max_paging_queue s) then [] else [Pool_deallocate m]))"
proof -
  note h = handle_sgi_pdu_cases [OF m, of s]
  have ok: "bb_ok m" using m by (simp add: sgi_packet_def)
  show thesis
  proof (cases "v4_packet (bb_data m)")
    case False
    then show thesis using bad by (simp add: h)
  next
    case v4: True
    show thesis
    proof (cases "map_find (ip_dest (bb_data m)) (sp_ip_to_usr_teid s)")
      case (Some f)
      obtain m' where "send_s1u_pdu f m = Some (if 8 \<le> bb_msg m
        then [S1u_send (ft_ipv4 f) (htons GTPU_PORT) (g_pdu (ft_teid f) (bb_data m)), Pool_deallocate m'] else [Pool_deallocate m'])"
        by (rule send_s1u_pdu_sends [OF ok])
      then show thesis using sent [OF v4 Some, of m'] by (simp add: h v4 Some)
    next
      case None
      show thesis
      proof (cases "map_find (ip_dest (bb_data m)) (sp_ip_to_ctr_teid s)")
        case ctr: None
        then show thesis using unknown v4 None by (simp add: h)
      next
        case (Some t)
        obtain c where c: "map_find t (sp_teid_to_tunnel_ctx s) = Some c" "tc_ue_ipv4 c = ip_dest (bb_data m)"
          using spgw_invD(7) [OF inv Some] by blast
        obtain s' where s': "(let (_, s, evs) = send_downlink_data_notification t s; (_, s, evs') = queue_downlink_packet t m s
            in Some (s, evs @ evs')) = Some (s', (if tc_paging_pending c then [] else [notification c]) @
              (if length (tc_paging_queue c) < unat (sp_max_paging_queue s) then [] else [Pool_deallocate m]))"
          "s' = write_ctx t (paged s c m) s" "spgw_inv s'"
          by (rule page_and_queue [OF inv c(1) ok]) (simp add: paged_def notification_def)
        then show thesis using paging [OF v4 None Some c] by (simp add: h v4 None Some)
      qed
    qed
  qed
qed

lemma spgw_step_inv:
  assumes inv: "spgw_inv s" and i: "input_ok i" and n: "unat (sp_next_ctrl_teid s) + opens i < 2 ^ 32"
  shows "\<exists>s' evs. spgw_step i s = Some (s', evs) \<and> spgw_inv s' \<and> unat (sp_next_ctrl_teid s') = unat (sp_next_ctrl_teid s) + opens i"
proof (cases i)
  case (Sgi m)
  then have m: "sgi_packet m" and o: "opens i = 0" using i by (simp_all add: input_ok_def opens_def)
  show ?thesis by (cases rule: handle_sgi_outcome [OF inv m]) (use Sgi inv o in simp_all)
next
  case (S1u m)
  then obtain ok m' h where h: "gtpu_read_header m = Some (ok, m', h)" "bb_ok m'"
    using i by (auto simp: input_ok_def intro: read_header_some)
  then show ?thesis using inv S1u by (simp add: handle_s1u_pdu_def bb_octets_data opens_def)
next
  case (S11 r)
  show ?thesis
  proof (cases r)
    case (Create_session_request imsi f)
    then have o: "opens i = 1" using S11 by (simp add: opens_def)
    have "unat (sp_next_ctrl_teid s) + 1 < 2 ^ 32" using n o by simp
    from handle_create_session_inv [OF inv this, of imsi f] show ?thesis
      using Create_session_request S11 o by (cases "handle_create_session_request imsi f s") auto
  next
    case (Modify_bearer_request t f)
    have o: "opens i = 0" using Modify_bearer_request S11 by (simp add: opens_def)
    show ?thesis
    proof (cases "map_find t (sp_teid_to_tunnel_ctx s)")
      case None
      then show ?thesis using inv Modify_bearer_request S11 o by (simp add: handle_modify_bearer_request_def)
    next
      case (Some c)
      from handle_modify_bearer [OF inv Some, of f] show ?thesis
        using Modify_bearer_request S11 o by (metis add_0_right handle_s11_pdu.simps(2) modify_gtpu_simps(3) spgw_step.simps(3) write_ctx_simps(5))
    qed
  next
    case (Delete_session_request t)
    then show ?thesis
      using inv S11 by (auto simp: handle_delete_session_request_def opens_def split: option.split intro: delete_gtpc_ctx_inv delete_gtpu_tunnel_inv)
  next
    case (Release_access_bearers_request t)
    then show ?thesis
      using inv S11 by (auto simp: handle_release_access_bearers_request_def opens_def split: option.split intro: delete_gtpu_tunnel_inv)
  next
    case (Downlink_data_notification_acknowledge t cause)
    have "sp_next_ctrl_teid (fst (stop_paging t c s)) = sp_next_ctrl_teid s" for c
      by (simp add: stop_paging_def free_all_queued_packets_def)
    then show ?thesis
      using inv S11 Downlink_data_notification_acknowledge stop_paging_inv [OF inv]
      by (cases "map_find t (sp_teid_to_tunnel_ctx s)")
        (auto simp: handle_downlink_data_notification_acknowledge_def opens_def, (metis prod.collapse)+)
  next
    case (Downlink_data_notification_failure_indication t cause)
    have "sp_next_ctrl_teid (fst (stop_paging t c s)) = sp_next_ctrl_teid s" for c
      by (simp add: stop_paging_def free_all_queued_packets_def)
    then show ?thesis
      using inv S11 Downlink_data_notification_failure_indication stop_paging_inv [OF inv]
      by (cases "map_find t (sp_teid_to_tunnel_ctx s)")
        (auto simp: handle_downlink_data_notification_failure_indication_def opens_def, (metis prod.collapse)+)
  next
    case (Other_gtpc_message k)
    then show ?thesis using inv S11 by (simp add: opens_def)
  qed
qed

section \<open>Where the packet buffers go\<close>

text \<open>
  The thread allocates one buffer for each packet from the network. It is held while the packet waits, and returned to
  the pool by an event; what is neither is gone for good.
\<close>

definition total_queued :: "spgw \<Rightarrow> nat" where
  "total_queued s = sum_list (map (\<lambda>(t, c). length (tc_paging_queue c)) (sp_teid_to_tunnel_ctx s))"

definition queued :: "u32 \<Rightarrow> spgw \<Rightarrow> nat" where
  "queued t s = (case map_find t (sp_teid_to_tunnel_ctx s) of None \<Rightarrow> 0 | Some c \<Rightarrow> length (tc_paging_queue c))"

fun returned :: "spgw_event list \<Rightarrow> nat" where
  "returned [] = 0"
| "returned (Pool_deallocate m # evs) = Suc (returned evs)"
| "returned (_ # evs) = returned evs"

definition allocated :: "spgw_input \<Rightarrow> nat" where
  "allocated i = (case i of Sgi m \<Rightarrow> 1 | _ \<Rightarrow> 0)"

text \<open>The buffers a step loses: those of packets that are not IPv4 and those queued in a context that is deleted.\<close>

definition lost :: "spgw_input \<Rightarrow> spgw \<Rightarrow> nat" where
  "lost i s = (case i of
     Sgi m \<Rightarrow> if v4_packet (bb_data m) then 0 else 1
   | S11 (Create_session_request imsi f) \<Rightarrow> (case map_find imsi (sp_imsi_to_ctr_teid s) of None \<Rightarrow> 0 | Some t \<Rightarrow> queued t s)
   | S11 (Delete_session_request t) \<Rightarrow> queued t s
   | _ \<Rightarrow> 0)"

fun lost_run :: "spgw_input list \<Rightarrow> spgw \<Rightarrow> nat" where
  "lost_run [] s = 0"
| "lost_run (i # is) s = lost i s + (case spgw_step i s of None \<Rightarrow> 0 | Some (s', evs) \<Rightarrow> lost_run is s')"

lemma returned_append [simp]: "returned (evs @ evs') = returned evs + returned evs'"
  by (induction evs rule: returned.induct) simp_all

lemma returned_free [simp]: "returned (map Pool_deallocate ms) = length ms"
  by (induction ms) simp_all

lemma returned_all:
  assumes "\<forall>m \<in> set ms. bb_ok m"
  shows "send_all_queued_packets f ms = Some evs \<Longrightarrow> returned evs = length ms"
  using assms
proof (induction ms arbitrary: evs)
  case (Cons m ms)
  obtain m' where "send_s1u_pdu f m = Some (if 8 \<le> bb_msg m
      then [S1u_send (ft_ipv4 f) (htons GTPU_PORT) (g_pdu (ft_teid f) (bb_data m)), Pool_deallocate m'] else [Pool_deallocate m'])"
    using Cons.prems(2) by (auto intro: send_s1u_pdu_sends [of m f])
  then show ?case using Cons by (auto split: if_splits)
qed simp

lemma total_write:
  "map_find t (sp_teid_to_tunnel_ctx s) = Some c \<Longrightarrow>
   total_queued (write_ctx t c' s) + length (tc_paging_queue c) = total_queued s + length (tc_paging_queue c')"
proof -
  have "map_find t m = Some c \<Longrightarrow>
      sum_list (map (\<lambda>(t, c). length (tc_paging_queue c)) (map_write t c' m)) + length (tc_paging_queue c)
        = sum_list (map (\<lambda>(t, c). length (tc_paging_queue c)) m) + length (tc_paging_queue c')" for m
    by (induction m) (auto split: if_splits)
  then show "map_find t (sp_teid_to_tunnel_ctx s) = Some c \<Longrightarrow>
      total_queued (write_ctx t c' s) + length (tc_paging_queue c) = total_queued s + length (tc_paging_queue c')"
    by (simp add: total_queued_def write_ctx_def)
qed

lemma total_delete: "total_queued (snd (delete_gtpc_ctx t s)) + queued t s = total_queued s"
proof -
  have sum: "map_find t m = Some c \<Longrightarrow>
      sum_list (map (\<lambda>(t, c). length (tc_paging_queue c)) (map_erase t m)) + length (tc_paging_queue c)
        = sum_list (map (\<lambda>(t, c). length (tc_paging_queue c)) m)" for m c
    by (induction m) (auto split: if_splits)
  show ?thesis
  proof (cases "map_find t (sp_teid_to_tunnel_ctx s)")
    case (Some c)
    then show ?thesis using sum [OF Some]
      by (simp add: total_queued_def queued_def delete_gtpc_ctx_def delete_gtpc_tunnel_def Let_def)
  qed (simp add: total_queued_def queued_def delete_gtpc_ctx_def)
qed

lemma total_create: "total_queued (snd (create_gtpc_ctx imsi f s)) = total_queued s"
proof -
  have "tc_paging_queue c = [] \<Longrightarrow> sum_list (map (\<lambda>(t, c). length (tc_paging_queue c)) (snd (map_insert t c m)))
      = sum_list (map (\<lambda>(t, c). length (tc_paging_queue c)) m)" for t :: u32 and c :: spgw_tunnel_ctx and m
    by (induction t c m rule: map_insert.induct) (auto split: prod.splits)
  then show ?thesis
    by (simp add: total_queued_def create_gtpc_ctx_def Let_def get_new_ue_ipv4_def split_beta split: option.split list.split)
qed

lemma total_same [simp]:
  "total_queued (snd (delete_gtpu_tunnel ip s)) = total_queued s" "total_queued (modify_gtpu_tunnel ip f t s) = total_queued s"
  "queued t (snd (delete_gtpu_tunnel ip s)) = queued t s"
  by (simp_all add: total_queued_def queued_def delete_gtpu_tunnel_def modify_gtpu_tunnel_def)

lemma total_stop_paging:
  "map_find t (sp_teid_to_tunnel_ctx s) = Some c \<Longrightarrow>
   total_queued (fst (stop_paging t c s)) + returned (snd (stop_paging t c s)) = total_queued s"
  using total_write [of t s c "c\<lparr>tc_paging_queue := [], tc_paging_pending := False\<rparr>"]
  by (simp add: stop_paging_def free_all_queued_packets_def)

lemma step_accounts:
  assumes inv: "spgw_inv s" and i: "input_ok i" and step: "spgw_step i s = Some (s', evs)"
  shows "total_queued s + allocated i = total_queued s' + returned evs + lost i s"
proof (cases i)
  case (Sgi m)
  then have m: "sgi_packet m" and a: "allocated i = 1" using i by (simp_all add: input_ok_def allocated_def)
  show ?thesis
  proof (cases rule: handle_sgi_outcome [OF inv m])
    case (4 t c)
    then show ?thesis using Sgi step a total_write [of t s c "paged s c m"]
      by (auto simp: lost_def notification_def paged_def)
  qed (use Sgi step a in \<open>auto simp: lost_def split: if_splits\<close>)
next
  case (S1u m)
  then have "returned evs = 0" using step by (auto simp: handle_s1u_pdu_def bind_eq_Some_conv)
  then show ?thesis using S1u step by (auto simp: allocated_def lost_def)
next
  case (S11 r)
  then have a: "allocated i = 0" by (simp add: allocated_def)
  show ?thesis
  proof (cases r)
    case (Create_session_request imsi f)
    then have "s' = fst (handle_create_session_request imsi f s)" "returned evs = 0"
      using step S11 by (auto simp: handle_create_session_request_def split_beta Let_def)
    then show ?thesis using Create_session_request S11 a total_delete [of _ s]
      by (cases "map_find imsi (sp_imsi_to_ctr_teid s)")
        (auto simp: handle_create_session_request_def split_beta Let_def total_create lost_def)
  next
    case (Modify_bearer_request t f)
    show ?thesis
    proof (cases "map_find t (sp_teid_to_tunnel_ctx s)")
      case None
      then show ?thesis using Modify_bearer_request S11 a step by (auto simp: handle_modify_bearer_request_def lost_def)
    next
      case (Some c)
      obtain q where q: "handle_modify_bearer_request t f s = Some (s', q @ [S11_send (Modify_bearer_response (ft_teid (tc_dw_ctrl_fteid c))
          \<lparr>mr_cause = GTPC_CAUSE_VALUE_REQUEST_ACCEPTED, mr_ebi = tc_ebi c, mr_bearer_cause = GTPC_CAUSE_VALUE_REQUEST_ACCEPTED\<rparr>)])"
        "send_all_queued_packets (enb_tunnel f c) (tc_paging_queue c) = Some q"
        "s' = write_ctx t (c\<lparr>tc_dw_user_fteid := enb_tunnel f c, tc_paging_pending := False, tc_paging_queue := []\<rparr>)
          (modify_gtpu_tunnel (tc_ue_ipv4 c) (enb_tunnel f c) t s)"
        by (rule handle_modify_bearer [OF inv Some, of f]) (use step Modify_bearer_request S11 in auto)
      have "\<forall>m \<in> set (tc_paging_queue c). bb_ok m" using spgw_invD(5) [OF inv Some] by (simp add: ctx_ok_def)
      then have "returned q = length (tc_paging_queue c)" using q(2) by (rule returned_all)
      then show ?thesis
        using q(1) step Modify_bearer_request S11 a Some
          total_write [of t "modify_gtpu_tunnel (tc_ue_ipv4 c) (enb_tunnel f c) t s" c
            "c\<lparr>tc_dw_user_fteid := enb_tunnel f c, tc_paging_pending := False, tc_paging_queue := []\<rparr>"]
        by (auto simp: lost_def q(3))
    qed
  next
    case (Delete_session_request t)
    then show ?thesis using S11 a step total_delete [of t]
      by (cases "map_find t (sp_teid_to_tunnel_ctx s)")
        (auto simp: handle_delete_session_request_def lost_def queued_def, metis total_same(1,3) queued_def option.simps(5))
  next
    case (Release_access_bearers_request t)
    then show ?thesis using S11 a step by (auto simp: handle_release_access_bearers_request_def lost_def split: option.splits)
  next
    case (Downlink_data_notification_acknowledge t cause)
    then show ?thesis using S11 a step total_stop_paging [of t s]
      by (cases "map_find t (sp_teid_to_tunnel_ctx s)")
        (auto simp: handle_downlink_data_notification_acknowledge_def lost_def split: if_splits)
  next
    case (Downlink_data_notification_failure_indication t cause)
    then show ?thesis using S11 a step total_stop_paging [of t s]
      by (cases "map_find t (sp_teid_to_tunnel_ctx s)")
        (auto simp: handle_downlink_data_notification_failure_indication_def lost_def)
  next
    case (Other_gtpc_message k)
    then show ?thesis using S11 a step by (auto simp: lost_def)
  qed
qed

section \<open>Whole runs\<close>

lemma spgw_run_keeps:
  assumes "spgw_inv s" "\<forall>i \<in> set is. input_ok i" "unat (sp_next_ctrl_teid s) + sum_list (map opens is) < 2 ^ 32"
  shows "\<exists>s' evs. spgw_run is s = Some (s', evs) \<and> spgw_inv s' \<and>
    total_queued s + sum_list (map allocated is) = total_queued s' + returned evs + lost_run is s"
  using assms
proof (induction "is" arbitrary: s)
  case (Cons i "is")
  have i: "input_ok i" "unat (sp_next_ctrl_teid s) + opens i < 2 ^ 32" using Cons.prems(2,3) by auto
  obtain s1 e1 where 1: "spgw_step i s = Some (s1, e1)" "spgw_inv s1" "unat (sp_next_ctrl_teid s1) = unat (sp_next_ctrl_teid s) + opens i"
    using spgw_step_inv [OF Cons.prems(1) i] by blast
  have "unat (sp_next_ctrl_teid s1) + sum_list (map opens is) < 2 ^ 32" using Cons.prems(3) 1(3) by simp
  then obtain s' evs where "spgw_run is s1 = Some (s', evs)" "spgw_inv s'"
    "total_queued s1 + sum_list (map allocated is) = total_queued s' + returned evs + lost_run is s1"
    using Cons.IH [OF 1(2)] Cons.prems(2) by auto
  then show ?case using 1(1) step_accounts [OF Cons.prems(1) i(1) 1(1)] by simp
qed simp

lemma gtpc_init_inv:
  assumes "gtpc_init ia na ifa ips n (spgw_new a) = Some s"
  shows "spgw_inv s" "total_queued s = 0" "sp_next_ctrl_teid s = 1"
  using assms by (auto simp: gtpc_init_def init_ue_ip_def spgw_new_def spgw_inv_def total_queued_def
      split: prod.splits bool.splits if_splits)


lemma gtpc_init_no_statics:
  "\<exists>s0. gtpc_init inet_addr inet_ntoa sgi_if_addr [] n (spgw_new a) = Some s0"
  by (simp add: gtpc_init_def init_ue_ip_def spgw_new_def del: upt_conv_Cons upt_rec_numeral)


section \<open>Addresses\<close>

text \<open>
  A session that ends does not give its address back: after any run the pool is what the first run of set-ups left of
  it, and with an empty pool a session is still accepted, with address zero.
\<close>

definition dynamic :: "spgw \<Rightarrow> spgw_input \<Rightarrow> nat" where
  "dynamic s i = (case i of S11 (Create_session_request imsi f) \<Rightarrow> if map_find imsi (sp_imsi_to_ip s) = None then 1 else 0 | _ \<Rightarrow> 0)"

lemma delete_gtpc_ctx_pool [simp]:
  "sp_ue_ip_addr_pool (snd (delete_gtpc_ctx t s)) = sp_ue_ip_addr_pool s" "sp_imsi_to_ip (snd (delete_gtpc_ctx t s)) = sp_imsi_to_ip s"
  by (simp_all add: delete_gtpc_ctx_def delete_gtpc_tunnel_def Let_def split: option.split)

lemma delete_gtpu_tunnel_pool [simp]:
  "sp_ue_ip_addr_pool (snd (delete_gtpu_tunnel ip s)) = sp_ue_ip_addr_pool s" "sp_imsi_to_ip (snd (delete_gtpu_tunnel ip s)) = sp_imsi_to_ip s"
  by (simp_all add: delete_gtpu_tunnel_def)

lemma modify_gtpu_tunnel_pool [simp]:
  "sp_ue_ip_addr_pool (modify_gtpu_tunnel ip f t s) = sp_ue_ip_addr_pool s" "sp_imsi_to_ip (modify_gtpu_tunnel ip f t s) = sp_imsi_to_ip s"
  by (simp_all add: modify_gtpu_tunnel_def)

lemma create_session_pool:
  "sp_ue_ip_addr_pool (fst (handle_create_session_request imsi f s)) = drop (dynamic s (S11 (Create_session_request imsi f))) (sp_ue_ip_addr_pool s)"
  "sp_imsi_to_ip (fst (handle_create_session_request imsi f s)) = sp_imsi_to_ip s"
  by (simp_all add: handle_create_session_request_def create_gtpc_ctx_def get_new_ue_ipv4_def dynamic_def Let_def split_beta
      split: option.split list.split)

lemma stop_paging_pool [simp]:
  "sp_ue_ip_addr_pool (fst (stop_paging t c s)) = sp_ue_ip_addr_pool s" "sp_imsi_to_ip (fst (stop_paging t c s)) = sp_imsi_to_ip s"
  by (simp_all add: stop_paging_def free_all_queued_packets_def)

lemma spgw_pool_exhausted:
  assumes "sp_ue_ip_addr_pool s = []" "map_find imsi (sp_imsi_to_ip s) = None"
  shows "\<exists>s' t r. handle_create_session_request imsi f s = (s', [S11_send (Create_session_response t r)]) \<and>
    cr_cause r = GTPC_CAUSE_VALUE_REQUEST_ACCEPTED \<and> cr_paa_ipv4 r = 0"
  using assms by (simp add: handle_create_session_request_def create_gtpc_ctx_def get_new_ue_ipv4_def Let_def split_beta split: option.split)

lemma page_pool [simp]:
  "sp_ue_ip_addr_pool (fst (snd (send_downlink_data_notification t s))) = sp_ue_ip_addr_pool s"
  "sp_imsi_to_ip (fst (snd (send_downlink_data_notification t s))) = sp_imsi_to_ip s"
  "sp_ue_ip_addr_pool (fst (snd (queue_downlink_packet t m s))) = sp_ue_ip_addr_pool s"
  "sp_imsi_to_ip (fst (snd (queue_downlink_packet t m s))) = sp_imsi_to_ip s"
  by (simp_all add: send_downlink_data_notification_def queue_downlink_packet_def split: option.split)

lemma handle_sgi_pool:
  "handle_sgi_pdu m s = Some (s', evs) \<Longrightarrow> sp_ue_ip_addr_pool s' = sp_ue_ip_addr_pool s \<and> sp_imsi_to_ip s' = sp_imsi_to_ip s"
  by (auto simp: handle_sgi_pdu_def bind_eq_Some_conv Let_def split_beta split: if_splits option.splits)

lemma handle_modify_bearer_pool:
  "handle_modify_bearer_request t f s = Some (s', evs) \<Longrightarrow>
   sp_ue_ip_addr_pool s' = sp_ue_ip_addr_pool s \<and> sp_imsi_to_ip s' = sp_imsi_to_ip s"
  by (auto simp: handle_modify_bearer_request_def Let_def split: if_splits option.splits)

lemma stop_paging_frame:
  "stop_paging t c s = (s', evs) \<Longrightarrow> sp_ue_ip_addr_pool s' = sp_ue_ip_addr_pool s \<and> sp_imsi_to_ip s' = sp_imsi_to_ip s"
  using stop_paging_pool [of t c s] by simp

lemma spgw_step_pool:
  assumes "spgw_step i s = Some (s', evs)"
  shows "sp_ue_ip_addr_pool s' = drop (dynamic s i) (sp_ue_ip_addr_pool s) \<and> sp_imsi_to_ip s' = sp_imsi_to_ip s"
proof (cases i)
  case (Sgi m)
  then show ?thesis using assms handle_sgi_pool by (auto simp: dynamic_def)
next
  case (S1u m)
  then show ?thesis using assms by (auto simp: dynamic_def)
next
  case (S11 r)
  show ?thesis
  proof (cases r)
    case (Create_session_request imsi f)
    then show ?thesis using assms S11 create_session_pool [of imsi f s] by simp
  next
    case (Modify_bearer_request t f)
    then show ?thesis using assms S11 handle_modify_bearer_pool by (auto simp: dynamic_def)
  next
    case (Downlink_data_notification_acknowledge t cause)
    then show ?thesis using assms S11
      by (auto simp: dynamic_def handle_downlink_data_notification_acknowledge_def split: option.splits if_splits dest!: stop_paging_frame)
  next
    case (Downlink_data_notification_failure_indication t cause)
    then show ?thesis using assms S11
      by (auto simp: dynamic_def handle_downlink_data_notification_failure_indication_def split: option.splits if_splits dest!: stop_paging_frame)
  qed (use assms S11 in \<open>auto simp: dynamic_def handle_delete_session_request_def handle_release_access_bearers_request_def
      split: option.split\<close>)
qed

lemma dynamic_cong: "sp_imsi_to_ip s' = sp_imsi_to_ip s \<Longrightarrow> dynamic s' = dynamic s"
  by (simp add: dynamic_def fun_eq_iff split: spgw_input.split s11_request.split)

lemma spgw_addresses_not_returned:
  "spgw_run is s = Some (s', evs) \<Longrightarrow> sp_ue_ip_addr_pool s' = drop (sum_list (map (dynamic s) is)) (sp_ue_ip_addr_pool s)"
proof (induction "is" arbitrary: s evs)
  case (Cons i "is")
  obtain s1 e1 evs' where 1: "spgw_step i s = Some (s1, e1)" "spgw_run is s1 = Some (s', evs')"
    using Cons.prems by (auto simp: bind_eq_Some_conv)
  have p: "sp_ue_ip_addr_pool s1 = drop (dynamic s i) (sp_ue_ip_addr_pool s)" "dynamic s1 = dynamic s"
    using spgw_step_pool [OF 1(1)] dynamic_cong by blast+
  show ?case using Cons.IH [OF 1(2)] by (simp add: p add.commute)
qed simp

section \<open>Malformed packets from the eNB\<close>

text \<open>
  The header functions do not look at the length: a datagram that is too short is read together with what the buffer
  held, and the length of its payload wraps around.
\<close>

lemma short_datagram_wraps:
  assumes "gtpu_read_mandatory m = Some h" "gtpu_accepted h" "\<not> gtpu_optional_fields h" "unat (bb_N_bytes m) < 8"
  shows "\<exists>m'. gtpu_read_header m = Some (True, m', h) \<and> 2 ^ 32 - 8 \<le> unat (bb_N_bytes m')"
proof -
  have "gtpu_read_header m = Some (True, bb_pull_front 8 m, h)"
    using assms(1-3) by (simp add: gtpu_read_header_def gtpu_accepted_def bb_pull_front_def GTPU_BASE_HEADER_LEN_def)
  moreover have "unat (bb_N_bytes m - 8) = 2 ^ 32 + unat (bb_N_bytes m) - 8"
    using assms(4) by (simp add: unat_sub_if_size word_size word_less_nat_alt)
  ultimately show ?thesis by (simp add: bb_pull_front_def)
qed

lemma short_datagram_overrun:
  assumes "gtpu_read_mandatory m = Some h" "gtpu_accepted h" "\<not> gtpu_optional_fields h" "unat (bb_N_bytes m) < 8"
    and "length (bb_buffer m) = MAX_BUFFER_SIZE_BYTES"
  shows "handle_s1u_pdu m = None"
proof -
  have r: "gtpu_read_header m = Some (True, bb_pull_front 8 m, h)"
    using assms(1-3) by (simp add: gtpu_read_header_def gtpu_accepted_def bb_pull_front_def GTPU_BASE_HEADER_LEN_def)
  then have "2 ^ 32 - 8 \<le> unat (bb_N_bytes (bb_pull_front 8 m))" using short_datagram_wraps [OF assms(1-4)] by simp
  moreover have "length (bb_buffer (bb_pull_front 8 m)) = MAX_BUFFER_SIZE_BYTES" using assms(5) by (simp add: bb_pull_front_def)
  ultimately show ?thesis by (simp add: handle_s1u_pdu_def r bb_octets_def)
qed

end
