(* ===== verification/Epc_Downlink.thy ===== *)
theory Epc_Downlink
  imports Spgw_Session
begin

unbundle bit_operations_syntax

text \<open>
  A downlink packet from the network to the PDCP of the eNB: the paging queue of the gateway, the GTP-U tunnel and the
  eNB's table of TEIDs together.
\<close>

section \<open>The tunnel\<close>

text \<open>The datagrams the gateway sends to eNBs, and an eNB that receives datagrams one after the other.\<close>

fun s1u_out :: "spgw_event list \<Rightarrow> (u32 \<times> u16 \<times> bytes) list" where
  "s1u_out [] = []"
| "s1u_out (S1u_send addr port x # evs) = (addr, port, x) # s1u_out evs"
| "s1u_out (_ # evs) = s1u_out evs"

fun enb_receive :: "byte_buffer \<Rightarrow> u32 \<Rightarrow> u16 \<Rightarrow> (u32 \<times> u16 \<times> bytes) list \<Rightarrow> enb_gtpu \<Rightarrow> enb_gtpu_event list option" where
  "enb_receive pool_buffer addr port [] g = Some []"
| "enb_receive pool_buffer addr port ((_, _, x) # xs) g =
    Option.bind (handle_gtpu_s1u_rx_packet pool_buffer (received pool_buffer x) addr port g) (\<lambda>evs.
      map_option ((@) evs) (enb_receive pool_buffer addr port xs g))"

lemma s1u_out_append [simp]: "s1u_out (evs @ evs') = s1u_out evs @ s1u_out evs'"
  by (induction evs rule: s1u_out.induct) simp_all

lemma send_all_out:
  assumes "\<forall>m \<in> set ms. bb_ok m \<and> 8 \<le> bb_msg m"
  shows "send_all_queued_packets f ms = Some evs \<Longrightarrow>
    s1u_out evs = map (\<lambda>m. (ft_ipv4 f, htons GTPU_PORT, g_pdu (ft_teid f) (bb_data m))) ms"
  using assms
proof (induction ms arbitrary: evs)
  case (Cons m ms)
  obtain m' where "send_s1u_pdu f m = Some (if 8 \<le> bb_msg m
      then [S1u_send (ft_ipv4 f) (htons GTPU_PORT) (g_pdu (ft_teid f) (bb_data m)), Pool_deallocate m'] else [Pool_deallocate m'])"
    using Cons.prems(2) by (auto intro: send_s1u_pdu_sends [of m f])
  then show ?case using Cons by auto
qed simp

lemma enb_receive_all:
  assumes inv: "enb_gtpu_inv n g" and dest: "tunnel_end (tunnels_of g) t = Some (r, l)"
    and p: "length (bb_buffer p) = MAX_BUFFER_SIZE_BYTES"
    and ms: "\<forall>m \<in> set ms. ip_version_ok (bb_data m) \<and> length (bb_data m) \<le> 9000"
  shows "\<exists>sdus. enb_receive p addr port (map (\<lambda>m. (a, b, g_pdu t (bb_data m))) ms) g = Some (map (Gtpu_pdcp_write_sdu r (ucast l)) sdus) \<and>
    map bb_data sdus = map bb_data ms"
  using ms
proof (induction ms)
  case (Cons m ms)
  then have m: "ip_version_ok (bb_data m)" "bb_data m \<noteq> []" "length (g_pdu t (bb_data m)) \<le> 12237"
    by (simp_all add: ip_version_ok_def g_pdu_def)
  note rcv = received [OF p m(3)]
  have "bb_data (received p (g_pdu t (bb_data m))) = gtpu_mandatory (data_header t (length (bb_data m))) @ bb_data m"
    using rcv(2) by (simp add: g_pdu_def)
  note rx = rx_data_pdu(1) [OF inv rcv(1) this m(2), of p addr port] rx_data_pdu(2) [OF inv rcv(1) this m(2)]
  obtain sdus where "enb_receive p addr port (map (\<lambda>m. (a, b, g_pdu t (bb_data m))) ms) g = Some (map (Gtpu_pdcp_write_sdu r (ucast l)) sdus)"
    "map bb_data sdus = map bb_data ms" using Cons by auto
  then show ?case using rx m(1) dest
    by (intro exI [of _ "bb_pull_front 8 (received p (g_pdu t (bb_data m))) # sdus"]) simp
qed simp

section \<open>Waiting for the page\<close>

definition for_ue :: "u32 \<Rightarrow> byte_buffer \<Rightarrow> bool" where
  "for_ue ip m \<longleftrightarrow> v4_packet (bb_data m) \<and> ip_dest (bb_data m) = ip"

definition waiting :: "spgw_tunnel_ctx \<Rightarrow> byte_buffer list \<Rightarrow> spgw_tunnel_ctx" where
  "waiting c ms = c\<lparr>tc_paging_pending := tc_paging_pending c \<or> ms \<noteq> [], tc_paging_queue := tc_paging_queue c @ ms\<rparr>"

lemma waiting_simps [simp]:
  "waiting c [] = c" "waiting (waiting c ms) ms' = waiting c (ms @ ms')" "tc_ue_ipv4 (waiting c ms) = tc_ue_ipv4 c"
  "tc_paging_queue (waiting c ms) = tc_paging_queue c @ ms" "tc_paging_pending (waiting c ms) \<longleftrightarrow> tc_paging_pending c \<or> ms \<noteq> []"
  "notification (waiting c ms) = notification c" "enb_tunnel f (waiting c ms) = enb_tunnel f c"
  "tc_dw_ctrl_fteid (waiting c ms) = tc_dw_ctrl_fteid c"
  by (simp_all add: waiting_def notification_def enb_tunnel_def disj_assoc)

lemma packets_wait:
  assumes "spgw_inv s" "map_find t (sp_teid_to_tunnel_ctx s) = Some c" "map_find (tc_ue_ipv4 c) (sp_ip_to_ctr_teid s) = Some t"
    "map_find (tc_ue_ipv4 c) (sp_ip_to_usr_teid s) = None" "\<forall>m \<in> set ms. sgi_packet m"
    "length (tc_paging_queue c) + length (filter (for_ue (tc_ue_ipv4 c)) ms) \<le> unat (sp_max_paging_queue s)"
  shows "\<exists>s' evs. spgw_run (map Sgi ms) s = Some (s', evs) \<and> spgw_inv s' \<and>
    map_find t (sp_teid_to_tunnel_ctx s') = Some (waiting c (filter (for_ue (tc_ue_ipv4 c)) ms)) \<and>
    (\<not> tc_paging_pending c \<and> filter (for_ue (tc_ue_ipv4 c)) ms \<noteq> [] \<longrightarrow> notification c \<in> set evs)"
  using assms
proof (induction ms arbitrary: s c)
  case (Cons m ms)
  let ?ip = "tc_ue_ipv4 c"
  let ?mine = "filter (for_ue ?ip) ms"
  have m: "sgi_packet m" and ms: "\<forall>m \<in> set ms. sgi_packet m" using Cons.prems(5) by simp_all
  have step: ?case
    if s1: "handle_sgi_pdu m s = Some (s1, e)" "spgw_inv s1" "sp_ip_to_ctr_teid s1 = sp_ip_to_ctr_teid s"
      "sp_ip_to_usr_teid s1 = sp_ip_to_usr_teid s" "sp_max_paging_queue s1 = sp_max_paging_queue s"
      "map_find t (sp_teid_to_tunnel_ctx s1) = Some (waiting c (if for_ue ?ip m then [m] else []))"
      "for_ue ?ip m \<and> \<not> tc_paging_pending c \<longrightarrow> notification c \<in> set e" for s1 e
  proof -
    let ?c1 = "waiting c (if for_ue ?ip m then [m] else [])"
    have "length (tc_paging_queue ?c1) + length (filter (for_ue (tc_ue_ipv4 ?c1)) ms) \<le> unat (sp_max_paging_queue s1)"
      using Cons.prems(6) by (simp add: s1(5) split: if_splits)
    from Cons.IH [OF s1(2,6) _ _ ms this] Cons.prems(3,4) obtain s' evs where
      "spgw_run (map Sgi ms) s1 = Some (s', evs)" "spgw_inv s'" "map_find t (sp_teid_to_tunnel_ctx s') = Some (waiting ?c1 ?mine)"
      "\<not> tc_paging_pending ?c1 \<and> ?mine \<noteq> [] \<longrightarrow> notification c \<in> set evs"
      by (auto simp: s1(3,4))
    then show ?thesis using s1(1,7) by (cases "for_ue ?ip m") auto
  qed
  show ?case
  proof (cases rule: handle_sgi_outcome [OF Cons.prems(1) m])
    case 1
    then have "\<not> for_ue ?ip m" by (simp add: for_ue_def)
    then show ?thesis using step [OF 1(2)] Cons.prems(1,2) by simp
  next
    case 2
    then have "\<not> for_ue ?ip m" using Cons.prems(3) by (auto simp: for_ue_def)
    then show ?thesis using step [OF 2(4)] Cons.prems(1,2) by simp
  next
    case (3 f m')
    then have "\<not> for_ue ?ip m" using Cons.prems(4) by (auto simp: for_ue_def)
    then show ?thesis using step [OF 3(3)] Cons.prems(1,2) by simp
  next
    case (4 t' c')
    show ?thesis
    proof (cases "for_ue ?ip m")
      case True
      then have "t' = t" "c' = c" using 4(3,4) Cons.prems(2,3) by (auto simp: for_ue_def)
      moreover have "paged s c m = waiting c [m]" using Cons.prems(6) True by (simp add: paged_def waiting_def)
      ultimately show ?thesis
        using step [OF 4(7)] 4(4,6) True Cons.prems(6) by (simp add: find_write_ctx)
    next
      case False
      then have "t' \<noteq> t" using 4(1,4,5) Cons.prems(2) by (auto simp: for_ue_def)
      then show ?thesis using step [OF 4(7)] 4(6) False Cons.prems(2) by (simp add: find_write_ctx)
    qed
  qed
qed simp

section \<open>From the network to the bearer\<close>

text \<open>
  Claim C4. Downlink packets for an idle subscriber reach its bearer. While no user-plane tunnel exists the gateway asks
  once for paging and holds the packets, whatever other traffic comes in between; when the eNB's tunnel endpoint
  arrives in a Modify Bearer Request it sends all of them there, and an eNB whose table has that TEID hands them to the PDCP of the
  bearer: unchanged, in order, none missing.
\<close>

theorem downlink_reaches_bearer:
  assumes "spgw_inv s" "map_find t (sp_teid_to_tunnel_ctx s) = Some c" "map_find (tc_ue_ipv4 c) (sp_ip_to_ctr_teid s) = Some t"
    and "map_find (tc_ue_ipv4 c) (sp_ip_to_usr_teid s) = None" "\<not> tc_paging_pending c"
    and "\<forall>m \<in> set ms. sgi_packet m \<and> 8 \<le> bb_msg m \<and> length (bb_data m) \<le> 9000"
    and "length (filter (for_ue (tc_ue_ipv4 c)) ms) \<le> unat (sp_max_paging_queue s)" "filter (for_ue (tc_ue_ipv4 c)) ms \<noteq> []"
    and "tunnels_allowed ops (0, [])" "tunnel_end (snd (fold tunnel_spec ops (0, []))) (ft_teid f) = Some (r, l)"
    and "length (bb_buffer p) = MAX_BUFFER_SIZE_BYTES"
  shows "\<exists>s1 evs1 s2 evs2 g sdus.
    spgw_run (map Sgi ms) s = Some (s1, evs1) \<and> notification c \<in> set evs1 \<and>
    handle_s11_pdu (Modify_bearer_request t f) s1 = Some (s2, evs2) \<and> (\<forall>x \<in> set (s1u_out evs2). fst x = ft_ipv4 f) \<and>
    tunnel_run ops enb_gtpu_new = Some g \<and>
    enb_receive p addr port (s1u_out evs2) g = Some (map (Gtpu_pdcp_write_sdu r (ucast l)) sdus) \<and>
    map bb_data sdus = map bb_data (filter (for_ue (tc_ue_ipv4 c)) ms)"
proof -
  let ?mine = "filter (for_ue (tc_ue_ipv4 c)) ms"
  have q: "tc_paging_queue c = []" using spgw_invD(5) [OF assms(1,2)] assms(5) by (auto simp: ctx_ok_def)
  have pk: "\<forall>m \<in> set ms. sgi_packet m" using assms(6) by blast
  have "length (tc_paging_queue c) + length ?mine \<le> unat (sp_max_paging_queue s)" using q assms(7) by simp
  from packets_wait [OF assms(1-4) pk this] obtain s1 evs1 where 1: "spgw_run (map Sgi ms) s = Some (s1, evs1)" "spgw_inv s1"
    "map_find t (sp_teid_to_tunnel_ctx s1) = Some (waiting c ?mine)" "notification c \<in> set evs1"
    using assms(5,8) by blast
  obtain s2 q2 resp where 2: "handle_s11_pdu (Modify_bearer_request t f) s1 = Some (s2, q2 @ [S11_send resp])"
    "send_all_queued_packets (enb_tunnel f c) ?mine = Some q2"
    by (rule handle_modify_bearer [OF 1(2,3), of f]) (simp add: q)
  have f: "ft_ipv4 (enb_tunnel f c) = ft_ipv4 f" "ft_teid (enb_tunnel f c) = ft_teid f" by (simp_all add: enb_tunnel_def)
  have "\<forall>m \<in> set ?mine. bb_ok m \<and> 8 \<le> bb_msg m" using assms(6) by (simp add: sgi_packet_def)
  note out = send_all_out [OF this 2(2), unfolded f]
  have "tunnels_allowed ops (0, tunnels_of enb_gtpu_new)" using assms(9) by (simp add: enb_gtpu_inv_new)
  from tunnel_run_keeps [OF enb_gtpu_inv_new(1) this] obtain g n where
    g: "tunnel_run ops enb_gtpu_new = Some g" "fold tunnel_spec ops (0, []) = (n, tunnels_of g)" "enb_gtpu_inv n g"
    by (auto simp: enb_gtpu_inv_new)
  have dest: "tunnel_end (tunnels_of g) (ft_teid f) = Some (r, l)" using assms(10) g(2) by simp
  have "\<forall>m \<in> set ?mine. ip_version_ok (bb_data m) \<and> length (bb_data m) \<le> 9000"
    using assms(6) by (auto simp: for_ue_def v4_packet_def ip_version_ok_def sgi_packet_def)
  from enb_receive_all [OF g(3) dest assms(11) this] obtain sdus where
    "enb_receive p addr port (s1u_out q2) g = Some (map (Gtpu_pdcp_write_sdu r (ucast l)) sdus)" "map bb_data sdus = map bb_data ?mine"
    unfolding out by blast
  then show ?thesis using 1(1,4) 2(1) out g(1)
    by (intro exI [of _ s1] exI [of _ evs1] exI [of _ s2] exI [of _ "q2 @ [S11_send resp]"] exI [of _ g] exI [of _ sdus]) auto
qed

text \<open>An idle session with address \<open>10.0.0.2\<close> and a packet for it.\<close>

definition idle_session :: spgw_tunnel_ctx where
  "idle_session = \<lparr>tc_imsi = 42, tc_ue_ipv4 = 0x0200000A, tc_ebi = 5, tc_up_ctrl_fteid = gtp_fteid_zero\<lparr>ft_teid := 1\<rparr>,
    tc_up_user_fteid = gtp_fteid_zero\<lparr>ft_teid := 1\<rparr>, tc_dw_ctrl_fteid = gtp_fteid_zero\<lparr>ft_teid := 9\<rparr>,
    tc_dw_user_fteid = gtp_fteid_zero, tc_paging_pending = False, tc_paging_queue = []\<rparr>"

definition idle_gateway :: spgw where
  "idle_gateway = (spgw_new 5)\<lparr>sp_ip_to_ctr_teid := [(0x0200000A, 1)], sp_next_ctrl_teid := 2, sp_max_paging_queue := 10,
    sp_imsi_to_ctr_teid := [(42, 1)], sp_teid_to_tunnel_ctx := [(1, idle_session)]\<rparr>"

definition ping :: bytes where
  "ping = [0x45, 0, 0, 20, 0, 0, 0, 0, 64, 1, 0, 0, 10, 0, 0, 1, 10, 0, 0, 2]"

lemma idle_gateway_inv: "spgw_inv idle_gateway"
  by (simp add: spgw_inv_def idle_gateway_def spgw_new_def ctx_ok_def idle_session_def gtp_fteid_zero_def)

lemma ping_for_ue:
  "sgi_packet (received byte_buffer_new ping)" "8 \<le> bb_msg (received byte_buffer_new ping)"
  "length (bb_data (received byte_buffer_new ping)) \<le> 9000" "for_ue 0x0200000A (received byte_buffer_new ping)"
proof -
  have new: "length (bb_buffer byte_buffer_new) = MAX_BUFFER_SIZE_BYTES" by (simp add: byte_buffer_new_def)
  have l: "length ping = 20" by (simp add: ping_def)
  then have len: "length ping \<le> 12237" by simp
  note r = received [OF new len]
  show "sgi_packet (received byte_buffer_new ping)" "8 \<le> bb_msg (received byte_buffer_new ping)"
    "length (bb_data (received byte_buffer_new ping)) \<le> 9000"
    by (simp_all add: r sgi_packet_def l)
  show "for_ue 0x0200000A (received byte_buffer_new ping)"
    unfolding for_ue_def r by (simp add: v4_packet_def ip_dest_def ping_def uint8_to_uint16_def uint8_to_uint32_def)
qed

theorem downlink_reaches_bearer_witness:
  "\<exists>s1 evs1 s2 evs2 g sdu.
    spgw_run [Sgi (received byte_buffer_new ping)] idle_gateway = Some (s1, evs1) \<and>
    handle_s11_pdu (Modify_bearer_request 1 (gtp_fteid_zero\<lparr>ft_teid := 1\<rparr>)) s1 = Some (s2, evs2) \<and>
    tunnel_run [Add_bearer 0x46 3 1 7] enb_gtpu_new = Some g \<and>
    enb_receive byte_buffer_new 0 0 (s1u_out evs2) g = Some [Gtpu_pdcp_write_sdu 0x46 3 sdu] \<and>
    bb_data sdu = bb_data (received byte_buffer_new ping)"
proof -
  let ?m = "received byte_buffer_new ping" and ?f = "gtp_fteid_zero\<lparr>ft_teid := 1\<rparr>" and ?ops = "[Add_bearer 0x46 3 1 7]"
  have c: "map_find 1 (sp_teid_to_tunnel_ctx idle_gateway) = Some idle_session"
    "map_find (tc_ue_ipv4 idle_session) (sp_ip_to_ctr_teid idle_gateway) = Some 1"
    "map_find (tc_ue_ipv4 idle_session) (sp_ip_to_usr_teid idle_gateway) = None" "\<not> tc_paging_pending idle_session"
    by (simp_all add: idle_gateway_def idle_session_def spgw_new_def)
  have ip: "for_ue (tc_ue_ipv4 idle_session) ?m" using ping_for_ue(4) by (simp add: idle_session_def)
  have ms: "\<forall>m \<in> set [?m]. sgi_packet m \<and> 8 \<le> bb_msg m \<and> length (bb_data m) \<le> 9000" using ping_for_ue by simp
  have mine: "length (filter (for_ue (tc_ue_ipv4 idle_session)) [?m]) \<le> unat (sp_max_paging_queue idle_gateway)"
    "filter (for_ue (tc_ue_ipv4 idle_session)) [?m] \<noteq> []"
    using ip by (simp_all add: idle_gateway_def)
  have ops: "tunnels_allowed ?ops (0, [])" "tunnel_end (snd (fold tunnel_spec ?ops (0, []))) (ft_teid ?f) = Some (0x46, 3)"
    by (simp_all add: SRSENB_N_RADIO_BEARERS_def tunnel_end_def SRSENB_N_SRB_def)
  have new: "length (bb_buffer byte_buffer_new) = MAX_BUFFER_SIZE_BYTES" by (simp add: byte_buffer_new_def)
  obtain s1 evs1 s2 evs2 g sdus where r: "spgw_run (map Sgi [?m]) idle_gateway = Some (s1, evs1)"
    "handle_s11_pdu (Modify_bearer_request 1 ?f) s1 = Some (s2, evs2)" "tunnel_run ?ops enb_gtpu_new = Some g"
    "enb_receive byte_buffer_new 0 0 (s1u_out evs2) g = Some (map (Gtpu_pdcp_write_sdu 0x46 (ucast (3 :: u16))) sdus)"
    "map bb_data sdus = map bb_data (filter (for_ue (tc_ue_ipv4 idle_session)) [?m])"
    using downlink_reaches_bearer [OF idle_gateway_inv c ms mine ops new, of 0 0] by blast
  then obtain sdu where "sdus = [sdu]" "bb_data sdu = bb_data ?m" using ip by auto
  then show ?thesis using r
    by (intro exI [of _ s1] exI [of _ evs1] exI [of _ s2] exI [of _ evs2] exI [of _ g] exI [of _ sdu]) (simp del: tunnel_run.simps spgw_run.simps)
qed

end
